(* ===== verification/Prelude.thy ===== *)
theory Prelude
  imports Main "HOL-Library.Word"
begin

text \<open>
  Shared vocabulary of the development: the byte and slice types, Go's
  fixed-width integer conversions, the error values every fallible operation
  returns, and the sequencing combinator that stands for the pattern
  \<^verbatim>\<open>x, err := f(); if err != nil { return err }\<close>.  The two contracts several
  components share (a byte codec and a state machine with an invariant) are
  stated here as locales and interpreted by the components that provide them.
\<close>

unbundle bit_operations_syntax

named_theorems go_arith \<open>evaluation rules of Go's fixed-width integers\<close>
named_theorems res_simps \<open>evaluation rules of results that carry a state\<close>

section \<open>Bytes and integers\<close>

type_synonym byte = "8 word"
type_synonym bytes = "8 word list"

text \<open>The conversions \<^verbatim>\<open>int32(x)\<close>, \<^verbatim>\<open>int64(x)\<close> and the unsigned ones wrap around.\<close>

definition int32 :: "int \<Rightarrow> int" where
  "int32 x = signed_take_bit 31 x"

definition int64 :: "int \<Rightarrow> int" where
  "int64 x = signed_take_bit 63 x"

definition uint64 :: "int \<Rightarrow> int" where
  "uint64 x = take_bit 64 x"

definition uint32 :: "int \<Rightarrow> int" where
  "uint32 x = take_bit 32 x"

lemma int32_id [go_arith]: "- (2 ^ 31) \<le> x \<Longrightarrow> x < 2 ^ 31 \<Longrightarrow> int32 x = x"
  unfolding int32_def by (rule signed_take_bit_int_eq_self) auto

lemma int64_id [go_arith]: "- (2 ^ 63) \<le> x \<Longrightarrow> x < 2 ^ 63 \<Longrightarrow> int64 x = x"
  unfolding int64_def by (rule signed_take_bit_int_eq_self) auto

lemma int64_nonneg [go_arith]: "0 \<le> x \<Longrightarrow> x < 2 ^ 63 \<Longrightarrow> int64 x = x"
  by (rule int64_id) auto

lemma int32_range: "- (2 ^ 31) \<le> int32 x \<and> int32 x < 2 ^ 31"
  unfolding int32_def
  using signed_take_bit_int_greater_eq_minus_exp [of 31 x]
    signed_take_bit_int_less_exp [of 31 x] by simp

lemma int64_range: "- (2 ^ 63) \<le> int64 x \<and> int64 x < 2 ^ 63"
  unfolding int64_def
  using signed_take_bit_int_greater_eq_minus_exp [of 63 x]
    signed_take_bit_int_less_exp [of 63 x] by simp

lemma int32_length [go_arith]: "length xs < 2 ^ 31 \<Longrightarrow> int32 (int (length xs)) = int (length xs)"
  by (rule int32_id) (auto simp flip: of_nat_less_iff)

lemma uint64_id [go_arith]: "0 \<le> x \<Longrightarrow> x < 2 ^ 64 \<Longrightarrow> uint64 x = x"
  unfolding uint64_def by (simp add: take_bit_int_eq_self)

lemma uint32_id [go_arith]: "0 \<le> x \<Longrightarrow> x < 2 ^ 32 \<Longrightarrow> uint32 x = x"
  unfolding uint32_def by (simp add: take_bit_int_eq_self)

lemma byte_range: "0 \<le> uint (b :: byte) \<and> uint b < 256"
  using uint_bounded [of b] by simp

lemma unat_byte_less [simp]: "unat (b :: byte) < 256"
  by (rule order_less_le_trans [OF unsigned_less]) simp

section \<open>Results\<close>

text \<open>
  An operation that may fail and mutates a receiver of type \<open>'s\<close> returns the
  error or the value, together with the receiver as the operation left it.
  \<open>Panic\<close> is a run-time panic (an index out of range, a failed type assertion,
  a division by zero).
\<close>

datatype 'c goerr = ScriptErr 'c | OtherErr string | Panic

type_synonym ('c, 's, 'a) res = "('c goerr + 'a) \<times> 's"

definition bindE :: "('e + 'a) \<times> 's \<Rightarrow> ('a \<Rightarrow> 's \<Rightarrow> ('e + 'b) \<times> 's) \<Rightarrow> ('e + 'b) \<times> 's" where
  "bindE r k = (case r of (Inl e, s) \<Rightarrow> (Inl e, s) | (Inr a, s) \<Rightarrow> k a s)"

definition bindR :: "'e + 'a \<Rightarrow> ('a \<Rightarrow> 'e + 'b) \<Rightarrow> 'e + 'b" where
  "bindR r k = (case r of Inl e \<Rightarrow> Inl e | Inr a \<Rightarrow> k a)"

lemma bindE_simps [simp, res_simps]:
  "bindE (Inl e, s) k = (Inl e, s)"
  "bindE (Inr a, s) k = k a s"
  by (simp_all add: bindE_def)

lemma bindR_simps [simp, res_simps]:
  "bindR (Inl e) k = Inl e"
  "bindR (Inr a) k = k a"
  by (simp_all add: bindR_def)

lemma bindE_Inr:
  "bindE r k = (Inr b, s') \<longleftrightarrow> (\<exists>a s. r = (Inr a, s) \<and> k a s = (Inr b, s'))"
  by (cases r; cases "fst r") auto

lemma bindR_Inr: "bindR r k = Inr b \<longleftrightarrow> (\<exists>a. r = Inr a \<and> k a = Inr b)"
  by (cases r) auto

lemma bindE_cases [consumes 1, case_names err ok]:
  assumes "bindE r k = (x, s')"
  obtains e where "r = (Inl e, s')" "x = Inl e"
  | a s where "r = (Inr a, s)" "k a s = (x, s')"
  using assms by (cases r; cases "fst r") auto

section \<open>Shared list lemmas\<close>

lemma take_nth_drop:
  "i < length xs \<Longrightarrow> take i xs @ xs ! i # drop (Suc i) xs = xs"
  by (simp add: id_take_nth_drop [symmetric])

lemma last_nth: "xs \<noteq> [] \<Longrightarrow> xs ! (length xs - Suc 0) = last xs"
  by (simp add: last_conv_nth)

lemma update_last: "xs \<noteq> [] \<Longrightarrow> xs[length xs - Suc 0 := y] = butlast xs @ [y]"
  by (cases xs rule: rev_cases) auto

section \<open>Contracts\<close>

text \<open>
  A byte codec: an encoder that is total on the valid values and a decoder
  that undoes it.  The client facts are that the encoding is injective and
  that a decoded value can be read back off its bytes.
\<close>

locale codec =
  fixes valid :: "'a \<Rightarrow> bool"
    and enc :: "'a \<Rightarrow> 'b"
    and dec :: "'b \<Rightarrow> 'a option"
  assumes dec_enc: "valid x \<Longrightarrow> dec (enc x) = Some x"
begin

lemma enc_inj: "valid x \<Longrightarrow> valid y \<Longrightarrow> enc x = enc y \<longleftrightarrow> x = y"
  using dec_enc by (metis option.inject)

lemma enc_inj_on: "inj_on enc {x. valid x}"
  by (rule inj_onI) (simp add: enc_inj)

end

text \<open>
  A codec whose decoder accepts only what the encoder writes: the encoding is
  canonical, so two byte strings that decode to the same value are equal.
\<close>

locale canonical_codec = codec +
  assumes enc_dec: "dec b = Some x \<Longrightarrow> enc x = b \<and> valid x"
begin

lemma dec_inj: "dec a = Some x \<Longrightarrow> dec b = Some x \<Longrightarrow> a = b"
  using enc_dec by metis

lemma dec_iff: "dec b = Some x \<longleftrightarrow> valid x \<and> enc x = b"
  using enc_dec dec_enc by metis

end

text \<open>
  A deterministic machine whose successful steps keep an invariant.  A run is
  a finite sequence of successful steps, counted by the relation.
\<close>

inductive steps :: "('s \<Rightarrow> 's option) \<Rightarrow> nat \<Rightarrow> 's \<Rightarrow> 's \<Rightarrow> bool" for step where
  steps_refl: "steps step 0 s s"
| steps_step: "step s = Some t \<Longrightarrow> steps step n t u \<Longrightarrow> steps step (Suc n) s u"

inductive_cases steps_0E: "steps step 0 s t"
inductive_cases steps_SucE: "steps step (Suc n) s t"

locale invariant_machine =
  fixes step :: "'s \<Rightarrow> 's option"
    and inv :: "'s \<Rightarrow> bool"
  assumes step_inv: "inv s \<Longrightarrow> step s = Some t \<Longrightarrow> inv t"
begin

lemma steps_inv: "steps step n s t \<Longrightarrow> inv s \<Longrightarrow> inv t"
  by (induction rule: steps.induct) (auto intro: step_inv)

end

text \<open>A machine that also decreases a measure cannot run for longer than the measure.\<close>

locale terminating_machine = invariant_machine +
  fixes mu :: "'s \<Rightarrow> nat"
  assumes step_mu: "inv s \<Longrightarrow> step s = Some t \<Longrightarrow> mu t < mu s"
begin

lemma steps_mu: "steps step n s t \<Longrightarrow> inv s \<Longrightarrow> n + mu t \<le> mu s"
proof (induction rule: steps.induct)
  case (steps_step s t n u)
  then have "mu t < mu s" and "n + mu u \<le> mu t"
    by (auto intro: step_inv step_mu)
  then show ?case by simp
qed simp

lemma steps_end: "inv s \<Longrightarrow> \<exists>n t. n \<le> mu s \<and> steps step n s t \<and> step t = None"
proof (induction "mu s" arbitrary: s rule: less_induct)
  case less
  show ?case
  proof (cases "step s")
    case None
    then show ?thesis using steps_refl by (metis le0)
  next
    case (Some t)
    with less.prems have "mu t < mu s" and "inv t"
      by (auto intro: step_mu step_inv)
    with less.hyps obtain n u where "n \<le> mu t" and "steps step n t u" and "step u = None" by blast
    then have "Suc n \<le> mu s" and "steps step (Suc n) s u"
      using Some steps_step [of step s t n u] \<open>mu t < mu s\<close> by simp_all
    with \<open>step u = None\<close> show ?thesis by blast
  qed
qed

end

end
