(* ===== verification/ScriptError.thy ===== *)
theory ScriptError
  imports Prelude
begin

text \<open>
  The error codes of the script engine (\<^verbatim>\<open>tokenengine/internal/txscript/error.go\<close>).
  A \<^verbatim>\<open>scriptError(c, desc)\<close> is \<open>ScriptErr c\<close>; its description string only
  serves the reader of a log and is not modelled.
\<close>

datatype (plugins del: "quickcheck" "size") ErrorCode =
    ErrInternal
  | ErrInvalidFlags
  | ErrInvalidIndex
  | ErrUnsupportedAddress
  | ErrNotMultisigScript
  | ErrTooManyRequiredSigs
  | ErrTooMuchNullData
  | ErrEarlyReturn
  | ErrEmptyStack
  | ErrEvalFalse
  | ErrScriptUnfinished
  | ErrInvalidProgramCounter
  | ErrScriptTooBig
  | ErrElementTooBig
  | ErrTooManyOperations
  | ErrStackOverflow
  | ErrInvalidPubKeyCount
  | ErrInvalidSignatureCount
  | ErrNumberTooBig
  | ErrVerify
  | ErrEqualVerify
  | ErrNumEqualVerify
  | ErrCheckSigVerify
  | ErrCheckMultiSigVerify
  | ErrDisabledOpcode
  | ErrReservedOpcode
  | ErrMalformedPush
  | ErrInvalidStackOperation
  | ErrUnbalancedConditional
  | ErrMinimalData
  | ErrInvalidSigHashType
  | ErrSigDER
  | ErrSigHighS
  | ErrNotPushOnly
  | ErrSigNullDummy
  | ErrPubKeyType
  | ErrCleanStack
  | ErrNullFail
  | ErrWitnessMalleated
  | ErrWitnessMalleatedP2SH
  | ErrDiscourageUpgradableNOPs
  | ErrNegativeLockTime
  | ErrUnsatisfiedLockTime
  | ErrMinimalIf
  | ErrDiscourageUpgradableWitnessProgram
  | ErrWitnessProgramEmpty
  | ErrWitnessProgramMismatch
  | ErrWitnessProgramWrongLength
  | ErrWitnessUnexpected
  | ErrWitnessPubKeyType

type_synonym serr = "ErrorCode goerr"

text \<open>\<^verbatim>\<open>IsErrorCode\<close>: whether an error is the script error with the given code.\<close>

fun IsErrorCode :: "serr \<Rightarrow> ErrorCode \<Rightarrow> bool" where
  "IsErrorCode (ScriptErr c') c = (c' = c)"
| "IsErrorCode (OtherErr m) c = False"
| "IsErrorCode Panic c = False"

lemma IsErrorCode_iff: "IsErrorCode e c \<longleftrightarrow> e = ScriptErr c"
  by (cases e) auto

end
