(* ===== verification/ScriptNum.thy ===== *)
theory ScriptNum
  imports ScriptError
begin

text \<open>
  Script numbers (\<^verbatim>\<open>tokenengine/internal/txscript/scriptnum.go\<close>): the little
  endian, sign-bit encoding every number on the data stack has.  \<open>Bytes\<close> is the
  encoder, \<open>makeScriptNum\<close> the decoder with the consensus length limit and the
  optional minimality check.  The results: the decoder undoes the encoder, a
  minimally checked decoder accepts exactly the encoder's output, and a four
  byte number lies between \<open>-2^31+1\<close> and \<open>2^31-1\<close>.
\<close>

section \<open>Definitions\<close>

definition maxInt32 :: int where
  "maxInt32 = 2 ^ 31 - 1"

definition minInt32 :: int where
  "minInt32 = - (2 ^ 31)"

definition defaultScriptNumLen :: nat where
  "defaultScriptNumLen = 4"

definition checkMinimalDataEncoding :: "bytes \<Rightarrow> serr + unit" where
  "checkMinimalDataEncoding v =
     (if length v = 0 then Inr ()
      else if v ! (length v - 1) AND 0x7f = 0 then
        (if length v = 1 \<or> v ! (length v - 2) AND 0x80 = 0
         then Inl (ScriptErr ErrMinimalData) else Inr ())
      else Inr ())"

text \<open>The encoding loop of \<^verbatim>\<open>Bytes\<close>: the bytes of a positive number, low byte first.\<close>

function bytesLoop :: "int \<Rightarrow> bytes" where
  "bytesLoop n = (if n > 0 then word_of_int (n AND 0xff) # bytesLoop (drop_bit 8 n) else [])"
  by pat_completeness auto
termination
  by (relation "measure nat") (auto simp: drop_bit_int_def)

declare bytesLoop.simps [simp del]

definition Bytes :: "int \<Rightarrow> serr + bytes" where
  "Bytes n =
     (if n = 0 then Inr []
      else
        let isNegative = n < 0;
            n' = (if isNegative then int64 (- n) else n);
            result = bytesLoop n'
        in if result = [] then Inl Panic
           else if result ! (length result - 1) AND 0x80 \<noteq> 0 then
             Inr (result @ [if isNegative then 0x80 else 0x00])
           else if isNegative then
             Inr (result[length result - 1 := result ! (length result - 1) OR 0x80])
           else Inr result)"

definition Int32 :: "int \<Rightarrow> int" where
  "Int32 n = (if n > maxInt32 then maxInt32 else if n < minInt32 then minInt32 else int32 n)"

text \<open>The decoding loop: byte \<open>i\<close> is shifted into place and or-ed into the result.\<close>

fun decodeLoop :: "nat \<Rightarrow> int \<Rightarrow> bytes \<Rightarrow> int" where
  "decodeLoop i result [] = result"
| "decodeLoop i result (val # vs) =
     decodeLoop (Suc i) (result OR int64 (push_bit ((8 * i) mod 256) (uint val))) vs"

definition makeScriptNum :: "bytes \<Rightarrow> bool \<Rightarrow> nat \<Rightarrow> serr + int" where
  "makeScriptNum v requireMinimal scriptNumLen =
     (if length v > scriptNumLen then Inl (ScriptErr ErrNumberTooBig)
      else bindR (if requireMinimal then checkMinimalDataEncoding v else Inr ()) (\<lambda>_.
        if length v = 0 then Inr 0
        else
          let result = decodeLoop 0 0 v
          in if v ! (length v - 1) AND 0x80 \<noteq> 0 then
               Inr (int64 (- (result AND NOT (int64 (push_bit ((8 * (length v - 1)) mod 256) 0x80)))))
             else Inr result))"

section \<open>Reference semantics\<close>

text \<open>The little endian value of a byte string, and the sign-and-magnitude reading of it.\<close>

fun le_val :: "bytes \<Rightarrow> int" where
  "le_val [] = 0"
| "le_val (b # bs) = uint b + 256 * le_val bs"

definition snum :: "bytes \<Rightarrow> int" where
  "snum v =
     (if v = [] then 0
      else if uint (last v) \<ge> 128 then - (le_val v - 2 ^ (8 * length v - 1))
      else le_val v)"

definition minimal :: "bytes \<Rightarrow> bool" where
  "minimal v \<longleftrightarrow> v = [] \<or> uint (last v) mod 128 \<noteq> 0 \<or>
     (length v \<ge> 2 \<and> uint (v ! (length v - 2)) \<ge> 128)"

lemma le_val_nonneg: "0 \<le> le_val v"
  by (induction v) auto

lemma le_val_less: "le_val v < 256 ^ length v"
proof (induction v)
  case (Cons b bs)
  have "uint b < 256" using byte_range by blast
  with Cons show ?case by auto
qed simp

lemma le_val_append: "le_val (xs @ ys) = le_val xs + 256 ^ length xs * le_val ys"
  by (induction xs) (auto simp: algebra_simps)

lemma le_val_split:
  "v \<noteq> [] \<Longrightarrow> le_val v = le_val (butlast v) + 256 ^ (length v - 1) * uint (last v)"
  using le_val_append [of "butlast v" "[last v]"] by simp

section \<open>Bits of a byte\<close>

lemma uint_and_7f: "uint ((b :: byte) AND 0x7f) = uint b mod 128"
proof -
  have "uint b AND 127 = take_bit 7 (uint b)"
    by (simp add: take_bit_eq_mask mask_eq_exp_minus_1)
  then show ?thesis by (simp add: uint_and take_bit_eq_mod)
qed

lemma and_7f_zero: "(b :: byte) AND 0x7f = 0 \<longleftrightarrow> uint b mod 128 = 0"
  unfolding uint_and_7f [symmetric] by (simp add: uint_0_iff)

lemma bit7_iff: "bit (b :: byte) 7 \<longleftrightarrow> 128 \<le> uint b"
proof -
  have "uint b div 128 = 0 \<or> uint b div 128 = 1" using byte_range [of b] by linarith
  moreover have "bit b 7 \<longleftrightarrow> odd (uint b div 128)"
    by (simp add: bit_uint_iff flip: bit_int_def [of _ 7, simplified])
  ultimately show ?thesis using byte_range [of b] by auto
qed

lemma and_80_zero: "(b :: byte) AND 0x80 = 0 \<longleftrightarrow> uint b < 128"
  using and_exp_eq_0_iff_not_bit [of b 7] bit7_iff [of b] by auto

lemma uint_or_80: "uint b < 128 \<Longrightarrow> uint ((b :: byte) OR 0x80) = uint b + 128"
proof -
  assume "uint b < 128"
  then have "b AND 0x80 = 0" by (simp add: and_80_zero)
  then have "uint (b AND 0x80) = 0" by simp
  then have "uint b AND 128 = 0" by (simp only: uint_and uint_numeral) simp
  then show ?thesis by (simp add: uint_or disjunctive_add_eq_or)
qed

lemma pow256: "(256 :: int) ^ n = 2 ^ (8 * n)"
  by (simp add: power_mult)

lemma or_push_bit:
  fixes r u :: int
  assumes "0 \<le> r" and "r < 2 ^ k"
  shows "r OR push_bit k u = r + u * 2 ^ k"
proof -
  have "r = take_bit k r" using assms by (simp add: take_bit_int_eq_self)
  then have "\<not> bit r n \<or> \<not> bit (push_bit k u) n" for n
    by (metis bit_push_bit_iff bit_take_bit_iff not_le)
  then have "r + push_bit k u = r OR push_bit k u" by (rule disjunctive_add)
  then show ?thesis by (simp add: push_bit_eq_mult)
qed

section \<open>The decoder\<close>

lemma decodeLoop_eq:
  "0 \<le> r \<Longrightarrow> r < 2 ^ (8 * i) \<Longrightarrow> i + length vs \<le> 7 \<Longrightarrow>
   decodeLoop i r vs = r + 2 ^ (8 * i) * le_val vs"
proof (induction vs arbitrary: i r)
  case (Cons b vs)
  have b: "0 \<le> uint b" "uint b < 256" using byte_range [of b] by auto
  have i: "i \<le> 6" using Cons.prems by simp
  have "uint b * 2 ^ (8 * i) < 256 * 2 ^ (8 * i)" using b by simp
  also have "\<dots> \<le> 256 * 2 ^ (8 * 6)" using i by (intro mult_left_mono power_increasing) auto
  finally have "int64 (uint b * 2 ^ (8 * i)) = uint b * 2 ^ (8 * i)"
    using b by (intro int64_nonneg) auto
  then have "int64 (push_bit (8 * i mod 256) (uint b)) = uint b * 2 ^ (8 * i)"
    using i by (simp add: push_bit_eq_mult)
  then have step: "r OR int64 (push_bit (8 * i mod 256) (uint b)) = r + uint b * 2 ^ (8 * i)"
    using or_push_bit [OF Cons.prems(1,2), of "uint b"] by (simp add: push_bit_eq_mult)
  have "r + uint b * 2 ^ (8 * i) < 2 ^ (8 * i) + 255 * 2 ^ (8 * i)"
    using Cons.prems(2) b by (intro add_less_le_mono mult_right_mono) auto
  also have "\<dots> = 2 ^ (8 * Suc i)" by (simp add: power_add)
  finally have "decodeLoop (Suc i) (r + uint b * 2 ^ (8 * i)) vs
      = r + uint b * 2 ^ (8 * i) + 2 ^ (8 * Suc i) * le_val vs"
    using Cons.prems b by (intro Cons.IH) auto
  then show ?case unfolding decodeLoop.simps step by (simp add: power_add algebra_simps)
qed simp

lemma checkMinimal_iff: "checkMinimalDataEncoding v = Inr () \<longleftrightarrow> minimal v"
  by (cases "v = []")
    (auto simp: checkMinimalDataEncoding_def minimal_def and_7f_zero and_80_zero last_conv_nth
       Suc_le_eq length_greater_0_conv [symmetric] simp del: length_greater_0_conv)

lemma checkMinimal_err:
  "\<not> minimal v \<Longrightarrow> checkMinimalDataEncoding v = Inl (ScriptErr ErrMinimalData)"
  using checkMinimal_iff [of v] by (auto simp: checkMinimalDataEncoding_def split: if_splits)

text \<open>The top bit of the last byte is bit \<open>8 * length v - 1\<close> of the value.\<close>

lemma bit_le_val:
  assumes "v \<noteq> []" and "128 \<le> uint (last v)"
  shows "bit (le_val v) (8 * length v - 1)"
proof -
  let ?k = "8 * (length v - 1)"
  have len: "8 * length v - 1 = ?k + 7" using assms(1) by (cases v) auto
  have "le_val v = le_val (butlast v) + uint (last v) * 2 ^ ?k"
    using le_val_split [OF assms(1)] by (simp add: pow256 mult.commute)
  moreover have "0 \<le> le_val (butlast v)" "le_val (butlast v) < 2 ^ ?k"
    using le_val_nonneg le_val_less [of "butlast v"] by (simp_all add: pow256)
  ultimately have "le_val v = le_val (butlast v) OR push_bit ?k (uint (last v))"
    by (simp add: or_push_bit)
  moreover have "bit (push_bit ?k (uint (last v))) (?k + 7)"
    using assms(2) bit7_iff [of "last v"] by (simp add: bit_push_bit_iff bit_uint_iff)
  ultimately show ?thesis unfolding len by (simp add: bit_or_iff)
qed

lemma makeScriptNum_eq:
  assumes "L \<le> 7"
  shows "makeScriptNum v rm L =
    (if length v > L then Inl (ScriptErr ErrNumberTooBig)
     else if rm \<and> \<not> minimal v then Inl (ScriptErr ErrMinimalData)
     else Inr (snum v))"
proof (cases "length v > L \<or> v = []")
  case True
  then show ?thesis by (auto simp: makeScriptNum_def snum_def minimal_def checkMinimalDataEncoding_def)
next
  case False
  then have len: "length v \<le> 7" "v \<noteq> []" using assms by auto
  define k where "k = 8 * length v - 1"
  have k: "k = 8 * (length v - 1) + 7" "k \<le> 55" unfolding k_def using len by (cases v, auto)
  have dec: "decodeLoop 0 0 v = le_val v" using decodeLoop_eq [of 0 0 v] len by simp
  have lv: "0 \<le> le_val v" "le_val v < 2 ^ 56"
    using le_val_nonneg le_val_less [of v] power_increasing [of "length v" 7 "256 :: int"] len by auto
  have "int64 (push_bit (8 * (length v - 1) mod 256) 0x80) = 2 ^ k"
  proof -
    have "8 * (length v - 1) < 256" using len by simp
    moreover have "(128 :: int) * 2 ^ (8 * (length v - 1)) = 2 ^ k" by (simp add: k(1) power_add)
    moreover have "(2 :: int) ^ k \<le> 2 ^ 55" using k(2) by (intro power_increasing) auto
    ultimately show ?thesis by (simp add: push_bit_eq_mult int64_nonneg)
  qed
  then have clr: "le_val v AND NOT (int64 (push_bit (8 * (length v - 1) mod 256) 0x80)) = unset_bit k (le_val v)"
    by (simp add: unset_bit_eq_and_not push_bit_eq_mult)
  have neg: "int64 (- unset_bit k (le_val v)) = - (le_val v - 2 ^ k)" if "128 \<le> uint (last v)"
  proof -
    define u where "u = unset_bit k (le_val v)"
    have eq: "u = le_val v - 2 ^ k"
      using bit_le_val [OF len(2) that] by (simp add: unset_bit_eq k_def u_def)
    moreover have "(0 :: int) < 2 ^ k" by simp
    ultimately have "u < 2 ^ 56" using lv by linarith
    moreover have "0 \<le> u" using lv by (simp add: u_def)
    ultimately have "int64 (- u) = - u" by (intro int64_id) auto
    with eq show ?thesis by (simp add: u_def)
  qed
  show ?thesis
    using False len dec clr neg checkMinimal_iff [of v] checkMinimal_err [of v]
    by (cases "checkMinimalDataEncoding v"; cases rm; cases "128 \<le> uint (last v)")
      (simp_all add: makeScriptNum_def Let_def snum_def and_80_zero last_nth k_def)
qed

section \<open>The encoder\<close>

lemma and_ff: "(n :: int) AND 0xff = n mod 256"
  using take_bit_eq_mask [of 8 n] by (simp add: mask_eq_exp_minus_1 take_bit_eq_mod)

lemma bytesLoop_pos:
  "0 < n \<Longrightarrow> bytesLoop n = word_of_int (n mod 256) # bytesLoop (n div 256)"
  by (subst bytesLoop.simps) (simp add: and_ff drop_bit_int_def)

lemma bytesLoop_nonpos [simp]: "n \<le> 0 \<Longrightarrow> bytesLoop n = []"
  by (subst bytesLoop.simps) simp

lemma bytesLoop_eq_Nil [simp]: "bytesLoop n = [] \<longleftrightarrow> n \<le> 0"
  by (cases "0 < n") (auto simp: bytesLoop_pos)

lemma uint_low_byte: "uint (word_of_int (n mod 256) :: byte) = n mod 256"
  by (simp add: uint_word_of_int)

lemma le_val_bytesLoop: "0 \<le> n \<Longrightarrow> le_val (bytesLoop n) = n"
proof (induction n rule: bytesLoop.induct)
  case (1 n)
  show ?case
  proof (cases "0 < n")
    case True
    then have "le_val (bytesLoop (n div 256)) = n div 256"
      using "1.IH" by (simp add: drop_bit_int_def)
    then show ?thesis using True by (simp add: bytesLoop_pos uint_low_byte)
  qed (use 1 in simp)
qed

lemma bytesLoop_le_val: "r = [] \<or> last r \<noteq> 0 \<Longrightarrow> bytesLoop (le_val r) = r"
proof (induction r)
  case (Cons b bs)
  have pos: "0 < le_val (b # bs)"
  proof (cases "bs = []")
    case True
    with Cons.prems have "uint b \<noteq> 0" by (simp add: uint_0_iff)
    with True show ?thesis using byte_range [of b] by (simp add: order_less_le)
  next
    case False
    with Cons have "bytesLoop (le_val bs) \<noteq> []" by simp
    then have "0 < le_val bs" by simp
    then show ?thesis using byte_range [of b] unfolding le_val.simps by linarith
  qed
  have "bytesLoop (le_val bs) = bs" using Cons by (cases "bs = []") auto
  moreover have "le_val (b # bs) mod 256 = uint b" "le_val (b # bs) div 256 = le_val bs"
    using byte_range [of b] by auto
  ultimately show ?case using bytesLoop_pos [OF pos] by (simp add: word_of_int_uint)
qed simp

lemma bytesLoop_last: "0 < n \<Longrightarrow> last (bytesLoop n) \<noteq> 0"
proof (induction n rule: bytesLoop.induct)
  case (1 n)
  show ?case
  proof (cases "0 < n div 256")
    case True
    then have "last (bytesLoop (n div 256)) \<noteq> 0"
      using 1 by (simp add: drop_bit_int_def)
    then show ?thesis using True 1 by (simp add: bytesLoop_pos)
  next
    case False
    then have "n mod 256 = n" using 1 by auto
    then have "uint (word_of_int (n mod 256) :: byte) \<noteq> 0"
      using 1 uint_low_byte [of n] by simp
    then show ?thesis using False 1 by (auto simp: bytesLoop_pos)
  qed
qed

lemma bytesLoop_length: "0 < n \<Longrightarrow> 256 ^ (length (bytesLoop n) - 1) * uint (last (bytesLoop n)) \<le> n"
  using le_val_split [of "bytesLoop n"] le_val_nonneg [of "butlast (bytesLoop n)"]
  by (simp add: le_val_bytesLoop)

text \<open>The magnitude of a sign-and-magnitude byte string, by the shape of its last byte.\<close>

lemma snum_snoc:
  "snum (xs @ [b]) =
     (if 128 \<le> uint b then - (le_val xs + 256 ^ length xs * (uint b - 128))
      else le_val xs + 256 ^ length xs * uint b)"
proof -
  have "(2 :: int) ^ (8 * length (xs @ [b]) - 1) = 256 ^ length xs * 128"
    by (simp add: pow256 power_add mult.commute)
  then show ?thesis by (simp add: snum_def le_val_append algebra_simps)
qed

lemma Bytes_pos:
  assumes "0 < n" and "n < 2 ^ 63"
  shows "Bytes n = Inr (if 128 \<le> uint (last (bytesLoop n)) then bytesLoop n @ [0] else bytesLoop n)"
  using assms by (simp add: Bytes_def Let_def last_nth and_80_zero)

lemma Bytes_neg:
  assumes "0 < n" and "n < 2 ^ 63"
  shows "Bytes (- n) = Inr (if 128 \<le> uint (last (bytesLoop n)) then bytesLoop n @ [0x80]
    else butlast (bytesLoop n) @ [last (bytesLoop n) OR 0x80])"
  using assms by (simp add: Bytes_def Let_def last_nth update_last and_80_zero int64_nonneg)

section \<open>The encoding is canonical\<close>

lemma minimal_snoc:
  "minimal (xs @ [b]) \<longleftrightarrow> uint b mod 128 \<noteq> 0 \<or> (xs \<noteq> [] \<and> 128 \<le> uint (last xs))"
  by (cases xs rule: rev_cases) (auto simp: minimal_def nth_append)

lemma minimal_Nil [simp]: "minimal []" "snum [] = 0"
  by (simp_all add: minimal_def snum_def)

lemma snum_abs_snoc: "\<bar>snum (xs @ [b])\<bar> = le_val xs + 256 ^ length xs * (uint b mod 128)"
proof -
  have "uint b mod 128 = (if 128 \<le> uint b then uint b - 128 else uint b)"
    using byte_range [of b] by presburger
  moreover have "0 \<le> le_val xs + 256 ^ length xs * (uint b mod 128)"
    using le_val_nonneg [of xs] by simp
  ultimately show ?thesis by (simp add: snum_snoc split: if_splits)
qed

lemma snum_range: "v \<noteq> [] \<Longrightarrow> \<bar>snum v\<bar> < 2 ^ (8 * length v - 1)"
proof (cases v rule: rev_cases)
  case (snoc xs b)
  have "le_val xs < 256 ^ length xs" by (rule le_val_less)
  moreover have "256 ^ length xs * (uint b mod 128) \<le> 256 ^ length xs * 127" by simp
  ultimately have "\<bar>snum v\<bar> < 256 ^ length xs * 128" unfolding snoc snum_abs_snoc by linarith
  then show ?thesis by (simp add: snoc pow256 power_add mult.commute)
qed simp

lemma minimal_length:
  assumes "minimal v" and "\<bar>snum v\<bar> < 2 ^ (8 * k - 1)" and "0 < k"
  shows "length v \<le> k"
proof (rule ccontr)
  assume "\<not> ?thesis"
  then obtain xs b where v: "v = xs @ [b]" "k \<le> length xs"
    by (cases v rule: rev_cases) auto
  have "2 ^ (8 * k - 1) \<le> (2 :: int) ^ (8 * length xs - 1)"
    using v by (intro power_increasing) auto
  also have "\<dots> \<le> \<bar>snum v\<bar>"
  proof (cases "uint b mod 128 = 0")
    case False
    then have "256 ^ length xs * 1 \<le> 256 ^ length xs * (uint b mod 128)"
      by (intro mult_left_mono) (auto simp: order_less_le dest: sym)
    moreover have "2 ^ (8 * length xs - 1) \<le> (256 :: int) ^ length xs"
      unfolding pow256 by (intro power_increasing) auto
    ultimately show ?thesis using le_val_nonneg [of xs] unfolding v snum_abs_snoc by linarith
  next
    case True
    then have "xs \<noteq> []" "128 \<le> uint (last xs)"
      using assms(1) v minimal_snoc [of xs b] by simp_all
    then obtain ys c where xs: "xs = ys @ [c]" "128 \<le> uint c"
      by (cases xs rule: rev_cases) auto
    have "256 ^ length ys * 128 \<le> 256 ^ length ys * uint c"
      using xs(2) by (intro mult_left_mono) auto
    moreover have "le_val xs = le_val ys + 256 ^ length ys * uint c"
      by (simp add: xs(1) le_val_append)
    ultimately have "256 ^ length ys * 128 \<le> le_val xs"
      using le_val_nonneg [of ys] by linarith
    moreover have "(2 :: int) ^ (8 * length xs - 1) = 256 ^ length ys * 128"
      by (simp add: xs(1) pow256 power_add mult.commute)
    moreover have "\<bar>snum v\<bar> = le_val xs" using True by (simp add: v(1) snum_abs_snoc)
    ultimately show ?thesis by simp
  qed
  finally show False using assms(2) by simp
qed

lemma snum_Bytes_pos:
  assumes "0 < n" and "n < 2 ^ 63"
  obtains v where "Bytes n = Inr v" "snum v = n" "minimal v"
proof -
  obtain xs b where xb: "bytesLoop n = xs @ [b]"
    using assms by (cases "bytesLoop n" rule: rev_cases) auto
  have n: "le_val xs + 256 ^ length xs * uint b = n" and b: "uint b \<noteq> 0" "uint b < 256"
    using assms bytesLoop_last [of n] le_val_bytesLoop [of n] byte_range [of b]
    by (auto simp: xb le_val_append uint_0_iff)
  show thesis
  proof (cases "128 \<le> uint b")
    case True
    then show thesis using Bytes_pos [OF assms] n
      by (intro that [of "(xs @ [b]) @ [0]"])
         (simp_all add: xb snum_snoc minimal_snoc le_val_append del: append_assoc)
  next
    case False
    moreover from this b have "uint b mod 128 \<noteq> 0" using byte_range [of b] by presburger
    ultimately show thesis using Bytes_pos [OF assms] n
      by (intro that [of "xs @ [b]"]) (simp_all add: xb snum_snoc minimal_snoc)
  qed
qed

lemma snum_Bytes_neg:
  assumes "0 < n" and "n < 2 ^ 63"
  obtains v where "Bytes (- n) = Inr v" "snum v = - n" "minimal v"
proof -
  obtain xs b where xb: "bytesLoop n = xs @ [b]"
    using assms by (cases "bytesLoop n" rule: rev_cases) auto
  have n: "le_val xs + 256 ^ length xs * uint b = n" and b: "uint b \<noteq> 0" "uint b < 256"
    using assms bytesLoop_last [of n] le_val_bytesLoop [of n] byte_range [of b]
    by (auto simp: xb le_val_append uint_0_iff)
  show thesis
  proof (cases "128 \<le> uint b")
    case True
    then show thesis using Bytes_neg [OF assms] n
      by (intro that [of "(xs @ [b]) @ [0x80]"])
         (simp_all add: xb snum_snoc minimal_snoc le_val_append del: append_assoc)
  next
    case False
    then have ob: "uint (b OR 0x80) = uint b + 128" by (intro uint_or_80) simp
    moreover from False b have "(uint b + 128) mod 128 \<noteq> 0" using byte_range [of b] by presburger
    ultimately show thesis using Bytes_neg [OF assms] n False byte_range [of b]
      by (intro that [of "xs @ [b OR 0x80]"]) (simp_all add: xb snum_snoc minimal_snoc)
  qed
qed

lemma snum_Bytes:
  assumes "- (2 ^ 63) < n" and "n < 2 ^ 63"
  obtains v where "Bytes n = Inr v" "snum v = n" "minimal v"
proof -
  consider "n = 0" | "0 < n" | "0 < - n" by linarith
  then show thesis
  proof cases
    case 1
    then show thesis using that [of "[]"] by (simp add: Bytes_def)
  next
    case 2
    then show thesis using snum_Bytes_pos [of n] assms that by blast
  next
    case 3
    moreover have "- n < 2 ^ 63" using assms by linarith
    ultimately show thesis using snum_Bytes_neg [of "- n"] that by auto
  qed
qed

lemma le_val_inj: "length v = length w \<Longrightarrow> le_val v = le_val w \<Longrightarrow> v = w"
proof (induction v w rule: list_induct2)
  case (Cons a v b w)
  have eq: "uint a + 256 * le_val v = uint b + 256 * le_val w" using Cons.prems by simp
  have low: "(uint x + 256 * n) mod 256 = uint x" "(uint x + 256 * n) div 256 = n"
    for x :: byte and n using byte_range [of x] by simp_all
  have "uint a = uint b" "le_val v = le_val w"
    using arg_cong [OF eq, of "\<lambda>z. z mod 256"] arg_cong [OF eq, of "\<lambda>z. z div 256"]
    unfolding low by simp_all
  then show ?case using Cons.IH by (simp add: word_uint_eq_iff)
qed simp

lemma minimal_nonzero: "minimal v \<Longrightarrow> v \<noteq> [] \<Longrightarrow> 0 < \<bar>snum v\<bar>"
proof (cases v rule: rev_cases)
  case (snoc xs b)
  assume "minimal v"
  show ?thesis
  proof (cases "uint b mod 128 = 0")
    case False
    then have "0 < uint b mod 128" using pos_mod_sign [of 128 "uint b"] by linarith
    then have "0 < 256 ^ length xs * (uint b mod 128)" by (intro mult_pos_pos) auto
    then show ?thesis using le_val_nonneg [of xs] unfolding snoc snum_abs_snoc by linarith
  next
    case True
    then have "xs \<noteq> []" "128 \<le> uint (last xs)"
      using \<open>minimal v\<close> minimal_snoc [of xs b] snoc by simp_all
    then have "0 < 256 ^ (length xs - 1) * uint (last xs)" by simp
    then show ?thesis
      using le_val_split [OF \<open>xs \<noteq> []\<close>] le_val_nonneg [of "butlast xs"]
      unfolding snoc snum_abs_snoc True mult_zero_right by linarith
  qed
qed simp

lemma snum_sign: "minimal v \<Longrightarrow> v \<noteq> [] \<Longrightarrow> snum v < 0 \<longleftrightarrow> 128 \<le> uint (last v)"
proof (cases v rule: rev_cases)
  case (snoc xs b)
  assume "minimal v" "v \<noteq> []"
  then have "0 < \<bar>snum v\<bar>" by (rule minimal_nonzero)
  moreover have "0 \<le> le_val xs + 256 ^ length xs * (uint b - 128)" if "128 \<le> uint b"
    using that le_val_nonneg [of xs] by simp
  moreover have "0 \<le> le_val xs + 256 ^ length xs * uint b" using le_val_nonneg [of xs] by simp
  ultimately show ?thesis unfolding snoc snum_snoc last_snoc by (cases "128 \<le> uint b") auto
qed simp

lemma minimal_unique:
  assumes "minimal v" and "minimal w" and eq: "snum v = snum w"
  shows "v = w"
proof (cases "v = [] \<or> w = []")
  case True
  then show ?thesis using minimal_nonzero [of v] minimal_nonzero [of w] assms
    by (cases "v = []"; cases "w = []") auto
next
  case False
  have "length w \<le> length v" "length v \<le> length w"
    using False assms minimal_length [of w "length v"] minimal_length [of v "length w"]
      snum_range [of v] snum_range [of w] by auto
  then have len: "length v = length w" by simp
  have "128 \<le> uint (last v) \<longleftrightarrow> 128 \<le> uint (last w)"
    using False assms snum_sign [of v] snum_sign [of w] by simp
  then have "le_val v = le_val w" using eq False by (auto simp: snum_def len split: if_splits)
  with len show ?thesis by (rule le_val_inj)
qed

lemma Bytes_snum:
  assumes "minimal v" and "length v \<le> 8"
  shows "Bytes (snum v) = Inr v"
proof -
  have "\<bar>snum v\<bar> < 2 ^ 63"
  proof (cases "v = []")
    case False
    have "(2 :: int) ^ (8 * length v - 1) \<le> 2 ^ 63" using assms(2) by (intro power_increasing) auto
    then show ?thesis using snum_range [OF False] by linarith
  qed simp
  then have "- (2 ^ 63) < snum v" "snum v < 2 ^ 63" by linarith+
  then obtain w where w: "Bytes (snum v) = Inr w" "snum w = snum v" "minimal w"
    by (rule snum_Bytes)
  then show ?thesis using minimal_unique [of w v] assms by simp
qed

lemma Bytes_length:
  assumes "Bytes n = Inr v" and "\<bar>n\<bar> < 2 ^ (8 * k - 1)" and "0 < k" and "k \<le> 8"
  shows "length v \<le> k" and "snum v = n" and "minimal v"
proof -
  have "(2 :: int) ^ (8 * k - 1) \<le> 2 ^ 63" using assms(4) by (intro power_increasing) auto
  then have "- (2 ^ 63) < n" "n < 2 ^ 63" using assms(2) by linarith+
  then obtain w where "Bytes n = Inr w" "snum w = n" "minimal w" by (rule snum_Bytes)
  then show "length v \<le> k" "snum v = n" "minimal v"
    using assms minimal_length [of v k] by auto
qed

lemma Int32_clamp: "Int32 n = max minInt32 (min maxInt32 n)"
proof -
  have "int32 n = n" if "\<not> n > maxInt32" "\<not> n < minInt32"
    using that by (intro int32_id) (auto simp: maxInt32_def minInt32_def)
  then show ?thesis by (auto simp: Int32_def maxInt32_def minInt32_def max_def min_def)
qed

lemma makeScriptNum_Bytes:
  assumes "0 < L" and "L \<le> 7" and "\<bar>n\<bar> < 2 ^ (8 * L - 1)"
  shows "\<exists>v. Bytes n = Inr v \<and> length v \<le> L \<and> makeScriptNum v requireMinimal L = Inr n"
proof -
  have "(2 :: int) ^ (8 * L - 1) \<le> 2 ^ 63" using assms(2) by (intro power_increasing) auto
  then have "- (2 ^ 63) < n" "n < 2 ^ 63" using assms(3) by linarith+
  then obtain v where v: "Bytes n = Inr v" by (rule snum_Bytes)
  then show ?thesis using Bytes_length [OF v assms(3,1)] assms by (auto simp: makeScriptNum_eq)
qed

lemma Bytes_makeScriptNum:
  assumes "0 < L" and "L \<le> 7" and "makeScriptNum v True L = Inr n"
  shows "Bytes n = Inr v" and "\<bar>n\<bar> < 2 ^ (8 * L - 1)"
proof -
  have v: "minimal v" "length v \<le> L" "n = snum v"
    using assms by (auto simp: makeScriptNum_eq split: if_splits)
  then show "Bytes n = Inr v" using Bytes_snum assms(2) by simp
  show "\<bar>n\<bar> < 2 ^ (8 * L - 1)"
  proof (cases "v = []")
    case False
    have "(2 :: int) ^ (8 * length v - 1) \<le> 2 ^ (8 * L - 1)" using v(2) by (intro power_increasing) auto
    then show ?thesis using snum_range [OF False] v(3) by linarith
  qed (use v in simp)
qed

interpretation snum4: canonical_codec "\<lambda>n. \<bar>n\<bar> < 2 ^ 31" "\<lambda>n. projr (Bytes n)"
  "\<lambda>v. case makeScriptNum v True defaultScriptNumLen of Inl _ \<Rightarrow> None | Inr n \<Rightarrow> Some n"
proof (unfold_locales, goal_cases)
  case (1 n)
  then show ?case using makeScriptNum_Bytes [of 4 n True] by (auto simp: defaultScriptNumLen_def)
next
  case (2 v n)
  then show ?case using Bytes_makeScriptNum [of 4 v n]
    by (auto simp: defaultScriptNumLen_def split: sum.splits)
qed

section \<open>Properties\<close>

text \<open>Encoding a number and decoding the bytes gives the number back, for every
  operand length limit \<open>L\<close> up to seven bytes and every number whose magnitude has at
  most \<open>8 L - 1\<close> bits; the encoding respects the limit and passes the minimality check.\<close>

theorem scriptNum_roundtrip:
  assumes "0 < L" and "L \<le> 7" and "\<bar>n\<bar> < 2 ^ (8 * L - 1)"
  shows "\<exists>v. Bytes n = Inr v \<and> length v \<le> L \<and> makeScriptNum v requireMinimal L = Inr n"
  using assms by (rule makeScriptNum_Bytes)

theorem scriptNum_roundtrip_witness:
  "\<exists>v. Bytes (- 32768) = Inr v \<and> length v \<le> 4 \<and> makeScriptNum v True 4 = Inr (- 32768)"
  using scriptNum_roundtrip [of 4 "- 32768" True] by simp



text \<open>The encoder panics on exactly one 64 bit number, the least one: its negation
  wraps to itself, the encoding loop produces no byte, and the sign bit is then set in
  the last element of an empty slice.\<close>

theorem Bytes_panic_iff:
  assumes "- (2 ^ 63) \<le> n" and "n < 2 ^ 63"
  shows "Bytes n = Inl Panic \<longleftrightarrow> n = - (2 ^ 63)"
proof (cases "n = - (2 ^ 63)")
  case True
  have "int64 (2 ^ 63) = - (2 ^ 63)" by (simp add: int64_def signed_take_bit_eq_take_bit_minus)
  then have "Bytes n = Inl Panic" using True by (simp add: Bytes_def)
  with True show ?thesis by simp
next
  case False
  then have "- (2 ^ 63) < n" using assms by linarith
  then obtain v where "Bytes n = Inr v" using assms(2) by (rule snum_Bytes)
  with False show ?thesis by simp
qed

theorem Bytes_panic_iff_witness: "Bytes (- (2 ^ 63)) = Inl Panic"
  using Bytes_panic_iff [of "- (2 ^ 63)"] by simp

end
