(* ===== verification/ScriptStack.thy ===== *)
theory ScriptStack
  imports ScriptNum
begin

text \<open>
  The data and alternate stacks of the script machine
  (\<^verbatim>\<open>tokenengine/internal/txscript/stack.go\<close>).  A stack is a slice whose last element
  is the top.  Indices are 32 bit, as in the code; the specifications hold for every
  stack that such an index can address.  The specifications are the ``stack
  transformation'' diagrams of the code, for every \<open>n\<close>, with the error branches.
\<close>

section \<open>Definitions\<close>

text \<open>\<^verbatim>\<open>asBool\<close> looks for a byte other than zero; a lone sign bit in the last byte is negative zero.\<close>

fun asBool :: "bytes \<Rightarrow> bool" where
  "asBool [] = False"
| "asBool (b # bs) = (if b \<noteq> 0 then \<not> (bs = [] \<and> b = 0x80) else asBool bs)"

definition fromBool :: "bool \<Rightarrow> bytes" where
  "fromBool v = (if v then [1] else [])"

record stack =
  stk :: "bytes list"
  verifyMinimalData :: bool

type_synonym 'a sres = "(ErrorCode, stack, 'a) res"

definition Depth :: "stack \<Rightarrow> int" where
  "Depth s = int32 (int (length (stk s)))"

definition PushByteArray :: "bytes \<Rightarrow> stack \<Rightarrow> unit sres" where
  "PushByteArray so s = (Inr (), s\<lparr>stk := stk s @ [so]\<rparr>)"

definition PushInt :: "int \<Rightarrow> stack \<Rightarrow> unit sres" where
  "PushInt val s = (case Bytes val of Inl e \<Rightarrow> (Inl e, s) | Inr b \<Rightarrow> PushByteArray b s)"

definition PushBool :: "bool \<Rightarrow> stack \<Rightarrow> unit sres" where
  "PushBool val s = PushByteArray (fromBool val) s"

definition PeekByteArray :: "int \<Rightarrow> stack \<Rightarrow> bytes sres" where
  "PeekByteArray idx s =
     (let sz = int32 (int (length (stk s))) in
      if idx < 0 \<or> idx \<ge> sz then (Inl (ScriptErr ErrInvalidStackOperation), s)
      else (Inr (stk s ! nat (sz - idx - 1)), s))"

definition nipN :: "int \<Rightarrow> stack \<Rightarrow> bytes sres" where
  "nipN idx s =
     (let sz = int32 (int (length (stk s))) in
      if idx < 0 \<or> idx > sz - 1 then (Inl (ScriptErr ErrInvalidStackOperation), s)
      else
        let so = stk s ! nat (sz - idx - 1) in
        if idx = 0 then (Inr so, s\<lparr>stk := take (nat (sz - 1)) (stk s)\<rparr>)
        else if idx = sz - 1 then (Inr so, s\<lparr>stk := take (nat (sz - 1)) (drop 1 (stk s))\<rparr>)
        else
          let s1 = drop (nat (sz - idx)) (take (nat sz) (stk s)) in
          (Inr so, s\<lparr>stk := take (nat (sz - idx - 1)) (stk s) @ s1\<rparr>))"

definition PopByteArray :: "stack \<Rightarrow> bytes sres" where
  "PopByteArray s = nipN 0 s"

definition PopInt :: "stack \<Rightarrow> int sres" where
  "PopInt s = bindE (PopByteArray s) (\<lambda>so s.
     (makeScriptNum so (verifyMinimalData s) defaultScriptNumLen, s))"

definition PopBool :: "stack \<Rightarrow> bool sres" where
  "PopBool s = bindE (PopByteArray s) (\<lambda>so s. (Inr (asBool so), s))"

definition PeekInt :: "int \<Rightarrow> stack \<Rightarrow> int sres" where
  "PeekInt idx s = bindE (PeekByteArray idx s) (\<lambda>so s.
     (makeScriptNum so (verifyMinimalData s) defaultScriptNumLen, s))"

definition PeekBool :: "int \<Rightarrow> stack \<Rightarrow> bool sres" where
  "PeekBool idx s = bindE (PeekByteArray idx s) (\<lambda>so s. (Inr (asBool so), s))"

definition NipN :: "int \<Rightarrow> stack \<Rightarrow> unit sres" where
  "NipN idx s = bindE (nipN idx s) (\<lambda>_ s. (Inr (), s))"

definition Tuck :: "stack \<Rightarrow> unit sres" where
  "Tuck s =
     bindE (PopByteArray s) (\<lambda>so2 s.
     bindE (PopByteArray s) (\<lambda>so1 s.
     bindE (PushByteArray so2 s) (\<lambda>_ s.
     bindE (PushByteArray so1 s) (\<lambda>_ s.
     PushByteArray so2 s))))"

text \<open>The loops pop, copy or move the element at a fixed distance from the top, \<open>n\<close> times.\<close>

fun dropLoop :: "nat \<Rightarrow> stack \<Rightarrow> unit sres" where
  "dropLoop 0 s = (Inr (), s)"
| "dropLoop (Suc n) s = bindE (PopByteArray s) (\<lambda>_ s. dropLoop n s)"

fun peekLoop :: "int \<Rightarrow> nat \<Rightarrow> stack \<Rightarrow> unit sres" where
  "peekLoop entry 0 s = (Inr (), s)"
| "peekLoop entry (Suc n) s =
     bindE (PeekByteArray entry s) (\<lambda>so s.
     bindE (PushByteArray so s) (\<lambda>_ s. peekLoop entry n s))"

fun nipLoop :: "int \<Rightarrow> nat \<Rightarrow> stack \<Rightarrow> unit sres" where
  "nipLoop entry 0 s = (Inr (), s)"
| "nipLoop entry (Suc n) s =
     bindE (nipN entry s) (\<lambda>so s.
     bindE (PushByteArray so s) (\<lambda>_ s. nipLoop entry n s))"

definition DropN :: "int \<Rightarrow> stack \<Rightarrow> unit sres" where
  "DropN n s = (if n < 1 then (Inl (ScriptErr ErrInvalidStackOperation), s) else dropLoop (nat n) s)"

definition DupN :: "int \<Rightarrow> stack \<Rightarrow> unit sres" where
  "DupN n s =
     (if n < 1 then (Inl (ScriptErr ErrInvalidStackOperation), s)
      else peekLoop (int32 (n - 1)) (nat n) s)"

definition RotN :: "int \<Rightarrow> stack \<Rightarrow> unit sres" where
  "RotN n s =
     (if n < 1 then (Inl (ScriptErr ErrInvalidStackOperation), s)
      else let entry = int32 (3 * n - 1) in nipLoop entry (nat n) s)"

definition SwapN :: "int \<Rightarrow> stack \<Rightarrow> unit sres" where
  "SwapN n s =
     (if n < 1 then (Inl (ScriptErr ErrInvalidStackOperation), s)
      else let entry = int32 (2 * n - 1) in nipLoop entry (nat n) s)"

definition OverN :: "int \<Rightarrow> stack \<Rightarrow> unit sres" where
  "OverN n s =
     (if n < 1 then (Inl (ScriptErr ErrInvalidStackOperation), s)
      else let entry = int32 (2 * n - 1) in peekLoop entry (nat n) s)"

definition PickN :: "int \<Rightarrow> stack \<Rightarrow> unit sres" where
  "PickN n s = bindE (PeekByteArray n s) (\<lambda>so s. PushByteArray so s)"

definition RollN :: "int \<Rightarrow> stack \<Rightarrow> unit sres" where
  "RollN n s = bindE (nipN n s) (\<lambda>so s. PushByteArray so s)"

section \<open>Single elements\<close>

abbreviation addressable :: "stack \<Rightarrow> bool" where
  "addressable s \<equiv> length (stk s) < 2 ^ 31"

abbreviation stackErr :: "serr" where
  "stackErr \<equiv> ScriptErr ErrInvalidStackOperation"

lemma Depth_eq [simp]: "addressable s \<Longrightarrow> Depth s = int (length (stk s))"
  unfolding Depth_def by (rule int32_length)

lemma PeekByteArray_at:
  assumes "stk s = a @ x # b" and "addressable s"
  shows "PeekByteArray (int (length b)) s = (Inr x, s)"
  using assms int32_length [of "stk s"]
  by (simp add: PeekByteArray_def Let_def nth_append nat_diff_distrib)

lemma PeekByteArray_err:
  "addressable s \<Longrightarrow> idx < 0 \<or> idx \<ge> int (length (stk s)) \<Longrightarrow> PeekByteArray idx s = (Inl stackErr, s)"
  using int32_length [of "stk s"] by (auto simp: PeekByteArray_def Let_def)

lemma nipN_at:
  assumes "stk s = a @ x # b" and "addressable s"
  shows "nipN (int (length b)) s = (Inr x, s\<lparr>stk := a @ b\<rparr>)"
proof -
  have sz: "int32 (int (length (stk s))) = int (length a) + 1 + int (length b)"
    using assms int32_length [of "stk s"] by simp
  have n: "nat (int (length a) + int (length b)) = length a + length b"
    "nat (1 + (int (length a) + int (length b))) = Suc (length a + length b)"
    "nat (int (length a) + 1) = Suc (length a)" "nat (1 + int (length a)) = Suc (length a)"
    "nat (int (length a) + 1 + int (length b)) = Suc (length a + length b)"
    by auto
  show ?thesis unfolding nipN_def sz Let_def using assms
    by (cases "a = []"; cases "b = []") (auto simp: n nth_append)
qed

lemma nipN_err:
  "addressable s \<Longrightarrow> idx < 0 \<or> idx \<ge> int (length (stk s)) \<Longrightarrow> nipN idx s = (Inl stackErr, s)"
  using int32_length [of "stk s"] by (auto simp: nipN_def Let_def)

text \<open>Every valid index splits the stack around the element it names.\<close>

lemma split_at_index:
  assumes "0 \<le> idx" and "idx < int (length xs)"
  obtains a x b where "xs = a @ x # b" and "idx = int (length b)"
proof -
  define k where "k = length xs - Suc (nat idx)"
  have "k < length xs" "length xs - Suc k = nat idx" using assms by (auto simp: k_def)
  then show thesis using that [of "take k xs" "xs ! k" "drop (Suc k) xs"] assms(1)
    by (simp add: take_nth_drop)
qed

lemma PopByteArray_snoc [simp]:
  "addressable s \<Longrightarrow> stk s = a @ [x] \<Longrightarrow> PopByteArray s = (Inr x, s\<lparr>stk := a\<rparr>)"
  using nipN_at [of s a x "[]"] by (simp add: PopByteArray_def)

lemma PopByteArray_empty [simp]: "stk s = [] \<Longrightarrow> PopByteArray s = (Inl stackErr, s)"
  by (simp add: PopByteArray_def nipN_err)

lemma PopByteArray_cases:
  assumes "addressable s"
  shows "PopByteArray s =
    (if stk s = [] then (Inl stackErr, s) else (Inr (last (stk s)), s\<lparr>stk := butlast (stk s)\<rparr>))"
  using assms by (cases "stk s" rule: rev_cases) auto

lemma PushByteArray_eq [simp]: "PushByteArray so s = (Inr (), s\<lparr>stk := stk s @ [so]\<rparr>)"
  by (simp add: PushByteArray_def)

section \<open>Loops\<close>

lemma dropLoop_at:
  "stk s = a @ b \<Longrightarrow> addressable s \<Longrightarrow> dropLoop (length b) s = (Inr (), s\<lparr>stk := a\<rparr>)"
proof (induction b arbitrary: s rule: rev_induct)
  case (snoc x b)
  then have "PopByteArray s = (Inr x, s\<lparr>stk := a @ b\<rparr>)" by (intro PopByteArray_snoc) auto
  moreover have "dropLoop (length b) (s\<lparr>stk := a @ b\<rparr>) = (Inr (), s\<lparr>stk := a\<rparr>)"
    using snoc.IH [of "s\<lparr>stk := a @ b\<rparr>"] snoc.prems by simp
  ultimately show ?case by simp
qed simp

lemma dropLoop_err:
  "length (stk s) < n \<Longrightarrow> addressable s \<Longrightarrow> dropLoop n s = (Inl stackErr, s\<lparr>stk := []\<rparr>)"
proof (induction n arbitrary: s)
  case (Suc n)
  then show ?case
    by (cases "stk s" rule: rev_cases) auto
qed simp

lemma nipLoop_at:
  assumes "stk s = a @ b @ c" and "addressable s"
  shows "nipLoop (int (length b + length c) - 1) (length b) s = (Inr (), s\<lparr>stk := a @ c @ b\<rparr>)"
  using assms
proof (induction b arbitrary: s c)
  case (Cons x b)
  have "nipN (int (length (b @ c))) s = (Inr x, s\<lparr>stk := a @ b @ c\<rparr>)"
    using Cons.prems nipN_at [of s a x "b @ c"] by simp
  moreover have "nipLoop (int (length b + length (c @ [x])) - 1) (length b) (s\<lparr>stk := a @ b @ c @ [x]\<rparr>)
      = (Inr (), s\<lparr>stk := a @ c @ x # b\<rparr>)"
    using Cons.IH [of "s\<lparr>stk := a @ b @ c @ [x]\<rparr>" "c @ [x]"] Cons.prems by simp
  ultimately show ?case by simp
qed simp

lemma peekLoop_at:
  assumes "stk s = a @ b @ c" and "length (stk s) + length b \<le> 2 ^ 31 - 1"
  shows "peekLoop (int (length b + length c) - 1) (length b) s = (Inr (), s\<lparr>stk := a @ b @ c @ b\<rparr>)"
  using assms
proof (induction b arbitrary: s a c)
  case (Cons x b)
  have "PeekByteArray (int (length (b @ c))) s = (Inr x, s)"
    using Cons.prems PeekByteArray_at [of s a x "b @ c"] by simp
  moreover have "peekLoop (int (length b + length (c @ [x])) - 1) (length b) (s\<lparr>stk := stk s @ [x]\<rparr>)
      = (Inr (), s\<lparr>stk := a @ x # b @ c @ x # b\<rparr>)"
    using Cons.IH [of "s\<lparr>stk := stk s @ [x]\<rparr>" "a @ [x]" "c @ [x]"] Cons.prems by simp
  ultimately show ?case using Cons.prems by simp
qed simp

lemma nipLoop_err:
  "addressable s \<Longrightarrow> entry \<ge> int (length (stk s)) \<Longrightarrow> 0 < n \<Longrightarrow> nipLoop entry n s = (Inl stackErr, s)"
  by (cases n) (auto simp: nipN_err)

lemma peekLoop_err:
  "addressable s \<Longrightarrow> entry \<ge> int (length (stk s)) \<Longrightarrow> 0 < n \<Longrightarrow> peekLoop entry n s = (Inl stackErr, s)"
  by (cases n) (auto simp: PeekByteArray_err)

section \<open>What every operation keeps\<close>

text \<open>
  \<open>within P r s\<close>: the operation's outcome keeps the minimality flag, and every element
  of its stack was on the stack before or satisfies \<open>P\<close>.  No operation invents data.
\<close>

definition within :: "(bytes \<Rightarrow> bool) \<Rightarrow> stack \<Rightarrow> 'a sres \<Rightarrow> bool" where
  "within P s r \<longleftrightarrow> verifyMinimalData (snd r) = verifyMinimalData s \<and>
     (\<forall>x \<in> set (stk (snd r)). x \<in> set (stk s) \<or> P x)"

lemma within_refl [simp, intro]: "within P s (r, s)"
  by (simp add: within_def)

lemma within_bindE:
  assumes "within P s r" and "\<And>a s'. r = (Inr a, s') \<Longrightarrow> within P s' (k a s')"
  shows "within P s (bindE r k)"
proof (cases r)
  case (Pair x s')
  then show ?thesis using assms by (cases x) (fastforce simp: within_def)+
qed

lemma int32_le: "int32 (int n) \<le> int n"
proof -
  have "take_bit (Suc 31) (int n) \<le> int n" by (simp add: take_bit_eq_mod zmod_le_nonneg_dividend)
  moreover have "0 \<le> (2 :: int) ^ Suc 31 * of_bool (bit (int n) 31)" by simp
  ultimately show ?thesis unfolding int32_def signed_take_bit_eq_take_bit_minus by linarith
qed

lemma nipN_within: "within P s (nipN idx s)"
  by (auto simp: nipN_def Let_def within_def dest: in_set_takeD in_set_dropD)

lemma peek_mem:
  assumes "PeekByteArray idx s = (Inr so, s')"
  shows "so \<in> set (stk s)" and "s' = s"
  using assms int32_le [of "length (stk s)"]
  by (auto simp: PeekByteArray_def Let_def split: if_splits intro!: nth_mem)

lemma nip_mem:
  assumes "nipN idx s = (Inr so, s')"
  shows "so \<in> set (stk s)"
  using assms int32_le [of "length (stk s)"]
  by (auto simp: nipN_def Let_def split: if_splits intro!: nth_mem)

lemma PeekByteArray_within: "within P s (PeekByteArray idx s)"
  by (auto simp: PeekByteArray_def Let_def)

lemma PopByteArray_within: "within P s (PopByteArray s)"
  by (simp add: PopByteArray_def nipN_within)

lemma PopInt_within: "within P s (PopInt s)"
  unfolding PopInt_def by (intro within_bindE PopByteArray_within) auto

lemma PopBool_within: "within P s (PopBool s)"
  unfolding PopBool_def by (intro within_bindE PopByteArray_within) auto

lemma PeekInt_within: "within P s (PeekInt idx s)"
  unfolding PeekInt_def by (intro within_bindE PeekByteArray_within) auto

lemma PeekBool_within: "within P s (PeekBool idx s)"
  unfolding PeekBool_def by (intro within_bindE PeekByteArray_within) auto

lemma NipN_within: "within P s (NipN idx s)"
  unfolding NipN_def by (intro within_bindE nipN_within) auto

lemma dropLoop_within: "within P s (dropLoop n s)"
  by (induction n arbitrary: s) (auto intro!: within_bindE PopByteArray_within)

lemma peekLoop_within: "within P s (peekLoop entry n s)"
proof (induction n arbitrary: s)
  case (Suc n)
  have "within P s (peekLoop entry n (s\<lparr>stk := stk s @ [so]\<rparr>))" if "so \<in> set (stk s)" for so
    using Suc [of "s\<lparr>stk := stk s @ [so]\<rparr>"] that by (auto simp: within_def)
  then show ?case by (auto intro!: within_bindE PeekByteArray_within dest: peek_mem)
qed simp

lemma nipN_push:
  assumes "nipN entry s = (Inr so, s')"
  shows "within P s (r, s'\<lparr>stk := stk s' @ [so]\<rparr>)"
  using nipN_within [of P s entry] nip_mem [OF assms] by (auto simp: assms within_def)

lemma within_trans: "within P s (r, s') \<Longrightarrow> within P s' q \<Longrightarrow> within P s q"
  by (auto simp: within_def)

lemma nipLoop_within: "within P s (nipLoop entry n s)"
proof (induction n arbitrary: s)
  case (Suc n)
  have "within P s (nipLoop entry n (s'\<lparr>stk := stk s' @ [so]\<rparr>))"
    if "nipN entry s = (Inr so, s')" for so s'
    using within_trans [OF nipN_push [OF that] Suc] .
  then show ?case by (cases "nipN entry s"; cases "fst (nipN entry s)")
      (use nipN_within [of P s entry] in \<open>auto simp: within_def\<close>)
qed simp

lemma PickN_within: "within P s (PickN n s)"
proof (cases "PeekByteArray n s")
  case (Pair r s')
  then show ?thesis using peek_mem [of n s] PeekByteArray_within [of P s n]
    by (cases r) (auto simp: PickN_def within_def)
qed

lemma RollN_within: "within P s (RollN n s)"
proof (cases "nipN n s")
  case (Pair r s')
  then show ?thesis using nipN_push [of n s] nipN_within [of P s n]
    by (cases r) (auto simp: RollN_def within_def)
qed

lemma pop_mem: "PopByteArray s = (Inr so, s') \<Longrightarrow> so \<in> set (stk s)"
  unfolding PopByteArray_def by (rule nip_mem)

lemma Tuck_within: "within P s (Tuck s)"
proof (cases "PopByteArray s")
  case (Pair r s1)
  show ?thesis
  proof (cases r)
    case (Inr x)
    note p1 = Pair [unfolded Inr]
    show ?thesis
    proof (cases "PopByteArray s1")
      case (Pair q s2)
      then show ?thesis
        using p1 pop_mem [OF p1] pop_mem [of s1] PopByteArray_within [of P s] PopByteArray_within [of P s1]
        by (cases q) (auto simp: Tuck_def within_def)
    qed
  qed (use Pair PopByteArray_within [of P s] in \<open>auto simp: Tuck_def within_def\<close>)
qed

lemma stack_loops_within:
  "within P s (DropN n s)" "within P s (DupN n s)" "within P s (RotN n s)"
  "within P s (SwapN n s)" "within P s (OverN n s)"
  by (simp_all add: DropN_def DupN_def RotN_def SwapN_def OverN_def
      dropLoop_within peekLoop_within nipLoop_within)

lemma PushByteArray_within: "P so \<Longrightarrow> within P s (PushByteArray so s)"
  by (auto simp: within_def)

lemma PushBool_within: "P [1] \<Longrightarrow> P [] \<Longrightarrow> within P s (PushBool b s)"
  by (auto simp: PushBool_def within_def fromBool_def)

lemma PushInt_within: "(\<And>b. Bytes n = Inr b \<Longrightarrow> P b) \<Longrightarrow> within P s (PushInt n s)"
  by (auto simp: PushInt_def within_def split: sum.splits)

lemmas stack_within = nipN_within PeekByteArray_within PopByteArray_within PopInt_within
  PopBool_within PeekInt_within PeekBool_within NipN_within Tuck_within stack_loops_within
  PickN_within RollN_within

section \<open>Properties\<close>

text \<open>
  The diagrams of the code as list functions: \<open>moveUp d n\<close> takes the \<open>n\<close> elements that
  start \<open>d\<close> below the top and puts them on top; \<open>copyUp d n\<close> copies them there.
\<close>

definition moveUp :: "nat \<Rightarrow> nat \<Rightarrow> 'a list \<Rightarrow> 'a list" where
  "moveUp d n xs = (let k = length xs - d in take k xs @ drop (k + n) xs @ take n (drop k xs))"

definition copyUp :: "nat \<Rightarrow> nat \<Rightarrow> 'a list \<Rightarrow> 'a list" where
  "copyUp d n xs = xs @ take n (drop (length xs - d) xs)"

lemma nipLoop_moveUp:
  assumes "addressable s" and "0 < n" and "n \<le> d"
  shows "nipLoop (int d - 1) n s =
    (if length (stk s) < d then (Inl stackErr, s) else (Inr (), s\<lparr>stk := moveUp d n (stk s)\<rparr>))"
proof (cases "length (stk s) < d")
  case True
  then show ?thesis using assms by (auto intro: nipLoop_err)
next
  case False
  define k where "k = length (stk s) - d"
  let ?b = "take n (drop k (stk s))" and ?c = "drop (k + n) (stk s)"
  have "stk s = take k (stk s) @ ?b @ ?c"
    by (metis append_take_drop_id drop_drop add.commute)
  moreover have "length ?b = n" "length ?c = d - n" using False assms by (auto simp: k_def)
  ultimately show ?thesis using nipLoop_at [of s "take k (stk s)" ?b ?c] assms False
    by (simp add: moveUp_def k_def Let_def)
qed

lemma peekLoop_copyUp:
  assumes "length (stk s) + n < 2 ^ 31" and "0 < n" and "n \<le> d"
  shows "peekLoop (int d - 1) n s =
    (if length (stk s) < d then (Inl stackErr, s) else (Inr (), s\<lparr>stk := copyUp d n (stk s)\<rparr>))"
proof (cases "length (stk s) < d")
  case True
  then show ?thesis using assms by (auto intro: peekLoop_err)
next
  case False
  define k where "k = length (stk s) - d"
  let ?b = "take n (drop k (stk s))" and ?c = "drop (k + n) (stk s)"
  have "take k (stk s) @ ?b @ ?c = stk s"
    by (metis append_take_drop_id drop_drop add.commute)
  moreover have "length ?b = n" "length ?c = d - n" using False assms by (auto simp: k_def)
  ultimately show ?thesis using peekLoop_at [of s "take k (stk s)" ?b ?c] assms False
    by (simp add: copyUp_def k_def)
qed

text \<open>C25. \<^verbatim>\<open>RotN\<close> and \<^verbatim>\<open>SwapN\<close> move the \<open>n\<close> elements that lie \<open>3 n\<close> (respectively
  \<open>2 n\<close>) below the top to the top, in order; on a stack that is too short they fail
  with \<^verbatim>\<open>ErrInvalidStackOperation\<close> and leave it alone.\<close>

theorem stack_moves:
  assumes "addressable s" and "1 \<le> n" and "3 * n \<le> 2 ^ 31"
  shows "RotN n s = (if int (length (stk s)) < 3 * n then (Inl stackErr, s)
           else (Inr (), s\<lparr>stk := moveUp (3 * nat n) (nat n) (stk s)\<rparr>)) \<and>
         SwapN n s = (if int (length (stk s)) < 2 * n then (Inl stackErr, s)
           else (Inr (), s\<lparr>stk := moveUp (2 * nat n) (nat n) (stk s)\<rparr>))"
proof -
  have e: "int32 (3 * n - 1) = int (3 * nat n) - 1" "int32 (2 * n - 1) = int (2 * nat n) - 1"
    using assms by (simp_all add: int32_id)
  have "length (stk s) < 3 * nat n \<longleftrightarrow> int (length (stk s)) < 3 * n"
    "length (stk s) < 2 * nat n \<longleftrightarrow> int (length (stk s)) < 2 * n" using assms(2) by auto
  then show ?thesis using assms
    by (simp add: RotN_def SwapN_def e nipLoop_moveUp del: of_nat_mult)
qed

theorem stack_moves_witness:
  "RotN 1 \<lparr>stk = [[1], [2], [3]], verifyMinimalData = True\<rparr>
     = (Inr (), \<lparr>stk = [[2], [3], [1]], verifyMinimalData = True\<rparr>)"
  using stack_moves [of "\<lparr>stk = [[1], [2], [3]], verifyMinimalData = True\<rparr>" 1]
  by (simp add: moveUp_def)

text \<open>\<^verbatim>\<open>DupN\<close> and \<^verbatim>\<open>OverN\<close> copy the \<open>n\<close> elements that lie \<open>n\<close> (respectively
  \<open>2 n\<close>) below the top to the top, in order, and fail without an effect on a stack that
  is too short; \<^verbatim>\<open>DropN\<close> removes the top \<open>n\<close> elements, and empties a shorter stack
  before it fails.\<close>

theorem stack_copies:
  assumes "int (length (stk s)) + n < 2 ^ 31" and "1 \<le> n" and "2 * n \<le> 2 ^ 31"
  shows "DupN n s = (if int (length (stk s)) < n then (Inl stackErr, s)
           else (Inr (), s\<lparr>stk := copyUp (nat n) (nat n) (stk s)\<rparr>)) \<and>
         OverN n s = (if int (length (stk s)) < 2 * n then (Inl stackErr, s)
           else (Inr (), s\<lparr>stk := copyUp (2 * nat n) (nat n) (stk s)\<rparr>)) \<and>
         DropN n s = (if int (length (stk s)) < n then (Inl stackErr, s\<lparr>stk := []\<rparr>)
           else (Inr (), s\<lparr>stk := take (length (stk s) - nat n) (stk s)\<rparr>))"
proof -
  have e: "int32 (n - 1) = int (nat n) - 1" "int32 (2 * n - 1) = int (2 * nat n) - 1"
    using assms by (simp_all add: int32_id)
  have len: "length (stk s) + nat n < 2 ^ 31" "addressable s" using assms by auto
  have lt: "length (stk s) < nat n \<longleftrightarrow> int (length (stk s)) < n"
    "length (stk s) < 2 * nat n \<longleftrightarrow> int (length (stk s)) < 2 * n" using assms(2) by auto
  have "dropLoop (nat n) s = (Inr (), s\<lparr>stk := take (length (stk s) - nat n) (stk s)\<rparr>)"
    if "\<not> length (stk s) < nat n"
    using that dropLoop_at [of s "take (length (stk s) - nat n) (stk s)" "drop (length (stk s) - nat n) (stk s)"]
      len by simp
  then have "DropN n s = (if length (stk s) < nat n then (Inl stackErr, s\<lparr>stk := []\<rparr>)
      else (Inr (), s\<lparr>stk := take (length (stk s) - nat n) (stk s)\<rparr>))"
    using assms(2) len dropLoop_err [of s "nat n"] by (simp add: DropN_def)
  then show ?thesis
    using assms(2) len peekLoop_copyUp [of s "nat n" "nat n"] peekLoop_copyUp [of s "nat n" "2 * nat n"]
    unfolding DupN_def OverN_def e Let_def by (simp add: lt)
qed

theorem stack_copies_witness:
  "DupN 2 \<lparr>stk = [[1], [2], [3]], verifyMinimalData = True\<rparr>
     = (Inr (), \<lparr>stk = [[1], [2], [3], [2], [3]], verifyMinimalData = True\<rparr>)"
  using stack_copies [of "\<lparr>stk = [[1], [2], [3]], verifyMinimalData = True\<rparr>" 2]
  by (simp add: copyUp_def)

end
