(* ===== verification/Opcodes.thy ===== *)
theory Opcodes
  imports ScriptStack
begin

text \<open>
  The opcode table of the script machine and the parsed form of one instruction
  (\<^verbatim>\<open>tokenengine/internal/txscript/opcode.go\<close>): the constants, the 256 entries with
  their instruction lengths and handlers, the predicates on parsed instructions, and
  the serialisation of one instruction.  An entry names its handler by a tag of type
  \<open>opfn\<close>; the engine theory dispatches the tag to the handler.  The names of the
  entries serve the disassembler only and are left out.
\<close>

section \<open>Constants\<close>

abbreviation (input) OP_0 :: byte where "OP_0 \<equiv> 0x00"
abbreviation (input) OP_FALSE :: byte where "OP_FALSE \<equiv> 0x00"
abbreviation (input) OP_DATA_1 :: byte where "OP_DATA_1 \<equiv> 0x01"
abbreviation (input) OP_DATA_2 :: byte where "OP_DATA_2 \<equiv> 0x02"
abbreviation (input) OP_DATA_3 :: byte where "OP_DATA_3 \<equiv> 0x03"
abbreviation (input) OP_DATA_4 :: byte where "OP_DATA_4 \<equiv> 0x04"
abbreviation (input) OP_DATA_5 :: byte where "OP_DATA_5 \<equiv> 0x05"
abbreviation (input) OP_DATA_6 :: byte where "OP_DATA_6 \<equiv> 0x06"
abbreviation (input) OP_DATA_7 :: byte where "OP_DATA_7 \<equiv> 0x07"
abbreviation (input) OP_DATA_8 :: byte where "OP_DATA_8 \<equiv> 0x08"
abbreviation (input) OP_DATA_9 :: byte where "OP_DATA_9 \<equiv> 0x09"
abbreviation (input) OP_DATA_10 :: byte where "OP_DATA_10 \<equiv> 0x0a"
abbreviation (input) OP_DATA_11 :: byte where "OP_DATA_11 \<equiv> 0x0b"
abbreviation (input) OP_DATA_12 :: byte where "OP_DATA_12 \<equiv> 0x0c"
abbreviation (input) OP_DATA_13 :: byte where "OP_DATA_13 \<equiv> 0x0d"
abbreviation (input) OP_DATA_14 :: byte where "OP_DATA_14 \<equiv> 0x0e"
abbreviation (input) OP_DATA_15 :: byte where "OP_DATA_15 \<equiv> 0x0f"
abbreviation (input) OP_DATA_16 :: byte where "OP_DATA_16 \<equiv> 0x10"
abbreviation (input) OP_DATA_17 :: byte where "OP_DATA_17 \<equiv> 0x11"
abbreviation (input) OP_DATA_18 :: byte where "OP_DATA_18 \<equiv> 0x12"
abbreviation (input) OP_DATA_19 :: byte where "OP_DATA_19 \<equiv> 0x13"
abbreviation (input) OP_DATA_20 :: byte where "OP_DATA_20 \<equiv> 0x14"
abbreviation (input) OP_DATA_21 :: byte where "OP_DATA_21 \<equiv> 0x15"
abbreviation (input) OP_DATA_22 :: byte where "OP_DATA_22 \<equiv> 0x16"
abbreviation (input) OP_DATA_23 :: byte where "OP_DATA_23 \<equiv> 0x17"
abbreviation (input) OP_DATA_24 :: byte where "OP_DATA_24 \<equiv> 0x18"
abbreviation (input) OP_DATA_25 :: byte where "OP_DATA_25 \<equiv> 0x19"
abbreviation (input) OP_DATA_26 :: byte where "OP_DATA_26 \<equiv> 0x1a"
abbreviation (input) OP_DATA_27 :: byte where "OP_DATA_27 \<equiv> 0x1b"
abbreviation (input) OP_DATA_28 :: byte where "OP_DATA_28 \<equiv> 0x1c"
abbreviation (input) OP_DATA_29 :: byte where "OP_DATA_29 \<equiv> 0x1d"
abbreviation (input) OP_DATA_30 :: byte where "OP_DATA_30 \<equiv> 0x1e"
abbreviation (input) OP_DATA_31 :: byte where "OP_DATA_31 \<equiv> 0x1f"
abbreviation (input) OP_DATA_32 :: byte where "OP_DATA_32 \<equiv> 0x20"
abbreviation (input) OP_DATA_33 :: byte where "OP_DATA_33 \<equiv> 0x21"
abbreviation (input) OP_DATA_34 :: byte where "OP_DATA_34 \<equiv> 0x22"
abbreviation (input) OP_DATA_35 :: byte where "OP_DATA_35 \<equiv> 0x23"
abbreviation (input) OP_DATA_36 :: byte where "OP_DATA_36 \<equiv> 0x24"
abbreviation (input) OP_DATA_37 :: byte where "OP_DATA_37 \<equiv> 0x25"
abbreviation (input) OP_DATA_38 :: byte where "OP_DATA_38 \<equiv> 0x26"
abbreviation (input) OP_DATA_39 :: byte where "OP_DATA_39 \<equiv> 0x27"
abbreviation (input) OP_DATA_40 :: byte where "OP_DATA_40 \<equiv> 0x28"
abbreviation (input) OP_DATA_41 :: byte where "OP_DATA_41 \<equiv> 0x29"
abbreviation (input) OP_DATA_42 :: byte where "OP_DATA_42 \<equiv> 0x2a"
abbreviation (input) OP_DATA_43 :: byte where "OP_DATA_43 \<equiv> 0x2b"
abbreviation (input) OP_DATA_44 :: byte where "OP_DATA_44 \<equiv> 0x2c"
abbreviation (input) OP_DATA_45 :: byte where "OP_DATA_45 \<equiv> 0x2d"
abbreviation (input) OP_DATA_46 :: byte where "OP_DATA_46 \<equiv> 0x2e"
abbreviation (input) OP_DATA_47 :: byte where "OP_DATA_47 \<equiv> 0x2f"
abbreviation (input) OP_DATA_48 :: byte where "OP_DATA_48 \<equiv> 0x30"
abbreviation (input) OP_DATA_49 :: byte where "OP_DATA_49 \<equiv> 0x31"
abbreviation (input) OP_DATA_50 :: byte where "OP_DATA_50 \<equiv> 0x32"
abbreviation (input) OP_DATA_51 :: byte where "OP_DATA_51 \<equiv> 0x33"
abbreviation (input) OP_DATA_52 :: byte where "OP_DATA_52 \<equiv> 0x34"
abbreviation (input) OP_DATA_53 :: byte where "OP_DATA_53 \<equiv> 0x35"
abbreviation (input) OP_DATA_54 :: byte where "OP_DATA_54 \<equiv> 0x36"
abbreviation (input) OP_DATA_55 :: byte where "OP_DATA_55 \<equiv> 0x37"
abbreviation (input) OP_DATA_56 :: byte where "OP_DATA_56 \<equiv> 0x38"
abbreviation (input) OP_DATA_57 :: byte where "OP_DATA_57 \<equiv> 0x39"
abbreviation (input) OP_DATA_58 :: byte where "OP_DATA_58 \<equiv> 0x3a"
abbreviation (input) OP_DATA_59 :: byte where "OP_DATA_59 \<equiv> 0x3b"
abbreviation (input) OP_DATA_60 :: byte where "OP_DATA_60 \<equiv> 0x3c"
abbreviation (input) OP_DATA_61 :: byte where "OP_DATA_61 \<equiv> 0x3d"
abbreviation (input) OP_DATA_62 :: byte where "OP_DATA_62 \<equiv> 0x3e"
abbreviation (input) OP_DATA_63 :: byte where "OP_DATA_63 \<equiv> 0x3f"
abbreviation (input) OP_DATA_64 :: byte where "OP_DATA_64 \<equiv> 0x40"
abbreviation (input) OP_DATA_65 :: byte where "OP_DATA_65 \<equiv> 0x41"
abbreviation (input) OP_DATA_66 :: byte where "OP_DATA_66 \<equiv> 0x42"
abbreviation (input) OP_DATA_67 :: byte where "OP_DATA_67 \<equiv> 0x43"
abbreviation (input) OP_DATA_68 :: byte where "OP_DATA_68 \<equiv> 0x44"
abbreviation (input) OP_DATA_69 :: byte where "OP_DATA_69 \<equiv> 0x45"
abbreviation (input) OP_DATA_70 :: byte where "OP_DATA_70 \<equiv> 0x46"
abbreviation (input) OP_DATA_71 :: byte where "OP_DATA_71 \<equiv> 0x47"
abbreviation (input) OP_DATA_72 :: byte where "OP_DATA_72 \<equiv> 0x48"
abbreviation (input) OP_DATA_73 :: byte where "OP_DATA_73 \<equiv> 0x49"
abbreviation (input) OP_DATA_74 :: byte where "OP_DATA_74 \<equiv> 0x4a"
abbreviation (input) OP_DATA_75 :: byte where "OP_DATA_75 \<equiv> 0x4b"
abbreviation (input) OP_PUSHDATA1 :: byte where "OP_PUSHDATA1 \<equiv> 0x4c"
abbreviation (input) OP_PUSHDATA2 :: byte where "OP_PUSHDATA2 \<equiv> 0x4d"
abbreviation (input) OP_PUSHDATA4 :: byte where "OP_PUSHDATA4 \<equiv> 0x4e"
abbreviation (input) OP_1NEGATE :: byte where "OP_1NEGATE \<equiv> 0x4f"
abbreviation (input) OP_RESERVED :: byte where "OP_RESERVED \<equiv> 0x50"
abbreviation (input) OP_1 :: byte where "OP_1 \<equiv> 0x51"
abbreviation (input) OP_TRUE :: byte where "OP_TRUE \<equiv> 0x51"
abbreviation (input) OP_2 :: byte where "OP_2 \<equiv> 0x52"
abbreviation (input) OP_3 :: byte where "OP_3 \<equiv> 0x53"
abbreviation (input) OP_4 :: byte where "OP_4 \<equiv> 0x54"
abbreviation (input) OP_5 :: byte where "OP_5 \<equiv> 0x55"
abbreviation (input) OP_6 :: byte where "OP_6 \<equiv> 0x56"
abbreviation (input) OP_7 :: byte where "OP_7 \<equiv> 0x57"
abbreviation (input) OP_8 :: byte where "OP_8 \<equiv> 0x58"
abbreviation (input) OP_9 :: byte where "OP_9 \<equiv> 0x59"
abbreviation (input) OP_10 :: byte where "OP_10 \<equiv> 0x5a"
abbreviation (input) OP_11 :: byte where "OP_11 \<equiv> 0x5b"
abbreviation (input) OP_12 :: byte where "OP_12 \<equiv> 0x5c"
abbreviation (input) OP_13 :: byte where "OP_13 \<equiv> 0x5d"
abbreviation (input) OP_14 :: byte where "OP_14 \<equiv> 0x5e"
abbreviation (input) OP_15 :: byte where "OP_15 \<equiv> 0x5f"
abbreviation (input) OP_16 :: byte where "OP_16 \<equiv> 0x60"
abbreviation (input) OP_NOP :: byte where "OP_NOP \<equiv> 0x61"
abbreviation (input) OP_VER :: byte where "OP_VER \<equiv> 0x62"
abbreviation (input) OP_IF :: byte where "OP_IF \<equiv> 0x63"
abbreviation (input) OP_NOTIF :: byte where "OP_NOTIF \<equiv> 0x64"
abbreviation (input) OP_VERIF :: byte where "OP_VERIF \<equiv> 0x65"
abbreviation (input) OP_VERNOTIF :: byte where "OP_VERNOTIF \<equiv> 0x66"
abbreviation (input) OP_ELSE :: byte where "OP_ELSE \<equiv> 0x67"
abbreviation (input) OP_ENDIF :: byte where "OP_ENDIF \<equiv> 0x68"
abbreviation (input) OP_VERIFY :: byte where "OP_VERIFY \<equiv> 0x69"
abbreviation (input) OP_RETURN :: byte where "OP_RETURN \<equiv> 0x6a"
abbreviation (input) OP_TOALTSTACK :: byte where "OP_TOALTSTACK \<equiv> 0x6b"
abbreviation (input) OP_FROMALTSTACK :: byte where "OP_FROMALTSTACK \<equiv> 0x6c"
abbreviation (input) OP_2DROP :: byte where "OP_2DROP \<equiv> 0x6d"
abbreviation (input) OP_2DUP :: byte where "OP_2DUP \<equiv> 0x6e"
abbreviation (input) OP_3DUP :: byte where "OP_3DUP \<equiv> 0x6f"
abbreviation (input) OP_2OVER :: byte where "OP_2OVER \<equiv> 0x70"
abbreviation (input) OP_2ROT :: byte where "OP_2ROT \<equiv> 0x71"
abbreviation (input) OP_2SWAP :: byte where "OP_2SWAP \<equiv> 0x72"
abbreviation (input) OP_IFDUP :: byte where "OP_IFDUP \<equiv> 0x73"
abbreviation (input) OP_DEPTH :: byte where "OP_DEPTH \<equiv> 0x74"
abbreviation (input) OP_DROP :: byte where "OP_DROP \<equiv> 0x75"
abbreviation (input) OP_DUP :: byte where "OP_DUP \<equiv> 0x76"
abbreviation (input) OP_NIP :: byte where "OP_NIP \<equiv> 0x77"
abbreviation (input) OP_OVER :: byte where "OP_OVER \<equiv> 0x78"
abbreviation (input) OP_PICK :: byte where "OP_PICK \<equiv> 0x79"
abbreviation (input) OP_ROLL :: byte where "OP_ROLL \<equiv> 0x7a"
abbreviation (input) OP_ROT :: byte where "OP_ROT \<equiv> 0x7b"
abbreviation (input) OP_SWAP :: byte where "OP_SWAP \<equiv> 0x7c"
abbreviation (input) OP_TUCK :: byte where "OP_TUCK \<equiv> 0x7d"
abbreviation (input) OP_CAT :: byte where "OP_CAT \<equiv> 0x7e"
abbreviation (input) OP_SUBSTR :: byte where "OP_SUBSTR \<equiv> 0x7f"
abbreviation (input) OP_LEFT :: byte where "OP_LEFT \<equiv> 0x80"
abbreviation (input) OP_RIGHT :: byte where "OP_RIGHT \<equiv> 0x81"
abbreviation (input) OP_SIZE :: byte where "OP_SIZE \<equiv> 0x82"
abbreviation (input) OP_INVERT :: byte where "OP_INVERT \<equiv> 0x83"
abbreviation (input) OP_AND :: byte where "OP_AND \<equiv> 0x84"
abbreviation (input) OP_OR :: byte where "OP_OR \<equiv> 0x85"
abbreviation (input) OP_XOR :: byte where "OP_XOR \<equiv> 0x86"
abbreviation (input) OP_EQUAL :: byte where "OP_EQUAL \<equiv> 0x87"
abbreviation (input) OP_EQUALVERIFY :: byte where "OP_EQUALVERIFY \<equiv> 0x88"
abbreviation (input) OP_RESERVED1 :: byte where "OP_RESERVED1 \<equiv> 0x89"
abbreviation (input) OP_RESERVED2 :: byte where "OP_RESERVED2 \<equiv> 0x8a"
abbreviation (input) OP_1ADD :: byte where "OP_1ADD \<equiv> 0x8b"
abbreviation (input) OP_1SUB :: byte where "OP_1SUB \<equiv> 0x8c"
abbreviation (input) OP_2MUL :: byte where "OP_2MUL \<equiv> 0x8d"
abbreviation (input) OP_2DIV :: byte where "OP_2DIV \<equiv> 0x8e"
abbreviation (input) OP_NEGATE :: byte where "OP_NEGATE \<equiv> 0x8f"
abbreviation (input) OP_ABS :: byte where "OP_ABS \<equiv> 0x90"
abbreviation (input) OP_NOT :: byte where "OP_NOT \<equiv> 0x91"
abbreviation (input) OP_0NOTEQUAL :: byte where "OP_0NOTEQUAL \<equiv> 0x92"
abbreviation (input) OP_ADD :: byte where "OP_ADD \<equiv> 0x93"
abbreviation (input) OP_SUB :: byte where "OP_SUB \<equiv> 0x94"
abbreviation (input) OP_MUL :: byte where "OP_MUL \<equiv> 0x95"
abbreviation (input) OP_DIV :: byte where "OP_DIV \<equiv> 0x96"
abbreviation (input) OP_MOD :: byte where "OP_MOD \<equiv> 0x97"
abbreviation (input) OP_LSHIFT :: byte where "OP_LSHIFT \<equiv> 0x98"
abbreviation (input) OP_RSHIFT :: byte where "OP_RSHIFT \<equiv> 0x99"
abbreviation (input) OP_BOOLAND :: byte where "OP_BOOLAND \<equiv> 0x9a"
abbreviation (input) OP_BOOLOR :: byte where "OP_BOOLOR \<equiv> 0x9b"
abbreviation (input) OP_NUMEQUAL :: byte where "OP_NUMEQUAL \<equiv> 0x9c"
abbreviation (input) OP_NUMEQUALVERIFY :: byte where "OP_NUMEQUALVERIFY \<equiv> 0x9d"
abbreviation (input) OP_NUMNOTEQUAL :: byte where "OP_NUMNOTEQUAL \<equiv> 0x9e"
abbreviation (input) OP_LESSTHAN :: byte where "OP_LESSTHAN \<equiv> 0x9f"
abbreviation (input) OP_GREATERTHAN :: byte where "OP_GREATERTHAN \<equiv> 0xa0"
abbreviation (input) OP_LESSTHANOREQUAL :: byte where "OP_LESSTHANOREQUAL \<equiv> 0xa1"
abbreviation (input) OP_GREATERTHANOREQUAL :: byte where "OP_GREATERTHANOREQUAL \<equiv> 0xa2"
abbreviation (input) OP_MIN :: byte where "OP_MIN \<equiv> 0xa3"
abbreviation (input) OP_MAX :: byte where "OP_MAX \<equiv> 0xa4"
abbreviation (input) OP_WITHIN :: byte where "OP_WITHIN \<equiv> 0xa5"
abbreviation (input) OP_RIPEMD160 :: byte where "OP_RIPEMD160 \<equiv> 0xa6"
abbreviation (input) OP_SHA1 :: byte where "OP_SHA1 \<equiv> 0xa7"
abbreviation (input) OP_SHA256 :: byte where "OP_SHA256 \<equiv> 0xa8"
abbreviation (input) OP_HASH160 :: byte where "OP_HASH160 \<equiv> 0xa9"
abbreviation (input) OP_HASH256 :: byte where "OP_HASH256 \<equiv> 0xaa"
abbreviation (input) OP_CODESEPARATOR :: byte where "OP_CODESEPARATOR \<equiv> 0xab"
abbreviation (input) OP_CHECKSIG :: byte where "OP_CHECKSIG \<equiv> 0xac"
abbreviation (input) OP_CHECKSIGVERIFY :: byte where "OP_CHECKSIGVERIFY \<equiv> 0xad"
abbreviation (input) OP_CHECKMULTISIG :: byte where "OP_CHECKMULTISIG \<equiv> 0xae"
abbreviation (input) OP_CHECKMULTISIGVERIFY :: byte where "OP_CHECKMULTISIGVERIFY \<equiv> 0xaf"
abbreviation (input) OP_NOP1 :: byte where "OP_NOP1 \<equiv> 0xb0"
abbreviation (input) OP_NOP2 :: byte where "OP_NOP2 \<equiv> 0xb1"
abbreviation (input) OP_CHECKLOCKTIMEVERIFY :: byte where "OP_CHECKLOCKTIMEVERIFY \<equiv> 0xb1"
abbreviation (input) OP_NOP3 :: byte where "OP_NOP3 \<equiv> 0xb2"
abbreviation (input) OP_CHECKSEQUENCEVERIFY :: byte where "OP_CHECKSEQUENCEVERIFY \<equiv> 0xb2"
abbreviation (input) OP_NOP4 :: byte where "OP_NOP4 \<equiv> 0xb3"
abbreviation (input) OP_NOP5 :: byte where "OP_NOP5 \<equiv> 0xb4"
abbreviation (input) OP_NOP6 :: byte where "OP_NOP6 \<equiv> 0xb5"
abbreviation (input) OP_NOP7 :: byte where "OP_NOP7 \<equiv> 0xb6"
abbreviation (input) OP_NOP8 :: byte where "OP_NOP8 \<equiv> 0xb7"
abbreviation (input) OP_NOP9 :: byte where "OP_NOP9 \<equiv> 0xb8"
abbreviation (input) OP_NOP10 :: byte where "OP_NOP10 \<equiv> 0xb9"
abbreviation (input) OP_UNKNOWN186 :: byte where "OP_UNKNOWN186 \<equiv> 0xba"
abbreviation (input) OP_UNKNOWN187 :: byte where "OP_UNKNOWN187 \<equiv> 0xbb"
abbreviation (input) OP_UNKNOWN188 :: byte where "OP_UNKNOWN188 \<equiv> 0xbc"
abbreviation (input) OP_UNKNOWN189 :: byte where "OP_UNKNOWN189 \<equiv> 0xbd"
abbreviation (input) OP_UNKNOWN190 :: byte where "OP_UNKNOWN190 \<equiv> 0xbe"
abbreviation (input) OP_UNKNOWN191 :: byte where "OP_UNKNOWN191 \<equiv> 0xbf"
abbreviation (input) OP_UNKNOWN192 :: byte where "OP_UNKNOWN192 \<equiv> 0xc0"
abbreviation (input) OP_UNKNOWN193 :: byte where "OP_UNKNOWN193 \<equiv> 0xc1"
abbreviation (input) OP_UNKNOWN194 :: byte where "OP_UNKNOWN194 \<equiv> 0xc2"
abbreviation (input) OP_UNKNOWN195 :: byte where "OP_UNKNOWN195 \<equiv> 0xc3"
abbreviation (input) OP_UNKNOWN196 :: byte where "OP_UNKNOWN196 \<equiv> 0xc4"
abbreviation (input) OP_UNKNOWN197 :: byte where "OP_UNKNOWN197 \<equiv> 0xc5"
abbreviation (input) OP_UNKNOWN198 :: byte where "OP_UNKNOWN198 \<equiv> 0xc6"
abbreviation (input) OP_UNKNOWN199 :: byte where "OP_UNKNOWN199 \<equiv> 0xc7"
abbreviation (input) OP_JURY_REDEEM_EQUAL :: byte where "OP_JURY_REDEEM_EQUAL \<equiv> 0xc8"
abbreviation (input) OP_UNKNOWN201 :: byte where "OP_UNKNOWN201 \<equiv> 0xc9"
abbreviation (input) OP_UNKNOWN202 :: byte where "OP_UNKNOWN202 \<equiv> 0xca"
abbreviation (input) OP_UNKNOWN203 :: byte where "OP_UNKNOWN203 \<equiv> 0xcb"
abbreviation (input) OP_UNKNOWN204 :: byte where "OP_UNKNOWN204 \<equiv> 0xcc"
abbreviation (input) OP_UNKNOWN205 :: byte where "OP_UNKNOWN205 \<equiv> 0xcd"
abbreviation (input) OP_UNKNOWN206 :: byte where "OP_UNKNOWN206 \<equiv> 0xce"
abbreviation (input) OP_UNKNOWN207 :: byte where "OP_UNKNOWN207 \<equiv> 0xcf"
abbreviation (input) OP_UNKNOWN208 :: byte where "OP_UNKNOWN208 \<equiv> 0xd0"
abbreviation (input) OP_UNKNOWN209 :: byte where "OP_UNKNOWN209 \<equiv> 0xd1"
abbreviation (input) OP_UNKNOWN210 :: byte where "OP_UNKNOWN210 \<equiv> 0xd2"
abbreviation (input) OP_UNKNOWN211 :: byte where "OP_UNKNOWN211 \<equiv> 0xd3"
abbreviation (input) OP_UNKNOWN212 :: byte where "OP_UNKNOWN212 \<equiv> 0xd4"
abbreviation (input) OP_UNKNOWN213 :: byte where "OP_UNKNOWN213 \<equiv> 0xd5"
abbreviation (input) OP_UNKNOWN214 :: byte where "OP_UNKNOWN214 \<equiv> 0xd6"
abbreviation (input) OP_UNKNOWN215 :: byte where "OP_UNKNOWN215 \<equiv> 0xd7"
abbreviation (input) OP_UNKNOWN216 :: byte where "OP_UNKNOWN216 \<equiv> 0xd8"
abbreviation (input) OP_UNKNOWN217 :: byte where "OP_UNKNOWN217 \<equiv> 0xd9"
abbreviation (input) OP_UNKNOWN218 :: byte where "OP_UNKNOWN218 \<equiv> 0xda"
abbreviation (input) OP_UNKNOWN219 :: byte where "OP_UNKNOWN219 \<equiv> 0xdb"
abbreviation (input) OP_UNKNOWN220 :: byte where "OP_UNKNOWN220 \<equiv> 0xdc"
abbreviation (input) OP_UNKNOWN221 :: byte where "OP_UNKNOWN221 \<equiv> 0xdd"
abbreviation (input) OP_UNKNOWN222 :: byte where "OP_UNKNOWN222 \<equiv> 0xde"
abbreviation (input) OP_UNKNOWN223 :: byte where "OP_UNKNOWN223 \<equiv> 0xdf"
abbreviation (input) OP_UNKNOWN224 :: byte where "OP_UNKNOWN224 \<equiv> 0xe0"
abbreviation (input) OP_UNKNOWN225 :: byte where "OP_UNKNOWN225 \<equiv> 0xe1"
abbreviation (input) OP_UNKNOWN226 :: byte where "OP_UNKNOWN226 \<equiv> 0xe2"
abbreviation (input) OP_UNKNOWN227 :: byte where "OP_UNKNOWN227 \<equiv> 0xe3"
abbreviation (input) OP_UNKNOWN228 :: byte where "OP_UNKNOWN228 \<equiv> 0xe4"
abbreviation (input) OP_UNKNOWN229 :: byte where "OP_UNKNOWN229 \<equiv> 0xe5"
abbreviation (input) OP_UNKNOWN230 :: byte where "OP_UNKNOWN230 \<equiv> 0xe6"
abbreviation (input) OP_UNKNOWN231 :: byte where "OP_UNKNOWN231 \<equiv> 0xe7"
abbreviation (input) OP_UNKNOWN232 :: byte where "OP_UNKNOWN232 \<equiv> 0xe8"
abbreviation (input) OP_UNKNOWN233 :: byte where "OP_UNKNOWN233 \<equiv> 0xe9"
abbreviation (input) OP_UNKNOWN234 :: byte where "OP_UNKNOWN234 \<equiv> 0xea"
abbreviation (input) OP_UNKNOWN235 :: byte where "OP_UNKNOWN235 \<equiv> 0xeb"
abbreviation (input) OP_UNKNOWN236 :: byte where "OP_UNKNOWN236 \<equiv> 0xec"
abbreviation (input) OP_UNKNOWN237 :: byte where "OP_UNKNOWN237 \<equiv> 0xed"
abbreviation (input) OP_UNKNOWN238 :: byte where "OP_UNKNOWN238 \<equiv> 0xee"
abbreviation (input) OP_UNKNOWN239 :: byte where "OP_UNKNOWN239 \<equiv> 0xef"
abbreviation (input) OP_UNKNOWN240 :: byte where "OP_UNKNOWN240 \<equiv> 0xf0"
abbreviation (input) OP_UNKNOWN241 :: byte where "OP_UNKNOWN241 \<equiv> 0xf1"
abbreviation (input) OP_UNKNOWN242 :: byte where "OP_UNKNOWN242 \<equiv> 0xf2"
abbreviation (input) OP_UNKNOWN243 :: byte where "OP_UNKNOWN243 \<equiv> 0xf3"
abbreviation (input) OP_UNKNOWN244 :: byte where "OP_UNKNOWN244 \<equiv> 0xf4"
abbreviation (input) OP_UNKNOWN245 :: byte where "OP_UNKNOWN245 \<equiv> 0xf5"
abbreviation (input) OP_UNKNOWN246 :: byte where "OP_UNKNOWN246 \<equiv> 0xf6"
abbreviation (input) OP_UNKNOWN247 :: byte where "OP_UNKNOWN247 \<equiv> 0xf7"
abbreviation (input) OP_UNKNOWN248 :: byte where "OP_UNKNOWN248 \<equiv> 0xf8"
abbreviation (input) OP_UNKNOWN249 :: byte where "OP_UNKNOWN249 \<equiv> 0xf9"
abbreviation (input) OP_SMALLINTEGER :: byte where "OP_SMALLINTEGER \<equiv> 0xfa"
abbreviation (input) OP_PUBKEYS :: byte where "OP_PUBKEYS \<equiv> 0xfb"
abbreviation (input) OP_UNKNOWN252 :: byte where "OP_UNKNOWN252 \<equiv> 0xfc"
abbreviation (input) OP_PUBKEYHASH :: byte where "OP_PUBKEYHASH \<equiv> 0xfd"
abbreviation (input) OP_PUBKEY :: byte where "OP_PUBKEY \<equiv> 0xfe"
abbreviation (input) OP_INVALIDOPCODE :: byte where "OP_INVALIDOPCODE \<equiv> 0xff"

section \<open>The table\<close>

text \<open>One tag per handler function; \<open>fn_nil\<close> is the nil function of a zero table entry.\<close>

datatype (plugins del: "quickcheck" "size") opfn =
    fn_nil
  | fn_opcodeFalse
  | fn_opcodePushData
  | fn_opcode1Negate
  | fn_opcodeReserved
  | fn_opcodeN
  | fn_opcodeNop
  | fn_opcodeIf
  | fn_opcodeNotIf
  | fn_opcodeElse
  | fn_opcodeEndif
  | fn_opcodeVerify
  | fn_opcodeReturn
  | fn_opcodeCheckLockTimeVerify
  | fn_opcodeCheckSequenceVerify
  | fn_opcodeToAltStack
  | fn_opcodeFromAltStack
  | fn_opcode2Drop
  | fn_opcode2Dup
  | fn_opcode3Dup
  | fn_opcode2Over
  | fn_opcode2Rot
  | fn_opcode2Swap
  | fn_opcodeIfDup
  | fn_opcodeDepth
  | fn_opcodeDrop
  | fn_opcodeDup
  | fn_opcodeNip
  | fn_opcodeOver
  | fn_opcodePick
  | fn_opcodeRoll
  | fn_opcodeRot
  | fn_opcodeSwap
  | fn_opcodeTuck
  | fn_opcodeDisabled
  | fn_opcodeSize
  | fn_opcodeEqual
  | fn_opcodeEqualVerify
  | fn_opcode1Add
  | fn_opcode1Sub
  | fn_opcodeNegate
  | fn_opcodeAbs
  | fn_opcodeNot
  | fn_opcode0NotEqual
  | fn_opcodeAdd
  | fn_opcodeSub
  | fn_opcodeBoolAnd
  | fn_opcodeBoolOr
  | fn_opcodeNumEqual
  | fn_opcodeNumEqualVerify
  | fn_opcodeNumNotEqual
  | fn_opcodeLessThan
  | fn_opcodeGreaterThan
  | fn_opcodeLessThanOrEqual
  | fn_opcodeGreaterThanOrEqual
  | fn_opcodeMin
  | fn_opcodeMax
  | fn_opcodeWithin
  | fn_opcodeRipemd160
  | fn_opcodeSha1
  | fn_opcodeSha256
  | fn_opcodeHash160
  | fn_opcodeHash256
  | fn_opcodeCodeSeparator
  | fn_opcodeCheckSig
  | fn_opcodeCheckSigVerify
  | fn_opcodeCheckMultiSig
  | fn_opcodeCheckMultiSigVerify
  | fn_opcodeInvalid
  | fn_opcodeCheckJuryRedeemEqual

record opcode =
  opvalue :: byte
  oplength :: int
  opfunc :: opfn

definition opcodes_push :: "(byte \<times> opcode) list" where
  "opcodes_push = [
    (OP_FALSE, \<lparr>opvalue = OP_FALSE, oplength = 1, opfunc = fn_opcodeFalse\<rparr>),
    (OP_DATA_1, \<lparr>opvalue = OP_DATA_1, oplength = 2, opfunc = fn_opcodePushData\<rparr>),
    (OP_DATA_2, \<lparr>opvalue = OP_DATA_2, oplength = 3, opfunc = fn_opcodePushData\<rparr>),
    (OP_DATA_3, \<lparr>opvalue = OP_DATA_3, oplength = 4, opfunc = fn_opcodePushData\<rparr>),
    (OP_DATA_4, \<lparr>opvalue = OP_DATA_4, oplength = 5, opfunc = fn_opcodePushData\<rparr>),
    (OP_DATA_5, \<lparr>opvalue = OP_DATA_5, oplength = 6, opfunc = fn_opcodePushData\<rparr>),
    (OP_DATA_6, \<lparr>opvalue = OP_DATA_6, oplength = 7, opfunc = fn_opcodePushData\<rparr>),
    (OP_DATA_7, \<lparr>opvalue = OP_DATA_7, oplength = 8, opfunc = fn_opcodePushData\<rparr>),
    (OP_DATA_8, \<lparr>opvalue = OP_DATA_8, oplength = 9, opfunc = fn_opcodePushData\<rparr>),
    (OP_DATA_9, \<lparr>opvalue = OP_DATA_9, oplength = 10, opfunc = fn_opcodePushData\<rparr>),
    (OP_DATA_10, \<lparr>opvalue = OP_DATA_10, oplength = 11, opfunc = fn_opcodePushData\<rparr>),
    (OP_DATA_11, \<lparr>opvalue = OP_DATA_11, oplength = 12, opfunc = fn_opcodePushData\<rparr>),
    (OP_DATA_12, \<lparr>opvalue = OP_DATA_12, oplength = 13, opfunc = fn_opcodePushData\<rparr>),
    (OP_DATA_13, \<lparr>opvalue = OP_DATA_13, oplength = 14, opfunc = fn_opcodePushData\<rparr>),
    (OP_DATA_14, \<lparr>opvalue = OP_DATA_14, oplength = 15, opfunc = fn_opcodePushData\<rparr>),
    (OP_DATA_15, \<lparr>opvalue = OP_DATA_15, oplength = 16, opfunc = fn_opcodePushData\<rparr>),
    (OP_DATA_16, \<lparr>opvalue = OP_DATA_16, oplength = 17, opfunc = fn_opcodePushData\<rparr>),
    (OP_DATA_17, \<lparr>opvalue = OP_DATA_17, oplength = 18, opfunc = fn_opcodePushData\<rparr>),
    (OP_DATA_18, \<lparr>opvalue = OP_DATA_18, oplength = 19, opfunc = fn_opcodePushData\<rparr>),
    (OP_DATA_19, \<lparr>opvalue = OP_DATA_19, oplength = 20, opfunc = fn_opcodePushData\<rparr>),
    (OP_DATA_20, \<lparr>opvalue = OP_DATA_20, oplength = 21, opfunc = fn_opcodePushData\<rparr>),
    (OP_DATA_21, \<lparr>opvalue = OP_DATA_21, oplength = 22, opfunc = fn_opcodePushData\<rparr>),
    (OP_DATA_22, \<lparr>opvalue = OP_DATA_22, oplength = 23, opfunc = fn_opcodePushData\<rparr>),
    (OP_DATA_23, \<lparr>opvalue = OP_DATA_23, oplength = 24, opfunc = fn_opcodePushData\<rparr>),
    (OP_DATA_24, \<lparr>opvalue = OP_DATA_24, oplength = 25, opfunc = fn_opcodePushData\<rparr>),
    (OP_DATA_25, \<lparr>opvalue = OP_DATA_25, oplength = 26, opfunc = fn_opcodePushData\<rparr>),
    (OP_DATA_26, \<lparr>opvalue = OP_DATA_26, oplength = 27, opfunc = fn_opcodePushData\<rparr>),
    (OP_DATA_27, \<lparr>opvalue = OP_DATA_27, oplength = 28, opfunc = fn_opcodePushData\<rparr>),
    (OP_DATA_28, \<lparr>opvalue = OP_DATA_28, oplength = 29, opfunc = fn_opcodePushData\<rparr>),
    (OP_DATA_29, \<lparr>opvalue = OP_DATA_29, oplength = 30, opfunc = fn_opcodePushData\<rparr>),
    (OP_DATA_30, \<lparr>opvalue = OP_DATA_30, oplength = 31, opfunc = fn_opcodePushData\<rparr>),
    (OP_DATA_31, \<lparr>opvalue = OP_DATA_31, oplength = 32, opfunc = fn_opcodePushData\<rparr>),
    (OP_DATA_32, \<lparr>opvalue = OP_DATA_32, oplength = 33, opfunc = fn_opcodePushData\<rparr>),
    (OP_DATA_33, \<lparr>opvalue = OP_DATA_33, oplength = 34, opfunc = fn_opcodePushData\<rparr>),
    (OP_DATA_34, \<lparr>opvalue = OP_DATA_34, oplength = 35, opfunc = fn_opcodePushData\<rparr>),
    (OP_DATA_35, \<lparr>opvalue = OP_DATA_35, oplength = 36, opfunc = fn_opcodePushData\<rparr>),
    (OP_DATA_36, \<lparr>opvalue = OP_DATA_36, oplength = 37, opfunc = fn_opcodePushData\<rparr>),
    (OP_DATA_37, \<lparr>opvalue = OP_DATA_37, oplength = 38, opfunc = fn_opcodePushData\<rparr>),
    (OP_DATA_38, \<lparr>opvalue = OP_DATA_38, oplength = 39, opfunc = fn_opcodePushData\<rparr>),
    (OP_DATA_39, \<lparr>opvalue = OP_DATA_39, oplength = 40, opfunc = fn_opcodePushData\<rparr>),
    (OP_DATA_40, \<lparr>opvalue = OP_DATA_40, oplength = 41, opfunc = fn_opcodePushData\<rparr>),
    (OP_DATA_41, \<lparr>opvalue = OP_DATA_41, oplength = 42, opfunc = fn_opcodePushData\<rparr>),
    (OP_DATA_42, \<lparr>opvalue = OP_DATA_42, oplength = 43, opfunc = fn_opcodePushData\<rparr>),
    (OP_DATA_43, \<lparr>opvalue = OP_DATA_43, oplength = 44, opfunc = fn_opcodePushData\<rparr>),
    (OP_DATA_44, \<lparr>opvalue = OP_DATA_44, oplength = 45, opfunc = fn_opcodePushData\<rparr>),
    (OP_DATA_45, \<lparr>opvalue = OP_DATA_45, oplength = 46, opfunc = fn_opcodePushData\<rparr>),
    (OP_DATA_46, \<lparr>opvalue = OP_DATA_46, oplength = 47, opfunc = fn_opcodePushData\<rparr>),
    (OP_DATA_47, \<lparr>opvalue = OP_DATA_47, oplength = 48, opfunc = fn_opcodePushData\<rparr>),
    (OP_DATA_48, \<lparr>opvalue = OP_DATA_48, oplength = 49, opfunc = fn_opcodePushData\<rparr>),
    (OP_DATA_49, \<lparr>opvalue = OP_DATA_49, oplength = 50, opfunc = fn_opcodePushData\<rparr>),
    (OP_DATA_50, \<lparr>opvalue = OP_DATA_50, oplength = 51, opfunc = fn_opcodePushData\<rparr>),
    (OP_DATA_51, \<lparr>opvalue = OP_DATA_51, oplength = 52, opfunc = fn_opcodePushData\<rparr>),
    (OP_DATA_52, \<lparr>opvalue = OP_DATA_52, oplength = 53, opfunc = fn_opcodePushData\<rparr>),
    (OP_DATA_53, \<lparr>opvalue = OP_DATA_53, oplength = 54, opfunc = fn_opcodePushData\<rparr>),
    (OP_DATA_54, \<lparr>opvalue = OP_DATA_54, oplength = 55, opfunc = fn_opcodePushData\<rparr>),
    (OP_DATA_55, \<lparr>opvalue = OP_DATA_55, oplength = 56, opfunc = fn_opcodePushData\<rparr>),
    (OP_DATA_56, \<lparr>opvalue = OP_DATA_56, oplength = 57, opfunc = fn_opcodePushData\<rparr>),
    (OP_DATA_57, \<lparr>opvalue = OP_DATA_57, oplength = 58, opfunc = fn_opcodePushData\<rparr>),
    (OP_DATA_58, \<lparr>opvalue = OP_DATA_58, oplength = 59, opfunc = fn_opcodePushData\<rparr>),
    (OP_DATA_59, \<lparr>opvalue = OP_DATA_59, oplength = 60, opfunc = fn_opcodePushData\<rparr>),
    (OP_DATA_60, \<lparr>opvalue = OP_DATA_60, oplength = 61, opfunc = fn_opcodePushData\<rparr>),
    (OP_DATA_61, \<lparr>opvalue = OP_DATA_61, oplength = 62, opfunc = fn_opcodePushData\<rparr>),
    (OP_DATA_62, \<lparr>opvalue = OP_DATA_62, oplength = 63, opfunc = fn_opcodePushData\<rparr>),
    (OP_DATA_63, \<lparr>opvalue = OP_DATA_63, oplength = 64, opfunc = fn_opcodePushData\<rparr>),
    (OP_DATA_64, \<lparr>opvalue = OP_DATA_64, oplength = 65, opfunc = fn_opcodePushData\<rparr>),
    (OP_DATA_65, \<lparr>opvalue = OP_DATA_65, oplength = 66, opfunc = fn_opcodePushData\<rparr>),
    (OP_DATA_66, \<lparr>opvalue = OP_DATA_66, oplength = 67, opfunc = fn_opcodePushData\<rparr>),
    (OP_DATA_67, \<lparr>opvalue = OP_DATA_67, oplength = 68, opfunc = fn_opcodePushData\<rparr>),
    (OP_DATA_68, \<lparr>opvalue = OP_DATA_68, oplength = 69, opfunc = fn_opcodePushData\<rparr>),
    (OP_DATA_69, \<lparr>opvalue = OP_DATA_69, oplength = 70, opfunc = fn_opcodePushData\<rparr>),
    (OP_DATA_70, \<lparr>opvalue = OP_DATA_70, oplength = 71, opfunc = fn_opcodePushData\<rparr>),
    (OP_DATA_71, \<lparr>opvalue = OP_DATA_71, oplength = 72, opfunc = fn_opcodePushData\<rparr>),
    (OP_DATA_72, \<lparr>opvalue = OP_DATA_72, oplength = 73, opfunc = fn_opcodePushData\<rparr>),
    (OP_DATA_73, \<lparr>opvalue = OP_DATA_73, oplength = 74, opfunc = fn_opcodePushData\<rparr>),
    (OP_DATA_74, \<lparr>opvalue = OP_DATA_74, oplength = 75, opfunc = fn_opcodePushData\<rparr>),
    (OP_DATA_75, \<lparr>opvalue = OP_DATA_75, oplength = 76, opfunc = fn_opcodePushData\<rparr>),
    (OP_PUSHDATA1, \<lparr>opvalue = OP_PUSHDATA1, oplength = -1, opfunc = fn_opcodePushData\<rparr>),
    (OP_PUSHDATA2, \<lparr>opvalue = OP_PUSHDATA2, oplength = -2, opfunc = fn_opcodePushData\<rparr>),
    (OP_PUSHDATA4, \<lparr>opvalue = OP_PUSHDATA4, oplength = -4, opfunc = fn_opcodePushData\<rparr>),
    (OP_1NEGATE, \<lparr>opvalue = OP_1NEGATE, oplength = 1, opfunc = fn_opcode1Negate\<rparr>),
    (OP_RESERVED, \<lparr>opvalue = OP_RESERVED, oplength = 1, opfunc = fn_opcodeReserved\<rparr>),
    (OP_TRUE, \<lparr>opvalue = OP_TRUE, oplength = 1, opfunc = fn_opcodeN\<rparr>),
    (OP_2, \<lparr>opvalue = OP_2, oplength = 1, opfunc = fn_opcodeN\<rparr>),
    (OP_3, \<lparr>opvalue = OP_3, oplength = 1, opfunc = fn_opcodeN\<rparr>),
    (OP_4, \<lparr>opvalue = OP_4, oplength = 1, opfunc = fn_opcodeN\<rparr>),
    (OP_5, \<lparr>opvalue = OP_5, oplength = 1, opfunc = fn_opcodeN\<rparr>),
    (OP_6, \<lparr>opvalue = OP_6, oplength = 1, opfunc = fn_opcodeN\<rparr>),
    (OP_7, \<lparr>opvalue = OP_7, oplength = 1, opfunc = fn_opcodeN\<rparr>),
    (OP_8, \<lparr>opvalue = OP_8, oplength = 1, opfunc = fn_opcodeN\<rparr>),
    (OP_9, \<lparr>opvalue = OP_9, oplength = 1, opfunc = fn_opcodeN\<rparr>),
    (OP_10, \<lparr>opvalue = OP_10, oplength = 1, opfunc = fn_opcodeN\<rparr>),
    (OP_11, \<lparr>opvalue = OP_11, oplength = 1, opfunc = fn_opcodeN\<rparr>),
    (OP_12, \<lparr>opvalue = OP_12, oplength = 1, opfunc = fn_opcodeN\<rparr>),
    (OP_13, \<lparr>opvalue = OP_13, oplength = 1, opfunc = fn_opcodeN\<rparr>),
    (OP_14, \<lparr>opvalue = OP_14, oplength = 1, opfunc = fn_opcodeN\<rparr>),
    (OP_15, \<lparr>opvalue = OP_15, oplength = 1, opfunc = fn_opcodeN\<rparr>),
    (OP_16, \<lparr>opvalue = OP_16, oplength = 1, opfunc = fn_opcodeN\<rparr>)]"

definition opcodes_ops :: "(byte \<times> opcode) list" where
  "opcodes_ops = [
    (OP_NOP, \<lparr>opvalue = OP_NOP, oplength = 1, opfunc = fn_opcodeNop\<rparr>),
    (OP_VER, \<lparr>opvalue = OP_VER, oplength = 1, opfunc = fn_opcodeReserved\<rparr>),
    (OP_IF, \<lparr>opvalue = OP_IF, oplength = 1, opfunc = fn_opcodeIf\<rparr>),
    (OP_NOTIF, \<lparr>opvalue = OP_NOTIF, oplength = 1, opfunc = fn_opcodeNotIf\<rparr>),
    (OP_VERIF, \<lparr>opvalue = OP_VERIF, oplength = 1, opfunc = fn_opcodeReserved\<rparr>),
    (OP_VERNOTIF, \<lparr>opvalue = OP_VERNOTIF, oplength = 1, opfunc = fn_opcodeReserved\<rparr>),
    (OP_ELSE, \<lparr>opvalue = OP_ELSE, oplength = 1, opfunc = fn_opcodeElse\<rparr>),
    (OP_ENDIF, \<lparr>opvalue = OP_ENDIF, oplength = 1, opfunc = fn_opcodeEndif\<rparr>),
    (OP_VERIFY, \<lparr>opvalue = OP_VERIFY, oplength = 1, opfunc = fn_opcodeVerify\<rparr>),
    (OP_RETURN, \<lparr>opvalue = OP_RETURN, oplength = 1, opfunc = fn_opcodeReturn\<rparr>),
    (OP_CHECKLOCKTIMEVERIFY, \<lparr>opvalue = OP_CHECKLOCKTIMEVERIFY, oplength = 1, opfunc = fn_opcodeCheckLockTimeVerify\<rparr>),
    (OP_CHECKSEQUENCEVERIFY, \<lparr>opvalue = OP_CHECKSEQUENCEVERIFY, oplength = 1, opfunc = fn_opcodeCheckSequenceVerify\<rparr>),
    (OP_TOALTSTACK, \<lparr>opvalue = OP_TOALTSTACK, oplength = 1, opfunc = fn_opcodeToAltStack\<rparr>),
    (OP_FROMALTSTACK, \<lparr>opvalue = OP_FROMALTSTACK, oplength = 1, opfunc = fn_opcodeFromAltStack\<rparr>),
    (OP_2DROP, \<lparr>opvalue = OP_2DROP, oplength = 1, opfunc = fn_opcode2Drop\<rparr>),
    (OP_2DUP, \<lparr>opvalue = OP_2DUP, oplength = 1, opfunc = fn_opcode2Dup\<rparr>),
    (OP_3DUP, \<lparr>opvalue = OP_3DUP, oplength = 1, opfunc = fn_opcode3Dup\<rparr>),
    (OP_2OVER, \<lparr>opvalue = OP_2OVER, oplength = 1, opfunc = fn_opcode2Over\<rparr>),
    (OP_2ROT, \<lparr>opvalue = OP_2ROT, oplength = 1, opfunc = fn_opcode2Rot\<rparr>),
    (OP_2SWAP, \<lparr>opvalue = OP_2SWAP, oplength = 1, opfunc = fn_opcode2Swap\<rparr>),
    (OP_IFDUP, \<lparr>opvalue = OP_IFDUP, oplength = 1, opfunc = fn_opcodeIfDup\<rparr>),
    (OP_DEPTH, \<lparr>opvalue = OP_DEPTH, oplength = 1, opfunc = fn_opcodeDepth\<rparr>),
    (OP_DROP, \<lparr>opvalue = OP_DROP, oplength = 1, opfunc = fn_opcodeDrop\<rparr>),
    (OP_DUP, \<lparr>opvalue = OP_DUP, oplength = 1, opfunc = fn_opcodeDup\<rparr>),
    (OP_NIP, \<lparr>opvalue = OP_NIP, oplength = 1, opfunc = fn_opcodeNip\<rparr>),
    (OP_OVER, \<lparr>opvalue = OP_OVER, oplength = 1, opfunc = fn_opcodeOver\<rparr>),
    (OP_PICK, \<lparr>opvalue = OP_PICK, oplength = 1, opfunc = fn_opcodePick\<rparr>),
    (OP_ROLL, \<lparr>opvalue = OP_ROLL, oplength = 1, opfunc = fn_opcodeRoll\<rparr>),
    (OP_ROT, \<lparr>opvalue = OP_ROT, oplength = 1, opfunc = fn_opcodeRot\<rparr>),
    (OP_SWAP, \<lparr>opvalue = OP_SWAP, oplength = 1, opfunc = fn_opcodeSwap\<rparr>),
    (OP_TUCK, \<lparr>opvalue = OP_TUCK, oplength = 1, opfunc = fn_opcodeTuck\<rparr>),
    (OP_CAT, \<lparr>opvalue = OP_CAT, oplength = 1, opfunc = fn_opcodeDisabled\<rparr>),
    (OP_SUBSTR, \<lparr>opvalue = OP_SUBSTR, oplength = 1, opfunc = fn_opcodeDisabled\<rparr>),
    (OP_LEFT, \<lparr>opvalue = OP_LEFT, oplength = 1, opfunc = fn_opcodeDisabled\<rparr>),
    (OP_RIGHT, \<lparr>opvalue = OP_RIGHT, oplength = 1, opfunc = fn_opcodeDisabled\<rparr>),
    (OP_SIZE, \<lparr>opvalue = OP_SIZE, oplength = 1, opfunc = fn_opcodeSize\<rparr>),
    (OP_INVERT, \<lparr>opvalue = OP_INVERT, oplength = 1, opfunc = fn_opcodeDisabled\<rparr>),
    (OP_AND, \<lparr>opvalue = OP_AND, oplength = 1, opfunc = fn_opcodeDisabled\<rparr>),
    (OP_OR, \<lparr>opvalue = OP_OR, oplength = 1, opfunc = fn_opcodeDisabled\<rparr>),
    (OP_XOR, \<lparr>opvalue = OP_XOR, oplength = 1, opfunc = fn_opcodeDisabled\<rparr>),
    (OP_EQUAL, \<lparr>opvalue = OP_EQUAL, oplength = 1, opfunc = fn_opcodeEqual\<rparr>),
    (OP_EQUALVERIFY, \<lparr>opvalue = OP_EQUALVERIFY, oplength = 1, opfunc = fn_opcodeEqualVerify\<rparr>),
    (OP_RESERVED1, \<lparr>opvalue = OP_RESERVED1, oplength = 1, opfunc = fn_opcodeReserved\<rparr>),
    (OP_RESERVED2, \<lparr>opvalue = OP_RESERVED2, oplength = 1, opfunc = fn_opcodeReserved\<rparr>),
    (OP_1ADD, \<lparr>opvalue = OP_1ADD, oplength = 1, opfunc = fn_opcode1Add\<rparr>),
    (OP_1SUB, \<lparr>opvalue = OP_1SUB, oplength = 1, opfunc = fn_opcode1Sub\<rparr>),
    (OP_2MUL, \<lparr>opvalue = OP_2MUL, oplength = 1, opfunc = fn_opcodeDisabled\<rparr>),
    (OP_2DIV, \<lparr>opvalue = OP_2DIV, oplength = 1, opfunc = fn_opcodeDisabled\<rparr>),
    (OP_NEGATE, \<lparr>opvalue = OP_NEGATE, oplength = 1, opfunc = fn_opcodeNegate\<rparr>),
    (OP_ABS, \<lparr>opvalue = OP_ABS, oplength = 1, opfunc = fn_opcodeAbs\<rparr>),
    (OP_NOT, \<lparr>opvalue = OP_NOT, oplength = 1, opfunc = fn_opcodeNot\<rparr>),
    (OP_0NOTEQUAL, \<lparr>opvalue = OP_0NOTEQUAL, oplength = 1, opfunc = fn_opcode0NotEqual\<rparr>),
    (OP_ADD, \<lparr>opvalue = OP_ADD, oplength = 1, opfunc = fn_opcodeAdd\<rparr>),
    (OP_SUB, \<lparr>opvalue = OP_SUB, oplength = 1, opfunc = fn_opcodeSub\<rparr>),
    (OP_MUL, \<lparr>opvalue = OP_MUL, oplength = 1, opfunc = fn_opcodeDisabled\<rparr>),
    (OP_DIV, \<lparr>opvalue = OP_DIV, oplength = 1, opfunc = fn_opcodeDisabled\<rparr>),
    (OP_MOD, \<lparr>opvalue = OP_MOD, oplength = 1, opfunc = fn_opcodeDisabled\<rparr>),
    (OP_LSHIFT, \<lparr>opvalue = OP_LSHIFT, oplength = 1, opfunc = fn_opcodeDisabled\<rparr>),
    (OP_RSHIFT, \<lparr>opvalue = OP_RSHIFT, oplength = 1, opfunc = fn_opcodeDisabled\<rparr>),
    (OP_BOOLAND, \<lparr>opvalue = OP_BOOLAND, oplength = 1, opfunc = fn_opcodeBoolAnd\<rparr>),
    (OP_BOOLOR, \<lparr>opvalue = OP_BOOLOR, oplength = 1, opfunc = fn_opcodeBoolOr\<rparr>),
    (OP_NUMEQUAL, \<lparr>opvalue = OP_NUMEQUAL, oplength = 1, opfunc = fn_opcodeNumEqual\<rparr>),
    (OP_NUMEQUALVERIFY, \<lparr>opvalue = OP_NUMEQUALVERIFY, oplength = 1, opfunc = fn_opcodeNumEqualVerify\<rparr>),
    (OP_NUMNOTEQUAL, \<lparr>opvalue = OP_NUMNOTEQUAL, oplength = 1, opfunc = fn_opcodeNumNotEqual\<rparr>),
    (OP_LESSTHAN, \<lparr>opvalue = OP_LESSTHAN, oplength = 1, opfunc = fn_opcodeLessThan\<rparr>),
    (OP_GREATERTHAN, \<lparr>opvalue = OP_GREATERTHAN, oplength = 1, opfunc = fn_opcodeGreaterThan\<rparr>),
    (OP_LESSTHANOREQUAL, \<lparr>opvalue = OP_LESSTHANOREQUAL, oplength = 1, opfunc = fn_opcodeLessThanOrEqual\<rparr>),
    (OP_GREATERTHANOREQUAL, \<lparr>opvalue = OP_GREATERTHANOREQUAL, oplength = 1, opfunc = fn_opcodeGreaterThanOrEqual\<rparr>),
    (OP_MIN, \<lparr>opvalue = OP_MIN, oplength = 1, opfunc = fn_opcodeMin\<rparr>),
    (OP_MAX, \<lparr>opvalue = OP_MAX, oplength = 1, opfunc = fn_opcodeMax\<rparr>),
    (OP_WITHIN, \<lparr>opvalue = OP_WITHIN, oplength = 1, opfunc = fn_opcodeWithin\<rparr>),
    (OP_RIPEMD160, \<lparr>opvalue = OP_RIPEMD160, oplength = 1, opfunc = fn_opcodeRipemd160\<rparr>),
    (OP_SHA1, \<lparr>opvalue = OP_SHA1, oplength = 1, opfunc = fn_opcodeSha1\<rparr>),
    (OP_SHA256, \<lparr>opvalue = OP_SHA256, oplength = 1, opfunc = fn_opcodeSha256\<rparr>),
    (OP_HASH160, \<lparr>opvalue = OP_HASH160, oplength = 1, opfunc = fn_opcodeHash160\<rparr>),
    (OP_HASH256, \<lparr>opvalue = OP_HASH256, oplength = 1, opfunc = fn_opcodeHash256\<rparr>),
    (OP_CODESEPARATOR, \<lparr>opvalue = OP_CODESEPARATOR, oplength = 1, opfunc = fn_opcodeCodeSeparator\<rparr>),
    (OP_CHECKSIG, \<lparr>opvalue = OP_CHECKSIG, oplength = 1, opfunc = fn_opcodeCheckSig\<rparr>),
    (OP_CHECKSIGVERIFY, \<lparr>opvalue = OP_CHECKSIGVERIFY, oplength = 1, opfunc = fn_opcodeCheckSigVerify\<rparr>),
    (OP_CHECKMULTISIG, \<lparr>opvalue = OP_CHECKMULTISIG, oplength = 1, opfunc = fn_opcodeCheckMultiSig\<rparr>),
    (OP_CHECKMULTISIGVERIFY, \<lparr>opvalue = OP_CHECKMULTISIGVERIFY, oplength = 1, opfunc = fn_opcodeCheckMultiSigVerify\<rparr>),
    (OP_NOP1, \<lparr>opvalue = OP_NOP1, oplength = 1, opfunc = fn_opcodeNop\<rparr>),
    (OP_NOP4, \<lparr>opvalue = OP_NOP4, oplength = 1, opfunc = fn_opcodeNop\<rparr>),
    (OP_NOP5, \<lparr>opvalue = OP_NOP5, oplength = 1, opfunc = fn_opcodeNop\<rparr>),
    (OP_NOP6, \<lparr>opvalue = OP_NOP6, oplength = 1, opfunc = fn_opcodeNop\<rparr>),
    (OP_NOP7, \<lparr>opvalue = OP_NOP7, oplength = 1, opfunc = fn_opcodeNop\<rparr>),
    (OP_NOP8, \<lparr>opvalue = OP_NOP8, oplength = 1, opfunc = fn_opcodeNop\<rparr>),
    (OP_NOP9, \<lparr>opvalue = OP_NOP9, oplength = 1, opfunc = fn_opcodeNop\<rparr>),
    (OP_NOP10, \<lparr>opvalue = OP_NOP10, oplength = 1, opfunc = fn_opcodeNop\<rparr>)]"

definition opcodes_undef :: "(byte \<times> opcode) list" where
  "opcodes_undef = [
    (OP_UNKNOWN186, \<lparr>opvalue = OP_UNKNOWN186, oplength = 1, opfunc = fn_opcodeInvalid\<rparr>),
    (OP_UNKNOWN187, \<lparr>opvalue = OP_UNKNOWN187, oplength = 1, opfunc = fn_opcodeInvalid\<rparr>),
    (OP_UNKNOWN188, \<lparr>opvalue = OP_UNKNOWN188, oplength = 1, opfunc = fn_opcodeInvalid\<rparr>),
    (OP_UNKNOWN189, \<lparr>opvalue = OP_UNKNOWN189, oplength = 1, opfunc = fn_opcodeInvalid\<rparr>),
    (OP_UNKNOWN190, \<lparr>opvalue = OP_UNKNOWN190, oplength = 1, opfunc = fn_opcodeInvalid\<rparr>),
    (OP_UNKNOWN191, \<lparr>opvalue = OP_UNKNOWN191, oplength = 1, opfunc = fn_opcodeInvalid\<rparr>),
    (OP_UNKNOWN192, \<lparr>opvalue = OP_UNKNOWN192, oplength = 1, opfunc = fn_opcodeInvalid\<rparr>),
    (OP_UNKNOWN193, \<lparr>opvalue = OP_UNKNOWN193, oplength = 1, opfunc = fn_opcodeInvalid\<rparr>),
    (OP_UNKNOWN194, \<lparr>opvalue = OP_UNKNOWN194, oplength = 1, opfunc = fn_opcodeInvalid\<rparr>),
    (OP_UNKNOWN195, \<lparr>opvalue = OP_UNKNOWN195, oplength = 1, opfunc = fn_opcodeInvalid\<rparr>),
    (OP_UNKNOWN196, \<lparr>opvalue = OP_UNKNOWN196, oplength = 1, opfunc = fn_opcodeInvalid\<rparr>),
    (OP_UNKNOWN197, \<lparr>opvalue = OP_UNKNOWN197, oplength = 1, opfunc = fn_opcodeInvalid\<rparr>),
    (OP_UNKNOWN198, \<lparr>opvalue = OP_UNKNOWN198, oplength = 1, opfunc = fn_opcodeInvalid\<rparr>),
    (OP_UNKNOWN199, \<lparr>opvalue = OP_UNKNOWN199, oplength = 1, opfunc = fn_opcodeInvalid\<rparr>),
    (OP_JURY_REDEEM_EQUAL, \<lparr>opvalue = OP_JURY_REDEEM_EQUAL, oplength = 1, opfunc = fn_opcodeCheckJuryRedeemEqual\<rparr>),
    (OP_UNKNOWN201, \<lparr>opvalue = OP_UNKNOWN201, oplength = 1, opfunc = fn_opcodeInvalid\<rparr>),
    (OP_UNKNOWN202, \<lparr>opvalue = OP_UNKNOWN202, oplength = 1, opfunc = fn_opcodeInvalid\<rparr>),
    (OP_UNKNOWN203, \<lparr>opvalue = OP_UNKNOWN203, oplength = 1, opfunc = fn_opcodeInvalid\<rparr>),
    (OP_UNKNOWN204, \<lparr>opvalue = OP_UNKNOWN204, oplength = 1, opfunc = fn_opcodeInvalid\<rparr>),
    (OP_UNKNOWN205, \<lparr>opvalue = OP_UNKNOWN205, oplength = 1, opfunc = fn_opcodeInvalid\<rparr>),
    (OP_UNKNOWN206, \<lparr>opvalue = OP_UNKNOWN206, oplength = 1, opfunc = fn_opcodeInvalid\<rparr>),
    (OP_UNKNOWN207, \<lparr>opvalue = OP_UNKNOWN207, oplength = 1, opfunc = fn_opcodeInvalid\<rparr>),
    (OP_UNKNOWN208, \<lparr>opvalue = OP_UNKNOWN208, oplength = 1, opfunc = fn_opcodeInvalid\<rparr>),
    (OP_UNKNOWN209, \<lparr>opvalue = OP_UNKNOWN209, oplength = 1, opfunc = fn_opcodeInvalid\<rparr>),
    (OP_UNKNOWN210, \<lparr>opvalue = OP_UNKNOWN210, oplength = 1, opfunc = fn_opcodeInvalid\<rparr>),
    (OP_UNKNOWN211, \<lparr>opvalue = OP_UNKNOWN211, oplength = 1, opfunc = fn_opcodeInvalid\<rparr>),
    (OP_UNKNOWN212, \<lparr>opvalue = OP_UNKNOWN212, oplength = 1, opfunc = fn_opcodeInvalid\<rparr>),
    (OP_UNKNOWN213, \<lparr>opvalue = OP_UNKNOWN213, oplength = 1, opfunc = fn_opcodeInvalid\<rparr>),
    (OP_UNKNOWN214, \<lparr>opvalue = OP_UNKNOWN214, oplength = 1, opfunc = fn_opcodeInvalid\<rparr>),
    (OP_UNKNOWN215, \<lparr>opvalue = OP_UNKNOWN215, oplength = 1, opfunc = fn_opcodeInvalid\<rparr>),
    (OP_UNKNOWN216, \<lparr>opvalue = OP_UNKNOWN216, oplength = 1, opfunc = fn_opcodeInvalid\<rparr>),
    (OP_UNKNOWN217, \<lparr>opvalue = OP_UNKNOWN217, oplength = 1, opfunc = fn_opcodeInvalid\<rparr>),
    (OP_UNKNOWN218, \<lparr>opvalue = OP_UNKNOWN218, oplength = 1, opfunc = fn_opcodeInvalid\<rparr>),
    (OP_UNKNOWN219, \<lparr>opvalue = OP_UNKNOWN219, oplength = 1, opfunc = fn_opcodeInvalid\<rparr>),
    (OP_UNKNOWN220, \<lparr>opvalue = OP_UNKNOWN220, oplength = 1, opfunc = fn_opcodeInvalid\<rparr>),
    (OP_UNKNOWN221, \<lparr>opvalue = OP_UNKNOWN221, oplength = 1, opfunc = fn_opcodeInvalid\<rparr>),
    (OP_UNKNOWN222, \<lparr>opvalue = OP_UNKNOWN222, oplength = 1, opfunc = fn_opcodeInvalid\<rparr>),
    (OP_UNKNOWN223, \<lparr>opvalue = OP_UNKNOWN223, oplength = 1, opfunc = fn_opcodeInvalid\<rparr>),
    (OP_UNKNOWN224, \<lparr>opvalue = OP_UNKNOWN224, oplength = 1, opfunc = fn_opcodeInvalid\<rparr>),
    (OP_UNKNOWN225, \<lparr>opvalue = OP_UNKNOWN225, oplength = 1, opfunc = fn_opcodeInvalid\<rparr>),
    (OP_UNKNOWN226, \<lparr>opvalue = OP_UNKNOWN226, oplength = 1, opfunc = fn_opcodeInvalid\<rparr>),
    (OP_UNKNOWN227, \<lparr>opvalue = OP_UNKNOWN227, oplength = 1, opfunc = fn_opcodeInvalid\<rparr>),
    (OP_UNKNOWN228, \<lparr>opvalue = OP_UNKNOWN228, oplength = 1, opfunc = fn_opcodeInvalid\<rparr>),
    (OP_UNKNOWN229, \<lparr>opvalue = OP_UNKNOWN229, oplength = 1, opfunc = fn_opcodeInvalid\<rparr>),
    (OP_UNKNOWN230, \<lparr>opvalue = OP_UNKNOWN230, oplength = 1, opfunc = fn_opcodeInvalid\<rparr>),
    (OP_UNKNOWN231, \<lparr>opvalue = OP_UNKNOWN231, oplength = 1, opfunc = fn_opcodeInvalid\<rparr>),
    (OP_UNKNOWN232, \<lparr>opvalue = OP_UNKNOWN232, oplength = 1, opfunc = fn_opcodeInvalid\<rparr>),
    (OP_UNKNOWN233, \<lparr>opvalue = OP_UNKNOWN233, oplength = 1, opfunc = fn_opcodeInvalid\<rparr>),
    (OP_UNKNOWN234, \<lparr>opvalue = OP_UNKNOWN234, oplength = 1, opfunc = fn_opcodeInvalid\<rparr>),
    (OP_UNKNOWN235, \<lparr>opvalue = OP_UNKNOWN235, oplength = 1, opfunc = fn_opcodeInvalid\<rparr>),
    (OP_UNKNOWN236, \<lparr>opvalue = OP_UNKNOWN236, oplength = 1, opfunc = fn_opcodeInvalid\<rparr>),
    (OP_UNKNOWN237, \<lparr>opvalue = OP_UNKNOWN237, oplength = 1, opfunc = fn_opcodeInvalid\<rparr>),
    (OP_UNKNOWN238, \<lparr>opvalue = OP_UNKNOWN238, oplength = 1, opfunc = fn_opcodeInvalid\<rparr>),
    (OP_UNKNOWN239, \<lparr>opvalue = OP_UNKNOWN239, oplength = 1, opfunc = fn_opcodeInvalid\<rparr>),
    (OP_UNKNOWN240, \<lparr>opvalue = OP_UNKNOWN240, oplength = 1, opfunc = fn_opcodeInvalid\<rparr>),
    (OP_UNKNOWN241, \<lparr>opvalue = OP_UNKNOWN241, oplength = 1, opfunc = fn_opcodeInvalid\<rparr>),
    (OP_UNKNOWN242, \<lparr>opvalue = OP_UNKNOWN242, oplength = 1, opfunc = fn_opcodeInvalid\<rparr>),
    (OP_UNKNOWN243, \<lparr>opvalue = OP_UNKNOWN243, oplength = 1, opfunc = fn_opcodeInvalid\<rparr>),
    (OP_UNKNOWN244, \<lparr>opvalue = OP_UNKNOWN244, oplength = 1, opfunc = fn_opcodeInvalid\<rparr>),
    (OP_UNKNOWN245, \<lparr>opvalue = OP_UNKNOWN245, oplength = 1, opfunc = fn_opcodeInvalid\<rparr>),
    (OP_UNKNOWN246, \<lparr>opvalue = OP_UNKNOWN246, oplength = 1, opfunc = fn_opcodeInvalid\<rparr>),
    (OP_UNKNOWN247, \<lparr>opvalue = OP_UNKNOWN247, oplength = 1, opfunc = fn_opcodeInvalid\<rparr>),
    (OP_UNKNOWN248, \<lparr>opvalue = OP_UNKNOWN248, oplength = 1, opfunc = fn_opcodeInvalid\<rparr>),
    (OP_UNKNOWN249, \<lparr>opvalue = OP_UNKNOWN249, oplength = 1, opfunc = fn_opcodeInvalid\<rparr>),
    (OP_SMALLINTEGER, \<lparr>opvalue = OP_SMALLINTEGER, oplength = 1, opfunc = fn_opcodeInvalid\<rparr>),
    (OP_PUBKEYS, \<lparr>opvalue = OP_PUBKEYS, oplength = 1, opfunc = fn_opcodeInvalid\<rparr>),
    (OP_UNKNOWN252, \<lparr>opvalue = OP_UNKNOWN252, oplength = 1, opfunc = fn_opcodeInvalid\<rparr>),
    (OP_PUBKEYHASH, \<lparr>opvalue = OP_PUBKEYHASH, oplength = 1, opfunc = fn_opcodeInvalid\<rparr>),
    (OP_PUBKEY, \<lparr>opvalue = OP_PUBKEY, oplength = 1, opfunc = fn_opcodeInvalid\<rparr>),
    (OP_INVALIDOPCODE, \<lparr>opvalue = OP_INVALIDOPCODE, oplength = 1, opfunc = fn_opcodeInvalid\<rparr>)]"

definition opcodeTable :: "(byte \<times> opcode) list" where
  "opcodeTable = opcodes_push @ opcodes_ops @ opcodes_undef"

definition opcodeArray :: "byte \<Rightarrow> opcode" where
  "opcodeArray b = (case map_of opcodeTable b of
     Some op \<Rightarrow> op | None \<Rightarrow> \<lparr>opvalue = 0, oplength = 0, opfunc = fn_nil\<rparr>)"

section \<open>Parsed instructions\<close>

text \<open>The data of an instruction is a slice: \<open>None\<close> is nil, which is not the empty slice.\<close>

record parsedOpcode =
  opcode :: opcode
  data :: "bytes option"

abbreviation (input) dataBytes :: "parsedOpcode \<Rightarrow> bytes" where
  "dataBytes pop \<equiv> (case data pop of None \<Rightarrow> [] | Some d \<Rightarrow> d)"

definition isDisabled :: "parsedOpcode \<Rightarrow> bool" where
  "isDisabled pop \<longleftrightarrow> opvalue (opcode pop) \<in> set
     [OP_CAT, OP_SUBSTR, OP_LEFT, OP_RIGHT, OP_INVERT, OP_AND, OP_OR, OP_XOR, OP_2MUL, OP_2DIV,
      OP_MUL, OP_DIV, OP_MOD, OP_LSHIFT, OP_RSHIFT]"

definition alwaysIllegal :: "parsedOpcode \<Rightarrow> bool" where
  "alwaysIllegal pop \<longleftrightarrow> opvalue (opcode pop) \<in> set [OP_VERIF, OP_VERNOTIF]"

definition isConditional :: "parsedOpcode \<Rightarrow> bool" where
  "isConditional pop \<longleftrightarrow> opvalue (opcode pop) \<in> set [OP_IF, OP_NOTIF, OP_ELSE, OP_ENDIF]"

definition checkMinimalDataPush :: "parsedOpcode \<Rightarrow> serr + unit" where
  "checkMinimalDataPush pop =
     (let d = dataBytes pop;
          dataLen = length d;
          opc = opvalue (opcode pop);
          bad = Inl (ScriptErr ErrMinimalData) in
      if dataLen = 0 \<and> opc \<noteq> OP_0 then bad
      else if dataLen = 1 \<and> d ! 0 \<ge> 1 \<and> d ! 0 \<le> 16 then
        (if opc \<noteq> OP_1 + d ! 0 - 1 then bad else Inr ())
      else if dataLen = 1 \<and> d ! 0 = 0x81 then
        (if opc \<noteq> OP_1NEGATE then bad else Inr ())
      else if dataLen \<le> 75 then
        (if unat opc \<noteq> dataLen then bad else Inr ())
      else if dataLen \<le> 255 then
        (if opc \<noteq> OP_PUSHDATA1 then bad else Inr ())
      else if dataLen \<le> 65535 then
        (if opc \<noteq> OP_PUSHDATA2 then bad else Inr ())
      else Inr ())"

text \<open>Little endian lengths, as \<^verbatim>\<open>byte(l&0xff), byte(l>>8&0xff), ...\<close> and back.\<close>

definition putLE :: "nat \<Rightarrow> nat \<Rightarrow> bytes" where
  "putLE k l = map (\<lambda>i. of_nat (l div 256 ^ i mod 256)) [0..<k]"

definition getLE :: "bytes \<Rightarrow> nat" where
  "getLE bs = foldr (\<lambda>b n. unat b + 256 * n) bs 0"

text \<open>\<^verbatim>\<open>parsedOpcode.bytes\<close>: the opcode byte, the length field of the \<^verbatim>\<open>OP_PUSHDATA\<close>
  instructions, and the data, with a consistency check on the total length.\<close>

definition popBytes :: "parsedOpcode \<Rightarrow> serr + bytes" where
  "popBytes pop =
     (let len = oplength (opcode pop);
          d = dataBytes pop;
          retbytes = [opvalue (opcode pop)] in
      if len = 1 then
        (if length d \<noteq> 0 then Inl (ScriptErr ErrInternal) else Inr retbytes)
      else
        let (retbytes, nbytes) =
          (if len = - 1 \<or> len = - 2 \<or> len = - 4 then
             let lenField = putLE (nat (- len)) (length d);
                 retbytes = retbytes @ lenField
             in (retbytes, int (getLE lenField) + int (length retbytes))
           else (retbytes, len));
          retbytes = retbytes @ d
        in if int (length retbytes) \<noteq> nbytes then Inl (ScriptErr ErrInternal)
           else Inr retbytes)"

end
