(* ===== verification/Script.thy ===== *)
theory Script
  imports Opcodes
begin

text \<open>
  Parsing and serialising scripts (\<^verbatim>\<open>tokenengine/internal/txscript/script.go\<close>), the
  template predicates on parsed scripts and the counting of signature operations.
  The results: serialising a parsed script gives the script back, parsing a serialised
  list of well formed instructions gives the list back, and parsing always ends, in the
  instructions or in \<^verbatim>\<open>ErrMalformedPush\<close>.
\<close>

section \<open>Definitions\<close>

definition MaxOpsPerScript :: int where "MaxOpsPerScript = 201"
definition MaxPubKeysPerMultiSig :: int where "MaxPubKeysPerMultiSig = 20"
definition MaxScriptElementSize :: nat where "MaxScriptElementSize = 520"

definition isSmallInt :: "opcode \<Rightarrow> bool" where
  "isSmallInt op \<longleftrightarrow> opvalue op = OP_0 \<or> (opvalue op \<ge> OP_1 \<and> opvalue op \<le> OP_16)"

abbreviation (input) opAt :: "parsedOpcode list \<Rightarrow> nat \<Rightarrow> byte" where
  "opAt pops i \<equiv> opvalue (opcode (pops ! i))"

definition isScriptHash :: "parsedOpcode list \<Rightarrow> bool" where
  "isScriptHash pops \<longleftrightarrow> length pops = 3 \<and>
     opAt pops 0 = OP_HASH160 \<and> opAt pops 1 = OP_DATA_20 \<and> opAt pops 2 = OP_EQUAL"

definition isContractHash :: "parsedOpcode list \<Rightarrow> bool" where
  "isContractHash pops \<longleftrightarrow> length pops = 2 \<and>
     opAt pops 0 = OP_DATA_20 \<and> opAt pops 1 = OP_JURY_REDEEM_EQUAL"

text \<open>
  The parser walks over the script by index; the recursion is on the rest of the
  script from that index.  It returns the instructions parsed before an error together
  with the error.  A table entry of length zero would never advance the index and
  append instructions until the process dies; that outcome is \<open>Panic\<close>.
\<close>

abbreviation (input) addPop :: "parsedOpcode \<Rightarrow> parsedOpcode list \<times> serr option
    \<Rightarrow> parsedOpcode list \<times> serr option" where
  "addPop pop r \<equiv> (pop # fst r, snd r)"

function parseScriptTemplate :: "(byte \<Rightarrow> opcode) \<Rightarrow> bytes \<Rightarrow> parsedOpcode list \<times> serr option" where
  "parseScriptTemplate opcodes [] = ([], None)"
| "parseScriptTemplate opcodes (instr # rest) =
     (let op = opcodes instr; len = oplength op; malformed = ([], Some (ScriptErr ErrMalformedPush)) in
      if len = 1 then
        addPop \<lparr>opcode = op, data = None\<rparr> (parseScriptTemplate opcodes rest)
      else if len > 1 then
        (if int (length (instr # rest)) < len then malformed
         else addPop \<lparr>opcode = op, data = Some (take (nat len - 1) rest)\<rparr>
           (parseScriptTemplate opcodes (drop (nat len - 1) rest)))
      else if len < 0 then
        (if int (length rest) < - len then malformed
         else if len = - 1 \<or> len = - 2 \<or> len = - 4 then
           let l = getLE (take (nat (- len)) rest); body = drop (nat (- len)) rest in
           (if l > length body then malformed
            else addPop \<lparr>opcode = op, data = Some (take l body)\<rparr>
              (parseScriptTemplate opcodes (drop l body)))
         else malformed)
      else ([], Some Panic))"
  by pat_completeness auto
termination
  by (relation "measure (\<lambda>(_, s). length s)") auto

declare parseScriptTemplate.simps(2) [simp del]

definition parseScript :: "bytes \<Rightarrow> parsedOpcode list \<times> serr option" where
  "parseScript script = parseScriptTemplate opcodeArray script"

fun unparseScript :: "parsedOpcode list \<Rightarrow> serr + bytes" where
  "unparseScript [] = Inr []"
| "unparseScript (pop # pops) =
     bindR (popBytes pop) (\<lambda>b. bindR (unparseScript pops) (\<lambda>script. Inr (b @ script)))"

abbreviation (input) onParsed :: "bytes \<Rightarrow> (parsedOpcode list \<Rightarrow> bool) \<Rightarrow> bool" where
  "onParsed script P \<equiv> (case parseScript script of (pops, None) \<Rightarrow> P pops | (_, Some _) \<Rightarrow> False)"

definition IsPayToScriptHash :: "bytes \<Rightarrow> bool" where
  "IsPayToScriptHash script = onParsed script isScriptHash"

definition IsPayToContractHash :: "bytes \<Rightarrow> bool" where
  "IsPayToContractHash script = onParsed script isContractHash"

definition isWitnessScriptHash :: "parsedOpcode list \<Rightarrow> bool" where
  "isWitnessScriptHash pops \<longleftrightarrow> length pops = 2 \<and> opAt pops 0 = OP_0 \<and> opAt pops 1 = OP_DATA_32"

definition IsPayToWitnessScriptHash :: "bytes \<Rightarrow> bool" where
  "IsPayToWitnessScriptHash script = onParsed script isWitnessScriptHash"

definition isWitnessPubKeyHash :: "parsedOpcode list \<Rightarrow> bool" where
  "isWitnessPubKeyHash pops \<longleftrightarrow> length pops = 2 \<and> opAt pops 0 = OP_0 \<and> opAt pops 1 = OP_DATA_20"

definition IsPayToWitnessPubKeyHash :: "bytes \<Rightarrow> bool" where
  "IsPayToWitnessPubKeyHash script = onParsed script isWitnessPubKeyHash"

definition canonicalPush :: "parsedOpcode \<Rightarrow> bool" where
  "canonicalPush pop =
     (let opc = opvalue (opcode pop); d = dataBytes pop; dataLen = length d in
      if opc > OP_16 then True
      else if opc < OP_PUSHDATA1 \<and> opc > OP_0 \<and> dataLen = 1 \<and> d ! 0 \<le> 16 then False
      else if opc = OP_PUSHDATA1 \<and> dataLen < unat OP_PUSHDATA1 then False
      else if opc = OP_PUSHDATA2 \<and> dataLen \<le> 0xff then False
      else if opc = OP_PUSHDATA4 \<and> dataLen \<le> 0xffff then False
      else True)"

definition isWitnessProgram :: "parsedOpcode list \<Rightarrow> bool" where
  "isWitnessProgram pops \<longleftrightarrow> length pops = 2 \<and> isSmallInt (opcode (pops ! 0)) \<and>
     canonicalPush (pops ! 1) \<and>
     length (dataBytes (pops ! 1)) \<ge> 2 \<and> length (dataBytes (pops ! 1)) \<le> 40"

definition IsWitnessProgram :: "bytes \<Rightarrow> bool" where
  "IsWitnessProgram script \<longleftrightarrow>
     (if length script < 4 \<or> length script > 42 then False else onParsed script isWitnessProgram)"

definition asSmallInt :: "opcode \<Rightarrow> int" where
  "asSmallInt op = (if opvalue op = OP_0 then 0 else uint (opvalue op - (OP_1 - 1)))"

definition ExtractWitnessProgramInfo :: "bytes \<Rightarrow> serr + (int \<times> bytes option)" where
  "ExtractWitnessProgramInfo script =
     (case parseScript script of
        (_, Some e) \<Rightarrow> Inl e
      | (pops, None) \<Rightarrow>
          if \<not> isWitnessProgram pops then Inl (OtherErr ''script is not a witness program'')
          else Inr (asSmallInt (opcode (pops ! 0)), data (pops ! 1)))"

definition isPushOnly :: "parsedOpcode list \<Rightarrow> bool" where
  "isPushOnly pops \<longleftrightarrow> list_all (\<lambda>pop. \<not> opvalue (opcode pop) > OP_16) pops"

definition IsPushOnlyScript :: "bytes \<Rightarrow> bool" where
  "IsPushOnlyScript script = onParsed script isPushOnly"

definition removeOpcode :: "parsedOpcode list \<Rightarrow> byte \<Rightarrow> parsedOpcode list" where
  "removeOpcode pkscript opc = filter (\<lambda>pop. opvalue (opcode pop) \<noteq> opc) pkscript"

text \<open>\<^verbatim>\<open>bytes.Contains(b, subslice)\<close>: the empty slice is contained in every slice.\<close>

fun containsBytes :: "bytes \<Rightarrow> bytes \<Rightarrow> bool" where
  "containsBytes [] sub = (sub = [])"
| "containsBytes (b # bs) sub = (take (length sub) (b # bs) = sub \<or> containsBytes bs sub)"

definition removeOpcodeByData :: "parsedOpcode list \<Rightarrow> bytes \<Rightarrow> parsedOpcode list" where
  "removeOpcodeByData pkscript d =
     filter (\<lambda>pop. \<not> canonicalPush pop \<or> \<not> containsBytes (dataBytes pop) d) pkscript"

text \<open>The counting loop looks one instruction back; \<open>prev\<close> is that instruction, if there is one.\<close>

fun sigOpLoop :: "bool \<Rightarrow> parsedOpcode option \<Rightarrow> parsedOpcode list \<Rightarrow> int" where
  "sigOpLoop precise prev [] = 0"
| "sigOpLoop precise prev (pop # pops) =
     (let v = opvalue (opcode pop);
          n = (if v = OP_CHECKSIG \<or> v = OP_CHECKSIGVERIFY then 1
               else if v = OP_CHECKMULTISIG \<or> v = OP_CHECKMULTISIGVERIFY then
                 (case prev of
                    Some p \<Rightarrow> (if precise \<and> opvalue (opcode p) \<ge> OP_1 \<and> opvalue (opcode p) \<le> OP_16
                              then asSmallInt (opcode p) else MaxPubKeysPerMultiSig)
                  | None \<Rightarrow> MaxPubKeysPerMultiSig)
               else 0)
      in n + sigOpLoop precise (Some pop) pops)"

definition getSigOpCount :: "parsedOpcode list \<Rightarrow> bool \<Rightarrow> int" where
  "getSigOpCount pops precise = sigOpLoop precise None pops"

definition GetSigOpCount :: "bytes \<Rightarrow> int" where
  "GetSigOpCount script = getSigOpCount (fst (parseScript script)) False"

definition GetPreciseSigOpCount :: "bytes \<Rightarrow> bytes \<Rightarrow> bool \<Rightarrow> int" where
  "GetPreciseSigOpCount scriptSig scriptPubKey bip16 =
     (let pops = fst (parseScript scriptPubKey) in
      if \<not> (bip16 \<and> isScriptHash pops) then getSigOpCount pops True
      else
        case parseScript scriptSig of
          (_, Some _) \<Rightarrow> 0
        | (sigPops, None) \<Rightarrow>
            if \<not> isPushOnly sigPops \<or> length sigPops = 0 then 0
            else
              let shScript = dataBytes (sigPops ! (length sigPops - 1)) in
              if length shScript = 0 then 0
              else getSigOpCount (fst (parseScript shScript)) True)"

definition IsUnspendable :: "bytes \<Rightarrow> bool" where
  "IsUnspendable pkScript =
     (case parseScript pkScript of
        (_, Some _) \<Rightarrow> True
      | (pops, None) \<Rightarrow> length pops > 0 \<and> opAt pops 0 = OP_RETURN)"

section \<open>The table is complete\<close>

lemma opcodeTable_keys:
  "map fst opcodeTable = map word_of_nat ([0..<107] @ [177, 178] @ [107..<177] @ [179..<256])"
  unfolding opcodeTable_def opcodes_push_def opcodes_ops_def opcodes_undef_def
  by (simp add: upt_rec)

text \<open>The length of each instruction: direct pushes, pushes with a length field, all others.\<close>

definition stdLength :: "byte \<Rightarrow> int" where
  "stdLength b = (if 1 \<le> b \<and> b \<le> 75 then uint b + 1
     else if b = 76 then - 1 else if b = 77 then - 2 else if b = 78 then - 4 else 1)"

lemma opcodeTable_entries:
  "list_all (\<lambda>(k, op). opvalue op = k \<and> oplength op = stdLength k \<and>
     (opfunc op = fn_opcodePushData \<longleftrightarrow> 1 \<le> k \<and> k \<le> 78) \<and> opfunc op \<noteq> fn_nil) opcodeTable"
  unfolding opcodeTable_def opcodes_push_def opcodes_ops_def opcodes_undef_def
  by (simp add: stdLength_def)

lemma opcodeTable_mem: "(b, opcodeArray b) \<in> set opcodeTable"
proof -
  have split: "[0..<256] = [0..<107] @ [107..<177] @ [177, 178] @ [179..<256]"
    by (simp add: upt_rec)
  have "b = word_of_nat (unat b)" "unat b \<in> set [0..<256]" by simp_all
  then have "b \<in> word_of_nat ` set [0..<256]" by (metis image_eqI)
  then have "b \<in> set (map fst opcodeTable)"
    unfolding opcodeTable_keys split by auto
  then obtain op where "map_of opcodeTable b = Some op"
    by (metis list.set_map weak_map_of_SomeI map_of_eq_None_iff not_None_eq)
  then show ?thesis by (auto simp: opcodeArray_def dest: map_of_SomeD)
qed

lemma opcodeArray_facts [simp]:
  "opvalue (opcodeArray b) = b"
  "oplength (opcodeArray b) = stdLength b"
  "opfunc (opcodeArray b) = fn_opcodePushData \<longleftrightarrow> 1 \<le> b \<and> b \<le> 78"
  "opfunc (opcodeArray b) \<noteq> fn_nil"
  using opcodeTable_entries opcodeTable_mem [of b] unfolding list_all_iff by fastforce+

section \<open>Length fields\<close>

lemma getLE_le_val: "int (getLE bs) = le_val bs"
  by (induction bs) (simp_all add: getLE_def)

lemma putLE_length [simp]: "length (putLE k l) = k"
  by (simp add: putLE_def)

lemma putLE_0 [simp]: "putLE 0 l = []"
  by (simp add: putLE_def)

lemma putLE_Suc: "putLE (Suc k) l = of_nat (l mod 256) # putLE k (l div 256)"
proof -
  have "[0..<Suc k] = 0 # map Suc [0..<k]" by (simp add: map_Suc_upt upt_conv_Cons)
  then show ?thesis by (simp add: putLE_def div_mult2_eq)
qed

lemma getLE_Cons: "getLE (b # bs) = unat b + 256 * getLE bs"
  by (simp add: getLE_def)

lemma getLE_putLE: "getLE (putLE k l) = l mod 256 ^ k"
proof (induction k arbitrary: l)
  case (Suc k)
  have "unat (of_nat (l mod 256) :: byte) = l mod 256" by (simp add: unat_of_nat)
  then show ?case using Suc [of "l div 256"]
    by (simp add: putLE_Suc getLE_Cons mod_mult2_eq)
qed (simp add: getLE_def)

lemma putLE_getLE: "length bs = k \<Longrightarrow> putLE k (getLE bs) = bs"
proof -
  assume k: "length bs = k"
  have "int (getLE bs) < int (256 ^ k)" using le_val_less [of bs] k by (simp add: getLE_le_val)
  then have "getLE bs < 256 ^ k" by (simp only: of_nat_less_iff)
  then have "le_val (putLE k (getLE bs)) = le_val bs"
    by (simp add: getLE_putLE flip: getLE_le_val)
  then show ?thesis using le_val_inj [of "putLE k (getLE bs)" bs] k by simp
qed

section \<open>Well formed instructions\<close>

text \<open>An instruction of the table with data of the length its entry asks for.\<close>

definition wf_pop :: "parsedOpcode \<Rightarrow> bool" where
  "wf_pop pop \<longleftrightarrow> opcode pop = opcodeArray (opvalue (opcode pop)) \<and>
     (let len = oplength (opcode pop) in
      case data pop of
        None \<Rightarrow> len = 1
      | Some d \<Rightarrow> (len > 1 \<and> int (length d) = len - 1) \<or> (len < 0 \<and> length d < 256 ^ nat (- len)))"

lemma stdLength_cases:
  obtains "stdLength b = 1" | "stdLength b > 1" "stdLength b = uint b + 1"
  | "stdLength b = - 1" | "stdLength b = - 2" | "stdLength b = - 4"
proof (cases "1 \<le> b \<and> b \<le> 75")
  case True
  then have "0 < uint b" by (simp add: word_le_def)
  then show thesis using that(2) True by (simp add: stdLength_def)
next
  case False
  then have "stdLength b = - 1 \<or> stdLength b = - 2 \<or> stdLength b = - 4 \<or> stdLength b = 1"
    unfolding stdLength_def by presburger
  then show thesis using that by blast
qed

lemma popBytes_wf:
  assumes "wf_pop pop"
  shows "popBytes pop = Inr (opvalue (opcode pop) #
    (if oplength (opcode pop) < 0 then putLE (nat (- oplength (opcode pop))) (length (dataBytes pop)) else [])
    @ dataBytes pop)"
proof -
  obtain b where b: "opcode pop = opcodeArray b" using assms unfolding wf_pop_def by metis
  show ?thesis
    by (rule stdLength_cases [of b])
       (use assms b in \<open>auto simp: wf_pop_def popBytes_def Let_def getLE_putLE split: option.splits\<close>)
qed

lemma parse_pop:
  assumes "wf_pop pop" and "popBytes pop = Inr bs"
  shows "parseScript (bs @ rest) = addPop pop (parseScript rest)"
proof -
  obtain b where b: "opcode pop = opcodeArray b" using assms unfolding wf_pop_def by metis
  then have val: "opvalue (opcode pop) = b" by simp
  have pop: "pop = \<lparr>opcode = opcodeArray b, data = data pop\<rparr>" using b by simp
  show ?thesis
  proof (cases "data pop")
    case None
    then show ?thesis using assms popBytes_wf [OF assms(1)] b val pop
      by (auto simp: wf_pop_def parseScript_def parseScriptTemplate.simps(2))
  next
    case (Some d)
    then have len: "(stdLength b > 1 \<and> int (length d) = stdLength b - 1) \<or>
        (stdLength b < 0 \<and> length d < 256 ^ nat (- stdLength b))"
      using assms(1) b by (simp add: wf_pop_def Let_def)
    have bs: "bs = b # (if stdLength b < 0 then putLE (nat (- stdLength b)) (length d) else []) @ d"
      using popBytes_wf [OF assms(1)] assms(2) b Some by simp
    show ?thesis
    proof (cases "stdLength b < 0")
      case True
      then have "stdLength b = - 1 \<or> stdLength b = - 2 \<or> stdLength b = - 4"
        by (rule_tac stdLength_cases [of b]) auto
      then show ?thesis using True len bs Some pop
        by (auto simp: parseScript_def parseScriptTemplate.simps(2) Let_def getLE_putLE)
    next
      case False
      then show ?thesis using len bs Some pop
        by (auto simp: parseScript_def parseScriptTemplate.simps(2) Let_def)
    qed
  qed
qed

section \<open>Round trips\<close>

lemma parseScript_Nil [simp]: "parseScript [] = ([], None)"
  by (simp add: parseScript_def)

lemma parse_unparse:
  assumes "list_all wf_pop pops"
  obtains s where "unparseScript pops = Inr s" and "parseScript s = (pops, None)"
  using assms
proof (induction pops arbitrary: thesis)
  case (Cons pop pops)
  from Cons.prems(2) have wf: "wf_pop pop" "list_all wf_pop pops" by simp_all
  obtain s where s: "unparseScript pops = Inr s" "parseScript s = (pops, None)"
    using Cons.IH wf(2) by blast
  obtain bs where bs: "popBytes pop = Inr bs" using popBytes_wf [OF wf(1)] by simp
  show ?case using Cons.prems(1) [of "bs @ s"] s bs parse_pop [OF wf(1) bs, of s] by simp
qed simp

text \<open>One step of the parser: an error with nothing consumed, or one well formed instruction.\<close>

lemma parse_step:
  assumes "script \<noteq> []"
  obtains (malformed) "parseScript script = ([], Some (ScriptErr ErrMalformedPush))"
  | (pop) pop bs rest where "wf_pop pop" "popBytes pop = Inr bs" "script = bs @ rest"
      "length rest < length script" "parseScript script = addPop pop (parseScript rest)"
proof -
  obtain b tl where script: "script = b # tl" using assms by (cases script) auto
  have step: thesis if "wf_pop pop" "popBytes pop = Inr bs" "script = bs @ rest" "bs \<noteq> []" for pop bs rest
    using pop [OF that(1-3)] parse_pop [OF that(1,2)] that by auto
  have wf: "wf_pop \<lparr>opcode = opcodeArray b, data = Some d\<rparr>"
    if "stdLength b > 1 \<and> int (length d) = stdLength b - 1 \<or>
        stdLength b < 0 \<and> length d < 256 ^ nat (- stdLength b)" for d
    using that by (simp add: wf_pop_def Let_def)
  consider "stdLength b = 1" | "stdLength b > 1" | "stdLength b = - 1 \<or> stdLength b = - 2 \<or> stdLength b = - 4"
    by (rule stdLength_cases [of b]) auto
  then show thesis
  proof cases
    case 1
    then have w: "wf_pop \<lparr>opcode = opcodeArray b, data = None\<rparr>" by (simp add: wf_pop_def)
    show thesis by (rule step [OF w popBytes_wf [OF w], of tl]) (use 1 script in auto)
  next
    case 2
    show thesis
    proof (cases "int (length script) < stdLength b")
      case True
      then show thesis using 2 script
        by (intro malformed) (simp add: parseScript_def parseScriptTemplate.simps(2) Let_def)
    next
      case False
      let ?d = "take (nat (stdLength b) - 1) tl"
      have "int (length ?d) = stdLength b - 1" using 2 False script by auto
      with 2 wf have w: "wf_pop \<lparr>opcode = opcodeArray b, data = Some ?d\<rparr>" by simp
      show thesis by (rule step [OF w popBytes_wf [OF w], of "drop (nat (stdLength b) - 1) tl"])
          (use 2 script in auto)
    qed
  next
    case 3
    define k where "k = nat (- stdLength b)"
    define l where "l = getLE (take k tl)"
    show thesis
    proof (cases "length tl < k \<or> length (drop k tl) < l")
      case True
      then show thesis using 3 script
        by (intro malformed) (auto simp: parseScript_def parseScriptTemplate.simps(2) Let_def k_def l_def)
    next
      case False
      let ?d = "take l (drop k tl)"
      have len: "length (take k tl) = k" "length ?d = l" using False by auto
      have "int l < int (256 ^ k)" using le_val_less [of "take k tl"] len(1)
        by (simp add: l_def getLE_le_val)
      then have "length ?d < 256 ^ nat (- stdLength b)" using len(2) by (simp only: k_def of_nat_less_iff)
      with 3 wf [of ?d] have w: "wf_pop \<lparr>opcode = opcodeArray b, data = Some ?d\<rparr>" by auto
      have "putLE k l = take k tl" using putLE_getLE [of "take k tl" k] len(1) by (simp add: l_def)
      then show thesis by (intro step [OF w popBytes_wf [OF w], of "drop l (drop k tl)"])
          (use 3 script len in \<open>auto simp: k_def [symmetric] simp del: drop_drop\<close>)
    qed
  qed
qed

lemma parse_sound:
  obtains s rest where "unparseScript (fst (parseScript script)) = Inr s" "script = s @ rest"
    "list_all wf_pop (fst (parseScript script))"
    "snd (parseScript script) = None \<and> rest = [] \<or>
     snd (parseScript script) = Some (ScriptErr ErrMalformedPush) \<and> rest \<noteq> []"
proof (induction "length script" arbitrary: script thesis rule: less_induct)
  case less
  show ?case
  proof (cases "script = []")
    case True
    then show ?thesis using less.prems [of "[]" "[]"] by simp
  next
    case False
    then show ?thesis
    proof (cases rule: parse_step)
      case malformed
      then show ?thesis using less.prems [of "[]" script] False by simp
    next
      case (pop p bs rest)
      obtain s r where ih: "unparseScript (fst (parseScript rest)) = Inr s" "rest = s @ r"
        "list_all wf_pop (fst (parseScript rest))"
        "snd (parseScript rest) = None \<and> r = [] \<or>
         snd (parseScript rest) = Some (ScriptErr ErrMalformedPush) \<and> r \<noteq> []"
        using less.hyps [OF pop(4)] by metis
      show ?thesis using less.prems [of "bs @ s" r] ih pop by simp
    qed
  qed
qed

lemma parse_ok:
  assumes "parseScript script = (pops, None)"
  shows "unparseScript pops = Inr script" and "list_all wf_pop pops"
proof -
  obtain s rest where "unparseScript (fst (parseScript script)) = Inr s" "script = s @ rest"
    "list_all wf_pop (fst (parseScript script))"
    "snd (parseScript script) = None \<and> rest = [] \<or>
     snd (parseScript script) = Some (ScriptErr ErrMalformedPush) \<and> rest \<noteq> []"
    by (rule parse_sound)
  then show "unparseScript pops = Inr script" "list_all wf_pop pops"
    unfolding assms fst_conv snd_conv by simp_all
qed

lemma parse_append:
  assumes "parseScript s = (pops, None)"
  shows "parseScript (s @ t) = (pops @ fst (parseScript t), snd (parseScript t))"
  using parse_ok [OF assms]
proof (induction pops arbitrary: s)
  case (Cons pop pops)
  from Cons.prems(2) have wf: "wf_pop pop" "list_all wf_pop pops" by simp_all
  obtain bs r where bs: "popBytes pop = Inr bs" "unparseScript pops = Inr r" "s = bs @ r"
    using Cons.prems(1) by (auto simp: bindR_Inr)
  show ?case using Cons.IH [OF bs(2) wf(2)] parse_pop [OF wf(1) bs(1), of "r @ t"] bs(3) by simp
qed simp

interpretation script_codec: canonical_codec "list_all wf_pop" "\<lambda>pops. projr (unparseScript pops)"
  "\<lambda>s. case parseScript s of (pops, None) \<Rightarrow> Some pops | (_, Some _) \<Rightarrow> None"
proof (unfold_locales, goal_cases)
  case (1 pops)
  then obtain s where "unparseScript pops = Inr s" "parseScript s = (pops, None)"
    by (rule parse_unparse)
  then show ?case by simp
next
  case (2 s pops)
  then have "parseScript s = (pops, None)" by (auto split: prod.splits option.splits)
  then show ?case using parse_ok by simp
qed

section \<open>Signature operations\<close>

lemma asSmallInt_range: "0 \<le> asSmallInt op"
  by (simp add: asSmallInt_def)

lemma asSmallInt_le: "opvalue op \<ge> OP_1 \<Longrightarrow> opvalue op \<le> OP_16 \<Longrightarrow> asSmallInt op \<le> 16"
proof -
  assume v: "opvalue op \<ge> OP_1" "opvalue op \<le> OP_16"
  then have "uint (opvalue op) \<ge> 81" "uint (opvalue op) \<le> 96" by (simp_all add: word_le_def)
  then have "uint (opvalue op - 80) = uint (opvalue op) - 80"
    using uint_sub_if' [of "opvalue op" 80] by simp
  then show ?thesis using \<open>uint (opvalue op) \<le> 96\<close> by (simp add: asSmallInt_def)
qed

lemma sigOpLoop_bounds:
  "0 \<le> sigOpLoop precise prev pops \<and> sigOpLoop precise prev pops \<le> sigOpLoop False prev pops \<and>
   sigOpLoop False prev pops \<le> 20 * int (length pops)"
proof (induction pops arbitrary: prev)
  case (Cons pop pops)
  have "(case prev of Some p \<Rightarrow> if precise \<and> opvalue (opcode p) \<ge> OP_1 \<and> opvalue (opcode p) \<le> OP_16
      then asSmallInt (opcode p) else 20 | None \<Rightarrow> 20) \<in> {0..20}"
    using asSmallInt_range asSmallInt_le by (force split: option.splits)
  then show ?case using Cons.IH [of "Some pop"]
    by (auto simp: Let_def MaxPubKeysPerMultiSig_def split: option.splits)
qed simp

section \<open>Properties\<close>

text \<open>C21. Serialising a script that parses gives exactly the bytes it was parsed from.\<close>

theorem unparse_parseScript:
  assumes "parseScript script = (pops, None)"
  shows "unparseScript pops = Inr script"
  using assms by (rule parse_ok)

theorem unparse_parseScript_witness:
  "unparseScript (fst (parseScript [OP_DUP, OP_DATA_2, 7, 8, OP_PUSHDATA1, 1, 9, OP_CHECKSIG]))
     = Inr [OP_DUP, OP_DATA_2, 7, 8, OP_PUSHDATA1, 1, 9, OP_CHECKSIG]"
proof -
  have "snd (parseScript [OP_DUP, OP_DATA_2, 7, 8, OP_PUSHDATA1, 1, 9, OP_CHECKSIG]) = None"
    by code_simp
  then show ?thesis using unparse_parseScript
      [of "[OP_DUP, OP_DATA_2, 7, 8, OP_PUSHDATA1, 1, 9, OP_CHECKSIG]"
        "fst (parseScript [OP_DUP, OP_DATA_2, 7, 8, OP_PUSHDATA1, 1, 9, OP_CHECKSIG])"]
    by (metis prod.collapse)
qed

text \<open>C22. A list of well formed instructions serialises without an error, and parsing the
  bytes gives the same list.\<close>

theorem parse_unparseScript:
  assumes "list_all wf_pop pops"
  shows "\<exists>script. unparseScript pops = Inr script \<and> parseScript script = (pops, None)"
  using assms parse_unparse by metis

theorem parse_unparseScript_witness:
  "\<exists>script. unparseScript [\<lparr>opcode = opcodeArray OP_DATA_2, data = Some [7, 8]\<rparr>] = Inr script \<and>
     parseScript script = ([\<lparr>opcode = opcodeArray OP_DATA_2, data = Some [7, 8]\<rparr>], None)"
  using parse_unparseScript [of "[\<lparr>opcode = opcodeArray OP_DATA_2, data = Some [7, 8]\<rparr>]"]
  by (simp add: wf_pop_def Let_def stdLength_def)

text \<open>Parsing is total: it succeeds, or stops with \<^verbatim>\<open>ErrMalformedPush\<close> and no other
  error.  The instructions returned are well formed and serialise to a prefix of the
  script, which is the whole script exactly when there was no error.\<close>

theorem parseScript_total:
  "\<exists>s rest. unparseScript (fst (parseScript script)) = Inr s \<and> script = s @ rest \<and>
     list_all wf_pop (fst (parseScript script)) \<and>
     (snd (parseScript script) = None \<and> rest = [] \<or>
      snd (parseScript script) = Some (ScriptErr ErrMalformedPush) \<and> rest \<noteq> [])"
  using parse_sound [of script] by metis

text \<open>C23. The precise count of signature operations never exceeds the quick count, and
  the quick count is at most twenty per instruction.\<close>

theorem sigOpCount_bounds:
  "0 \<le> getSigOpCount pops True \<and> getSigOpCount pops True \<le> getSigOpCount pops False \<and>
   getSigOpCount pops False \<le> MaxPubKeysPerMultiSig * int (length pops)"
  unfolding getSigOpCount_def using sigOpLoop_bounds [of True None pops]
  by (simp add: MaxPubKeysPerMultiSig_def)

end
