(* ===== verification/ScriptBuilder.thy ===== *)
theory ScriptBuilder
  imports Script
begin

text \<open>
  The script builder (\<^verbatim>\<open>tokenengine/internal/txscript/scriptbuilder.go\<close>): appending
  opcodes, data and numbers to a script in canonical form.  Every call keeps the script
  within the size limit and, once an error is recorded, leaves the builder alone.  A
  data push parses back as one instruction that pushes the data and passes the minimal
  encoding check of the engine.
\<close>

section \<open>Definitions\<close>

definition MaxScriptSize :: nat where "MaxScriptSize = 10000"

record ScriptBuilder =
  script :: bytes
  err :: "serr option"

definition ErrScriptNotCanonical :: serr where
  "ErrScriptNotCanonical = OtherErr ''ErrScriptNotCanonical''"

definition NewScriptBuilder :: ScriptBuilder where
  "NewScriptBuilder = \<lparr>script = [], err = None\<rparr>"

definition AddOp :: "byte \<Rightarrow> ScriptBuilder \<Rightarrow> ScriptBuilder" where
  "AddOp opc b =
     (if err b \<noteq> None then b
      else if length (script b) + 1 > MaxScriptSize then b\<lparr>err := Some ErrScriptNotCanonical\<rparr>
      else b\<lparr>script := script b @ [opc]\<rparr>)"

definition AddOps :: "bytes \<Rightarrow> ScriptBuilder \<Rightarrow> ScriptBuilder" where
  "AddOps opcodes b =
     (if err b \<noteq> None then b
      else if length (script b) + length opcodes > MaxScriptSize then b\<lparr>err := Some ErrScriptNotCanonical\<rparr>
      else b\<lparr>script := script b @ opcodes\<rparr>)"

definition canonicalDataSize :: "bytes \<Rightarrow> nat" where
  "canonicalDataSize d =
     (let dataLen = length d in
      if dataLen = 0 then 1
      else if dataLen = 1 \<and> d ! 0 \<le> 16 then 1
      else if dataLen = 1 \<and> d ! 0 = 0x81 then 1
      else if dataLen < unat OP_PUSHDATA1 then 1 + dataLen
      else if dataLen \<le> 0xff then 2 + dataLen
      else if dataLen \<le> 0xffff then 3 + dataLen
      else 5 + dataLen)"

definition addData :: "bytes \<Rightarrow> ScriptBuilder \<Rightarrow> ScriptBuilder" where
  "addData d b =
     (let dataLen = length d in
      if dataLen = 0 \<or> dataLen = 1 \<and> d ! 0 = 0 then b\<lparr>script := script b @ [OP_0]\<rparr>
      else if dataLen = 1 \<and> d ! 0 \<le> 16 then b\<lparr>script := script b @ [(OP_1 - 1) + d ! 0]\<rparr>
      else if dataLen = 1 \<and> d ! 0 = 0x81 then b\<lparr>script := script b @ [OP_1NEGATE]\<rparr>
      else
        let b =
          (if dataLen < unat OP_PUSHDATA1 then b\<lparr>script := script b @ [(OP_DATA_1 - 1) + word_of_nat dataLen]\<rparr>
           else if dataLen \<le> 0xff then b\<lparr>script := script b @ [OP_PUSHDATA1, word_of_nat dataLen]\<rparr>
           else if dataLen \<le> 0xffff then b\<lparr>script := script b @ [OP_PUSHDATA2] @ putLE 2 dataLen\<rparr>
           else b\<lparr>script := script b @ [OP_PUSHDATA4] @ putLE 4 dataLen\<rparr>)
        in b\<lparr>script := script b @ d\<rparr>)"

definition AddFullData :: "bytes \<Rightarrow> ScriptBuilder \<Rightarrow> ScriptBuilder" where
  "AddFullData d b = (if err b \<noteq> None then b else addData d b)"

definition AddData :: "bytes \<Rightarrow> ScriptBuilder \<Rightarrow> ScriptBuilder" where
  "AddData d b =
     (if err b \<noteq> None then b
      else if length (script b) + canonicalDataSize d > MaxScriptSize then
        b\<lparr>err := Some ErrScriptNotCanonical\<rparr>
      else if length d > MaxScriptElementSize then b\<lparr>err := Some ErrScriptNotCanonical\<rparr>
      else addData d b)"

text \<open>\<^verbatim>\<open>AddInt64\<close> is the one call that can panic, inside the number encoder.\<close>

definition AddInt64 :: "int \<Rightarrow> ScriptBuilder \<Rightarrow> serr + ScriptBuilder" where
  "AddInt64 val b =
     (if err b \<noteq> None then Inr b
      else if length (script b) + 1 > MaxScriptSize then Inr (b\<lparr>err := Some ErrScriptNotCanonical\<rparr>)
      else if val = 0 then Inr (b\<lparr>script := script b @ [OP_0]\<rparr>)
      else if val = - 1 \<or> (val \<ge> 1 \<and> val \<le> 16) then
        Inr (b\<lparr>script := script b @ [word_of_int (uint (OP_1 - 1 :: byte) + val)]\<rparr>)
      else bindR (Bytes val) (\<lambda>d. Inr (AddData d b)))"

definition Reset :: "ScriptBuilder \<Rightarrow> ScriptBuilder" where
  "Reset b = b\<lparr>script := [], err := None\<rparr>"

definition builtScript :: "ScriptBuilder \<Rightarrow> bytes \<times> serr option" where
  "builtScript b = (script b, err b)"

section \<open>The bytes of a push\<close>

text \<open>The instruction \<^verbatim>\<open>addData\<close> writes.\<close>

definition dataPop :: "bytes \<Rightarrow> parsedOpcode" where
  "dataPop d =
     (if d = [] \<or> d = [0] then \<lparr>opcode = opcodeArray OP_0, data = None\<rparr>
      else if length d = 1 \<and> d ! 0 \<le> 16 then \<lparr>opcode = opcodeArray (0x50 + d ! 0), data = None\<rparr>
      else if d = [0x81] then \<lparr>opcode = opcodeArray OP_1NEGATE, data = None\<rparr>
      else if length d \<le> 75 then \<lparr>opcode = opcodeArray (word_of_nat (length d)), data = Some d\<rparr>
      else if length d \<le> 255 then \<lparr>opcode = opcodeArray OP_PUSHDATA1, data = Some d\<rparr>
      else if length d \<le> 65535 then \<lparr>opcode = opcodeArray OP_PUSHDATA2, data = Some d\<rparr>
      else \<lparr>opcode = opcodeArray OP_PUSHDATA4, data = Some d\<rparr>)"

lemma byte_le_nat: "n < 256 \<Longrightarrow> m < 256 \<Longrightarrow> (word_of_nat n :: byte) \<le> word_of_nat m \<longleftrightarrow> n \<le> m"
  by (simp add: word_le_nat_alt unat_of_nat)

lemma small_len:
  assumes "d \<noteq> []" and "length d \<le> 75"
  shows "stdLength (word_of_nat (length d)) = int (length d) + 1"
proof -
  have "(1 :: byte) \<le> word_of_nat (length d)" "(word_of_nat (length d) :: byte) \<le> 75"
    using assms byte_le_nat [of 1 "length d"] byte_le_nat [of "length d" 75] by (auto simp: Suc_le_eq)
  moreover have "uint (word_of_nat (length d) :: byte) = int (length d)"
    using assms(2) by (simp add: uint_nat unat_of_nat)
  ultimately show ?thesis by (simp add: stdLength_def)
qed

lemma small_bytes:
  assumes "x \<le> (16 :: byte)"
  shows "x \<in> {0, 1, 2, 3, 4, 5, 6, 7, 8, 9, 10, 11, 12, 13, 14, 15, 16}"
proof -
  have "unat x \<in> set [0..<17]" using assms by (auto simp: word_le_nat_alt)
  moreover have "x = word_of_nat (unat x)" by simp
  ultimately have "x \<in> word_of_nat ` set [0..<17]" by (metis image_eqI)
  then show ?thesis by (simp add: upt_rec)
qed

lemma small_num_len: "x \<le> 16 \<Longrightarrow> stdLength (0x50 + x) = 1"
  using small_bytes [of x] by (auto simp: stdLength_def)

lemma stdLength_num [simp]:
  "stdLength 0 = 1" "stdLength 1 = 2" "stdLength 0x4f = 1" "stdLength 76 = - 1" "stdLength 77 = - 2" "stdLength 78 = - 4"
  by (simp_all add: stdLength_def)

lemma dataPop_wf: "length d < 2 ^ 32 \<Longrightarrow> wf_pop (dataPop d)"
  by (auto simp: dataPop_def wf_pop_def Let_def small_len small_num_len)

lemma addData_script:
  assumes "length d < 2 ^ 32"
  shows "\<exists>bs. popBytes (dataPop d) = Inr bs \<and> addData d b = b\<lparr>script := script b @ bs\<rparr> \<and>
    length bs = canonicalDataSize d"
proof -
  note pb = popBytes_wf [OF dataPop_wf [OF assms]]
  show ?thesis
  proof (cases "length d = 1")
    case True
    then obtain x where "d = [x]" by (cases d) auto
    then show ?thesis using pb
      by (auto simp: dataPop_def addData_def canonicalDataSize_def Let_def small_num_len
          split: if_splits)
  next
    case False
    then have "d \<noteq> [x]" for x by auto
    moreover have "putLE (Suc 0) (length d) = [word_of_nat (length d)]" if "length d \<le> 255"
      using that by (simp add: putLE_def)
    ultimately show ?thesis using pb False
      by (auto simp: dataPop_def addData_def canonicalDataSize_def Let_def small_len split: if_splits)
  qed
qed

text \<open>What executing a push instruction leaves on the stack.\<close>

definition pushValue :: "parsedOpcode \<Rightarrow> bytes" where
  "pushValue pop =
     (let v = opvalue (opcode pop) in
      if v = OP_0 then []
      else if v = OP_1NEGATE then [0x81]
      else if OP_1 \<le> v \<and> v \<le> OP_16 then [v - 0x50]
      else dataBytes pop)"

lemma small_op:
  assumes "x \<le> (16 :: byte)" and "x \<noteq> 0"
  shows "0x50 + x \<noteq> 0" "0x50 + x \<noteq> 0x4f" "0x51 \<le> 0x50 + x" "0x50 + x \<le> 0x60"
    "\<not> 0x50 + x \<le> 78"
  using small_bytes [OF assms(1)] assms(2) by auto

lemma len_op:
  assumes "n \<le> 75" and "0 < n"
  shows "(word_of_nat n :: byte) \<noteq> 0" "(word_of_nat n :: byte) \<noteq> 0x4f"
    "\<not> (0x51 :: byte) \<le> word_of_nat n" "unat (word_of_nat n :: byte) = n"
proof -
  show u: "unat (word_of_nat n :: byte) = n" using assms(1) by (simp add: unat_of_nat)
  show "(word_of_nat n :: byte) \<noteq> 0" "(word_of_nat n :: byte) \<noteq> 0x4f"
    "\<not> (0x51 :: byte) \<le> word_of_nat n"
    using assms u by (auto simp: unat_eq_0 word_le_nat_alt dest: arg_cong [where f = unat])
qed

lemma dataPop_value: "pushValue (dataPop d) = (if d = [0] then [] else d)"
proof (cases "length d = 1")
  case True
  then obtain x where d: "d = [x]" by (cases d) auto
  show ?thesis
  proof (cases "x \<le> 16 \<and> x \<noteq> 0")
    case True
    then show ?thesis using small_op [of x] unfolding d dataPop_def pushValue_def Let_def by simp
  next
    case False
    moreover have "\<not> (0x51 :: byte) \<le> 1" by (simp add: word_le_def)
    ultimately show ?thesis unfolding d dataPop_def pushValue_def Let_def by auto
  qed
next
  case False
  then have "d \<noteq> [x]" for x by auto
  with False show ?thesis by (auto simp: dataPop_def pushValue_def Let_def len_op)
qed

lemma dataPop_minimal:
  assumes "opvalue (opcode (dataPop d)) \<le> OP_PUSHDATA4"
  shows "checkMinimalDataPush (dataPop d) = Inr ()"
proof (cases "length d = 1")
  case True
  then obtain x where d: "d = [x]" by (cases d) auto
  show ?thesis
  proof (cases "x \<le> 16 \<and> x \<noteq> 0")
    case True
    then show ?thesis using small_op(5) [of x] assms by (simp add: d dataPop_def)
  next
    case False
    moreover have "\<not> (1 \<le> x \<and> x \<le> 16)" using False by auto
    ultimately show ?thesis using assms by (auto simp: d dataPop_def checkMinimalDataPush_def Let_def)
  qed
next
  case False
  then have "d \<noteq> [x]" for x by auto
  with False show ?thesis by (auto simp: dataPop_def checkMinimalDataPush_def Let_def len_op)
qed

section \<open>Limits and sticky errors\<close>

text \<open>One call of the builder's interface, and a sequence of calls.\<close>

datatype builderCall = CallOp byte | CallOps bytes | CallData bytes | CallInt64 int

fun buildStep :: "builderCall \<Rightarrow> ScriptBuilder \<Rightarrow> serr + ScriptBuilder" where
  "buildStep (CallOp opc) b = Inr (AddOp opc b)"
| "buildStep (CallOps ops) b = Inr (AddOps ops b)"
| "buildStep (CallData d) b = Inr (AddData d b)"
| "buildStep (CallInt64 val) b = AddInt64 val b"

fun buildAll :: "builderCall list \<Rightarrow> ScriptBuilder \<Rightarrow> serr + ScriptBuilder" where
  "buildAll [] b = Inr b"
| "buildAll (c # cs) b = bindR (buildStep c b) (buildAll cs)"

definition withinLimit :: "ScriptBuilder \<Rightarrow> bool" where
  "withinLimit b \<longleftrightarrow> length (script b) \<le> MaxScriptSize"

lemma AddData_limit: "withinLimit b \<Longrightarrow> withinLimit (AddData d b)"
  using addData_script [of d b]
  by (auto simp: AddData_def withinLimit_def MaxScriptElementSize_def)

lemma buildStep_limit: "withinLimit b \<Longrightarrow> buildStep c b = Inr b' \<Longrightarrow> withinLimit b'"
  by (cases c) (auto simp: AddOp_def AddOps_def AddInt64_def withinLimit_def [of "_\<lparr>script := _\<rparr>"]
      withinLimit_def [of "_\<lparr>err := _\<rparr>"] bindR_Inr AddData_limit split: if_splits,
      auto simp: withinLimit_def)

lemma buildStep_sticky: "err b \<noteq> None \<Longrightarrow> buildStep c b = Inr b"
  by (cases c) (auto simp: AddOp_def AddOps_def AddData_def AddInt64_def)

lemma buildAll_limit: "withinLimit b \<Longrightarrow> buildAll cs b = Inr b' \<Longrightarrow> withinLimit b'"
proof (induction cs arbitrary: b)
  case (Cons c cs)
  then obtain b1 where "buildStep c b = Inr b1" "buildAll cs b1 = Inr b'" by (auto simp: bindR_Inr)
  then show ?case using Cons buildStep_limit by blast
qed simp

lemma buildAll_sticky: "err b \<noteq> None \<Longrightarrow> buildAll cs b = Inr b"
  by (induction cs) (auto simp: buildStep_sticky)

section \<open>Properties\<close>



text \<open>A successful data push appends one instruction: the extended script parses to the
  old instructions followed by it.  Executing the instruction pushes the data (the
  single byte zero becomes the empty string), and its encoding passes the engine's
  minimal push check.\<close>

theorem AddData_pushes:
  assumes "err b = None" and "err (AddData d b) = None" and "parseScript (script b) = (pops, None)"
  shows "\<exists>pop. parseScript (script (AddData d b)) = (pops @ [pop], None) \<and>
    pushValue pop = (if d = [0] then [] else d) \<and>
    (opvalue (opcode pop) \<le> OP_PUSHDATA4 \<longrightarrow> checkMinimalDataPush pop = Inr ())"
proof -
  have len: "length d < 2 ^ 32" and add: "AddData d b = addData d b"
    using assms(1,2) by (auto simp: AddData_def MaxScriptElementSize_def split: if_splits)
  obtain bs where bs: "popBytes (dataPop d) = Inr bs" "addData d b = b\<lparr>script := script b @ bs\<rparr>"
    using addData_script [OF len] by metis
  have "parseScript bs = ([dataPop d], None)"
    using parse_pop [OF dataPop_wf [OF len] bs(1), of "[]"] by simp
  then have "parseScript (script (AddData d b)) = (pops @ [dataPop d], None)"
    using parse_append [OF assms(3), of bs] add bs(2) by simp
  then show ?thesis using dataPop_value dataPop_minimal by blast
qed

theorem AddData_pushes_witness:
  "\<exists>pop. parseScript (script (AddData [7, 8] NewScriptBuilder)) = ([pop], None) \<and> pushValue pop = [7, 8]"
proof -
  have "err (AddData [7, 8] NewScriptBuilder) = None" "err NewScriptBuilder = None"
    "script NewScriptBuilder = []" by code_simp+
  then show ?thesis using AddData_pushes [of NewScriptBuilder "[7, 8]" "[]"] by auto
qed

end
