(* ===== verification/Modules.thy ===== *)
theory Modules
  imports ScriptError
begin

text \<open>
  The transaction data model (\<^verbatim>\<open>dag/modules/message.go\<close>, \<^verbatim>\<open>transaction.go\<close>,
  \<^verbatim>\<open>utxo.go\<close>): outpoints, inputs, outputs, the payloads a message can carry, and
  transactions as lists of messages.  A pointer field that may be nil is an option.
  \<^verbatim>\<open>Message.Payload\<close> is a Go interface: its dynamic type is the constructor, and a type
  assertion to another type is a panic.
\<close>

type_synonym Hash = bytes
type_synonym IDType16 = bytes
type_synonym Address = bytes

section \<open>Inputs and outputs\<close>

record Asset =
  AssetId :: IDType16
  UniqueId :: IDType16
  ChainId :: "64 word"

record OutPoint =
  opTxHash :: Hash
  MessageIndex :: "32 word"
  OutIndex :: "32 word"

record Input =
  PreviousOutPoint :: "OutPoint option"
  SignatureScript :: bytes
  Extra :: bytes

record Output =
  Value :: "64 word"
  PkScript :: bytes
  outAsset :: "Asset option"

record PaymentPayload =
  Inputs :: "Input list"
  Outputs :: "Output list"
  LockTime :: "32 word"

section \<open>The other payloads\<close>

record ChainIndex =
  chainAssetID :: IDType16
  IsMain :: bool
  chainIdx :: "64 word"

record StateVersion =
  Height :: ChainIndex
  TxIndex :: "32 word"

record ContractReadSet =
  rsKey :: string
  rsVersion :: "StateVersion option"
  rsValue :: bytes

record ContractWriteSet =
  wsIsDelete :: bool
  wsKey :: string
  wsValue :: bytes

record ContractTplPayload =
  tplTemplateId :: bytes
  tplName :: string
  tplPath :: string
  tplVersion :: string
  tplMemory :: "16 word"
  tplBytecode :: bytes

record ContractDeployPayload =
  dpTemplateId :: bytes
  dpContractId :: bytes
  dpName :: string
  dpArgs :: "bytes list"
  dpExcutiontime :: int
  dpJury :: "Address list"
  dpReadSet :: "ContractReadSet list"
  dpWriteSet :: "ContractWriteSet list"

record ContractInvokePayload =
  ivContractId :: bytes
  ivFunctionName :: string
  ivArgs :: "bytes list"
  ivExcutiontime :: int
  ivReadSet :: "ContractReadSet list"
  ivWriteSet :: "ContractWriteSet list"
  ivPayload :: bytes

record ContractInvokeRequestPayload =
  rqContractId :: bytes
  rqFunctionName :: string
  rqArgs :: "bytes list"

record SignatureSet =
  sgPubKey :: bytes
  sgSignature :: bytes

record VotePayload =
  Contents :: "bytes list"
  VoteType :: byte
  Mode :: byte

section \<open>Messages and transactions\<close>

datatype MessageType =
    APP_PAYMENT | APP_CONTRACT_TPL | APP_CONTRACT_DEPLOY | APP_CONTRACT_INVOKE
  | APP_CONTRACT_INVOKE_REQUEST | APP_CONFIG | APP_TEXT | APP_VOTE | APP_SIGNATURE
  | OP_MEDIATOR_CREATE

datatype (plugins del: "quickcheck") Payload =
    NilPayload
  | Payment PaymentPayload
  | ContractTpl ContractTplPayload
  | ContractDeploy ContractDeployPayload
  | ContractInvoke ContractInvokePayload
  | ContractInvokeRequest ContractInvokeRequestPayload
  | Config "ContractWriteSet list"
  | Text bytes
  | Vote VotePayload
  | Signatures "SignatureSet list"
  | MediatorCreate "string list"

record Message =
  App :: MessageType
  Payload :: Payload

record Transaction =
  TxHash :: Hash
  TxMessages :: "Message list"

definition zeroHash :: Hash where
  "zeroHash = replicate 32 0"

definition zeroTransaction :: Transaction where
  "zeroTransaction = \<lparr>TxHash = zeroHash, TxMessages = []\<rparr>"

definition NewPaymentPayload :: "Input list \<Rightarrow> Output list \<Rightarrow> PaymentPayload" where
  "NewPaymentPayload inputs outputs = \<lparr>Inputs = inputs, Outputs = outputs, LockTime = 15\<rparr>"

definition NewTxIn :: "OutPoint \<Rightarrow> bytes \<Rightarrow> Input" where
  "NewTxIn prevOut signatureScript =
     \<lparr>PreviousOutPoint = Some prevOut, SignatureScript = signatureScript, Extra = []\<rparr>"

definition NewTxOut :: "64 word \<Rightarrow> bytes \<Rightarrow> Asset \<Rightarrow> Output" where
  "NewTxOut val pkScript asset = \<lparr>Value = val, PkScript = pkScript, outAsset = Some asset\<rparr>"

definition NewMessage :: "MessageType \<Rightarrow> Payload \<Rightarrow> Message" where
  "NewMessage app payload = \<lparr>App = app, Payload = payload\<rparr>"

definition AddTxIn :: "Input \<Rightarrow> PaymentPayload \<Rightarrow> PaymentPayload" where
  "AddTxIn ti pld = pld\<lparr>Inputs := Inputs pld @ [ti]\<rparr>"

definition AddTxOut :: "Output \<Rightarrow> PaymentPayload \<Rightarrow> PaymentPayload" where
  "AddTxOut to pld = pld\<lparr>Outputs := Outputs pld @ [to]\<rparr>"

definition AddMessage :: "Message \<Rightarrow> Transaction \<Rightarrow> Transaction" where
  "AddMessage me tx = tx\<lparr>TxMessages := TxMessages tx @ [me]\<rparr>"

text \<open>The assertion \<^verbatim>\<open>msg.Payload.(*modules.PaymentPayload)\<close>.\<close>

definition asPayment :: "Payload \<Rightarrow> serr + PaymentPayload" where
  "asPayment p = (case p of Payment pay \<Rightarrow> Inr pay | _ \<Rightarrow> Inl Panic)"

end
