(* ===== verification/Crypto.thy ===== *)
theory Crypto
  imports Modules
begin

text \<open>
  Addresses (\<^verbatim>\<open>common/address.go\<close>) and the wrappers around the cryptographic
  primitives (\<^verbatim>\<open>common/crypto/crypto.go\<close>, \<^verbatim>\<open>hash160.go\<close>, \<^verbatim>\<open>signature_nocgo.go\<close>).
  The primitives come from packages outside the repository; they are the fields of the
  record \<open>prims\<close>, an argument of every definition that uses them.  What a theorem relies
  on is one of the predicates \<open>hash_sizes\<close>, \<open>base58_inverse\<close> and \<open>ecdsa_correct\<close>.
\<close>

section \<open>Primitives\<close>

text \<open>A private key is its scalar with the flag that its curve is secp256k1; a public
  key is a point.\<close>

record PrivateKey =
  D :: int
  onS256 :: bool

type_synonym PublicKey = "int \<times> int"

record prims =
  ripemd160 :: "bytes \<Rightarrow> bytes"
  sha1 :: "bytes \<Rightarrow> bytes"
  sha256 :: "bytes \<Rightarrow> bytes"
  keccak256 :: "bytes \<Rightarrow> bytes"
  pubOf :: "PrivateKey \<Rightarrow> PublicKey"
  SerializeCompressed :: "PublicKey \<Rightarrow> bytes"
  SerializeUncompressed :: "PublicKey \<Rightarrow> bytes"
  ParsePubKey :: "bytes \<Rightarrow> PublicKey option"
  ecdsaVerify :: "int \<Rightarrow> int \<Rightarrow> bytes \<Rightarrow> PublicKey \<Rightarrow> bool"
  SignCompact :: "PrivateKey \<Rightarrow> bytes \<Rightarrow> serr + bytes"
  base58CheckEncode :: "bytes \<Rightarrow> byte \<Rightarrow> string"
  base58CheckDecode :: "string \<Rightarrow> serr + (bytes \<times> byte)"
  gobCopy :: "Transaction \<Rightarrow> Transaction"
  txEncodeRLP :: "Transaction \<Rightarrow> serr + bytes"

definition hash_sizes :: "prims \<Rightarrow> bool" where
  "hash_sizes p \<longleftrightarrow> (\<forall>b. length (ripemd160 p b) = 20 \<and> length (sha1 p b) = 20 \<and>
     length (sha256 p b) = 32 \<and> length (keccak256 p b) = 32)"

definition base58_inverse :: "prims \<Rightarrow> bool" where
  "base58_inverse p \<longleftrightarrow>
     (\<forall>b v. length b = 20 \<longrightarrow> base58CheckDecode p (base58CheckEncode p b v) = Inr (b, v))"

section \<open>Addresses\<close>

definition AddressLength :: nat where "AddressLength = 21"

abbreviation (input) ErrorAddress :: byte where "ErrorAddress \<equiv> 0xff"
abbreviation (input) PublicKeyHash :: byte where "PublicKeyHash \<equiv> 0"
abbreviation (input) ScriptHash :: byte where "ScriptHash \<equiv> 5"
abbreviation (input) ContractHash :: byte where "ContractHash \<equiv> 28"

definition GetType :: "Address \<Rightarrow> byte" where
  "GetType a = a ! 20"

definition addrBytes :: "Address \<Rightarrow> bytes" where
  "addrBytes a = take 20 a"

definition SetBytes :: "bytes \<Rightarrow> Address \<Rightarrow> Address" where
  "SetBytes b a =
     (let b = (if length b > length a then drop (length b - AddressLength) b else b) in
      take (AddressLength - length b) a @ b)"

definition BytesToAddress :: "bytes \<Rightarrow> Address" where
  "BytesToAddress b = SetBytes b (replicate AddressLength 0)"

definition NewAddress :: "bytes \<Rightarrow> byte \<Rightarrow> Address" where
  "NewAddress hash160 ty =
     (let newBytes = take 21 hash160 @ replicate (21 - length hash160) 0 in
      BytesToAddress (newBytes[20 := ty]))"

definition StringToAddress :: "prims \<Rightarrow> string \<Rightarrow> serr + Address" where
  "StringToAddress p a =
     (if a = [] then Inl Panic
      else if a ! 0 \<noteq> CHR ''P'' then Inl (OtherErr ''address must start with P'')
      else bindR (base58CheckDecode p (drop 1 a)) (\<lambda>(addrb, version).
        if version = 0 then Inr (BytesToAddress (addrb @ [PublicKeyHash]))
        else if version = 5 then Inr (BytesToAddress (addrb @ [ScriptHash]))
        else if version = 28 then Inr (BytesToAddress (addrb @ [ContractHash]))
        else Inl (OtherErr ''Invalid address type'')))"

definition IsValidAddress :: "prims \<Rightarrow> string \<Rightarrow> serr + bool" where
  "IsValidAddress p s =
     (case StringToAddress p s of Inl Panic \<Rightarrow> Inl Panic | Inl _ \<Rightarrow> Inr False | Inr _ \<Rightarrow> Inr True)"

definition Str :: "prims \<Rightarrow> Address \<Rightarrow> string" where
  "Str p a = CHR ''P'' # base58CheckEncode p (take 20 a) (a ! 20)"

definition addrEqual :: "Address \<Rightarrow> Address \<Rightarrow> bool" where
  "addrEqual a b = list_all (\<lambda>i. a ! i = b ! i) [0..<AddressLength]"

section \<open>Hashes and signatures\<close>

definition Hash160 :: "prims \<Rightarrow> bytes \<Rightarrow> bytes" where
  "Hash160 p buf = ripemd160 p (sha256 p buf)"

definition CompressPubkey :: "prims \<Rightarrow> PublicKey \<Rightarrow> bytes" where
  "CompressPubkey p k = SerializeCompressed p k"

definition PubkeyBytesToAddress :: "prims \<Rightarrow> bytes \<Rightarrow> Address" where
  "PubkeyBytesToAddress p pubKeyCompressBytes = NewAddress (Hash160 p pubKeyCompressBytes) PublicKeyHash"

definition PubkeyToAddress :: "prims \<Rightarrow> PublicKey \<Rightarrow> Address" where
  "PubkeyToAddress p k = PubkeyBytesToAddress p (CompressPubkey p k)"

definition ScriptToAddress :: "prims \<Rightarrow> bytes \<Rightarrow> Address" where
  "ScriptToAddress p redeemScript = NewAddress (Hash160 p redeemScript) ScriptHash"

definition secp256k1_N :: int where
  "secp256k1_N = 0xfffffffffffffffffffffffffffffffebaaedce6af48a03bbfd25e8cd0364141"

definition secp256k1_halfN :: int where
  "secp256k1_halfN = secp256k1_N div 2"

text \<open>\<^verbatim>\<open>new(big.Int).SetBytes\<close>: big endian.\<close>

definition beInt :: "bytes \<Rightarrow> int" where
  "beInt bs = foldl (\<lambda>n b. n * 256 + uint b) 0 bs"

definition VerifySignature :: "prims \<Rightarrow> bytes \<Rightarrow> bytes \<Rightarrow> bytes \<Rightarrow> bool" where
  "VerifySignature p pubkey hash signature =
     (if length signature \<noteq> 64 then False
      else
        let r = beInt (take 32 signature); s = beInt (drop 32 signature) in
        case ParsePubKey p pubkey of
          None \<Rightarrow> False
        | Some key \<Rightarrow> if s > secp256k1_halfN then False else ecdsaVerify p r s hash key)"

text \<open>A nil key is dereferenced; so is the last byte of a signature shorter than 65 bytes.\<close>

definition Sign :: "prims \<Rightarrow> bytes \<Rightarrow> PrivateKey option \<Rightarrow> serr + bytes" where
  "Sign p hash prv =
     (if length hash \<noteq> 32 then Inl (OtherErr ''hash is required to be exactly 32 bytes'')
      else case prv of None \<Rightarrow> Inl Panic
      | Some prv \<Rightarrow>
        if \<not> onS256 prv then Inl (OtherErr ''private key curve is not secp256k1'')
        else bindR (SignCompact p prv hash) (\<lambda>sig.
          if length sig < 65 then Inl Panic
          else Inr ((drop 1 sig @ [last sig])[64 := sig ! 0 - 27])))"

text \<open>
  What signing and verification promise each other: a signature made with a key is 65
  bytes long and its \<open>R\<close> and \<open>S\<close> verify under the serialised public key.
\<close>

definition ecdsa_correct :: "prims \<Rightarrow> bool" where
  "ecdsa_correct p \<longleftrightarrow>
     (\<forall>prv hash sig. length hash = 32 \<longrightarrow> SignCompact p prv hash = Inr sig \<longrightarrow>
        length sig = 65 \<and> beInt (drop 33 sig) \<le> secp256k1_halfN \<and>
        ecdsaVerify p (beInt (take 32 (drop 1 sig))) (beInt (drop 33 sig)) hash (pubOf p prv)) \<and>
     (\<forall>prv. ParsePubKey p (SerializeCompressed p (pubOf p prv)) = Some (pubOf p prv) \<and>
        length (SerializeCompressed p (pubOf p prv)) = 33)"

section \<open>Lemmas\<close>

lemma BytesToAddress_21 [simp]: "length b = 21 \<Longrightarrow> BytesToAddress b = b"
  by (simp add: BytesToAddress_def SetBytes_def AddressLength_def)

lemma NewAddress_eq [simp]: "length h = 20 \<Longrightarrow> NewAddress h ty = h @ [ty]"
  by (simp add: NewAddress_def Let_def list_update_append)

lemma address_parts:
  assumes "length a = 21"
  shows "addrBytes a @ [GetType a] = a" and "length (addrBytes a) = 20"
proof -
  show "length (addrBytes a) = 20" using assms by (simp add: addrBytes_def)
  show "addrBytes a @ [GetType a] = a"
    using assms take_Suc_conv_app_nth [of 20 a] by (simp add: addrBytes_def GetType_def)
qed

lemma addrEqual_iff:
  "length a = 21 \<Longrightarrow> length b = 21 \<Longrightarrow> addrEqual a b \<longleftrightarrow> a = b"
  by (auto simp: addrEqual_def AddressLength_def list_all_iff intro!: nth_equalityI)

lemma Hash160_length: "hash_sizes p \<Longrightarrow> length (Hash160 p b) = 20"
  by (simp add: hash_sizes_def Hash160_def)

lemma Sign_Verify:
  assumes "ecdsa_correct p" and "Sign p hash (Some prv) = Inr sig"
  shows "VerifySignature p (SerializeCompressed p (pubOf p prv)) hash (take 64 sig)"
    and "length sig = 65"
proof -
  obtain raw where raw: "SignCompact p prv hash = Inr raw" "length hash = 32"
    "sig = (drop 1 raw @ [last raw])[64 := raw ! 0 - 27]"
    using assms(2) by (auto simp: Sign_def bindR_Inr split: if_splits)
  then have len: "length raw = 65" using assms(1) by (simp add: ecdsa_correct_def)
  then have sig: "sig = drop 1 raw @ [raw ! 0 - 27]" using raw(3) by (simp add: list_update_append)
  then show "length sig = 65" using len by simp
  have "take 64 sig = drop 1 raw" using sig len by simp
  moreover have "drop 32 (drop 1 raw) = drop 33 raw" by simp
  moreover have "ParsePubKey p (SerializeCompressed p (pubOf p prv)) = Some (pubOf p prv)"
    "beInt (drop 33 raw) \<le> secp256k1_halfN"
    "ecdsaVerify p (beInt (take 32 (drop 1 raw))) (beInt (drop 33 raw)) hash (pubOf p prv)"
    using assms(1) raw(1,2) unfolding ecdsa_correct_def by blast+
  ultimately show "VerifySignature p (SerializeCompressed p (pubOf p prv)) hash (take 64 sig)"
    using len by (simp add: VerifySignature_def Let_def)
qed

section \<open>A concrete instance\<close>

text \<open>
  Primitives that satisfy the three predicates, for the witnesses: truncated or padded
  copies instead of hashes, a verifier that compares \<open>R\<close> with the hash, and an address
  codec that is the identity on bytes.
\<close>

definition padTo :: "nat \<Rightarrow> bytes \<Rightarrow> bytes" where
  "padTo n b = take n (b @ replicate n 0)"

definition demo :: prims where
  "demo = \<lparr>
     ripemd160 = padTo 20, sha1 = padTo 20, sha256 = padTo 32, keccak256 = padTo 32,
     pubOf = (\<lambda>_. (1, 1)),
     SerializeCompressed = (\<lambda>_. 2 # replicate 32 1),
     SerializeUncompressed = (\<lambda>_. 4 # replicate 64 1),
     ParsePubKey = (\<lambda>b. if length b = 33 \<or> length b = 65 then Some (1, 1) else None),
     ecdsaVerify = (\<lambda>r s h k. r = beInt h \<and> (s = 1 \<or> s = 2)),
     SignCompact = (\<lambda>prv h. Inr (27 # h @ replicate 31 0 @ [1])),
     base58CheckEncode = (\<lambda>b v. map (\<lambda>x. char_of (unat x)) (v # b)),
     base58CheckDecode = (\<lambda>s. case map (\<lambda>c. word_of_nat (of_char c)) s of
        [] \<Rightarrow> Inl (OtherErr ''checksum'') | v # b \<Rightarrow> Inr (b, v)),
     gobCopy = (\<lambda>tx. tx),
     txEncodeRLP = (\<lambda>tx. Inr [])\<rparr>"

lemma demo_hash_sizes: "hash_sizes demo"
  by (auto simp: hash_sizes_def demo_def padTo_def)

lemma demo_base58: "base58_inverse demo"
proof -
  have "of_char (char_of (unat x) :: char) = unat x" for x :: byte by simp
  then show ?thesis by (simp add: base58_inverse_def demo_def comp_def)
qed

lemma beInt_zeros: "beInt (replicate n 0 @ [1]) = 1"
proof -
  have "foldl (\<lambda>n b. n * 256 + uint b) 0 (replicate n (0 :: byte)) = 0" by (induction n) auto
  then show ?thesis by (simp add: beInt_def)
qed

lemma demo_ecdsa: "ecdsa_correct demo"
  using beInt_zeros [of 31]
  by (auto simp: ecdsa_correct_def demo_def secp256k1_halfN_def secp256k1_N_def)

lemma address_string:
  assumes "base58_inverse p" and "length a = 21"
    and "GetType a \<in> {PublicKeyHash, ScriptHash, ContractHash}"
  shows "StringToAddress p (Str p a) = Inr a"
proof -
  have "base58CheckDecode p (base58CheckEncode p (take 20 a) (a ! 20)) = Inr (take 20 a, a ! 20)"
    using assms(1,2) by (simp add: base58_inverse_def)
  moreover have "take 20 a @ [a ! 20] = a" using address_parts(1) [OF assms(2)]
    by (simp add: addrBytes_def GetType_def)
  ultimately show ?thesis using assms(2,3)
    by (auto simp: StringToAddress_def Str_def GetType_def)
qed

section \<open>Properties\<close>

text \<open>Address strings: rendering an address of one of the three kinds and reading the
  string gives the address back, provided the base 58 codec inverts its own output.\<close>

theorem StringToAddress_Str:
  assumes "base58_inverse p" and "length a = 21"
    and "GetType a \<in> {PublicKeyHash, ScriptHash, ContractHash}"
  shows "StringToAddress p (Str p a) = Inr a"
  using assms by (rule address_string)

theorem StringToAddress_Str_witness:
  "StringToAddress demo (Str demo (replicate 20 7 @ [5])) = Inr (replicate 20 7 @ [5])"
  using StringToAddress_Str [OF demo_base58, of "replicate 20 7 @ [5]"]
  by (simp add: GetType_def nth_append)

end
