(* ===== verification/Standard.thy ===== *)
theory Standard
  imports ScriptBuilder Crypto
begin

text \<open>
  Standard scripts (\<^verbatim>\<open>tokenengine/internal/txscript/standard.go\<close>): the script classes,
  the payment scripts for each kind of address, and the extraction of addresses from a
  script.  A payment script for an address classifies as its kind and yields the
  address back; a multisignature script yields the threshold and the keys' addresses.
\<close>

section \<open>Script classes\<close>

definition MaxDataCarrierSize :: nat where "MaxDataCarrierSize = 80"

datatype ScriptClass = NonStandardTy | PubKeyTy | PubKeyHashTy | WitnessV0PubKeyHashTy
  | ScriptHashTy | WitnessV0ScriptHashTy | MultiSigTy | NullDataTy | ContractHashTy

definition scriptClassToName :: "string list" where
  "scriptClassToName = [''nonstandard'', ''pubkey'', ''pubkeyhash'', ''witness_v0_keyhash'',
     ''scripthash'', ''witness_v0_scripthash'', ''multisig'', ''nulldata'', ''contracthash'']"

text \<open>\<^verbatim>\<open>ScriptClass.String\<close> on the byte that represents a class.\<close>

definition scriptClassString :: "byte \<Rightarrow> serr + string" where
  "scriptClassString t =
     (if unat t > length scriptClassToName then Inr ''Invalid''
      else if unat t < length scriptClassToName then Inr (scriptClassToName ! unat t)
      else Inl Panic)"

definition isPubkey :: "parsedOpcode list \<Rightarrow> bool" where
  "isPubkey pops \<longleftrightarrow> length pops = 2 \<and>
     (length (dataBytes (pops ! 0)) = 33 \<or> length (dataBytes (pops ! 0)) = 65) \<and>
     opAt pops 1 = OP_CHECKSIG"

definition isPubkeyHash :: "parsedOpcode list \<Rightarrow> bool" where
  "isPubkeyHash pops \<longleftrightarrow> length pops = 5 \<and>
     opAt pops 0 = OP_DUP \<and> opAt pops 1 = OP_HASH160 \<and> opAt pops 2 = OP_DATA_20 \<and>
     opAt pops 3 = OP_EQUALVERIFY \<and> opAt pops 4 = OP_CHECKSIG"

definition isMultiSig :: "parsedOpcode list \<Rightarrow> bool" where
  "isMultiSig pops =
     (let l = length pops in
      if l < 4 then False
      else if \<not> isSmallInt (opcode (pops ! 0)) then False
      else if \<not> isSmallInt (opcode (pops ! (l - 2))) then False
      else if opAt pops (l - 1) \<noteq> OP_CHECKMULTISIG then False
      else if int l - 2 - 1 \<noteq> asSmallInt (opcode (pops ! (l - 2))) then False
      else list_all (\<lambda>pop. length (dataBytes pop) = 33 \<or> length (dataBytes pop) = 65)
        (drop 1 (take (l - 2) pops)))"

definition isNullData :: "parsedOpcode list \<Rightarrow> bool" where
  "isNullData pops =
     (let l = length pops in
      if l = 1 \<and> opAt pops 0 = OP_RETURN then True
      else l = 2 \<and> opAt pops 0 = OP_RETURN \<and>
        (isSmallInt (opcode (pops ! 1)) \<or> opAt pops 1 \<le> OP_PUSHDATA4) \<and>
        length (dataBytes (pops ! 1)) \<le> MaxDataCarrierSize)"

definition typeOfScript :: "parsedOpcode list \<Rightarrow> ScriptClass" where
  "typeOfScript pops =
     (if isPubkey pops then PubKeyTy
      else if isPubkeyHash pops then PubKeyHashTy
      else if isContractHash pops then ContractHashTy
      else if isWitnessPubKeyHash pops then WitnessV0PubKeyHashTy
      else if isScriptHash pops then ScriptHashTy
      else if isWitnessScriptHash pops then WitnessV0ScriptHashTy
      else if isMultiSig pops then MultiSigTy
      else if isNullData pops then NullDataTy
      else NonStandardTy)"

definition GetScriptClass :: "bytes \<Rightarrow> ScriptClass" where
  "GetScriptClass scr = (case parseScript scr of
     (_, Some _) \<Rightarrow> NonStandardTy | (pops, None) \<Rightarrow> typeOfScript pops)"

definition expectedInputs :: "parsedOpcode list \<Rightarrow> ScriptClass \<Rightarrow> int" where
  "expectedInputs pops cls = (case cls of
     PubKeyTy \<Rightarrow> 1
   | PubKeyHashTy \<Rightarrow> 2
   | WitnessV0PubKeyHashTy \<Rightarrow> 2
   | ScriptHashTy \<Rightarrow> 1
   | WitnessV0ScriptHashTy \<Rightarrow> 1
   | MultiSigTy \<Rightarrow> asSmallInt (opcode (pops ! 0)) + 1
   | _ \<Rightarrow> - 1)"

definition CalcMultiSigStats :: "bytes \<Rightarrow> serr + (int \<times> int)" where
  "CalcMultiSigStats scr = (case parseScript scr of
     (_, Some e) \<Rightarrow> Inl e
   | (pops, None) \<Rightarrow>
       if length pops < 4 then Inl (ScriptErr ErrNotMultisigScript)
       else Inr (asSmallInt (opcode (pops ! (length pops - 2))), asSmallInt (opcode (pops ! 0))))"

section \<open>Payment scripts\<close>

definition payToPubKeyHashScript :: "bytes \<Rightarrow> bytes \<times> serr option" where
  "payToPubKeyHashScript pubKeyHash =
     builtScript (AddOp OP_CHECKSIG (AddOp OP_EQUALVERIFY (AddData pubKeyHash
       (AddOp OP_HASH160 (AddOp OP_DUP NewScriptBuilder)))))"

definition payToWitnessPubKeyHashScript :: "bytes \<Rightarrow> bytes \<times> serr option" where
  "payToWitnessPubKeyHashScript pubKeyHash =
     builtScript (AddData pubKeyHash (AddOp OP_0 NewScriptBuilder))"

definition payToScriptHashScript :: "bytes \<Rightarrow> bytes \<times> serr option" where
  "payToScriptHashScript scriptHash =
     builtScript (AddOp OP_EQUAL (AddData scriptHash (AddOp OP_HASH160 NewScriptBuilder)))"

definition payToWitnessScriptHashScript :: "bytes \<Rightarrow> bytes \<times> serr option" where
  "payToWitnessScriptHashScript scriptHash =
     builtScript (AddData scriptHash (AddOp OP_0 NewScriptBuilder))"

definition payToPubKeyScript :: "bytes \<Rightarrow> bytes \<times> serr option" where
  "payToPubKeyScript serializedPubKey =
     builtScript (AddOp OP_CHECKSIG (AddData serializedPubKey NewScriptBuilder))"

definition payToContractHash :: "bytes \<Rightarrow> bytes \<times> serr option" where
  "payToContractHash serializedPubKey =
     builtScript (AddOp OP_JURY_REDEEM_EQUAL (AddData serializedPubKey NewScriptBuilder))"

definition PayToAddrScript :: "Address \<Rightarrow> bytes \<times> serr option" where
  "PayToAddrScript addr =
     (if GetType addr = PublicKeyHash then payToPubKeyHashScript (addrBytes addr)
      else if GetType addr = ScriptHash then payToScriptHashScript (addrBytes addr)
      else if GetType addr = ContractHash then payToContractHash (addrBytes addr)
      else ([], Some (ScriptErr ErrUnsupportedAddress)))"

definition NullDataScript :: "bytes \<Rightarrow> bytes \<times> serr option" where
  "NullDataScript d =
     (if length d > MaxDataCarrierSize then ([], Some (ScriptErr ErrTooMuchNullData))
      else builtScript (AddData d (AddOp OP_RETURN NewScriptBuilder)))"

definition MultiSigScript :: "prims \<Rightarrow> PublicKey list \<Rightarrow> int \<Rightarrow> serr + (bytes \<times> serr option)" where
  "MultiSigScript p pubkeys nrequired =
     (if int (length pubkeys) < nrequired then Inr ([], Some (ScriptErr ErrTooManyRequiredSigs))
      else
        bindR (AddInt64 nrequired NewScriptBuilder) (\<lambda>builder.
        bindR (AddInt64 (int (length pubkeys))
          (foldl (\<lambda>b key. AddData (CompressPubkey p key) b) builder pubkeys)) (\<lambda>builder.
        Inr (builtScript (AddOp OP_CHECKMULTISIG builder)))))"

section \<open>Extraction\<close>

definition PushedData :: "bytes \<Rightarrow> serr + bytes option list" where
  "PushedData scr = (case parseScript scr of
     (_, Some e) \<Rightarrow> Inl e
   | (pops, None) \<Rightarrow> Inr (concat (map (\<lambda>pop.
       if data pop \<noteq> None then [data pop]
       else if opvalue (opcode pop) = OP_0 then [None] else []) pops)))"

definition ExtractPkScriptAddrs :: "prims \<Rightarrow> bytes \<Rightarrow> serr + (ScriptClass \<times> Address list \<times> int)" where
  "ExtractPkScriptAddrs p pkScript = (case parseScript pkScript of
     (_, Some e) \<Rightarrow> Inl e
   | (pops, None) \<Rightarrow>
       let scriptClass = typeOfScript pops in
       Inr (scriptClass, (case scriptClass of
           PubKeyHashTy \<Rightarrow> ([NewAddress (dataBytes (pops ! 2)) PublicKeyHash], 1)
         | ScriptHashTy \<Rightarrow> ([NewAddress (dataBytes (pops ! 1)) ScriptHash], 1)
         | ContractHashTy \<Rightarrow> ([NewAddress (dataBytes (pops ! 0)) ContractHash], 1)
         | MultiSigTy \<Rightarrow>
             (let numPubKeys = asSmallInt (opcode (pops ! (length pops - 2))) in
              (map (\<lambda>i. PubkeyBytesToAddress p (dataBytes (pops ! (i + 1)))) [0..<nat numPubKeys],
               asSmallInt (opcode (pops ! 0))))
         | _ \<Rightarrow> ([], 0))))"

record AtomicSwapDataPushes =
  RecipientHash160 :: bytes
  RefundHash160 :: bytes
  SecretHash :: bytes
  SecretSize :: int
  swapLockTime :: int

text \<open>A number operand of the swap template: pushed data or a small integer opcode.\<close>

definition swapNumber :: "parsedOpcode \<Rightarrow> int option" where
  "swapNumber pop = (case data pop of
     Some d \<Rightarrow> (case makeScriptNum d True 5 of Inl _ \<Rightarrow> None | Inr n \<Rightarrow> Some n)
   | None \<Rightarrow> if isSmallInt (opcode pop) then Some (asSmallInt (opcode pop)) else None)"

definition isAtomicSwap :: "parsedOpcode list \<Rightarrow> bool" where
  "isAtomicSwap pops \<longleftrightarrow>
     opAt pops 0 = OP_IF \<and> opAt pops 1 = OP_SIZE \<and> canonicalPush (pops ! 2) \<and>
     opAt pops 3 = OP_EQUALVERIFY \<and> opAt pops 4 = OP_SHA256 \<and> opAt pops 5 = OP_DATA_32 \<and>
     opAt pops 6 = OP_EQUALVERIFY \<and> opAt pops 7 = OP_DUP \<and> opAt pops 8 = OP_HASH160 \<and>
     opAt pops 9 = OP_DATA_20 \<and> opAt pops 10 = OP_ELSE \<and> canonicalPush (pops ! 11) \<and>
     opAt pops 12 = OP_CHECKLOCKTIMEVERIFY \<and> opAt pops 13 = OP_DROP \<and> opAt pops 14 = OP_DUP \<and>
     opAt pops 15 = OP_HASH160 \<and> opAt pops 16 = OP_DATA_20 \<and> opAt pops 17 = OP_ENDIF \<and>
     opAt pops 18 = OP_EQUALVERIFY \<and> opAt pops 19 = OP_CHECKSIG"

definition ExtractAtomicSwapDataPushes :: "bytes \<Rightarrow> serr + AtomicSwapDataPushes option" where
  "ExtractAtomicSwapDataPushes pkScript = (case parseScript pkScript of
     (_, Some e) \<Rightarrow> Inl e
   | (pops, None) \<Rightarrow>
       if length pops \<noteq> 20 then Inr None
       else if \<not> isAtomicSwap pops then Inr None
       else (case (swapNumber (pops ! 2), swapNumber (pops ! 11)) of
           (Some secretSize, Some lockTime) \<Rightarrow> Inr (Some \<lparr>
             RecipientHash160 = padTo 20 (dataBytes (pops ! 9)),
             RefundHash160 = padTo 20 (dataBytes (pops ! 16)),
             SecretHash = padTo 32 (dataBytes (pops ! 5)),
             SecretSize = secretSize, swapLockTime = lockTime\<rparr>)
         | _ \<Rightarrow> Inr None))"

section \<open>Parsing and building small scripts\<close>

abbreviation plain :: "byte \<Rightarrow> parsedOpcode" where
  "plain b \<equiv> \<lparr>opcode = opcodeArray b, data = None\<rparr>"

abbreviation push :: "bytes \<Rightarrow> parsedOpcode" where
  "push d \<equiv> \<lparr>opcode = opcodeArray (word_of_nat (length d)), data = Some d\<rparr>"

lemma parse_plain:
  assumes "stdLength b = 1"
  shows "parseScript (b # rest) = addPop (plain b) (parseScript rest)"
proof -
  have "wf_pop (plain b)" using assms by (simp add: wf_pop_def)
  from parse_pop [OF this popBytes_wf [OF this]] show ?thesis using assms by simp
qed

lemma parse_push:
  assumes "d \<noteq> []" and "length d \<le> 75"
  shows "parseScript (word_of_nat (length d) # d @ rest) = addPop (push d) (parseScript rest)"
proof -
  have "wf_pop (push d)" using small_len [OF assms] assms by (simp add: wf_pop_def Let_def)
  from parse_pop [OF this popBytes_wf [OF this]] show ?thesis using small_len [OF assms] by simp
qed

lemma AddOp_ok:
  "length s < MaxScriptSize \<Longrightarrow>
   AddOp opc \<lparr>script = s, err = None\<rparr> = \<lparr>script = s @ [opc], err = None\<rparr>"
  by (simp add: AddOp_def)

lemma AddData_ok:
  assumes "2 \<le> length d" and "length d \<le> 75" and "length s + length d < MaxScriptSize"
  shows "AddData d \<lparr>script = s, err = None\<rparr> = \<lparr>script = s @ word_of_nat (length d) # d, err = None\<rparr>"
  using assms by (auto simp: AddData_def addData_def canonicalDataSize_def Let_def MaxScriptElementSize_def)

lemma payToPubKeyHash_script:
  "length h = 20 \<Longrightarrow> payToPubKeyHashScript h =
     ([OP_DUP, OP_HASH160, OP_DATA_20] @ h @ [OP_EQUALVERIFY, OP_CHECKSIG], None)"
  by (simp add: payToPubKeyHashScript_def NewScriptBuilder_def AddOp_ok AddData_ok builtScript_def
      MaxScriptSize_def)

lemma payToScriptHash_script:
  "length h = 20 \<Longrightarrow> payToScriptHashScript h = ([OP_HASH160, OP_DATA_20] @ h @ [OP_EQUAL], None)"
  by (simp add: payToScriptHashScript_def NewScriptBuilder_def AddOp_ok AddData_ok builtScript_def
      MaxScriptSize_def)

lemma payToContractHash_script:
  "length h = 20 \<Longrightarrow> payToContractHash h = (OP_DATA_20 # h @ [OP_JURY_REDEEM_EQUAL], None)"
  by (simp add: payToContractHash_def NewScriptBuilder_def AddOp_ok AddData_ok builtScript_def
      MaxScriptSize_def)

abbreviation push20 :: "bytes \<Rightarrow> parsedOpcode" where
  "push20 d \<equiv> \<lparr>opcode = opcodeArray OP_DATA_20, data = Some d\<rparr>"

lemma parse_push20: "length h = 20 \<Longrightarrow> parseScript (0x14 # h @ rest) = addPop (push20 h) (parseScript rest)"
  using parse_push [of h rest] by (cases "h = []") auto

lemma stdLength_ops [simp]:
  "stdLength OP_DUP = 1" "stdLength OP_HASH160 = 1" "stdLength OP_EQUALVERIFY = 1"
  "stdLength OP_CHECKSIG = 1" "stdLength OP_EQUAL = 1" "stdLength OP_JURY_REDEEM_EQUAL = 1"
  "stdLength OP_CHECKMULTISIG = 1" "stdLength OP_RETURN = 1"
  by (simp_all add: stdLength_def)

lemma parse_p2pkh:
  "length h = 20 \<Longrightarrow> parseScript ([OP_DUP, OP_HASH160, OP_DATA_20] @ h @ [OP_EQUALVERIFY, OP_CHECKSIG]) =
     ([plain OP_DUP, plain OP_HASH160, push20 h, plain OP_EQUALVERIFY, plain OP_CHECKSIG], None)"
  by (simp add: parse_plain parse_push20)

lemma parse_p2sh:
  "length h = 20 \<Longrightarrow> parseScript ([OP_HASH160, OP_DATA_20] @ h @ [OP_EQUAL]) =
     ([plain OP_HASH160, push20 h, plain OP_EQUAL], None)"
  by (simp add: parse_plain parse_push20)

lemma parse_p2ch:
  "length h = 20 \<Longrightarrow> parseScript (OP_DATA_20 # h @ [OP_JURY_REDEEM_EQUAL]) =
     ([push20 h, plain OP_JURY_REDEEM_EQUAL], None)"
  by (simp add: parse_plain parse_push20)

lemmas class_defs = typeOfScript_def isPubkey_def isPubkeyHash_def isContractHash_def
  isWitnessPubKeyHash_def isScriptHash_def isWitnessScriptHash_def

lemma type_p2pkh:
  "length h = 20 \<Longrightarrow>
   typeOfScript [plain OP_DUP, plain OP_HASH160, push20 h, plain OP_EQUALVERIFY, plain OP_CHECKSIG] = PubKeyHashTy"
  by (simp add: class_defs)

lemma type_p2sh:
  "length h = 20 \<Longrightarrow> typeOfScript [plain OP_HASH160, push20 h, plain OP_EQUAL] = ScriptHashTy"
  by (simp add: class_defs)

lemma type_p2ch:
  "length h = 20 \<Longrightarrow> typeOfScript [push20 h, plain OP_JURY_REDEEM_EQUAL] = ContractHashTy"
  by (simp add: class_defs)

section \<open>Multisignature scripts\<close>

definition multisigPops :: "nat \<Rightarrow> bytes list \<Rightarrow> parsedOpcode list" where
  "multisigPops m keys = plain (0x50 + word_of_nat m) # map push keys
     @ [plain (0x50 + word_of_nat (length keys)), plain OP_CHECKMULTISIG]"

lemma small_op_nat:
  assumes "1 \<le> n" and "n \<le> 16"
  shows "uint (0x50 + word_of_nat n :: byte) = 0x50 + int n"
    and "isSmallInt (opcodeArray (0x50 + word_of_nat n))"
    and "asSmallInt (opcodeArray (0x50 + word_of_nat n)) = int n"
    and "stdLength (0x50 + word_of_nat n) = 1"
proof -
  have n: "uint (word_of_nat n :: byte) = int n" using assms by (simp add: uint_nat unat_of_nat)
  then show u: "uint (0x50 + word_of_nat n :: byte) = 0x50 + int n"
    using assms uint_add_lem [of "0x50 :: byte" "word_of_nat n"] by simp
  then show "isSmallInt (opcodeArray (0x50 + word_of_nat n))"
    using assms by (simp add: isSmallInt_def word_le_def)
  have "(0x50 + word_of_nat n :: byte) \<noteq> 0"
  proof
    assume "(0x50 + word_of_nat n :: byte) = 0"
    then have "uint (0x50 + word_of_nat n :: byte) = 0" by (simp only: uint_0_eq)
    then show False unfolding u by simp
  qed
  moreover have "0x50 + word_of_nat n - (OP_1 - 1) = (word_of_nat n :: byte)" by simp
  ultimately show "asSmallInt (opcodeArray (0x50 + word_of_nat n)) = int n"
    using n by (simp add: asSmallInt_def)
  have "word_of_nat n \<le> (16 :: byte)" using assms n by (simp add: word_le_def)
  then show "stdLength (0x50 + word_of_nat n) = 1" by (rule small_num_len)
qed

lemma type_multisig:
  assumes "1 \<le> m" and "m \<le> 16" and "1 \<le> length keys" and "length keys \<le> 16"
    and "list_all (\<lambda>k. length k = 33) keys"
  shows "typeOfScript (multisigPops m keys) = MultiSigTy"
proof -
  let ?pops = "multisigPops m keys"
  have len: "length ?pops = length keys + 3" by (simp add: multisigPops_def)
  have "(0x50 + word_of_nat m :: byte) \<noteq> OP_DUP"
  proof
    assume "(0x50 + word_of_nat m :: byte) = OP_DUP"
    then have "uint (0x50 + word_of_nat m :: byte) = uint (0x76 :: byte)" by (simp only:)
    then show False using assms(2) unfolding small_op_nat(1) [OF assms(1,2)] by simp
  qed
  then have "\<not> isPubkeyHash ?pops" by (simp add: isPubkeyHash_def multisigPops_def)
  moreover have "\<not> isScriptHash ?pops" "\<not> isPubkey ?pops" "\<not> isContractHash ?pops"
    "\<not> isWitnessPubKeyHash ?pops" "\<not> isWitnessScriptHash ?pops"
    using assms(3) len by (auto simp: class_defs)
  moreover have "isMultiSig ?pops"
  proof -
    have "?pops ! (length keys + 1) = plain (0x50 + word_of_nat (length keys))"
      "?pops ! (length keys + 2) = plain OP_CHECKMULTISIG" "?pops ! 0 = plain (0x50 + word_of_nat m)"
      by (simp_all add: multisigPops_def nth_append)
    moreover have "drop 1 (take (length keys + 1) ?pops) = map push keys" by (simp add: multisigPops_def)
    ultimately show ?thesis using small_op_nat [OF assms(3,4)] small_op_nat [OF assms(1,2)] assms(3,5)
      by (auto simp: isMultiSig_def len Let_def list_all_iff)
  qed
  ultimately show ?thesis by (simp add: typeOfScript_def)
qed

section \<open>Extraction undoes construction\<close>

definition addrClass :: "Address \<Rightarrow> ScriptClass" where
  "addrClass a = (if GetType a = PublicKeyHash then PubKeyHashTy
     else if GetType a = ScriptHash then ScriptHashTy else ContractHashTy)"

lemma extract_payment:
  assumes "length a = 21" and "GetType a \<in> {PublicKeyHash, ScriptHash, ContractHash}"
  obtains s where "PayToAddrScript a = (s, None)"
    and "ExtractPkScriptAddrs p s = Inr (addrClass a, [a], 1)"
proof -
  note parts = address_parts [OF assms(1)]
  let ?h = "addrBytes a"
  consider "GetType a = PublicKeyHash" | "GetType a = ScriptHash" | "GetType a = ContractHash"
    using assms(2) by auto
  then show thesis
  proof cases
    case 1
    show thesis by (rule that [of "[OP_DUP, OP_HASH160, OP_DATA_20] @ ?h @ [OP_EQUALVERIFY, OP_CHECKSIG]"])
      (use parts 1 in \<open>simp_all add: PayToAddrScript_def payToPubKeyHash_script ExtractPkScriptAddrs_def
         parse_p2pkh [simplified] type_p2pkh addrClass_def\<close>)
  next
    case 2
    show thesis by (rule that [of "[OP_HASH160, OP_DATA_20] @ ?h @ [OP_EQUAL]"])
      (use parts 2 in \<open>simp_all add: PayToAddrScript_def payToScriptHash_script ExtractPkScriptAddrs_def
         parse_p2sh [simplified] type_p2sh addrClass_def\<close>)
  next
    case 3
    show thesis by (rule that [of "OP_DATA_20 # ?h @ [OP_JURY_REDEEM_EQUAL]"])
      (use parts 3 in \<open>simp_all add: PayToAddrScript_def payToContractHash_script ExtractPkScriptAddrs_def
         parse_p2ch [simplified] type_p2ch addrClass_def\<close>)
  qed
qed

lemma multisig_key: "i < length keys \<Longrightarrow> dataBytes (multisigPops m keys ! (i + 1)) = keys ! i"
  by (simp add: multisigPops_def nth_append)

lemma extract_multisig:
  assumes "1 \<le> m" and "m \<le> 16" and "1 \<le> length keys" and "length keys \<le> 16"
    and "list_all (\<lambda>k. length k = 33) keys" and "parseScript s = (multisigPops m keys, None)"
  shows "ExtractPkScriptAddrs p s = Inr (MultiSigTy, map (PubkeyBytesToAddress p) keys, int m)"
proof -
  have "length (multisigPops m keys) - 2 = length keys + 1"
    "multisigPops m keys ! (length keys + 1) = plain (0x50 + word_of_nat (length keys))"
    "multisigPops m keys ! 0 = plain (0x50 + word_of_nat m)"
    by (simp_all add: multisigPops_def nth_append)
  moreover have "map (\<lambda>i. PubkeyBytesToAddress p (dataBytes (multisigPops m keys ! (i + 1)))) [0..<length keys]
      = map (PubkeyBytesToAddress p) keys"
    by (intro nth_equalityI) (simp_all add: multisig_key [simplified])
  ultimately show ?thesis
    using assms(6) type_multisig [OF assms(1-5)] small_op_nat(3) [OF assms(1,2)] small_op_nat(3) [OF assms(3,4)]
    by (simp add: ExtractPkScriptAddrs_def)
qed

section \<open>Properties\<close>

text \<open>Naming a script class panics on exactly one byte, the first one after the last
  class: the bound check uses a strict comparison.\<close>

theorem scriptClassString_panic: "scriptClassString t = Inl Panic \<longleftrightarrow> t = 9"
proof -
  have "unat t = 9 \<longleftrightarrow> t = 9" using word_unat_eq_iff [of t 9] by simp
  then show ?thesis by (simp add: scriptClassString_def scriptClassToName_def) linarith
qed

end
