(* ===== verification/SigHash.thy ===== *)
theory SigHash
  imports Script Crypto
begin

text \<open>
  The signature hash (\<^verbatim>\<open>tokenengine/internal/txscript/script.go\<close>, \<^verbatim>\<open>calcSignatureHash\<close>)
  with the pieces of the RLP encoder that decide its result (\<^verbatim>\<open>common/rlp/encode.go\<close>).
  The function hands the encoder a transaction by value.  \<^verbatim>\<open>EncodeRLP\<close> is a method of
  \<^verbatim>\<open>*Transaction\<close>, so the encoder takes the branch for values it cannot take the address
  of and returns an error, which is discarded: the hash is that of the empty string for
  every transaction.
\<close>

section \<open>Definitions\<close>

abbreviation (input) SigHashOld :: "32 word" where "SigHashOld \<equiv> 0"
abbreviation (input) SigHashAll :: "32 word" where "SigHashAll \<equiv> 1"
abbreviation (input) SigHashNone :: "32 word" where "SigHashNone \<equiv> 2"
abbreviation (input) SigHashSingle :: "32 word" where "SigHashSingle \<equiv> 3"
abbreviation (input) SigHashAnyOneCanPay :: "32 word" where "SigHashAnyOneCanPay \<equiv> 0x80"

text \<open>\<^verbatim>\<open>Transaction.Clone\<close>: a copy through the gob codec, whose errors are discarded.\<close>

definition shallowCopyTx :: "prims \<Rightarrow> Transaction \<Rightarrow> Transaction" where
  "shallowCopyTx p t = gobCopy p t"

text \<open>
  The writer for a value whose pointer type has an \<^verbatim>\<open>EncodeRLP\<close> method: \<open>canAddr\<close> tells
  whether the reflected value is addressable, \<open>enc\<close> is the result of the method.
\<close>

definition writeEncoderNoPtr :: "bool \<Rightarrow> (serr + bytes) \<Rightarrow> serr + bytes" where
  "writeEncoderNoPtr canAddr enc =
     (if \<not> canAddr then Inl (OtherErr ''rlp: game over: unadressable value of type modules.Transaction, EncodeRLP is pointer method'') else enc)"

text \<open>\<^verbatim>\<open>rlp.EncodeToBytes\<close> of a transaction passed by value: what an interface holds is not addressable.\<close>

definition EncodeToBytes :: "prims \<Rightarrow> Transaction \<Rightarrow> serr + bytes" where
  "EncodeToBytes p t = writeEncoderNoPtr False (txEncodeRLP p t)"

definition setSigScript :: "nat \<Rightarrow> bytes \<Rightarrow> Input list \<Rightarrow> serr + Input list" where
  "setSigScript k v ins =
     (if k < length ins then Inr (ins[k := (ins ! k)\<lparr>SignatureScript := v\<rparr>]) else Inl Panic)"

text \<open>
  The two nested loops over messages and inputs.  The other inputs are addressed with
  the message index \<open>i\<close>, as in the code, not with the input index \<open>j\<close>.
\<close>

fun inputLoop :: "nat \<Rightarrow> int \<Rightarrow> int \<Rightarrow> bytes \<Rightarrow> nat list \<Rightarrow> Input list \<Rightarrow> serr + Input list" where
  "inputLoop i msgIdx idx sigScript [] ins = Inr ins"
| "inputLoop i msgIdx idx sigScript (j # js) ins =
     bindR (if int i = msgIdx \<and> int j = idx then setSigScript (nat idx) sigScript ins
            else setSigScript i [] ins)
       (inputLoop i msgIdx idx sigScript js)"

fun messageLoop :: "nat \<Rightarrow> int \<Rightarrow> int \<Rightarrow> bytes \<Rightarrow> Message list \<Rightarrow> serr + Message list" where
  "messageLoop i msgIdx idx sigScript [] = Inr []"
| "messageLoop i msgIdx idx sigScript (msg # msgs) =
     bindR (if App msg = APP_PAYMENT then
              bindR (asPayment (Payload msg)) (\<lambda>payment.
              bindR (inputLoop i msgIdx idx sigScript [0..<length (Inputs payment)] (Inputs payment)) (\<lambda>ins.
              Inr (msg\<lparr>Payload := Payment (payment\<lparr>Inputs := ins\<rparr>)\<rparr>)))
            else Inr msg) (\<lambda>m.
     bindR (messageLoop (Suc i) msgIdx idx sigScript msgs) (\<lambda>ms. Inr (m # ms)))"

definition calcSignatureHash :: "prims \<Rightarrow> parsedOpcode list \<Rightarrow> 32 word \<Rightarrow> Transaction \<Rightarrow> int \<Rightarrow> int \<Rightarrow> serr + bytes" where
  "calcSignatureHash p scr hashType t msgIdx idx =
     (let scr = removeOpcode scr OP_CODESEPARATOR;
          txCopy = (shallowCopyTx p t)\<lparr>TxHash := zeroHash\<rparr>;
          sigScript = (case unparseScript scr of Inl _ \<Rightarrow> [] | Inr b \<Rightarrow> b)
      in bindR (messageLoop 0 msgIdx idx sigScript (TxMessages txCopy)) (\<lambda>msgs.
         let txBytes = (case EncodeToBytes p (txCopy\<lparr>TxMessages := msgs\<rparr>) of Inl _ \<Rightarrow> [] | Inr b \<Rightarrow> b)
         in Inr (keccak256 p txBytes)))"

definition CalcSignatureHash :: "prims \<Rightarrow> bytes \<Rightarrow> 32 word \<Rightarrow> Transaction \<Rightarrow> int \<Rightarrow> int \<Rightarrow> serr + bytes" where
  "CalcSignatureHash p scr hashType t msgIdx idx =
     (case parseScript scr of
        (_, Some e) \<Rightarrow> Inl (if e = Panic then Panic else OtherErr ''cannot parse output script'')
      | (pops, None) \<Rightarrow> calcSignatureHash p pops hashType t msgIdx idx)"

section \<open>Lemmas\<close>

lemma calcSignatureHash_const:
  "calcSignatureHash p scr hashType t msgIdx idx = Inr h \<Longrightarrow> h = keccak256 p []"
  by (auto simp: calcSignatureHash_def Let_def bindR_Inr EncodeToBytes_def writeEncoderNoPtr_def)

lemma inputLoop_err: "inputLoop i msgIdx idx sg js ins = Inl e \<Longrightarrow> e = Panic"
proof (induction js arbitrary: ins)
  case (Cons j js)
  then show ?case by (auto simp: setSigScript_def split: if_splits)
qed simp

lemma messageLoop_err: "messageLoop i msgIdx idx sg msgs = Inl e \<Longrightarrow> e = Panic"
proof (induction msgs arbitrary: i e)
  case (Cons msg msgs)
  show ?case
  proof (cases "messageLoop (Suc i) msgIdx idx sg msgs")
    case (Inl e')
    with Cons.IH have "e' = Panic" by blast
    with Cons.prems Inl show ?thesis
      by (auto simp: asPayment_def bindR_def dest: inputLoop_err split: if_splits Payload.splits sum.splits)
  next
    case (Inr ms)
    with Cons.prems show ?thesis
      by (auto simp: asPayment_def bindR_def dest: inputLoop_err split: if_splits Payload.splits sum.splits)
  qed
qed simp

lemma calcSignatureHash_err: "calcSignatureHash p scr hashType t msgIdx idx = Inl e \<Longrightarrow> e = Panic"
  by (auto simp: calcSignatureHash_def Let_def bindR_def dest: messageLoop_err split: sum.splits)

lemma calcSignatureHash_no_msgs:
  "TxMessages (gobCopy p t) = [] \<Longrightarrow>
   calcSignatureHash p scr hashType t msgIdx idx = Inr (keccak256 p [])"
  by (simp add: calcSignatureHash_def shallowCopyTx_def EncodeToBytes_def writeEncoderNoPtr_def Let_def)

section \<open>When the hash is computed\<close>

text \<open>
  A message can be processed if it is not a payment, or a payment every input of which is
  the signed one or has the message's own index in range.
\<close>

definition signableMsg :: "nat \<Rightarrow> int \<Rightarrow> int \<Rightarrow> Message \<Rightarrow> bool" where
  "signableMsg i msgIdx idx msg \<longleftrightarrow> App msg = APP_PAYMENT \<longrightarrow>
     (case asPayment (Payload msg) of
        Inl _ \<Rightarrow> False
      | Inr pay \<Rightarrow> \<forall>j < length (Inputs pay). (int i = msgIdx \<and> int j = idx) \<or> i < length (Inputs pay))"

definition signable :: "prims \<Rightarrow> Transaction \<Rightarrow> int \<Rightarrow> int \<Rightarrow> bool" where
  "signable p t msgIdx idx \<longleftrightarrow>
     (\<forall>i < length (TxMessages (gobCopy p t)). signableMsg i msgIdx idx (TxMessages (gobCopy p t) ! i))"

lemma inputLoop_ok_iff:
  "list_all (\<lambda>j. j < length ins) js \<Longrightarrow>
   (\<exists>r. inputLoop i msgIdx idx sg js ins = Inr r) \<longleftrightarrow>
     list_all (\<lambda>j. (int i = msgIdx \<and> int j = idx) \<or> i < length ins) js"
proof (induction js arbitrary: ins)
  case (Cons j js)
  show ?case
  proof (cases "int i = msgIdx \<and> int j = idx")
    case True
    then have "setSigScript (nat idx) sg ins = Inr (ins[j := (ins ! j)\<lparr>SignatureScript := sg\<rparr>])"
      using Cons.prems by (auto simp: setSigScript_def)
    then show ?thesis using True Cons by simp
  next
    case False
    then show ?thesis using Cons by (auto simp: setSigScript_def)
  qed
qed simp

lemma messageLoop_ok_iff:
  "(\<exists>r. messageLoop k msgIdx idx sg msgs = Inr r) \<longleftrightarrow>
     (\<forall>i < length msgs. signableMsg (k + i) msgIdx idx (msgs ! i))"
proof (induction msgs arbitrary: k)
  case (Cons msg msgs)
  have head: "(\<exists>m. (if App msg = APP_PAYMENT then
              bindR (asPayment (Payload msg)) (\<lambda>payment.
              bindR (inputLoop k msgIdx idx sg [0..<length (Inputs payment)] (Inputs payment)) (\<lambda>ins.
              Inr (msg\<lparr>Payload := Payment (payment\<lparr>Inputs := ins\<rparr>)\<rparr>)))
            else Inr msg) = (Inr m :: serr + Message)) \<longleftrightarrow> signableMsg k msgIdx idx msg"
  proof (cases "asPayment (Payload msg)")
    case (Inr pay)
    have "(\<exists>r. inputLoop k msgIdx idx sg [0..<length (Inputs pay)] (Inputs pay) = Inr r) \<longleftrightarrow>
        (\<forall>j < length (Inputs pay). (int k = msgIdx \<and> int j = idx) \<or> k < length (Inputs pay))"
      using inputLoop_ok_iff [of "Inputs pay" "[0..<length (Inputs pay)]" k msgIdx idx sg] by (simp add: list_all_length)
    then show ?thesis using Inr by (simp add: signableMsg_def bindR_Inr)
  qed (simp add: signableMsg_def)
  have "(\<exists>r. messageLoop k msgIdx idx sg (msg # msgs) = Inr r) \<longleftrightarrow>
      signableMsg k msgIdx idx msg \<and> (\<exists>r. messageLoop (Suc k) msgIdx idx sg msgs = Inr r)"
    unfolding messageLoop.simps bindR_Inr head [symmetric] by blast
  then show ?case unfolding Cons.IH by (auto simp: less_Suc_eq_0_disj)
qed simp

lemma calcSignatureHash_panic_iff:
  "calcSignatureHash p scr hashType t msgIdx idx = Inl Panic \<longleftrightarrow> \<not> signable p t msgIdx idx"
proof -
  let ?m = "messageLoop 0 msgIdx idx (case unparseScript (removeOpcode scr OP_CODESEPARATOR) of
      Inl _ \<Rightarrow> [] | Inr b \<Rightarrow> b) (TxMessages (gobCopy p t))"
  have "signable p t msgIdx idx \<longleftrightarrow> (\<exists>r. ?m = Inr r)" by (simp add: messageLoop_ok_iff signable_def)
  then show ?thesis
    by (cases ?m) (auto simp: calcSignatureHash_def shallowCopyTx_def Let_def dest: messageLoop_err)
qed

section \<open>Properties\<close>

text \<open>C19. The signature hash does not depend on what is signed.  It is computed exactly for
  the transactions whose payments the blanking loop can index, and it then is the hash of
  the empty string, for every script, hash type and input: a signature for one input is a
  signature for every input of every transaction that the same key can spend.\<close>

theorem signature_hash_constant:
  "calcSignatureHash p scr hashType t msgIdx idx =
     (if signable p t msgIdx idx then Inr (keccak256 p []) else Inl Panic)"
  using calcSignatureHash_panic_iff [of p scr hashType t msgIdx idx]
  by (cases "calcSignatureHash p scr hashType t msgIdx idx")
    (auto dest: calcSignatureHash_err calcSignatureHash_const)



end
