(* ===== verification/Engine.thy ===== *)
theory Engine
  imports Standard SigHash
begin

text \<open>
  The script machine (\<^verbatim>\<open>tokenengine/internal/txscript/engine.go\<close> and the opcode handlers
  of \<^verbatim>\<open>opcode.go\<close>): its state, one definition per handler, the step function, and the
  creation of an engine for a transaction input.  The signature and hash caches of the
  engine are never read by the code and are left out of the state; so are the
  disassembly strings, which are computed only to be dropped.
\<close>

section \<open>Flags\<close>

abbreviation (input) ScriptBip16 :: "32 word" where "ScriptBip16 \<equiv> 0x1"
abbreviation (input) ScriptStrictMultiSig :: "32 word" where "ScriptStrictMultiSig \<equiv> 0x2"
abbreviation (input) ScriptDiscourageUpgradableNops :: "32 word" where "ScriptDiscourageUpgradableNops \<equiv> 0x4"
abbreviation (input) ScriptVerifyCheckLockTimeVerify :: "32 word" where "ScriptVerifyCheckLockTimeVerify \<equiv> 0x8"
abbreviation (input) ScriptVerifyCheckSequenceVerify :: "32 word" where "ScriptVerifyCheckSequenceVerify \<equiv> 0x10"
abbreviation (input) ScriptVerifyCleanStack :: "32 word" where "ScriptVerifyCleanStack \<equiv> 0x20"
abbreviation (input) ScriptVerifyDERSignatures :: "32 word" where "ScriptVerifyDERSignatures \<equiv> 0x40"
abbreviation (input) ScriptVerifyLowS :: "32 word" where "ScriptVerifyLowS \<equiv> 0x80"
abbreviation (input) ScriptVerifyMinimalData :: "32 word" where "ScriptVerifyMinimalData \<equiv> 0x100"
abbreviation (input) ScriptVerifyNullFail :: "32 word" where "ScriptVerifyNullFail \<equiv> 0x200"
abbreviation (input) ScriptVerifySigPushOnly :: "32 word" where "ScriptVerifySigPushOnly \<equiv> 0x400"
abbreviation (input) ScriptVerifyStrictEncoding :: "32 word" where "ScriptVerifyStrictEncoding \<equiv> 0x800"
abbreviation (input) ScriptVerifyWitness :: "32 word" where "ScriptVerifyWitness \<equiv> 0x1000"
abbreviation (input) ScriptVerifyDiscourageUpgradeableWitnessProgram :: "32 word" where
  "ScriptVerifyDiscourageUpgradeableWitnessProgram \<equiv> 0x2000"
abbreviation (input) ScriptVerifyMinimalIf :: "32 word" where "ScriptVerifyMinimalIf \<equiv> 0x4000"
abbreviation (input) ScriptVerifyWitnessPubKeyType :: "32 word" where "ScriptVerifyWitnessPubKeyType \<equiv> 0x8000"

definition StandardVerifyFlags :: "32 word" where
  "StandardVerifyFlags = ScriptBip16 OR ScriptVerifyDERSignatures OR ScriptVerifyStrictEncoding OR
     ScriptVerifyMinimalData OR ScriptStrictMultiSig OR ScriptDiscourageUpgradableNops OR
     ScriptVerifyCleanStack OR ScriptVerifyNullFail OR ScriptVerifyCheckLockTimeVerify OR
     ScriptVerifyCheckSequenceVerify OR ScriptVerifyLowS OR ScriptStrictMultiSig OR
     ScriptVerifyWitness OR ScriptVerifyDiscourageUpgradeableWitnessProgram OR
     ScriptVerifyMinimalIf OR ScriptVerifyWitnessPubKeyType"

section \<open>State\<close>

definition MaxStackSize :: int where "MaxStackSize = 1000"
definition LockTimeThreshold :: int where "LockTimeThreshold = 500000000"

datatype CondVal = OpCondFalse | OpCondTrue | OpCondSkip

record Engine =
  scripts :: "parsedOpcode list list"
  scriptIdx :: nat
  scriptOff :: nat
  lastCodeSep :: nat
  dstack :: stack
  astack :: stack
  vtx :: Transaction
  vmsgIdx :: nat
  vtxIdx :: nat
  condStack :: "CondVal list"
  numOps :: int
  flags :: "32 word"
  bip16 :: bool
  savedFirstStack :: "bytes list"
  witnessVersion :: int
  witnessProgram :: "bytes option"
  inputAmount :: "64 word"

type_synonym 'a eres = "(ErrorCode, Engine, 'a) res"

text \<open>A call on \<^verbatim>\<open>vm.dstack\<close> or \<^verbatim>\<open>vm.astack\<close>.\<close>

definition onD :: "(stack \<Rightarrow> 'a sres) \<Rightarrow> Engine \<Rightarrow> 'a eres" where
  "onD f vm = (case f (dstack vm) of (r, s) \<Rightarrow> (r, vm\<lparr>dstack := s\<rparr>))"

definition onA :: "(stack \<Rightarrow> 'a sres) \<Rightarrow> Engine \<Rightarrow> 'a eres" where
  "onA f vm = (case f (astack vm) of (r, s) \<Rightarrow> (r, vm\<lparr>astack := s\<rparr>))"

text \<open>A call that only reads the engine.\<close>

definition pureE :: "serr + 'a \<Rightarrow> Engine \<Rightarrow> 'a eres" where
  "pureE r vm = (r, vm)"

abbreviation failE :: "ErrorCode \<Rightarrow> Engine \<Rightarrow> 'a eres" where
  "failE c vm \<equiv> (Inl (ScriptErr c), vm)"

definition hasFlag :: "Engine \<Rightarrow> 32 word \<Rightarrow> bool" where
  "hasFlag vm flag \<longleftrightarrow> flags vm AND flag = flag"

definition isBranchExecuting :: "Engine \<Rightarrow> bool" where
  "isBranchExecuting vm \<longleftrightarrow>
     (if length (condStack vm) = 0 then True else condStack vm ! (length (condStack vm) - 1) = OpCondTrue)"

definition isWitnessVersionActive :: "Engine \<Rightarrow> int \<Rightarrow> bool" where
  "isWitnessVersionActive vm version \<longleftrightarrow> witnessProgram vm \<noteq> None \<and> uint64 (witnessVersion vm) = version"

definition subScript :: "Engine \<Rightarrow> serr + parsedOpcode list" where
  "subScript vm =
     (if scriptIdx vm < length (scripts vm) \<and> lastCodeSep vm \<le> length (scripts vm ! scriptIdx vm)
      then Inr (drop (lastCodeSep vm) (scripts vm ! scriptIdx vm)) else Inl Panic)"

section \<open>Handlers\<close>

subsection \<open>Pushes and control\<close>

definition opcodeDisabled :: "Engine \<Rightarrow> unit eres" where
  "opcodeDisabled = failE ErrDisabledOpcode"

definition opcodeReserved :: "Engine \<Rightarrow> unit eres" where
  "opcodeReserved = failE ErrReservedOpcode"

definition opcodeInvalid :: "Engine \<Rightarrow> unit eres" where
  "opcodeInvalid = failE ErrReservedOpcode"

definition opcodeFalse :: "Engine \<Rightarrow> unit eres" where
  "opcodeFalse = onD (PushByteArray [])"

definition opcodePushData :: "parsedOpcode \<Rightarrow> Engine \<Rightarrow> unit eres" where
  "opcodePushData pop = onD (PushByteArray (dataBytes pop))"

definition opcode1Negate :: "Engine \<Rightarrow> unit eres" where
  "opcode1Negate = onD (PushInt (- 1))"

definition opcodeN :: "parsedOpcode \<Rightarrow> Engine \<Rightarrow> unit eres" where
  "opcodeN pop = onD (PushInt (uint (opvalue (opcode pop) - (OP_1 - 1))))"

definition opcodeNop :: "parsedOpcode \<Rightarrow> Engine \<Rightarrow> unit eres" where
  "opcodeNop pop vm =
     (if opvalue (opcode pop) \<in> set [OP_NOP1, OP_NOP4, OP_NOP5, OP_NOP6, OP_NOP7, OP_NOP8, OP_NOP9, OP_NOP10] \<and>
         hasFlag vm ScriptDiscourageUpgradableNops
      then failE ErrDiscourageUpgradableNOPs vm else (Inr (), vm))"

definition popIfBool :: "Engine \<Rightarrow> bool eres" where
  "popIfBool vm =
     (if \<not> isWitnessVersionActive vm 0 \<or> \<not> hasFlag vm ScriptVerifyMinimalIf then onD PopBool vm
      else bindE (onD PopByteArray vm) (\<lambda>so vm.
        if length so > 1 then failE ErrMinimalIf vm
        else if length so = 1 \<and> so ! 0 \<noteq> 1 then failE ErrMinimalIf vm
        else (Inr (asBool so), vm)))"

definition pushCond :: "CondVal \<Rightarrow> Engine \<Rightarrow> unit eres" where
  "pushCond c vm = (Inr (), vm\<lparr>condStack := condStack vm @ [c]\<rparr>)"

definition opcodeIf :: "Engine \<Rightarrow> unit eres" where
  "opcodeIf vm =
     (if isBranchExecuting vm
      then bindE (popIfBool vm) (\<lambda>ok vm. pushCond (if ok then OpCondTrue else OpCondFalse) vm)
      else pushCond OpCondSkip vm)"

definition opcodeNotIf :: "Engine \<Rightarrow> unit eres" where
  "opcodeNotIf vm =
     (if isBranchExecuting vm
      then bindE (popIfBool vm) (\<lambda>ok vm. pushCond (if \<not> ok then OpCondTrue else OpCondFalse) vm)
      else pushCond OpCondSkip vm)"

definition opcodeElse :: "Engine \<Rightarrow> unit eres" where
  "opcodeElse vm =
     (if length (condStack vm) = 0 then failE ErrUnbalancedConditional vm
      else
        let conditionalIdx = length (condStack vm) - 1;
            c = (case condStack vm ! conditionalIdx of
                   OpCondTrue \<Rightarrow> OpCondFalse | OpCondFalse \<Rightarrow> OpCondTrue | OpCondSkip \<Rightarrow> OpCondSkip)
        in (Inr (), vm\<lparr>condStack := (condStack vm)[conditionalIdx := c]\<rparr>))"

definition opcodeEndif :: "Engine \<Rightarrow> unit eres" where
  "opcodeEndif vm =
     (if length (condStack vm) = 0 then failE ErrUnbalancedConditional vm
      else (Inr (), vm\<lparr>condStack := take (length (condStack vm) - 1) (condStack vm)\<rparr>))"

definition abstractVerify :: "ErrorCode \<Rightarrow> Engine \<Rightarrow> unit eres" where
  "abstractVerify c vm = bindE (onD PopBool vm) (\<lambda>verified vm.
     if \<not> verified then failE c vm else (Inr (), vm))"

definition opcodeVerify :: "Engine \<Rightarrow> unit eres" where
  "opcodeVerify = abstractVerify ErrVerify"

definition opcodeReturn :: "Engine \<Rightarrow> unit eres" where
  "opcodeReturn = failE ErrEarlyReturn"

subsection \<open>Lock times\<close>

definition verifyLockTime :: "int \<Rightarrow> int \<Rightarrow> int \<Rightarrow> serr + unit" where
  "verifyLockTime txLockTime threshold lockTime =
     (if \<not> ((txLockTime < threshold \<and> lockTime < threshold) \<or>
            (txLockTime \<ge> threshold \<and> lockTime \<ge> threshold))
      then Inl (ScriptErr ErrUnsatisfiedLockTime)
      else if lockTime > txLockTime then Inl (ScriptErr ErrUnsatisfiedLockTime)
      else Inr ())"

text \<open>The operand both lock time opcodes read: the top of the stack as a five byte number.\<close>

definition peekNum5 :: "stack \<Rightarrow> int sres" where
  "peekNum5 s = bindE (PeekByteArray 0 s) (\<lambda>so s. (makeScriptNum so (verifyMinimalData s) 5, s))"

text \<open>The payment of the message being validated.\<close>

definition enginePayment :: "Engine \<Rightarrow> serr + PaymentPayload" where
  "enginePayment vm =
     (if vmsgIdx vm < length (TxMessages (vtx vm))
      then asPayment (Payload (TxMessages (vtx vm) ! vmsgIdx vm)) else Inl Panic)"

definition opcodeCheckLockTimeVerify :: "Engine \<Rightarrow> unit eres" where
  "opcodeCheckLockTimeVerify vm =
     (if \<not> hasFlag vm ScriptVerifyCheckLockTimeVerify then
        (if hasFlag vm ScriptDiscourageUpgradableNops then failE ErrDiscourageUpgradableNOPs vm
         else (Inr (), vm))
      else bindE (onD peekNum5 vm) (\<lambda>lockTime vm.
        if lockTime < 0 then failE ErrNegativeLockTime vm
        else bindE (pureE (enginePayment vm) vm) (\<lambda>payment vm.
          pureE (verifyLockTime (uint (LockTime payment)) LockTimeThreshold lockTime) vm)))"

definition opcodeCheckSequenceVerify :: "Engine \<Rightarrow> unit eres" where
  "opcodeCheckSequenceVerify vm =
     (if \<not> hasFlag vm ScriptVerifyCheckSequenceVerify then
        (if hasFlag vm ScriptDiscourageUpgradableNops then failE ErrDiscourageUpgradableNOPs vm
         else (Inr (), vm))
      else bindE (onD peekNum5 vm) (\<lambda>stackSequence vm.
        if stackSequence < 0 then failE ErrNegativeLockTime vm else (Inr (), vm)))"

subsection \<open>Stack manipulation\<close>

definition opcodeToAltStack :: "Engine \<Rightarrow> unit eres" where
  "opcodeToAltStack vm = bindE (onD PopByteArray vm) (\<lambda>so vm. onA (PushByteArray so) vm)"

definition opcodeFromAltStack :: "Engine \<Rightarrow> unit eres" where
  "opcodeFromAltStack vm = bindE (onA PopByteArray vm) (\<lambda>so vm. onD (PushByteArray so) vm)"

definition opcode2Drop :: "Engine \<Rightarrow> unit eres" where
  "opcode2Drop = onD (DropN 2)"

definition opcode2Dup :: "Engine \<Rightarrow> unit eres" where
  "opcode2Dup = onD (DupN 2)"

definition opcode3Dup :: "Engine \<Rightarrow> unit eres" where
  "opcode3Dup = onD (DupN 3)"

definition opcode2Over :: "Engine \<Rightarrow> unit eres" where
  "opcode2Over = onD (OverN 2)"

definition opcode2Rot :: "Engine \<Rightarrow> unit eres" where
  "opcode2Rot = onD (RotN 2)"

definition opcode2Swap :: "Engine \<Rightarrow> unit eres" where
  "opcode2Swap = onD (SwapN 2)"

definition opcodeIfDup :: "Engine \<Rightarrow> unit eres" where
  "opcodeIfDup = onD (\<lambda>s. bindE (PeekByteArray 0 s) (\<lambda>so s.
     if asBool so then PushByteArray so s else (Inr (), s)))"

definition opcodeDepth :: "Engine \<Rightarrow> unit eres" where
  "opcodeDepth = onD (\<lambda>s. PushInt (Depth s) s)"

definition opcodeDrop :: "Engine \<Rightarrow> unit eres" where
  "opcodeDrop = onD (DropN 1)"

definition opcodeDup :: "Engine \<Rightarrow> unit eres" where
  "opcodeDup = onD (DupN 1)"

definition opcodeNip :: "Engine \<Rightarrow> unit eres" where
  "opcodeNip = onD (NipN 1)"

definition opcodeOver :: "Engine \<Rightarrow> unit eres" where
  "opcodeOver = onD (OverN 1)"

definition opcodePick :: "Engine \<Rightarrow> unit eres" where
  "opcodePick = onD (\<lambda>s. bindE (PopInt s) (\<lambda>val s. PickN (Int32 val) s))"

definition opcodeRoll :: "Engine \<Rightarrow> unit eres" where
  "opcodeRoll = onD (\<lambda>s. bindE (PopInt s) (\<lambda>val s. RollN (Int32 val) s))"

definition opcodeRot :: "Engine \<Rightarrow> unit eres" where
  "opcodeRot = onD (RotN 1)"

definition opcodeSwap :: "Engine \<Rightarrow> unit eres" where
  "opcodeSwap = onD (SwapN 1)"

definition opcodeTuck :: "Engine \<Rightarrow> unit eres" where
  "opcodeTuck = onD (Tuck)"

definition opcodeSize :: "Engine \<Rightarrow> unit eres" where
  "opcodeSize = onD (\<lambda>s. bindE (PeekByteArray 0 s) (\<lambda>so s. PushInt (int (length so)) s))"

definition opcodeEqual :: "Engine \<Rightarrow> unit eres" where
  "opcodeEqual = onD (\<lambda>s.
     bindE (PopByteArray s) (\<lambda>a s.
     bindE (PopByteArray s) (\<lambda>b s. PushBool (a = b) s)))"

definition opcodeEqualVerify :: "Engine \<Rightarrow> unit eres" where
  "opcodeEqualVerify vm = bindE (opcodeEqual vm) (\<lambda>_ vm. abstractVerify ErrEqualVerify vm)"

subsection \<open>Numbers\<close>

definition opcode1Add :: "Engine \<Rightarrow> unit eres" where
  "opcode1Add = onD (\<lambda>s. bindE (PopInt s) (\<lambda>m s. PushInt (int64 (m + 1)) s))"

definition opcode1Sub :: "Engine \<Rightarrow> unit eres" where
  "opcode1Sub = onD (\<lambda>s. bindE (PopInt s) (\<lambda>m s. PushInt (int64 (m - 1)) s))"

definition opcodeNegate :: "Engine \<Rightarrow> unit eres" where
  "opcodeNegate = onD (\<lambda>s. bindE (PopInt s) (\<lambda>m s. PushInt (int64 (- m)) s))"

definition opcodeAbs :: "Engine \<Rightarrow> unit eres" where
  "opcodeAbs = onD (\<lambda>s. bindE (PopInt s) (\<lambda>m s. PushInt (if m < 0 then int64 (- m) else m) s))"

definition opcodeNot :: "Engine \<Rightarrow> unit eres" where
  "opcodeNot = onD (\<lambda>s. bindE (PopInt s) (\<lambda>m s. PushInt (if m = 0 then 1 else 0) s))"

definition opcode0NotEqual :: "Engine \<Rightarrow> unit eres" where
  "opcode0NotEqual = onD (\<lambda>s. bindE (PopInt s) (\<lambda>m s. PushInt (if m \<noteq> 0 then 1 else m) s))"

definition opcodeAdd :: "Engine \<Rightarrow> unit eres" where
  "opcodeAdd = onD (\<lambda>s.
     bindE (PopInt s) (\<lambda>v0 s.
     bindE (PopInt s) (\<lambda>v1 s. PushInt (int64 (v0 + v1)) s)))"

definition opcodeSub :: "Engine \<Rightarrow> unit eres" where
  "opcodeSub = onD (\<lambda>s.
     bindE (PopInt s) (\<lambda>v0 s.
     bindE (PopInt s) (\<lambda>v1 s. PushInt (int64 (v1 - v0)) s)))"

definition opcodeBoolAnd :: "Engine \<Rightarrow> unit eres" where
  "opcodeBoolAnd = onD (\<lambda>s.
     bindE (PopInt s) (\<lambda>v0 s.
     bindE (PopInt s) (\<lambda>v1 s. PushInt (if v0 \<noteq> 0 \<and> v1 \<noteq> 0 then 1 else 0) s)))"

definition opcodeBoolOr :: "Engine \<Rightarrow> unit eres" where
  "opcodeBoolOr = onD (\<lambda>s.
     bindE (PopInt s) (\<lambda>v0 s.
     bindE (PopInt s) (\<lambda>v1 s. PushInt (if v0 \<noteq> 0 \<or> v1 \<noteq> 0 then 1 else 0) s)))"

definition opcodeNumEqual :: "Engine \<Rightarrow> unit eres" where
  "opcodeNumEqual = onD (\<lambda>s.
     bindE (PopInt s) (\<lambda>v0 s.
     bindE (PopInt s) (\<lambda>v1 s. PushInt (if v0 = v1 then 1 else 0) s)))"

definition opcodeNumEqualVerify :: "Engine \<Rightarrow> unit eres" where
  "opcodeNumEqualVerify vm = bindE (opcodeNumEqual vm) (\<lambda>_ vm. abstractVerify ErrNumEqualVerify vm)"

definition opcodeNumNotEqual :: "Engine \<Rightarrow> unit eres" where
  "opcodeNumNotEqual = onD (\<lambda>s.
     bindE (PopInt s) (\<lambda>v0 s.
     bindE (PopInt s) (\<lambda>v1 s. PushInt (if v0 \<noteq> v1 then 1 else 0) s)))"

definition opcodeLessThan :: "Engine \<Rightarrow> unit eres" where
  "opcodeLessThan = onD (\<lambda>s.
     bindE (PopInt s) (\<lambda>v0 s.
     bindE (PopInt s) (\<lambda>v1 s. PushInt (if v1 < v0 then 1 else 0) s)))"

definition opcodeGreaterThan :: "Engine \<Rightarrow> unit eres" where
  "opcodeGreaterThan = onD (\<lambda>s.
     bindE (PopInt s) (\<lambda>v0 s.
     bindE (PopInt s) (\<lambda>v1 s. PushInt (if v1 > v0 then 1 else 0) s)))"

definition opcodeLessThanOrEqual :: "Engine \<Rightarrow> unit eres" where
  "opcodeLessThanOrEqual = onD (\<lambda>s.
     bindE (PopInt s) (\<lambda>v0 s.
     bindE (PopInt s) (\<lambda>v1 s. PushInt (if v1 \<le> v0 then 1 else 0) s)))"

definition opcodeGreaterThanOrEqual :: "Engine \<Rightarrow> unit eres" where
  "opcodeGreaterThanOrEqual = onD (\<lambda>s.
     bindE (PopInt s) (\<lambda>v0 s.
     bindE (PopInt s) (\<lambda>v1 s. PushInt (if v1 \<ge> v0 then 1 else 0) s)))"

definition opcodeMin :: "Engine \<Rightarrow> unit eres" where
  "opcodeMin = onD (\<lambda>s.
     bindE (PopInt s) (\<lambda>v0 s.
     bindE (PopInt s) (\<lambda>v1 s. PushInt (if v1 < v0 then v1 else v0) s)))"

definition opcodeMax :: "Engine \<Rightarrow> unit eres" where
  "opcodeMax = onD (\<lambda>s.
     bindE (PopInt s) (\<lambda>v0 s.
     bindE (PopInt s) (\<lambda>v1 s. PushInt (if v1 > v0 then v1 else v0) s)))"

definition opcodeWithin :: "Engine \<Rightarrow> unit eres" where
  "opcodeWithin = onD (\<lambda>s.
     bindE (PopInt s) (\<lambda>maxVal s.
     bindE (PopInt s) (\<lambda>minVal s.
     bindE (PopInt s) (\<lambda>x s. PushInt (if x \<ge> minVal \<and> x < maxVal then 1 else 0) s))))"

subsection \<open>Hashes\<close>

definition opcodeRipemd160 :: "prims \<Rightarrow> Engine \<Rightarrow> unit eres" where
  "opcodeRipemd160 p = onD (\<lambda>s. bindE (PopByteArray s) (\<lambda>buf s. PushByteArray (ripemd160 p buf) s))"

definition opcodeSha1 :: "prims \<Rightarrow> Engine \<Rightarrow> unit eres" where
  "opcodeSha1 p = onD (\<lambda>s. bindE (PopByteArray s) (\<lambda>buf s. PushByteArray (sha1 p buf) s))"

definition opcodeSha256 :: "prims \<Rightarrow> Engine \<Rightarrow> unit eres" where
  "opcodeSha256 p = onD (\<lambda>s. bindE (PopByteArray s) (\<lambda>buf s. PushByteArray (sha256 p buf) s))"

definition opcodeHash160 :: "prims \<Rightarrow> Engine \<Rightarrow> unit eres" where
  "opcodeHash160 p = onD (\<lambda>s. bindE (PopByteArray s) (\<lambda>buf s. PushByteArray (ripemd160 p (sha256 p buf)) s))"

definition opcodeHash256 :: "prims \<Rightarrow> Engine \<Rightarrow> unit eres" where
  "opcodeHash256 p = onD (\<lambda>s. bindE (PopByteArray s) (\<lambda>buf s. PushByteArray (keccak256 p buf) s))"

definition opcodeCodeSeparator :: "Engine \<Rightarrow> unit eres" where
  "opcodeCodeSeparator vm = (Inr (), vm\<lparr>lastCodeSep := scriptOff vm\<rparr>)"

subsection \<open>Signatures\<close>

definition opcodeCheckSig :: "prims \<Rightarrow> Engine \<Rightarrow> unit eres" where
  "opcodeCheckSig p vm =
     bindE (onD PopByteArray vm) (\<lambda>pkBytes vm.
     bindE (onD PopByteArray vm) (\<lambda>fullSigBytes vm.
     if length fullSigBytes < 1 then onD (PushBool False) vm
     else
       bindE (pureE (subScript vm) vm) (\<lambda>scr vm.
       bindE (pureE (calcSignatureHash p (removeOpcodeByData scr fullSigBytes) SigHashAll
                (vtx vm) (int (vmsgIdx vm)) (int (vtxIdx vm))) vm) (\<lambda>hash vm.
       onD (PushBool (VerifySignature p pkBytes hash fullSigBytes)) vm))))"

definition opcodeCheckSigVerify :: "prims \<Rightarrow> Engine \<Rightarrow> unit eres" where
  "opcodeCheckSigVerify p vm = bindE (opcodeCheckSig p vm) (\<lambda>_ vm. abstractVerify ErrCheckSigVerify vm)"

fun popMany :: "nat \<Rightarrow> stack \<Rightarrow> bytes list sres" where
  "popMany 0 s = (Inr [], s)"
| "popMany (Suc n) s = bindE (PopByteArray s) (\<lambda>x s. bindE (popMany n s) (\<lambda>xs s. (Inr (x # xs), s)))"

text \<open>
  The signatures are the keys of a map, so equal ones count once; every distinct
  signature is tried with every public key, and every success counts.
\<close>

definition validCount :: "prims \<Rightarrow> bytes \<Rightarrow> bytes list \<Rightarrow> bytes list \<Rightarrow> nat" where
  "validCount p hash signatures pubKeys =
     length (filter (\<lambda>(sig, pubKey). VerifySignature p pubKey hash sig)
       (List.product (remdups signatures) pubKeys))"

definition opcodeCheckMultiSig :: "prims \<Rightarrow> Engine \<Rightarrow> unit eres" where
  "opcodeCheckMultiSig p vm =
     bindE (onD PopInt vm) (\<lambda>numKeys vm.
     let numPubKeys = Int32 numKeys in
     if numPubKeys < 0 then failE ErrInvalidPubKeyCount vm
     else if numPubKeys > MaxPubKeysPerMultiSig then failE ErrInvalidPubKeyCount vm
     else
       let vm = vm\<lparr>numOps := numOps vm + numPubKeys\<rparr> in
       if numOps vm > MaxOpsPerScript then failE ErrTooManyOperations vm
       else
       bindE (onD (popMany (nat numPubKeys)) vm) (\<lambda>pubKeys vm.
       bindE (onD PopInt vm) (\<lambda>numSigs vm.
       let numSignatures = Int32 numSigs in
       if numSignatures < 0 then failE ErrInvalidSignatureCount vm
       else if numSignatures > numPubKeys then failE ErrInvalidSignatureCount vm
       else
       bindE (onD (popMany (nat numSignatures)) vm) (\<lambda>signatures vm.
       bindE (onD PopByteArray vm) (\<lambda>dummy vm.
       if hasFlag vm ScriptStrictMultiSig \<and> length dummy \<noteq> 0 then failE ErrSigNullDummy vm
       else
       bindE (pureE (subScript vm) vm) (\<lambda>scr vm.
       bindE (pureE (calcSignatureHash p scr SigHashAll (vtx vm) (int (vmsgIdx vm)) (int (vtxIdx vm))) vm)
         (\<lambda>hash vm.
       let success = int (validCount p hash signatures pubKeys) \<ge> numSignatures in
       if \<not> success \<and> hasFlag vm ScriptVerifyNullFail then failE ErrNullFail vm
       else onD (PushBool success) vm)))))))"

definition opcodeCheckMultiSigVerify :: "prims \<Rightarrow> Engine \<Rightarrow> unit eres" where
  "opcodeCheckMultiSigVerify p vm =
     bindE (opcodeCheckMultiSig p vm) (\<lambda>_ vm. abstractVerify ErrCheckMultiSigVerify vm)"

definition opcodeCheckJuryRedeemEqual :: "Engine \<Rightarrow> unit eres" where
  "opcodeCheckJuryRedeemEqual = onD (\<lambda>s.
     bindE (PopByteArray s) (\<lambda>contractHash s.
     bindE (PopInt s) (\<lambda>versionData s.
     if Int32 versionData < 0 then (Inl (ScriptErr ErrInvalidPubKeyCount), s)
     else bindE (PopByteArray s) (\<lambda>redeemScript s. PushBool True s))))"

section \<open>Execution\<close>

text \<open>The call \<^verbatim>\<open>pop.opcode.opfunc(pop, vm)\<close>.\<close>

definition callOpfunc :: "prims \<Rightarrow> parsedOpcode \<Rightarrow> Engine \<Rightarrow> unit eres" where
  "callOpfunc p pop vm = (case opfunc (opcode pop) of
  fn_nil \<Rightarrow> (Inl Panic, vm)
   | fn_opcodeFalse \<Rightarrow> opcodeFalse vm
   | fn_opcodePushData \<Rightarrow> opcodePushData pop vm
   | fn_opcode1Negate \<Rightarrow> opcode1Negate vm
   | fn_opcodeReserved \<Rightarrow> opcodeReserved vm
   | fn_opcodeN \<Rightarrow> opcodeN pop vm
   | fn_opcodeNop \<Rightarrow> opcodeNop pop vm
   | fn_opcodeIf \<Rightarrow> opcodeIf vm
   | fn_opcodeNotIf \<Rightarrow> opcodeNotIf vm
   | fn_opcodeElse \<Rightarrow> opcodeElse vm
   | fn_opcodeEndif \<Rightarrow> opcodeEndif vm
   | fn_opcodeVerify \<Rightarrow> opcodeVerify vm
   | fn_opcodeReturn \<Rightarrow> opcodeReturn vm
   | fn_opcodeCheckLockTimeVerify \<Rightarrow> opcodeCheckLockTimeVerify vm
   | fn_opcodeCheckSequenceVerify \<Rightarrow> opcodeCheckSequenceVerify vm
   | fn_opcodeToAltStack \<Rightarrow> opcodeToAltStack vm
   | fn_opcodeFromAltStack \<Rightarrow> opcodeFromAltStack vm
   | fn_opcode2Drop \<Rightarrow> opcode2Drop vm
   | fn_opcode2Dup \<Rightarrow> opcode2Dup vm
   | fn_opcode3Dup \<Rightarrow> opcode3Dup vm
   | fn_opcode2Over \<Rightarrow> opcode2Over vm
   | fn_opcode2Rot \<Rightarrow> opcode2Rot vm
   | fn_opcode2Swap \<Rightarrow> opcode2Swap vm
   | fn_opcodeIfDup \<Rightarrow> opcodeIfDup vm
   | fn_opcodeDepth \<Rightarrow> opcodeDepth vm
   | fn_opcodeDrop \<Rightarrow> opcodeDrop vm
   | fn_opcodeDup \<Rightarrow> opcodeDup vm
   | fn_opcodeNip \<Rightarrow> opcodeNip vm
   | fn_opcodeOver \<Rightarrow> opcodeOver vm
   | fn_opcodePick \<Rightarrow> opcodePick vm
   | fn_opcodeRoll \<Rightarrow> opcodeRoll vm
   | fn_opcodeRot \<Rightarrow> opcodeRot vm
   | fn_opcodeSwap \<Rightarrow> opcodeSwap vm
   | fn_opcodeTuck \<Rightarrow> opcodeTuck vm
   | fn_opcodeDisabled \<Rightarrow> opcodeDisabled vm
   | fn_opcodeSize \<Rightarrow> opcodeSize vm
   | fn_opcodeEqual \<Rightarrow> opcodeEqual vm
   | fn_opcodeEqualVerify \<Rightarrow> opcodeEqualVerify vm
   | fn_opcode1Add \<Rightarrow> opcode1Add vm
   | fn_opcode1Sub \<Rightarrow> opcode1Sub vm
   | fn_opcodeNegate \<Rightarrow> opcodeNegate vm
   | fn_opcodeAbs \<Rightarrow> opcodeAbs vm
   | fn_opcodeNot \<Rightarrow> opcodeNot vm
   | fn_opcode0NotEqual \<Rightarrow> opcode0NotEqual vm
   | fn_opcodeAdd \<Rightarrow> opcodeAdd vm
   | fn_opcodeSub \<Rightarrow> opcodeSub vm
   | fn_opcodeBoolAnd \<Rightarrow> opcodeBoolAnd vm
   | fn_opcodeBoolOr \<Rightarrow> opcodeBoolOr vm
   | fn_opcodeNumEqual \<Rightarrow> opcodeNumEqual vm
   | fn_opcodeNumEqualVerify \<Rightarrow> opcodeNumEqualVerify vm
   | fn_opcodeNumNotEqual \<Rightarrow> opcodeNumNotEqual vm
   | fn_opcodeLessThan \<Rightarrow> opcodeLessThan vm
   | fn_opcodeGreaterThan \<Rightarrow> opcodeGreaterThan vm
   | fn_opcodeLessThanOrEqual \<Rightarrow> opcodeLessThanOrEqual vm
   | fn_opcodeGreaterThanOrEqual \<Rightarrow> opcodeGreaterThanOrEqual vm
   | fn_opcodeMin \<Rightarrow> opcodeMin vm
   | fn_opcodeMax \<Rightarrow> opcodeMax vm
   | fn_opcodeWithin \<Rightarrow> opcodeWithin vm
   | fn_opcodeRipemd160 \<Rightarrow> opcodeRipemd160 p vm
   | fn_opcodeSha1 \<Rightarrow> opcodeSha1 p vm
   | fn_opcodeSha256 \<Rightarrow> opcodeSha256 p vm
   | fn_opcodeHash160 \<Rightarrow> opcodeHash160 p vm
   | fn_opcodeHash256 \<Rightarrow> opcodeHash256 p vm
   | fn_opcodeCodeSeparator \<Rightarrow> opcodeCodeSeparator vm
   | fn_opcodeCheckSig \<Rightarrow> opcodeCheckSig p vm
   | fn_opcodeCheckSigVerify \<Rightarrow> opcodeCheckSigVerify p vm
   | fn_opcodeCheckMultiSig \<Rightarrow> opcodeCheckMultiSig p vm
   | fn_opcodeCheckMultiSigVerify \<Rightarrow> opcodeCheckMultiSigVerify p vm
   | fn_opcodeInvalid \<Rightarrow> opcodeInvalid vm
   | fn_opcodeCheckJuryRedeemEqual \<Rightarrow> opcodeCheckJuryRedeemEqual vm
)"

definition executeOpcode :: "prims \<Rightarrow> parsedOpcode \<Rightarrow> Engine \<Rightarrow> unit eres" where
  "executeOpcode p pop vm =
     (if isDisabled pop then failE ErrDisabledOpcode vm
      else if alwaysIllegal pop then failE ErrReservedOpcode vm
      else
        let vm = (if opvalue (opcode pop) > OP_16 then vm\<lparr>numOps := numOps vm + 1\<rparr> else vm) in
        if opvalue (opcode pop) > OP_16 \<and> numOps vm > MaxOpsPerScript then failE ErrTooManyOperations vm
        else if \<not> opvalue (opcode pop) > OP_16 \<and> length (dataBytes pop) > MaxScriptElementSize then
          failE ErrElementTooBig vm
        else if \<not> isBranchExecuting vm \<and> \<not> isConditional pop then (Inr (), vm)
        else
          bindE (pureE (if verifyMinimalData (dstack vm) \<and> isBranchExecuting vm \<and>
                           opvalue (opcode pop) \<le> OP_PUSHDATA4
                        then checkMinimalDataPush pop else Inr ()) vm) (\<lambda>_ vm.
          callOpfunc p pop vm))"

definition validPC :: "Engine \<Rightarrow> serr + unit" where
  "validPC vm =
     (if scriptIdx vm \<ge> length (scripts vm) then Inl (ScriptErr ErrInvalidProgramCounter)
      else if scriptOff vm \<ge> length (scripts vm ! scriptIdx vm) then Inl (ScriptErr ErrInvalidProgramCounter)
      else Inr ())"

definition curPC :: "Engine \<Rightarrow> serr + (nat \<times> nat)" where
  "curPC vm = bindR (validPC vm) (\<lambda>_. Inr (scriptIdx vm, scriptOff vm))"

definition getStack :: "stack \<Rightarrow> bytes list" where
  "getStack s =
     (let n = nat (Depth s) in
      map (\<lambda>k. case fst (PeekByteArray (int (n - 1 - k)) s) of Inl _ \<Rightarrow> [] | Inr b \<Rightarrow> b) [0..<n])"

fun pushMany :: "bytes list \<Rightarrow> stack \<Rightarrow> stack" where
  "pushMany [] s = s"
| "pushMany (x # xs) s = pushMany xs (snd (PushByteArray x s))"

definition setStack :: "bytes list \<Rightarrow> stack \<Rightarrow> stack" where
  "setStack d s = pushMany d (snd (DropN (Depth s) s))"

definition GetStack :: "Engine \<Rightarrow> bytes list" where "GetStack vm = getStack (dstack vm)"
definition SetStack :: "bytes list \<Rightarrow> Engine \<Rightarrow> Engine" where
  "SetStack d vm = vm\<lparr>dstack := setStack d (dstack vm)\<rparr>"
definition GetAltStack :: "Engine \<Rightarrow> bytes list" where "GetAltStack vm = getStack (astack vm)"
definition SetAltStack :: "bytes list \<Rightarrow> Engine \<Rightarrow> Engine" where
  "SetAltStack d vm = vm\<lparr>astack := setStack d (astack vm)\<rparr>"

definition CheckErrorCondition :: "bool \<Rightarrow> Engine \<Rightarrow> unit eres" where
  "CheckErrorCondition finalScript vm =
     (if scriptIdx vm < length (scripts vm) then failE ErrScriptUnfinished vm
      else if finalScript \<and> isWitnessVersionActive vm 0 \<and> Depth (dstack vm) \<noteq> 1 then failE ErrEvalFalse vm
      else if finalScript \<and> hasFlag vm ScriptVerifyCleanStack \<and> Depth (dstack vm) \<noteq> 1 then
        failE ErrCleanStack vm
      else if Depth (dstack vm) < 1 then failE ErrEmptyStack vm
      else bindE (onD PopBool vm) (\<lambda>v vm. if \<not> v then failE ErrEvalFalse vm else (Inr (), vm)))"

text \<open>The pay-to-script-hash hand-over: run the script that was pushed last by the first script.\<close>

definition enterRedeemScript :: "Engine \<Rightarrow> unit eres" where
  "enterRedeemScript vm =
     bindE (CheckErrorCondition False vm) (\<lambda>_ vm.
     if savedFirstStack vm = [] then (Inl Panic, vm)
     else
       let scr = savedFirstStack vm ! (length (savedFirstStack vm) - 1) in
       case parseScript scr of
         (_, Some e) \<Rightarrow> (Inl e, vm)
       | (pops, None) \<Rightarrow>
           (Inr (), SetStack (take (length (savedFirstStack vm) - 1) (savedFirstStack vm))
              (vm\<lparr>scripts := scripts vm @ [pops]\<rparr>)))"

text \<open>
  The end of a script: the alternate stack is dropped, the counters are reset, the
  program counter moves to the next script (past one that is empty).
\<close>

definition advanceScript :: "Engine \<Rightarrow> unit eres" where
  "advanceScript vm =
     (if scriptIdx vm = 0 \<and> bip16 vm then
        (Inr (), vm\<lparr>scriptIdx := scriptIdx vm + 1, savedFirstStack := GetStack vm\<rparr>)
      else if scriptIdx vm = 1 \<and> bip16 vm then
        enterRedeemScript (vm\<lparr>scriptIdx := scriptIdx vm + 1\<rparr>)
      else (Inr (), vm\<lparr>scriptIdx := scriptIdx vm + 1\<rparr>))"

definition skipEmptyScript :: "Engine \<Rightarrow> Engine" where
  "skipEmptyScript vm =
     (let vm = (if scriptIdx vm < length (scripts vm) \<and> scriptOff vm \<ge> length (scripts vm ! scriptIdx vm)
                then vm\<lparr>scriptIdx := scriptIdx vm + 1\<rparr> else vm)
      in vm\<lparr>lastCodeSep := 0\<rparr>)"

definition nextScript :: "Engine \<Rightarrow> bool eres" where
  "nextScript vm =
     (if length (condStack vm) \<noteq> 0 then failE ErrUnbalancedConditional vm
      else
        bindE (advanceScript (vm\<lparr>astack := snd (DropN (Depth (astack vm)) (astack vm)),
                 numOps := 0, scriptOff := 0\<rparr>)) (\<lambda>_ vm.
        let vm = skipEmptyScript vm in (Inr (scriptIdx vm \<ge> length (scripts vm)), vm)))"

text \<open>\<^verbatim>\<open>Step\<close>: the boolean says that the last script has ended.\<close>

definition Step :: "prims \<Rightarrow> Engine \<Rightarrow> bool eres" where
  "Step p vm =
     bindE (pureE (validPC vm) vm) (\<lambda>_ vm.
     let pop = scripts vm ! scriptIdx vm ! scriptOff vm in
     bindE (executeOpcode p pop (vm\<lparr>scriptOff := scriptOff vm + 1\<rparr>)) (\<lambda>_ vm.
     let combinedStackSize = int32 (Depth (dstack vm) + Depth (astack vm)) in
     if combinedStackSize > MaxStackSize then failE ErrStackOverflow vm
     else if scriptOff vm \<ge> length (scripts vm ! scriptIdx vm) then nextScript vm
     else (Inr False, vm)))"

section \<open>Creating an engine\<close>

definition newVM :: "32 word \<Rightarrow> 64 word \<Rightarrow> Engine" where
  "newVM fl amount = \<lparr>scripts = [], scriptIdx = 0, scriptOff = 0, lastCodeSep = 0,
     dstack = \<lparr>stk = [], verifyMinimalData = False\<rparr>, astack = \<lparr>stk = [], verifyMinimalData = False\<rparr>,
     vtx = zeroTransaction, vmsgIdx = 0, vtxIdx = 0, condStack = [], numOps = 0, flags = fl,
     bip16 = False, savedFirstStack = [], witnessVersion = 0, witnessProgram = None, inputAmount = amount\<rparr>"

definition checkedParse :: "bytes \<Rightarrow> serr + parsedOpcode list" where
  "checkedParse scr =
     (if length scr > MaxScriptSize then Inl (ScriptErr ErrScriptTooBig)
      else case parseScript scr of (_, Some e) \<Rightarrow> Inl e | (pops, None) \<Rightarrow> Inr pops)"

definition NewEngine :: "bytes \<Rightarrow> Transaction \<Rightarrow> int \<Rightarrow> int \<Rightarrow> 32 word \<Rightarrow> 64 word \<Rightarrow> serr + Engine" where
  "NewEngine scriptPubKey t msgIdx txIdx fl amount =
     (if txIdx < 0 \<or> msgIdx < 0 \<or> msgIdx \<ge> int (length (TxMessages t)) then Inl (ScriptErr ErrInvalidIndex)
      else let msg = TxMessages t ! nat msgIdx in
      if App msg \<noteq> APP_PAYMENT then Inl (ScriptErr ErrInvalidIndex)
      else bindR (asPayment (Payload msg)) (\<lambda>payment.
      if nat txIdx \<ge> length (Inputs payment) then Inl Panic
      else let scriptSig = SignatureScript (Inputs payment ! nat txIdx) in
      if length scriptSig = 0 \<and> length scriptPubKey = 0 then Inl (ScriptErr ErrEvalFalse)
      else let vm = newVM fl amount in
      if hasFlag vm ScriptVerifyCleanStack \<and> (\<not> hasFlag vm ScriptBip16 \<and> \<not> hasFlag vm ScriptVerifyWitness)
      then Inl (ScriptErr ErrInvalidFlags)
      else if hasFlag vm ScriptVerifySigPushOnly \<and> \<not> IsPushOnlyScript scriptSig then
        Inl (ScriptErr ErrNotPushOnly)
      else bindR (checkedParse scriptSig) (\<lambda>sigPops.
      bindR (checkedParse scriptPubKey) (\<lambda>pkPops.
      let vm = vm\<lparr>scripts := [sigPops, pkPops]\<rparr>;
          vm = (if length scriptSig = 0 then vm\<lparr>scriptIdx := scriptIdx vm + 1\<rparr> else vm)
      in if hasFlag vm ScriptBip16 \<and> isScriptHash pkPops \<and> \<not> isPushOnly sigPops then
        Inl (ScriptErr ErrNotPushOnly)
      else
      let vm = (if hasFlag vm ScriptBip16 \<and> isScriptHash pkPops then vm\<lparr>bip16 := True\<rparr> else vm);
          vm = (if hasFlag vm ScriptVerifyMinimalData
                then vm\<lparr>dstack := (dstack vm)\<lparr>verifyMinimalData := True\<rparr>,
                        astack := (astack vm)\<lparr>verifyMinimalData := True\<rparr>\<rparr> else vm)
      in if hasFlag vm ScriptVerifyWitness \<and> \<not> hasFlag vm ScriptBip16 then Inl (ScriptErr ErrInvalidFlags)
      else if hasFlag vm ScriptVerifyWitness \<and> isWitnessProgram pkPops \<and> length scriptSig \<noteq> 0 then
        Inl (ScriptErr ErrWitnessMalleated)
      else Inr (vm\<lparr>vtx := t, vtxIdx := nat txIdx, vmsgIdx := nat msgIdx\<rparr>)))))"

section \<open>Checks the code keeps but no longer calls\<close>

definition verifyWitnessProgram :: "prims \<Rightarrow> bytes list \<Rightarrow> Engine \<Rightarrow> unit eres" where
  "verifyWitnessProgram p witness vm =
     bindE
       (if isWitnessVersionActive vm 0 then
          let program = (case witnessProgram vm of None \<Rightarrow> [] | Some b \<Rightarrow> b) in
          if length program = 20 then
            (if length witness \<noteq> 2 then failE ErrWitnessProgramMismatch vm
             else case payToPubKeyHashScript program of
                 (_, Some e) \<Rightarrow> (Inl e, vm)
               | (pkScript, None) \<Rightarrow> (case parseScript pkScript of
                   (_, Some e) \<Rightarrow> (Inl e, vm)
                 | (pops, None) \<Rightarrow> (Inr (), SetStack witness (vm\<lparr>scripts := scripts vm @ [pops]\<rparr>))))
          else if length program = 32 then
            (if length witness = 0 then failE ErrWitnessProgramEmpty vm
             else
               let witnessScript = witness ! (length witness - 1) in
               if length witnessScript > MaxScriptSize then failE ErrScriptTooBig vm
               else if sha256 p witnessScript \<noteq> program then failE ErrWitnessProgramMismatch vm
               else case parseScript witnessScript of
                   (_, Some e) \<Rightarrow> (Inl e, vm)
                 | (pops, None) \<Rightarrow>
                     (Inr (), SetStack (take (length witness - 1) witness) (vm\<lparr>scripts := scripts vm @ [pops]\<rparr>)))
          else failE ErrWitnessProgramWrongLength vm
        else if hasFlag vm ScriptVerifyDiscourageUpgradeableWitnessProgram then
          failE ErrDiscourageUpgradableWitnessProgram vm
        else (Inr (), vm\<lparr>witnessProgram := None\<rparr>)) (\<lambda>_ vm.
     if isWitnessVersionActive vm 0 \<and> list_ex (\<lambda>e. length e > MaxScriptElementSize) (GetStack vm)
     then failE ErrElementTooBig vm else (Inr (), vm))"

definition checkHashTypeEncoding :: "Engine \<Rightarrow> 32 word \<Rightarrow> serr + unit" where
  "checkHashTypeEncoding vm hashType =
     (if \<not> hasFlag vm ScriptVerifyStrictEncoding then Inr ()
      else let ht = hashType AND NOT SigHashAnyOneCanPay in
      if ht < SigHashAll \<or> ht > SigHashSingle then Inl (ScriptErr ErrInvalidSigHashType) else Inr ())"

text \<open>\<open>isCompressed\<close> stands for \<^verbatim>\<open>btcec.IsCompressedPubKey\<close>.\<close>

definition checkPubKeyEncoding :: "(bytes \<Rightarrow> bool) \<Rightarrow> Engine \<Rightarrow> bytes \<Rightarrow> serr + unit" where
  "checkPubKeyEncoding isCompressed vm pubKey =
     (if hasFlag vm ScriptVerifyWitnessPubKeyType \<and> isWitnessVersionActive vm 0 \<and> \<not> isCompressed pubKey
      then Inl (ScriptErr ErrWitnessPubKeyType)
      else if \<not> hasFlag vm ScriptVerifyStrictEncoding then Inr ()
      else if length pubKey = 33 \<and> (pubKey ! 0 = 0x02 \<or> pubKey ! 0 = 0x03) then Inr ()
      else if length pubKey = 65 \<and> pubKey ! 0 = 0x04 then Inr ()
      else Inl (ScriptErr ErrPubKeyType))"

text \<open>Indexing that is checked at run time, and the DER checks; \<open>halfOrder\<close> is half the curve's order.\<close>

definition idx :: "bytes \<Rightarrow> nat \<Rightarrow> serr + byte" where
  "idx b i = (if i < length b then Inr (b ! i) else Inl Panic)"

definition checkSignatureEncoding :: "int \<Rightarrow> Engine \<Rightarrow> bytes \<Rightarrow> serr + unit" where
  "checkSignatureEncoding halfOrder vm sig =
     (let der = Inl (ScriptErr ErrSigDER) in
      if \<not> hasFlag vm ScriptVerifyDERSignatures \<and> \<not> hasFlag vm ScriptVerifyLowS \<and>
         \<not> hasFlag vm ScriptVerifyStrictEncoding then Inr ()
      else if length sig < 8 then der
      else if length sig > 72 then der
      else if sig ! 0 \<noteq> 0x30 then der
      else if int (unat (sig ! 1)) \<noteq> int (length sig) - 2 then der
      else
        let rLen = unat (sig ! 3) in
        if rLen + 5 > length sig then der
        else bindR (idx sig (rLen + 5)) (\<lambda>sl.
        let sLen = unat sl in
        if rLen + sLen + 6 \<noteq> length sig then der
        else if sig ! 2 \<noteq> 0x02 then der
        else if rLen = 0 then der
        else if sig ! 4 AND 0x80 \<noteq> 0 then der
        else if rLen > 1 \<and> sig ! 4 = 0 \<and> sig ! 5 AND 0x80 = 0 then der
        else bindR (idx sig (rLen + 4)) (\<lambda>m2.
        if m2 \<noteq> 0x02 then der
        else if sLen = 0 then der
        else bindR (idx sig (rLen + 6)) (\<lambda>s0.
        if s0 AND 0x80 \<noteq> 0 then der
        else bindR (if sLen > 1 \<and> s0 = 0 then bindR (idx sig (rLen + 7)) (\<lambda>s1. Inr (s1 AND 0x80 = 0)) else Inr False)
          (\<lambda>bad.
        if bad then der
        else if hasFlag vm ScriptVerifyLowS \<and> beInt (take sLen (drop (rLen + 6) sig)) > halfOrder
        then Inl (ScriptErr ErrSigHighS)
        else Inr ())))))"

end
