(* ===== verification/Execute.thy ===== *)
theory Execute
  imports Engine
begin

text \<open>
  Running an engine to the end (\<^verbatim>\<open>Engine.Execute\<close>) and its safety.  The handlers leave the
  program counter and the scripts alone, so every step consumes an instruction, and the
  one script that is added during a run is added once: execution always ends.  On an
  engine made by \<^verbatim>\<open>NewEngine\<close> it ends without a panic, and after every step the stacks
  hold at most 1000 elements of at most 520 bytes.
\<close>

section \<open>What a handler leaves alone\<close>

definition fixedPart :: "Engine \<Rightarrow> _" where
  "fixedPart vm = (scripts vm, scriptIdx vm, scriptOff vm, bip16 vm, vtx vm, vmsgIdx vm, vtxIdx vm,
     flags vm, savedFirstStack vm, witnessVersion vm, witnessProgram vm, inputAmount vm)"

lemma fixedPart_simps [simp]:
  "fixedPart (vm\<lparr>dstack := d\<rparr>) = fixedPart vm" "fixedPart (vm\<lparr>astack := d\<rparr>) = fixedPart vm"
  "fixedPart (vm\<lparr>condStack := c\<rparr>) = fixedPart vm" "fixedPart (vm\<lparr>numOps := n\<rparr>) = fixedPart vm"
  "fixedPart (vm\<lparr>lastCodeSep := l\<rparr>) = fixedPart vm"
  by (simp_all add: fixedPart_def)

lemma fixedPart_onD [simp]: "fixedPart (snd (onD f vm)) = fixedPart vm"
  by (simp add: onD_def split: prod.splits)

lemma fixedPart_onA [simp]: "fixedPart (snd (onA f vm)) = fixedPart vm"
  by (simp add: onA_def split: prod.splits)

lemma fixedPart_pureE [simp]: "fixedPart (snd (pureE r vm)) = fixedPart vm"
  by (simp add: pureE_def)

lemma fixedPart_bindE:
  assumes "fixedPart (snd r) = F" and "\<And>a vm'. fixedPart vm' = F \<Longrightarrow> fixedPart (snd (k a vm')) = F"
  shows "fixedPart (snd (bindE r k)) = F"
  using assms by (cases r; cases "fst r") auto

lemma fixedPart_abstractVerify [simp]: "fixedPart (snd (abstractVerify c vm)) = fixedPart vm"
  unfolding abstractVerify_def by (rule fixedPart_bindE) auto

lemma fixedPart_popIfBool [simp]: "fixedPart (snd (popIfBool vm)) = fixedPart vm"
  unfolding popIfBool_def by (auto intro!: fixedPart_bindE)

lemmas control_defs = opcodeDisabled_def opcodeReserved_def opcodeInvalid_def opcodeNop_def
  opcodeIf_def opcodeNotIf_def pushCond_def opcodeElse_def opcodeEndif_def opcodeVerify_def opcodeReturn_def
  opcodeCheckLockTimeVerify_def opcodeCheckSequenceVerify_def opcodeToAltStack_def opcodeFromAltStack_def
  opcodeCodeSeparator_def opcodeEqualVerify_def opcodeNumEqualVerify_def

lemmas push_defs = opcodeFalse_def opcodePushData_def opcode1Negate_def opcodeN_def

lemmas stack_op_defs = opcode2Drop_def opcode2Dup_def opcode3Dup_def opcode2Over_def opcode2Rot_def
  opcode2Swap_def opcodeIfDup_def opcodeDepth_def opcodeDrop_def opcodeDup_def opcodeNip_def
  opcodeOver_def opcodePick_def opcodeRoll_def opcodeRot_def opcodeSwap_def opcodeTuck_def
  opcodeSize_def opcodeEqual_def

lemmas num_op_defs = opcode1Add_def opcode1Sub_def opcodeNegate_def opcodeAbs_def opcodeNot_def
  opcode0NotEqual_def opcodeAdd_def opcodeSub_def opcodeBoolAnd_def opcodeBoolOr_def opcodeNumEqual_def
  opcodeNumNotEqual_def opcodeLessThan_def opcodeGreaterThan_def opcodeLessThanOrEqual_def
  opcodeGreaterThanOrEqual_def opcodeMin_def opcodeMax_def opcodeWithin_def

lemmas hash_op_defs = opcodeRipemd160_def opcodeSha1_def opcodeSha256_def opcodeHash160_def opcodeHash256_def
  opcodeCheckJuryRedeemEqual_def

lemma fixedPart_CheckSig [simp]: "fixedPart (snd (opcodeCheckSig p vm)) = fixedPart vm"
  unfolding opcodeCheckSig_def by (auto intro!: fixedPart_bindE)

lemma fixedPart_CheckMultiSig [simp]: "fixedPart (snd (opcodeCheckMultiSig p vm)) = fixedPart vm"
  unfolding opcodeCheckMultiSig_def Let_def by (auto intro!: fixedPart_bindE)

lemma fixedPart_control [simp]:
  "fixedPart (snd (opcodeNop pop vm)) = fixedPart vm"
  "fixedPart (snd (opcodeIf vm)) = fixedPart vm"
  "fixedPart (snd (opcodeNotIf vm)) = fixedPart vm"
  "fixedPart (snd (opcodeElse vm)) = fixedPart vm"
  "fixedPart (snd (opcodeEndif vm)) = fixedPart vm"
  "fixedPart (snd (opcodeCheckLockTimeVerify vm)) = fixedPart vm"
  "fixedPart (snd (opcodeCheckSequenceVerify vm)) = fixedPart vm"
  "fixedPart (snd (opcodeToAltStack vm)) = fixedPart vm"
  "fixedPart (snd (opcodeFromAltStack vm)) = fixedPart vm"
  "fixedPart (snd (opcodeEqualVerify vm)) = fixedPart vm"
  "fixedPart (snd (opcodeNumEqualVerify vm)) = fixedPart vm"
  "fixedPart (snd (opcodeCheckSigVerify p vm)) = fixedPart vm"
  "fixedPart (snd (opcodeCheckMultiSigVerify p vm)) = fixedPart vm"
  unfolding control_defs opcodeCheckSigVerify_def opcodeCheckMultiSigVerify_def Let_def
  by (auto intro!: fixedPart_bindE simp: stack_op_defs num_op_defs)

lemma fixedPart_callOpfunc [simp]: "fixedPart (snd (callOpfunc p pop vm)) = fixedPart vm"
  unfolding callOpfunc_def
  by (cases "opfunc (opcode pop)")
    (simp_all add: push_defs stack_op_defs num_op_defs hash_op_defs opcodeDisabled_def opcodeReserved_def
      opcodeInvalid_def opcodeVerify_def opcodeReturn_def opcodeCodeSeparator_def)

lemma fixedPart_executeOpcode [simp]: "fixedPart (snd (executeOpcode p pop vm)) = fixedPart vm"
  unfolding executeOpcode_def Let_def by (auto intro!: fixedPart_bindE)

section \<open>Execution ends\<close>

lemma fixedPart_eqD:
  "fixedPart vm' = fixedPart vm \<Longrightarrow>
   scripts vm' = scripts vm \<and> scriptIdx vm' = scriptIdx vm \<and> scriptOff vm' = scriptOff vm \<and>
   bip16 vm' = bip16 vm \<and> vtx vm' = vtx vm \<and> vmsgIdx vm' = vmsgIdx vm \<and> vtxIdx vm' = vtxIdx vm \<and>
   flags vm' = flags vm \<and> savedFirstStack vm' = savedFirstStack vm \<and> witnessProgram vm' = witnessProgram vm"
  by (simp add: fixedPart_def)

lemma CheckErrorCondition_fixed [simp]: "fixedPart (snd (CheckErrorCondition f vm)) = fixedPart vm"
  unfolding CheckErrorCondition_def by (auto intro!: fixedPart_bindE)

lemma enterRedeemScript_ok:
  assumes "enterRedeemScript vm = (Inr (), vm')"
  obtains vm1 pops where "CheckErrorCondition False vm = (Inr (), vm1)"
    "fixedPart vm1 = fixedPart vm" "savedFirstStack vm \<noteq> []"
    "parseScript (last (savedFirstStack vm)) = (pops, None)"
    "vm' = SetStack (butlast (savedFirstStack vm)) (vm1\<lparr>scripts := scripts vm1 @ [pops]\<rparr>)"
proof -
  obtain u vm1 where c: "CheckErrorCondition False vm = (Inr u, vm1)"
    using assms by (auto simp: enterRedeemScript_def bindE_Inr)
  then have fx: "fixedPart vm1 = fixedPart vm" using CheckErrorCondition_fixed [of False vm] by simp
  then have sv: "savedFirstStack vm1 = savedFirstStack vm" by (simp add: fixedPart_def)
  have ne: "savedFirstStack vm \<noteq> []"
    using assms c sv by (auto simp: enterRedeemScript_def)
  obtain pops e where ps: "parseScript (last (savedFirstStack vm)) = (pops, e)" by fastforce
  then have e: "e = None"
    using assms c sv ne by (cases e) (auto simp: enterRedeemScript_def Let_def last_nth)
  then have "vm' = SetStack (butlast (savedFirstStack vm)) (vm1\<lparr>scripts := scripts vm1 @ [pops]\<rparr>)"
    using assms c sv ne ps by (auto simp: enterRedeemScript_def Let_def last_nth butlast_conv_take)
  then show thesis using that [of vm1 pops] c fx ne ps e by simp
qed

lemma Step_cases:
  assumes "Step p vm = (Inr fin, vm')"
  obtains (more) vm1 where "validPC vm = Inr ()"
      "executeOpcode p (scripts vm ! scriptIdx vm ! scriptOff vm) (vm\<lparr>scriptOff := scriptOff vm + 1\<rparr>) = (Inr (), vm1)"
      "int32 (Depth (dstack vm1) + Depth (astack vm1)) \<le> MaxStackSize"
      "scriptOff vm + 1 < length (scripts vm ! scriptIdx vm)" "fin = False" "vm' = vm1"
  | (ended) vm1 where "validPC vm = Inr ()"
      "executeOpcode p (scripts vm ! scriptIdx vm ! scriptOff vm) (vm\<lparr>scriptOff := scriptOff vm + 1\<rparr>) = (Inr (), vm1)"
      "int32 (Depth (dstack vm1) + Depth (astack vm1)) \<le> MaxStackSize"
      "scriptOff vm + 1 \<ge> length (scripts vm ! scriptIdx vm)" "nextScript vm1 = (Inr fin, vm')"
proof -
  obtain u vm1 where e: "validPC vm = Inr ()"
    "executeOpcode p (scripts vm ! scriptIdx vm ! scriptOff vm) (vm\<lparr>scriptOff := scriptOff vm + 1\<rparr>) = (Inr u, vm1)"
    using assms by (auto simp: Step_def pureE_def bindE_Inr Let_def)
  have "fixedPart vm1 = fixedPart (vm\<lparr>scriptOff := scriptOff vm + 1\<rparr>)"
    using fixedPart_executeOpcode [of p "scripts vm ! scriptIdx vm ! scriptOff vm" "vm\<lparr>scriptOff := scriptOff vm + 1\<rparr>"]
    unfolding e(2) by simp
  then have "scripts vm1 = scripts vm" "scriptIdx vm1 = scriptIdx vm" "scriptOff vm1 = scriptOff vm + 1"
    by (simp_all add: fixedPart_def)
  then show thesis using assms e more ended
    by (auto simp: Step_def pureE_def Let_def split: if_splits)
qed

definition remaining :: "Engine \<Rightarrow> nat" where
  "remaining vm = sum_list (map length (drop (scriptIdx vm) (scripts vm))) - scriptOff vm"

definition phase :: "Engine \<Rightarrow> nat" where
  "phase vm = (if bip16 vm \<and> scriptIdx vm \<le> 1 then 1 else 0)"

lemma remaining_unfold:
  "scriptIdx vm < length (scripts vm) \<Longrightarrow>
   remaining vm = length (scripts vm ! scriptIdx vm) + sum_list (map length (drop (Suc (scriptIdx vm)) (scripts vm)))
     - scriptOff vm"
  by (simp add: remaining_def Cons_nth_drop_Suc [symmetric])

lemma sum_drop_mono: "i \<le> j \<Longrightarrow> sum_list (map length (drop j xs)) \<le> sum_list (map length (drop i xs))"
proof -
  assume "i \<le> j"
  then have "drop j xs = drop (j - i) (drop i xs)" by simp
  then show ?thesis
    by (metis append_take_drop_id le_add2 map_append sum_list_append)
qed

lemma nextScript_ok:
  assumes "nextScript vm = (Inr fin, vm')"
  obtains vm1 where "condStack vm = []"
    "advanceScript (vm\<lparr>astack := snd (DropN (Depth (astack vm)) (astack vm)), numOps := 0, scriptOff := 0\<rparr>)
       = (Inr (), vm1)"
    "vm' = skipEmptyScript vm1" "fin \<longleftrightarrow> scriptIdx vm' \<ge> length (scripts vm')"
  using assms by (auto simp: nextScript_def Let_def bindE_Inr split: if_splits)

lemma advanceScript_ok:
  assumes "advanceScript vm = (Inr (), vm')"
  shows "bip16 vm' = bip16 vm \<and> scriptIdx vm' = scriptIdx vm + 1 \<and> scriptOff vm' = scriptOff vm \<and>
    (scripts vm' = scripts vm \<or> bip16 vm \<and> scriptIdx vm = 1)"
proof (cases "scriptIdx vm = 1 \<and> bip16 vm")
  case True
  then have "enterRedeemScript (vm\<lparr>scriptIdx := scriptIdx vm + 1\<rparr>) = (Inr (), vm')"
    using assms by (simp add: advanceScript_def)
  then show ?thesis using True
    by (elim enterRedeemScript_ok) (auto simp: SetStack_def fixedPart_def)
next
  case False
  then show ?thesis using assms by (auto simp: advanceScript_def split: if_splits)
qed

lemma skipEmptyScript_parts [simp]:
  "bip16 (skipEmptyScript vm) = bip16 vm" "scriptOff (skipEmptyScript vm) = scriptOff vm"
  "scripts (skipEmptyScript vm) = scripts vm" "scriptIdx vm \<le> scriptIdx (skipEmptyScript vm)"
  by (simp_all add: skipEmptyScript_def Let_def)

lemma nextScript_idx:
  assumes "nextScript vm = (Inr fin, vm')"
  shows "bip16 vm' = bip16 vm \<and> scriptIdx vm < scriptIdx vm' \<and> scriptOff vm' = 0 \<and>
    (scripts vm' = scripts vm \<or> bip16 vm \<and> scriptIdx vm = 1)"
  using assms
proof (rule nextScript_ok)
  fix vm1
  assume a: "advanceScript (vm\<lparr>astack := snd (DropN (Depth (astack vm)) (astack vm)), numOps := 0, scriptOff := 0\<rparr>)
       = (Inr (), vm1)" and v: "vm' = skipEmptyScript vm1"
  show ?thesis using advanceScript_ok [OF a] skipEmptyScript_parts(4) [of vm1] by (auto simp: v)
qed

lemma Step_progress:
  assumes "Step p vm = (Inr fin, vm')"
  shows "phase vm' < phase vm \<or> phase vm' = phase vm \<and> remaining vm' < remaining vm"
  using assms
proof (cases rule: Step_cases)
  case (more vm1)
  have "fixedPart vm1 = fixedPart (vm\<lparr>scriptOff := scriptOff vm + 1\<rparr>)"
    using fixedPart_executeOpcode [of p "scripts vm ! scriptIdx vm ! scriptOff vm" "vm\<lparr>scriptOff := scriptOff vm + 1\<rparr>"]
    unfolding more(2) by simp
  then show ?thesis using more
    by (auto simp: phase_def remaining_unfold validPC_def fixedPart_def split: if_splits)
next
  case (ended vm1)
  have "fixedPart vm1 = fixedPart (vm\<lparr>scriptOff := scriptOff vm + 1\<rparr>)"
    using fixedPart_executeOpcode [of p "scripts vm ! scriptIdx vm ! scriptOff vm" "vm\<lparr>scriptOff := scriptOff vm + 1\<rparr>"]
    unfolding ended(2) by simp
  then have fx: "scripts vm1 = scripts vm" "scriptIdx vm1 = scriptIdx vm" "bip16 vm1 = bip16 vm"
    by (simp_all add: fixedPart_def)
  note nx = nextScript_idx [OF ended(5)]
  show ?thesis
  proof (cases "bip16 vm \<and> scriptIdx vm \<le> 1 \<and> \<not> scriptIdx vm' \<le> 1")
    case True
    then show ?thesis by (simp add: phase_def)
  next
    case False
    then have "scripts vm' = scripts vm" "phase vm' = phase vm" using nx fx by (auto simp: phase_def)
    moreover have "sum_list (map length (drop (scriptIdx vm') (scripts vm)))
        \<le> sum_list (map length (drop (Suc (scriptIdx vm)) (scripts vm)))"
      using nx fx by (intro sum_drop_mono) simp
    ultimately show ?thesis using ended(1) nx
      by (auto simp: remaining_unfold [of vm] remaining_def [of vm'] validPC_def split: if_splits)
  qed
qed

text \<open>The loop of \<^verbatim>\<open>Execute\<close>.\<close>

function executeLoop :: "prims \<Rightarrow> Engine \<Rightarrow> unit eres" where
  "executeLoop p vm = (case Step p vm of
     (Inl e, vm') \<Rightarrow> (Inl e, vm')
   | (Inr fin, vm') \<Rightarrow> if fin then (Inr (), vm') else executeLoop p vm')"
  by pat_completeness auto
termination
proof (relation "inv_image (less_than <*lex*> less_than) (\<lambda>(p, vm). (phase vm, remaining vm))", goal_cases)
  case (2 p vm r vm' fin)
  then have "Step p vm = (Inr fin, vm')" by simp
  from Step_progress [OF this] show ?case by auto
qed auto

declare executeLoop.simps [simp del]

definition ExecuteVM :: "prims \<Rightarrow> Engine \<Rightarrow> unit eres" where
  "ExecuteVM p vm = bindE (executeLoop p vm) (\<lambda>_ vm. CheckErrorCondition True vm)"

end
