(* ===== verification/Safety.thy ===== *)
theory Safety
  imports Execute
begin

text \<open>
  Safety of execution: a small program logic for stack and engine operations, the fact
  that no handler panics or pushes an oversized element, and the invariant of a run.
  \<open>sok N s\<close> bounds a stack by \<open>N\<close> elements of at most 520 bytes; \<open>safeS\<close> and \<open>safeE\<close> say
  that an operation's outcome is not a panic, keeps the bounds, and satisfies a
  postcondition when it succeeds.
\<close>

section \<open>Stacks\<close>

definition sok :: "nat \<Rightarrow> stack \<Rightarrow> bool" where
  "sok N s \<longleftrightarrow> length (stk s) \<le> N \<and> (\<forall>x \<in> set (stk s). length x \<le> MaxScriptElementSize)"

definition outcome :: "('a \<Rightarrow> bool) \<Rightarrow> serr + 'a \<Rightarrow> bool" where
  "outcome Q r = (case r of Inl e \<Rightarrow> e \<noteq> Panic | Inr a \<Rightarrow> Q a)"

definition safeS :: "nat \<Rightarrow> ('a \<Rightarrow> bool) \<Rightarrow> 'a sres \<Rightarrow> bool" where
  "safeS N Q r \<longleftrightarrow> sok N (snd r) \<and> outcome Q (fst r)"

lemma outcome_simps [simp]: "outcome Q (Inl e) \<longleftrightarrow> e \<noteq> Panic" "outcome Q (Inr a) \<longleftrightarrow> Q a"
  by (simp_all add: outcome_def)

lemma outcome_mono: "outcome Q r \<Longrightarrow> (\<And>a. Q a \<Longrightarrow> R a) \<Longrightarrow> outcome R r"
  by (cases r) auto

lemma safeS_bind:
  assumes "safeS M Q r" and "\<And>a s. Q a \<Longrightarrow> sok M s \<Longrightarrow> safeS N R (k a s)" and "M \<le> N"
  shows "safeS N R (bindE r k)"
  using assms by (cases r; cases "fst r") (auto simp: safeS_def sok_def)

lemma safeS_ret: "sok N s \<Longrightarrow> N \<le> M \<Longrightarrow> outcome Q r \<Longrightarrow> safeS M Q (r, s)"
  by (simp add: safeS_def sok_def)

lemma safeS_weaken: "safeS N Q r \<Longrightarrow> N \<le> M \<Longrightarrow> (\<And>a. Q a \<Longrightarrow> R a) \<Longrightarrow> safeS M R r"
  by (cases "fst r") (auto simp: safeS_def sok_def)

text \<open>The bound on elements follows from the fact that no operation invents data.\<close>

lemma safeS_within:
  assumes "sok N s" and "within (\<lambda>x. length x \<le> MaxScriptElementSize) s r"
    and "length (stk (snd r)) \<le> M" and "outcome Q (fst r)"
  shows "safeS M Q r"
  using assms by (auto simp: safeS_def sok_def within_def)

lemma nipN_len: "nipN i s = (Inr x, s') \<Longrightarrow> length (stk s') < length (stk s)"
  using int32_le [of "length (stk s)"] by (auto simp: nipN_def Let_def split: if_splits)

lemma nipN_err_len: "nipN i s = (Inl e, s') \<Longrightarrow> s' = s \<and> e = stackErr"
  by (auto simp: nipN_def Let_def split: if_splits)

lemma safeS_nipN: "sok N s \<Longrightarrow> safeS N (\<lambda>x. length x \<le> MaxScriptElementSize) (nipN i s)"
  using nipN_within [of "\<lambda>x. length x \<le> MaxScriptElementSize" s i]
proof (cases "nipN i s")
  case (Pair r s')
  assume "sok N s" and "within (\<lambda>x. length x \<le> MaxScriptElementSize) s (nipN i s)"
  then show ?thesis using Pair nipN_len [of i s] nipN_err_len [of i s] nip_mem [of i s]
    by (cases r) (fastforce intro!: safeS_within simp: sok_def)+
qed

lemma safeS_Pop: "sok N s \<Longrightarrow> safeS N (\<lambda>x. length x \<le> MaxScriptElementSize) (PopByteArray s)"
  unfolding PopByteArray_def by (rule safeS_nipN)

lemma makeScriptNum_outcome:
  "L \<le> 7 \<Longrightarrow> 0 < L \<Longrightarrow> outcome (\<lambda>n. \<bar>n\<bar> < 2 ^ (8 * L - 1)) (makeScriptNum v rm L)"
proof -
  assume L: "L \<le> 7" "0 < L"
  have "\<bar>snum v\<bar> < 2 ^ (8 * L - 1)" if "length v \<le> L"
  proof (cases "v = []")
    case False
    have "(2 :: int) ^ (8 * length v - 1) \<le> 2 ^ (8 * L - 1)" using that by (intro power_increasing) auto
    then show ?thesis using snum_range [OF False] by linarith
  qed simp
  then show ?thesis using L by (simp add: makeScriptNum_eq)
qed

lemma safeS_PopInt: "sok N s \<Longrightarrow> safeS N (\<lambda>n. \<bar>n\<bar> < 2 ^ 31) (PopInt s)"
  unfolding PopInt_def
  by (rule safeS_bind [OF safeS_Pop], assumption, rule safeS_ret, assumption)
    (use makeScriptNum_outcome [of 4] in \<open>simp_all add: defaultScriptNumLen_def\<close>)

lemma safeS_PopBool: "sok N s \<Longrightarrow> safeS N (\<lambda>_. True) (PopBool s)"
  unfolding PopBool_def by (rule safeS_bind [OF safeS_Pop], assumption, rule safeS_ret) auto

lemma safeS_Peek: "sok N s \<Longrightarrow> safeS N (\<lambda>x. length x \<le> MaxScriptElementSize) (PeekByteArray i s)"
proof (cases "PeekByteArray i s")
  case (Pair r s')
  assume "sok N s"
  then show ?thesis using Pair peek_mem [of i s]
    by (cases r) (auto simp: safeS_def sok_def PeekByteArray_def Let_def split: if_splits)
qed

lemma safeS_peekNum5: "sok N s \<Longrightarrow> safeS N (\<lambda>_. True) (peekNum5 s)"
  unfolding peekNum5_def
  by (rule safeS_bind [OF safeS_Peek], assumption, rule safeS_ret, assumption)
    (auto intro: outcome_mono [OF makeScriptNum_outcome])

lemma safeS_Push:
  "sok N s \<Longrightarrow> length x \<le> MaxScriptElementSize \<Longrightarrow> Suc N \<le> M \<Longrightarrow> safeS M (\<lambda>_. True) (PushByteArray x s)"
  by (auto simp: safeS_def sok_def)

lemma safeS_PushBool: "sok N s \<Longrightarrow> Suc N \<le> M \<Longrightarrow> safeS M (\<lambda>_. True) (PushBool b s)"
  unfolding PushBool_def by (rule safeS_Push) (auto simp: fromBool_def MaxScriptElementSize_def)

lemma safeS_PushInt:
  assumes "sok N s" and "\<bar>n\<bar> < 2 ^ 63" and "Suc N \<le> M"
  shows "safeS M (\<lambda>_. True) (PushInt n s)"
proof -
  have "- (2 ^ 63) < n" "n < 2 ^ 63" using assms(2) by linarith+
  then obtain v where v: "Bytes n = Inr v" by (rule snum_Bytes)
  then have "length v \<le> 8" using assms(2) by (intro Bytes_length(1)) auto
  then show ?thesis using v assms(1,3) safeS_Push [of N s v M]
    by (simp add: PushInt_def MaxScriptElementSize_def)
qed

lemma dropLoop_facts:
  "length (stk (snd (dropLoop n s))) \<le> length (stk s) \<and> outcome (\<lambda>_. True) (fst (dropLoop n s))"
proof (induction n arbitrary: s)
  case (Suc n)
  show ?case
  proof (cases "PopByteArray s")
    case (Pair r s')
    then show ?thesis using Suc [of s'] nipN_len [of 0 s] nipN_err_len [of 0 s]
      by (cases r) (fastforce simp: PopByteArray_def)+
  qed
qed simp

lemma peekLoop_facts:
  "length (stk (snd (peekLoop e n s))) \<le> length (stk s) + n \<and> outcome (\<lambda>_. True) (fst (peekLoop e n s))"
proof (induction n arbitrary: s)
  case (Suc n)
  show ?case using Suc [of "s\<lparr>stk := stk s @ [x]\<rparr>" for x]
    by (auto simp: PeekByteArray_def Let_def)
qed simp

lemma nipLoop_facts:
  "length (stk (snd (nipLoop e n s))) \<le> length (stk s) \<and> outcome (\<lambda>_. True) (fst (nipLoop e n s))"
proof (induction n arbitrary: s)
  case (Suc n)
  show ?case
  proof (cases "nipN e s")
    case (Pair r s')
    show ?thesis
    proof (cases r)
      case (Inl err)
      then show ?thesis using Pair nipN_err_len [of e s err s'] by simp
    next
      case (Inr x)
      then show ?thesis using Pair nipN_len [of e s x s'] Suc [of "s'\<lparr>stk := stk s' @ [x]\<rparr>"] by auto
    qed
  qed
qed simp

lemma safeS_loops:
  assumes "sok N s"
  shows "safeS N (\<lambda>_. True) (DropN n s)" "N + nat n \<le> M \<Longrightarrow> safeS M (\<lambda>_. True) (DupN n s)"
    "safeS N (\<lambda>_. True) (RotN n s)" "safeS N (\<lambda>_. True) (SwapN n s)"
    "N + nat n \<le> M \<Longrightarrow> safeS M (\<lambda>_. True) (OverN n s)"
proof -
  have len: "length (stk s) \<le> N" using assms by (simp add: sok_def)
  show "safeS N (\<lambda>_. True) (DropN n s)"
    by (rule safeS_within [OF assms stack_loops_within(1)])
      (use dropLoop_facts [of "nat n" s] len in \<open>auto simp: DropN_def\<close>)
  show "N + nat n \<le> M \<Longrightarrow> safeS M (\<lambda>_. True) (DupN n s)"
    by (rule safeS_within [OF assms stack_loops_within(2)])
      (use peekLoop_facts [of "int32 (n - 1)" "nat n" s] len in \<open>auto simp: DupN_def\<close>)
  show "safeS N (\<lambda>_. True) (RotN n s)"
    by (rule safeS_within [OF assms stack_loops_within(3)])
      (use nipLoop_facts [of "int32 (3 * n - 1)" "nat n" s] len in \<open>auto simp: RotN_def\<close>)
  show "safeS N (\<lambda>_. True) (SwapN n s)"
    by (rule safeS_within [OF assms stack_loops_within(4)])
      (use nipLoop_facts [of "int32 (2 * n - 1)" "nat n" s] len in \<open>auto simp: SwapN_def\<close>)
  show "N + nat n \<le> M \<Longrightarrow> safeS M (\<lambda>_. True) (OverN n s)"
    by (rule safeS_within [OF assms stack_loops_within(5)])
      (use peekLoop_facts [of "int32 (2 * n - 1)" "nat n" s] len in \<open>auto simp: OverN_def\<close>)
qed

lemma safeS_NipN: "sok N s \<Longrightarrow> safeS N (\<lambda>_. True) (NipN n s)"
  unfolding NipN_def by (rule safeS_bind [OF safeS_nipN], assumption, rule safeS_ret) auto

lemma safeS_PickN: "sok N s \<Longrightarrow> Suc N \<le> M \<Longrightarrow> safeS M (\<lambda>_. True) (PickN n s)"
  unfolding PickN_def by (rule safeS_bind [OF safeS_Peek], assumption, rule safeS_Push) auto

lemma safeS_RollN: "sok N s \<Longrightarrow> Suc N \<le> M \<Longrightarrow> safeS M (\<lambda>_. True) (RollN n s)"
  unfolding RollN_def by (rule safeS_bind [OF safeS_nipN], assumption, rule safeS_Push) auto

lemma safeS_Tuck: "sok N s \<Longrightarrow> Suc (Suc (Suc N)) \<le> M \<Longrightarrow> safeS M (\<lambda>_. True) (Tuck s)"
  unfolding Tuck_def
  by (rule safeS_bind [OF safeS_Pop], assumption, rule safeS_bind [OF safeS_Pop], assumption,
      rule safeS_bind [OF safeS_Push], assumption, assumption, rule order_refl,
      rule safeS_bind [OF safeS_Push], assumption, assumption, rule order_refl,
      rule safeS_Push) auto

lemma safeS_popMany:
  "sok N s \<Longrightarrow> safeS N (\<lambda>xs. length xs = n) (popMany n s)"
proof (induction n arbitrary: s)
  case (Suc n)
  show ?case unfolding popMany.simps
    by (rule safeS_bind [OF safeS_Pop [OF Suc.prems]], rule safeS_bind [OF Suc.IH], assumption, rule safeS_ret)
      auto
qed (simp add: safeS_def)

section \<open>Engines\<close>

definition static :: "prims \<Rightarrow> Engine \<Rightarrow> bool" where
  "static p vm \<longleftrightarrow> list_all (list_all wf_pop) (scripts vm) \<and> (\<exists>pay. enginePayment vm = Inr pay) \<and>
     (\<forall>scr. calcSignatureHash p scr SigHashAll (vtx vm) (int (vmsgIdx vm)) (int (vtxIdx vm)) \<noteq> Inl Panic)"

definition pcok :: "Engine \<Rightarrow> bool" where
  "pcok vm \<longleftrightarrow> scriptIdx vm < length (scripts vm) \<and> lastCodeSep vm \<le> scriptOff vm \<and>
     scriptOff vm \<le> length (scripts vm ! scriptIdx vm)"

definition vm_ok :: "nat \<Rightarrow> prims \<Rightarrow> Engine \<Rightarrow> bool" where
  "vm_ok N p vm \<longleftrightarrow> sok N (dstack vm) \<and> sok N (astack vm) \<and> static p vm \<and> pcok vm"

definition safeE :: "nat \<Rightarrow> prims \<Rightarrow> ('a \<Rightarrow> bool) \<Rightarrow> 'a eres \<Rightarrow> bool" where
  "safeE N p Q r \<longleftrightarrow> vm_ok N p (snd r) \<and> outcome Q (fst r)"

lemma sok_mono: "sok N s \<Longrightarrow> N \<le> M \<Longrightarrow> sok M s"
  by (simp add: sok_def)

lemma vm_ok_mono: "vm_ok N p vm \<Longrightarrow> N \<le> M \<Longrightarrow> vm_ok M p vm"
  by (auto simp: vm_ok_def intro: sok_mono)

lemma safeE_bind:
  assumes "safeE M p Q r" and "\<And>a vm. Q a \<Longrightarrow> vm_ok M p vm \<Longrightarrow> safeE N p R (k a vm)" and "M \<le> N"
  shows "safeE N p R (bindE r k)"
  using assms by (cases r; cases "fst r") (auto simp: safeE_def intro: vm_ok_mono)

lemma safeE_ret: "vm_ok N p vm \<Longrightarrow> N \<le> M \<Longrightarrow> outcome Q r \<Longrightarrow> safeE M p Q (r, vm)"
  by (auto simp: safeE_def intro: vm_ok_mono)

lemma safeE_pure: "vm_ok N p vm \<Longrightarrow> N \<le> M \<Longrightarrow> outcome Q r \<Longrightarrow> safeE M p Q (pureE r vm)"
  by (simp add: pureE_def safeE_ret)

lemma static_cong: "fixedPart vm' = fixedPart vm \<Longrightarrow> static p vm' \<longleftrightarrow> static p vm"
  by (simp add: static_def enginePayment_def fixedPart_def)

lemma static_simps [simp]:
  "static p (vm\<lparr>dstack := d\<rparr>) = static p vm" "static p (vm\<lparr>astack := d\<rparr>) = static p vm"
  "static p (vm\<lparr>condStack := c\<rparr>) = static p vm" "static p (vm\<lparr>numOps := n\<rparr>) = static p vm"
  "static p (vm\<lparr>lastCodeSep := l\<rparr>) = static p vm" "static p (vm\<lparr>scriptOff := o'\<rparr>) = static p vm"
  "static p (vm\<lparr>scriptIdx := i\<rparr>) = static p vm" "static p (vm\<lparr>savedFirstStack := fs\<rparr>) = static p vm"
  by (simp_all add: static_def enginePayment_def)

lemma vm_ok_upd [simp]:
  "vm_ok N p (vm\<lparr>condStack := c\<rparr>) = vm_ok N p vm" "vm_ok N p (vm\<lparr>numOps := n\<rparr>) = vm_ok N p vm"
  by (simp_all add: vm_ok_def pcok_def)

lemma safeE_onD:
  assumes "vm_ok N p vm" and "N \<le> M" and "\<And>s. sok N s \<Longrightarrow> safeS M Q (f s)"
  shows "safeE M p Q (onD f vm)"
  using assms(1,2) assms(3) [of "dstack vm"]
  by (cases "f (dstack vm)") (auto simp: safeE_def safeS_def onD_def vm_ok_def pcok_def intro: sok_mono)

lemma safeE_onA:
  assumes "vm_ok N p vm" and "N \<le> M" and "\<And>s. sok N s \<Longrightarrow> safeS M Q (f s)"
  shows "safeE M p Q (onA f vm)"
  using assms(1,2) assms(3) [of "astack vm"]
  by (cases "f (astack vm)") (auto simp: safeE_def safeS_def onA_def vm_ok_def pcok_def intro: sok_mono)

end
