(* ===== verification/Handlers.thy ===== *)
theory Handlers
  imports Safety
begin

text \<open>No opcode handler panics, and each adds at most three elements to a stack.\<close>

section \<open>Sequencing rules\<close>

lemma bind_Pop:
  "sok N s \<Longrightarrow> N \<le> M \<Longrightarrow> (\<And>x s. length x \<le> MaxScriptElementSize \<Longrightarrow> sok N s \<Longrightarrow> safeS M R (k x s)) \<Longrightarrow>
   safeS M R (bindE (PopByteArray s) k)"
  by (rule safeS_bind [OF safeS_Pop])

lemma bind_PopInt:
  "sok N s \<Longrightarrow> N \<le> M \<Longrightarrow> (\<And>n s. \<bar>n\<bar> < 2 ^ 31 \<Longrightarrow> sok N s \<Longrightarrow> safeS M R (k n s)) \<Longrightarrow>
   safeS M R (bindE (PopInt s) k)"
  by (rule safeS_bind [OF safeS_PopInt])

lemma bind_Peek:
  "sok N s \<Longrightarrow> N \<le> M \<Longrightarrow> (\<And>x s. length x \<le> MaxScriptElementSize \<Longrightarrow> sok N s \<Longrightarrow> safeS M R (k x s)) \<Longrightarrow>
   safeS M R (bindE (PeekByteArray i s) k)"
  by (rule safeS_bind [OF safeS_Peek])

lemma PushInt64:
  "sok N s \<Longrightarrow> \<bar>n\<bar> < 2 ^ 63 \<Longrightarrow> Suc N \<le> M \<Longrightarrow> safeS M (\<lambda>_. True) (PushInt (int64 n) s)"
  using int64_id [of n] by (intro safeS_PushInt) (auto simp: abs_less_iff)

section \<open>Numbers\<close>

lemma safe_num_ops:
  assumes "vm_ok N p vm"
  shows "safeE (N + 3) p (\<lambda>_. True) (opcode1Add vm)"
    and "safeE (N + 3) p (\<lambda>_. True) (opcode1Sub vm)"
    and "safeE (N + 3) p (\<lambda>_. True) (opcodeNegate vm)"
    and "safeE (N + 3) p (\<lambda>_. True) (opcodeNot vm)"
    and "safeE (N + 3) p (\<lambda>_. True) (opcode0NotEqual vm)"
    and "safeE (N + 3) p (\<lambda>_. True) (opcodeAdd vm)"
    and "safeE (N + 3) p (\<lambda>_. True) (opcodeSub vm)"
    and "safeE (N + 3) p (\<lambda>_. True) (opcodeBoolAnd vm)"
    and "safeE (N + 3) p (\<lambda>_. True) (opcodeBoolOr vm)"
    and "safeE (N + 3) p (\<lambda>_. True) (opcodeNumEqual vm)"
    and "safeE (N + 3) p (\<lambda>_. True) (opcodeNumNotEqual vm)"
    and "safeE (N + 3) p (\<lambda>_. True) (opcodeLessThan vm)"
    and "safeE (N + 3) p (\<lambda>_. True) (opcodeGreaterThan vm)"
    and "safeE (N + 3) p (\<lambda>_. True) (opcodeLessThanOrEqual vm)"
    and "safeE (N + 3) p (\<lambda>_. True) (opcodeGreaterThanOrEqual vm)"
    and "safeE (N + 3) p (\<lambda>_. True) (opcodeMin vm)"
    and "safeE (N + 3) p (\<lambda>_. True) (opcodeMax vm)"
    and "safeE (N + 3) p (\<lambda>_. True) (opcodeWithin vm)"
  unfolding num_op_defs
  by (rule safeE_onD [OF assms], simp, (rule bind_PopInt, assumption, simp)+,
      (rule PushInt64 | rule safeS_PushInt), assumption, (linarith | simp), simp)+

lemma safe_Abs: "vm_ok N p vm \<Longrightarrow> safeE (N + 3) p (\<lambda>_. True) (opcodeAbs vm)"
  unfolding opcodeAbs_def
proof (rule safeE_onD, assumption, simp, rule bind_PopInt, assumption, simp)
  fix m :: int and s
  assume "\<bar>m\<bar> < 2 ^ 31" "sok N s"
  moreover from this have "\<bar>if m < 0 then int64 (- m) else m\<bar> < 2 ^ 63" by (auto simp: int64_id)
  ultimately show "safeS (N + 3) (\<lambda>_. True) (PushInt (if m < 0 then int64 (- m) else m) s)"
    by (intro safeS_PushInt) auto
qed

section \<open>Stack manipulation and hashes\<close>

lemma safe_pushes:
  assumes "vm_ok N p vm"
  shows "safeE (N + 3) p (\<lambda>_. True) (opcodeFalse vm)"
    and "length (dataBytes pop) \<le> MaxScriptElementSize \<Longrightarrow> safeE (N + 3) p (\<lambda>_. True) (opcodePushData pop vm)"
    and "safeE (N + 3) p (\<lambda>_. True) (opcode1Negate vm)"
    and "safeE (N + 3) p (\<lambda>_. True) (opcodeN pop vm)"
proof -
  show "safeE (N + 3) p (\<lambda>_. True) (opcodeFalse vm)"
    "length (dataBytes pop) \<le> MaxScriptElementSize \<Longrightarrow> safeE (N + 3) p (\<lambda>_. True) (opcodePushData pop vm)"
    unfolding push_defs by (rule safeE_onD [OF assms], simp, rule safeS_Push, assumption, simp, simp)+
  have b: "uint (b :: byte) < 2 ^ 63" for b using byte_range [of b] by simp
  show "safeE (N + 3) p (\<lambda>_. True) (opcode1Negate vm)" "safeE (N + 3) p (\<lambda>_. True) (opcodeN pop vm)"
    unfolding push_defs
    by (rule safeE_onD [OF assms], simp, rule safeS_PushInt, assumption, use b in simp, simp)+
qed

lemma safe_stack_ops:
  assumes "vm_ok N p vm"
  shows "safeE (N + 3) p (\<lambda>_. True) (opcode2Drop vm)"
    and "safeE (N + 3) p (\<lambda>_. True) (opcode2Dup vm)"
    and "safeE (N + 3) p (\<lambda>_. True) (opcode3Dup vm)"
    and "safeE (N + 3) p (\<lambda>_. True) (opcode2Over vm)"
    and "safeE (N + 3) p (\<lambda>_. True) (opcode2Rot vm)"
    and "safeE (N + 3) p (\<lambda>_. True) (opcode2Swap vm)"
    and "safeE (N + 3) p (\<lambda>_. True) (opcodeDrop vm)"
    and "safeE (N + 3) p (\<lambda>_. True) (opcodeDup vm)"
    and "safeE (N + 3) p (\<lambda>_. True) (opcodeNip vm)"
    and "safeE (N + 3) p (\<lambda>_. True) (opcodeOver vm)"
    and "safeE (N + 3) p (\<lambda>_. True) (opcodeRot vm)"
    and "safeE (N + 3) p (\<lambda>_. True) (opcodeSwap vm)"
    and "safeE (N + 3) p (\<lambda>_. True) (opcodeTuck vm)"
  unfolding stack_op_defs
  by (rule safeE_onD [OF assms], simp,
      (rule safeS_weaken [OF safeS_loops(1)] | rule safeS_loops(2) | rule safeS_weaken [OF safeS_loops(3)]
       | rule safeS_weaken [OF safeS_loops(4)] | rule safeS_loops(5) | rule safeS_weaken [OF safeS_NipN]
       | rule safeS_Tuck), assumption, simp, simp?)+

lemma safe_stack_ops2:
  assumes "vm_ok N p vm"
  shows "safeE (N + 3) p (\<lambda>_. True) (opcodePick vm)"
    and "safeE (N + 3) p (\<lambda>_. True) (opcodeRoll vm)"
    and "safeE (N + 3) p (\<lambda>_. True) (opcodeSize vm)"
    and "safeE (N + 3) p (\<lambda>_. True) (opcodeEqual vm)"
  unfolding stack_op_defs
     apply (rule safeE_onD [OF assms], simp, rule bind_PopInt, assumption, simp, rule safeS_PickN, assumption, simp)
    apply (rule safeE_onD [OF assms], simp, rule bind_PopInt, assumption, simp, rule safeS_RollN, assumption, simp)
   apply (rule safeE_onD [OF assms], simp, rule bind_Peek, assumption, simp, rule safeS_PushInt, assumption,
      simp add: MaxScriptElementSize_def, simp)
  by (rule safeE_onD [OF assms], simp, rule bind_Pop, assumption, simp, rule bind_Pop, assumption, simp,
      rule safeS_PushBool, assumption, simp)

lemma safe_IfDup: "vm_ok N p vm \<Longrightarrow> safeE (N + 3) p (\<lambda>_. True) (opcodeIfDup vm)"
  unfolding opcodeIfDup_def
  by (rule safeE_onD, assumption, simp, rule bind_Peek, assumption, simp)
    (auto simp del: PushByteArray_eq intro: safeS_Push safeS_ret)

lemma safe_Depth: "vm_ok N p vm \<Longrightarrow> safeE (N + 3) p (\<lambda>_. True) (opcodeDepth vm)"
  unfolding opcodeDepth_def
proof (rule safeE_onD, assumption, simp)
  fix s
  assume "sok N s"
  moreover have "\<bar>Depth s\<bar> < 2 ^ 63" using int32_range [of "int (length (stk s))"] unfolding Depth_def by simp linarith
  ultimately show "safeS (N + 3) (\<lambda>_. True) (PushInt (Depth s) s)" by (intro safeS_PushInt) auto
qed

lemma safe_hash_ops:
  assumes "vm_ok N p vm" and "hash_sizes p"
  shows "safeE (N + 3) p (\<lambda>_. True) (opcodeRipemd160 p vm)"
    and "safeE (N + 3) p (\<lambda>_. True) (opcodeSha1 p vm)"
    and "safeE (N + 3) p (\<lambda>_. True) (opcodeSha256 p vm)"
    and "safeE (N + 3) p (\<lambda>_. True) (opcodeHash160 p vm)"
    and "safeE (N + 3) p (\<lambda>_. True) (opcodeHash256 p vm)"
  unfolding hash_op_defs
  by (rule safeE_onD [OF assms(1)], simp, rule bind_Pop, assumption, simp, rule safeS_Push, assumption,
      use assms(2) in \<open>simp add: hash_sizes_def MaxScriptElementSize_def\<close>, simp)+

lemma safe_Jury: "vm_ok N p vm \<Longrightarrow> safeE (N + 3) p (\<lambda>_. True) (opcodeCheckJuryRedeemEqual vm)"
  unfolding opcodeCheckJuryRedeemEqual_def
  by (rule safeE_onD, assumption, simp, rule bind_Pop, assumption, simp, rule bind_PopInt, assumption, simp,
      split if_split, intro conjI impI, rule safeS_ret, assumption, simp, simp,
      rule bind_Pop, assumption, simp, rule safeS_PushBool, assumption, simp)

section \<open>Control\<close>

lemma bindE_onD:
  assumes "vm_ok N p vm" and "\<And>s. sok N s \<Longrightarrow> safeS N Q (f s)" and "N \<le> M"
    and "\<And>a vm. Q a \<Longrightarrow> vm_ok N p vm \<Longrightarrow> safeE M p R (k a vm)"
  shows "safeE M p R (bindE (onD f vm) k)"
  by (rule safeE_bind [OF safeE_onD [OF assms(1) order_refl assms(2)] assms(4,3)])

lemma safe_abstractVerify:
  "vm_ok N p vm \<Longrightarrow> N \<le> M \<Longrightarrow> safeE M p (\<lambda>_. True) (abstractVerify c vm)"
  unfolding abstractVerify_def
  by (rule bindE_onD, assumption, rule safeS_PopBool, assumption, assumption) (auto intro: safeE_ret)

lemma safe_popIfBool: "vm_ok N p vm \<Longrightarrow> safeE N p (\<lambda>_. True) (popIfBool vm)"
proof -
  assume ok: "vm_ok N p vm"
  have "safeE N p (\<lambda>_. True) (onD PopBool vm)"
    by (rule safeE_onD [OF ok]) (auto intro: safeS_PopBool)
  moreover have "safeE N p (\<lambda>_. True) (bindE (onD PopByteArray vm) (\<lambda>so vm.
        if length so > 1 then failE ErrMinimalIf vm
        else if length so = 1 \<and> so ! 0 \<noteq> 1 then failE ErrMinimalIf vm
        else (Inr (asBool so), vm)))"
    by (rule bindE_onD [OF ok safeS_Pop]) (auto intro: safeE_ret)
  ultimately show ?thesis by (simp add: popIfBool_def)
qed

lemma safe_cond:
  assumes "vm_ok N p vm"
  shows "safeE (N + 3) p (\<lambda>_. True) (opcodeIf vm)"
    and "safeE (N + 3) p (\<lambda>_. True) (opcodeNotIf vm)"
    and "safeE (N + 3) p (\<lambda>_. True) (opcodeElse vm)"
    and "safeE (N + 3) p (\<lambda>_. True) (opcodeEndif vm)"
    and "safeE (N + 3) p (\<lambda>_. True) (opcodeNop pop vm)"
  using assms
  by (auto simp: opcodeIf_def opcodeNotIf_def opcodeElse_def opcodeEndif_def opcodeNop_def pushCond_def Let_def
      intro!: safeE_bind [OF safe_popIfBool] intro: safeE_ret)

lemma payment_outcome: "vm_ok N p vm \<Longrightarrow> outcome (\<lambda>_. True) (enginePayment vm)"
  by (auto simp: vm_ok_def static_def)

lemma safe_locktime:
  assumes "vm_ok N p vm"
  shows "safeE (N + 3) p (\<lambda>_. True) (opcodeCheckLockTimeVerify vm)"
    and "safeE (N + 3) p (\<lambda>_. True) (opcodeCheckSequenceVerify vm)"
proof -
  have "outcome (\<lambda>_. True) (verifyLockTime a b c)" for a b c by (simp add: verifyLockTime_def)
  then have "safeE (N + 3) p (\<lambda>_. True) (bindE (onD peekNum5 vm) (\<lambda>lockTime vm.
        if lockTime < 0 then failE ErrNegativeLockTime vm
        else bindE (pureE (enginePayment vm) vm) (\<lambda>payment vm.
          pureE (verifyLockTime (uint (LockTime payment)) LockTimeThreshold lockTime) vm)))"
    by (intro bindE_onD [OF assms safeS_peekNum5])
      (auto intro: safeE_ret safeE_pure intro!: safeE_bind [OF safeE_pure [OF _ order_refl payment_outcome]])
  then show "safeE (N + 3) p (\<lambda>_. True) (opcodeCheckLockTimeVerify vm)"
    using assms by (auto simp: opcodeCheckLockTimeVerify_def intro: safeE_ret)
  have "safeE (N + 3) p (\<lambda>_. True) (bindE (onD peekNum5 vm) (\<lambda>stackSequence vm.
        if stackSequence < 0 then failE ErrNegativeLockTime vm else (Inr (), vm)))"
    by (intro bindE_onD [OF assms safeS_peekNum5]) (auto intro: safeE_ret)
  then show "safeE (N + 3) p (\<lambda>_. True) (opcodeCheckSequenceVerify vm)"
    using assms by (auto simp: opcodeCheckSequenceVerify_def intro: safeE_ret)
qed

lemma safe_alt:
  assumes "vm_ok N p vm"
  shows "safeE (N + 3) p (\<lambda>_. True) (opcodeToAltStack vm)"
    and "safeE (N + 3) p (\<lambda>_. True) (opcodeFromAltStack vm)"
proof -
  show "safeE (N + 3) p (\<lambda>_. True) (opcodeToAltStack vm)"
    unfolding opcodeToAltStack_def
    by (rule bindE_onD [OF assms safeS_Pop], assumption, simp, rule safeE_onA, assumption, simp,
        rule safeS_Push, assumption, assumption, simp)
  show "safeE (N + 3) p (\<lambda>_. True) (opcodeFromAltStack vm)"
    unfolding opcodeFromAltStack_def
    by (rule safeE_bind [OF safeE_onA [OF assms order_refl safeS_Pop]], assumption, rule safeE_onD, assumption,
        simp, rule safeS_Push, assumption, assumption, simp, simp)
qed

lemma safe_verify:
  assumes "safeE M p (\<lambda>_. True) (f vm)"
  shows "safeE M p (\<lambda>_. True) (bindE (f vm) (\<lambda>_ vm. abstractVerify c vm))"
  by (rule safeE_bind [OF assms]) (auto intro: safe_abstractVerify)

section \<open>Signatures\<close>

lemma subScript_outcome: "vm_ok N p vm \<Longrightarrow> outcome (\<lambda>_. True) (subScript vm)"
  by (auto simp: vm_ok_def pcok_def subScript_def)

lemma sighash_outcome:
  "vm_ok N p vm \<Longrightarrow>
   outcome (\<lambda>_. True) (calcSignatureHash p scr SigHashAll (vtx vm) (int (vmsgIdx vm)) (int (vtxIdx vm)))"
  by (auto simp: vm_ok_def static_def outcome_def dest: calcSignatureHash_err split: sum.splits)

lemma bindE_pureE:
  assumes "vm_ok N p vm" and "outcome (\<lambda>_. True) r" and "N \<le> M"
    and "\<And>a vm. vm_ok N p vm \<Longrightarrow> safeE M p R (k a vm)"
  shows "safeE M p R (bindE (pureE r vm) k)"
  by (rule safeE_bind [OF safeE_pure [OF assms(1) order_refl assms(2)] _ assms(3)]) (rule assms(4))

lemma safe_pushBool: "vm_ok N p vm \<Longrightarrow> safeE (N + 3) p (\<lambda>_. True) (onD (PushBool b) vm)"
  by (rule safeE_onD, assumption, simp, rule safeS_PushBool, assumption, simp)

lemma safe_CheckSig:
  assumes "vm_ok N p vm"
  shows "safeE (N + 3) p (\<lambda>_. True) (opcodeCheckSig p vm)"
  unfolding opcodeCheckSig_def
proof (rule bindE_onD [OF assms safeS_Pop], assumption, simp, rule bindE_onD [OF _ safeS_Pop], assumption,
    assumption, simp, goal_cases)
  case (1 pk vm1 sig vm2)
  show ?case
  proof (cases "length sig < 1")
    case True
    then show ?thesis using safe_pushBool [OF 1(4)] by simp
  next
    case False
    have "safeE (N + 3) p (\<lambda>_. True) (bindE (pureE (subScript vm2) vm2) (\<lambda>scr vm.
       bindE (pureE (calcSignatureHash p (removeOpcodeByData scr sig) SigHashAll
                (vtx vm) (int (vmsgIdx vm)) (int (vtxIdx vm))) vm) (\<lambda>hash vm.
       onD (PushBool (VerifySignature p pk hash sig)) vm)))"
      by (rule bindE_pureE [OF 1(4) subScript_outcome [OF 1(4)]], simp, rule bindE_pureE, assumption,
          rule sighash_outcome, assumption, simp, rule safe_pushBool)
    then show ?thesis using False by simp
  qed
qed

text \<open>The same rules at the bound every handler has.\<close>

lemma seq_rules:
  assumes "vm_ok N p vm"
  shows "(\<And>n vm. vm_ok N p vm \<Longrightarrow> safeE (N + 3) p R (k n vm)) \<Longrightarrow> safeE (N + 3) p R (bindE (onD PopInt vm) k)"
    and "(\<And>x vm. vm_ok N p vm \<Longrightarrow> safeE (N + 3) p R (k1 x vm)) \<Longrightarrow>
         safeE (N + 3) p R (bindE (onD PopByteArray vm) k1)"
    and "(\<And>x vm. vm_ok N p vm \<Longrightarrow> safeE (N + 3) p R (k2 x vm)) \<Longrightarrow>
         safeE (N + 3) p R (bindE (onD (popMany m) vm) k2)"
    and "(\<And>x vm. vm_ok N p vm \<Longrightarrow> safeE (N + 3) p R (k3 x vm)) \<Longrightarrow>
         safeE (N + 3) p R (bindE (pureE (subScript vm) vm) k3)"
    and "(\<And>x vm. vm_ok N p vm \<Longrightarrow> safeE (N + 3) p R (k4 x vm)) \<Longrightarrow>
         safeE (N + 3) p R (bindE (pureE (calcSignatureHash p scr SigHashAll (vtx vm) (int (vmsgIdx vm))
           (int (vtxIdx vm))) vm) k4)"
  subgoal by (rule bindE_onD [OF assms safeS_PopInt]) auto
  subgoal by (rule bindE_onD [OF assms safeS_Pop]) auto
  subgoal by (rule bindE_onD [OF assms safeS_popMany]) auto
  subgoal by (rule bindE_pureE [OF assms subScript_outcome [OF assms]]) auto
  subgoal by (rule bindE_pureE [OF assms sighash_outcome [OF assms]]) auto
  done

lemma safe_fail: "vm_ok N p vm \<Longrightarrow> safeE (N + 3) p R (failE c vm)"
  by (auto intro: safeE_ret)

lemma safe_CheckMultiSig:
  assumes "vm_ok N p vm"
  shows "safeE (N + 3) p (\<lambda>_. True) (opcodeCheckMultiSig p vm)"
  unfolding opcodeCheckMultiSig_def Let_def
  using assms by (intro seq_rules) (auto intro!: seq_rules safe_pushBool safe_fail)

section \<open>Dispatch\<close>

lemma safe_callOpfunc:
  assumes ok: "vm_ok N p vm" and hs: "hash_sizes p" and wf: "wf_pop pop"
    and len: "opvalue (opcode pop) \<le> OP_16 \<longrightarrow> length (dataBytes pop) \<le> MaxScriptElementSize"
  shows "safeE (N + 3) p (\<lambda>_. True) (callOpfunc p pop vm)"
proof -
  obtain b where b: "opcode pop = opcodeArray b" using wf unfolding wf_pop_def by metis
  have nn: "opfunc (opcode pop) \<noteq> fn_nil" using b by simp
  have data: "length (dataBytes pop) \<le> MaxScriptElementSize" if "opfunc (opcode pop) = fn_opcodePushData"
  proof -
    have "b \<le> 78" using that b by simp
    then have "b \<le> OP_16" by (rule order_trans) simp
    then show ?thesis using len b by simp
  qed
  have csep: "safeE (N + 3) p (\<lambda>_. True) (opcodeCodeSeparator vm)"
    using vm_ok_mono [OF ok, of "N + 3"] unfolding opcodeCodeSeparator_def safeE_def vm_ok_def pcok_def by simp
  note ops = safe_num_ops safe_Abs safe_pushes(1,3,4) safe_stack_ops safe_stack_ops2 safe_IfDup safe_Depth
    safe_Jury safe_cond safe_locktime safe_alt safe_CheckSig safe_CheckMultiSig
  show ?thesis
  proof (cases "opfunc (opcode pop) = fn_opcodePushData")
    case True
    then show ?thesis using safe_pushes(2) [OF ok data [OF True]] by (simp add: callOpfunc_def)
  next
    case False
    then show ?thesis
      unfolding callOpfunc_def using nn csep ops [OF ok] safe_hash_ops [OF ok hs] safe_fail [OF ok]
        safe_abstractVerify [OF ok, of "N + 3"]
      by (cases "opfunc (opcode pop)")
        (simp_all add: opcodeVerify_def opcodeEqualVerify_def opcodeNumEqualVerify_def opcodeCheckSigVerify_def
          opcodeCheckMultiSigVerify_def safe_verify opcodeReturn_def opcodeReserved_def opcodeDisabled_def
          opcodeInvalid_def del: bindE_simps)
  qed
qed

end
