(* ===== verification/Invariant.thy ===== *)
theory Invariant
  imports Handlers
begin

text \<open>
  The invariant of a run: the limits on the stacks, on the operation count and on the
  program counter hold before every step, no step panics, and the number of steps is
  bounded by the number of instructions.
\<close>

section \<open>The stack interface\<close>

lemma getStack_stk:
  assumes "addressable s"
  shows "getStack s = stk s"
proof (rule nth_equalityI)
  fix k
  assume "k < length (getStack s)"
  then have k: "k < length (stk s)" using assms by (simp add: getStack_def Let_def)
  then have "int32 (int (length (stk s))) = int (length (stk s))" using assms int32_length by blast
  then have "PeekByteArray (int (length (stk s) - 1 - k)) s = (Inr (stk s ! k), s)"
    using k by (simp add: PeekByteArray_def Let_def)
  then show "getStack s ! k = stk s ! k" using k assms by (simp add: getStack_def Let_def)
qed (use assms in \<open>simp add: getStack_def Let_def\<close>)

lemma DropN_all:
  assumes "addressable s"
  shows "snd (DropN (Depth s) s) = s\<lparr>stk := []\<rparr>"
proof (cases "stk s = []")
  case True
  then show ?thesis by (cases s) (simp add: DropN_def)
next
  case False
  then show ?thesis using dropLoop_at [of s "[]" "stk s"] assms by (auto simp: DropN_def Suc_le_eq)
qed

lemma pushMany_eq: "pushMany d s = s\<lparr>stk := stk s @ d\<rparr>"
  by (induction d arbitrary: s) auto

lemma setStack_stk: "addressable s \<Longrightarrow> setStack d s = s\<lparr>stk := d\<rparr>"
  by (simp only: setStack_def DropN_all pushMany_eq) simp

section \<open>The operation count\<close>

lemma numOps_basic [simp]:
  "numOps (snd (onD f vm)) = numOps vm" "numOps (snd (onA f vm)) = numOps vm"
  "numOps (snd (pureE r vm)) = numOps vm"
  by (simp_all add: onD_def onA_def pureE_def split: prod.splits)

lemma numOps_bindE:
  assumes "numOps (snd r) = F" and "\<And>a vm'. numOps vm' = F \<Longrightarrow> numOps (snd (k a vm')) = F"
  shows "numOps (snd (bindE r k)) = F"
  using assms by (cases r; cases "fst r") auto

lemma numOps_verify [simp]:
  "numOps (snd (abstractVerify c vm)) = numOps vm" "numOps (snd (popIfBool vm)) = numOps vm"
  unfolding abstractVerify_def popIfBool_def by (auto intro!: numOps_bindE)

lemma numOps_CheckSig [simp]: "numOps (snd (opcodeCheckSig p vm)) = numOps vm"
  unfolding opcodeCheckSig_def by (auto intro!: numOps_bindE)

lemma numOps_control [simp]:
  "numOps (snd (opcodeNop pop vm)) = numOps vm"
  "numOps (snd (opcodeIf vm)) = numOps vm"
  "numOps (snd (opcodeNotIf vm)) = numOps vm"
  "numOps (snd (opcodeElse vm)) = numOps vm"
  "numOps (snd (opcodeEndif vm)) = numOps vm"
  "numOps (snd (opcodeCheckLockTimeVerify vm)) = numOps vm"
  "numOps (snd (opcodeCheckSequenceVerify vm)) = numOps vm"
  "numOps (snd (opcodeToAltStack vm)) = numOps vm"
  "numOps (snd (opcodeFromAltStack vm)) = numOps vm"
  "numOps (snd (opcodeEqualVerify vm)) = numOps vm"
  "numOps (snd (opcodeNumEqualVerify vm)) = numOps vm"
  "numOps (snd (opcodeCheckSigVerify p vm)) = numOps vm"
  unfolding control_defs opcodeCheckSigVerify_def Let_def
  by (auto intro!: numOps_bindE simp: stack_op_defs num_op_defs)

definition opsOk :: "unit eres \<Rightarrow> bool" where
  "opsOk r \<longleftrightarrow> (case fst r of Inl _ \<Rightarrow> True | Inr _ \<Rightarrow> numOps (snd r) \<le> MaxOpsPerScript)"

lemma opsOk_eq: "numOps (snd r) = numOps vm \<Longrightarrow> numOps vm \<le> MaxOpsPerScript \<Longrightarrow> opsOk r"
  by (simp add: opsOk_def split: sum.splits)

lemma opsOk_bind:
  assumes "numOps (snd r) = n" and "\<And>a vm. numOps vm = n \<Longrightarrow> opsOk (k a vm)"
  shows "opsOk (bindE r k)"
  using assms by (cases r; cases "fst r") (auto simp: opsOk_def)

lemma opsOk_verify: "opsOk r \<Longrightarrow> opsOk (bindE r (\<lambda>_ vm. abstractVerify c vm))"
  by (cases r; cases "fst r") (auto simp: opsOk_def split: sum.splits)

lemma opsOk_fail [simp]: "opsOk (Inl e, vm)"
  by (simp add: opsOk_def)

lemma opsOk_CheckMultiSig:
  "numOps vm \<le> MaxOpsPerScript \<Longrightarrow> opsOk (opcodeCheckMultiSig p vm)"
  unfolding opcodeCheckMultiSig_def Let_def
  by (rule opsOk_bind [OF numOps_basic(1)])
    (auto intro!: opsOk_bind [OF numOps_basic(1)] opsOk_bind [OF numOps_basic(3)] opsOk_eq [OF numOps_basic(1)])

lemma opsOk_callOpfunc:
  assumes "numOps vm \<le> MaxOpsPerScript"
  shows "opsOk (callOpfunc p pop vm)"
proof (cases "opfunc (opcode pop) \<in> {fn_opcodeCheckMultiSig, fn_opcodeCheckMultiSigVerify}")
  case True
  then show ?thesis using opsOk_CheckMultiSig [OF assms]
    by (auto simp: callOpfunc_def opcodeCheckMultiSigVerify_def simp del: split_paired_All
        intro: opsOk_verify [OF opsOk_CheckMultiSig [OF assms]])
next
  case False
  then have "numOps (snd (callOpfunc p pop vm)) = numOps vm"
    unfolding callOpfunc_def
    by (cases "opfunc (opcode pop)")
      (simp_all add: push_defs stack_op_defs num_op_defs hash_op_defs opcodeDisabled_def opcodeReserved_def
        opcodeInvalid_def opcodeVerify_def opcodeReturn_def opcodeCodeSeparator_def)
  then show ?thesis using assms by (rule opsOk_eq)
qed

lemma opsOk_executeOpcode:
  assumes "numOps vm \<le> MaxOpsPerScript"
  shows "opsOk (executeOpcode p pop vm)"
proof -
  have "opsOk (bindE (pureE r vm') (\<lambda>_ vm. callOpfunc p pop vm))" if "numOps vm' \<le> MaxOpsPerScript"
    for r :: "serr + unit" and vm'
    by (rule opsOk_bind [OF numOps_basic(3)]) (use that in \<open>auto intro: opsOk_callOpfunc\<close>)
  then show ?thesis using assms unfolding executeOpcode_def Let_def
    by (auto simp: opsOk_def [of "(Inr (), _)"])
qed

section \<open>One instruction\<close>

lemma minimalPush_outcome: "outcome (\<lambda>_. True) (checkMinimalDataPush pop)"
  by (simp add: checkMinimalDataPush_def Let_def)

lemma safeE_if:
  "(c \<Longrightarrow> safeE N p Q a) \<Longrightarrow> (\<not> c \<Longrightarrow> safeE N p Q b) \<Longrightarrow> safeE N p Q (if c then a else b)"
  by simp

lemma executeOpcode_safe:
  assumes ok: "vm_ok N p vm" and hs: "hash_sizes p" and wf: "wf_pop pop"
  shows "safeE (N + 3) p (\<lambda>_. True) (executeOpcode p pop vm)"
proof -
  have fin: "safeE (N + 3) p (\<lambda>_. True) (bindE (pureE (if c then checkMinimalDataPush pop else Inr ()) vm')
      (\<lambda>_ vm. callOpfunc p pop vm))"
    if "vm_ok N p vm'" "opvalue (opcode pop) \<le> OP_16 \<longrightarrow> length (dataBytes pop) \<le> MaxScriptElementSize" for c vm'
    by (rule bindE_pureE [OF that(1)])
      (use minimalPush_outcome [of pop] safe_callOpfunc [OF _ hs wf that(2)] in auto)
  have ret: "safeE (N + 3) p (\<lambda>_. True) (Inr (), vm')" if "vm_ok N p vm'" for vm'
    by (rule safeE_ret [OF that]) auto
  define vm1 where "vm1 = (if opvalue (opcode pop) > OP_16 then vm\<lparr>numOps := numOps vm + 1\<rparr> else vm)"
  have ok1: "vm_ok N p vm1" using ok by (simp add: vm1_def)
  show ?thesis
    unfolding executeOpcode_def vm1_def [symmetric] Let_def
    by (intro safeE_if safe_fail [OF ok] safe_fail [OF ok1] ret [OF ok1] fin [OF ok1]) auto
qed

section \<open>The invariant\<close>

text \<open>
  While a pay-to-script-hash input is evaluated, the stack left by the signature script is
  kept in \<open>savedFirstStack\<close>.  The first instruction of the template fails on an empty stack,
  so that the redeem script exists when the code takes it from there.
\<close>

definition p2shOk :: "Engine \<Rightarrow> bool" where
  "p2shOk vm \<longleftrightarrow> length (scripts vm) = (if bip16 vm \<and> 2 \<le> scriptIdx vm then 3 else 2) \<and>
     (bip16 vm \<longrightarrow>
        length (savedFirstStack vm) \<le> nat MaxStackSize \<and>
        (\<forall>x \<in> set (savedFirstStack vm). length x \<le> MaxScriptElementSize) \<and>
        (scriptIdx vm \<le> 1 \<longrightarrow> isScriptHash (scripts vm ! 1)) \<and>
        (scriptIdx vm = 1 \<longrightarrow>
           (if scriptOff vm = 0 then condStack vm = [] \<and> savedFirstStack vm = stk (dstack vm)
            else savedFirstStack vm \<noteq> [])))"

definition stacksOk :: "Engine \<Rightarrow> bool" where
  "stacksOk vm \<longleftrightarrow> int (length (stk (dstack vm)) + length (stk (astack vm))) \<le> MaxStackSize \<and>
     (\<forall>x \<in> set (stk (dstack vm)) \<union> set (stk (astack vm)). length x \<le> MaxScriptElementSize)"

definition engineInv :: "prims \<Rightarrow> Engine \<Rightarrow> bool" where
  "engineInv p vm \<longleftrightarrow> stacksOk vm \<and> static p vm \<and> pcok vm \<and>
     scriptOff vm < length (scripts vm ! scriptIdx vm) \<and> numOps vm \<le> MaxOpsPerScript \<and> p2shOk vm"

lemma stacksOk_sok: "stacksOk vm \<Longrightarrow> sok (nat MaxStackSize) (dstack vm) \<and> sok (nat MaxStackSize) (astack vm)"
  by (auto simp: stacksOk_def sok_def MaxStackSize_def)

lemma sok_stacksOk:
  assumes "sok N (dstack vm)" and "sok N (astack vm)" and "N \<le> 2000"
    and "int32 (Depth (dstack vm) + Depth (astack vm)) \<le> MaxStackSize"
  shows "stacksOk vm"
proof -
  have "addressable (dstack vm)" "addressable (astack vm)" using assms(1-3) by (simp_all add: sok_def)
  moreover have "length (stk (dstack vm)) + length (stk (astack vm)) < 2 ^ 31" using assms(1-3) by (simp add: sok_def)
  then have "int32 (int (length (stk (dstack vm))) + int (length (stk (astack vm))))
      = int (length (stk (dstack vm))) + int (length (stk (astack vm)))"
    by (intro int32_id) auto
  ultimately show ?thesis using assms by (auto simp: stacksOk_def sok_def)
qed

lemma template_handlers [simp]:
  "opfunc (opcodeArray OP_HASH160) = fn_opcodeHash160"
  "opfunc (opcodeArray OP_DUP) = fn_opcodeDup"
  "opfunc (opcodeArray OP_EQUAL) = fn_opcodeEqual"
  "opfunc (opcodeArray OP_EQUALVERIFY) = fn_opcodeEqualVerify"
  "opfunc (opcodeArray OP_CHECKSIG) = fn_opcodeCheckSig"
  "opfunc (opcodeArray OP_CHECKMULTISIG) = fn_opcodeCheckMultiSig"
  "opfunc (opcodeArray OP_JURY_REDEEM_EQUAL) = fn_opcodeCheckJuryRedeemEqual"
  "opfunc (opcodeArray OP_0) = fn_opcodeFalse"
  by code_simp+

lemma hash160_empty:
  assumes "wf_pop pop" "opvalue (opcode pop) = OP_HASH160" "condStack vm = []" "stk (dstack vm) = []"
  shows "\<exists>e vm'. executeOpcode p pop vm = (Inl e, vm')"
proof -
  have b: "opcode pop = opcodeArray OP_HASH160" using assms(1,2) unfolding wf_pop_def by metis
  have "isBranchExecuting (vm\<lparr>numOps := numOps vm + 1\<rparr>)" using assms(3) by (simp add: isBranchExecuting_def)
  moreover have "callOpfunc p pop (vm\<lparr>numOps := numOps vm + 1\<rparr>)
      = (Inl (ScriptErr ErrInvalidStackOperation), vm\<lparr>numOps := numOps vm + 1\<rparr>)"
    using b assms(4) by (simp add: callOpfunc_def opcodeHash160_def onD_def)
  ultimately show ?thesis using b
    by (auto simp: executeOpcode_def Let_def pureE_def)
qed

lemma parse_length: "length (fst (parseScript scr)) \<le> length scr"
proof (induction scr rule: length_induct)
  case (1 scr)
  show ?case
  proof (cases "scr = []")
    case False
    then show ?thesis
    proof (cases rule: parse_step)
      case (pop op bs rest)
      have "length (fst (parseScript rest)) \<le> length rest" using 1 pop(4) by blast
      then show ?thesis using pop(4,5) by simp
    qed simp
  qed simp
qed

text \<open>The part of a step before the end of a script is looked at.\<close>

lemma exec_inv:
  assumes inv: "engineInv p vm" and hs: "hash_sizes p"
    and ex: "executeOpcode p (scripts vm ! scriptIdx vm ! scriptOff vm) (vm\<lparr>scriptOff := scriptOff vm + 1\<rparr>) = (r, vm1)"
  shows "r \<noteq> Inl Panic"
    and "fixedPart vm1 = fixedPart (vm\<lparr>scriptOff := scriptOff vm + 1\<rparr>)"
    and "static p vm1" and "pcok vm1" and "sok 1003 (dstack vm1)" and "sok 1003 (astack vm1)"
    and "r = Inr () \<Longrightarrow> numOps vm1 \<le> MaxOpsPerScript"
    and "r = Inr () \<Longrightarrow> bip16 vm \<Longrightarrow> scriptIdx vm = 1 \<Longrightarrow> savedFirstStack vm \<noteq> []"
proof -
  let ?pop = "scripts vm ! scriptIdx vm ! scriptOff vm" and ?vm = "vm\<lparr>scriptOff := scriptOff vm + 1\<rparr>"
  have ok: "vm_ok 1000 p ?vm" using inv stacksOk_sok [of vm]
    by (auto simp: engineInv_def vm_ok_def pcok_def MaxStackSize_def)
  have wf: "wf_pop ?pop" using inv
    by (auto simp: engineInv_def static_def pcok_def list_all_length)
  have "safeE 1003 p (\<lambda>_. True) (r, vm1)" using executeOpcode_safe [OF ok hs wf] ex by simp
  then show "r \<noteq> Inl Panic" "static p vm1" "pcok vm1" "sok 1003 (dstack vm1)" "sok 1003 (astack vm1)"
    by (auto simp: safeE_def vm_ok_def outcome_def)
  show "fixedPart vm1 = fixedPart ?vm" using fixedPart_executeOpcode [of p ?pop ?vm] unfolding ex by simp
  show "r = Inr () \<Longrightarrow> numOps vm1 \<le> MaxOpsPerScript"
    using opsOk_executeOpcode [of ?vm p ?pop] ex inv by (simp add: opsOk_def engineInv_def)
  show "savedFirstStack vm \<noteq> []" if "r = Inr ()" "bip16 vm" "scriptIdx vm = 1"
  proof (cases "scriptOff vm = 0")
    case True
    then have p: "condStack vm = []" "savedFirstStack vm = stk (dstack vm)" "isScriptHash (scripts vm ! 1)"
      using inv that by (auto simp: engineInv_def p2shOk_def)
    then show ?thesis using hash160_empty [OF wf, of ?vm p] ex that True
      by (auto simp: isScriptHash_def)
  qed (use inv that in \<open>auto simp: engineInv_def p2shOk_def\<close>)
qed

section \<open>The end of a script\<close>

lemma CheckErrorCondition_result:
  assumes "CheckErrorCondition f vm = (r, vm')" and "sok N (dstack vm)"
  shows "r \<noteq> Inl Panic \<and> (\<exists>d. vm' = vm\<lparr>dstack := d\<rparr> \<and> sok N d)"
proof -
  have "sok N (snd (PopBool (dstack vm)))" "fst (PopBool (dstack vm)) \<noteq> Inl Panic"
    using safeS_PopBool [OF assms(2)] by (auto simp: safeS_def outcome_def)
  then show ?thesis using assms
    by (cases "PopBool (dstack vm)"; cases "fst (PopBool (dstack vm))")
      (auto simp: CheckErrorCondition_def onD_def split: if_splits intro: exI [of _ "dstack vm"])
qed

lemma enterRedeem_inv:
  assumes "stacksOk vm" and "p2shOk (vm\<lparr>scriptIdx := 1, scriptOff := 1\<rparr>)" and "bip16 vm" and "scriptIdx vm = 2"
    and "savedFirstStack vm \<noteq> []" and "enterRedeemScript vm = (r, vm')"
  shows "r \<noteq> Inl Panic"
    and "r = Inr () \<Longrightarrow> \<exists>pops d. vm' = vm\<lparr>dstack := d, scripts := scripts vm @ [pops]\<rparr> \<and>
      stk d = butlast (savedFirstStack vm) \<and> list_all wf_pop pops \<and> length pops \<le> MaxScriptElementSize"
proof -
  obtain c vm1 where c: "CheckErrorCondition False vm = (c, vm1)" by fastforce
  note C = CheckErrorCondition_result [OF c, of 1000]
  have d: "sok 1000 (dstack vm)" using stacksOk_sok [OF assms(1)] by (simp add: MaxStackSize_def)
  obtain d where vm1: "vm1 = vm\<lparr>dstack := d\<rparr>" "sok 1000 d" using C [OF d] by blast
  have addr: "addressable d" using vm1(2) by (simp add: sok_def)
  obtain pops e where ps: "parseScript (last (savedFirstStack vm)) = (pops, e)" by fastforce
  have e: "e = None \<or> e = Some (ScriptErr ErrMalformedPush)"
    using ps parse_sound [of "last (savedFirstStack vm)"] by (metis snd_conv)
  show "r \<noteq> Inl Panic"
    using assms(5,6) C [OF d] c e ps vm1
    by (cases c) (auto simp: enterRedeemScript_def Let_def last_nth)
  assume r: "r = Inr ()"
  have "last (savedFirstStack vm) \<in> set (savedFirstStack vm)" using assms(5) by simp
  then have "length (last (savedFirstStack vm)) \<le> MaxScriptElementSize" using assms(2,3) by (auto simp: p2shOk_def)
  then have "length pops \<le> MaxScriptElementSize" using parse_length [of "last (savedFirstStack vm)"] ps by simp
  moreover have "e = None" "vm' = SetStack (butlast (savedFirstStack vm)) (vm1\<lparr>scripts := scripts vm1 @ [pops]\<rparr>)"
    using assms(5,6) c e ps vm1 r
    by (cases c; auto simp: enterRedeemScript_def Let_def last_nth butlast_conv_take)+
  ultimately show "\<exists>pops d. vm' = vm\<lparr>dstack := d, scripts := scripts vm @ [pops]\<rparr> \<and>
      stk d = butlast (savedFirstStack vm) \<and> list_all wf_pop pops \<and> length pops \<le> MaxScriptElementSize"
    using parse_ok(2) [of "last (savedFirstStack vm)" pops] ps vm1 addr
    by (intro exI [of _ pops] exI [of _ "d\<lparr>stk := butlast (savedFirstStack vm)\<rparr>"])
      (auto simp: SetStack_def setStack_stk)
qed

lemma skip_inv:
  assumes "stacksOk vm" and "static p vm" and "scriptOff vm = 0" and "numOps vm \<le> MaxOpsPerScript" and "p2shOk vm"
    and "1 \<le> scriptIdx vm"
  shows "stacksOk (skipEmptyScript vm)"
    and "scriptIdx (skipEmptyScript vm) < length (scripts vm) \<Longrightarrow> engineInv p (skipEmptyScript vm)"
proof -
  show "stacksOk (skipEmptyScript vm)" using assms(1) by (simp add: stacksOk_def skipEmptyScript_def Let_def)
  assume lt: "scriptIdx (skipEmptyScript vm) < length (scripts vm)"
  have "scriptIdx vm < length (scripts vm) \<and> scripts vm ! scriptIdx vm \<noteq> []"
    using lt assms(3,5,6) by (auto simp: skipEmptyScript_def Let_def p2shOk_def isScriptHash_def split: if_splits)
  moreover from this have "skipEmptyScript vm = vm\<lparr>lastCodeSep := 0\<rparr>"
    using assms(3) by (simp add: skipEmptyScript_def Let_def)
  ultimately show "engineInv p (skipEmptyScript vm)"
    using assms by (simp add: engineInv_def stacksOk_def pcok_def p2shOk_def)
qed

lemma static_scripts:
  "list_all wf_pop pops \<Longrightarrow> static p vm \<Longrightarrow> static p (vm\<lparr>scripts := scripts vm @ [pops]\<rparr>)"
proof -
  have "enginePayment (vm\<lparr>scripts := scripts vm @ [pops]\<rparr>) = enginePayment vm" by (simp add: enginePayment_def)
  then show "list_all wf_pop pops \<Longrightarrow> static p vm \<Longrightarrow> static p (vm\<lparr>scripts := scripts vm @ [pops]\<rparr>)"
    by (simp add: static_def)
qed

lemma advance_inv:
  assumes st: "stacksOk vm" and "static p vm" and p2: "p2shOk (vm\<lparr>scriptOff := 1\<rparr>)" and "condStack vm = []"
    and "numOps vm \<le> MaxOpsPerScript" and "scriptOff vm = 0" and "stk (astack vm) = []"
    and adv: "advanceScript vm = (r, vm')"
  shows "r \<noteq> Inl Panic"
    and "r = Inr () \<Longrightarrow> stacksOk vm' \<and> static p vm' \<and> scriptOff vm' = 0 \<and> numOps vm' \<le> MaxOpsPerScript \<and>
      p2shOk vm' \<and> 1 \<le> scriptIdx vm'"
    and "r = Inr () \<Longrightarrow> bip16 vm \<Longrightarrow> scriptIdx vm = 1 \<Longrightarrow> remaining vm' \<le> MaxScriptElementSize"
proof -
  let ?next = "vm\<lparr>scriptIdx := scriptIdx vm + 1\<rparr>"
  consider (first) "bip16 vm" "scriptIdx vm = 0" | (second) "bip16 vm" "scriptIdx vm = 1"
    | (other) "\<not> bip16 vm \<or> 2 \<le> scriptIdx vm" by linarith
  then have "r \<noteq> Inl Panic \<and> (r = Inr () \<longrightarrow> (stacksOk vm' \<and> static p vm' \<and> scriptOff vm' = 0 \<and>
      numOps vm' \<le> MaxOpsPerScript \<and> p2shOk vm' \<and> 1 \<le> scriptIdx vm') \<and>
      (bip16 vm \<and> scriptIdx vm = 1 \<longrightarrow> remaining vm' \<le> MaxScriptElementSize))"
  proof cases
    case first
    have "getStack (dstack vm) = stk (dstack vm)"
      using st by (intro getStack_stk) (simp add: stacksOk_def MaxStackSize_def)
    then have "r = Inr ()" "vm' = vm\<lparr>scriptIdx := 1, savedFirstStack := stk (dstack vm)\<rparr>"
      using adv first by (auto simp: advanceScript_def GetStack_def)
    then show ?thesis using first assms(1-6) by (auto simp: stacksOk_def p2shOk_def)
  next
    case second
    have s: "stacksOk ?next" "p2shOk (?next\<lparr>scriptIdx := 1, scriptOff := 1\<rparr>)" "savedFirstStack ?next \<noteq> []" "scriptIdx ?next = 2"
      using assms second by (auto simp: stacksOk_def p2shOk_def)
    have er: "enterRedeemScript ?next = (r, vm')" using adv second by (simp add: advanceScript_def)
    note E = enterRedeem_inv [OF s(1,2) _ s(4,3) er]
    show ?thesis
    proof (cases "r = Inr ()")
      case True
      obtain pops d where v: "vm' = ?next\<lparr>dstack := d, scripts := scripts vm @ [pops]\<rparr>"
        "stk d = butlast (savedFirstStack vm)" "list_all wf_pop pops" "length pops \<le> MaxScriptElementSize"
        using E(2) True second by auto
      have "vm' = vm\<lparr>scripts := scripts vm @ [pops]\<rparr>\<lparr>scriptIdx := 2\<rparr>\<lparr>dstack := d\<rparr>" using v(1) second by simp
      then have "static p vm'" using static_scripts [OF v(3) assms(2)] by (simp only: static_simps)
      moreover have "length (scripts vm) = 2" using p2 second by (simp add: p2shOk_def)
      ultimately show ?thesis using second assms v True
        by (auto simp: stacksOk_def p2shOk_def remaining_def MaxStackSize_def dest: in_set_butlastD)
    qed (use E(1) second in simp)
  next
    case other
    then have "r = Inr ()" "vm' = ?next" using adv by (auto simp: advanceScript_def split: if_splits)
    then show ?thesis using other assms(1-6) by (auto simp: stacksOk_def p2shOk_def)
  qed
  then show "r \<noteq> Inl Panic"
    and "r = Inr () \<Longrightarrow> stacksOk vm' \<and> static p vm' \<and> scriptOff vm' = 0 \<and> numOps vm' \<le> MaxOpsPerScript \<and>
      p2shOk vm' \<and> 1 \<le> scriptIdx vm'"
    and "r = Inr () \<Longrightarrow> bip16 vm \<Longrightarrow> scriptIdx vm = 1 \<Longrightarrow> remaining vm' \<le> MaxScriptElementSize"
    by blast+
qed

section \<open>A step\<close>

definition stepsLeft :: "Engine \<Rightarrow> nat" where
  "stepsLeft vm = phase vm * (MaxScriptElementSize + 1) + remaining vm"

lemma nextScript_inv:
  assumes st: "stacksOk vm" and "static p vm" and p2: "p2shOk vm" and off: "0 < scriptOff vm"
    and nx: "nextScript vm = (r, vm')"
  shows "r \<noteq> Inl Panic"
    and "r = Inr fin \<Longrightarrow> stacksOk vm' \<and> (fin \<or> engineInv p vm')"
    and "r = Inr fin \<Longrightarrow> bip16 vm \<Longrightarrow> scriptIdx vm = 1 \<Longrightarrow> remaining vm' \<le> MaxScriptElementSize"
proof -
  let ?vm = "vm\<lparr>astack := snd (DropN (Depth (astack vm)) (astack vm)), numOps := 0, scriptOff := 0\<rparr>"
  have "addressable (astack vm)" using st by (simp add: stacksOk_def MaxStackSize_def)
  then have a: "?vm = vm\<lparr>astack := (astack vm)\<lparr>stk := []\<rparr>, numOps := 0, scriptOff := 0\<rparr>"
    by (simp only: DropN_all)
  obtain q vm1 where adv: "advanceScript ?vm = (q, vm1)" by fastforce
  have pre: "stacksOk ?vm" "static p ?vm" "p2shOk (?vm\<lparr>scriptOff := 1\<rparr>)" "numOps ?vm \<le> MaxOpsPerScript"
    "scriptOff ?vm = 0" "stk (astack ?vm) = []"
    using assms(1-4) unfolding a by (auto simp: stacksOk_def p2shOk_def MaxOpsPerScript_def)
  note A = advance_inv [OF pre(1-3) _ pre(4-6) adv]
  show "r \<noteq> Inl Panic"
  proof (cases "condStack vm = []")
    case True
    then show ?thesis using A(1) nx adv by (cases q) (auto simp: nextScript_def Let_def)
  qed (use nx in \<open>auto simp: nextScript_def\<close>)
  assume r: "r = Inr fin"
  then have ok: "condStack vm = []" "q = Inr ()" "vm' = skipEmptyScript vm1"
      "fin \<longleftrightarrow> scriptIdx vm' \<ge> length (scripts vm')"
    using nx adv by (auto elim!: nextScript_ok)
  note B = A(2) [OF _ ok(2)]
  show "stacksOk vm' \<and> (fin \<or> engineInv p vm')"
    using B ok skip_inv [of vm1 p] by (auto simp: not_le)
  show "remaining vm' \<le> MaxScriptElementSize" if "bip16 vm" "scriptIdx vm = 1"
  proof -
    have "remaining vm1 \<le> MaxScriptElementSize" using A(3) [OF _ ok(2)] ok(1) that by simp
    moreover have "remaining vm' \<le> remaining vm1"
      using sum_drop_mono [OF skipEmptyScript_parts(4), of vm1 "scripts vm1"] ok(3) by (simp add: remaining_def)
    ultimately show ?thesis by simp
  qed
qed

text \<open>What a step does before it looks for the end of the script.\<close>

lemma Step_exec:
  assumes inv: "engineInv p vm" and hs: "hash_sizes p"
    and ex: "executeOpcode p (scripts vm ! scriptIdx vm ! scriptOff vm) (vm\<lparr>scriptOff := scriptOff vm + 1\<rparr>) = (Inr (), vm1)"
    and size: "int32 (Depth (dstack vm1) + Depth (astack vm1)) \<le> MaxStackSize"
  shows "stacksOk vm1" and "p2shOk vm1" and "scripts vm1 = scripts vm" and "scriptIdx vm1 = scriptIdx vm"
    and "scriptOff vm1 = scriptOff vm + 1" and "bip16 vm1 = bip16 vm"
proof -
  note E = exec_inv [OF inv hs ex]
  show fx: "scripts vm1 = scripts vm" "scriptIdx vm1 = scriptIdx vm" "scriptOff vm1 = scriptOff vm + 1"
    "bip16 vm1 = bip16 vm"
    using E(2) by (simp_all add: fixedPart_def)
  have "savedFirstStack vm1 = savedFirstStack vm" using E(2) by (simp add: fixedPart_def)
  then show "p2shOk vm1" using inv fx E(8) by (auto simp: engineInv_def p2shOk_def)
  show "stacksOk vm1" using sok_stacksOk [OF E(5,6) _ size] by simp
qed

lemma Step_inv:
  assumes inv: "engineInv p vm" and hs: "hash_sizes p" and step: "Step p vm = (r, vm')"
  shows "r \<noteq> Inl Panic" and "r = Inr fin \<Longrightarrow> stacksOk vm' \<and> (fin \<or> engineInv p vm')"
proof -
  let ?pop = "scripts vm ! scriptIdx vm ! scriptOff vm" and ?vm = "vm\<lparr>scriptOff := scriptOff vm + 1\<rparr>"
  obtain q vm1 where ex: "executeOpcode p ?pop ?vm = (q, vm1)" by fastforce
  note E = exec_inv [OF inv hs ex]
  have pc: "validPC vm = Inr ()" using inv by (auto simp: engineInv_def pcok_def validPC_def)
  show "r \<noteq> Inl Panic"
  proof (cases "q = Inr () \<and> int32 (Depth (dstack vm1) + Depth (astack vm1)) \<le> MaxStackSize")
    case True
    then have X: "executeOpcode p ?pop ?vm = (Inr (), vm1)" using ex by simp
    note S = Step_exec [OF inv hs X]
    show ?thesis using True step ex pc S nextScript_inv(1) [OF _ E(3), of r vm']
      by (auto simp: Step_def pureE_def Let_def split: if_splits)
  next
    case False
    then show ?thesis using E(1) step ex pc
      by (cases q) (auto simp: Step_def pureE_def Let_def split: if_splits)
  qed
  assume "r = Inr fin"
  then have "Step p vm = (Inr fin, vm')" using step by simp
  then show "stacksOk vm' \<and> (fin \<or> engineInv p vm')"
  proof (cases rule: Step_cases)
    case (more vm2)
    note S = Step_exec [OF inv hs more(2,3)] and F = exec_inv [OF inv hs more(2)]
    show ?thesis using S F(3,4,7) more by (simp add: engineInv_def)
  next
    case (ended vm2)
    note S = Step_exec [OF inv hs ended(2,3)] and F = exec_inv [OF inv hs ended(2)]
    show ?thesis using S F(3) nextScript_inv(2) [OF _ _ _ _ ended(5)] by simp
  qed
qed

lemma phase_drop:
  "phase vm' < phase vm \<longleftrightarrow> bip16 vm \<and> scriptIdx vm \<le> 1 \<and> \<not> (bip16 vm' \<and> scriptIdx vm' \<le> 1)"
  by (auto simp: phase_def)

lemma leave_first:
  assumes "p2shOk vm" and "bip16 vm" and "scriptIdx vm = 0" and "nextScript vm = (Inr fin, vm')"
  shows "scriptIdx vm' = 1"
  using assms(4)
proof (rule nextScript_ok)
  fix vm1
  assume adv: "advanceScript (vm\<lparr>astack := snd (DropN (Depth (astack vm)) (astack vm)), numOps := 0, scriptOff := 0\<rparr>)
    = (Inr (), vm1)" and v: "vm' = skipEmptyScript vm1"
  have "length (scripts vm ! 1) = 3" using assms by (simp add: p2shOk_def isScriptHash_def)
  then show ?thesis using adv assms(2,3) v by (auto simp: advanceScript_def skipEmptyScript_def Let_def)
qed

lemma Step_measure:
  assumes inv: "engineInv p vm" and hs: "hash_sizes p" and step: "Step p vm = (Inr fin, vm')"
  shows "stepsLeft vm' < stepsLeft vm"
proof (cases "phase vm' < phase vm")
  case True
  from step have "remaining vm' \<le> MaxScriptElementSize"
  proof (cases rule: Step_cases)
    case (more vm2)
    note S = Step_exec [OF inv hs more(2,3)]
    show ?thesis using True S more by (auto simp: phase_drop)
  next
    case (ended vm2)
    note S = Step_exec [OF inv hs ended(2,3)] and F = exec_inv [OF inv hs ended(2)]
    have "scriptIdx vm = 0 \<Longrightarrow> False" using True S leave_first [OF S(2) _ _ ended(5)] nextScript_idx [OF ended(5)]
      by (auto simp: phase_drop)
    then have "scriptIdx vm = 1" using True by (cases "scriptIdx vm") (auto simp: phase_drop)
    then show ?thesis using True S F(3) nextScript_inv(3) [OF _ _ _ _ ended(5)] by (simp add: phase_drop)
  qed
  then show ?thesis using True by (auto simp: stepsLeft_def phase_def split: if_splits)
qed (use Step_progress [OF step] in \<open>auto simp: stepsLeft_def\<close>)

end
