(* ===== verification/Run.thy ===== *)
theory Run
  imports Invariant
begin

text \<open>
  Complete runs: an engine made by \<^verbatim>\<open>NewEngine\<close> satisfies the invariant, so that
  \<^verbatim>\<open>Execute\<close> ends, after a bounded number of steps, without a panic and within the limits.
\<close>

section \<open>A new engine\<close>

lemma checkedParse_ok:
  "checkedParse scr = Inr pops \<Longrightarrow> parseScript scr = (pops, None) \<and> length scr \<le> MaxScriptSize"
  by (auto simp: checkedParse_def split: if_splits prod.splits option.splits)

lemma NewEngine_parts:
  assumes "NewEngine pk t m i fl amount = Inr vm"
  obtains pay sigPops pkPops min where
    "0 \<le> i" "0 \<le> m" "nat m < length (TxMessages t)" "asPayment (Payload (TxMessages t ! nat m)) = Inr pay"
    "nat i < length (Inputs pay)"
    "parseScript (SignatureScript (Inputs pay ! nat i)) = (sigPops, None)" "parseScript pk = (pkPops, None)"
    "length (SignatureScript (Inputs pay ! nat i)) \<le> MaxScriptSize" "length pk \<le> MaxScriptSize"
    "SignatureScript (Inputs pay ! nat i) \<noteq> [] \<or> pk \<noteq> []"
    "vm = (newVM fl amount)\<lparr>scripts := [sigPops, pkPops],
       scriptIdx := (if SignatureScript (Inputs pay ! nat i) = [] then 1 else 0),
       bip16 := hasFlag vm ScriptBip16 \<and> isScriptHash pkPops,
       dstack := \<lparr>stk = [], verifyMinimalData = min\<rparr>, astack := \<lparr>stk = [], verifyMinimalData = min\<rparr>,
       vtx := t, vmsgIdx := nat m, vtxIdx := nat i\<rparr>"
    "min \<longleftrightarrow> hasFlag vm ScriptVerifyMinimalData"
proof -
  let ?sig = "\<lambda>pay. SignatureScript (Inputs pay ! nat i)"
  obtain pay where pay: "0 \<le> i" "0 \<le> m" "nat m < length (TxMessages t)"
    "asPayment (Payload (TxMessages t ! nat m)) = Inr pay" "nat i < length (Inputs pay)"
    "?sig pay \<noteq> [] \<or> pk \<noteq> []"
    using assms by (auto simp: NewEngine_def Let_def bindR_Inr split: if_splits)
  then obtain sigPops pkPops where
    p: "checkedParse (?sig pay) = Inr sigPops" "checkedParse pk = Inr pkPops"
    using assms by (auto simp: NewEngine_def Let_def bindR_Inr split: if_splits)
  have fl: "hasFlag vm f = hasFlag (newVM fl amount) f" for f
    using assms pay p by (auto simp: NewEngine_def Let_def hasFlag_def split: if_splits)
  show thesis
    using checkedParse_ok [OF p(1)] checkedParse_ok [OF p(2)] assms pay p fl
    by (intro that [of pay sigPops pkPops "hasFlag vm ScriptVerifyMinimalData"])
      (auto simp: NewEngine_def Let_def newVM_def hasFlag_def split: if_splits)
qed

lemma parse_nonempty: "parseScript scr = (pops, None) \<Longrightarrow> scr \<noteq> [] \<Longrightarrow> pops \<noteq> []"
  using parse_ok(1) [of scr pops] by auto

lemma NewEngine_inv:
  assumes "NewEngine pk t m i fl amount = Inr vm" and "signable p t m i"
  shows "engineInv p vm"
  using assms(1)
proof (rule NewEngine_parts)
  fix pay :: PaymentPayload and sigPops pkPops min
  let ?sig = "SignatureScript (Inputs pay ! nat i)"
  assume n: "0 \<le> i" "0 \<le> m" "nat m < length (TxMessages t)" "asPayment (Payload (TxMessages t ! nat m)) = Inr pay"
    and ps: "parseScript ?sig = (sigPops, None)" "parseScript pk = (pkPops, None)"
    and ne: "?sig \<noteq> [] \<or> pk \<noteq> []"
    and vm: "vm = (newVM fl amount)\<lparr>scripts := [sigPops, pkPops],
       scriptIdx := (if ?sig = [] then 1 else 0), bip16 := hasFlag vm ScriptBip16 \<and> isScriptHash pkPops,
       dstack := \<lparr>stk = [], verifyMinimalData = min\<rparr>, astack := \<lparr>stk = [], verifyMinimalData = min\<rparr>,
       vtx := t, vmsgIdx := nat m, vtxIdx := nat i\<rparr>"
  define b where "b = (hasFlag vm ScriptBip16 \<and> isScriptHash pkPops)"
  note vm' = vm [folded b_def]
  have "static p vm"
    unfolding vm' using n parse_ok(2) [OF ps(1)] parse_ok(2) [OF ps(2)] assms(2) calcSignatureHash_panic_iff
    by (simp add: static_def enginePayment_def newVM_def)
  moreover have "p2shOk vm" unfolding vm' by (simp add: p2shOk_def newVM_def b_def)
  moreover have "sigPops \<noteq> []" if "?sig \<noteq> []" using that parse_nonempty ps(1) by blast
  moreover have "pkPops \<noteq> []" if "?sig = []" using that ne parse_nonempty ps(2) by blast
  ultimately show ?thesis
    by (subst vm', subst (asm) vm', subst (asm) (2) vm')
      (auto simp: engineInv_def stacksOk_def pcok_def newVM_def MaxStackSize_def MaxOpsPerScript_def)
qed

lemma NewEngine_stepsLeft:
  assumes "NewEngine pk t m i fl amount = Inr vm" and "asPayment (Payload (TxMessages t ! nat m)) = Inr pay"
  shows "stepsLeft vm \<le> length (SignatureScript (Inputs pay ! nat i)) + length pk + MaxScriptElementSize + 1"
  using assms(1)
proof (rule NewEngine_parts)
  fix pay' :: PaymentPayload and sigPops pkPops min
  let ?sig = "SignatureScript (Inputs pay' ! nat i)"
  assume n: "asPayment (Payload (TxMessages t ! nat m)) = Inr pay'"
    and ps: "parseScript ?sig = (sigPops, None)" "parseScript pk = (pkPops, None)"
    and vm: "vm = (newVM fl amount)\<lparr>scripts := [sigPops, pkPops],
       scriptIdx := (if ?sig = [] then 1 else 0), bip16 := hasFlag vm ScriptBip16 \<and> isScriptHash pkPops,
       dstack := \<lparr>stk = [], verifyMinimalData = min\<rparr>, astack := \<lparr>stk = [], verifyMinimalData = min\<rparr>,
       vtx := t, vmsgIdx := nat m, vtxIdx := nat i\<rparr>"
  have "scripts vm = [sigPops, pkPops]" "scriptIdx vm = (if ?sig = [] then 1 else 0)" "scriptOff vm = 0"
    by (subst vm, simp add: newVM_def)+
  moreover have "length sigPops \<le> length ?sig" "length pkPops \<le> length pk"
    using parse_length [of ?sig] parse_length [of pk] ps by simp_all
  moreover have "phase vm = 0 \<or> phase vm = 1" by (simp add: phase_def)
  moreover have "pay' = pay" using n assms(2) by simp
  ultimately show ?thesis by (auto simp: stepsLeft_def remaining_def)
qed

section \<open>Whole runs\<close>

text \<open>One step that is not the last, as a machine.\<close>

definition stepMore :: "prims \<Rightarrow> Engine \<Rightarrow> Engine option" where
  "stepMore p vm = (case Step p vm of (Inr False, vm') \<Rightarrow> Some vm' | _ \<Rightarrow> None)"

lemma stepMore_Some: "stepMore p vm = Some vm' \<longleftrightarrow> Step p vm = (Inr False, vm')"
  by (auto simp: stepMore_def split: prod.splits sum.splits bool.splits)

interpretation run: terminating_machine "stepMore p" "\<lambda>vm. hash_sizes p \<and> engineInv p vm" stepsLeft
  for p
  by unfold_locales (auto simp: stepMore_Some dest: Step_inv(2) Step_measure)

lemma executeLoop_safe:
  "engineInv p vm \<Longrightarrow> hash_sizes p \<Longrightarrow> executeLoop p vm = (r, vm') \<Longrightarrow>
     r \<noteq> Inl Panic \<and> (r = Inr () \<longrightarrow> stacksOk vm')"
proof (induction p vm rule: executeLoop.induct)
  case (1 p vm)
  obtain q vm1 where st: "Step p vm = (q, vm1)" by fastforce
  note S = Step_inv [OF "1.prems"(1,2) st]
  show ?case
  proof (cases q)
    case (Inl e)
    then show ?thesis using S(1) st "1.prems"(3) by (auto simp: executeLoop.simps [of p vm])
  next
    case (Inr fin)
    show ?thesis
    proof (cases fin)
      case True
      then show ?thesis using S(2) [OF Inr] Inr st "1.prems"(3) by (auto simp: executeLoop.simps [of p vm])
    next
      case False
      have "executeLoop p vm1 = (r, vm')" using st Inr False "1.prems"(3) by (simp add: executeLoop.simps [of p vm])
      then show ?thesis using "1.IH" [OF st [symmetric] Inr False] S(2) [OF Inr] False "1.prems"(2) by blast
    qed
  qed
qed

lemma ExecuteVM_safe:
  assumes "engineInv p vm" and "hash_sizes p"
  shows "fst (ExecuteVM p vm) \<noteq> Inl Panic"
proof -
  obtain r vm' where l: "executeLoop p vm = (r, vm')" by fastforce
  note L = executeLoop_safe [OF assms l]
  show ?thesis
  proof (cases r)
    case (Inr u)
    obtain c vm2 where c: "CheckErrorCondition True vm' = (c, vm2)" by fastforce
    have "stacksOk vm'" using L Inr by simp
    then have "c \<noteq> Inl Panic" using CheckErrorCondition_result [OF c] stacksOk_sok by blast
    then show ?thesis using l c Inr by (simp add: ExecuteVM_def)
  qed (use L l in \<open>auto simp: ExecuteVM_def\<close>)
qed

section \<open>Properties\<close>

text \<open>C1. Executing an engine returned by \<^verbatim>\<open>NewEngine\<close> never panics, whatever the two
  scripts contain: no index is out of range, no pointer nil, in any handler, in the
  bookkeeping of \<^verbatim>\<open>Step\<close> or in the pay-to-script-hash hand-over.\<close>

theorem execute_no_panic:
  assumes "hash_sizes p" and "NewEngine pk t m i fl amount = Inr vm" and "signable p t m i"
  shows "fst (ExecuteVM p vm) \<noteq> Inl Panic"
  using ExecuteVM_safe [OF NewEngine_inv [OF assms(2,3)] assms(1)] .

abbreviation exampleTx :: "bytes \<Rightarrow> Transaction" where
  "exampleTx sig \<equiv> \<lparr>TxHash = [], TxMessages = [\<lparr>App = APP_PAYMENT, Payload = Payment
     \<lparr>Inputs = [\<lparr>PreviousOutPoint = None, SignatureScript = sig, Extra = []\<rparr>], Outputs = [], LockTime = 0\<rparr>\<rparr>]\<rparr>"

lemma demo_signable: "signable demo (exampleTx sig) 0 0"
  by (simp add: signable_def signableMsg_def demo_def asPayment_def)

lemma example_engine: "\<not> isl (NewEngine [OP_DUP, OP_DROP] (exampleTx [OP_1]) 0 0 StandardVerifyFlags 0)"
  by code_simp

theorem execute_no_panic_witness:
  "case NewEngine [OP_DUP, OP_DROP] (exampleTx [OP_1]) 0 0 StandardVerifyFlags 0 of
     Inl _ \<Rightarrow> False | Inr vm \<Rightarrow> fst (ExecuteVM demo vm) \<noteq> Inl Panic"
  using execute_no_panic [OF demo_hash_sizes _ demo_signable] example_engine
  by (auto split: sum.splits)

text \<open>C2. In every state an engine reaches, the two stacks together hold at most 1000
  elements, none longer than 520 bytes, at most 201 counted operations have been executed
  in the current script, and the program counter is inside a script.\<close>

theorem execute_limits:
  assumes "hash_sizes p" and "NewEngine pk t m i fl amount = Inr vm" and "signable p t m i"
    and "steps (stepMore p) n vm vm'"
  shows "length (stk (dstack vm')) + length (stk (astack vm')) \<le> 1000 \<and>
    list_all (\<lambda>x. length x \<le> 520) (stk (dstack vm') @ stk (astack vm')) \<and> numOps vm' \<le> 201 \<and>
    scriptIdx vm' < length (scripts vm') \<and> scriptOff vm' < length (scripts vm' ! scriptIdx vm')"
proof -
  have "engineInv p vm'"
    using run.steps_inv [OF assms(4)] NewEngine_inv [OF assms(2,3)] assms(1) by blast
  then show ?thesis
    by (auto simp: engineInv_def stacksOk_def pcok_def list_all_iff MaxStackSize_def MaxScriptElementSize_def
        MaxOpsPerScript_def)
qed

theorem execute_limits_witness:
  "case NewEngine [OP_DUP, OP_DROP] (exampleTx [OP_1]) 0 0 StandardVerifyFlags 0 of
     Inl _ \<Rightarrow> False | Inr vm \<Rightarrow> length (stk (dstack vm)) \<le> 1000 \<and> numOps vm \<le> 201"
  using execute_limits [OF demo_hash_sizes _ demo_signable steps_refl] example_engine
  by (force split: sum.splits)

text \<open>C3. Execution is bounded by the size of its input: no run takes more steps than the
  bytes of the two scripts and 521 for the redeem script, and every run comes to an end.\<close>

theorem execute_bounded:
  assumes "hash_sizes p" and "NewEngine pk t m i fl amount = Inr vm" and "signable p t m i"
    and "asPayment (Payload (TxMessages t ! nat m)) = Inr pay"
  shows "(\<forall>n vm'. steps (stepMore p) n vm vm' \<longrightarrow>
            n \<le> length (SignatureScript (Inputs pay ! nat i)) + length pk + 521) \<and>
         (\<exists>n vm'. steps (stepMore p) n vm vm' \<and> stepMore p vm' = None)"
proof -
  have inv: "hash_sizes p \<and> engineInv p vm" using NewEngine_inv [OF assms(2,3)] assms(1) by blast
  have "stepsLeft vm \<le> length (SignatureScript (Inputs pay ! nat i)) + length pk + 521"
    using NewEngine_stepsLeft [OF assms(2,4)] by (simp add: MaxScriptElementSize_def)
  then show ?thesis using run.steps_mu [OF _ inv] run.steps_end [OF inv] by (meson add_leE order_trans)
qed

theorem execute_bounded_witness:
  "case NewEngine [OP_DUP, OP_DROP] (exampleTx [OP_1]) 0 0 StandardVerifyFlags 0 of
     Inl _ \<Rightarrow> False | Inr vm \<Rightarrow> \<exists>n vm'. steps (stepMore demo) n vm vm' \<and> stepMore demo vm' = None"
  using execute_bounded [OF demo_hash_sizes _ demo_signable [of "[OP_1]"], where pk = "[OP_DUP, OP_DROP]" and
      fl = StandardVerifyFlags and amount = 0 and
      pay = "\<lparr>Inputs = [\<lparr>PreviousOutPoint = None, SignatureScript = [OP_1], Extra = []\<rparr>],
      Outputs = [], LockTime = 0\<rparr>"] example_engine
  by (auto simp: asPayment_def split: sum.splits)

end
