(* ===== verification/Templates.thy ===== *)
theory Templates
  imports Run
begin

text \<open>
  What the standard scripts do when they are executed.  The step by step execution is
  refined to a big step over the instructions of a script (\<open>runPops\<close>), which evaluates by
  rewriting on the templates of \<^verbatim>\<open>standard.go\<close>.
\<close>

section \<open>Executing a script in one go\<close>

fun runPops :: "prims \<Rightarrow> parsedOpcode list \<Rightarrow> Engine \<Rightarrow> unit eres" where
  "runPops p [] vm = (Inr (), vm)"
| "runPops p (pop # pops) vm =
     bindE (executeOpcode p pop (vm\<lparr>scriptOff := scriptOff vm + 1\<rparr>)) (\<lambda>_ vm.
     if int32 (Depth (dstack vm) + Depth (astack vm)) > MaxStackSize then failE ErrStackOverflow vm
     else runPops p pops vm)"

definition afterScript :: "prims \<Rightarrow> unit eres \<Rightarrow> unit eres" where
  "afterScript p r = bindE r (\<lambda>_ vm. bindE (nextScript vm) (\<lambda>fin vm. if fin then (Inr (), vm) else executeLoop p vm))"

lemma executeLoop_runPops:
  assumes "scriptIdx vm < length (scripts vm)" and "scripts vm ! scriptIdx vm = pre @ pops" and "pops \<noteq> []"
    and "scriptOff vm = length pre"
  shows "executeLoop p vm = afterScript p (runPops p pops vm)"
  using assms
proof (induction pops arbitrary: pre vm)
  case (Cons pop pops)
  let ?vm = "vm\<lparr>scriptOff := scriptOff vm + 1\<rparr>"
  obtain q vm1 where ex: "executeOpcode p pop ?vm = (q, vm1)" by fastforce
  have "fixedPart vm1 = fixedPart ?vm" using fixedPart_executeOpcode [of p pop ?vm] unfolding ex by simp
  then have fx: "scripts vm1 = scripts vm" "scriptIdx vm1 = scriptIdx vm" "scriptOff vm1 = length (pre @ [pop])"
    using Cons.prems by (simp_all add: fixedPart_def)
  have pc: "validPC vm = Inr ()" using Cons.prems by (simp add: validPC_def)
  have pop: "scripts vm ! scriptIdx vm ! scriptOff vm = pop" using Cons.prems by simp
  have len: "length (scripts vm1 ! scriptIdx vm1) = length pre + 1 + length pops" using Cons.prems fx by simp
  show ?case
  proof (cases "pops = []")
    case True
    then show ?thesis using ex pc pop len fx
      by (cases q; cases "nextScript vm1"; cases "fst (nextScript vm1)")
        (auto simp: executeLoop.simps [of p vm] Step_def pureE_def Let_def afterScript_def)
  next
    case False
    have "executeLoop p vm1 = afterScript p (runPops p pops vm1)"
      using Cons.IH [of vm1 "pre @ [pop]"] False fx Cons.prems by simp
    then show ?thesis using ex pc pop len fx False
      by (cases q) (auto simp: executeLoop.simps [of p vm] Step_def pureE_def Let_def afterScript_def)
  qed
qed simp

section \<open>The instructions of the templates\<close>

abbreviation withStack :: "bytes list \<Rightarrow> Engine \<Rightarrow> Engine" where
  "withStack xs vm \<equiv> vm\<lparr>dstack := (dstack vm)\<lparr>stk := xs\<rparr>\<rparr>"

lemma exec_data:
  assumes "1 \<le> b" and "b \<le> 78" and "length d \<le> MaxScriptElementSize" and "condStack vm = []"
    and "checkMinimalDataPush \<lparr>opcode = opcodeArray b, data = Some d\<rparr> = Inr ()"
  shows "executeOpcode p \<lparr>opcode = opcodeArray b, data = Some d\<rparr> vm = (Inr (), withStack (stk (dstack vm) @ [d]) vm)"
proof -
  have "b \<le> 78" "b \<le> 96" using assms(2) by (auto intro: order_trans)
  then have f: "opfunc (opcodeArray b) = fn_opcodePushData" and "\<not> b > 96" using assms(1) by (simp_all add: not_less)
  from f have "callOpfunc p \<lparr>opcode = opcodeArray b, data = Some d\<rparr> vm = (Inr (), withStack (stk (dstack vm) @ [d]) vm)"
    by (simp add: callOpfunc_def opcodePushData_def onD_def del: opcodeArray_facts(3))
  moreover note \<open>\<not> b > 96\<close>
  moreover have "\<not> isDisabled \<lparr>opcode = opcodeArray b, data = Some d\<rparr>"
      "\<not> alwaysIllegal \<lparr>opcode = opcodeArray b, data = Some d\<rparr>"
    using assms(2) by (auto simp: isDisabled_def alwaysIllegal_def)
  moreover have "isBranchExecuting vm" using assms(4) by (simp add: isBranchExecuting_def)
  ultimately show ?thesis using assms(3,5)
    by (simp add: executeOpcode_def Let_def pureE_def)
qed

lemma exec_push:
  assumes "2 \<le> length d" and "length d \<le> 75" and "condStack vm = []"
  shows "executeOpcode p (push d) vm = (Inr (), withStack (stk (dstack vm) @ [d]) vm)"
proof (rule exec_data [OF _ _ _ assms(3)])
  show "(1 :: byte) \<le> word_of_nat (length d)" "(word_of_nat (length d) :: byte) \<le> 78"
    using assms byte_le_nat [of 1 "length d"] byte_le_nat [of "length d" 78] by (auto simp: Suc_le_eq)
  have "unat (word_of_nat (length d) :: byte) = length d" using assms(2) by (simp add: unat_of_nat)
  then show "checkMinimalDataPush (push d) = Inr ()"
    using assms(1,2) by (auto simp: checkMinimalDataPush_def Let_def)
qed (use assms in \<open>simp add: MaxScriptElementSize_def\<close>)

lemma exec_push20:
  assumes "length d = 20" and "condStack vm = []"
  shows "executeOpcode p (push20 d) vm = (Inr (), withStack (stk (dstack vm) @ [d]) vm)"
  using exec_push [of d vm p] assms by simp

lemma exec_op:
  assumes "OP_16 < b" and "condStack vm = []" and "numOps vm < MaxOpsPerScript"
    and "\<not> isDisabled (plain b)" and "\<not> alwaysIllegal (plain b)"
  shows "executeOpcode p (plain b) vm = callOpfunc p (plain b) (vm\<lparr>numOps := numOps vm + 1\<rparr>)"
proof -
  have "\<not> b \<le> OP_PUSHDATA4" using assms(1) by (auto simp: not_le intro: less_trans [rotated])
  then show ?thesis using assms
    by (simp add: executeOpcode_def Let_def isBranchExecuting_def pureE_def)
qed

lemma not_disabled [simp]:
  "\<not> isDisabled (plain OP_DUP)" "\<not> isDisabled (plain OP_HASH160)" "\<not> isDisabled (plain OP_EQUALVERIFY)"
  "\<not> isDisabled (plain OP_CHECKSIG)" "\<not> isDisabled (plain OP_EQUAL)" "\<not> isDisabled (plain OP_CHECKMULTISIG)"
  "\<not> isDisabled (plain OP_JURY_REDEEM_EQUAL)"
  "\<not> alwaysIllegal (plain OP_DUP)" "\<not> alwaysIllegal (plain OP_HASH160)" "\<not> alwaysIllegal (plain OP_EQUALVERIFY)"
  "\<not> alwaysIllegal (plain OP_CHECKSIG)" "\<not> alwaysIllegal (plain OP_EQUAL)"
  "\<not> alwaysIllegal (plain OP_CHECKMULTISIG)" "\<not> alwaysIllegal (plain OP_JURY_REDEEM_EQUAL)"
  by (simp_all add: isDisabled_def alwaysIllegal_def)

abbreviation counted :: "Engine \<Rightarrow> Engine" where
  "counted vm \<equiv> vm\<lparr>numOps := numOps vm + 1\<rparr>"

text \<open>A state in which the next instruction is executed: no open conditional, counters below their limits.\<close>

definition ready :: "Engine \<Rightarrow> bool" where
  "ready vm \<longleftrightarrow> condStack vm = [] \<and> numOps vm < MaxOpsPerScript \<and> addressable (dstack vm)"

lemma exec_dup:
  assumes "ready vm" and "stk (dstack vm) = a @ [x]"
  shows "executeOpcode p (plain OP_DUP) vm = (Inr (), counted (withStack (a @ [x, x]) vm))"
proof -
  have "PeekByteArray 0 (dstack vm) = (Inr x, dstack vm)"
    using PeekByteArray_at [of "dstack vm" a x "[]"] assms by (simp add: ready_def)
  then have "opcodeDup (counted vm) = (Inr (), counted (withStack (a @ [x, x]) vm))"
    using assms by (simp add: opcodeDup_def onD_def DupN_def int32_def)
  then show ?thesis using assms by (simp add: exec_op ready_def callOpfunc_def)
qed

lemma exec_hash160:
  assumes "ready vm" and "stk (dstack vm) = a @ [x]"
  shows "executeOpcode p (plain OP_HASH160) vm = (Inr (), counted (withStack (a @ [Hash160 p x]) vm))"
  using assms by (simp add: exec_op ready_def callOpfunc_def opcodeHash160_def onD_def Hash160_def)

lemma asBool_fromBool [simp]: "asBool (fromBool b) = b"
  by (simp add: fromBool_def)

lemma equal_run:
  assumes "addressable (dstack vm)" and "stk (dstack vm) = a @ [x, y]"
  shows "opcodeEqual vm = (Inr (), withStack (a @ [fromBool (x = y)]) vm)"
proof -
  have "PopByteArray (dstack vm) = (Inr y, (dstack vm)\<lparr>stk := a @ [x]\<rparr>)"
    using PopByteArray_snoc [of "dstack vm" "a @ [x]" y] assms by simp
  then show ?thesis using assms by (auto simp: opcodeEqual_def onD_def PushBool_def eq_commute)
qed

lemma exec_equal:
  assumes "ready vm" and "stk (dstack vm) = a @ [x, y]"
  shows "executeOpcode p (plain OP_EQUAL) vm = (Inr (), counted (withStack (a @ [fromBool (x = y)]) vm))"
  using assms equal_run [of "counted vm" a x y] by (simp add: exec_op ready_def callOpfunc_def)

lemma exec_equalverify:
  assumes "ready vm" and "stk (dstack vm) = a @ [x, y]"
  shows "executeOpcode p (plain OP_EQUALVERIFY) vm =
    (if x = y then Inr () else Inl (ScriptErr ErrEqualVerify), counted (withStack a vm))"
proof -
  have "PopBool ((dstack vm)\<lparr>stk := a @ [fromBool (x = y)]\<rparr>) = (Inr (x = y), (dstack vm)\<lparr>stk := a\<rparr>)"
    using assms by (simp add: PopBool_def ready_def)
  then show ?thesis using assms equal_run [of "counted vm" a x y]
    by (simp add: exec_op ready_def callOpfunc_def opcodeEqualVerify_def abstractVerify_def onD_def)
qed

lemma sighash_value:
  "signable p t m i \<Longrightarrow> calcSignatureHash p scr hashType t m i = Inr (keccak256 p [])"
  using calcSignatureHash_panic_iff [of p scr hashType t m i]
  by (cases "calcSignatureHash p scr hashType t m i") (auto dest: calcSignatureHash_err calcSignatureHash_const)

abbreviation engineSignable :: "prims \<Rightarrow> Engine \<Rightarrow> bool" where
  "engineSignable p vm \<equiv> signable p (vtx vm) (int (vmsgIdx vm)) (int (vtxIdx vm))"

lemma exec_checksig:
  assumes "ready vm" and "stk (dstack vm) = a @ [sig, pk]" and "sig \<noteq> []" and "pcok vm" and "engineSignable p vm"
  shows "executeOpcode p (plain OP_CHECKSIG) vm =
    (Inr (), counted (withStack (a @ [fromBool (VerifySignature p pk (keccak256 p []) sig)]) vm))"
proof -
  have "PopByteArray (dstack vm) = (Inr pk, (dstack vm)\<lparr>stk := a @ [sig]\<rparr>)"
    using PopByteArray_snoc [of "dstack vm" "a @ [sig]" pk] assms by (simp add: ready_def)
  moreover have "subScript (vm\<lparr>numOps := n, dstack := d\<rparr>) = Inr (drop (lastCodeSep vm) (scripts vm ! scriptIdx vm))" for n d
    using assms(4) by (simp add: subScript_def pcok_def)
  moreover have "\<not> length sig < 1" using assms(3) by (cases sig) auto
  ultimately show ?thesis using assms sighash_value [OF assms(5)]
    by (simp add: exec_op ready_def callOpfunc_def opcodeCheckSig_def onD_def pureE_def PushBool_def)
qed

section \<open>Validating an input\<close>

text \<open>\<open>spends t m i sig\<close>: input \<open>i\<close> of the payment in message \<open>m\<close> carries the signature script \<open>sig\<close>.\<close>

definition spends :: "Transaction \<Rightarrow> nat \<Rightarrow> nat \<Rightarrow> bytes \<Rightarrow> bool" where
  "spends t m i sig \<longleftrightarrow> m < length (TxMessages t) \<and> App (TxMessages t ! m) = APP_PAYMENT \<and>
     (case asPayment (Payload (TxMessages t ! m)) of
        Inl _ \<Rightarrow> False
      | Inr pay \<Rightarrow> i < length (Inputs pay) \<and> SignatureScript (Inputs pay ! i) = sig)"

abbreviation emptyStack :: stack where
  "emptyStack \<equiv> \<lparr>stk = [], verifyMinimalData = True\<rparr>"

definition startVM :: "Transaction \<Rightarrow> nat \<Rightarrow> nat \<Rightarrow> parsedOpcode list \<Rightarrow> parsedOpcode list \<Rightarrow> 64 word \<Rightarrow> Engine" where
  "startVM t m i sp pp amount = (newVM StandardVerifyFlags amount)\<lparr>scripts := [sp, pp],
     bip16 := isScriptHash pp, dstack := emptyStack, astack := emptyStack, vtx := t, vmsgIdx := m, vtxIdx := i\<rparr>"

lemma standard_flags:
  assumes "flags vm = StandardVerifyFlags"
  shows "hasFlag vm ScriptBip16" "hasFlag vm ScriptVerifyCleanStack" "hasFlag vm ScriptVerifyMinimalData"
    "\<not> hasFlag vm ScriptVerifySigPushOnly" "hasFlag vm ScriptVerifyWitness" "hasFlag vm ScriptStrictMultiSig"
    "hasFlag vm ScriptVerifyNullFail"
  using assms by (simp_all add: hasFlag_def StandardVerifyFlags_def)

lemma NewEngine_standard:
  assumes "spends t m i sig" and "sig \<noteq> []"
    and "parseScript sig = (sp, None)" and "length sig \<le> MaxScriptSize"
    and "parseScript pk = (pp, None)" and "length pk \<le> MaxScriptSize"
    and "isScriptHash pp \<longrightarrow> isPushOnly sp" and "\<not> isWitnessProgram pp"
  shows "NewEngine pk t (int m) (int i) StandardVerifyFlags amount = Inr (startVM t m i sp pp amount)"
proof -
  obtain pay where pay: "m < length (TxMessages t)" "App (TxMessages t ! m) = APP_PAYMENT"
    "asPayment (Payload (TxMessages t ! m)) = Inr pay" "i < length (Inputs pay)" "SignatureScript (Inputs pay ! i) = sig"
    using assms(1) by (auto simp: spends_def split: sum.splits)
  have "checkedParse sig = Inr sp" "checkedParse pk = Inr pp" using assms(3-6) by (simp_all add: checkedParse_def)
  then show ?thesis using pay assms(2,7,8)
    by (auto simp: NewEngine_def Let_def newVM_def standard_flags startVM_def)
qed

text \<open>Moving on from a script that is not part of a pay-to-script-hash evaluation.\<close>

definition resetVM :: "Engine \<Rightarrow> Engine" where
  "resetVM vm = vm\<lparr>astack := (astack vm)\<lparr>stk := []\<rparr>, numOps := 0, scriptOff := 0, lastCodeSep := 0,
     scriptIdx := scriptIdx vm + 1\<rparr>"

lemma next_plain:
  assumes "condStack vm = []" and "addressable (astack vm)" and "\<not> bip16 vm \<or> 2 \<le> scriptIdx vm"
    and "scriptIdx vm + 1 < length (scripts vm) \<Longrightarrow> scripts vm ! (scriptIdx vm + 1) \<noteq> []"
  shows "nextScript vm = (Inr (scriptIdx vm + 1 \<ge> length (scripts vm)), resetVM vm)"
proof -
  let ?vm = "vm\<lparr>astack := (astack vm)\<lparr>stk := []\<rparr>, numOps := 0, scriptOff := 0\<rparr>"
  have "advanceScript ?vm = (Inr (), ?vm\<lparr>scriptIdx := scriptIdx vm + 1\<rparr>)"
    using assms(3) by (auto simp: advanceScript_def)
  then show ?thesis using assms
    by (auto simp: nextScript_def DropN_all [OF assms(2)] skipEmptyScript_def Let_def resetVM_def simp del: Depth_eq)
qed

lemma check_true:
  assumes "flags vm = StandardVerifyFlags" and "length (scripts vm) \<le> scriptIdx vm" and "witnessProgram vm = None"
    and "stk (dstack vm) = [x]"
  shows "CheckErrorCondition True vm = (if asBool x then Inr () else Inl (ScriptErr ErrEvalFalse), withStack [] vm)"
proof -
  have "PopBool (dstack vm) = (Inr (asBool x), (dstack vm)\<lparr>stk := []\<rparr>)" using assms(4) by (simp add: PopBool_def)
  then show ?thesis using assms
    by (simp add: CheckErrorCondition_def isWitnessVersionActive_def onD_def)
qed

lemma p2pkh_run:
  assumes sig: "2 \<le> length sig" "length sig \<le> 75" and pk: "2 \<le> length pk" "length pk \<le> 75"
    and h: "length h = 20" and s: "signable p t (int m) (int i)"
  defines "pp \<equiv> [plain OP_DUP, plain OP_HASH160, push20 h, plain OP_EQUALVERIFY, plain OP_CHECKSIG]"
  shows "fst (ExecuteVM p (startVM t m i [push sig, push pk] pp amount)) =
    (if Hash160 p pk \<noteq> h then Inl (ScriptErr ErrEqualVerify)
     else if VerifySignature p pk (keccak256 p []) sig then Inr () else Inl (ScriptErr ErrEvalFalse))"
proof -
  let ?vm = "startVM t m i [push sig, push pk] pp amount"
  have nb: "\<not> isScriptHash pp" by (simp add: pp_def isScriptHash_def)
  let ?vm1 = "withStack [sig, pk] ?vm\<lparr>scriptOff := 2\<rparr>" and ?vm2 = "withStack [sig, pk] ?vm\<lparr>scriptIdx := 1\<rparr>"
  have "runPops p [push sig, push pk] ?vm = (Inr (), ?vm1)"
    using sig pk by (simp add: startVM_def newVM_def exec_push MaxStackSize_def int32_def)
  moreover have "nextScript ?vm1 = (Inr False, ?vm2)"
    using nb by (subst next_plain) (simp_all add: startVM_def newVM_def pp_def resetVM_def)
  ultimately have l1: "executeLoop p ?vm = executeLoop p ?vm2"
    using executeLoop_runPops [of ?vm "[]" "[push sig, push pk]" p]
    by (simp add: afterScript_def startVM_def newVM_def)
  have l2: "executeLoop p ?vm2 = afterScript p (runPops p pp ?vm2)"
    using executeLoop_runPops [of ?vm2 "[]" pp p] by (simp add: startVM_def newVM_def pp_def)
  have sne: "sig \<noteq> []" using sig by auto
  let ?v = "VerifySignature p pk (keccak256 p []) sig"
  note ops = exec_dup [where a = "[sig]" and x = pk] exec_hash160 [where a = "[sig, pk]" and x = pk]
    exec_push20 [OF h] exec_equalverify [where a = "[sig, pk]" and x = "Hash160 p pk" and y = h]
    exec_checksig [where a = "[]" and sig = sig and pk = pk]
  have run: "\<exists>vm'. runPops p pp ?vm2 = (if Hash160 p pk \<noteq> h then Inl (ScriptErr ErrEqualVerify) else Inr (), vm') \<and>
      (Hash160 p pk = h \<longrightarrow> vm' = withStack [fromBool ?v] ?vm2\<lparr>numOps := 4, scriptOff := 5\<rparr>)"
    using sne s h unfolding pp_def
    by (auto simp: startVM_def newVM_def ops ready_def pcok_def MaxStackSize_def MaxOpsPerScript_def int32_def)
  show ?thesis
  proof (cases "Hash160 p pk = h")
    case True
    let ?vm3 = "withStack [fromBool ?v] ?vm2\<lparr>numOps := 4, scriptOff := 5\<rparr>"
    have "runPops p pp ?vm2 = (Inr (), ?vm3)" using run True by auto
    moreover have "nextScript ?vm3 = (Inr True, resetVM ?vm3)"
      using nb by (subst next_plain) (simp_all add: startVM_def newVM_def)
    ultimately have "executeLoop p ?vm = (Inr (), resetVM ?vm3)" unfolding l1 l2 by (simp add: afterScript_def)
    moreover have "CheckErrorCondition True (resetVM ?vm3) =
        (if asBool (fromBool ?v) then Inr () else Inl (ScriptErr ErrEvalFalse), withStack [] (resetVM ?vm3))"
      by (rule check_true) (simp_all add: resetVM_def startVM_def newVM_def)
    ultimately show ?thesis using True by (simp add: ExecuteVM_def)
  next
    case False
    then show ?thesis using run unfolding ExecuteVM_def l1 l2 by (auto simp: afterScript_def)
  qed
qed

end
