(* ===== verification/MultiSig.thy ===== *)
theory MultiSig
  imports Templates
begin

text \<open>
  Pay-to-script-hash inputs with a multisignature redeem script: what the pushes of the
  signature script leave on the stack, how the engine enters the redeem script, and which
  signatures \<^verbatim>\<open>opcodeCheckMultiSig\<close> accepts.
\<close>

section \<open>Scripts made of data pushes\<close>

lemma AddData_parse:
  assumes "err b = None" and "parseScript (script b) = (pops, None)" and "length d \<le> MaxScriptElementSize"
    and "length (script b) + canonicalDataSize d \<le> MaxScriptSize"
  shows "err (AddData d b) = None" and "parseScript (script (AddData d b)) = (pops @ [dataPop d], None)"
    and "length (script (AddData d b)) = length (script b) + canonicalDataSize d"
proof -
  have len: "length d < 2 ^ 32" using assms(3) by (simp add: MaxScriptElementSize_def)
  obtain bs where bs: "popBytes (dataPop d) = Inr bs" "addData d b = b\<lparr>script := script b @ bs\<rparr>"
    "length bs = canonicalDataSize d" using addData_script [OF len, of b] by blast
  have ok: "AddData d b = addData d b" using assms by (simp add: AddData_def Let_def)
  have "parseScript bs = ([dataPop d], None)" using parse_pop [OF dataPop_wf [OF len] bs(1), of "[]"] by simp
  then show "err (AddData d b) = None" "parseScript (script (AddData d b)) = (pops @ [dataPop d], None)"
    "length (script (AddData d b)) = length (script b) + canonicalDataSize d"
    using assms(1) parse_append [OF assms(2), of bs] bs ok by simp_all
qed

lemma AddOp_parse:
  assumes "err b = None" and "parseScript (script b) = (pops, None)" and "length (script b) < MaxScriptSize"
    and "stdLength opc = 1"
  shows "err (AddOp opc b) = None" and "parseScript (script (AddOp opc b)) = (pops @ [plain opc], None)"
    and "length (script (AddOp opc b)) = length (script b) + 1"
  using assms parse_append [OF assms(2), of "[opc]"] parse_plain [OF assms(4), of "[]"]
  by (simp_all add: AddOp_def)

lemma AddData_list:
  assumes "err b = None" and "parseScript (script b) = (pops, None)"
    and "list_all (\<lambda>d. length d \<le> MaxScriptElementSize) ds"
    and "length (script b) + sum_list (map canonicalDataSize ds) \<le> MaxScriptSize"
  shows "err (foldl (\<lambda>b d. AddData d b) b ds) = None \<and>
    parseScript (script (foldl (\<lambda>b d. AddData d b) b ds)) = (pops @ map dataPop ds, None) \<and>
    length (script (foldl (\<lambda>b d. AddData d b) b ds)) = length (script b) + sum_list (map canonicalDataSize ds)"
  using assms
proof (induction ds arbitrary: b pops)
  case (Cons d ds)
  have "length d \<le> MaxScriptElementSize" "length (script b) + canonicalDataSize d \<le> MaxScriptSize"
    using Cons.prems(3,4) by simp_all
  note A = AddData_parse [OF Cons.prems(1,2) this]
  show ?case using Cons.IH [OF A(1,2)] Cons.prems(3,4) A(3) by simp
qed simp

text \<open>A push of the empty string or of at least two bytes leaves the data on the stack.\<close>

definition pushable :: "bytes \<Rightarrow> bool" where
  "pushable d \<longleftrightarrow> d = [] \<or> 2 \<le> length d \<and> length d \<le> MaxScriptElementSize"

lemma exec_zero:
  assumes "condStack vm = []"
  shows "executeOpcode p (plain OP_0) vm = (Inr (), withStack (stk (dstack vm) @ [[]]) vm)"
  using assms
  by (simp add: executeOpcode_def Let_def isDisabled_def alwaysIllegal_def isBranchExecuting_def pureE_def
      checkMinimalDataPush_def callOpfunc_def opcodeFalse_def onD_def)

lemma exec_dataPop:
  assumes "pushable d" and "condStack vm = []"
  shows "executeOpcode p (dataPop d) vm = (Inr (), withStack (stk (dstack vm) @ [d]) vm)"
proof (cases "d = []")
  case True
  then show ?thesis using exec_zero [OF assms(2)] by (simp add: dataPop_def)
next
  case False
  then have d: "2 \<le> length d" "length d \<le> MaxScriptElementSize" using assms(1) by (auto simp: pushable_def)
  have b: "(1 :: byte) \<le> word_of_nat (length d)" "(word_of_nat (length d) :: byte) \<le> 78" if "length d \<le> 75"
    using that d byte_le_nat [of 1 "length d"] byte_le_nat [of "length d" 78] by (auto simp: Suc_le_eq)
  let ?b = "if length d \<le> 75 then word_of_nat (length d) else if length d \<le> 255 then 76 else (77 :: byte)"
  have "d \<noteq> [0]" "d \<noteq> [129]" "length d \<noteq> 1" "length d \<le> 65535" using d by (auto simp: MaxScriptElementSize_def)
  then have pop: "dataPop d = \<lparr>opcode = opcodeArray ?b, data = Some d\<rparr>" "1 \<le> ?b" "?b \<le> 78"
    using False b by (simp_all add: dataPop_def)
  then have "checkMinimalDataPush (dataPop d) = Inr ()" by (intro dataPop_minimal) simp
  then show ?thesis using exec_data [OF pop(2,3) d(2) assms(2)] pop(1) by simp
qed

lemma runPops_pushes:
  assumes "list_all pushable ds" and "condStack vm = []" and "stk (astack vm) = []"
    and "length (stk (dstack vm)) + length ds \<le> 1000"
  shows "runPops p (map dataPop ds) vm =
    (Inr (), withStack (stk (dstack vm) @ ds) vm\<lparr>scriptOff := scriptOff vm + length ds\<rparr>)"
  using assms
proof (induction ds arbitrary: vm)
  case (Cons d ds)
  let ?vm = "withStack (stk (dstack vm) @ [d]) vm\<lparr>scriptOff := scriptOff vm + 1\<rparr>"
  have "executeOpcode p (dataPop d) (vm\<lparr>scriptOff := scriptOff vm + 1\<rparr>) = (Inr (), ?vm)"
    using exec_dataPop [of d "vm\<lparr>scriptOff := scriptOff vm + 1\<rparr>" p] Cons.prems by simp
  moreover have "int32 (Depth (dstack ?vm) + Depth (astack ?vm)) \<le> MaxStackSize"
    using Cons.prems by (simp add: MaxStackSize_def int32_id)
  ultimately have "runPops p (map dataPop (d # ds)) vm = runPops p (map dataPop ds) ?vm" by simp
  then show ?case using Cons.IH [of ?vm] Cons.prems by simp
qed simp

section \<open>Small numbers\<close>

abbreviation numByte :: "nat \<Rightarrow> bytes" where
  "numByte n \<equiv> [word_of_nat n]"

lemma small_numbers:
  assumes "1 \<le> n" and "n \<le> 16"
  shows "Bytes (int n) = Inr (numByte n)" and "makeScriptNum (numByte n) m 4 = Inr (int n)"
    and "opfunc (opcodeArray (0x50 + word_of_nat n)) = fn_opcodeN"
    and "\<not> isDisabled (plain (0x50 + word_of_nat n))" and "\<not> alwaysIllegal (plain (0x50 + word_of_nat n))"
    and "\<not> (0x50 + word_of_nat n :: byte) > OP_16" and "\<not> (0x50 + word_of_nat n :: byte) \<le> OP_PUSHDATA4"
proof -
  have n: "n \<in> set [1..<17]" using assms by auto
  have "\<forall>n \<in> set [1..<17]. Bytes (int n) = Inr (numByte n) \<and> makeScriptNum (numByte n) True 4 = Inr (int n) \<and>
      makeScriptNum (numByte n) False 4 = Inr (int n) \<and> opfunc (opcodeArray (0x50 + word_of_nat n)) = fn_opcodeN \<and>
      \<not> isDisabled (plain (0x50 + word_of_nat n)) \<and> \<not> alwaysIllegal (plain (0x50 + word_of_nat n)) \<and>
      \<not> (0x50 + word_of_nat n :: byte) > OP_16 \<and> \<not> (0x50 + word_of_nat n :: byte) \<le> OP_PUSHDATA4"
    by code_simp
  note N = bspec [OF this n]
  show "Bytes (int n) = Inr (numByte n)" "makeScriptNum (numByte n) m 4 = Inr (int n)"
    "opfunc (opcodeArray (0x50 + word_of_nat n)) = fn_opcodeN"
    "\<not> isDisabled (plain (0x50 + word_of_nat n))" "\<not> alwaysIllegal (plain (0x50 + word_of_nat n))"
    "\<not> (0x50 + word_of_nat n :: byte) > OP_16" "\<not> (0x50 + word_of_nat n :: byte) \<le> OP_PUSHDATA4"
    using N by (cases m; simp)+
qed

lemma exec_small:
  assumes "1 \<le> n" and "n \<le> 16" and "condStack vm = []"
  shows "executeOpcode p (plain (0x50 + word_of_nat n)) vm = (Inr (), withStack (stk (dstack vm) @ [numByte n]) vm)"
proof -
  note N = small_numbers [OF assms(1,2)]
  have u: "uint (0x50 + word_of_nat n - (OP_1 - 1) :: byte) = int n"
    using assms(1,2) by (simp add: uint_nat unat_of_nat)
  have "callOpfunc p (plain (0x50 + word_of_nat n)) vm = opcodeN (plain (0x50 + word_of_nat n)) vm"
    using N(3) by (simp add: callOpfunc_def)
  also have "\<dots> = (Inr (), withStack (stk (dstack vm) @ [numByte n]) vm)"
    unfolding opcodeN_def onD_def PushInt_def using u N(1) by simp
  finally show ?thesis using N assms(3)
    by (simp add: executeOpcode_def Let_def isBranchExecuting_def pureE_def)
qed

lemma PopInt_small:
  assumes "1 \<le> n" and "n \<le> 16" and "addressable s" and "stk s = a @ [numByte n]"
  shows "PopInt s = (Inr (int n), s\<lparr>stk := a\<rparr>)"
  using small_numbers(2) [OF assms(1,2)] assms(3,4) by (simp add: PopInt_def defaultScriptNumLen_def)

lemma popMany_eq:
  "addressable s \<Longrightarrow> stk s = a @ xs \<Longrightarrow> popMany (length xs) s = (Inr (rev xs), s\<lparr>stk := a\<rparr>)"
proof (induction xs arbitrary: s rule: rev_induct)
  case (snoc x xs)
  have "PopByteArray s = (Inr x, s\<lparr>stk := a @ xs\<rparr>)" using snoc.prems by simp
  moreover have "popMany (length xs) (s\<lparr>stk := a @ xs\<rparr>) = (Inr (rev xs), s\<lparr>stk := a\<rparr>)"
    using snoc.IH [of "s\<lparr>stk := a @ xs\<rparr>"] snoc.prems by simp
  ultimately show ?case by simp
qed simp

section \<open>Counting signatures\<close>

lemma filter_product:
  "length (filter P (List.product xs ys)) = (\<Sum>x \<leftarrow> xs. length (filter (\<lambda>y. P (x, y)) ys))"
  by (induction xs) (simp_all add: filter_map comp_def)

text \<open>Every distinct signature counts once for every listed key it verifies under.\<close>

lemma validCount_sum:
  "validCount p hash sigs keys = (\<Sum>s \<in> set sigs. length (filter (\<lambda>k. VerifySignature p k hash s) keys))"
  by (simp add: validCount_def filter_product sum_list_distinct_conv_sum_set)

lemma validCount_rev: "validCount p hash (rev sigs) (rev keys) = validCount p hash sigs keys"
  by (simp add: validCount_sum rev_filter [symmetric])

lemma exec_checkmultisig:
  assumes c: "condStack vm = []" and ops: "numOps vm + 1 + int (length keys) \<le> MaxOpsPerScript"
    and addr: "addressable (dstack vm)" and fl: "flags vm = StandardVerifyFlags"
    and stk: "stk (dstack vm) = a @ [] # sigs @ numByte (length sigs) # keys @ [numByte (length keys)]"
    and n: "1 \<le> length sigs" "length sigs \<le> length keys" "length keys \<le> 16"
    and pc: "pcok vm" and sg: "engineSignable p vm"
  shows "if length sigs \<le> validCount p (keccak256 p []) sigs keys
    then executeOpcode p (plain OP_CHECKMULTISIG) vm =
      (Inr (), withStack (a @ [fromBool True]) vm\<lparr>numOps := numOps vm + 1 + int (length keys)\<rparr>)
    else fst (executeOpcode p (plain OP_CHECKMULTISIG) vm) = Inl (ScriptErr ErrNullFail)"
proof -
  let ?s = "dstack vm" and ?keyed = "a @ [] # sigs @ numByte (length sigs) # keys" and ?signed = "a @ [] # sigs @ [numByte (length sigs)]"
  let ?nk = "numOps vm + 1 + int (length keys)"
  have k: "1 \<le> length keys" "length sigs \<le> 16" using n by auto
  have i32: "Int32 (int j) = int j" if "j \<le> 16" for j using that by (simp add: Int32_def maxInt32_def minInt32_def int32_id)
  have 1: "PopInt ?s = (Inr (int (length keys)), ?s\<lparr>stk := ?keyed\<rparr>)"
    by (rule PopInt_small [OF k(1) n(3) addr]) (use stk in simp)
  have 2: "popMany (length keys) (?s\<lparr>stk := ?keyed\<rparr>) = (Inr (rev keys), ?s\<lparr>stk := ?signed\<rparr>)"
    using popMany_eq [of "?s\<lparr>stk := ?keyed\<rparr>" ?signed keys] addr stk by simp
  have 3: "PopInt (?s\<lparr>stk := ?signed\<rparr>) = (Inr (int (length sigs)), ?s\<lparr>stk := a @ [] # sigs\<rparr>)"
    using PopInt_small [OF n(1) k(2), of "?s\<lparr>stk := ?signed\<rparr>" "a @ [] # sigs"] addr stk by simp
  have 4: "popMany (length sigs) (?s\<lparr>stk := a @ [] # sigs\<rparr>) = (Inr (rev sigs), ?s\<lparr>stk := a @ [[]]\<rparr>)"
    using popMany_eq [of "?s\<lparr>stk := a @ [] # sigs\<rparr>" "a @ [[]]" sigs] addr stk by simp
  have 5: "PopByteArray (?s\<lparr>stk := a @ [[]]\<rparr>) = (Inr [], ?s\<lparr>stk := a\<rparr>)" using addr stk by simp
  have 6: "subScript (vm\<lparr>numOps := m, dstack := d\<rparr>) = Inr (drop (lastCodeSep vm) (scripts vm ! scriptIdx vm))" for m d
    using pc by (simp add: subScript_def pcok_def)
  have f: "hasFlag (vm\<lparr>numOps := m, dstack := d\<rparr>) ScriptVerifyNullFail" for m d using standard_flags fl by simp
  have ms: "opcodeCheckMultiSig p (counted vm) =
      (if length sigs \<le> validCount p (keccak256 p []) sigs keys
       then (Inr (), withStack (a @ [fromBool True]) vm\<lparr>numOps := ?nk\<rparr>)
       else (Inl (ScriptErr ErrNullFail), withStack a vm\<lparr>numOps := ?nk\<rparr>))"
    unfolding opcodeCheckMultiSig_def
    using n k ops i32 1 2 3 4 5 6 f sighash_value [OF sg]
    by (simp add: onD_def pureE_def PushBool_def MaxPubKeysPerMultiSig_def validCount_rev Let_def)
  have "executeOpcode p (plain OP_CHECKMULTISIG) vm = opcodeCheckMultiSig p (counted vm)"
    using c ops by (simp add: exec_op callOpfunc_def MaxOpsPerScript_def)
  then show ?thesis using ms by simp
qed

section \<open>Pay to script hash\<close>

abbreviation p2shPops :: "bytes \<Rightarrow> parsedOpcode list" where
  "p2shPops h \<equiv> [plain OP_HASH160, push20 h, plain OP_EQUAL]"

text \<open>The engine when the redeem script starts.\<close>

definition redeemVM :: "Transaction \<Rightarrow> nat \<Rightarrow> nat \<Rightarrow> bytes list \<Rightarrow> bytes \<Rightarrow> bytes \<Rightarrow> parsedOpcode list \<Rightarrow> 64 word \<Rightarrow> Engine" where
  "redeemVM t m i args redeem h pops amount =
     (startVM t m i (map dataPop (args @ [redeem])) (p2shPops h) amount)\<lparr>
       scripts := [map dataPop (args @ [redeem]), p2shPops h, pops], scriptIdx := 2,
       dstack := emptyStack\<lparr>stk := args\<rparr>, savedFirstStack := args @ [redeem]\<rparr>"

lemma p2sh_is: "isScriptHash (p2shPops h)"
  by (simp add: isScriptHash_def)

lemma p2sh_first:
  fixes t m i amount h redeem args
  assumes "list_all pushable (args @ [redeem])" and "length args < 1000"
  defines "vm \<equiv> startVM t m i (map dataPop (args @ [redeem])) (p2shPops h) amount"
  shows "executeLoop p vm = executeLoop p (vm\<lparr>scriptIdx := 1, dstack := emptyStack\<lparr>stk := args @ [redeem]\<rparr>,
    savedFirstStack := args @ [redeem]\<rparr>)"
proof -
  let ?ds = "args @ [redeem]"
  let ?vm1 = "withStack ?ds vm\<lparr>scriptOff := length ?ds\<rparr>"
  have "runPops p (map dataPop ?ds) vm = (Inr (), ?vm1)"
    using runPops_pushes [OF assms(1), of vm p] assms(2) by (simp add: vm_def startVM_def newVM_def)
  moreover have "getStack (dstack ?vm1) = ?ds"
    using assms(2) by (subst getStack_stk) (simp_all add: vm_def startVM_def newVM_def)
  then have "nextScript ?vm1 = (Inr False, vm\<lparr>scriptIdx := 1, dstack := emptyStack\<lparr>stk := ?ds\<rparr>,
      savedFirstStack := ?ds\<rparr>)"
    using p2sh_is [of h]
    by (simp add: nextScript_def advanceScript_def GetStack_def skipEmptyScript_def vm_def startVM_def newVM_def
        DropN_def Let_def)
  ultimately show ?thesis
    using executeLoop_runPops [of vm "[]" "map dataPop ?ds" p]
    by (simp add: afterScript_def vm_def startVM_def newVM_def)
qed

lemma p2sh_second:
  fixes t m i amount h redeem args
  assumes "length h = 20" and "length args \<le> 998"
  defines "vm \<equiv> (startVM t m i (map dataPop (args @ [redeem])) (p2shPops h) amount)\<lparr>scriptIdx := 1,
    dstack := emptyStack\<lparr>stk := args @ [redeem]\<rparr>, savedFirstStack := args @ [redeem]\<rparr>"
  shows "executeLoop p vm = afterScript p (Inr (),
    withStack (args @ [fromBool (Hash160 p redeem = h)]) vm\<lparr>numOps := 2, scriptOff := 3\<rparr>)"
proof -
  note ops = exec_hash160 [where a = args and x = redeem] exec_push20 [OF assms(1)]
    exec_equal [where a = args and x = "Hash160 p redeem" and y = h]
  have "runPops p (p2shPops h) vm = (Inr (),
      withStack (args @ [fromBool (Hash160 p redeem = h)]) vm\<lparr>numOps := 2, scriptOff := 3\<rparr>)"
    using assms(2)
    by (simp add: vm_def startVM_def newVM_def ops ready_def MaxStackSize_def MaxOpsPerScript_def int32_id)
  then show ?thesis
    using executeLoop_runPops [of vm "[]" "p2shPops h" p] by (simp add: vm_def startVM_def newVM_def)
qed

lemma p2sh_enter:
  fixes t m i amount h redeem args
  assumes "length args \<le> 998" and "parseScript redeem = (pops, None)" and "pops \<noteq> []"
  defines "vm \<equiv> (startVM t m i (map dataPop (args @ [redeem])) (p2shPops h) amount)\<lparr>scriptIdx := 1,
    dstack := emptyStack\<lparr>stk := args @ [redeem]\<rparr>, savedFirstStack := args @ [redeem]\<rparr>"
  shows "nextScript (withStack (args @ [fromBool True]) vm\<lparr>numOps := 2, scriptOff := 3\<rparr>) =
    (Inr False, redeemVM t m i args redeem h pops amount)"
proof -
  let ?b = "withStack (args @ [fromBool True]) vm\<lparr>numOps := 0, scriptOff := 0, scriptIdx := 2\<rparr>"
  have addr: "addressable \<lparr>stk = args @ [fromBool True], verifyMinimalData = True\<rparr>" using assms(1) by simp
  have "PopBool \<lparr>stk = args @ [fromBool True], verifyMinimalData = True\<rparr>
      = (Inr True, \<lparr>stk = args, verifyMinimalData = True\<rparr>)"
    using addr by (simp add: PopBool_def)
  then have "CheckErrorCondition False ?b = (Inr (), withStack args ?b)"
    using addr by (simp add: CheckErrorCondition_def onD_def vm_def startVM_def newVM_def)
  then have "enterRedeemScript ?b = (Inr (), redeemVM t m i args redeem h pops amount)"
    using assms(1,2) p2sh_is [of h]
    by (simp add: enterRedeemScript_def Let_def nth_append SetStack_def setStack_stk redeemVM_def
        vm_def startVM_def newVM_def)
  then show ?thesis using p2sh_is [of h] assms(3)
    by (simp add: nextScript_def advanceScript_def skipEmptyScript_def Let_def DropN_def
        redeemVM_def vm_def startVM_def newVM_def numeral_2_eq_2)
qed

lemma p2sh_mismatch:
  fixes t m i amount h redeem args
  assumes "length args \<le> 998"
  defines "vm \<equiv> (startVM t m i (map dataPop (args @ [redeem])) (p2shPops h) amount)\<lparr>scriptIdx := 1,
    dstack := emptyStack\<lparr>stk := args @ [redeem]\<rparr>, savedFirstStack := args @ [redeem]\<rparr>"
  shows "fst (nextScript (withStack (args @ [fromBool False]) vm\<lparr>numOps := 2, scriptOff := 3\<rparr>)) =
    Inl (ScriptErr ErrEvalFalse)"
proof -
  have "PopBool \<lparr>stk = args @ [fromBool False], verifyMinimalData = True\<rparr>
      = (Inr False, \<lparr>stk = args, verifyMinimalData = True\<rparr>)"
    using assms(1) by (simp add: PopBool_def)
  then show ?thesis using p2sh_is [of h] assms(1)
    by (simp add: nextScript_def advanceScript_def enterRedeemScript_def CheckErrorCondition_def onD_def DropN_def
        vm_def startVM_def newVM_def)
qed

text \<open>
  A pay-to-script-hash input fails if the last push does not hash to the locked value;
  otherwise it does what the redeem script does on the other pushes.
\<close>

lemma p2sh_run:
  assumes "list_all pushable (args @ [redeem])" and "length args \<le> 998" and "length h = 20"
    and "parseScript redeem = (pops, None)" and "pops \<noteq> []"
  shows "fst (ExecuteVM p (startVM t m i (map dataPop (args @ [redeem])) (p2shPops h) amount)) =
    (if Hash160 p redeem \<noteq> h then Inl (ScriptErr ErrEvalFalse)
     else fst (ExecuteVM p (redeemVM t m i args redeem h pops amount)))"
proof -
  have l: "length args < 1000" using assms(2) by simp
  note L = p2sh_first [OF assms(1) l, where p = p and t = t and m = m and i = i and h = h and amount = amount]
    p2sh_second [OF assms(3,2), where p = p and t = t and m = m and i = i and redeem = redeem and amount = amount]
  show ?thesis
  proof (cases "Hash160 p redeem = h")
    case True
    then show ?thesis using L p2sh_enter [OF assms(2,4,5), where t = t and m = m and i = i and h = h and amount = amount]
      by (simp add: ExecuteVM_def afterScript_def)
  next
    case False
    then show ?thesis using L p2sh_mismatch [OF assms(2), where t = t and m = m and i = i and redeem = redeem and h = h and amount = amount]
      by (cases "nextScript (withStack (args @ [fromBool False]) ((startVM t m i (map dataPop (args @ [redeem]))
            (p2shPops h) amount)\<lparr>scriptIdx := 1, dstack := emptyStack\<lparr>stk := args @ [redeem]\<rparr>,
            savedFirstStack := args @ [redeem]\<rparr>)\<lparr>numOps := 2, scriptOff := 3\<rparr>)")
        (simp add: ExecuteVM_def afterScript_def)
  qed
qed

section \<open>The multisignature redeem script\<close>

lemma runPops_append: "runPops p (xs @ ys) vm = bindE (runPops p xs vm) (\<lambda>_ vm. runPops p ys vm)"
proof (induction xs arbitrary: vm)
  case (Cons x xs)
  show ?case
    by (cases "executeOpcode p x (vm\<lparr>scriptOff := scriptOff vm + 1\<rparr>)";
        cases "fst (executeOpcode p x (vm\<lparr>scriptOff := scriptOff vm + 1\<rparr>))")
      (simp_all add: Cons.IH)
qed simp

lemma runPops_small:
  assumes "1 \<le> n" "n \<le> 16" "condStack vm = []" "stk (astack vm) = []" "length (stk (dstack vm)) < 1000"
  shows "runPops p [plain (0x50 + word_of_nat n)] vm =
    (Inr (), withStack (stk (dstack vm) @ [numByte n]) vm\<lparr>scriptOff := scriptOff vm + 1\<rparr>)"
  using assms exec_small [OF assms(1,2), of "vm\<lparr>scriptOff := scriptOff vm + 1\<rparr>" p]
  by (simp add: MaxStackSize_def int32_id)

lemma dataPop_push: "2 \<le> length d \<Longrightarrow> length d \<le> 75 \<Longrightarrow> dataPop d = push d"
  by (auto simp: dataPop_def)

lemma multisig_run:
  fixes redeem h amount
  assumes keys: "list_all (\<lambda>k. length k = 33) keys" and sigs: "list_all pushable sigs"
    and n: "1 \<le> length sigs" "length sigs \<le> length keys" "length keys \<le> 16"
    and sg: "signable p t (int m) (int i)"
  defines "vm \<equiv> redeemVM t m i ([] # sigs) redeem h (multisigPops (length sigs) keys) amount"
  shows "fst (ExecuteVM p vm) =
    (if length sigs \<le> validCount p (keccak256 p []) sigs keys then Inr () else Inl (ScriptErr ErrNullFail))"
proof -
  let ?vm = "\<lambda>xs o'. vm\<lparr>dstack := emptyStack\<lparr>stk := [] # sigs @ xs\<rparr>, scriptOff := o'\<rparr>"
  let ?k = "numByte (length sigs)" and ?n = "numByte (length keys)"
  let ?full = "?vm (?k # keys @ [?n]) (Suc (length keys + 2))"
  have vm0: "stk (dstack vm) = [] # sigs" "condStack vm = []" "stk (astack vm) = []" "scriptOff vm = 0"
    "vm = ?vm [] 0" by (simp_all add: vm_def redeemVM_def startVM_def newVM_def)
  have ky: "map push keys = map dataPop keys" "list_all pushable keys"
    using keys by (auto simp: list_all_iff dataPop_push pushable_def MaxScriptElementSize_def)
  have r1: "runPops p [plain (0x50 + word_of_nat (length sigs))] vm = (Inr (), ?vm [?k] 1)"
    using runPops_small [of "length sigs" vm p] n vm0 by simp (simp add: vm_def redeemVM_def startVM_def newVM_def)
  have r2: "runPops p (map push keys) (?vm [?k] 1) = (Inr (), ?vm (?k # keys) (length keys + 1))"
    unfolding ky(1) using runPops_pushes [OF ky(2), of "?vm [?k] 1" p] n vm0 by simp
  have r3: "runPops p [plain (0x50 + word_of_nat (length keys))] (?vm (?k # keys) (length keys + 1))
      = (Inr (), ?vm (?k # keys @ [?n]) (length keys + 2))"
    using runPops_small [of "length keys" "?vm (?k # keys) (length keys + 1)" p] n vm0 by simp
  have pops: "multisigPops (length sigs) keys = [plain (0x50 + word_of_nat (length sigs))] @ map push keys
      @ [plain (0x50 + word_of_nat (length keys))] @ [plain OP_CHECKMULTISIG]"
    by (simp add: multisigPops_def)
  have run: "runPops p (multisigPops (length sigs) keys) vm =
      runPops p [plain OP_CHECKMULTISIG] (?vm (?k # keys @ [?n]) (length keys + 2))"
    unfolding pops runPops_append r1 bindE_simps r2 r3 ..
  have ms: "if length sigs \<le> validCount p (keccak256 p []) sigs keys
    then executeOpcode p (plain OP_CHECKMULTISIG) ?full =
      (Inr (), withStack [fromBool True] ?full\<lparr>numOps := numOps ?full + 1 + int (length keys)\<rparr>)
    else fst (executeOpcode p (plain OP_CHECKMULTISIG) ?full) = Inl (ScriptErr ErrNullFail)"
  proof -
    have stk: "stk (dstack ?full) = [] @ [] # sigs @ ?k # keys @ [?n]" by simp
    have addr: "addressable (dstack ?full)" using n by simp
    have full: "numOps ?full + 1 + int (length keys) \<le> MaxOpsPerScript" "pcok ?full" "condStack ?full = []"
      "flags ?full = StandardVerifyFlags" "engineSignable p ?full"
      using n sg by (simp_all add: vm_def redeemVM_def startVM_def newVM_def MaxOpsPerScript_def pcok_def multisigPops_def)
    show ?thesis using exec_checkmultisig [OF full(3,1) addr full(4) stk n full(2,5)] unfolding append_Nil .
  qed
  have loop: "executeLoop p vm = afterScript p (runPops p (multisigPops (length sigs) keys) vm)"
    using executeLoop_runPops [of vm "[]" "multisigPops (length sigs) keys" p]
    by (simp add: vm_def redeemVM_def startVM_def newVM_def multisigPops_def)
  show ?thesis
  proof (cases "length sigs \<le> validCount p (keccak256 p []) sigs keys")
    case True
    let ?last = "withStack [fromBool True] ?full\<lparr>numOps := numOps ?full + 1 + int (length keys)\<rparr>"
    have "runPops p [plain OP_CHECKMULTISIG] (?vm (?k # keys @ [?n]) (length keys + 2)) = (Inr (), ?last)"
      using ms True vm0 by (simp add: MaxStackSize_def int32_def)
    moreover have "nextScript ?last = (Inr True, resetVM ?last)"
      by (subst next_plain) (simp_all add: vm_def redeemVM_def startVM_def newVM_def)
    moreover have "CheckErrorCondition True (resetVM ?last) =
        (if asBool (fromBool True) then Inr () else Inl (ScriptErr ErrEvalFalse), withStack [] (resetVM ?last))"
      by (rule check_true) (simp_all add: resetVM_def vm_def redeemVM_def startVM_def newVM_def)
    ultimately show ?thesis using True loop run by (simp add: ExecuteVM_def afterScript_def)
  next
    case False
    then show ?thesis using ms loop run
      by (cases "executeOpcode p (plain OP_CHECKMULTISIG) ?full") (simp add: ExecuteVM_def afterScript_def)
  qed
qed

end
