(* ===== verification/Sign.thy ===== *)
theory Sign
  imports Standard SigHash
begin

text \<open>
  Signing a transaction input (\<^verbatim>\<open>tokenengine/internal/txscript/sign.go\<close>).  Keys and redeem
  scripts are looked up through functions of the caller (\<^verbatim>\<open>KeyDB\<close>, \<^verbatim>\<open>ScriptDB\<close>); a nil key and a
  nil interface are \<open>None\<close>.  Merging two signature scripts calls itself on the redeem script
  and need not return: not returning is the value \<open>None\<close>.
\<close>

section \<open>Definitions\<close>

type_synonym KeyDB = "Address \<Rightarrow> serr + (PrivateKey option \<times> bool)"
type_synonym ScriptDB = "(Address \<Rightarrow> serr + bytes) option"

definition wrapErr :: "string \<Rightarrow> serr \<Rightarrow> serr" where
  "wrapErr msg e = (if e = Panic then Panic else OtherErr msg)"

definition RawTxInSignature :: "prims \<Rightarrow> Transaction \<Rightarrow> int \<Rightarrow> int \<Rightarrow> bytes \<Rightarrow> 32 word \<Rightarrow> PrivateKey option \<Rightarrow> serr + bytes" where
  "RawTxInSignature p t msgIdx idx subScript hashType key =
     bindR (CalcSignatureHash p subScript hashType t msgIdx idx) (\<lambda>hash.
     case Crypto.Sign p hash key of
       Inl e \<Rightarrow> Inl (wrapErr ''cannot sign tx input'' e)
     | Inr sg \<Rightarrow> if length sg < 64 then Inl Panic else Inr (take 64 sg))"

text \<open>The result of \<^verbatim>\<open>ScriptBuilder.Script\<close> as a value: the script, or its error.\<close>

definition scriptResult :: "bytes \<times> serr option \<Rightarrow> serr + bytes" where
  "scriptResult r = (case r of (s, None) \<Rightarrow> Inr s | (_, Some e) \<Rightarrow> Inl e)"

definition SignatureScript_fn :: "prims \<Rightarrow> Transaction \<Rightarrow> int \<Rightarrow> int \<Rightarrow> bytes \<Rightarrow> 32 word \<Rightarrow> PrivateKey option \<Rightarrow> bool \<Rightarrow> serr + bytes" where
  "SignatureScript_fn p t msgIdx idx subscript hashType privKey compress =
     bindR (RawTxInSignature p t msgIdx idx subscript hashType privKey) (\<lambda>sig.
     case privKey of
       None \<Rightarrow> Inl Panic
     | Some key \<Rightarrow>
         let pkData = (if compress then SerializeCompressed p (pubOf p key) else SerializeUncompressed p (pubOf p key))
         in scriptResult (builtScript (AddData pkData (AddData sig NewScriptBuilder))))"

definition p2pkSignatureScript :: "prims \<Rightarrow> Transaction \<Rightarrow> int \<Rightarrow> int \<Rightarrow> bytes \<Rightarrow> 32 word \<Rightarrow> PrivateKey option \<Rightarrow> serr + bytes" where
  "p2pkSignatureScript p t msgIdx idx subScript hashType privKey =
     bindR (RawTxInSignature p t msgIdx idx subScript hashType privKey) (\<lambda>sig.
     scriptResult (builtScript (AddData sig NewScriptBuilder)))"

text \<open>The loop of \<^verbatim>\<open>signMultiSig\<close>: a key that is missing or fails is skipped, a panic is not.\<close>

fun signLoop :: "(PrivateKey \<Rightarrow> serr + bytes) \<Rightarrow> KeyDB \<Rightarrow> int \<Rightarrow> Address list \<Rightarrow> ScriptBuilder \<Rightarrow> int
    \<Rightarrow> serr + (ScriptBuilder \<times> int)" where
  "signLoop raw kdb nRequired [] builder nSigned = Inr (builder, nSigned)"
| "signLoop raw kdb nRequired (addr # addrs) builder nSigned =
     (case kdb addr of
        Inl e \<Rightarrow> if e = Panic then Inl Panic else signLoop raw kdb nRequired addrs builder nSigned
      | Inr (None, _) \<Rightarrow> signLoop raw kdb nRequired addrs builder nSigned
      | Inr (Some key, _) \<Rightarrow> (case raw key of
          Inl e \<Rightarrow> if e = Panic then Inl Panic else signLoop raw kdb nRequired addrs builder nSigned
        | Inr sig \<Rightarrow>
            if nSigned + 1 = nRequired then Inr (AddData sig builder, nSigned + 1)
            else signLoop raw kdb nRequired addrs (AddData sig builder) (nSigned + 1)))"

definition signMultiSig :: "prims \<Rightarrow> Transaction \<Rightarrow> int \<Rightarrow> int \<Rightarrow> bytes \<Rightarrow> 32 word \<Rightarrow> Address list \<Rightarrow> int \<Rightarrow> KeyDB
    \<Rightarrow> serr + (bytes \<times> bool)" where
  "signMultiSig p t msgIdx idx subScript hashType addresses nRequired kdb =
     bindR (signLoop (\<lambda>key. RawTxInSignature p t msgIdx idx subScript hashType (Some key)) kdb nRequired addresses
       (AddOp OP_FALSE NewScriptBuilder) 0) (\<lambda>(builder, nSigned).
     Inr (fst (builtScript builder), nSigned = nRequired))"

definition firstAddress :: "Address list \<Rightarrow> serr + Address" where
  "firstAddress addresses = (case addresses of [] \<Rightarrow> Inl Panic | a # _ \<Rightarrow> Inr a)"

definition sign :: "prims \<Rightarrow> Transaction \<Rightarrow> int \<Rightarrow> int \<Rightarrow> bytes \<Rightarrow> 32 word \<Rightarrow> KeyDB \<Rightarrow> ScriptDB
    \<Rightarrow> serr + (bytes \<times> ScriptClass \<times> Address list \<times> int)" where
  "sign p t msgIdx idx subScript hashType kdb sdb =
     bindR (ExtractPkScriptAddrs p subScript) (\<lambda>(class, addresses, nrequired).
     case class of
       PubKeyTy \<Rightarrow>
         bindR (firstAddress addresses) (\<lambda>a.
         bindR (kdb a) (\<lambda>(key, _).
         bindR (p2pkSignatureScript p t msgIdx idx subScript hashType key) (\<lambda>scr.
         Inr (scr, class, addresses, nrequired))))
     | PubKeyHashTy \<Rightarrow>
         bindR (firstAddress addresses) (\<lambda>a.
         bindR (kdb a) (\<lambda>(key, compressed).
         bindR (SignatureScript_fn p t msgIdx idx subScript hashType key compressed) (\<lambda>scr.
         Inr (scr, class, addresses, nrequired))))
     | ScriptHashTy \<Rightarrow>
         bindR (firstAddress addresses) (\<lambda>a.
         bindR (case sdb of None \<Rightarrow> Inl Panic | Some getScript \<Rightarrow> getScript a) (\<lambda>scr.
         Inr (scr, class, addresses, nrequired)))
     | MultiSigTy \<Rightarrow>
         bindR (signMultiSig p t msgIdx idx subScript hashType addresses nrequired kdb) (\<lambda>(scr, _).
         Inr (scr, class, addresses, nrequired))
     | NullDataTy \<Rightarrow> Inl (OtherErr ''can't sign NULLDATA transactions'')
     | _ \<Rightarrow> Inl (OtherErr ''can't sign unknown transactions''))"

definition extractSigs :: "parsedOpcode list \<Rightarrow> bytes list" where
  "extractSigs pops = map dataBytes (filter (\<lambda>pop. length (dataBytes pop) = 64) pops)"

text \<open>
  The loop over the possible signatures stops when enough have been added; \<open>nRequired\<close>
  is compared after an addition, so that a number below one never stops it.
\<close>

fun mergeSigLoop :: "int \<Rightarrow> bytes list \<Rightarrow> ScriptBuilder \<Rightarrow> int \<Rightarrow> ScriptBuilder \<times> int" where
  "mergeSigLoop nRequired [] builder doneSigs = (builder, doneSigs)"
| "mergeSigLoop nRequired (sig # sigs) builder doneSigs =
     (if doneSigs + 1 = nRequired then (AddData sig builder, doneSigs + 1)
      else mergeSigLoop nRequired sigs (AddData sig builder) (doneSigs + 1))"

definition mergeMultiSig :: "int \<Rightarrow> bytes \<Rightarrow> bytes \<Rightarrow> bytes" where
  "mergeMultiSig nRequired sigScript prevScript = (case parseScript sigScript of
     (_, Some _) \<Rightarrow> prevScript
   | (sigPops, None) \<Rightarrow> if sigPops = [] then prevScript else (case parseScript prevScript of
       (_, Some _) \<Rightarrow> sigScript
     | (prevPops, None) \<Rightarrow> if prevPops = [] then sigScript
       else
         let (builder, doneSigs) = mergeSigLoop nRequired (extractSigs sigPops @ extractSigs prevPops)
               (AddOp OP_FALSE NewScriptBuilder) 0
         in fst (builtScript ((AddOp OP_0 ^^ nat (nRequired - doneSigs)) builder))))"

partial_function (option) mergeScripts :: "prims \<Rightarrow> ScriptClass \<Rightarrow> int \<Rightarrow> bytes \<Rightarrow> bytes \<Rightarrow> bytes option" where
  "mergeScripts p class nRequired sigScript prevScript =
     (if class = ScriptHashTy then
        (case parseScript sigScript of
           (_, Some _) \<Rightarrow> Some prevScript
         | (sigPops, None) \<Rightarrow> if sigPops = [] then Some prevScript else (case parseScript prevScript of
             (_, Some _) \<Rightarrow> Some sigScript
           | (prevPops, None) \<Rightarrow> if prevPops = [] then Some sigScript
             else
               let scr = dataBytes (last sigPops);
                   (class', nrequired) = (case ExtractPkScriptAddrs p scr of
                       Inl _ \<Rightarrow> (NonStandardTy, 0) | Inr (c, _, n) \<Rightarrow> (c, n));
                   sigScript' = (case unparseScript sigPops of Inl _ \<Rightarrow> [] | Inr b \<Rightarrow> b);
                   prevScript' = (case unparseScript prevPops of Inl _ \<Rightarrow> [] | Inr b \<Rightarrow> b)
               in Option.bind (mergeScripts p class' nrequired sigScript' prevScript') (\<lambda>mergedScript.
                  Some (fst (builtScript (AddData scr (AddOps mergedScript NewScriptBuilder)))))))
      else if class = MultiSigTy then Some (mergeMultiSig nRequired sigScript prevScript)
      else Some (if length sigScript > length prevScript then sigScript else prevScript))"

definition SignTxOutput :: "prims \<Rightarrow> Transaction \<Rightarrow> int \<Rightarrow> int \<Rightarrow> bytes \<Rightarrow> 32 word \<Rightarrow> KeyDB \<Rightarrow> ScriptDB \<Rightarrow> bytes
    \<Rightarrow> (serr + bytes) option" where
  "SignTxOutput p t msgIdx idx pkScript hashType kdb sdb previousScript =
     (case sign p t msgIdx idx pkScript hashType kdb sdb of
        Inl e \<Rightarrow> Some (Inl e)
      | Inr (sigScript, class, addresses, nrequired) \<Rightarrow>
          (case (if class = ScriptHashTy then
                   bindR (sign p t msgIdx idx sigScript hashType kdb sdb) (\<lambda>(realSigScript, _).
                   Inr (fst (builtScript (AddData sigScript (AddOps realSigScript NewScriptBuilder)))))
                 else Inr sigScript) of
             Inl e \<Rightarrow> Some (Inl e)
           | Inr sigScript \<Rightarrow>
               Option.bind (mergeScripts p class nrequired sigScript previousScript) (\<lambda>merged. Some (Inr merged))))"

section \<open>Merging\<close>

text \<open>
  The recursion of \<^verbatim>\<open>mergeScripts\<close> keeps both scripts: it takes the redeem script off the
  signature script, and calls itself with the script it was taken from.
\<close>

definition mergeLoops :: "prims \<Rightarrow> ScriptClass \<Rightarrow> bytes \<Rightarrow> bytes \<Rightarrow> bool" where
  "mergeLoops p class sigScript prevScript \<longleftrightarrow> class = ScriptHashTy \<and>
     (case (parseScript sigScript, parseScript prevScript) of
        ((sigPops, None), (prevPops, None)) \<Rightarrow> sigPops \<noteq> [] \<and> prevPops \<noteq> [] \<and>
          (case ExtractPkScriptAddrs p (dataBytes (last sigPops)) of Inl _ \<Rightarrow> False | Inr (c, _) \<Rightarrow> c = ScriptHashTy)
      | _ \<Rightarrow> False)"

lemma mergeScripts_plain:
  "class \<noteq> ScriptHashTy \<Longrightarrow> class \<noteq> MultiSigTy \<Longrightarrow> mergeScripts p class n sig prev =
     Some (if length sig > length prev then sig else prev)"
  "mergeScripts p MultiSigTy n sig prev = Some (mergeMultiSig n sig prev)"
  by (simp_all add: mergeScripts.simps [of p _ n sig prev])

lemma mergeScripts_ends:
  assumes "\<not> mergeLoops p class sig prev"
  shows "\<exists>r. mergeScripts p class n sig prev = Some r"
proof -
  have inner: "\<exists>r. mergeScripts p c k s q = Some r" if "c \<noteq> ScriptHashTy" for c k s q
    using that mergeScripts_plain(1) [of c p k s q] by (cases "c = MultiSigTy") (auto simp: mergeScripts_plain(2))
  obtain sp se where sp: "parseScript sig = (sp, se)" by fastforce
  obtain pp pe where pp: "parseScript prev = (pp, pe)" by fastforce
  let ?e = "case ExtractPkScriptAddrs p (dataBytes (last sp)) of Inl _ \<Rightarrow> (NonStandardTy, 0) | Inr (c, _, n) \<Rightarrow> (c, n)"
  have "fst ?e \<noteq> ScriptHashTy" if "class = ScriptHashTy" "se = None" "pe = None" "sp \<noteq> []" "pp \<noteq> []"
    using assms that sp pp by (auto simp: mergeLoops_def split: sum.splits)
  then show ?thesis
    using inner [of "fst ?e" "snd ?e"] inner [of "class" n sig prev] sp pp
    by (subst mergeScripts.simps) (auto simp: Let_def bind_eq_Some_conv split: option.split prod.split)
qed

lemma mergeScripts_loops:
  assumes "mergeScripts p class n sig prev = Some r"
  shows "\<not> mergeLoops p class sig prev"
proof (rule mergeScripts.raw_induct [OF _ assms], goal_cases)
  case (1 merge p cl n sig prev r)
  show ?case
  proof
    assume L: "mergeLoops p cl sig prev"
    then obtain sp pp x where ps: "parseScript sig = (sp, None)" "parseScript prev = (pp, None)" "sp \<noteq> []" "pp \<noteq> []"
      and x: "ExtractPkScriptAddrs p (dataBytes (last sp)) = Inr (ScriptHashTy, x)" and c: "cl = ScriptHashTy"
      by (auto simp: mergeLoops_def split: prod.splits option.splits sum.splits)
    have "unparseScript sp = Inr sig" "unparseScript pp = Inr prev" using ps parse_ok(1) by blast+
    then obtain r' where "merge p ScriptHashTy (snd x) sig prev = Some r'"
      using 1(2) ps x c by (auto simp: Let_def bind_eq_Some_conv split: prod.splits)
    then have "\<not> mergeLoops p ScriptHashTy sig prev" by (rule 1(1))
    then show False using L c by simp
  qed
qed

text \<open>C33. Merging two signature scripts returns in every case but one: it recurses for ever
  exactly when a pay-to-script-hash signature script and a previous script both parse to
  something and the redeem script is itself a pay-to-script-hash script.\<close>

theorem mergeScripts_returns_iff:
  "(\<exists>r. mergeScripts p class n sig prev = Some r) \<longleftrightarrow> \<not> mergeLoops p class sig prev"
  using mergeScripts_ends mergeScripts_loops by blast

end
