(* ===== verification/TokenApi.thy ===== *)
theory TokenApi
  imports MultiSig Sign
begin

text \<open>
  The interface of the token engine (\<^verbatim>\<open>tokenengine/api.go\<close>): lock, redeem and unlock scripts,
  addresses of lock scripts, signing and validating the inputs of a transaction.  The
  theorems put the components together: what is signed with the right keys validates, and
  what validates was unlocked as the lock script demands.
\<close>

section \<open>Definitions\<close>

definition GenerateP2PKHLockScript :: "bytes \<Rightarrow> bytes" where
  "GenerateP2PKHLockScript pubKeyHash =
     fst (builtScript (AddOp OP_CHECKSIG (AddOp OP_EQUALVERIFY (AddData pubKeyHash
       (AddOp OP_HASH160 (AddOp OP_DUP NewScriptBuilder))))))"

definition GenerateP2SHLockScript :: "bytes \<Rightarrow> bytes" where
  "GenerateP2SHLockScript redeemScriptHash =
     fst (builtScript (AddOp OP_EQUAL (AddData redeemScriptHash (AddOp OP_HASH160 NewScriptBuilder))))"

definition GenerateP2CHLockScript :: "Address \<Rightarrow> bytes" where
  "GenerateP2CHLockScript contractId =
     fst (builtScript (AddOp OP_JURY_REDEEM_EQUAL (AddData (addrBytes contractId) NewScriptBuilder)))"

text \<open>A script without a unique address yields the zero address and no error.\<close>

definition GetAddressFromScript :: "prims \<Rightarrow> bytes \<Rightarrow> serr + Address" where
  "GetAddressFromScript p lockScript =
     bindR (ExtractPkScriptAddrs p lockScript) (\<lambda>(scriptClass, addrs, _).
     if scriptClass = NonStandardTy then Inr (replicate AddressLength 0)
     else if length addrs \<noteq> 1 then Inr (replicate AddressLength 0)
     else Inr (addrs ! 0))"

definition GenerateRedeemScript :: "byte \<Rightarrow> bytes list \<Rightarrow> bytes" where
  "GenerateRedeemScript needed pubKeys =
     (if needed = 0 then []
      else if length pubKeys = 1 then
        fst (builtScript (AddOp OP_CHECKSIG (AddData (pubKeys ! 0) NewScriptBuilder)))
      else
        fst (builtScript (AddOp OP_CHECKMULTISIG (AddOp (word_of_nat (length pubKeys + 80))
          (foldl (\<lambda>b k. AddData k b) (AddOp (needed + 80) NewScriptBuilder) pubKeys)))))"

definition GenerateLockScript :: "Address \<Rightarrow> bytes" where
  "GenerateLockScript address = fst (PayToAddrScript address)"

definition GenerateP2PKHUnlockScript :: "bytes \<Rightarrow> bytes \<Rightarrow> bytes" where
  "GenerateP2PKHUnlockScript sigBytes pubKey = fst (builtScript (AddData pubKey (AddData sigBytes NewScriptBuilder)))"

definition GenerateP2SHUnlockScript :: "bytes list \<Rightarrow> bytes \<Rightarrow> bytes" where
  "GenerateP2SHUnlockScript signs redeemScript =
     fst (builtScript (AddData redeemScript (foldl (\<lambda>b s. AddData s b) NewScriptBuilder signs)))"

definition GenerateP2CHUnlockScript :: "bytes list \<Rightarrow> bytes \<Rightarrow> int \<Rightarrow> serr + bytes" where
  "GenerateP2CHUnlockScript signs redeemScript version =
     bindR (AddInt64 (int64 version) (AddData redeemScript (foldl (\<lambda>b s. AddData s b) NewScriptBuilder signs)))
       (\<lambda>b. Inr (fst (builtScript b)))"

definition ScriptValidate :: "prims \<Rightarrow> bytes \<Rightarrow> Transaction \<Rightarrow> int \<Rightarrow> int \<Rightarrow> serr + unit" where
  "ScriptValidate p utxoLockScript t msgIdx inputIndex =
     bindR (NewEngine utxoLockScript t msgIdx inputIndex StandardVerifyFlags 0) (\<lambda>vm. fst (ExecuteVM p vm))"

definition SignOnePaymentInput :: "prims \<Rightarrow> Transaction \<Rightarrow> int \<Rightarrow> int \<Rightarrow> bytes \<Rightarrow> PrivateKey option \<Rightarrow> (serr + bytes) option" where
  "SignOnePaymentInput p t msgIdx i utxoLockScript privKey =
     SignTxOutput p t msgIdx i utxoLockScript SigHashAll (\<lambda>_. Inr (privKey, True)) None []"

definition keyLookup :: "(Address \<rightharpoonup> PrivateKey) \<Rightarrow> KeyDB" where
  "keyLookup privKeys a = (case privKeys a of
     Some k \<Rightarrow> Inr (Some k, True) | None \<Rightarrow> Inl (OtherErr ''PrivateKey not exist''))"

definition MultiSignOnePaymentInput :: "prims \<Rightarrow> Transaction \<Rightarrow> int \<Rightarrow> int \<Rightarrow> bytes \<Rightarrow> bytes \<Rightarrow> (Address \<rightharpoonup> PrivateKey) \<Rightarrow> bytes
    \<Rightarrow> (serr + bytes) option" where
  "MultiSignOnePaymentInput p t msgIdx i utxoLockScript redeemScript privKeys previousScript =
     SignTxOutput p t msgIdx i utxoLockScript SigHashAll (keyLookup privKeys) (Some (\<lambda>_. Inr redeemScript)) previousScript"

text \<open>
  Signing every payment input.  A message marked as a payment with another payload and an
  input without a previous output are dereferenced; the signature is stored in the
  transaction before the next input is signed.
\<close>

definition setInputScript :: "nat \<Rightarrow> nat \<Rightarrow> bytes \<Rightarrow> Transaction \<Rightarrow> Transaction" where
  "setInputScript i j scr t = t\<lparr>TxMessages := (TxMessages t)[i := (let msg = TxMessages t ! i in
     case Payload msg of
       Payment pay \<Rightarrow> msg\<lparr>Payload := Payment (pay\<lparr>Inputs := (Inputs pay)[j := (Inputs pay ! j)\<lparr>SignatureScript := scr\<rparr>]\<rparr>)\<rparr>
     | _ \<Rightarrow> msg)]\<rparr>"

fun signInputs :: "prims \<Rightarrow> 32 word \<Rightarrow> (OutPoint \<rightharpoonup> bytes) \<Rightarrow> bytes \<Rightarrow> (Address \<rightharpoonup> PrivateKey) \<Rightarrow> (nat \<times> nat) list \<Rightarrow> Transaction
    \<Rightarrow> ((nat \<times> nat \<times> serr) list \<times> serr option \<times> Transaction) option" where
  "signInputs p hashType locks redeemScript privKeys [] t = Some ([], None, t)"
| "signInputs p hashType locks redeemScript privKeys ((i, j) # rest) t =
     (case asPayment (Payload (TxMessages t ! i)) of
        Inl e \<Rightarrow> Some ([], Some Panic, t)
      | Inr pay \<Rightarrow> (case PreviousOutPoint (Inputs pay ! j) of
          None \<Rightarrow> Some ([], Some Panic, t)
        | Some out \<Rightarrow>
            let lock = (case locks out of None \<Rightarrow> [] | Some l \<Rightarrow> l) in
            if hashType AND SigHashSingle \<noteq> SigHashSingle \<or> j < length (Outputs pay) then
              Option.bind (SignTxOutput p t (int i) (int j) lock hashType
                  (\<lambda>a. Inr (privKeys a, privKeys a \<noteq> None)) (Some (\<lambda>_. Inr redeemScript))
                  (SignatureScript (Inputs pay ! j))) (\<lambda>r. case r of
                Inl e \<Rightarrow> Some ([(i, j, e)], Some e, t)
              | Inr scr \<Rightarrow> signInputs p hashType locks redeemScript privKeys rest (setInputScript i j scr t))
            else signInputs p hashType locks redeemScript privKeys rest t))"

definition paymentInputs :: "Transaction \<Rightarrow> (nat \<times> nat) list" where
  "paymentInputs t = concat (map (\<lambda>i. if App (TxMessages t ! i) = APP_PAYMENT then
     (case Payload (TxMessages t ! i) of
        Payment pay \<Rightarrow> map (Pair i) [0..<length (Inputs pay)]
      | _ \<Rightarrow> [(i, 0)]) else []) [0..<length (TxMessages t)])"

definition SignTxAllPaymentInput :: "prims \<Rightarrow> Transaction \<Rightarrow> 32 word \<Rightarrow> (OutPoint \<rightharpoonup> bytes) \<Rightarrow> bytes \<Rightarrow> (Address \<rightharpoonup> PrivateKey)
    \<Rightarrow> ((nat \<times> nat \<times> serr) list \<times> serr option \<times> Transaction) option" where
  "SignTxAllPaymentInput p t hashType utxoLockScripts redeemScript privKeys =
     signInputs p hashType utxoLockScripts redeemScript privKeys (paymentInputs t) t"

section \<open>Pay to public key hash\<close>

lemma p2pkh_lock:
  "length h = 20 \<Longrightarrow>
   GenerateP2PKHLockScript h = [OP_DUP, OP_HASH160, OP_DATA_20] @ h @ [OP_EQUALVERIFY, OP_CHECKSIG]"
  by (simp add: GenerateP2PKHLockScript_def NewScriptBuilder_def AddOp_ok AddData_ok builtScript_def MaxScriptSize_def)

lemma p2pkh_unlock:
  assumes "2 \<le> length sig" "length sig \<le> 75" "2 \<le> length pk" "length pk \<le> 75"
  shows "GenerateP2PKHUnlockScript sig pk = word_of_nat (length sig) # sig @ word_of_nat (length pk) # pk"
    and "parseScript (GenerateP2PKHUnlockScript sig pk) = ([push sig, push pk], None)"
proof -
  show u: "GenerateP2PKHUnlockScript sig pk = word_of_nat (length sig) # sig @ word_of_nat (length pk) # pk"
    using assms by (simp add: GenerateP2PKHUnlockScript_def NewScriptBuilder_def AddData_ok builtScript_def MaxScriptSize_def)
  have "sig \<noteq> []" "pk \<noteq> []" using assms by auto
  then show "parseScript (GenerateP2PKHUnlockScript sig pk) = ([push sig, push pk], None)"
    using assms parse_push [of pk "[]"] unfolding u by (simp add: parse_push)
qed

lemma p2pkh_validation:
  assumes "spends t m i (GenerateP2PKHUnlockScript sig pk)" and "signable p t (int m) (int i)"
    and len: "2 \<le> length sig" "length sig \<le> 75" "2 \<le> length pk" "length pk \<le> 75" and "length h = 20"
  shows "ScriptValidate p (GenerateP2PKHLockScript h) t (int m) (int i) =
    (if Hash160 p pk \<noteq> h then Inl (ScriptErr ErrEqualVerify)
     else if VerifySignature p pk (keccak256 p []) sig then Inr () else Inl (ScriptErr ErrEvalFalse))"
proof -
  let ?pp = "[plain OP_DUP, plain OP_HASH160, push20 h, plain OP_EQUALVERIFY, plain OP_CHECKSIG]"
  note U = p2pkh_unlock [OF len]
  have "NewEngine (GenerateP2PKHLockScript h) t (int m) (int i) StandardVerifyFlags 0 =
      Inr (startVM t m i [push sig, push pk] ?pp 0)"
  proof (rule NewEngine_standard [OF assms(1) _ U(2)])
    show "GenerateP2PKHUnlockScript sig pk \<noteq> []" "length (GenerateP2PKHUnlockScript sig pk) \<le> MaxScriptSize"
      using len by (simp_all add: U(1) MaxScriptSize_def)
    show "parseScript (GenerateP2PKHLockScript h) = (?pp, None)"
      using parse_p2pkh assms(7) by (simp add: p2pkh_lock)
  qed (simp_all add: p2pkh_lock assms(7) MaxScriptSize_def isScriptHash_def isWitnessProgram_def)
  then show ?thesis using p2pkh_run [OF len assms(7,2)] by (simp add: ScriptValidate_def)
qed

lemma setInputScript_spends:
  assumes "m < length (TxMessages t)" "App (TxMessages t ! m) = APP_PAYMENT" "Payload (TxMessages t ! m) = Payment pay"
    "i < length (Inputs pay)"
  shows "spends (setInputScript m i scr t) m i scr"
  using assms by (simp add: spends_def setInputScript_def asPayment_def Let_def)

lemma raw_sign:
  assumes "ecdsa_correct p" and "hash_sizes p" and "signable p t m i" and "parseScript scr = (pops, None)"
    and "onS256 key" and "SignCompact p key (keccak256 p []) = Inr raw"
  obtains s where "RawTxInSignature p t m i scr SigHashAll (Some key) = Inr s" "length s = 64"
    "VerifySignature p (SerializeCompressed p (pubOf p key)) (keccak256 p []) s"
proof -
  have "length (keccak256 p []) = 32" using assms(2) by (simp add: hash_sizes_def)
  then obtain sg where sg: "Crypto.Sign p (keccak256 p []) (Some key) = Inr sg"
    using assms(1,5,6) by (auto simp: Crypto.Sign_def ecdsa_correct_def)
  note V = Sign_Verify [OF assms(1) sg]
  show thesis
    by (rule that [of "take 64 sg"])
      (use sg V assms(4) sighash_value [OF assms(3)] in \<open>simp_all add: RawTxInSignature_def CalcSignatureHash_def\<close>)
qed

section \<open>Properties\<close>

text \<open>C27. Validating a pay-to-public-key-hash input: the hash of the key must be the locked
  one, and the signature must verify, but only against the hash of the empty string.\<close>

theorem p2pkh_validate:
  assumes "spends t m i (GenerateP2PKHUnlockScript sig pk)" and "signable p t (int m) (int i)"
    and "2 \<le> length sig" and "length sig \<le> 75" and "2 \<le> length pk" and "length pk \<le> 75" and "length h = 20"
  shows "ScriptValidate p (GenerateP2PKHLockScript h) t (int m) (int i) =
    (if Hash160 p pk \<noteq> h then Inl (ScriptErr ErrEqualVerify)
     else if VerifySignature p pk (keccak256 p []) sig then Inr () else Inl (ScriptErr ErrEvalFalse))"
  by (rule p2pkh_validation [OF assms])

theorem p2pkh_validate_witness:
  "ScriptValidate demo (GenerateP2PKHLockScript (replicate 20 7))
     (exampleTx (GenerateP2PKHUnlockScript (replicate 64 1) (2 # replicate 32 1))) 0 0 = Inl (ScriptErr ErrEqualVerify)"
proof -
  have "spends (exampleTx (GenerateP2PKHUnlockScript (replicate 64 1) (2 # replicate 32 1))) 0 0
      (GenerateP2PKHUnlockScript (replicate 64 1) (2 # replicate 32 1))"
    by (simp add: spends_def asPayment_def)
  moreover have "Hash160 demo (2 # replicate 32 1) \<noteq> replicate 20 7" by code_simp
  ultimately show ?thesis
    using p2pkh_validate [of _ 0 0 "replicate 64 1" "2 # replicate 32 1" demo "replicate 20 7"] demo_signable by simp
qed

text \<open>C28. Signing then validating: whenever the curve library signs, signing an input locked to
  the hash of the key's compressed public key succeeds, and the transaction with the
  returned script in place validates.\<close>

theorem sign_then_validate:
  assumes p: "ecdsa_correct p" "hash_sizes p"
    and t: "m < length (TxMessages t)" "App (TxMessages t ! m) = APP_PAYMENT" "Payload (TxMessages t ! m) = Payment pay"
      "i < length (Inputs pay)"
    and s: "signable p t (int m) (int i)" "\<And>scr. signable p (setInputScript m i scr t) (int m) (int i)"
    and k: "onS256 key" "SignCompact p key (keccak256 p []) = Inr raw"
    and lock: "lock = GenerateP2PKHLockScript (Hash160 p (SerializeCompressed p (pubOf p key)))"
  shows "\<exists>scr. SignOnePaymentInput p t (int m) (int i) lock (Some key) = Some (Inr scr) \<and>
    ScriptValidate p lock (setInputScript m i scr t) (int m) (int i) = Inr ()"
proof -
  let ?pk = "SerializeCompressed p (pubOf p key)"
  have h: "length (Hash160 p ?pk) = 20" using p(2) by (simp add: Hash160_def hash_sizes_def)
  have pk: "length ?pk = 33" using p(1) by (simp add: ecdsa_correct_def)
  have ps: "parseScript lock = ([plain OP_DUP, plain OP_HASH160, push20 (Hash160 p ?pk), plain OP_EQUALVERIFY, plain OP_CHECKSIG], None)"
    using parse_p2pkh [OF h] by (simp add: lock p2pkh_lock h)
  obtain sg where sg: "RawTxInSignature p t (int m) (int i) lock SigHashAll (Some key) = Inr sg" "length sg = 64"
    "VerifySignature p ?pk (keccak256 p []) sg" by (rule raw_sign [OF p s(1) ps k])
  let ?scr = "GenerateP2PKHUnlockScript sg ?pk"
  have "AddData ?pk (AddData sg NewScriptBuilder) =
      \<lparr>script = ?scr, err = None\<rparr>"
    using sg(2) pk by (simp add: GenerateP2PKHUnlockScript_def NewScriptBuilder_def AddData_ok builtScript_def MaxScriptSize_def)
  then have "sign p t (int m) (int i) lock SigHashAll (\<lambda>_. Inr (Some key, True)) None =
      Inr (?scr, PubKeyHashTy, [NewAddress (Hash160 p ?pk) PublicKeyHash], 1)"
    using sg(1) ps type_p2pkh [OF h]
    by (simp add: sign_def ExtractPkScriptAddrs_def firstAddress_def SignatureScript_fn_def scriptResult_def builtScript_def)
  then have "SignOnePaymentInput p t (int m) (int i) lock (Some key) = Some (Inr ?scr)"
    using sg(2) pk by (simp add: SignOnePaymentInput_def SignTxOutput_def mergeScripts_plain p2pkh_unlock)
  moreover have "ScriptValidate p lock (setInputScript m i ?scr t) (int m) (int i) = Inr ()"
    unfolding lock
    using p2pkh_validation [OF setInputScript_spends [OF t] s(2), of sg ?pk "Hash160 p ?pk"] sg pk h by simp
  ultimately show ?thesis by blast
qed

abbreviation demoKey :: PrivateKey where
  "demoKey \<equiv> \<lparr>D = 1, onS256 = True\<rparr>"

abbreviation examplePay :: "bytes \<Rightarrow> PaymentPayload" where
  "examplePay sig \<equiv> \<lparr>Inputs = [\<lparr>PreviousOutPoint = None, SignatureScript = sig, Extra = []\<rparr>], Outputs = [], LockTime = 0\<rparr>"

lemma setInputScript_example: "setInputScript 0 0 scr (exampleTx sig) = exampleTx scr"
  by (simp add: setInputScript_def)

theorem sign_then_validate_witness:
  "\<exists>scr. SignOnePaymentInput demo (exampleTx []) 0 0 (GenerateP2PKHLockScript (Hash160 demo (2 # replicate 32 1)))
       (Some demoKey) = Some (Inr scr) \<and>
     ScriptValidate demo (GenerateP2PKHLockScript (Hash160 demo (2 # replicate 32 1))) (exampleTx scr) 0 0 = Inr ()"
proof -
  have "SignCompact demo demoKey (keccak256 demo []) = Inr (27 # keccak256 demo [] @ replicate 31 0 @ [1])"
    "SerializeCompressed demo (pubOf demo demoKey) = 2 # replicate 32 1" by (simp_all add: demo_def)
  then show ?thesis
    using sign_then_validate [OF demo_ecdsa demo_hash_sizes, of 0 "exampleTx []" "examplePay []" 0 demoKey]
      demo_signable by (simp add: setInputScript_example)
qed

section \<open>Multisignature\<close>

abbreviation redeemOf :: "nat \<Rightarrow> bytes list \<Rightarrow> bytes" where
  "redeemOf m keys \<equiv> GenerateRedeemScript (word_of_nat m) keys"

lemma key_size: "length k = 33 \<Longrightarrow> canonicalDataSize k = 34"
  by (simp add: canonicalDataSize_def)

lemma sum_key_size: "list_all (\<lambda>k. length k = 33) keys \<Longrightarrow> sum_list (map canonicalDataSize keys) = 34 * length keys"
  by (induction keys) (simp_all add: key_size)

lemma word_nat_eq_0: "(word_of_nat m :: byte) = 0 \<longleftrightarrow> 256 dvd m"
  by (simp add: word_of_nat_eq_0_iff)

lemma redeem_parse:
  assumes "1 \<le> m" and "m \<le> 16" and "2 \<le> length keys" and "length keys \<le> 16" and "list_all (\<lambda>k. length k = 33) keys"
  shows "parseScript (redeemOf m keys) = (multisigPops m keys, None)" and "length (redeemOf m keys) = 34 * length keys + 3"
proof -
  let ?b = "AddOp (0x50 + word_of_nat m) NewScriptBuilder"
  let ?f = "foldl (\<lambda>b k. AddData k b) ?b keys"
  have 0: "err NewScriptBuilder = None" "parseScript (script NewScriptBuilder) = ([], None)"
    "length (script NewScriptBuilder) = 0" by (simp_all add: NewScriptBuilder_def)
  have b: "err ?b = None" "parseScript (script ?b) = ([plain (0x50 + word_of_nat m)], None)" "length (script ?b) = 1"
    using AddOp_parse [OF 0(1,2) _ small_op_nat(4) [OF assms(1,2)]] 0(3) by (simp_all add: MaxScriptSize_def)
  have k: "list_all (\<lambda>d. length d \<le> MaxScriptElementSize) keys"
    using assms(5) by (auto simp: list_all_iff MaxScriptElementSize_def)
  note F = AddData_list [OF b(1,2) k, unfolded b(3) sum_key_size [OF assms(5)]]
  have f: "err ?f = None" "parseScript (script ?f) = (plain (0x50 + word_of_nat m) # map dataPop keys, None)"
    "length (script ?f) = 34 * length keys + 1"
    using F assms(4) by (simp_all add: MaxScriptSize_def)
  let ?n = "AddOp (0x50 + word_of_nat (length keys)) ?f"
  have n1: "1 \<le> length keys" using assms(3) by simp
  have n: "err ?n = None" "parseScript (script ?n) = (plain (0x50 + word_of_nat m) # map dataPop keys @
      [plain (0x50 + word_of_nat (length keys))], None)" "length (script ?n) = 34 * length keys + 2"
    using AddOp_parse [OF f(1,2) _ small_op_nat(4) [OF n1 assms(4)]] f(3) assms(4) by (simp_all add: MaxScriptSize_def)
  let ?c = "AddOp OP_CHECKMULTISIG ?n"
  have c: "parseScript (script ?c) = (plain (0x50 + word_of_nat m) # map dataPop keys @
      [plain (0x50 + word_of_nat (length keys))] @ [plain OP_CHECKMULTISIG], None)" "length (script ?c) = 34 * length keys + 3"
    using AddOp_parse [OF n(1,2), of OP_CHECKMULTISIG] n(3) assms(4) by (simp_all add: MaxScriptSize_def)
  have "(word_of_nat m :: byte) \<noteq> 0"
    using assms(1,2) by (auto simp: word_nat_eq_0 dest: dvd_imp_le)
  then have "redeemOf m keys = script ?c"
    using assms(3) by (simp add: GenerateRedeemScript_def builtScript_def add.commute)
  moreover have "map dataPop keys = map push keys" using assms(5) by (auto simp: list_all_iff dataPop_push)
  ultimately show "parseScript (redeemOf m keys) = (multisigPops m keys, None)"
      "length (redeemOf m keys) = 34 * length keys + 3"
    using c by (simp_all add: multisigPops_def)
qed

lemma dataPop_pushOnly: "list_all pushable ds \<Longrightarrow> isPushOnly (map dataPop ds)"
proof -
  have "opvalue (opcode (dataPop d)) \<le> OP_16" if "pushable d" for d
  proof (cases "d = [] \<or> length d > 75")
    case False
    then have "(word_of_nat (length d) :: byte) \<le> 96" using byte_le_nat [of "length d" 96] by simp
    then show ?thesis using False that by (auto simp: dataPop_def pushable_def)
  qed (auto simp: dataPop_def)
  then show "list_all pushable ds \<Longrightarrow> isPushOnly (map dataPop ds)"
    by (auto simp: isPushOnly_def list_all_iff not_less)
qed

lemma p2sh_lock: "length h = 20 \<Longrightarrow> GenerateP2SHLockScript h = [OP_HASH160, OP_DATA_20] @ h @ [OP_EQUAL]"
  by (simp add: GenerateP2SHLockScript_def NewScriptBuilder_def AddOp_ok AddData_ok builtScript_def MaxScriptSize_def)

lemma p2sh_unlock:
  assumes "list_all pushable (args @ [redeem])" and "sum_list (map canonicalDataSize (args @ [redeem])) \<le> MaxScriptSize"
  shows "parseScript (GenerateP2SHUnlockScript args redeem) = (map dataPop (args @ [redeem]), None)"
    and "length (GenerateP2SHUnlockScript args redeem) = sum_list (map canonicalDataSize (args @ [redeem]))"
proof -
  have 0: "err NewScriptBuilder = None" "parseScript (script NewScriptBuilder) = ([], None)"
    "length (script NewScriptBuilder) = 0" by (simp_all add: NewScriptBuilder_def)
  have "list_all (\<lambda>d. length d \<le> MaxScriptElementSize) (args @ [redeem])"
    using assms(1) by (auto simp: list_all_iff pushable_def)
  note F = AddData_list [OF 0(1,2) this, unfolded 0(3)]
  have "GenerateP2SHUnlockScript args redeem = script (foldl (\<lambda>b d. AddData d b) NewScriptBuilder (args @ [redeem]))"
    by (simp add: GenerateP2SHUnlockScript_def builtScript_def)
  then show "parseScript (GenerateP2SHUnlockScript args redeem) = (map dataPop (args @ [redeem]), None)"
    "length (GenerateP2SHUnlockScript args redeem) = sum_list (map canonicalDataSize (args @ [redeem]))"
    using F assms(2) by simp_all
qed

text \<open>Any pay-to-script-hash input validates as its redeem script does on the other pushes.\<close>

lemma p2sh_validation:
  assumes "spends t m i (GenerateP2SHUnlockScript args redeem)"
    and push: "list_all pushable (args @ [redeem])" "sum_list (map canonicalDataSize (args @ [redeem])) \<le> MaxScriptSize"
    and "length args \<le> 998" and "length h = 20" and "parseScript redeem = (pops, None)" and "pops \<noteq> []"
  shows "ScriptValidate p (GenerateP2SHLockScript h) t (int m) (int i) =
    (if Hash160 p redeem \<noteq> h then Inl (ScriptErr ErrEvalFalse)
     else fst (ExecuteVM p (redeemVM t m i args redeem h pops 0)))"
proof -
  note U = p2sh_unlock [OF push]
  have "NewEngine (GenerateP2SHLockScript h) t (int m) (int i) StandardVerifyFlags 0 =
      Inr (startVM t m i (map dataPop (args @ [redeem])) (p2shPops h) 0)"
  proof (rule NewEngine_standard [OF assms(1) _ U(1)])
    show "length (GenerateP2SHUnlockScript args redeem) \<le> MaxScriptSize" using U(2) push(2) by simp
    show "GenerateP2SHUnlockScript args redeem \<noteq> []" using U(1) by auto
    show "parseScript (GenerateP2SHLockScript h) = (p2shPops h, None)"
      using parse_p2sh assms(5) by (simp add: p2sh_lock)
    show "isScriptHash (p2shPops h) \<longrightarrow> isPushOnly (map dataPop (args @ [redeem]))"
      using dataPop_pushOnly [OF push(1)] by blast
  qed (simp_all add: p2sh_lock assms(5) MaxScriptSize_def isWitnessProgram_def)
  then show ?thesis using p2sh_run [OF push(1) assms(4-7)] by (simp add: ScriptValidate_def)
qed

lemma multisig_validation:
  assumes sp: "spends t m i (GenerateP2SHUnlockScript ([] # sigs) (redeemOf (length sigs) keys))"
    and sg: "signable p t (int m) (int i)" and hs: "hash_sizes p"
    and keys: "list_all (\<lambda>k. length k = 33) keys" "2 \<le> length keys" "length keys \<le> 15"
    and sigs: "list_all (\<lambda>s. length s = 64) sigs" "1 \<le> length sigs" "length sigs \<le> length keys"
  shows "ScriptValidate p (GenerateP2SHLockScript (Hash160 p (redeemOf (length sigs) keys))) t (int m) (int i) =
    (if length sigs \<le> validCount p (keccak256 p []) sigs keys then Inr () else Inl (ScriptErr ErrNullFail))"
proof -
  let ?r = "redeemOf (length sigs) keys"
  have n: "length sigs \<le> 16" "length keys \<le> 16" using keys sigs by simp_all
  note R = redeem_parse [OF sigs(2) n(1) keys(2) n(2) keys(1)]
  have ps: "list_all pushable sigs" using sigs(1) by (auto simp: list_all_iff pushable_def MaxScriptElementSize_def)
  have pr: "pushable ?r" using R(2) keys(3) by (simp add: pushable_def MaxScriptElementSize_def)
  have "canonicalDataSize s = 65" if "length s = 64" for s using that by (simp add: canonicalDataSize_def)
  then have "sum_list (map canonicalDataSize sigs) = 65 * length sigs"
    using sigs(1) by (induction sigs) auto
  moreover have "canonicalDataSize ?r \<le> 521" using R(2) keys by (auto simp: canonicalDataSize_def Let_def)
  ultimately have size: "sum_list (map canonicalDataSize (([] # sigs) @ [?r])) \<le> MaxScriptSize"
    using n by (simp add: MaxScriptSize_def canonicalDataSize_def [of "[]"])
  have h: "length (Hash160 p ?r) = 20" using hs by (simp add: Hash160_def hash_sizes_def)
  have "ScriptValidate p (GenerateP2SHLockScript (Hash160 p ?r)) t (int m) (int i) =
      fst (ExecuteVM p (redeemVM t m i ([] # sigs) ?r (Hash160 p ?r) (multisigPops (length sigs) keys) 0))"
    using p2sh_validation [OF sp _ size _ h R(1)] ps pr n by (simp add: pushable_def multisigPops_def)
  then show ?thesis using multisig_run [OF keys(1) ps sigs(2,3) n(2) sg] by simp
qed

lemma validCount_one_key:
  assumes "key \<in> set keys" and "list_all (\<lambda>s. VerifySignature p key hash s) sigs" and "distinct sigs"
  shows "length sigs \<le> validCount p hash sigs keys"
proof -
  have "1 \<le> length (filter (\<lambda>k. VerifySignature p k hash s) keys)" if "s \<in> set sigs" for s
  proof -
    have "key \<in> set (filter (\<lambda>k. VerifySignature p k hash s) keys)" using assms(1,2) that by (auto simp: list_all_iff)
    then show ?thesis by (cases "filter (\<lambda>k. VerifySignature p k hash s) keys") auto
  qed
  then have "(\<Sum>s \<in> set sigs. 1) \<le> validCount p hash sigs keys" unfolding validCount_sum by (rule sum_mono)
  then show ?thesis using assms(3) by (simp add: distinct_card)
qed

text \<open>C29. Validating a multisignature pay-to-script-hash input: it succeeds exactly when the
  distinct signatures, each counted once for every listed key it verifies under, are as
  many as the redeem script requires; otherwise the strict rules report a failed check.\<close>

theorem multisig_validate:
  assumes "spends t m i (GenerateP2SHUnlockScript ([] # sigs) (redeemOf (length sigs) keys))"
    and "signable p t (int m) (int i)" and "hash_sizes p"
    and "list_all (\<lambda>k. length k = 33) keys" and "2 \<le> length keys" and "length keys \<le> 15"
    and "list_all (\<lambda>s. length s = 64) sigs" and "1 \<le> length sigs" and "length sigs \<le> length keys"
  shows "ScriptValidate p (GenerateP2SHLockScript (Hash160 p (redeemOf (length sigs) keys))) t (int m) (int i) =
    (if length sigs \<le> (\<Sum>s \<in> set sigs. length (filter (\<lambda>k. VerifySignature p k (keccak256 p []) s) keys))
     then Inr () else Inl (ScriptErr ErrNullFail))"
  using multisig_validation [OF assms] by (simp add: validCount_sum)

abbreviation demoSig :: "byte \<Rightarrow> bytes" where
  "demoSig b \<equiv> replicate 63 0 @ [b]"

abbreviation demoKeys :: "bytes list" where
  "demoKeys \<equiv> [2 # replicate 32 1, 3 # replicate 32 7, 2 # replicate 32 9]"

abbreviation demoSpend :: "bytes list \<Rightarrow> Transaction" where
  "demoSpend sigs \<equiv> exampleTx (GenerateP2SHUnlockScript ([] # sigs) (redeemOf (length sigs) demoKeys))"

lemma demo_spends: "spends (demoSpend sigs) 0 0 (GenerateP2SHUnlockScript ([] # sigs) (redeemOf (length sigs) demoKeys))"
  by (simp add: spends_def asPayment_def)

theorem multisig_validate_witness:
  "ScriptValidate demo (GenerateP2SHLockScript (Hash160 demo (redeemOf 1 demoKeys))) (demoSpend [demoSig 4]) 0 0
    = Inl (ScriptErr ErrNullFail)"
proof -
  have "(\<Sum>s \<in> set [demoSig 4]. length (filter (\<lambda>k. VerifySignature demo k (keccak256 demo []) s) demoKeys)) = 0"
    by code_simp
  then show ?thesis
    using multisig_validate [of "demoSpend [demoSig 4]" 0 0 "[demoSig 4]" demoKeys demo] demo_spends [of "[demoSig 4]"]
      demo_signable demo_hash_sizes by simp
qed

text \<open>C30. One signer is enough.  The check counts signatures, not keys: a single key holder
  with as many different signatures as the script requires spends an output locked to
  several keys.\<close>

theorem multisig_one_signer:
  assumes "spends t m i (GenerateP2SHUnlockScript ([] # sigs) (redeemOf (length sigs) keys))"
    and "signable p t (int m) (int i)" and "hash_sizes p"
    and "list_all (\<lambda>k. length k = 33) keys" and "2 \<le> length keys" and "length keys \<le> 15"
    and "list_all (\<lambda>s. length s = 64) sigs" and "1 \<le> length sigs" and "length sigs \<le> length keys"
    and "key \<in> set keys" and "list_all (\<lambda>s. VerifySignature p key (keccak256 p []) s) sigs" and "distinct sigs"
  shows "ScriptValidate p (GenerateP2SHLockScript (Hash160 p (redeemOf (length sigs) keys))) t (int m) (int i) = Inr ()"
  using multisig_validation [OF assms(1-9)] validCount_one_key [OF assms(10-12)] by simp

theorem multisig_one_signer_witness:
  "ScriptValidate demo (GenerateP2SHLockScript (Hash160 demo (redeemOf 2 demoKeys))) (demoSpend [demoSig 1, demoSig 2]) 0 0
    = Inr ()"
proof -
  have "list_all (\<lambda>s. VerifySignature demo (2 # replicate 32 1) (keccak256 demo []) s) [demoSig 1, demoSig 2]" by code_simp
  then show ?thesis
    using multisig_one_signer [of "demoSpend [demoSig 1, demoSig 2]" 0 0 "[demoSig 1, demoSig 2]" demoKeys demo
        "2 # replicate 32 1"] demo_spends [of "[demoSig 1, demoSig 2]"] demo_signable demo_hash_sizes
    by (simp add: numeral_2_eq_2)
qed

text \<open>C31. The address read from a lock script made for an address is that address, for each of
  the three kinds of address.\<close>

theorem lock_script_address:
  assumes "length a = 21" and "GetType a \<in> {PublicKeyHash, ScriptHash, ContractHash}"
  shows "GetAddressFromScript p (GenerateLockScript a) = Inr a"
proof -
  obtain s where "PayToAddrScript a = (s, None)" "ExtractPkScriptAddrs p s = Inr (addrClass a, [a], 1)"
    using extract_payment [OF assms] .
  then show ?thesis
    by (simp add: GetAddressFromScript_def GenerateLockScript_def addrClass_def split: if_splits)
qed

theorem lock_script_address_witness:
  "GetAddressFromScript demo (GenerateLockScript (replicate 20 5 @ [ScriptHash])) = Inr (replicate 20 5 @ [ScriptHash])"
  by (rule lock_script_address) (simp_all add: GetType_def nth_append)

text \<open>A redeem script is recognised: from the script made for two to sixteen compressed keys
  the extraction recovers the class, the addresses of the keys in order, and the number of
  signatures required.\<close>

theorem redeem_script_recognised:
  assumes "1 \<le> m" and "m \<le> 16" and "2 \<le> length keys" and "length keys \<le> 16"
    and "list_all (\<lambda>k. length k = 33) keys"
  shows "ExtractPkScriptAddrs p (GenerateRedeemScript (word_of_nat m) keys) =
    Inr (MultiSigTy, map (PubkeyBytesToAddress p) keys, int m)"
  by (rule extract_multisig [OF assms(1,2) _ assms(4,5) redeem_parse(1) [OF assms]]) (use assms(3) in simp)

theorem redeem_script_recognised_witness:
  "ExtractPkScriptAddrs demo (GenerateRedeemScript (word_of_nat 2) [2 # replicate 32 1, 3 # replicate 32 7]) =
    Inr (MultiSigTy, map (PubkeyBytesToAddress demo) [2 # replicate 32 1, 3 # replicate 32 7], int 2)"
  by (rule redeem_script_recognised) simp_all

section \<open>Signing for several keys\<close>

lemma fiber_sum: "length xs = (\<Sum>y \<in> f ` set xs. length (filter (\<lambda>x. f x = y) xs))"
proof -
  have "(\<Sum>y \<in> f ` set xs. length (filter (\<lambda>x. f x = y) xs)) = (\<Sum>y \<in> f ` set xs. card {i. i < length xs \<and> f (xs ! i) = y})"
    by (simp add: length_filter_conv_card)
  also have "\<dots> = card (\<Union>y \<in> f ` set xs. {i. i < length xs \<and> f (xs ! i) = y})"
    by (rule card_UN_disjoint [symmetric]) auto
  also have "(\<Union>y \<in> f ` set xs. {i. i < length xs \<and> f (xs ! i) = y}) = {..<length xs}" using nth_mem by fastforce
  finally show ?thesis by simp
qed

lemma validCount_signers:
  assumes "\<And>k. k \<in> set ks \<Longrightarrow> VerifySignature p k hash (sg k)"
    and sub: "\<And>P. length (filter P ks) \<le> length (filter P keys)"
  shows "length ks \<le> validCount p hash (map sg ks) keys"
proof -
  have "length ks = (\<Sum>s \<in> sg ` set ks. length (filter (\<lambda>k. sg k = s) ks))" by (rule fiber_sum)
  also have "\<dots> \<le> (\<Sum>s \<in> sg ` set ks. length (filter (\<lambda>k. VerifySignature p k hash s) keys))"
  proof (rule sum_mono)
    fix s
    have "filter (\<lambda>k. sg k = s) ks = filter (\<lambda>k. sg k = s) (filter (\<lambda>k. VerifySignature p k hash s) ks)"
      using assms(1) by (auto intro!: filter_cong)
    then have "length (filter (\<lambda>k. sg k = s) ks) \<le> length (filter (\<lambda>k. VerifySignature p k hash s) ks)"
      by (metis length_filter_le)
    then show "length (filter (\<lambda>k. sg k = s) ks) \<le> length (filter (\<lambda>k. VerifySignature p k hash s) keys)"
      using sub order_trans by blast
  qed
  finally show ?thesis by (simp add: validCount_sum)
qed

lemma filter_take_le: "length (filter P (take n (filter Q xs))) \<le> length (filter P xs)"
proof -
  have "length (filter P (take n (filter Q xs))) \<le> length (filter P (filter Q xs))"
    by (metis append_take_drop_id filter_append le_add1 length_append)
  also have "\<dots> \<le> length (filter P xs)" by (induction xs) auto
  finally show ?thesis .
qed

text \<open>The signing loop takes the first keys that are known, up to the number required.\<close>

lemma signLoop_eq:
  assumes "\<And>k prv. k \<in> set keys \<Longrightarrow> privKeys (addr k) = Some prv \<Longrightarrow> raw prv = Inr (sg k)" and "n < nReq"
  shows "signLoop raw (keyLookup privKeys) (int nReq) (map addr keys) b (int n) =
    (let ks = take (nReq - n) (filter (\<lambda>k. privKeys (addr k) \<noteq> None) keys)
     in Inr (foldl (\<lambda>b d. AddData d b) b (map sg ks), int (n + length ks)))"
  using assms
proof (induction keys arbitrary: b n)
  case (Cons k keys)
  show ?case
  proof (cases "privKeys (addr k)")
    case None
    then show ?thesis using Cons.IH [of n b] Cons.prems by (simp add: keyLookup_def)
  next
    case (Some prv)
    then have r: "raw prv = Inr (sg k)" "keyLookup privKeys (addr k) = Inr (Some prv, True)"
      using Cons.prems(1) by (simp_all add: keyLookup_def)
    show ?thesis
    proof (cases "Suc n = nReq")
      case True
      then show ?thesis using Some r by (auto simp: Let_def)
    next
      case False
      then have "Suc n < nReq" using Cons.prems(2) by simp
      then have IH: "signLoop raw (keyLookup privKeys) (int nReq) (map addr keys) (AddData (sg k) b) (int (Suc n)) =
        (let ks = take (nReq - Suc n) (filter (\<lambda>k. privKeys (addr k) \<noteq> None) keys)
         in Inr (foldl (\<lambda>b d. AddData d b) (AddData (sg k) b) (map sg ks), int (Suc n + length ks)))"
        using Cons.IH [of "Suc n" "AddData (sg k) b"] Cons.prems(1) by simp
      have "take (nReq - n) (k # ks) = k # take (nReq - Suc n) ks" for ks
        using Cons.prems(2) by (cases "nReq - n") (auto simp: Suc_diff_Suc [symmetric])
      moreover have "int n + 1 \<noteq> int nReq" using False by linarith
      ultimately show ?thesis using Some r IH by (simp add: Let_def ac_simps)
    qed
  qed
qed simp

lemma AddData_nil: "AddData [] NewScriptBuilder = AddOp OP_0 NewScriptBuilder"
  by (simp add: AddData_def AddOp_def NewScriptBuilder_def addData_def canonicalDataSize_def MaxScriptSize_def)

lemma mergeScripts_noprev:
  "parseScript sig = (pops, None) \<Longrightarrow> pops \<noteq> [] \<Longrightarrow> mergeScripts p ScriptHashTy n sig [] = Some sig"
  by (subst mergeScripts.simps) simp

lemma multisign_script:
  assumes lock: "length h = 20" and red: "1 \<le> n" "n \<le> 15" "2 \<le> length keys" "length keys \<le> 15" "list_all (\<lambda>k. length k = 33) keys"
    and raw: "\<And>k prv. k \<in> set keys \<Longrightarrow> privKeys (PubkeyBytesToAddress p k) = Some prv \<Longrightarrow>
      RawTxInSignature p t m i (redeemOf n keys) SigHashAll (Some prv) = Inr (sg k)"
    and ks: "ks = take n (filter (\<lambda>k. privKeys (PubkeyBytesToAddress p k) \<noteq> None) keys)"
    and len: "list_all (\<lambda>k. length (sg k) = 64) ks"
  shows "MultiSignOnePaymentInput p t m i (GenerateP2SHLockScript h) (redeemOf n keys) privKeys [] =
    Some (Inr (GenerateP2SHUnlockScript ([] # map sg ks) (redeemOf n keys)))"
proof -
  let ?r = "redeemOf n keys" and ?args = "[] # map sg ks"
  have n16: "n \<le> 16" "length keys \<le> 16" using red by simp_all
  note R = redeem_parse [OF red(1) n16(1) red(3) n16(2) red(5)]
  have nk: "length ks \<le> 15" using ks red(2) by simp
  have "canonicalDataSize s = 65" if "length s = 64" for s using that by (simp add: canonicalDataSize_def)
  then have "sum_list (map canonicalDataSize (map sg ks)) = 65 * length ks" using len by (induction ks) auto
  moreover have "canonicalDataSize ?r \<le> 521" using R(2) red by (auto simp: canonicalDataSize_def Let_def)
  ultimately have size: "sum_list (map canonicalDataSize (?args @ [?r])) \<le> MaxScriptSize"
    "sum_list (map canonicalDataSize ?args) \<le> MaxScriptSize"
    using nk by (simp_all add: MaxScriptSize_def canonicalDataSize_def [of "[]"])
  have push: "list_all pushable (?args @ [?r])" using len R(2) red
    by (auto simp: list_all_iff pushable_def MaxScriptElementSize_def)
  have 0: "err NewScriptBuilder = None" "parseScript (script NewScriptBuilder) = ([], None)"
    "length (script NewScriptBuilder) = 0" by (simp_all add: NewScriptBuilder_def)
  let ?b = "foldl (\<lambda>b d. AddData d b) NewScriptBuilder ?args"
  have "list_all (\<lambda>d. length d \<le> MaxScriptElementSize) ?args" using push by (auto simp: list_all_iff pushable_def)
  note F = AddData_list [OF 0(1,2) this, unfolded 0(3)]
  have fit: "length (script ?b) \<le> MaxScriptSize" and ok: "err ?b = None" using F size(2) by simp_all
  have b: "AddOps (script ?b) NewScriptBuilder = ?b"
    using fit ok by (cases ?b) (simp add: AddOps_def NewScriptBuilder_def)
  have "signLoop (\<lambda>key. RawTxInSignature p t m i ?r SigHashAll (Some key)) (keyLookup privKeys) (int n)
      (map (PubkeyBytesToAddress p) keys) (AddOp OP_FALSE NewScriptBuilder) 0 = Inr (?b, int (length ks))"
    using signLoop_eq [of keys privKeys "PubkeyBytesToAddress p" _ sg 0 n] raw red(1) ks
    by (simp add: Let_def AddData_nil)
  then have s2: "sign p t m i ?r SigHashAll (keyLookup privKeys) (Some (\<lambda>_. Inr ?r)) =
      Inr (script ?b, MultiSigTy, map (PubkeyBytesToAddress p) keys, int n)"
    using extract_multisig [OF red(1) n16(1) _ n16(2) red(5) R(1), of p] red(3)
    by (simp add: sign_def signMultiSig_def builtScript_def)
  have s1: "sign p t m i (GenerateP2SHLockScript h) SigHashAll (keyLookup privKeys) (Some (\<lambda>_. Inr ?r)) =
      Inr (?r, ScriptHashTy, [NewAddress h ScriptHash], 1)"
    using parse_p2sh [OF lock] type_p2sh [OF lock]
    by (simp add: sign_def ExtractPkScriptAddrs_def p2sh_lock lock firstAddress_def)
  note U = p2sh_unlock [OF push size(1)]
  have "fst (builtScript (AddData ?r (AddOps (script ?b) NewScriptBuilder))) = GenerateP2SHUnlockScript ?args ?r"
    unfolding b by (simp add: GenerateP2SHUnlockScript_def builtScript_def)
  then show ?thesis
    using s1 s2 mergeScripts_noprev [OF U(1)] by (simp add: MultiSignOnePaymentInput_def SignTxOutput_def)
qed

text \<open>C32. Signing for a multisignature script: when the key lookup gives, for the addresses
  of enough of the listed keys, private keys whose public keys are the listed ones,
  \<^term>\<open>MultiSignOnePaymentInput\<close> returns an unlock script, and the transaction that carries
  it validates.\<close>

theorem multisig_sign_then_validate:
  assumes p: "ecdsa_correct p" "hash_sizes p"
    and t: "m < length (TxMessages t)" "App (TxMessages t ! m) = APP_PAYMENT" "Payload (TxMessages t ! m) = Payment pay"
      "i < length (Inputs pay)"
    and s: "signable p t (int m) (int i)" "\<And>scr. signable p (setInputScript m i scr t) (int m) (int i)"
    and n: "1 \<le> n" "n \<le> length keys" "2 \<le> length keys" "length keys \<le> 15" "list_all (\<lambda>k. length k = 33) keys"
    and book: "\<And>k prv. k \<in> set keys \<Longrightarrow> privKeys (PubkeyBytesToAddress p k) = Some prv \<Longrightarrow>
      k = SerializeCompressed p (pubOf p prv) \<and> onS256 prv \<and> (\<exists>raw. SignCompact p prv (keccak256 p []) = Inr raw)"
    and enough: "n \<le> length (filter (\<lambda>k. privKeys (PubkeyBytesToAddress p k) \<noteq> None) keys)"
    and lock: "lock = GenerateP2SHLockScript (Hash160 p (redeemOf n keys))"
  shows "\<exists>scr. MultiSignOnePaymentInput p t (int m) (int i) lock (redeemOf n keys) privKeys [] = Some (Inr scr) \<and>
    ScriptValidate p lock (setInputScript m i scr t) (int m) (int i) = Inr ()"
proof -
  let ?r = "redeemOf n keys" and ?ks = "take n (filter (\<lambda>k. privKeys (PubkeyBytesToAddress p k) \<noteq> None) keys)"
  let ?raw = "\<lambda>prv. RawTxInSignature p t (int m) (int i) ?r SigHashAll (Some prv)"
  define sg where "sg k = projr (?raw (the (privKeys (PubkeyBytesToAddress p k))))" for k
  have n16: "n \<le> 16" "length keys \<le> 16" "n \<le> 15" using n by simp_all
  note R = redeem_parse [OF n(1) n16(1) n(3) n16(2) n(5)]
  have sg: "?raw prv = Inr (sg k)" "length (sg k) = 64" "VerifySignature p k (keccak256 p []) (sg k)"
    if kp: "k \<in> set keys" "privKeys (PubkeyBytesToAddress p k) = Some prv" for k prv
  proof -
    obtain raw where B: "k = SerializeCompressed p (pubOf p prv)" "onS256 prv" "SignCompact p prv (keccak256 p []) = Inr raw"
      using book [OF kp] by blast
    obtain x where "?raw prv = Inr x" "length x = 64" "VerifySignature p k (keccak256 p []) x"
      using raw_sign [OF p s(1) R(1) B(2,3)] B(1) by metis
    then show "?raw prv = Inr (sg k)" "length (sg k) = 64" "VerifySignature p k (keccak256 p []) (sg k)"
      using kp(2) by (simp_all add: sg_def)
  qed
  have "set ?ks \<subseteq> {k \<in> set keys. privKeys (PubkeyBytesToAddress p k) \<noteq> None}" by (auto dest: in_set_takeD)
  then have K: "length (sg k) = 64" "VerifySignature p k (keccak256 p []) (sg k)" if "k \<in> set ?ks" for k
    using that sg(2,3) by blast+
  let ?sigs = "map sg ?ks"
  have len: "length ?sigs = n" using enough by simp
  have l64: "list_all (\<lambda>k. length (sg k) = 64) ?ks" "list_all (\<lambda>x. length x = 64) ?sigs" using K(1) by (auto simp: list_all_iff)
  have h: "length (Hash160 p ?r) = 20" using p(2) by (simp add: Hash160_def hash_sizes_def)
  let ?scr = "GenerateP2SHUnlockScript ([] # ?sigs) ?r"
  have "MultiSignOnePaymentInput p t (int m) (int i) lock ?r privKeys [] = Some (Inr ?scr)"
    unfolding lock by (rule multisign_script [OF h n(1) n16(3) n(3-5) sg(1) refl l64(1)])
  moreover have "length ?ks \<le> validCount p (keccak256 p []) ?sigs keys"
    by (rule validCount_signers [OF K(2) filter_take_le])
  then have "ScriptValidate p lock (setInputScript m i ?scr t) (int m) (int i) = Inr ()"
    using multisig_validation [OF _ s(2) p(2) n(5,3,4) l64(2), of ?scr, unfolded len]
      setInputScript_spends [OF t, of ?scr] n(1,2) len by (simp add: lock)
  ultimately show ?thesis by blast
qed

abbreviation demoBook :: "Address \<Rightarrow> PrivateKey option" where
  "demoBook a \<equiv> (if a = PubkeyBytesToAddress demo (2 # replicate 32 1) then Some demoKey else None)"

theorem multisig_sign_then_validate_witness:
  "\<exists>scr. MultiSignOnePaymentInput demo (exampleTx []) 0 0 (GenerateP2SHLockScript (Hash160 demo (redeemOf 1 demoKeys)))
      (redeemOf 1 demoKeys) demoBook [] = Some (Inr scr) \<and>
    ScriptValidate demo (GenerateP2SHLockScript (Hash160 demo (redeemOf 1 demoKeys))) (exampleTx scr) 0 0 = Inr ()"
proof -
  have d: "SignCompact demo demoKey (keccak256 demo []) = Inr (27 # keccak256 demo [] @ replicate 31 0 @ [1])"
    "SerializeCompressed demo (pubOf demo demoKey) = 2 # replicate 32 1" by (simp_all add: demo_def)
  have "map (\<lambda>k. demoBook (PubkeyBytesToAddress demo k)) demoKeys = [Some demoKey, None, None]" by code_simp
  then have b: "demoBook (PubkeyBytesToAddress demo (2 # replicate 32 1)) = Some demoKey"
    "demoBook (PubkeyBytesToAddress demo (3 # replicate 32 7)) = None"
    "demoBook (PubkeyBytesToAddress demo (2 # replicate 32 9)) = None" by (simp_all only: list.map list.inject)
  have "k = SerializeCompressed demo (pubOf demo prv) \<and> onS256 prv \<and>
      (\<exists>raw. SignCompact demo prv (keccak256 demo []) = Inr raw)"
    if k: "k \<in> set demoKeys" and prv: "demoBook (PubkeyBytesToAddress demo k) = Some prv" for k prv
  proof -
    have "k = 2 # replicate 32 1" using k prv b(2,3) by (cases "k = 2 # replicate 32 1") auto
    moreover have "prv = demoKey" using prv by (simp split: if_splits)
    ultimately show ?thesis using d by simp
  qed
  then show ?thesis
    using multisig_sign_then_validate [OF demo_ecdsa demo_hash_sizes, of 0 "exampleTx []" "examplePay []" 0 1 demoKeys
        demoBook] demo_signable b by (simp add: setInputScript_example)
qed

end
