(* ===== verification/Rlp.thy ===== *)
theory Rlp
  imports Prelude
begin

text \<open>
  The wire format of \<^verbatim>\<open>common/rlp\<close>: its errors and kinds, the header and integer
  encodings of \<^verbatim>\<open>encode.go\<close>, and the splitting of byte slices of \<^verbatim>\<open>raw.go\<close>.  Sizes are
  64 bit words, so that the subtractions and additions wrap as Go's do.  The lemmas
  relate the shifts and masks to the big-endian value of a byte string, and show that
  splitting never slices out of range, that it takes the slice apart without loss, and
  that counting values ends.
\<close>

section \<open>Errors and kinds\<close>

datatype rerr =
    EOL
  | ErrExpectedString
  | ErrExpectedList
  | ErrCanonInt
  | ErrCanonSize
  | ErrElemTooLarge
  | ErrValueTooLarge
  | errNotInList
  | errNotAtEOL
  | errUintOverflow
  | errIntOverflow
  | ioEOF
  | ErrUnexpectedEOF
  | RlpErr string
  | RlpPanic

datatype Kind = Byte | String | List

type_synonym uint64 = "64 word"

section \<open>Integers and headers\<close>

definition putint :: "uint64 \<Rightarrow> bytes" where
  "putint i =
    (if i < 2 ^ 8 then [ucast i]
     else if i < 2 ^ 16 then [ucast (drop_bit 8 i), ucast i]
     else if i < 2 ^ 24 then [ucast (drop_bit 16 i), ucast (drop_bit 8 i), ucast i]
     else if i < 2 ^ 32 then [ucast (drop_bit 24 i), ucast (drop_bit 16 i), ucast (drop_bit 8 i), ucast i]
     else if i < 2 ^ 40 then [ucast (drop_bit 32 i), ucast (drop_bit 24 i), ucast (drop_bit 16 i), ucast (drop_bit 8 i), ucast i]
     else if i < 2 ^ 48 then [ucast (drop_bit 40 i), ucast (drop_bit 32 i), ucast (drop_bit 24 i), ucast (drop_bit 16 i),
       ucast (drop_bit 8 i), ucast i]
     else if i < 2 ^ 56 then [ucast (drop_bit 48 i), ucast (drop_bit 40 i), ucast (drop_bit 32 i), ucast (drop_bit 24 i),
       ucast (drop_bit 16 i), ucast (drop_bit 8 i), ucast i]
     else [ucast (drop_bit 56 i), ucast (drop_bit 48 i), ucast (drop_bit 40 i), ucast (drop_bit 32 i), ucast (drop_bit 24 i),
       ucast (drop_bit 16 i), ucast (drop_bit 8 i), ucast i])"

text \<open>The signed variant, on an \<^verbatim>\<open>int64\<close>.\<close>

abbreviation shiftByte :: "nat \<Rightarrow> int \<Rightarrow> byte" where
  "shiftByte k i \<equiv> word_of_int (drop_bit k i)"

definition putint2 :: "int \<Rightarrow> bytes" where
  "putint2 i =
    (if - (2 ^ 7) \<le> i \<and> i \<le> 2 ^ 7 - 1 then [shiftByte 0 i]
     else if - (2 ^ 15) \<le> i \<and> i \<le> 2 ^ 15 - 1 then [shiftByte 8 i, shiftByte 0 i]
     else if - (2 ^ 23) \<le> i \<and> i \<le> 2 ^ 23 - 1 then [shiftByte 16 i, shiftByte 8 i, shiftByte 0 i]
     else if - (2 ^ 31) \<le> i \<and> i \<le> 2 ^ 31 - 1 then [shiftByte 24 i, shiftByte 16 i, shiftByte 8 i, shiftByte 0 i]
     else if - (2 ^ 39) \<le> i \<and> i \<le> 2 ^ 39 - 1 then
       [shiftByte 32 i, shiftByte 24 i, shiftByte 16 i, shiftByte 8 i, shiftByte 0 i]
     else if - (2 ^ 47) \<le> i \<and> i \<le> 2 ^ 47 - 1 then
       [shiftByte 40 i, shiftByte 32 i, shiftByte 24 i, shiftByte 16 i, shiftByte 8 i, shiftByte 0 i]
     else if - (2 ^ 55) \<le> i \<and> i \<le> 2 ^ 55 - 1 then
       [shiftByte 48 i, shiftByte 40 i, shiftByte 32 i, shiftByte 24 i, shiftByte 16 i, shiftByte 8 i, shiftByte 0 i]
     else [shiftByte 56 i, shiftByte 48 i, shiftByte 40 i, shiftByte 32 i, shiftByte 24 i, shiftByte 16 i, shiftByte 8 i,
       shiftByte 0 i])"

lemma drop_bit_less: "drop_bit 8 i \<noteq> 0 \<Longrightarrow> unat (drop_bit 8 i) < unat (i :: uint64)"
proof -
  assume "drop_bit 8 i \<noteq> 0"
  then have "i \<noteq> 0" by auto
  then have "unat i div 256 < unat i" by (intro div_less_dividend) (simp_all add: unat_gt_0)
  then show ?thesis by (simp add: drop_bit_eq_div unat_div)
qed

function intsizeLoop :: "nat \<Rightarrow> uint64 \<Rightarrow> nat" where
  "intsizeLoop n i = (let i' = drop_bit 8 i in if i' = 0 then n else intsizeLoop (n + 1) i')"
  by pat_completeness auto
termination by (relation "measure (\<lambda>(n, i). unat i)") (auto intro: drop_bit_less)

declare intsizeLoop.simps [simp del]

definition intsize :: "uint64 \<Rightarrow> nat" where
  "intsize i = intsizeLoop 1 i"

definition headsize :: "uint64 \<Rightarrow> nat" where
  "headsize n = (if n < 56 then 1 else 1 + intsize n)"

text \<open>The bytes \<^verbatim>\<open>puthead\<close> writes; the number it returns is their count.\<close>

definition puthead :: "byte \<Rightarrow> byte \<Rightarrow> uint64 \<Rightarrow> bytes" where
  "puthead smalltag largetag n =
    (if n < 56 then [smalltag + ucast n]
     else let b = putint n in (largetag + word_of_nat (length b)) # b)"

definition ListSize :: "uint64 \<Rightarrow> uint64" where
  "ListSize contentSize = word_of_nat (headsize contentSize) + contentSize"

section \<open>Splitting byte slices\<close>

text \<open>The slice expression \<^verbatim>\<open>b[lo:hi]\<close> and the expression \<^verbatim>\<open>b[lo:]\<close>.\<close>

definition slice :: "bytes \<Rightarrow> uint64 \<Rightarrow> uint64 \<Rightarrow> rerr + bytes" where
  "slice b lo hi =
    (if lo \<le> hi \<and> unat hi \<le> length b then Inr (take (unat hi - unat lo) (drop (unat lo) b)) else Inl RlpPanic)"

definition sliceFrom :: "bytes \<Rightarrow> uint64 \<Rightarrow> rerr + bytes" where
  "sliceFrom b lo = (if unat lo \<le> length b then Inr (drop (unat lo) b) else Inl RlpPanic)"

text \<open>\<^verbatim>\<open>uint64(b[0])<<8k | ... | uint64(b[k])\<close>, the expression every case of \<^verbatim>\<open>readSize\<close> writes out.\<close>

fun shiftOr :: "bytes \<Rightarrow> uint64" where
  "shiftOr [] = 0"
| "shiftOr (x # xs) = push_bit (8 * length xs) (ucast x) OR shiftOr xs"

definition readSize :: "bytes \<Rightarrow> byte \<Rightarrow> rerr + uint64" where
  "readSize b slen =
    (if unat slen > length b then Inl ErrUnexpectedEOF
     else let s = (if 1 \<le> slen \<and> slen \<le> 8 then shiftOr (take (unat slen) b) else 0) in
       if s < 56 then Inl ErrCanonSize
       else case b of [] \<Rightarrow> Inl RlpPanic | x # _ \<Rightarrow> if x = 0 then Inl ErrCanonSize else Inr s)"

definition readKindRaw :: "bytes \<Rightarrow> rerr + Kind \<times> uint64 \<times> uint64" where
  "readKindRaw buf =
    (case buf of [] \<Rightarrow> Inl ErrUnexpectedEOF
     | b # more \<Rightarrow>
       bindR
         (if b < 0x80 then Inr (Byte, 0, 1)
          else if b < 0xB8 then
            let contentsize = ucast (b - 0x80) in
            if contentsize = 1 \<and> (case more of [] \<Rightarrow> False | c # _ \<Rightarrow> c < 128) then Inl ErrCanonSize
            else Inr (String, 1, contentsize)
          else if b < 0xC0 then
            bindR (readSize more (b - 0xB7)) (\<lambda>n. Inr (String, ucast (b - 0xB7) + 1, n))
          else if b < 0xF8 then Inr (List, 1, ucast (b - 0xC0))
          else bindR (readSize more (b - 0xF7)) (\<lambda>n. Inr (List, ucast (b - 0xF7) + 1, n)))
         (\<lambda>(k, tagsize, contentsize).
           if contentsize > word_of_nat (length buf) - tagsize then Inl ErrValueTooLarge
           else Inr (k, tagsize, contentsize)))"

definition Split :: "bytes \<Rightarrow> rerr + Kind \<times> bytes \<times> bytes" where
  "Split b = bindR (readKindRaw b) (\<lambda>(k, ts, cs).
     bindR (slice b ts (ts + cs)) (\<lambda>content.
     bindR (sliceFrom b (ts + cs)) (\<lambda>rest. Inr (k, content, rest))))"

definition SplitString :: "bytes \<Rightarrow> rerr + bytes \<times> bytes" where
  "SplitString b = bindR (Split b) (\<lambda>(k, content, rest).
     if k = List then Inl ErrExpectedString else Inr (content, rest))"

definition SplitList :: "bytes \<Rightarrow> rerr + bytes \<times> bytes" where
  "SplitList b = bindR (Split b) (\<lambda>(k, content, rest).
     if k \<noteq> List then Inl ErrExpectedList else Inr (content, rest))"

text \<open>The loop of \<^verbatim>\<open>CountValues\<close> may in principle not advance, so it carries no termination
  argument of its own: not returning is \<^const>\<open>None\<close>.\<close>

partial_function (option) countLoop :: "int \<Rightarrow> bytes \<Rightarrow> (rerr + int) option" where
  "countLoop i b =
    (if b = [] then Some (Inr i)
     else case readKindRaw b of
         Inl e \<Rightarrow> Some (Inl e)
       | Inr (_, tagsize, n) \<Rightarrow>
          (case sliceFrom b (tagsize + n) of Inl e \<Rightarrow> Some (Inl e) | Inr b' \<Rightarrow> countLoop (i + 1) b'))"

definition CountValues :: "bytes \<Rightarrow> (rerr + int) option" where
  "CountValues b = countLoop 0 b"

section \<open>Big-endian values\<close>

fun beVal :: "bytes \<Rightarrow> nat" where
  "beVal [] = 0"
| "beVal (x # xs) = unat x * 256 ^ length xs + beVal xs"

fun beBytes :: "nat \<Rightarrow> nat \<Rightarrow> bytes" where
  "beBytes 0 n = []"
| "beBytes (Suc k) n = word_of_nat (n div 256 ^ k) # beBytes k n"

lemma beVal_less: "beVal xs < 256 ^ length xs"
proof (induction xs)
  case (Cons x xs)
  have le: "unat x + 1 \<le> 256" using unat_byte_less [of x] by linarith
  have "unat x * 256 ^ length xs + beVal xs < (unat x + 1) * 256 ^ length xs" using Cons by simp
  also have "\<dots> \<le> 256 * 256 ^ length xs" using le by (rule mult_right_mono) simp
  finally show ?case by simp
qed simp

lemma length_beBytes [simp]: "length (beBytes k n) = k"
  by (induction k) auto

lemma beVal_beBytes: "beVal (beBytes k n) = n mod 256 ^ k"
proof (induction k)
  case (Suc k)
  have "n mod 256 ^ Suc k = 256 ^ k * (n div 256 ^ k mod 256) + n mod 256 ^ k"
    by (metis mod_mult2_eq power_Suc2)
  then show ?case using Suc by (simp add: unat_of_nat mult.commute)
qed simp

lemma beVal_inj: "length xs = length ys \<Longrightarrow> beVal xs = beVal ys \<Longrightarrow> xs = ys"
proof (induction xs ys rule: list_induct2)
  case (Cons x xs y ys)
  let ?p = "256 ^ length xs :: nat"
  have lt: "beVal xs < ?p" "beVal ys < ?p" using beVal_less Cons.hyps by metis+
  have "(unat x * ?p + beVal xs) div ?p = (unat y * ?p + beVal ys) div ?p" using Cons by simp
  then have "unat x = unat y" using lt by simp
  then have "x = y" by (rule unsigned_word_eqI)
  then show ?case using Cons by auto
qed simp

lemma push_take_disjoint: "push_bit k a AND take_bit k (b :: nat) = 0"
  by (rule bit_eqI) (auto simp: bit_simps)

lemma unat_shiftOr: "length xs \<le> 8 \<Longrightarrow> unat (shiftOr xs) = beVal xs"
proof (induction xs)
  case (Cons x xs)
  let ?k = "8 * length xs"
  have p: "(256 :: nat) ^ length xs = 2 ^ ?k" by (simp add: power_mult)
  have lt: "unat (shiftOr xs) < 2 ^ ?k" using Cons beVal_less [of xs] p by simp
  have "unat x * 2 ^ ?k < 2 ^ 8 * 2 ^ ?k" by simp
  also have "\<dots> \<le> (2 :: nat) ^ 64" using Cons.prems unfolding power_add [symmetric] by (intro power_increasing) auto
  finally have "take_bit 64 (unat x * 2 ^ ?k) = unat x * 2 ^ ?k" by (simp add: take_bit_nat_eq_self)
  moreover have "take_bit 64 (unat x) = unat x"
    by (intro take_bit_nat_eq_self) (rule less_trans [OF unat_byte_less], simp)
  ultimately have hi: "unat (push_bit ?k (ucast x :: uint64)) = push_bit ?k (unat x)"
    unfolding unsigned_push_bit_eq by (simp add: push_bit_eq_mult unsigned_ucast_eq take_bit_nat_eq_self)
  have "unat (push_bit ?k (ucast x :: uint64) OR shiftOr xs) = push_bit ?k (unat x) OR unat (shiftOr xs)"
    by (simp add: unsigned_or_eq hi)
  also have "\<dots> = push_bit ?k (unat x) + unat (shiftOr xs)"
  proof -
    have "unat (shiftOr xs) = take_bit ?k (unat (shiftOr xs))" using lt by (simp add: take_bit_nat_eq_self)
    then have "push_bit ?k (unat x) AND unat (shiftOr xs) = 0"
      by (metis push_take_disjoint)
    then show ?thesis by (simp add: disjunctive_add_eq_or)
  qed
  finally show ?case using Cons p by (simp add: push_bit_eq_mult)
qed simp

lemma unat_shift: "unat (drop_bit k w) = unat (w :: uint64) div 2 ^ k"
  unfolding unat_drop_bit_eq by (rule drop_bit_eq_div)

lemma intsizeLoop_eq:
  "unat w < 256 ^ Suc k \<Longrightarrow> k = 0 \<or> 256 ^ k \<le> unat w \<Longrightarrow> intsizeLoop n w = n + k"
proof (induction k arbitrary: w n)
  case 0
  then have "drop_bit 8 w = 0" by (intro unsigned_word_eqI [where 'a = nat]) (simp add: unat_shift)
  then show ?case by (subst intsizeLoop.simps) simp
next
  case (Suc k)
  let ?w = "drop_bit 8 w"
  have u: "unat ?w = unat w div 256" by (simp add: unat_shift)
  have "unat ?w < 256 ^ Suc k" using Suc.prems(1) unfolding u by (simp add: less_mult_imp_div_less mult.commute)
  moreover have "256 ^ k * 256 div 256 \<le> unat w div 256" using Suc.prems(2) by (intro div_le_mono) simp
  then have ge: "256 ^ k \<le> unat ?w" unfolding u by simp
  ultimately have "intsizeLoop (n + 1) ?w = n + 1 + k" by (intro Suc.IH) simp_all
  moreover have "?w \<noteq> 0" using ge by (metis not_one_le_zero one_le_numeral one_le_power order_trans unat_0)
  ultimately show ?case by (subst intsizeLoop.simps) (simp add: Let_def)
qed

lemma intsize_eq: "unat w < 256 ^ Suc k \<Longrightarrow> k = 0 \<or> 256 ^ k \<le> unat w \<Longrightarrow> intsize w = Suc k"
  by (simp add: intsize_def intsizeLoop_eq)

lemma shift_byte: "(ucast (drop_bit k w) :: byte) = word_of_nat (unat (w :: uint64) div 2 ^ k)"
  by (intro unsigned_word_eqI [where 'a = nat]) (simp add: unsigned_ucast_eq unat_shift unsigned_of_nat take_bit_eq_mod)

lemma beBytes_numeral [simp]:
  "beBytes (numeral k) n = word_of_nat (n div 256 ^ pred_numeral k) # beBytes (pred_numeral k) n"
  by (simp add: numeral_eq_Suc)

lemma word_size_cases:
  fixes w :: uint64
  obtains "unat w < 256" | "256 \<le> unat w" "unat w < 65536" | "65536 \<le> unat w" "unat w < 16777216"
    | "16777216 \<le> unat w" "unat w < 4294967296" | "4294967296 \<le> unat w" "unat w < 1099511627776"
    | "1099511627776 \<le> unat w" "unat w < 281474976710656" | "281474976710656 \<le> unat w" "unat w < 72057594037927936"
    | "72057594037927936 \<le> unat w" "unat w < 18446744073709551616"
proof -
  have "unat w < 18446744073709551616" using unsigned_less [of w] by simp
  then show thesis using that by linarith
qed

lemma putint_intsize: "putint w = beBytes (intsize w) (unat w)"
proof (cases w rule: word_size_cases)
  case 1
  then have "intsize w = Suc 0" using intsize_eq [of w 0] by simp
  with 1 show ?thesis by (simp add: putint_def word_less_nat_alt shift_byte)
next
  case 2
  then have "intsize w = 2" using intsize_eq [of w 1] by simp
  with 2 show ?thesis by (simp add: putint_def word_less_nat_alt shift_byte)
next
  case 3
  then have "intsize w = 3" using intsize_eq [of w 2] by simp
  with 3 show ?thesis by (simp add: putint_def word_less_nat_alt shift_byte)
next
  case 4
  then have "intsize w = 4" using intsize_eq [of w 3] by simp
  with 4 show ?thesis by (simp add: putint_def word_less_nat_alt shift_byte)
next
  case 5
  then have "intsize w = 5" using intsize_eq [of w 4] by simp
  with 5 show ?thesis by (simp add: putint_def word_less_nat_alt shift_byte)
next
  case 6
  then have "intsize w = 6" using intsize_eq [of w 5] by simp
  with 6 show ?thesis by (simp add: putint_def word_less_nat_alt shift_byte)
next
  case 7
  then have "intsize w = 7" using intsize_eq [of w 6] by simp
  with 7 show ?thesis by (simp add: putint_def word_less_nat_alt shift_byte)
next
  case 8
  then have "intsize w = 8" using intsize_eq [of w 7] by simp
  with 8 show ?thesis by (simp add: putint_def word_less_nat_alt shift_byte)
qed

lemma intsize_bounds:
  "1 \<le> intsize w" "intsize w \<le> 8" "unat w < 256 ^ intsize w" "w \<noteq> 0 \<Longrightarrow> 256 ^ (intsize w - 1) \<le> unat w"
proof -
  have "\<exists>k \<le> 7. unat w < 256 ^ Suc k \<and> (k = 0 \<or> 256 ^ k \<le> unat w)"
  proof (cases w rule: word_size_cases)
    case 1 then show ?thesis by (intro exI [of _ 0]) simp
  next
    case 2 then show ?thesis by (intro exI [of _ 1]) simp
  next
    case 3 then show ?thesis by (intro exI [of _ 2]) simp
  next
    case 4 then show ?thesis by (intro exI [of _ 3]) simp
  next
    case 5 then show ?thesis by (intro exI [of _ 4]) simp
  next
    case 6 then show ?thesis by (intro exI [of _ 5]) simp
  next
    case 7 then show ?thesis by (intro exI [of _ 6]) simp
  next
    case 8 then show ?thesis by (intro exI [of _ 7]) simp
  qed
  then obtain k where k: "k \<le> 7" "unat w < 256 ^ Suc k" "k = 0 \<or> 256 ^ k \<le> unat w" by blast
  then have "intsize w = Suc k" by (intro intsize_eq)
  with k show "1 \<le> intsize w" "intsize w \<le> 8" "unat w < 256 ^ intsize w"
    "w \<noteq> 0 \<Longrightarrow> 256 ^ (intsize w - 1) \<le> unat w"
    by (auto simp: Suc_le_eq unat_gt_0)
qed

lemma length_putint [simp]: "length (putint w) = intsize w"
  by (simp add: putint_intsize)

lemma beVal_putint [simp]: "beVal (putint w) = unat w"
  using intsize_bounds(3) [of w] by (simp add: putint_intsize beVal_beBytes)

lemma beVal_lead: "x \<noteq> 0 \<Longrightarrow> 256 ^ length xs \<le> beVal (x # xs)"
proof -
  assume "x \<noteq> 0"
  then have "1 \<le> unat x" by (simp add: Suc_le_eq unat_gt_0)
  then have "1 * 256 ^ length xs \<le> unat x * 256 ^ length xs" by (rule mult_right_mono) simp
  then have "256 ^ length xs \<le> unat x * 256 ^ length xs" by (simp only: mult_1)
  then show ?thesis unfolding beVal.simps by (rule trans_le_add1)
qed

lemma putint_Cons: "w \<noteq> 0 \<Longrightarrow> \<exists>x xs. putint w = x # xs \<and> x \<noteq> 0"
proof -
  assume w: "w \<noteq> 0"
  obtain x xs where x: "putint w = x # xs" using intsize_bounds(1) [of w] length_putint [of w] by (cases "putint w") auto
  have "length xs = intsize w - 1" using x length_putint [of w] by simp
  then have "256 ^ length xs \<le> beVal (x # xs)" using intsize_bounds(4) [OF w] beVal_putint [of w] x by simp
  then have "x \<noteq> 0" using beVal_less [of xs] by auto
  with x show ?thesis by blast
qed

lemma putint_unique:
  assumes "length xs \<le> 8" and "xs \<noteq> []" and "hd xs \<noteq> 0"
  shows "putint (word_of_nat (beVal xs)) = xs"
proof -
  obtain x ys where x: "xs = x # ys" using assms(2) by (cases xs) auto
  have "(256 :: nat) ^ length xs \<le> 256 ^ 8" using assms(1) by (intro power_increasing) auto
  then have lt: "beVal xs < 2 ^ 64" using beVal_less [of xs] by simp
  then have u: "unat (word_of_nat (beVal xs) :: uint64) = beVal xs" by (simp add: unat_of_nat)
  have "intsize (word_of_nat (beVal xs)) = Suc (length ys)"
    by (intro intsize_eq) (use u beVal_less [of xs] beVal_lead [of x ys] assms(3) x in simp_all)
  then have "length (putint (word_of_nat (beVal xs))) = length xs" unfolding length_putint by (simp only: x list.size)
  then show ?thesis by (rule beVal_inj) (simp only: beVal_putint u)
qed

lemma length_puthead [simp]: "length (puthead s l n) = headsize n"
  by (simp add: puthead_def headsize_def Let_def)

lemma readSize_putint:
  assumes "56 \<le> n"
  shows "readSize (putint n @ rest) (word_of_nat (intsize n)) = Inr n"
proof -
  have "n \<noteq> 0" using assms by auto
  then obtain x xs where x: "putint n = x # xs" "x \<noteq> 0" using putint_Cons by blast
  have u: "unat (word_of_nat (intsize n) :: byte) = intsize n" using intsize_bounds(2) [of n] by (simp add: unat_of_nat)
  have "unat (shiftOr (putint n)) = unat n" using intsize_bounds(2) [of n] by (subst unat_shiftOr) simp_all
  then have "shiftOr (putint n) = n" by (rule unsigned_word_eqI)
  moreover have "1 \<le> (word_of_nat (intsize n) :: byte)" "(word_of_nat (intsize n) :: byte) \<le> 8"
    using intsize_bounds(1,2) [of n] by (simp_all add: word_le_nat_alt u)
  moreover have "take (intsize n) (putint n @ rest) = putint n" by simp
  moreover have "intsize n \<le> length (putint n @ rest)" by simp
  moreover obtain more where "putint n @ rest = x # more" using x by simp
  ultimately show ?thesis using assms x(2) u by (auto simp: readSize_def Let_def not_less)
qed

lemma readSize_Inr:
  assumes "readSize b slen = Inr n" and "slen \<le> 8"
  shows "56 \<le> n \<and> slen = word_of_nat (intsize n) \<and> (\<exists>rest. b = putint n @ rest)"
proof -
  let ?h = "take (unat slen) b"
  have le: "unat slen \<le> length b" and s: "56 \<le> (if 1 \<le> slen \<and> slen \<le> 8 then shiftOr ?h else 0)"
    and n: "n = (if 1 \<le> slen \<and> slen \<le> 8 then shiftOr ?h else 0)" and b: "b \<noteq> []" "hd b \<noteq> 0"
    using assms(1) by (auto simp: readSize_def Let_def not_less split: if_splits list.splits)
  have sl: "1 \<le> slen" "unat slen \<le> 8" using s assms(2) by (auto simp: word_le_nat_alt split: if_splits)
  then have h: "n = shiftOr ?h" "length ?h = unat slen" "?h \<noteq> []" "hd ?h \<noteq> 0"
    using n assms(2) le b by (auto simp: word_le_nat_alt)
  have "unat n = beVal ?h" using h(2) sl(2) unfolding h(1) by (intro unat_shiftOr) simp
  then have "putint n = ?h" using putint_unique [of ?h] h sl by (metis of_nat_unat ucast_id)
  then have "intsize n = unat slen" "b = putint n @ drop (unat slen) b" using h(2) length_putint [of n] by simp_all
  moreover have "56 \<le> n" using n s by simp
  ultimately show ?thesis by auto
qed

section \<open>Frames\<close>

text \<open>A value on the wire is its content behind the tag of its kind; a single byte below
  \<^term>\<open>0x80 :: byte\<close> is its own encoding and must not be tagged.\<close>

fun tag :: "Kind \<Rightarrow> uint64 \<Rightarrow> bytes" where
  "tag Byte n = []"
| "tag String n = puthead 0x80 0xB7 n"
| "tag List n = puthead 0xC0 0xF7 n"

definition frame :: "Kind \<Rightarrow> bytes \<Rightarrow> bytes" where
  "frame k c = tag k (word_of_nat (length c)) @ c"

fun frameOk :: "Kind \<Rightarrow> bytes \<Rightarrow> bool" where
  "frameOk Byte c = (length c = 1 \<and> hd c < 0x80)"
| "frameOk String c = (\<not> (length c = 1 \<and> hd c < 0x80))"
| "frameOk List c = True"

lemma remaining_word:
  fixes ts cs :: uint64
  assumes "unat ts \<le> L" and "L < 2 ^ 63"
  shows "word_of_nat L - ts < cs \<longleftrightarrow> L < unat ts + unat cs"
proof -
  have u: "unat (word_of_nat L :: uint64) = L" using assms(2) by (simp add: unat_of_nat)
  then have "unat (word_of_nat L - ts) = L - unat ts" using assms(1) by (subst unat_sub) (simp_all add: word_le_nat_alt)
  then show ?thesis using assms(1) by (auto simp: word_less_nat_alt)
qed

lemma add_fits: "unat a + unat b \<le> L \<Longrightarrow> L < 2 ^ 63 \<Longrightarrow> unat (a + b) = unat a + unat (b :: uint64)"
  by (rule unat_add_lem [THEN iffD1]) simp

lemma small_tag:
  fixes n :: uint64 and t :: byte
  assumes "n < 56" and "unat t \<le> 192"
  shows "unat (t + ucast n) = unat t + unat n" and "ucast (t + ucast n - t) = n"
proof -
  have n: "unat n < 56" using assms(1) by (simp add: word_less_nat_alt)
  then have u: "unat (ucast n :: byte) = unat n" unfolding unsigned_ucast_eq by (intro take_bit_nat_eq_self) simp
  then show "unat (t + ucast n) = unat t + unat n" using n assms(2) by (subst unat_add_lem [THEN iffD1]) simp_all
  have "unat (ucast (ucast n :: byte) :: uint64) = unat n" using n unfolding unsigned_ucast_eq [of "ucast n :: byte"] u by (intro take_bit_nat_eq_self) simp
  then show "ucast (t + ucast n - t) = n" by (simp add: unsigned_word_eqI [where 'a = nat])
qed

lemma large_tag:
  fixes t :: byte
  assumes "1 \<le> k" and "k \<le> 8" and "unat t \<le> 247"
  shows "unat (t + word_of_nat k) = unat t + k" and "unat (ucast (t + word_of_nat k - t) + 1 :: uint64) = 1 + k"
proof -
  have u: "unat (word_of_nat k :: byte) = k" using assms(2) by (simp add: unat_of_nat)
  then show "unat (t + word_of_nat k) = unat t + k" using assms by (subst unat_add_lem [THEN iffD1]) simp_all
  have "unat (ucast (word_of_nat k :: byte) :: uint64) = k" using assms(2)
    unfolding unsigned_ucast_eq u by (intro take_bit_nat_eq_self) simp
  then show "unat (ucast (t + word_of_nat k - t) + 1 :: uint64) = 1 + k"
    using assms(2) by (subst unat_add_lem [THEN iffD1]) simp_all
qed

lemma headsize_le: "1 \<le> headsize n" "headsize n \<le> 9"
  using intsize_bounds(2) [of n] by (simp_all add: headsize_def)

lemma unat_length: "length b < 2 ^ 63 \<Longrightarrow> unat (word_of_nat (length b) :: uint64) = length b"
  by (simp add: unat_of_nat)

lemma unat_less64: "unat (w :: uint64) < 18446744073709551616"
  using unsigned_less [of w, where 'a = nat] by simp

lemma byte_up: "unat (ucast (b :: byte) :: uint64) = unat b"
  unfolding unsigned_ucast_eq by (intro take_bit_nat_eq_self) (rule less_trans [OF unat_byte_less], simp)

lemma byte_down: "unat w < 256 \<Longrightarrow> unat (ucast (w :: uint64) :: byte) = unat w"
  unfolding unsigned_ucast_eq by (intro take_bit_nat_eq_self) simp

lemma one_iff: "unat (w :: uint64) = 1 \<longleftrightarrow> w = 1"
  by (metis unat_1 unsigned_word_eqI)

lemma byte_less: "(a :: byte) < b \<longleftrightarrow> unat a < unat b"
  by (rule word_less_nat_alt)

text \<open>What \<^term>\<open>readKindRaw\<close> reads in front of its last check, by the range of the first byte.\<close>

fun checkRoom :: "bytes \<Rightarrow> Kind \<times> uint64 \<times> uint64 \<Rightarrow> rerr + Kind \<times> uint64 \<times> uint64" where
  "checkRoom buf (k, ts, cs) = (if word_of_nat (length buf) - ts < cs then Inl ErrValueTooLarge else Inr (k, ts, cs))"

lemma readKind_ranges:
  "unat b < 128 \<Longrightarrow> readKindRaw (b # more) = checkRoom (b # more) (Byte, 0, 1)"
  "128 \<le> unat b \<Longrightarrow> unat b < 184 \<Longrightarrow> readKindRaw (b # more) =
     (if ucast (b - 0x80) = (1 :: uint64) \<and> more \<noteq> [] \<and> hd more < 0x80 then Inl ErrCanonSize
      else checkRoom (b # more) (String, 1, ucast (b - 0x80)))"
  "184 \<le> unat b \<Longrightarrow> unat b < 192 \<Longrightarrow> readKindRaw (b # more) =
     bindR (readSize more (b - 0xB7)) (\<lambda>n. checkRoom (b # more) (String, ucast (b - 0xB7) + 1, n))"
  "192 \<le> unat b \<Longrightarrow> unat b < 248 \<Longrightarrow> readKindRaw (b # more) = checkRoom (b # more) (List, 1, ucast (b - 0xC0))"
  "248 \<le> unat b \<Longrightarrow> readKindRaw (b # more) =
     bindR (readSize more (b - 0xF7)) (\<lambda>n. checkRoom (b # more) (List, ucast (b - 0xF7) + 1, n))"
  by (auto simp: readKindRaw_def byte_less bindR_def Let_def split: list.splits sum.splits)

lemma small_head:
  assumes "n < 56" and "unat t \<le> 192"
  obtains b where "puthead t l n = [b]" "unat t \<le> unat b" "unat b < unat t + 56" "ucast (b - t) = n"
  using small_tag [OF assms] assms(1) by (auto simp: puthead_def word_less_nat_alt)

lemma large_head:
  assumes "56 \<le> n" and "unat l \<le> 247"
  obtains b where "puthead t l n = b # putint n" "unat l < unat b" "unat b < unat l + 9"
    "b - l = word_of_nat (intsize n)" "ucast (b - l) + 1 = (word_of_nat (headsize n) :: uint64)"
proof -
  note I = intsize_bounds(1,2) [of n]
  note T = large_tag [OF I assms(2)]
  have hs: "headsize n = 1 + intsize n" using assms(1) leD by (auto simp: headsize_def)
  have "unat (word_of_nat (headsize n) :: uint64) = headsize n" using headsize_le(2) [of n] by (simp add: unat_of_nat)
  then have "ucast (l + word_of_nat (intsize n) - l) + 1 = (word_of_nat (headsize n) :: uint64)"
    using hs T(2) by (intro unsigned_word_eqI [where 'a = nat]) simp
  moreover have "\<not> n < 56" using assms(1) by (simp only: not_less)
  then have "puthead t l n = (l + word_of_nat (intsize n)) # putint n" by (simp add: puthead_def Let_def)
  ultimately show thesis using that [of "l + word_of_nat (intsize n)"] T(1) I by simp
qed

declare checkRoom.simps [simp del]

lemma readKind_frame:
  assumes "frameOk k c" and "length (frame k c @ rest) < 2 ^ 63"
  shows "readKindRaw (frame k c @ rest) =
    Inr (k, word_of_nat (length (tag k (word_of_nat (length c)))), word_of_nat (length c))"
proof -
  define n :: uint64 where "n = word_of_nat (length c)"
  have len: "length c < 2 ^ 63" using assms(2) by (simp add: frame_def)
  have u: "unat n = length c" unfolding n_def using len by (rule unat_length)
  have ut: "unat (word_of_nat (length (tag k n)) :: uint64) = length (tag k n)"
    using assms(2) by (intro unat_length) (simp add: frame_def n_def)
  have room: "checkRoom (frame k c @ rest) (k, word_of_nat (length (tag k n)), n) = Inr (k, word_of_nat (length (tag k n)), n)"
    using assms(2) u ut remaining_word [of "word_of_nat (length (tag k n))" "length (frame k c @ rest)" n]
    by (simp add: frame_def n_def checkRoom.simps)
  have goal: "readKindRaw (frame k c @ rest) = checkRoom (frame k c @ rest) (k, word_of_nat (length (tag k n)), n)"
  proof (cases k)
    case Byte
    then obtain x where "c = [x]" "unat x < 128" using assms(1) by (cases c) (auto simp: byte_less)
    then show ?thesis using Byte readKind_ranges(1) by (simp add: frame_def n_def)
  next
    case String
    show ?thesis
    proof (cases "n < 56")
      case True
      then obtain b where b: "tag String n = [b]" "128 \<le> unat b" "unat b < 184" "ucast (b - 0x80) = n"
        by (rule small_head [of n "0x80" "0xB7"]) simp_all
      have "n = 1 \<longleftrightarrow> length c = 1" using u by (metis unat_1 unsigned_word_eqI)
      then have "\<not> (n = 1 \<and> c @ rest \<noteq> [] \<and> hd (c @ rest) < 0x80)" using assms(1) String by (cases c) auto
      moreover have "frame k c @ rest = b # c @ rest" using b(1) String by (simp add: frame_def n_def)
      ultimately show ?thesis using readKind_ranges(2) [OF b(2,3), of "c @ rest"] String b(1,4) by auto
    next
      case False
      then obtain b where b: "tag String n = b # putint n" "183 < unat b" "unat b < 192"
        "b - 0xB7 = word_of_nat (intsize n)" "ucast (b - 0xB7) + 1 = (word_of_nat (headsize n) :: uint64)"
        by (auto simp: not_less elim!: large_head [of n "0xB7" "0x80"])
      have f: "frame k c @ rest = b # putint n @ c @ rest" using b(1) String by (simp add: frame_def n_def)
      have "length (tag k n) = headsize n" using String by simp
      with b(2-) show ?thesis using readKind_ranges(3) [of b "putint n @ c @ rest"] String False
          readSize_putint [of n "c @ rest"] unfolding f by (simp add: not_less)
    qed
  next
    case List
    show ?thesis
    proof (cases "n < 56")
      case True
      then obtain b where b: "tag List n = [b]" "192 \<le> unat b" "unat b < 248" "ucast (b - 0xC0) = n"
        by (rule small_head [of n "0xC0" "0xF7"]) simp_all
      moreover have "frame k c @ rest = b # c @ rest" using b(1) List by (simp add: frame_def n_def)
      ultimately show ?thesis using readKind_ranges(4) [OF b(2,3), of "c @ rest"] List by simp
    next
      case False
      then obtain b where b: "tag List n = b # putint n" "247 < unat b"
        "b - 0xF7 = word_of_nat (intsize n)" "ucast (b - 0xF7) + 1 = (word_of_nat (headsize n) :: uint64)"
        by (auto simp: not_less elim!: large_head [of n "0xF7" "0xC0"])
      have f: "frame k c @ rest = b # putint n @ c @ rest" using b(1) List by (simp add: frame_def n_def)
      have "length (tag k n) = headsize n" using List by simp
      with b(2-) show ?thesis using readKind_ranges(5) [of b "putint n @ c @ rest"] List False
          readSize_putint [of n "c @ rest"] unfolding f by (simp add: not_less)
    qed
  qed
  show ?thesis using goal room unfolding n_def by simp
qed

lemma checkRoom_Inr:
  assumes "checkRoom buf (k, ts, cs) = Inr r" and "buf = tag k cs @ more" and "unat ts = length (tag k cs)"
    and "length buf < 2 ^ 63" and "unat cs \<le> length more \<Longrightarrow> frameOk k (take (unat cs) more)"
  shows "r = (k, ts, cs) \<and> (\<exists>c rest. buf = frame k c @ rest \<and> frameOk k c \<and>
    ts = word_of_nat (length (tag k (word_of_nat (length c)))) \<and> cs = word_of_nat (length c))"
proof -
  have "\<not> word_of_nat (length buf) - ts < cs" and r: "r = (k, ts, cs)"
    using assms(1) by (auto simp: checkRoom.simps split: if_splits)
  then have "unat ts + unat cs \<le> length buf"
    using remaining_word [of ts "length buf" cs] assms(2-4) by simp
  then have ok: "unat cs \<le> length more" using assms(2,3) by simp
  then have "length (take (unat cs) more) = unat cs" by simp
  then have l: "word_of_nat (length (take (unat cs) more)) = cs" by (metis of_nat_unat ucast_id)
  have "ts = word_of_nat (length (tag k cs))" using assms(3) by (metis of_nat_unat ucast_id)
  moreover have "buf = frame k (take (unat cs) more) @ drop (unat cs) more" using assms(2) l by (simp add: frame_def)
  ultimately show ?thesis using r l assms(5) [OF ok] by metis
qed

lemma small_head_inv:
  assumes "unat t \<le> unat b" and "unat b < unat t + 56"
  shows "puthead t l (ucast (b - t)) = [b]"
proof -
  have u: "unat (b - t) = unat b - unat t" using assms(1) by (subst unat_sub) (simp_all add: word_le_nat_alt)
  then have "(ucast (b - t) :: uint64) < 56" using assms by (simp add: word_less_nat_alt byte_up)
  moreover have "(ucast (ucast (b - t) :: uint64) :: byte) = b - t"
    by (intro unsigned_word_eqI [where 'a = nat]) (simp add: byte_down byte_up)
  ultimately show ?thesis by (simp add: puthead_def)
qed

lemma large_head_inv:
  assumes "56 \<le> n" and "b - l = word_of_nat (intsize n)"
  shows "puthead t l n = b # putint n"
proof -
  have "\<not> n < 56" using assms(1) by (simp only: not_less)
  moreover have "l + word_of_nat (intsize n) = b" using assms(2) by (metis add.commute diff_add_cancel)
  ultimately show ?thesis by (simp add: puthead_def Let_def)
qed

lemma large_frame:
  assumes "readSize more (b - l) = Inr n" and "unat l < unat b" and "unat b \<le> unat l + 8"
  shows "56 \<le> n" and "\<exists>rest. b # more = puthead t l n @ rest" and "unat (ucast (b - l) + 1 :: uint64) = headsize n"
proof -
  have "unat (b - l) = unat b - unat l" using assms(2) by (subst unat_sub) (simp_all add: word_le_nat_alt)
  then have "b - l \<le> 8" using assms(3) by (simp add: word_le_nat_alt)
  then obtain rest where n: "56 \<le> n" "b - l = word_of_nat (intsize n)" "more = putint n @ rest"
    using readSize_Inr [OF assms(1)] by blast
  then show "56 \<le> n" "\<exists>rest. b # more = puthead t l n @ rest" using large_head_inv [OF n(1,2)] by auto
  have "\<not> n < 56" using n(1) by (simp only: not_less)
  moreover have "unat (ucast (word_of_nat (intsize n) :: byte) + 1 :: uint64) = 1 + intsize n"
    using large_tag(2) [OF intsize_bounds(1,2), of 0 n] by simp
  ultimately show "unat (ucast (b - l) + 1 :: uint64) = headsize n" by (simp add: n(2) headsize_def)
qed

lemma readKind_Inr:
  assumes "readKindRaw buf = Inr (k, ts, cs)" and "length buf < 2 ^ 63"
  shows "\<exists>c rest. buf = frame k c @ rest \<and> frameOk k c \<and>
    ts = word_of_nat (length (tag k (word_of_nat (length c)))) \<and> cs = word_of_nat (length c)"
proof -
  obtain b more where buf: "buf = b # more" using assms(1) by (cases buf) (auto simp: readKindRaw_def)
  consider "unat b < 128" | "128 \<le> unat b" "unat b < 184" | "184 \<le> unat b" "unat b < 192"
    | "192 \<le> unat b" "unat b < 248" | "248 \<le> unat b" by linarith
  then show ?thesis
  proof cases
    case 1
    then have "checkRoom buf (Byte, 0, 1) = Inr (k, ts, cs)" using assms(1) readKind_ranges(1) buf by simp
    moreover have "frameOk Byte (take (unat (1 :: uint64)) (b # more))" using 1 by (simp add: byte_less)
    ultimately show ?thesis using checkRoom_Inr [of buf Byte 0 1 _ "b # more"] assms(2) buf by simp
  next
    case 2
    let ?n = "ucast (b - 0x80) :: uint64"
    have R: "\<not> (?n = 1 \<and> more \<noteq> [] \<and> hd more < 0x80)" "checkRoom buf (String, 1, ?n) = Inr (k, ts, cs)"
      using assms(1) readKind_ranges(2) [OF 2, of more] buf by (auto split: if_splits)
    have t: "tag String ?n = [b]" using small_head_inv [of "0x80" b] 2 by simp
    have ok: "frameOk String (take (unat ?n) more)" if "unat ?n \<le> length more"
    proof -
      have "length (take (unat ?n) more) = unat ?n" using that by simp
      then show ?thesis using R(1) one_iff [of ?n] by (cases more) (auto simp del: length_take)
    qed
    have "buf = tag String ?n @ more" "unat (1 :: uint64) = length (tag String ?n)" unfolding t buf by simp_all
    then show ?thesis using checkRoom_Inr [OF R(2) _ _ assms(2) ok] by blast
  next
    case 3
    then obtain n where n: "readSize more (b - 0xB7) = Inr n" "checkRoom buf (String, ucast (b - 0xB7) + 1, n) = Inr (k, ts, cs)"
      using assms(1) readKind_ranges(3) [OF 3, of more] buf by (auto simp: bindR_Inr)
    then obtain rest where "buf = tag String n @ rest" "unat (ucast (b - 0xB7) + 1 :: uint64) = length (tag String n)"
      and "56 \<le> n" using large_frame(1,3) [OF n(1)] large_frame(2) [OF n(1), of "0x80"] 3 buf by auto
    moreover from this have "n \<noteq> 1" by (auto simp: word_le_nat_alt)
    then have "frameOk String (take (unat n) rest)" if "unat n \<le> length rest" using that one_iff [of n] by (simp add: min_def)
    ultimately show ?thesis using checkRoom_Inr [OF n(2) _ _ assms(2)] by blast
  next
    case 4
    then have R: "checkRoom buf (List, 1, ucast (b - 0xC0)) = Inr (k, ts, cs)"
      using assms(1) readKind_ranges(4) [OF 4, of more] buf by simp
    have t: "tag List (ucast (b - 0xC0)) = [b]" using small_head_inv [of "0xC0" b] 4 by simp
    have "buf = tag List (ucast (b - 0xC0)) @ more" "unat (1 :: uint64) = length (tag List (ucast (b - 0xC0)))"
      unfolding t buf by simp_all
    then show ?thesis using checkRoom_Inr [OF R _ _ assms(2)] frameOk.simps(3) by blast
  next
    case 5
    then obtain n where n: "readSize more (b - 0xF7) = Inr n" "checkRoom buf (List, ucast (b - 0xF7) + 1, n) = Inr (k, ts, cs)"
      using assms(1) readKind_ranges(5) [OF 5, of more] buf by (auto simp: bindR_Inr)
    then obtain rest where "buf = tag List n @ rest" "unat (ucast (b - 0xF7) + 1 :: uint64) = length (tag List n)"
      using large_frame(3) [OF n(1)] large_frame(2) [OF n(1), of "0xC0"] 5 buf unat_byte_less [of b] by auto
    then show ?thesis using checkRoom_Inr [OF n(2) _ _ assms(2)] frameOk.simps(3) by blast
  qed
qed

lemma slice_frame:
  fixes ts cs :: uint64
  assumes "length (h @ c @ rest) < 2 ^ 63" and "ts = word_of_nat (length h)" and "cs = word_of_nat (length c)"
  shows "slice (h @ c @ rest) ts (ts + cs) = Inr c" and "sliceFrom (h @ c @ rest) (ts + cs) = Inr rest"
proof -
  have u: "unat ts = length h" "unat cs = length c"
    using assms unat_length [of h] unat_length [of c] by simp_all
  then have "unat (ts + cs) = length h + length c" using assms(1) add_fits [of ts cs "length (h @ c @ rest)"] by simp
  then show "slice (h @ c @ rest) ts (ts + cs) = Inr c" "sliceFrom (h @ c @ rest) (ts + cs) = Inr rest"
    using u(1) by (simp_all add: slice_def sliceFrom_def word_le_nat_alt)
qed

lemma Split_frame:
  assumes "frameOk k c" and "length (frame k c @ rest) < 2 ^ 63"
  shows "Split (frame k c @ rest) = Inr (k, c, rest)"
  using readKind_frame [OF assms] slice_frame [of "tag k (word_of_nat (length c))" c rest] assms(2)
  by (simp add: Split_def frame_def)

lemma Split_Inr:
  assumes "Split b = Inr (k, c, rest)" and "length b < 2 ^ 63"
  shows "b = frame k c @ rest \<and> frameOk k c"
proof -
  obtain k' ts cs where r: "readKindRaw b = Inr (k', ts, cs)" using assms(1) by (auto simp: Split_def bindR_Inr)
  obtain c' rest' where f: "b = frame k' c' @ rest'" "frameOk k' c'" using readKind_Inr [OF r assms(2)] by blast
  with assms show ?thesis using Split_frame [OF f(2)] by simp
qed

text \<open>Counting the values of a slice is taking frames off its front.\<close>

lemma frame_not_Nil: "frameOk k c \<Longrightarrow> frame k c \<noteq> []"
  by (cases k) (auto simp: frame_def dest: arg_cong [where f = length] simp: headsize_def)

lemma countLoop_step:
  assumes "frameOk k c" and "length (frame k c @ rest) < 2 ^ 63"
  shows "countLoop i (frame k c @ rest) = countLoop (i + 1) rest"
  using readKind_frame [OF assms] slice_frame(2) [of "tag k (word_of_nat (length c))" c rest] assms(2)
    frame_not_Nil [OF assms(1)]
  by (subst countLoop.simps) (auto simp: frame_def)

lemma countLoop_returns: "length b < 2 ^ 63 \<Longrightarrow> \<exists>r. countLoop i b = Some r"
proof (induction "length b" arbitrary: b i rule: less_induct)
  case less
  show ?case
  proof (cases "b = [] \<or> (\<exists>e. readKindRaw b = Inl e)")
    case True
    then show ?thesis by (subst countLoop.simps) auto
  next
    case False
    then obtain k ts cs where "readKindRaw b = Inr (k, ts, cs)" by (cases "readKindRaw b") auto
    then obtain c rest where f: "b = frame k c @ rest" "frameOk k c" using readKind_Inr less.prems by blast
    then have "length rest < length b" using frame_not_Nil by simp
    then show ?thesis using less countLoop_step [OF f(2)] f(1) by simp
  qed
qed

lemma countLoop_Inr:
  "length b < 2 ^ 63 \<Longrightarrow> countLoop i b = Some (Inr n) \<longleftrightarrow>
    (\<exists>vs. b = concat (map (\<lambda>(k, c). frame k c) vs) \<and> (\<forall>(k, c) \<in> set vs. frameOk k c) \<and> n = i + int (length vs))"
proof (induction "length b" arbitrary: b i rule: less_induct)
  case less
  let ?v = "\<lambda>b i vs. b = concat (map (\<lambda>(k, c). frame k c) vs) \<and> (\<forall>(k, c) \<in> set vs. frameOk k c) \<and> n = i + int (length vs)"
  have hd_ok: "\<exists>k c rest. b = frame k c @ rest \<and> frameOk k c" if "?v b i vs" "b \<noteq> []" for vs
    using that by (cases vs) auto
  show ?case
  proof (cases "b = []")
    case True
    have "?v [] i vs \<longleftrightarrow> vs = [] \<and> n = i" for vs
      by (cases vs) (auto simp: frame_not_Nil)
    then show ?thesis using True by (subst countLoop.simps) auto
  next
    case False
    note ne = this
    show ?thesis
    proof (cases "readKindRaw b")
      case (Inl e)
      have "\<not> ?v b i vs" for vs
        using hd_ok [of vs] ne Inl readKind_frame less.prems by fastforce
      then show ?thesis using ne Inl by (subst countLoop.simps) auto
    next
      case (Inr t)
      then obtain k c rest where f: "b = frame k c @ rest" "frameOk k c"
        using readKind_Inr less.prems by (cases t) blast
      have "(\<exists>vs. ?v b i vs) \<longleftrightarrow> (\<exists>vs. ?v rest (i + 1) vs)"
      proof
        assume "\<exists>vs. ?v rest (i + 1) vs"
        then obtain vs where "?v rest (i + 1) vs" by blast
        then have "?v b i ((k, c) # vs)" using f by auto
        then show "\<exists>vs. ?v b i vs" by blast
      next
        assume "\<exists>vs. ?v b i vs"
        then obtain k' c' vs where v: "?v b i ((k', c') # vs)" using ne by (metis concat.simps(1) list.exhaust list.map(1) surj_pair)
        then have "(k', c', concat (map (\<lambda>(k, c). frame k c) vs)) = (k, c, rest)"
          using Split_frame [of k' c'] Split_frame [of k c] f less.prems by (metis (no_types, lifting) case_prodD concat.simps(2) list.set_intros(1) list.simps(9) old.prod.case sum.inject(2))
        then show "\<exists>vs. ?v rest (i + 1) vs" using v by auto
      qed
      moreover have "length rest < length b" using f frame_not_Nil by simp
      ultimately show ?thesis using less.hyps [of rest "i + 1"] countLoop_step [OF f(2), of rest i] f(1) less.prems by simp
    qed
  qed
qed

lemma readSize_no_panic: "readSize b n \<noteq> Inl RlpPanic"
proof (cases b)
  case Nil
  then have "unat n = 0" if "\<not> 0 < unat n" using that by simp
  with Nil show ?thesis by (auto simp: readSize_def Let_def word_le_nat_alt)
qed (auto simp: readSize_def Let_def)

lemma readKind_no_panic: "readKindRaw b \<noteq> Inl RlpPanic"
  using readSize_no_panic
  by (auto simp: readKindRaw_def bindR_def Let_def split: list.splits sum.splits if_splits)

lemma Split_no_panic: "length b < 2 ^ 63 \<Longrightarrow> Split b \<noteq> Inl RlpPanic"
proof (cases "readKindRaw b")
  case (Inl e)
  then show ?thesis using readKind_no_panic [of b] by (auto simp: Split_def)
next
  case (Inr t)
  assume len: "length b < 2 ^ 63"
  obtain k ts cs where "t = (k, ts, cs)" by (cases t)
  then obtain c rest where "b = frame k c @ rest" "frameOk k c" using Inr readKind_Inr len by blast
  then show ?thesis using Split_frame [of k c rest] len by simp
qed

text \<open>The frames of one value form a canonical codec.\<close>

interpretation frames: canonical_codec "\<lambda>(k, c). frameOk k c \<and> length (frame k c) < 2 ^ 63" "\<lambda>(k, c). frame k c"
  "\<lambda>b. if length b < 2 ^ 63 then case Split b of Inr (k, c, []) \<Rightarrow> Some (k, c) | _ \<Rightarrow> None else None"
proof (unfold_locales, goal_cases)
  case (1 x)
  then show ?case using Split_frame [of "fst x" "snd x" "[]"] by (cases x) simp
next
  case (2 b x)
  then show ?case using Split_Inr [of b "fst x" "snd x" "[]"]
    by (auto split: if_splits sum.splits list.splits)
qed

section \<open>Properties\<close>

text \<open>Splitting the first value off a slice never slices out of range, and it is the exact
  inverse of framing: it returns a kind, a content and a rest exactly when the slice is the
  canonical frame of the content followed by the rest.\<close>

theorem Split_exact:
  assumes "length b < 2 ^ 63"
  shows "Split b \<noteq> Inl RlpPanic \<and> (Split b = Inr (k, c, rest) \<longleftrightarrow> b = frame k c @ rest \<and> frameOk k c)"
  using Split_no_panic [OF assms] Split_Inr [OF _ assms] Split_frame assms by blast+

theorem Split_exact_witness:
  "Split [0x83, 1, 2, 3, 0xC0] = Inr (String, [1, 2, 3], [0xC0]) \<and> Split [0x81, 5] \<noteq> Inl RlpPanic"
  using Split_exact [of "[0x83, 1, 2, 3, 0xC0]" String "[1, 2, 3]" "[0xC0]"] Split_exact [of "[0x81, 5]"]
  by (simp add: frame_def puthead_def)

text \<open>Counting the values of a slice always returns, and the count is right: it is \<open>n\<close> exactly
  when the slice is the concatenation of \<open>n\<close> canonical frames, and an error otherwise.\<close>

theorem CountValues_exact:
  assumes "length b < 2 ^ 63"
  shows "\<exists>r. CountValues b = Some r \<and> (\<forall>n. r = Inr n \<longleftrightarrow>
    (\<exists>vs. b = concat (map (\<lambda>(k, c). frame k c) vs) \<and> (\<forall>(k, c) \<in> set vs. frameOk k c) \<and> n = int (length vs)))"
  using countLoop_returns [OF assms, of 0] countLoop_Inr [OF assms, of 0] by (auto simp: CountValues_def)

theorem CountValues_exact_witness: "CountValues [0x83, 1, 2, 3, 0xC0] = Some (Inr 2)"
proof -
  let ?vs = "[(String, [1, 2, 3]), (List, [])] :: (Kind \<times> bytes) list"
  have "[0x83, 1, 2, 3, 0xC0] = concat (map (\<lambda>(k, c). frame k c) ?vs) \<and> (\<forall>(k, c) \<in> set ?vs. frameOk k c) \<and>
      2 = int (length ?vs)" by (simp add: frame_def puthead_def)
  moreover obtain r where "CountValues [0x83, 1, 2, 3, 0xC0] = Some r" "\<forall>n. r = Inr n \<longleftrightarrow>
      (\<exists>vs. [0x83, 1, 2, 3, 0xC0] = concat (map (\<lambda>(k, c). frame k c) vs) \<and> (\<forall>(k, c) \<in> set vs. frameOk k c) \<and>
        n = int (length vs))" using CountValues_exact [of "[0x83, 1, 2, 3, 0xC0]"] by auto
  ultimately have "r = Inr 2" by (elim allE [of _ 2]) blast
  then show ?thesis using \<open>CountValues _ = Some r\<close> by simp
qed

end
