(* ===== verification/RlpEncode.thy ===== *)
theory RlpEncode
  imports Rlp
begin

text \<open>
  The encoder of \<^verbatim>\<open>common/rlp/encode.go\<close>.  The type-directed writers append string data to a
  buffer and record list headers on the side; the headers are only put between the data when
  the buffer is turned into bytes.  Go's reflected types and values are the datatypes
  \<open>rtype\<close> and \<open>rval\<close>; types with an encoder of their own and maps are not among them.  The
  main fact is that the deferred headers are put where the plain recursive encoding of a
  value has them.
\<close>

section \<open>Types and values\<close>

text \<open>The struct tags \<^verbatim>\<open>rlp:"nil"\<close> and \<^verbatim>\<open>rlp:"tail"\<close>; the fields a struct type lists are the
  exported ones that are not ignored.\<close>

record tags =
  nilOK :: bool
  tail :: bool

abbreviation noTags :: tags where
  "noTags \<equiv> \<lparr>nilOK = False, tail = False\<rparr>"

datatype rtype =
    TRaw
  | TInterface
  | TBigPtr
  | TBig
  | TUint nat
  | TBool
  | TString
  | TBytes
  | TByteArray nat
  | TSlice rtype
  | TArray nat rtype
  | TStruct "(rtype \<times> tags) list"
  | TPtr rtype
  | TFloat64
  | TInt nat
  | TOther

datatype rval =
    VBytes bytes
  | VIface "(rtype \<times> rval) option"
  | VBigPtr "int option"
  | VBig int
  | VUint uint64
  | VBool bool
  | VString bytes
  | VList "rval list"
  | VPtr "rval option"
  | VFloat uint64
  | VInt int

text \<open>\<^verbatim>\<open>reflect.Zero\<close>.\<close>

fun zero :: "rtype \<Rightarrow> rval" where
  "zero TRaw = VBytes []"
| "zero TInterface = VIface None"
| "zero TBigPtr = VBigPtr None"
| "zero TBig = VBig 0"
| "zero (TUint n) = VUint 0"
| "zero TBool = VBool False"
| "zero TString = VString []"
| "zero TBytes = VBytes []"
| "zero (TByteArray n) = VBytes (replicate n 0)"
| "zero (TSlice t) = VList []"
| "zero (TArray n t) = VList (replicate n (zero t))"
| "zero (TStruct fs) = VList (map (\<lambda>(t, _). zero t) fs)"
| "zero (TPtr t) = VPtr None"
| "zero TFloat64 = VFloat 0"
| "zero (TInt n) = VInt 0"
| "zero TOther = VBytes []"

text \<open>\<^verbatim>\<open>genTypeInfo\<close>: whether a reader and a writer can be made for a type.\<close>

fun genTypeInfo :: "rtype \<Rightarrow> bool" where
  "genTypeInfo (TSlice t) = genTypeInfo t"
| "genTypeInfo (TArray n t) = genTypeInfo t"
| "genTypeInfo (TStruct fs) = list_all (\<lambda>(t, _). genTypeInfo t) fs"
| "genTypeInfo (TPtr t) = genTypeInfo t"
| "genTypeInfo TOther = False"
| "genTypeInfo _ = True"

section \<open>The buffer\<close>

record listhead =
  offset :: int
  hsize :: int

record encbuf =
  str :: bytes
  lheads :: "listhead list"
  lhsize :: int

type_synonym 'a wres = "(rerr + 'a) \<times> encbuf"

definition emptyBuf :: encbuf where
  "emptyBuf = \<lparr>str = [], lheads = [], lhsize = 0\<rparr>"

definition listheadEncode :: "listhead \<Rightarrow> bytes" where
  "listheadEncode h = puthead 0xC0 0xF7 (word_of_int (hsize h))"

definition bufWrite :: "bytes \<Rightarrow> encbuf \<Rightarrow> encbuf" where
  "bufWrite b w = w\<lparr>str := str w @ b\<rparr>"

definition encodeStringHeader :: "nat \<Rightarrow> encbuf \<Rightarrow> encbuf" where
  "encodeStringHeader n w =
    (if n < 56 then w\<lparr>str := str w @ [0x80 + word_of_nat n]\<rparr>
     else let b = putint (word_of_nat n) in w\<lparr>str := str w @ (0xB7 + word_of_nat (length b)) # b\<rparr>)"

definition encodeString :: "bytes \<Rightarrow> encbuf \<Rightarrow> encbuf" where
  "encodeString b w =
    (if length b = 1 \<and> hd b \<le> 0x7F then w\<lparr>str := str w @ [hd b]\<rparr>
     else bufWrite b (encodeStringHeader (length b) w))"

definition bufSize :: "encbuf \<Rightarrow> int" where
  "bufSize w = int (length (str w)) + lhsize w"

text \<open>\<^verbatim>\<open>list\<close> returns a pointer to the header it appends: its index among the headers.\<close>

definition beginList :: "encbuf \<Rightarrow> nat \<times> encbuf" where
  "beginList w = (length (lheads w), w\<lparr>lheads := lheads w @ [\<lparr>offset = int (length (str w)), hsize = lhsize w\<rparr>]\<rparr>)"

definition listEnd :: "nat \<Rightarrow> encbuf \<Rightarrow> encbuf" where
  "listEnd lh w =
    (let h = lheads w ! lh; n = bufSize w - offset h - hsize h in
     w\<lparr>lheads := (lheads w)[lh := h\<lparr>hsize := n\<rparr>],
       lhsize := lhsize w + (if n < 56 then 1 else 1 + int (intsize (word_of_int n)))\<rparr>)"

text \<open>\<^verbatim>\<open>toBytes\<close>: the output slice has the size the buffer reports; copying stops at its end,
  writing a header past it panics.\<close>

primrec toBytesLoop :: "nat \<Rightarrow> bytes \<Rightarrow> listhead list \<Rightarrow> int \<Rightarrow> bytes \<Rightarrow> rerr + int \<times> bytes" where
  "toBytesLoop cap s [] strpos out = Inr (strpos, out)"
| "toBytesLoop cap s (h # hs) strpos out =
    (if \<not> (strpos \<le> offset h \<and> offset h \<le> int (length s)) then Inl RlpPanic
     else
       let piece = take (nat (offset h - strpos)) (drop (nat strpos) s);
           n = min (length piece) (cap - length out);
           out' = out @ take n piece;
           enc = listheadEncode h
       in if length out' + length enc > cap then Inl RlpPanic
          else toBytesLoop cap s hs (strpos + int n) (out' @ enc))"

definition toBytes :: "encbuf \<Rightarrow> rerr + bytes" where
  "toBytes w =
    (if bufSize w < 0 then Inl RlpPanic
     else let cap = nat (bufSize w) in
       bindR (toBytesLoop cap (str w) (lheads w) 0 []) (\<lambda>(strpos, out).
         Inr (take cap (out @ drop (nat strpos) (str w) @ replicate cap 0))))"

text \<open>\<^verbatim>\<open>toWriter\<close>, over the \<^verbatim>\<open>Write\<close> method of the destination.\<close>

primrec toWriterLoop :: "(bytes \<Rightarrow> 's \<Rightarrow> (rerr + nat) \<times> 's) \<Rightarrow> bytes \<Rightarrow> listhead list \<Rightarrow> int \<Rightarrow> 's \<Rightarrow> (rerr + int) \<times> 's" where
  "toWriterLoop wr s [] strpos out = (Inr strpos, out)"
| "toWriterLoop wr s (h # hs) strpos out =
    bindE (if offset h - strpos > 0
           then if offset h \<le> int (length s)
             then bindE (wr (take (nat (offset h - strpos)) (drop (nat strpos) s)) out) (\<lambda>n out. (Inr (strpos + int n), out))
             else (Inl RlpPanic, out)
           else (Inr strpos, out)) (\<lambda>strpos out.
    bindE (wr (listheadEncode h) out) (\<lambda>_ out.
    toWriterLoop wr s hs strpos out))"

definition toWriter :: "(bytes \<Rightarrow> 's \<Rightarrow> (rerr + nat) \<times> 's) \<Rightarrow> encbuf \<Rightarrow> 's \<Rightarrow> (rerr + unit) \<times> 's" where
  "toWriter wr w out =
    bindE (toWriterLoop wr (str w) (lheads w) 0 out) (\<lambda>strpos out.
      if strpos < int (length (str w))
      then bindE (wr (drop (nat strpos) (str w)) out) (\<lambda>_ out. (Inr (), out))
      else (Inr (), out))"

section \<open>Writers of single values\<close>

definition writeRawValue :: "bytes \<Rightarrow> encbuf \<Rightarrow> unit wres" where
  "writeRawValue b w = (Inr (), w\<lparr>str := str w @ b\<rparr>)"

definition writeInt :: "int \<Rightarrow> encbuf \<Rightarrow> unit wres" where
  "writeInt i w =
    (if i = 0 then (Inr (), w\<lparr>str := str w @ [0x80]\<rparr>)
     else let b = putint2 i in (Inr (), w\<lparr>str := str w @ (0x80 + word_of_nat (length b)) # b\<rparr>))"

definition writeUint :: "uint64 \<Rightarrow> encbuf \<Rightarrow> unit wres" where
  "writeUint i w =
    (if i = 0 then (Inr (), w\<lparr>str := str w @ [0x80]\<rparr>)
     else if i < 128 then (Inr (), w\<lparr>str := str w @ [ucast i]\<rparr>)
     else let b = putint i in (Inr (), w\<lparr>str := str w @ (0x80 + word_of_nat (length b)) # b\<rparr>))"

definition writeBool :: "bool \<Rightarrow> encbuf \<Rightarrow> unit wres" where
  "writeBool b w = (Inr (), w\<lparr>str := str w @ [if b then 0x01 else 0x80]\<rparr>)"

text \<open>\<^verbatim>\<open>big.Int.Bytes\<close>: the absolute value, big endian, without leading zero bytes.\<close>

function natBytes :: "nat \<Rightarrow> bytes" where
  "natBytes n = (if n = 0 then [] else natBytes (n div 256) @ [word_of_nat n])"
  by pat_completeness auto
termination by (relation "measure id") auto

declare natBytes.simps [simp del]

definition writeBigInt :: "int \<Rightarrow> encbuf \<Rightarrow> unit wres" where
  "writeBigInt i w =
    (if i < 0 then (Inl (RlpErr ''rlp: cannot encode negative *big.Int''), w)
     else if i = 0 then (Inr (), w\<lparr>str := str w @ [0x80]\<rparr>)
     else (Inr (), encodeString (natBytes (nat \<bar>i\<bar>)) w))"

definition writeBigIntPtr :: "int option \<Rightarrow> encbuf \<Rightarrow> unit wres" where
  "writeBigIntPtr p w = (case p of None \<Rightarrow> (Inr (), w\<lparr>str := str w @ [0x80]\<rparr>) | Some i \<Rightarrow> writeBigInt i w)"

definition writeBytes :: "bytes \<Rightarrow> encbuf \<Rightarrow> unit wres" where
  "writeBytes b w = (Inr (), encodeString b w)"

definition writeByteArray :: "bytes \<Rightarrow> encbuf \<Rightarrow> unit wres" where
  "writeByteArray b w = (Inr (), encodeString b w)"

text \<open>\<^verbatim>\<open>binary.LittleEndian.PutUint64\<close>.\<close>

definition putUint64LE :: "uint64 \<Rightarrow> bytes" where
  "putUint64LE v = map (\<lambda>j. ucast (drop_bit (8 * j) v)) [0..<8]"

definition writefloat64 :: "uint64 \<Rightarrow> encbuf \<Rightarrow> unit wres" where
  "writefloat64 bits w = (Inr (), snd (writeBytes (putUint64LE bits) w))"

definition writeString :: "bytes \<Rightarrow> encbuf \<Rightarrow> unit wres" where
  "writeString s w =
    (if length s = 1 \<and> hd s \<le> 0x7F then (Inr (), w\<lparr>str := str w @ [hd s]\<rparr>)
     else (Inr (), (encodeStringHeader (length s) w)\<lparr>str := str (encodeStringHeader (length s) w) @ s\<rparr>))"

section \<open>The type-directed writer\<close>

abbreviation badKind :: "encbuf \<Rightarrow> unit wres" where
  "badKind w \<equiv> (Inl RlpPanic, w)"

function (sequential) writer :: "rtype \<Rightarrow> tags \<Rightarrow> rval \<Rightarrow> encbuf \<Rightarrow> unit wres"
  and writeElems :: "rtype \<Rightarrow> rval list \<Rightarrow> encbuf \<Rightarrow> unit wres"
  and writeFields :: "(rtype \<times> tags) list \<Rightarrow> rval list \<Rightarrow> encbuf \<Rightarrow> unit wres" where
  "writer TRaw ts v w = (case v of VBytes b \<Rightarrow> writeRawValue b w | _ \<Rightarrow> badKind w)"
| "writer TInterface ts v w =
    (case v of
       VIface None \<Rightarrow> (Inr (), w\<lparr>str := str w @ [0xC0]\<rparr>)
     | VIface (Some (t, x)) \<Rightarrow>
         if genTypeInfo t then writer t noTags x w else (Inl (RlpErr ''type is not RLP-serializable''), w)
     | _ \<Rightarrow> badKind w)"
| "writer TBigPtr ts v w = (case v of VBigPtr p \<Rightarrow> writeBigIntPtr p w | _ \<Rightarrow> badKind w)"
| "writer TBig ts v w = (case v of VBig i \<Rightarrow> writeBigInt i w | _ \<Rightarrow> badKind w)"
| "writer (TUint n) ts v w = (case v of VUint i \<Rightarrow> writeUint i w | _ \<Rightarrow> badKind w)"
| "writer TBool ts v w = (case v of VBool b \<Rightarrow> writeBool b w | _ \<Rightarrow> badKind w)"
| "writer TString ts v w = (case v of VString s \<Rightarrow> writeString s w | _ \<Rightarrow> badKind w)"
| "writer TBytes ts v w = (case v of VBytes b \<Rightarrow> writeBytes b w | _ \<Rightarrow> badKind w)"
| "writer (TByteArray n) ts v w = (case v of VBytes b \<Rightarrow> writeByteArray b w | _ \<Rightarrow> badKind w)"
| "writer (TSlice t) ts v w =
    (case v of
       VList vs \<Rightarrow>
         if tail ts then writeElems t vs w
         else let (lh, w1) = beginList w; (r, w2) = writeElems t vs w1 in (r, listEnd lh w2)
     | _ \<Rightarrow> badKind w)"
| "writer (TArray n t) ts v w =
    (case v of
       VList vs \<Rightarrow>
         if tail ts then writeElems t vs w
         else let (lh, w1) = beginList w; (r, w2) = writeElems t vs w1 in (r, listEnd lh w2)
     | _ \<Rightarrow> badKind w)"
| "writer (TStruct fs) ts v w =
    (case v of
       VList vs \<Rightarrow> let (lh, w1) = beginList w in bindE (writeFields fs vs w1) (\<lambda>_ w2. (Inr (), listEnd lh w2))
     | _ \<Rightarrow> badKind w)"
| "writer (TPtr t) ts v w =
    (case v of
       VPtr None \<Rightarrow>
         (case t of
            TByteArray n \<Rightarrow> (Inr (), w\<lparr>str := str w @ [0x80]\<rparr>)
          | TStruct fs \<Rightarrow> (let (lh, w1) = beginList w in (Inr (), listEnd lh w1))
          | TArray n t' \<Rightarrow> (let (lh, w1) = beginList w in (Inr (), listEnd lh w1))
          | _ \<Rightarrow> writer t noTags (zero t) w)
     | VPtr (Some x) \<Rightarrow> writer t noTags x w
     | _ \<Rightarrow> badKind w)"
| "writer TFloat64 ts v w = (case v of VFloat b \<Rightarrow> writefloat64 b w | _ \<Rightarrow> badKind w)"
| "writer (TInt n) ts v w = (case v of VInt i \<Rightarrow> writeInt i w | _ \<Rightarrow> badKind w)"
| "writer TOther ts v w = badKind w"
| "writeElems t [] w = (Inr (), w)"
| "writeElems t (v # vs) w = bindE (writer t noTags v w) (\<lambda>_ w. writeElems t vs w)"
| "writeFields [] vs w = (Inr (), w)"
| "writeFields ((t, ts) # fs) [] w = badKind w"
| "writeFields ((t, ts) # fs) (v # vs) w = bindE (writer t ts v w) (\<lambda>_ w. writeFields fs vs w)"
  by pat_completeness auto
termination
proof (relation "measures [\<lambda>x. case x of Inl (t, ts, v, w) \<Rightarrow> size v | Inr (Inl (t, vs, w)) \<Rightarrow> size_list size vs
      | Inr (Inr (fs, vs, w)) \<Rightarrow> size_list size vs, \<lambda>x. case x of Inl (t, ts, v, w) \<Rightarrow> size t | _ \<Rightarrow> 0]", goal_cases)
qed (auto simp: less_Suc_eq_le)

definition encode :: "rtype \<Rightarrow> rval \<Rightarrow> encbuf \<Rightarrow> unit wres" where
  "encode t v w = (if genTypeInfo t then writer t noTags v w else (Inl (RlpErr ''type is not RLP-serializable''), w))"

definition EncodeToBytes :: "rtype \<Rightarrow> rval \<Rightarrow> rerr + bytes" where
  "EncodeToBytes t v = (case encode t v emptyBuf of (Inl e, _) \<Rightarrow> Inl e | (Inr _, w) \<Rightarrow> toBytes w)"

definition Encode :: "(bytes \<Rightarrow> 's \<Rightarrow> (rerr + nat) \<times> 's) \<Rightarrow> rtype \<Rightarrow> rval \<Rightarrow> 's \<Rightarrow> (rerr + unit) \<times> 's" where
  "Encode wr t v out = (case encode t v emptyBuf of (Inl e, _) \<Rightarrow> (Inl e, out) | (Inr _, w) \<Rightarrow> toWriter wr w out)"

section \<open>The plain recursive encoding\<close>

text \<open>The encoding without a buffer: every list is its header followed by its elements.  There
  is none for a value with a negative big integer or a type that cannot be written.\<close>

definition encStr :: "bytes \<Rightarrow> bytes" where
  "encStr b = (if length b = 1 \<and> hd b \<le> 0x7F then b else puthead 0x80 0xB7 (word_of_nat (length b)) @ b)"

definition encLst :: "bytes \<Rightarrow> bytes" where
  "encLst b = puthead 0xC0 0xF7 (word_of_nat (length b)) @ b"

definition encUint :: "uint64 \<Rightarrow> bytes" where
  "encUint i = encStr (if i = 0 then [] else putint i)"

definition encInt :: "int \<Rightarrow> bytes" where
  "encInt i = (if i = 0 then [0x80] else (0x80 + word_of_nat (length (putint2 i))) # putint2 i)"

definition encBig :: "int \<Rightarrow> bytes option" where
  "encBig i = (if i < 0 then None else Some (encStr (natBytes (nat i))))"

function (sequential) encSpec :: "rtype \<Rightarrow> tags \<Rightarrow> rval \<Rightarrow> bytes option"
  and encElems :: "rtype \<Rightarrow> rval list \<Rightarrow> bytes option"
  and encFields :: "(rtype \<times> tags) list \<Rightarrow> rval list \<Rightarrow> bytes option" where
  "encSpec TRaw ts v = (case v of VBytes b \<Rightarrow> Some b | _ \<Rightarrow> None)"
| "encSpec TInterface ts v =
    (case v of VIface None \<Rightarrow> Some (encLst []) | VIface (Some (t, x)) \<Rightarrow> if genTypeInfo t then encSpec t noTags x else None
     | _ \<Rightarrow> None)"
| "encSpec TBigPtr ts v = (case v of VBigPtr None \<Rightarrow> Some (encStr []) | VBigPtr (Some i) \<Rightarrow> encBig i | _ \<Rightarrow> None)"
| "encSpec TBig ts v = (case v of VBig i \<Rightarrow> encBig i | _ \<Rightarrow> None)"
| "encSpec (TUint n) ts v = (case v of VUint i \<Rightarrow> Some (encUint i) | _ \<Rightarrow> None)"
| "encSpec TBool ts v = (case v of VBool b \<Rightarrow> Some (encUint (if b then 1 else 0)) | _ \<Rightarrow> None)"
| "encSpec TString ts v = (case v of VString s \<Rightarrow> Some (encStr s) | _ \<Rightarrow> None)"
| "encSpec TBytes ts v = (case v of VBytes b \<Rightarrow> Some (encStr b) | _ \<Rightarrow> None)"
| "encSpec (TByteArray n) ts v = (case v of VBytes b \<Rightarrow> Some (encStr b) | _ \<Rightarrow> None)"
| "encSpec (TSlice t) ts v =
    (case v of VList vs \<Rightarrow> map_option (if tail ts then id else encLst) (encElems t vs) | _ \<Rightarrow> None)"
| "encSpec (TArray n t) ts v =
    (case v of VList vs \<Rightarrow> map_option (if tail ts then id else encLst) (encElems t vs) | _ \<Rightarrow> None)"
| "encSpec (TStruct fs) ts v = (case v of VList vs \<Rightarrow> map_option encLst (encFields fs vs) | _ \<Rightarrow> None)"
| "encSpec (TPtr t) ts v =
    (case v of
       VPtr None \<Rightarrow>
         (case t of TByteArray n \<Rightarrow> Some (encStr []) | TStruct fs \<Rightarrow> Some (encLst []) | TArray n t' \<Rightarrow> Some (encLst [])
          | _ \<Rightarrow> encSpec t noTags (zero t))
     | VPtr (Some x) \<Rightarrow> encSpec t noTags x
     | _ \<Rightarrow> None)"
| "encSpec TFloat64 ts v = (case v of VFloat b \<Rightarrow> Some (encStr (putUint64LE b)) | _ \<Rightarrow> None)"
| "encSpec (TInt n) ts v = (case v of VInt i \<Rightarrow> Some (encInt i) | _ \<Rightarrow> None)"
| "encSpec TOther ts v = None"
| "encElems t [] = Some []"
| "encElems t (v # vs) =
    (case encSpec t noTags v of None \<Rightarrow> None | Some a \<Rightarrow> map_option (\<lambda>b. a @ b) (encElems t vs))"
| "encFields [] vs = Some []"
| "encFields ((t, ts) # fs) [] = None"
| "encFields ((t, ts) # fs) (v # vs) =
    (case encSpec t ts v of None \<Rightarrow> None | Some a \<Rightarrow> map_option (\<lambda>b. a @ b) (encFields fs vs))"
  by pat_completeness auto
termination
proof (relation "measures [\<lambda>x. case x of Inl (t, ts, v) \<Rightarrow> size v | Inr (Inl (t, vs)) \<Rightarrow> size_list size vs
      | Inr (Inr (fs, vs)) \<Rightarrow> size_list size vs, \<lambda>x. case x of Inl (t, ts, v) \<Rightarrow> size t | _ \<Rightarrow> 0]", goal_cases)
qed (auto simp: less_Suc_eq_le)

section \<open>Pieces\<close>

text \<open>What a writer adds to a buffer is a sequence of pieces: string data and list headers.\<close>

datatype piece = PStr bytes | PHead int

fun pieceBytes :: "piece \<Rightarrow> bytes" where
  "pieceBytes (PStr b) = b"
| "pieceBytes (PHead n) = puthead 0xC0 0xF7 (word_of_int n)"

fun strOf :: "piece list \<Rightarrow> bytes" where
  "strOf [] = []"
| "strOf (PStr b # ps) = b @ strOf ps"
| "strOf (PHead n # ps) = strOf ps"

fun headsOf :: "nat \<Rightarrow> piece list \<Rightarrow> listhead list" where
  "headsOf off [] = []"
| "headsOf off (PStr b # ps) = headsOf (off + length b) ps"
| "headsOf off (PHead n # ps) = \<lparr>offset = int off, hsize = n\<rparr> # headsOf off ps"

fun headSum :: "piece list \<Rightarrow> nat" where
  "headSum [] = 0"
| "headSum (PStr b # ps) = headSum ps"
| "headSum (PHead n # ps) = headsize (word_of_int n) + headSum ps"

abbreviation rendered :: "piece list \<Rightarrow> bytes" where
  "rendered ps \<equiv> concat (map pieceBytes ps)"

definition emits :: "encbuf \<Rightarrow> piece list \<Rightarrow> encbuf \<Rightarrow> bool" where
  "emits w ps w' \<longleftrightarrow> str w' = str w @ strOf ps \<and> lheads w' = lheads w @ headsOf (length (str w)) ps \<and>
    lhsize w' = lhsize w + int (headSum ps)"

lemma strOf_append [simp]: "strOf (ps @ qs) = strOf ps @ strOf qs"
  by (induction ps rule: strOf.induct) auto

lemma headsOf_append [simp]: "headsOf off (ps @ qs) = headsOf off ps @ headsOf (off + length (strOf ps)) qs"
  by (induction off ps rule: headsOf.induct) (auto simp: add.assoc)

lemma headSum_append [simp]: "headSum (ps @ qs) = headSum ps + headSum qs"
  by (induction ps rule: headSum.induct) auto

lemma length_rendered: "length (rendered ps) = length (strOf ps) + headSum ps"
  by (induction ps rule: strOf.induct) auto

lemma emits_trans: "emits w ps w1 \<Longrightarrow> emits w1 qs w2 \<Longrightarrow> emits w (ps @ qs) w2"
  by (auto simp: emits_def)

lemma emits_refl: "emits w [] w"
  by (simp add: emits_def)

lemma emits_str: "emits w [PStr b] (w\<lparr>str := str w @ b\<rparr>)"
  by (simp add: emits_def)

text \<open>Closing a list fixes the size of the header that opening it recorded.\<close>

lemma emits_list:
  assumes "beginList w = (lh, w1)" and "emits w1 ps w2" and "length (rendered ps) < 2 ^ 63"
  shows "emits w (PHead (int (length (rendered ps))) # ps) (listEnd lh w2)"
proof -
  let ?n = "int (length (rendered ps))"
  have w1: "lh = length (lheads w)" "w1 = w\<lparr>lheads := lheads w @ [\<lparr>offset = int (length (str w)), hsize = lhsize w\<rparr>]\<rparr>"
    using assms(1) by (simp_all add: beginList_def)
  have h: "lheads w2 ! lh = \<lparr>offset = int (length (str w)), hsize = lhsize w\<rparr>"
    using assms(2) w1 by (simp add: emits_def nth_append)
  have n: "bufSize w2 - int (length (str w)) - lhsize w = ?n"
    using assms(2) w1 by (simp add: emits_def bufSize_def length_rendered)
  have c: "(word_of_nat (length (rendered ps)) :: uint64) < 56 \<longleftrightarrow> length (rendered ps) < 56"
    using assms(3) by (simp add: word_less_nat_alt unat_of_nat)
  show ?thesis
    using assms(2) h n w1
    by (simp add: emits_def listEnd_def Let_def list_update_append headsize_def c)
qed

definition emitsBytes :: "encbuf \<Rightarrow> bytes \<Rightarrow> encbuf \<Rightarrow> bool" where
  "emitsBytes w b w' \<longleftrightarrow> (\<exists>ps. emits w ps w' \<and> rendered ps = b)"

lemma emitsBytes_refl: "emitsBytes w [] w"
  unfolding emitsBytes_def using emits_refl by fastforce

lemma emitsBytes_str: "emitsBytes w b (w\<lparr>str := str w @ b\<rparr>)"
  unfolding emitsBytes_def using emits_str by fastforce

lemma emitsBytes_trans: "emitsBytes w a w1 \<Longrightarrow> emitsBytes w1 b w2 \<Longrightarrow> emitsBytes w (a @ b) w2"
  unfolding emitsBytes_def using emits_trans by fastforce

lemma emitsBytes_list:
  "beginList w = (lh, w1) \<Longrightarrow> emitsBytes w1 b w2 \<Longrightarrow> length b < 2 ^ 63 \<Longrightarrow> emitsBytes w (encLst b) (listEnd lh w2)"
  unfolding emitsBytes_def
  by (elim exE conjE, rule exI, rule conjI, rule emits_list, assumption+) (simp_all add: encLst_def)

lemma emitsBytes_eq: "emitsBytes w b w' \<Longrightarrow> b = c \<Longrightarrow> emitsBytes w c w'"
  by simp

lemma single_byte: "length b = Suc 0 \<Longrightarrow> [hd b] = b"
  by (cases b) auto

lemma byte_of_nat: "(ucast (word_of_nat n :: uint64) :: byte) = word_of_nat n"
  by (intro unsigned_word_eqI [where 'a = nat]) (simp add: unsigned_ucast_eq unsigned_of_nat)

lemma encodeString_emits: "length b < 2 ^ 63 \<Longrightarrow> emitsBytes w (encStr b) (encodeString b w)"
proof -
  assume len: "length b < 2 ^ 63"
  have c: "(word_of_nat (length b) :: uint64) < 56 \<longleftrightarrow> length b < 56"
    using len by (simp add: word_less_nat_alt unat_of_nat)
  have u: "(ucast (word_of_nat (length b) :: uint64) :: byte) = word_of_nat (length b)" by (rule byte_of_nat)
  have "encodeString b w = w\<lparr>str := str w @ encStr b\<rparr>"
    using single_byte [of b]
    by (simp add: encodeString_def encodeStringHeader_def encStr_def bufWrite_def puthead_def Let_def c u)
  then show ?thesis by (simp add: emitsBytes_str)
qed

lemma writeString_eq: "writeString b w = (Inr (), encodeString b w)"
  by (simp add: writeString_def encodeString_def bufWrite_def)

lemma writeUint_emits: "\<exists>w'. writeUint i w = (Inr (), w') \<and> emitsBytes w (encUint i) w'"
proof -
  have "writeUint i w = (Inr (), w\<lparr>str := str w @ encUint i\<rparr>)"
  proof (cases "i = 0 \<or> 128 \<le> i")
    case False
    then have "putint i = [ucast i]" "unat i < 128" by (auto simp: putint_def word_less_nat_alt word_le_nat_alt)
    then show ?thesis using False
      by (simp add: writeUint_def encUint_def encStr_def word_le_nat_alt word_less_nat_alt byte_down)
  next
    case True
    moreover have "\<not> hd (putint i) \<le> 0x7F" if i: "128 \<le> i" "length (putint i) = 1"
    proof -
      obtain x where x: "putint i = [x]" using i(2) by (cases "putint i") auto
      then have "unat x = unat i" using beVal_putint [of i] by simp
      then show ?thesis using x i(1) by (simp add: word_le_nat_alt)
    qed
    moreover have "(word_of_nat (intsize i) :: uint64) < 56"
      using intsize_bounds(2) [of i] by (simp add: word_less_nat_alt unat_of_nat)
    ultimately show ?thesis
      by (auto simp: writeUint_def encUint_def encStr_def puthead_def Let_def byte_of_nat not_less)
  qed
  then show ?thesis by (simp add: emitsBytes_str)
qed

lemma writeInt_emits: "\<exists>w'. writeInt i w = (Inr (), w') \<and> emitsBytes w (encInt i) w'"
  by (simp add: writeInt_def encInt_def Let_def emitsBytes_str)

lemma writeBool_emits: "\<exists>w'. writeBool x w = (Inr (), w') \<and> emitsBytes w (encUint (if x then 1 else 0)) w'"
proof -
  have "encUint (if x then 1 else 0) = [if x then 0x01 else 0x80]"
    by (simp add: encUint_def encStr_def putint_def puthead_def)
  then show ?thesis by (simp add: writeBool_def emitsBytes_str)
qed

lemma zero_string: "emitsBytes w (encStr []) (w\<lparr>str := str w @ [0x80]\<rparr>)"
  using emitsBytes_str [of w "[0x80]"] by (simp add: encStr_def puthead_def)

lemma natBytes_0: "natBytes 0 = []"
  by (simp add: natBytes.simps)

lemma writeBigInt_emits:
  "encBig i = Some b \<Longrightarrow> length b < 2 ^ 63 \<Longrightarrow> \<exists>w'. writeBigInt i w = (Inr (), w') \<and> emitsBytes w b w'"
  using encodeString_emits [of "natBytes (nat i)" w] zero_string [of w]
  by (auto simp: encBig_def writeBigInt_def natBytes_0 encStr_def split: if_splits)

lemma length_encLst: "length b \<le> length (encLst b)" "length b \<le> length (encStr b)"
  by (simp_all add: encLst_def encStr_def)

lemma encoded_emits: "length (encStr b) < 2 ^ 63 \<Longrightarrow> emitsBytes w (encStr b) (encodeString b w)"
  using length_encLst(2) [of b] by (intro encodeString_emits) simp

lemma writer_emits:
  "encSpec t ts v = Some b \<Longrightarrow> length b < 2 ^ 63 \<Longrightarrow> \<exists>w'. writer t ts v w = (Inr (), w') \<and> emitsBytes w b w'"
  "encElems t vs = Some b \<Longrightarrow> length b < 2 ^ 63 \<Longrightarrow> \<exists>w'. writeElems t vs w = (Inr (), w') \<and> emitsBytes w b w'"
  "encFields fs vs = Some b \<Longrightarrow> length b < 2 ^ 63 \<Longrightarrow> \<exists>w'. writeFields fs vs w = (Inr (), w') \<and> emitsBytes w b w'"
proof (induction t ts v and t vs and fs vs arbitrary: b w and b w and b w rule: encSpec_encElems_encFields.induct)
  case (2 ts v)
  then show ?case using emitsBytes_str [of w "[0xC0]"]
    by (auto simp: encLst_def puthead_def split: rval.splits option.splits if_splits)
next
  case (3 ts v)
  then show ?case using zero_string writeBigInt_emits
    by (auto simp: writeBigIntPtr_def split: rval.splits option.splits)
next
  case (10 t ts v)
  then obtain vs c where v: "v = VList vs" "encElems t vs = Some c" "b = (if tail ts then c else encLst c)"
    by (auto split: rval.splits)
  have len: "length c < 2 ^ 63" using 10(3) v(3) length_encLst(1) [of c] by (auto split: if_splits)
  obtain lh w1 where b: "beginList w = (lh, w1)" by fastforce
  show ?case using 10(1) [OF v(1,2) len, of w] 10(1) [OF v(1,2) len, of w1] v emitsBytes_list [OF b _ len]
    by (auto simp: b)
next
  case (11 n t ts v)
  then obtain vs c where v: "v = VList vs" "encElems t vs = Some c" "b = (if tail ts then c else encLst c)"
    by (auto split: rval.splits)
  have len: "length c < 2 ^ 63" using 11(3) v(3) length_encLst(1) [of c] by (auto split: if_splits)
  obtain lh w1 where b: "beginList w = (lh, w1)" by fastforce
  show ?case using 11(1) [OF v(1,2) len, of w] 11(1) [OF v(1,2) len, of w1] v emitsBytes_list [OF b _ len]
    by (auto simp: b)
next
  case (12 fs ts v)
  then obtain vs c where v: "v = VList vs" "encFields fs vs = Some c" "b = encLst c"
    by (auto split: rval.splits)
  have len: "length c < 2 ^ 63" using 12(3) v(3) length_encLst(1) [of c] by auto
  obtain lh w1 where b: "beginList w = (lh, w1)" by fastforce
  show ?case using 12(1) [OF v(1,2) len, of w1] v emitsBytes_list [OF b _ len] by (auto simp: b)
next
  case (13 t ts v)
  obtain lh w1 where b: "beginList w = (lh, w1)" by fastforce
  have "emitsBytes w (encLst []) (listEnd lh w1)" by (rule emitsBytes_list [OF b emitsBytes_refl]) simp
  note nil = this
  show ?case
  proof (cases "\<exists>x. v = VPtr (Some x)")
    case True
    then obtain x where x: "v = VPtr (Some x)" by blast
    then have "\<exists>w'. writer t noTags x w = (Inr (), w') \<and> emitsBytes w b w'" using 13 by simp
    then show ?thesis using x by simp
  next
    case False
    then have "v = VPtr None" using 13 by (auto split: rval.splits option.splits)
    with 13 nil zero_string b show ?thesis by (cases t) simp_all
  qed
next
  case (18 t v vs)
  then obtain a c where v: "encSpec t noTags v = Some a" "encElems t vs = Some c" "b = a @ c"
    by (auto split: option.splits)
  then obtain w1 where w1: "writer t noTags v w = (Inr (), w1)" "emitsBytes w a w1"
    using 18(1) [OF v(1)] 18(4) by auto
  show ?case using 18(2) [OF v(1,2), of w1] 18(4) v(3) w1 emitsBytes_trans [OF w1(2)] by auto
next
  case (21 t ts fs v vs)
  then obtain a c where v: "encSpec t ts v = Some a" "encFields fs vs = Some c" "b = a @ c"
    by (auto split: option.splits)
  then obtain w1 where w1: "writer t ts v w = (Inr (), w1)" "emitsBytes w a w1"
    using 21(1) [OF v(1)] 21(4) by auto
  show ?case using 21(2) [OF v(1,2), of w1] 21(4) v(3) w1 emitsBytes_trans [OF w1(2)] by auto
qed (use writeUint_emits writeInt_emits writeBool_emits writeBigInt_emits emitsBytes_refl encoded_emits
  in \<open>auto simp: writeRawValue_def emitsBytes_str writeString_eq writeBytes_def writeByteArray_def writefloat64_def
    split: rval.splits\<close>)

text \<open>A value without an encoding makes its writer fail.\<close>

lemma isl_bindE: "isl (fst (bindE r k)) \<longleftrightarrow> isl (fst r) \<or> isl (fst (k (projr (fst r)) (snd r)))"
  by (cases r; cases "fst r") auto

lemma writer_fails:
  "isl (fst (writer t ts v w)) \<longleftrightarrow> encSpec t ts v = None"
  "isl (fst (writeElems t vs w)) \<longleftrightarrow> encElems t vs = None"
  "isl (fst (writeFields fs vs w)) \<longleftrightarrow> encFields fs vs = None"
proof (induction t ts v and t vs and fs vs arbitrary: w and w and w rule: encSpec_encElems_encFields.induct)
  case (13 t ts v)
  show ?case
  proof (cases "\<exists>x. v = VPtr (Some x)")
    case True
    then show ?thesis using 13 by auto
  next
    case False
    show ?thesis
    proof (cases "v = VPtr None")
      case True
      then show ?thesis using 13 by (cases t) (simp_all split: prod.split)
    next
      case False
      then show ?thesis using \<open>\<nexists>x. v = VPtr (Some x)\<close> by (auto split: rval.splits option.splits)
    qed
  qed
qed (auto simp: writeRawValue_def writeInt_def writeUint_def writeBool_def writeBigInt_def writeBigIntPtr_def encBig_def
  writeString_def writeBytes_def writeByteArray_def writefloat64_def Let_def isl_bindE
  case_prod_unfold split: rval.splits option.splits)

section \<open>From the buffer to bytes\<close>

lemma toBytesLoop_pieces:
  assumes "length out + length pend + length (rendered ps) \<le> cap"
  shows "\<exists>k out'. toBytesLoop cap (pre @ pend @ strOf ps) (headsOf (length pre + length pend) ps) (int (length pre)) out =
      Inr (int k, out') \<and> out' @ drop k (pre @ pend @ strOf ps) = out @ pend @ rendered ps"
  using assms
proof (induction ps arbitrary: pre pend out)
  case Nil
  then show ?case by auto
next
  case (Cons p ps)
  show ?case
  proof (cases p)
    case (PStr b)
    then show ?thesis using Cons.IH [of out "pend @ b" pre] Cons.prems by (simp add: add.assoc)
  next
    case (PHead n)
    let ?s = "pre @ pend @ strOf ps"
    let ?enc = "puthead 0xC0 0xF7 (word_of_int n)"
    have "toBytesLoop cap ?s (headsOf (length pre + length pend) (p # ps)) (int (length pre)) out =
        toBytesLoop cap ?s (headsOf (length pre + length pend) ps) (int (length pre) + int (length pend)) (out @ pend @ ?enc)"
      using Cons.prems PHead by (simp add: Let_def listheadEncode_def min_absorb1)
    then show ?thesis using Cons.IH [of "out @ pend @ ?enc" "[]" "pre @ pend"] Cons.prems PHead by simp
  qed
qed

lemma toBytes_pieces:
  assumes "emits emptyBuf ps w"
  shows "toBytes w = Inr (rendered ps)"
proof -
  have w: "str w = strOf ps" "lheads w = headsOf 0 ps" "bufSize w = int (length (rendered ps))"
    using assms by (simp_all add: emits_def emptyBuf_def bufSize_def length_rendered)
  obtain k out where "toBytesLoop (length (rendered ps)) (strOf ps) (headsOf 0 ps) 0 [] = Inr (int k, out)"
    "out @ drop k (strOf ps) = rendered ps"
    using toBytesLoop_pieces [of "[]" "[]" ps "length (rendered ps)" "[]"] by auto
  moreover from this have "take (length (rendered ps)) (out @ drop k (strOf ps) @ x) = rendered ps" for x
    by (metis append_assoc append_eq_conv_conj)
  ultimately show ?thesis by (simp add: toBytes_def Let_def w del: take_append)
qed

text \<open>A destination that takes every byte it is given: its \<^verbatim>\<open>Write\<close> reports the whole length, and
  writing two slices is writing their concatenation.\<close>

locale sink =
  fixes wr :: "bytes \<Rightarrow> 's \<Rightarrow> (rerr + nat) \<times> 's"
    and feed :: "bytes \<Rightarrow> 's \<Rightarrow> 's"
  assumes wr_feed: "wr b s = (Inr (length b), feed b s)"
    and feed_Nil: "feed [] s = s"
    and feed_append: "feed (a @ b) s = feed b (feed a s)"
begin

lemma toWriterLoop_pieces:
  "\<exists>k out'. toWriterLoop wr (pre @ pend @ strOf ps) (headsOf (length pre + length pend) ps) (int (length pre)) out =
      (Inr (int k), out') \<and> feed (drop k (pre @ pend @ strOf ps)) out' = feed (pend @ rendered ps) out"
proof (induction ps arbitrary: pre pend out)
  case Nil
  then show ?case by auto
next
  case (Cons p ps)
  show ?case
  proof (cases p)
    case (PStr b)
    then show ?thesis using Cons.IH [of pre "pend @ b" out] by (simp add: add.assoc)
  next
    case (PHead n)
    let ?s = "pre @ pend @ strOf ps"
    let ?enc = "puthead 0xC0 0xF7 (word_of_int n)"
    have "toWriterLoop wr ?s (headsOf (length pre + length pend) (p # ps)) (int (length pre)) out =
        toWriterLoop wr ?s (headsOf (length pre + length pend) ps) (int (length pre) + int (length pend)) (feed ?enc (feed pend out))"
      using PHead by (cases "pend = []") (simp_all add: listheadEncode_def wr_feed feed_Nil)
    then show ?thesis using Cons.IH [of "pre @ pend" "[]" "feed ?enc (feed pend out)"] PHead by (simp add: feed_append)
  qed
qed

lemma toWriter_pieces:
  assumes "emits emptyBuf ps w"
  shows "toWriter wr w out = (Inr (), feed (rendered ps) out)"
proof -
  have w: "str w = strOf ps" "lheads w = headsOf 0 ps" using assms by (simp_all add: emits_def emptyBuf_def)
  obtain k out' where "toWriterLoop wr (strOf ps) (headsOf 0 ps) 0 out = (Inr (int k), out')"
    "feed (drop k (strOf ps)) out' = feed (rendered ps) out"
    using toWriterLoop_pieces [of "[]" "[]" ps out] by auto
  then show ?thesis by (cases "k < length (strOf ps)") (simp_all add: toWriter_def w wr_feed feed_Nil)
qed

end

text \<open>The buffer is such a destination itself, and so is a byte slice that grows.\<close>

interpretation bufSink: sink "\<lambda>b w. (Inr (length b), bufWrite b w)" bufWrite
  by unfold_locales (simp_all add: bufWrite_def)

interpretation appendSink: sink "\<lambda>b out. (Inr (length b), out @ b)" "\<lambda>b out. out @ b"
  by unfold_locales simp_all

lemma encode_emits:
  assumes "genTypeInfo t" and "encSpec t noTags v = Some b" and "length b < 2 ^ 63"
  obtains w ps where "encode t v emptyBuf = (Inr (), w)" "emits emptyBuf ps w" "rendered ps = b"
  using writer_emits(1) [OF assms(2,3), of emptyBuf] assms(1) by (auto simp: encode_def emitsBytes_def)

lemma encode_fails:
  assumes "genTypeInfo t \<longrightarrow> encSpec t noTags v = None"
  obtains e w where "encode t v emptyBuf = (Inl e, w)"
proof -
  have "isl (fst (encode t v emptyBuf))" using assms writer_fails(1) [of t noTags v emptyBuf] by (auto simp: encode_def)
  then show thesis using that by (metis isl_def prod.collapse)
qed

lemma EncodeToBytes_spec:
  assumes "genTypeInfo t" and "encSpec t noTags v = Some b" and "length b < 2 ^ 63"
  shows "EncodeToBytes t v = Inr b"
  by (rule encode_emits [OF assms]) (simp add: EncodeToBytes_def toBytes_pieces)

section \<open>Properties\<close>

text \<open>C36. Encoding to bytes with deferred list headers gives the plain recursive encoding, for
  every value whose encoding fits a slice; the sizes the headers announce and the size of the
  output are exact, so no write is out of range.  A value that has no encoding is an error.\<close>

theorem EncodeToBytes_exact:
  assumes "\<And>b. encSpec t noTags v = Some b \<Longrightarrow> length b < 2 ^ 63"
  shows "case if genTypeInfo t then encSpec t noTags v else None of
      Some b \<Rightarrow> EncodeToBytes t v = Inr b
    | None \<Rightarrow> \<exists>e. EncodeToBytes t v = Inl e"
proof (cases "if genTypeInfo t then encSpec t noTags v else None")
  case None
  then have "genTypeInfo t \<longrightarrow> encSpec t noTags v = None" by (auto split: if_splits)
  then obtain e w where "encode t v emptyBuf = (Inl e, w)" by (rule encode_fails)
  then show ?thesis using None by (simp add: EncodeToBytes_def)
next
  case (Some b)
  then show ?thesis using EncodeToBytes_spec [of t v b] assms by (auto split: if_splits)
qed

abbreviation exampleType :: rtype where
  "exampleType \<equiv> TStruct [(TUint 64, noTags), (TSlice TBytes, noTags)]"

abbreviation exampleValue :: rval where
  "exampleValue \<equiv> VList [VUint 1024, VList [VBytes [1], VBytes [200]]]"

lemma example_spec: "encSpec exampleType noTags exampleValue = Some [0xC7, 0x82, 4, 0, 0xC3, 1, 0x81, 200]"
  by (simp add: encUint_def putint_def encStr_def encLst_def puthead_def)

theorem EncodeToBytes_exact_witness:
  "EncodeToBytes exampleType exampleValue = Inr [0xC7, 0x82, 4, 0, 0xC3, 1, 0x81, 200] \<and>
   (\<exists>e. EncodeToBytes (TSlice TBig) (VList [VBig (- 1)]) = Inl e)"
  using EncodeToBytes_exact [of exampleType exampleValue] EncodeToBytes_exact [of "TSlice TBig" "VList [VBig (- 1)]"]
    example_spec by (simp add: encBig_def)

text \<open>Encoding to a writer and encoding to bytes agree: a destination that takes every byte
  is fed exactly the bytes the slice would hold, and on an error it is fed nothing.\<close>

theorem Encode_agrees:
  assumes "\<And>b. encSpec t noTags v = Some b \<Longrightarrow> length b < 2 ^ 63"
  shows "Encode (\<lambda>b out. (Inr (length b), out @ b)) t v out =
    (case EncodeToBytes t v of Inl e \<Rightarrow> (Inl e, out) | Inr b \<Rightarrow> (Inr (), out @ b))"
proof (cases "genTypeInfo t \<and> encSpec t noTags v \<noteq> None")
  case True
  then obtain b where b: "genTypeInfo t" "encSpec t noTags v = Some b" by auto
  obtain w ps where "encode t v emptyBuf = (Inr (), w)" "emits emptyBuf ps w" "rendered ps = b"
    using encode_emits [OF b assms [OF b(2)]] .
  then show ?thesis by (simp add: Encode_def EncodeToBytes_def appendSink.toWriter_pieces toBytes_pieces)
next
  case False
  then have "genTypeInfo t \<longrightarrow> encSpec t noTags v = None" by blast
  then obtain e w where "encode t v emptyBuf = (Inl e, w)" by (rule encode_fails)
  then show ?thesis by (simp add: Encode_def EncodeToBytes_def)
qed

theorem Encode_agrees_witness:
  "Encode (\<lambda>b out. (Inr (length b), out @ b)) exampleType exampleValue [7] =
    (Inr (), 7 # [0xC7, 0x82, 4, 0, 0xC3, 1, 0x81, 200])"
  using Encode_agrees [of exampleType exampleValue "[7]"] EncodeToBytes_spec [of exampleType exampleValue] example_spec by simp

end
