(* ===== verification/RlpDecode.thy ===== *)
theory RlpDecode
  imports RlpEncode
begin

text \<open>
  The decoder of \<^verbatim>\<open>common/rlp/decode.go\<close>: the stream with its cached header, its input limit and
  the stack of enclosing lists, and the type-directed readers on top of it.  The input is a
  byte slice.  The loop over the elements of a slice may not end, so the readers carry fuel:
  \<^const>\<open>None\<close> means that the fuel ran out before they returned.
\<close>

section \<open>The stream\<close>

record listpos =
  lpos :: uint64
  lsize :: uint64

text \<open>The stack has the innermost list first; no cached kind is the kind \<^verbatim>\<open>-1\<close>.\<close>

record Stream =
  input :: bytes
  remaining :: uint64
  limited :: bool
  skind :: "Kind option"
  ssize :: uint64
  byteval :: byte
  kinderr :: "rerr option"
  stack :: "listpos list"

type_synonym 'a sres = "(rerr + 'a) \<times> Stream"

definition willRead :: "uint64 \<Rightarrow> Stream \<Rightarrow> unit sres" where
  "willRead n s =
    (let s = s\<lparr>skind := None\<rparr> in
     bindE
       (case stack s of
          [] \<Rightarrow> (Inr (), s)
        | tos # others \<Rightarrow>
            if n > lsize tos - lpos tos then (Inl ErrElemTooLarge, s)
            else (Inr (), s\<lparr>stack := tos\<lparr>lpos := lpos tos + n\<rparr> # others\<rparr>))
       (\<lambda>_ s. if limited s
              then if n > remaining s then (Inl ErrValueTooLarge, s) else (Inr (), s\<lparr>remaining := remaining s - n\<rparr>)
              else (Inr (), s)))"

definition readByte :: "Stream \<Rightarrow> byte sres" where
  "readByte s = bindE (willRead 1 s) (\<lambda>_ s.
     case input s of [] \<Rightarrow> (Inl ErrUnexpectedEOF, s) | b # others \<Rightarrow> (Inr b, s\<lparr>input := others\<rparr>))"

definition readFull :: "uint64 \<Rightarrow> Stream \<Rightarrow> bytes sres" where
  "readFull n s = bindE (willRead n s) (\<lambda>_ s.
     let k = unat n in
     if k \<le> length (input s) then (Inr (take k (input s)), s\<lparr>input := drop k (input s)\<rparr>)
     else (Inl ErrUnexpectedEOF, s\<lparr>input := []\<rparr>))"

definition readUint :: "byte \<Rightarrow> Stream \<Rightarrow> uint64 sres" where
  "readUint n s =
    (if n = 0 then (Inr 0, s\<lparr>skind := None\<rparr>)
     else if n = 1 then bindE (readByte s) (\<lambda>b s. (Inr (ucast b), s))
     else if n > 8 then (Inl RlpPanic, s)
     else bindE (readFull (ucast n) s) (\<lambda>b s.
       if hd b = 0 then (Inl ErrCanonSize, s) else (Inr (shiftOr (replicate (8 - unat n) 0 @ b)), s)))"

text \<open>The kind and the size of the next value with the error, if any; a failure leaves the
  kind \<^verbatim>\<open>0\<close>, which is \<^const>\<open>Byte\<close>.\<close>

definition longSize :: "Kind \<Rightarrow> byte \<Rightarrow> Stream \<Rightarrow> (Kind \<times> uint64 \<times> rerr option) \<times> Stream" where
  "longSize k n s = (case readUint n s of
     (Inl e, s) \<Rightarrow> ((k, 0, Some e), s)
   | (Inr v, s) \<Rightarrow> ((k, v, if v < 56 then Some ErrCanonSize else None), s))"

definition readKind :: "Stream \<Rightarrow> (Kind \<times> uint64 \<times> rerr option) \<times> Stream" where
  "readKind s = (case readByte s of
     (Inl e, s) \<Rightarrow>
       ((Byte, 0, Some (if stack s = [] \<and> (e = ErrUnexpectedEOF \<or> e = ErrValueTooLarge) then ioEOF else e)), s)
   | (Inr b, s) \<Rightarrow>
       let s = s\<lparr>byteval := 0\<rparr> in
       if b < 0x80 then ((Byte, 0, None), s\<lparr>byteval := b\<rparr>)
       else if b < 0xB8 then ((String, ucast (b - 0x80), None), s)
       else if b < 0xC0 then longSize String (b - 0xB7) s
       else if b < 0xF8 then ((List, ucast (b - 0xC0), None), s)
       else longSize List (b - 0xF7) s)"

definition kindOf :: "Stream \<Rightarrow> (Kind \<times> uint64) sres" where
  "kindOf s = ((case kinderr s of Some e \<Rightarrow> Inl e | None \<Rightarrow> Inr (the (skind s), ssize s)), s)"

definition streamKind :: "Stream \<Rightarrow> (Kind \<times> uint64) sres" where
  "streamKind s =
    (if skind s \<noteq> None then kindOf s
     else
       let s = s\<lparr>kinderr := None\<rparr> in
       if (case stack s of [] \<Rightarrow> False | tos # _ \<Rightarrow> lpos tos = lsize tos) then (Inl EOL, s)
       else
         let ((k, n, e), s) = readKind s;
             e = (case e of Some x \<Rightarrow> Some x
                  | None \<Rightarrow> (case stack s of
                        [] \<Rightarrow> if limited s \<and> n > remaining s then Some ErrValueTooLarge else None
                      | tos # _ \<Rightarrow> if n > lsize tos - lpos tos then Some ErrElemTooLarge else None))
         in kindOf (s\<lparr>skind := Some k, ssize := n, kinderr := e\<rparr>))"

section \<open>Reading values\<close>

definition streamBytes :: "Stream \<Rightarrow> bytes sres" where
  "streamBytes s = bindE (streamKind s) (\<lambda>(kind, n) s.
     case kind of
       Byte \<Rightarrow> (Inr [byteval s], s\<lparr>skind := None\<rparr>)
     | String \<Rightarrow> bindE (readFull n s) (\<lambda>b s.
         if n = 1 \<and> hd b < 128 then (Inl ErrCanonSize, s) else (Inr b, s))
     | List \<Rightarrow> (Inl ErrExpectedString, s))"

definition Raw :: "Stream \<Rightarrow> bytes sres" where
  "Raw s = bindE (streamKind s) (\<lambda>(kind, n) s.
     if kind = Byte then (Inr [byteval s], s\<lparr>skind := None\<rparr>)
     else bindE (readFull n s) (\<lambda>b s.
       (Inr ((if kind = String then puthead 0x80 0xB7 n else puthead 0xC0 0xF7 n) @ b), s)))"

definition streamUint :: "nat \<Rightarrow> Stream \<Rightarrow> uint64 sres" where
  "streamUint maxbits s = bindE (streamKind s) (\<lambda>(kind, n) s.
     case kind of
       Byte \<Rightarrow> if byteval s = 0 then (Inl ErrCanonInt, s) else (Inr (ucast (byteval s)), s\<lparr>skind := None\<rparr>)
     | String \<Rightarrow>
         if n > word_of_nat (maxbits div 8) then (Inl errUintOverflow, s)
         else (case readUint (ucast n) s of
             (Inl e, s) \<Rightarrow> (Inl (if e = ErrCanonSize then ErrCanonInt else e), s)
           | (Inr v, s) \<Rightarrow> if n > 0 \<and> v < 128 then (Inl ErrCanonSize, s) else (Inr v, s))
     | List \<Rightarrow> (Inl ErrExpectedString, s))"

definition streamInt :: "nat \<Rightarrow> Stream \<Rightarrow> int sres" where
  "streamInt maxbits s = bindE (streamKind s) (\<lambda>(kind, n) s.
     case kind of
       Byte \<Rightarrow> if byteval s = 0 then (Inl ErrCanonInt, s) else (Inr (uint (byteval s)), s\<lparr>skind := None\<rparr>)
     | String \<Rightarrow>
         if n > word_of_nat (maxbits div 8) then (Inl errIntOverflow, s)
         else (case readUint (ucast n) s of
             (Inl e, s) \<Rightarrow> (Inl (if e = ErrCanonSize then ErrCanonInt else e), s)
           | (Inr v, s) \<Rightarrow>
               (Inr (if n = 1 then signed_take_bit 7 (uint v)
                     else if n = 2 then signed_take_bit 15 (uint v)
                     else if n = 3 \<or> n = 4 then signed_take_bit 31 (uint v)
                     else sint v), s))
     | List \<Rightarrow> (Inl ErrExpectedString, s))"

definition streamBool :: "Stream \<Rightarrow> bool sres" where
  "streamBool s = bindE (streamUint 8 s) (\<lambda>num s.
     if num = 0 then (Inr False, s) else if num = 1 then (Inr True, s)
     else (Inl (RlpErr ''rlp: invalid boolean value''), s))"

definition streamList :: "Stream \<Rightarrow> uint64 sres" where
  "streamList s = bindE (streamKind s) (\<lambda>(kind, n) s.
     if kind \<noteq> List then (Inl ErrExpectedList, s)
     else (Inr n, s\<lparr>stack := \<lparr>lpos = 0, lsize = n\<rparr> # stack s, skind := None, ssize := 0\<rparr>))"

definition ListEnd :: "Stream \<Rightarrow> unit sres" where
  "ListEnd s = (case stack s of
     [] \<Rightarrow> (Inl errNotInList, s)
   | tos # others \<Rightarrow>
       if lpos tos \<noteq> lsize tos then (Inl errNotAtEOL, s)
       else (Inr (), s\<lparr>stack := (case others of [] \<Rightarrow> [] | outer # r \<Rightarrow> outer\<lparr>lpos := lpos outer + lsize tos\<rparr> # r),
         skind := None, ssize := 0\<rparr>))"

section \<open>Readers of single values\<close>

definition wrapStreamError :: "rerr \<Rightarrow> rerr" where
  "wrapStreamError e = (case e of
     ErrCanonInt \<Rightarrow> RlpErr ''non-canonical integer (leading zero bytes)''
   | ErrCanonSize \<Rightarrow> RlpErr ''non-canonical size information''
   | ErrExpectedList \<Rightarrow> RlpErr ''expected input list''
   | ErrExpectedString \<Rightarrow> RlpErr ''expected input string or byte''
   | errUintOverflow \<Rightarrow> RlpErr ''input string too long''
   | errNotAtEOL \<Rightarrow> RlpErr ''input list has too many elements''
   | _ \<Rightarrow> e)"

definition wrapped :: "'a sres \<Rightarrow> 'a sres" where
  "wrapped r = (case r of (Inl e, s) \<Rightarrow> (Inl (wrapStreamError e), s) | (Inr a, s) \<Rightarrow> (Inr a, s))"

definition mapRes :: "('a \<Rightarrow> 'b) \<Rightarrow> 'a sres \<Rightarrow> 'b sres" where
  "mapRes f r = bindE r (\<lambda>a s. (Inr (f a), s))"

definition decodeRawValue :: "Stream \<Rightarrow> rval sres" where
  "decodeRawValue s = mapRes VBytes (Raw s)"

definition decodeUint :: "nat \<Rightarrow> Stream \<Rightarrow> rval sres" where
  "decodeUint bits s = mapRes VUint (wrapped (streamUint bits s))"

definition decodeInt :: "nat \<Rightarrow> Stream \<Rightarrow> rval sres" where
  "decodeInt bits s = mapRes VInt (wrapped (streamInt bits s))"

definition decodeBool :: "Stream \<Rightarrow> rval sres" where
  "decodeBool s = mapRes VBool (wrapped (streamBool s))"

text \<open>\<^verbatim>\<open>binary.LittleEndian.Uint64\<close> indexes the eighth byte first.\<close>

definition getUint64LE :: "bytes \<Rightarrow> rerr + uint64" where
  "getUint64LE b = (if length b < 8 then Inl RlpPanic else Inr (shiftOr (rev (take 8 b))))"

definition decodefloat64 :: "Stream \<Rightarrow> rval sres" where
  "decodefloat64 s = bindE (wrapped (streamBytes s)) (\<lambda>b s. (map_sum id VFloat (getUint64LE b), s))"

definition decodeString :: "Stream \<Rightarrow> rval sres" where
  "decodeString s = mapRes VString (wrapped (streamBytes s))"

definition bigBytes :: "Stream \<Rightarrow> int sres" where
  "bigBytes s = bindE (wrapped (streamBytes s)) (\<lambda>b s.
     if b \<noteq> [] \<and> hd b = 0 then (Inl (wrapStreamError ErrCanonInt), s) else (Inr (int (beVal b)), s))"

definition decodeBigInt :: "Stream \<Rightarrow> rval sres" where
  "decodeBigInt s = mapRes (\<lambda>i. VBigPtr (Some i)) (bigBytes s)"

definition decodeBigIntNoPtr :: "Stream \<Rightarrow> rval sres" where
  "decodeBigIntNoPtr s = mapRes VBig (bigBytes s)"

definition decodeByteSlice :: "Stream \<Rightarrow> rval sres" where
  "decodeByteSlice s = mapRes VBytes (wrapped (streamBytes s))"

text \<open>In the case of a single byte the error of \<^verbatim>\<open>s.Uint()\<close> is dropped, and its value is then zero.\<close>

definition decodeByteArray :: "nat \<Rightarrow> Stream \<Rightarrow> rval sres" where
  "decodeByteArray vlen s = bindE (streamKind s) (\<lambda>(kind, n) s.
     case kind of
       Byte \<Rightarrow>
         if vlen = 0 then (Inl (RlpErr ''input string too long''), s)
         else if vlen > 1 then (Inl (RlpErr ''input string too short''), s)
         else (case streamUint 64 s of
             (Inl _, s) \<Rightarrow> (Inr (VBytes [0]), s)
           | (Inr bv, s) \<Rightarrow> (Inr (VBytes [ucast bv]), s))
     | String \<Rightarrow>
         if word_of_nat vlen < n then (Inl (RlpErr ''input string too long''), s)
         else if word_of_nat vlen > n then (Inl (RlpErr ''input string too short''), s)
         else bindE (readFull (word_of_nat vlen) s) (\<lambda>b s.
           if n = 1 \<and> hd b < 128 then (Inl (wrapStreamError ErrCanonSize), s) else (Inr (VBytes b), s))
     | List \<Rightarrow> (Inl (wrapStreamError ErrExpectedString), s))"

section \<open>The type-directed reader\<close>

type_synonym 'a fres = "'a sres option"

definition bindF :: "'a fres \<Rightarrow> ('a \<Rightarrow> Stream \<Rightarrow> 'b fres) \<Rightarrow> 'b fres" where
  "bindF r k = (case r of None \<Rightarrow> None | Some (Inl e, s) \<Rightarrow> Some (Inl e, s) | Some (Inr a, s) \<Rightarrow> k a s)"

primrec decodeSliceElems :: "nat \<Rightarrow> (Stream \<Rightarrow> rval fres) \<Rightarrow> Stream \<Rightarrow> rval list fres" where
  "decodeSliceElems 0 elemdec s = None"
| "decodeSliceElems (Suc fuel) elemdec s =
    (case elemdec s of
       None \<Rightarrow> None
     | Some (Inl e, s) \<Rightarrow> if e = EOL then Some (Inr [], s) else Some (Inl e, s)
     | Some (Inr v, s) \<Rightarrow> bindF (decodeSliceElems fuel elemdec s) (\<lambda>vs s. Some (Inr (v # vs), s)))"

definition decodeListSlice :: "nat \<Rightarrow> (Stream \<Rightarrow> rval fres) \<Rightarrow> Stream \<Rightarrow> rval fres" where
  "decodeListSlice fuel elemdec s =
    bindF (Some (wrapped (streamList s))) (\<lambda>n s.
      if n = 0 then Some (mapRes (\<lambda>_. VList []) (ListEnd s))
      else bindF (decodeSliceElems fuel elemdec s) (\<lambda>vs s. Some (mapRes (\<lambda>_. VList vs) (ListEnd s))))"

primrec arrayLoop :: "nat \<Rightarrow> (Stream \<Rightarrow> rval fres) \<Rightarrow> Stream \<Rightarrow> rval list fres" where
  "arrayLoop 0 elemdec s = Some (Inr [], s)"
| "arrayLoop (Suc n) elemdec s =
    (case elemdec s of
       None \<Rightarrow> None
     | Some (Inl e, s) \<Rightarrow> Some (Inl (if e = EOL then RlpErr ''input list has too few elements'' else e), s)
     | Some (Inr v, s) \<Rightarrow> bindF (arrayLoop n elemdec s) (\<lambda>vs s. Some (Inr (v # vs), s)))"

definition decodeListArray :: "nat \<Rightarrow> (Stream \<Rightarrow> rval fres) \<Rightarrow> Stream \<Rightarrow> rval fres" where
  "decodeListArray vlen elemdec s =
    bindF (Some (wrapped (streamList s))) (\<lambda>_ s.
    bindF (arrayLoop vlen elemdec s) (\<lambda>vs s. Some (mapRes (\<lambda>_. VList vs) (wrapped (ListEnd s)))))"

primrec decodeInterface :: "nat \<Rightarrow> Stream \<Rightarrow> rval fres" where
  "decodeInterface 0 s = None"
| "decodeInterface (Suc fuel) s =
    bindF (Some (streamKind s)) (\<lambda>(kind, _) s.
      if kind = List
      then bindF (decodeListSlice fuel (decodeInterface fuel) s) (\<lambda>v s. Some (Inr (VIface (Some (TSlice TInterface, v))), s))
      else Some (mapRes (\<lambda>b. VIface (Some (TBytes, VBytes b))) (streamBytes s)))"

fun decoder :: "nat \<Rightarrow> rtype \<Rightarrow> tags \<Rightarrow> Stream \<Rightarrow> rval fres"
  and decodeFields :: "nat \<Rightarrow> (rtype \<times> tags) list \<Rightarrow> Stream \<Rightarrow> rval list fres" where
  "decoder fuel TRaw ts s = Some (decodeRawValue s)"
| "decoder fuel TInterface ts s = decodeInterface fuel s"
| "decoder fuel TBigPtr ts s = Some (decodeBigInt s)"
| "decoder fuel TBig ts s = Some (decodeBigIntNoPtr s)"
| "decoder fuel (TUint n) ts s = Some (decodeUint n s)"
| "decoder fuel TBool ts s = Some (decodeBool s)"
| "decoder fuel TString ts s = Some (decodeString s)"
| "decoder fuel TBytes ts s = Some (decodeByteSlice s)"
| "decoder fuel (TByteArray n) ts s = Some (decodeByteArray n s)"
| "decoder fuel (TSlice t) ts s =
    (if tail ts then bindF (decodeSliceElems fuel (\<lambda>s. decoder fuel t noTags s) s) (\<lambda>vs s. Some (Inr (VList vs), s))
     else decodeListSlice fuel (\<lambda>s. decoder fuel t noTags s) s)"
| "decoder fuel (TArray n t) ts s = decodeListArray n (\<lambda>s. decoder fuel t noTags s) s"
| "decoder fuel (TStruct fs) ts s =
    bindF (Some (wrapped (streamList s))) (\<lambda>_ s.
    bindF (decodeFields fuel fs s) (\<lambda>vs s.
    Some (mapRes (\<lambda>_. VList vs) (wrapped (ListEnd s)))))"
| "decoder fuel (TPtr t) ts s =
    (if nilOK ts
     then (case streamKind s of
         (Inl e, s) \<Rightarrow> Some (Inl e, s\<lparr>skind := None\<rparr>)
       | (Inr (kind, n), s) \<Rightarrow>
           if n = 0 \<and> kind \<noteq> Byte then Some (Inr (VPtr None), s\<lparr>skind := None\<rparr>)
           else bindF (decoder fuel t noTags s) (\<lambda>v s. Some (Inr (VPtr (Some v)), s)))
     else bindF (decoder fuel t noTags s) (\<lambda>v s. Some (Inr (VPtr (Some v)), s)))"
| "decoder fuel TFloat64 ts s = Some (decodefloat64 s)"
| "decoder fuel (TInt n) ts s = Some (decodeInt n s)"
| "decoder fuel TOther ts s = Some (Inl RlpPanic, s)"
| "decodeFields fuel [] s = Some (Inr [], s)"
| "decodeFields fuel ((t, ts) # fs) s =
    (case decoder fuel t ts s of
       None \<Rightarrow> None
     | Some (Inl e, s) \<Rightarrow> Some (Inl (if e = EOL then RlpErr ''too few elements'' else e), s)
     | Some (Inr v, s) \<Rightarrow> bindF (decodeFields fuel fs s) (\<lambda>vs s. Some (Inr (v # vs), s)))"

text \<open>\<^verbatim>\<open>NewStream\<close> on a \<^verbatim>\<open>bytes.Reader\<close>, through \<^verbatim>\<open>Reset\<close>: the limit is the given one, or else the length
  of the slice.\<close>

definition Reset :: "bytes \<Rightarrow> uint64 \<Rightarrow> Stream" where
  "Reset r inputLimit =
    \<lparr>input = r, remaining = (if inputLimit > 0 then inputLimit else word_of_nat (length r)), limited = True,
     skind = None, ssize = 0, byteval = 0, kinderr = None, stack = []\<rparr>"

definition streamDecode :: "nat \<Rightarrow> rtype \<Rightarrow> Stream \<Rightarrow> rval fres" where
  "streamDecode fuel t s =
    (if genTypeInfo t then decoder fuel t noTags s else Some (Inl (RlpErr ''type is not RLP-serializable''), s))"

definition DecodeBytes :: "nat \<Rightarrow> bytes \<Rightarrow> rtype \<Rightarrow> (rerr + rval) option" where
  "DecodeBytes fuel b t = map_option fst (streamDecode fuel t (Reset b (word_of_nat (length b))))"

end
