(* ===== verification/RlpTyping.thy ===== *)
theory RlpTyping
  imports RlpDecode
begin

text \<open>
  The typing of the values that pass through the RLP codec: what the decoder returns for a
  type has that type, and the encoder does not panic on a value of its type.
\<close>

section \<open>Values of a type\<close>

text \<open>The Go values of a type: integers in the range of their width, arrays of their length, an
  interface that is nil or holds a value of some type.\<close>

inductive hasType :: "rtype \<Rightarrow> rval \<Rightarrow> bool" where
  raw: "hasType TRaw (VBytes b)"
| nilIface: "hasType TInterface (VIface None)"
| iface: "hasType t v \<Longrightarrow> hasType TInterface (VIface (Some (t, v)))"
| bigPtr: "hasType TBigPtr (VBigPtr p)"
| big: "hasType TBig (VBig i)"
| uint: "unat i < 2 ^ n \<Longrightarrow> hasType (TUint n) (VUint i)"
| bool: "hasType TBool (VBool x)"
| str: "hasType TString (VString b)"
| bytes: "hasType TBytes (VBytes b)"
| byteArray: "length b = n \<Longrightarrow> hasType (TByteArray n) (VBytes b)"
| slice: "\<forall>v\<in>set vs. hasType t v \<Longrightarrow> hasType (TSlice t) (VList vs)"
| array: "length vs = n \<Longrightarrow> \<forall>v\<in>set vs. hasType t v \<Longrightarrow> hasType (TArray n t) (VList vs)"
| struct: "list_all2 (\<lambda>f. hasType (fst f)) fs vs \<Longrightarrow> hasType (TStruct fs) (VList vs)"
| nilPtr: "hasType (TPtr t) (VPtr None)"
| ptr: "hasType t v \<Longrightarrow> hasType (TPtr t) (VPtr (Some v))"
| float: "hasType TFloat64 (VFloat x)"
| int: "- (2 ^ (n - 1)) \<le> i \<Longrightarrow> i < 2 ^ (n - 1) \<Longrightarrow> hasType (TInt n) (VInt i)"

inductive_cases hasType_cases [elim!]:
  "hasType TRaw v" "hasType TInterface v" "hasType TBigPtr v" "hasType TBig v" "hasType (TUint n) v"
  "hasType TBool v" "hasType TString v" "hasType TBytes v" "hasType (TByteArray n) v" "hasType (TSlice t) v"
  "hasType (TArray n t) v" "hasType (TStruct fs) v" "hasType (TPtr t) v" "hasType TFloat64 v" "hasType (TInt n) v"
  "hasType TOther v"

text \<open>The types of the language: integers of 8, 16, 32 or 64 bits, arrays whose length is a machine
  integer.\<close>

fun goType :: "rtype \<Rightarrow> bool"
  and goFields :: "(rtype \<times> tags) list \<Rightarrow> bool" where
  "goType (TUint n) \<longleftrightarrow> n \<in> {8, 16, 32, 64}"
| "goType (TInt n) \<longleftrightarrow> n \<in> {8, 16, 32, 64}"
| "goType (TByteArray n) \<longleftrightarrow> n < 2 ^ 63"
| "goType (TSlice t) \<longleftrightarrow> goType t"
| "goType (TArray n t) \<longleftrightarrow> goType t"
| "goType (TStruct fs) \<longleftrightarrow> goFields fs"
| "goType (TPtr t) \<longleftrightarrow> goType t"
| "goType _ \<longleftrightarrow> True"
| "goFields [] \<longleftrightarrow> True"
| "goFields ((t, _) # fs) \<longleftrightarrow> goType t \<and> goFields fs"

section \<open>What the readers return\<close>

text \<open>A cached single byte is below \<^verbatim>\<open>0x80\<close>.  \<^term>\<open>yields P r\<close>: the reader keeps this, and its value
  satisfies \<^term>\<open>P\<close> in the state it leaves.\<close>

definition byteOK :: "Stream \<Rightarrow> bool" where
  "byteOK s \<longleftrightarrow> (skind s = Some Byte \<and> kinderr s = None \<longrightarrow> byteval s < 0x80)"

definition yields :: "('a \<Rightarrow> Stream \<Rightarrow> bool) \<Rightarrow> 'a sres \<Rightarrow> bool" where
  "yields P r \<longleftrightarrow> byteOK (snd r) \<and> (\<forall>v. fst r = Inr v \<longrightarrow> P v (snd r))"

lemma yields_err: "yields P (Inl e, s) \<longleftrightarrow> byteOK s"
  by (simp add: yields_def)

lemma yields_ret: "yields P (Inr v, s) \<longleftrightarrow> byteOK s \<and> P v s"
  by (auto simp: yields_def)

lemma yields_bind: "yields P r \<Longrightarrow> (\<And>v s. byteOK s \<Longrightarrow> P v s \<Longrightarrow> yields Q (K v s)) \<Longrightarrow> yields Q (bindE r K)"
  by (cases r; cases "fst r") (auto simp: yields_def)

lemma yields_weaken: "yields P r \<Longrightarrow> (\<And>v s. P v s \<Longrightarrow> Q v s) \<Longrightarrow> yields Q r"
  by (auto simp: yields_def)

lemma byteOK_None: "skind s = None \<Longrightarrow> byteOK s"
  by (simp add: byteOK_def)

lemma willRead_none: "skind (snd (willRead n s)) = None"
  by (simp add: willRead_def Let_def bindE_def split: list.splits)

lemma readFull_none:
  "skind (snd (readFull n s)) = None" "readFull n s = (Inr b, s') \<Longrightarrow> length b = unat n"
  using willRead_none [of n s]
  by (auto simp: readFull_def Let_def bindE_def split: prod.splits sum.splits if_splits)

lemma readByte_none: "skind (snd (readByte s)) = None"
  using willRead_none [of 1 s] by (auto simp: readByte_def bindE_def split: prod.splits sum.splits list.splits)

lemma readFull_yields: "yields (\<lambda>b s. length b = unat n \<and> skind s = None) (readFull n s)"
  using readFull_none [of n s] by (cases "readFull n s") (auto simp: yields_def byteOK_None)

lemma byte_bound: "unat (b :: byte) < 256"
  using unsigned_less [of b] by simp

lemma readUint_yields:
  assumes "byteOK s"
  shows "yields (\<lambda>v s. unat n \<le> 8 \<and> unat v < 256 ^ unat n) (readUint n s)"
proof -
  consider "n = 0" | "n = 1" | "n > 8" "n \<noteq> 0" "n \<noteq> 1" | "\<not> n > 8" "n \<noteq> 0" "n \<noteq> 1" by blast
  then show ?thesis
  proof cases
    case 1
    then show ?thesis by (simp add: readUint_def yields_ret byteOK_None)
  next
    case 2
    have "unat (ucast b :: uint64) < 256" for b :: byte using byte_up [of b] byte_bound [of b] by simp
    then show ?thesis using 2 readByte_none [of s]
      by (cases "readByte s"; cases "fst (readByte s)") (auto simp: readUint_def yields_def byteOK_None)
  next
    case 3
    then show ?thesis using assms by (simp add: readUint_def yields_err)
  next
    case 4
    have le: "unat n \<le> 8" using 4 by (simp add: word_less_nat_alt)
    have u: "unat (ucast n :: uint64) = unat n" by (simp add: byte_up)
    have z: "beVal (replicate k 0 @ b) = beVal b" for k b by (induction k) auto
    have v: "unat (shiftOr (replicate (8 - unat n) 0 @ b)) < 256 ^ unat n" if "length b = unat n" for b
      using that le beVal_less [of b] by (subst unat_shiftOr) (simp_all add: z)
    have "yields (\<lambda>v s. unat n \<le> 8 \<and> unat v < 256 ^ unat n) (bindE (readFull (ucast n) s) (\<lambda>b s.
       if hd b = 0 then (Inl ErrCanonSize, s) else (Inr (shiftOr (replicate (8 - unat n) 0 @ b)), s)))"
      by (rule yields_bind [OF readFull_yields]) (use le v u in \<open>auto simp: yields_err yields_ret\<close>)
    then show ?thesis using 4 by (simp add: readUint_def)
  qed
qed

lemma readKind_byte:
  assumes "readKind s = ((k, n, e), s')" and "e = None" and "k = Byte"
  shows "byteval s' < 0x80"
proof -
  obtain r s1 where r: "readByte s = (r, s1)" by fastforce
  have "longSize k' m t \<noteq> ((Byte, n, None), s')" if "k' \<noteq> Byte" for k' m t
    using that by (auto simp: longSize_def split: prod.splits sum.splits)
  then show ?thesis using assms r by (cases r) (auto simp: readKind_def Let_def split: if_splits)
qed

lemma streamKind_yields:
  assumes "byteOK s"
  shows "yields (\<lambda>(k, n) s. k = Byte \<longrightarrow> byteval s < 0x80) (streamKind s)"
proof (cases "skind s")
  case None
  obtain k n e t where r: "readKind (s\<lparr>kinderr := None\<rparr>) = ((k, n, e), t)" by (metis surj_pair)
  show ?thesis
    using None readKind_byte [OF r]
    by (auto simp: streamKind_def kindOf_def Let_def r yields_def byteOK_def split: option.splits list.splits if_splits)
next
  case (Some k)
  then show ?thesis using assms by (auto simp: streamKind_def kindOf_def yields_def byteOK_def split: option.splits)
qed

lemma streamBytes_yields: "byteOK s \<Longrightarrow> yields (\<lambda>_ _. True) (streamBytes s)"
  unfolding streamBytes_def
  by (rule yields_bind [OF streamKind_yields])
    (auto split: Kind.splits simp: yields_ret yields_err byteOK_None intro!: yields_bind [OF readFull_yields])

lemma Raw_yields: "byteOK s \<Longrightarrow> yields (\<lambda>_ _. True) (Raw s)"
  unfolding Raw_def
  by (rule yields_bind [OF streamKind_yields])
    (auto simp: yields_ret byteOK_None intro!: yields_bind [OF readFull_yields])

lemma readUint_case_yields:
  assumes "byteOK s" and "\<And>v s. byteOK s \<Longrightarrow> unat n \<le> 8 \<Longrightarrow> unat v < 256 ^ unat n \<Longrightarrow> yields Q (K v s)"
  shows "yields Q (case readUint n s of (Inl e, s) \<Rightarrow> (Inl (f e), s) | (Inr v, s) \<Rightarrow> K v s)"
  using readUint_yields [OF assms(1), of n] assms(2)
  by (cases "readUint n s"; cases "fst (readUint n s)") (auto simp: yields_def)

lemma size_small:
  assumes "m \<in> {8, 16, 32, 64}" and "\<not> (n::uint64) > word_of_nat (m div 8)"
  shows "unat (ucast n :: byte) = unat n" and "unat n \<le> m div 8"
proof -
  have "unat (word_of_nat (m div 8) :: uint64) = m div 8" using assms(1) by auto
  then show le: "unat n \<le> m div 8" using assms(2) by (metis not_le word_le_nat_alt)
  then show "unat (ucast n :: byte) = unat n" using assms(1) by (intro byte_down) auto
qed

lemma streamUint_yields:
  assumes "m \<in> {8, 16, 32, 64}" and "byteOK s"
  shows "yields (\<lambda>v _. unat v < 2 ^ m) (streamUint m s)"
proof -
  have byte: "unat (ucast b :: uint64) < 2 ^ m" for b :: byte
  proof -
    have "unat b < 256" using byte_bound [of b] by simp
    also have "(256::nat) \<le> 2 ^ m" using assms(1) by auto
    finally show ?thesis by (simp add: byte_up)
  qed
  have wide: "unat v < 2 ^ m" if "\<not> (n::uint64) > word_of_nat (m div 8)" "unat v < 256 ^ unat (ucast n :: byte)" for n and v :: uint64
  proof -
    note sz = size_small [OF assms(1) that(1)]
    have "unat v < 256 ^ unat n" using that(2) sz(1) by simp
    also have "\<dots> \<le> 256 ^ (m div 8)" using sz(2) by (rule power_increasing) simp
    also have "\<dots> = 2 ^ m" using assms(1) by auto
    finally show ?thesis .
  qed
  show ?thesis
    unfolding streamUint_def
    by (rule yields_bind [OF streamKind_yields [OF assms(2)]],
      auto split: Kind.splits simp: yields_ret yields_err byteOK_None byte intro!: readUint_case_yields, (metis wide)+)
qed

lemma signed_range:
  assumes "m \<in> {8, 16, 32, 64}" and "\<not> (n::uint64) > word_of_nat (m div 8)" and "unat v < 256 ^ unat (ucast n :: byte)"
  defines "i \<equiv> (if n = 1 then signed_take_bit 7 (uint v) else if n = 2 then signed_take_bit 15 (uint v)
    else if n = 3 \<or> n = 4 then signed_take_bit 31 (uint v) else sint (v :: uint64))"
  shows "- (2 ^ (m - 1)) \<le> i \<and> i < 2 ^ (m - 1)"
proof -
  note sz = size_small [OF assms(1,2)]
  have st: "- (2 ^ k) \<le> signed_take_bit k j \<and> signed_take_bit k j < 2 ^ k" for k and j :: int
    using signed_take_bit_int_greater_eq_minus_exp signed_take_bit_int_less_exp by blast
  have s64: "- (2 ^ 63) \<le> sint v \<and> sint v < 2 ^ 63" using sint_range_size [of v] by (simp add: word_size)
  have z: "v = 0" if "n = 0" using assms(3) that by (simp add: unsigned_eq_0_iff)
  have le: "(2::int) ^ 7 \<le> 2 ^ (m - 1)" "n = 2 \<Longrightarrow> (2::int) ^ 15 \<le> 2 ^ (m - 1)" "n = 3 \<or> n = 4 \<Longrightarrow> (2::int) ^ 31 \<le> 2 ^ (m - 1)"
    "4 < n \<Longrightarrow> m = 64"
    using assms(1) sz(2) by (auto simp: word_less_nat_alt)
  consider "n = 0" | "n = 1" | "n = 2" | "n = 3 \<or> n = 4" | "4 < n"
  proof -
    have "n = 0 \<or> n = 1 \<or> n = 2 \<or> (n = 3 \<or> n = 4) \<or> 4 < n"
      unfolding word_less_nat_alt word_unat_eq_iff by (simp only: unat_numeral unat_1 unat_0 len_of_numeral_defs, simp, arith)
    then show thesis using that by blast
  qed
  then show ?thesis
  proof cases
    case 1
    then show ?thesis using z by (simp add: i_def)
  next
    case 2
    then show ?thesis using st [of 7 "uint v"] le(1) by (simp add: i_def)
  next
    case 3
    then show ?thesis using st [of 15 "uint v"] le(2) by (simp add: i_def)
  next
    case 4
    then show ?thesis using st [of 31 "uint v"] le(3) by (auto simp: i_def)
  next
    case 5
    then have "i = sint v" by (auto simp: i_def)
    then show ?thesis using s64 le(4) 5 by simp
  qed
qed

lemma streamInt_yields:
  assumes "m \<in> {8, 16, 32, 64}" and "byteOK s"
  shows "yields (\<lambda>i _. - (2 ^ (m - 1)) \<le> i \<and> i < 2 ^ (m - 1)) (streamInt m s)"
proof -
  have byte: "- (2 ^ (m - 1)) \<le> uint b \<and> uint b < 2 ^ (m - 1)" if "b < 0x80" for b :: byte
  proof -
    have "uint b < 2 ^ 7" using that by (simp add: word_less_def)
    also have "(2::int) ^ 7 \<le> 2 ^ (m - 1)" using assms(1) by auto
    finally show ?thesis using order_trans [of "- (2 ^ (m - 1))" 0 "uint b"] by simp
  qed
  have str: "yields (\<lambda>i _. - (2 ^ (m - 1)) \<le> i \<and> i < 2 ^ (m - 1))
      (case readUint (ucast n) s of
             (Inl e, s) \<Rightarrow> (Inl (if e = ErrCanonSize then ErrCanonInt else e), s)
           | (Inr v, s) \<Rightarrow>
               (Inr (if n = 1 then signed_take_bit 7 (uint v)
                     else if n = 2 then signed_take_bit 15 (uint v)
                     else if n = 3 \<or> n = 4 then signed_take_bit 31 (uint v)
                     else sint v), s))" if "\<not> n > word_of_nat (m div 8)" "byteOK s" for n :: uint64 and s
    by (rule readUint_case_yields [OF that(2)]) (use signed_range [OF assms(1) that(1)] in \<open>simp add: yields_ret\<close>)
  show ?thesis
    unfolding streamInt_def
    by (rule yields_bind [OF streamKind_yields [OF assms(2)]])
      (use byte str in \<open>auto split: Kind.split simp: yields_ret yields_err byteOK_None\<close>)
qed

lemma streamBool_yields: "byteOK s \<Longrightarrow> yields (\<lambda>_ _. True) (streamBool s)"
  unfolding streamBool_def
  by (rule yields_bind [OF streamUint_yields [of 8]]) (simp_all add: yields_ret yields_err)

lemma streamList_yields: "byteOK s \<Longrightarrow> yields (\<lambda>_ _. True) (streamList s)"
  unfolding streamList_def
  by (rule yields_bind [OF streamKind_yields]) (auto simp: yields_ret yields_err byteOK_None)

lemma ListEnd_yields: "byteOK s \<Longrightarrow> yields (\<lambda>_ _. True) (ListEnd s)"
  by (auto simp: ListEnd_def yields_def byteOK_None split: list.splits)

lemma yields_wrapped: "yields P r \<Longrightarrow> yields P (wrapped r)"
  by (cases r; cases "fst r") (auto simp: yields_def wrapped_def)

lemma yields_mapRes: "yields P r \<Longrightarrow> (\<And>v s. P v s \<Longrightarrow> Q (f v) s) \<Longrightarrow> yields Q (mapRes f r)"
  unfolding mapRes_def by (erule yields_bind) (simp add: yields_ret)

lemma bigBytes_yields: "byteOK s \<Longrightarrow> yields (\<lambda>_ _. True) (bigBytes s)"
  unfolding bigBytes_def
  by (rule yields_bind [OF yields_wrapped [OF streamBytes_yields]]) (simp_all add: yields_ret yields_err)

lemma float_yields: "byteOK s \<Longrightarrow> yields (\<lambda>v _. hasType TFloat64 v) (decodefloat64 s)"
  unfolding decodefloat64_def
  by (rule yields_bind [OF yields_wrapped [OF streamBytes_yields]])
    (auto simp: yields_ret yields_err getUint64LE_def intro: hasType.intros)

lemma byteArray_yields:
  assumes "n < 2 ^ 63" and "byteOK s"
  shows "yields (\<lambda>v _. hasType (TByteArray n) v) (decodeByteArray n s)"
proof -
  have u: "unat (word_of_nat n :: uint64) = n" using assms(1) by (simp add: unat_of_nat)
  have one: "yields (\<lambda>v _. hasType (TByteArray 1) v) (case streamUint 64 s of
             (Inl _, s) \<Rightarrow> (Inr (VBytes [0]), s) | (Inr bv, s) \<Rightarrow> (Inr (VBytes [ucast bv]), s))" if "byteOK s" for s
    using streamUint_yields [of 64 s] that
    by (cases "streamUint 64 s"; cases "fst (streamUint 64 s)") (auto simp: yields_def intro!: hasType.intros)
  show ?thesis
    unfolding decodeByteArray_def
    by (rule yields_bind [OF streamKind_yields [OF assms(2)]])
      (use one u in \<open>auto split: Kind.split simp: yields_ret yields_err not_less le_Suc_eq
        intro!: yields_bind [OF readFull_yields] hasType.intros\<close>)
qed

section \<open>The type of what is decoded\<close>

definition yieldsF :: "('a \<Rightarrow> bool) \<Rightarrow> 'a fres \<Rightarrow> bool" where
  "yieldsF P r \<longleftrightarrow> (\<forall>q. r = Some q \<longrightarrow> yields (\<lambda>v _. P v) q)"

lemma yieldsF_Some [simp]: "yieldsF P (Some q) \<longleftrightarrow> yields (\<lambda>v _. P v) q"
  by (simp add: yieldsF_def)

lemma yieldsF_None [simp]: "yieldsF P None"
  by (simp add: yieldsF_def)

lemma yieldsF_cases:
  assumes "yieldsF P r"
  obtains "r = None" | e s where "r = Some (Inl e, s)" "byteOK s" | v s where "r = Some (Inr v, s)" "byteOK s" "P v"
  using assms by (cases r; cases "fst (the r)") (auto simp: yieldsF_def yields_def)

lemma yieldsF_bind: "yieldsF P r \<Longrightarrow> (\<And>v s. byteOK s \<Longrightarrow> P v \<Longrightarrow> yieldsF Q (K v s)) \<Longrightarrow> yieldsF Q (bindF r K)"
  by (erule yieldsF_cases) (auto simp: bindF_def yields_err)

lemma sliceElems_yields:
  assumes "\<And>s. byteOK s \<Longrightarrow> yieldsF P (elemdec s)"
  shows "byteOK s \<Longrightarrow> yieldsF (\<lambda>vs. \<forall>v\<in>set vs. P v) (decodeSliceElems fuel elemdec s)"
proof (induction fuel arbitrary: s)
  case (Suc fuel)
  from assms [OF Suc.prems] show ?case
  proof (cases rule: yieldsF_cases)
    case (3 v s1)
    have "yieldsF (\<lambda>vs. \<forall>v\<in>set vs. P v) (bindF (decodeSliceElems fuel elemdec s1) (\<lambda>vs s. Some (Inr (v # vs), s)))"
      by (rule yieldsF_bind [OF Suc.IH [OF 3(2)]]) (use 3 in \<open>simp add: yields_ret\<close>)
    then show ?thesis using 3 by simp
  qed (auto simp: yields_err yields_ret)
qed simp

lemma arrayLoop_yields:
  assumes "\<And>s. byteOK s \<Longrightarrow> yieldsF P (elemdec s)"
  shows "byteOK s \<Longrightarrow> yieldsF (\<lambda>vs. length vs = n \<and> (\<forall>v\<in>set vs. P v)) (arrayLoop n elemdec s)"
proof (induction n arbitrary: s)
  case (Suc n)
  from assms [OF Suc.prems] show ?case
  proof (cases rule: yieldsF_cases)
    case (3 v s1)
    have "yieldsF (\<lambda>vs. length vs = Suc n \<and> (\<forall>v\<in>set vs. P v)) (bindF (arrayLoop n elemdec s1) (\<lambda>vs s. Some (Inr (v # vs), s)))"
      by (rule yieldsF_bind [OF Suc.IH [OF 3(2)]]) (use 3 in \<open>simp add: yields_ret\<close>)
    then show ?thesis using 3 by simp
  qed (auto simp: yields_err yields_ret)
qed (simp add: yields_ret)

lemma listSlice_yields:
  assumes "\<And>s. byteOK s \<Longrightarrow> yieldsF (hasType t) (elemdec s)" and "byteOK s"
  shows "yieldsF (hasType (TSlice t)) (decodeListSlice fuel elemdec s)"
  unfolding decodeListSlice_def
proof (rule yieldsF_bind)
  show "yieldsF (\<lambda>_. True) (Some (wrapped (streamList s)))"
    using yields_wrapped [OF streamList_yields [OF assms(2)]] by simp
  fix n :: uint64 and s
  assume s: "byteOK s"
  note fin = yields_mapRes [OF ListEnd_yields]
  have "yieldsF (hasType (TSlice t)) (bindF (decodeSliceElems fuel elemdec s) (\<lambda>vs s. Some (mapRes (\<lambda>_. VList vs) (ListEnd s))))"
    by (rule yieldsF_bind [OF sliceElems_yields [OF assms(1) s]]) (auto intro!: fin hasType.intros)
  moreover have "yields (\<lambda>v _. hasType (TSlice t) v) (mapRes (\<lambda>_. VList []) (ListEnd s))"
    by (rule fin [OF s]) (auto intro: hasType.intros)
  ultimately show "yieldsF (hasType (TSlice t)) (if n = 0 then Some (mapRes (\<lambda>_. VList []) (ListEnd s))
      else bindF (decodeSliceElems fuel elemdec s) (\<lambda>vs s. Some (mapRes (\<lambda>_. VList vs) (ListEnd s))))" by simp
qed

lemma interface_yields: "byteOK s \<Longrightarrow> yieldsF (hasType TInterface) (decodeInterface fuel s)"
proof (induction fuel arbitrary: s)
  case (Suc fuel)
  have k: "yieldsF (\<lambda>_. True) (Some (streamKind s))"
    using yields_weaken [OF streamKind_yields [OF Suc.prems]] by simp
  have "yieldsF (hasType TInterface) (bindF (decodeListSlice fuel (decodeInterface fuel) s)
      (\<lambda>v s. Some (Inr (VIface (Some (TSlice TInterface, v))), s)))" if "byteOK s" for s
    by (rule yieldsF_bind [OF listSlice_yields [OF Suc.IH that]]) (auto simp only: yieldsF_Some yields_ret intro: hasType.intros)
  moreover have "yields (\<lambda>v _. hasType TInterface v) (mapRes (\<lambda>b. VIface (Some (TBytes, VBytes b))) (streamBytes s))"
    if "byteOK s" for s
    by (rule yields_mapRes [OF streamBytes_yields [OF that]]) (auto intro: hasType.intros)
  ultimately show ?case unfolding decodeInterface.simps by (intro yieldsF_bind [OF k]) auto
qed simp

lemma slice_yields:
  assumes "\<And>s. byteOK s \<Longrightarrow> yieldsF (hasType t) (decoder fuel t noTags s)" and "byteOK s"
  shows "yieldsF (hasType (TSlice t)) (decoder fuel (TSlice t) ts s)"
proof -
  have "yieldsF (hasType (TSlice t)) (bindF (decodeSliceElems fuel (\<lambda>s. decoder fuel t noTags s) s) (\<lambda>vs s. Some (Inr (VList vs), s)))"
    by (rule yieldsF_bind [OF sliceElems_yields [OF assms]]) (auto simp: yields_ret intro: hasType.intros)
  then show ?thesis using listSlice_yields [of t "\<lambda>s. decoder fuel t noTags s" s fuel] assms by simp
qed

lemma array_yields:
  assumes "\<And>s. byteOK s \<Longrightarrow> yieldsF (hasType t) (decoder fuel t noTags s)" and "byteOK s"
  shows "yieldsF (hasType (TArray n t)) (decoder fuel (TArray n t) ts s)"
  unfolding decoder.simps decodeListArray_def
proof (rule yieldsF_bind)
  show "yieldsF (\<lambda>_. True) (Some (wrapped (streamList s)))"
    using yields_wrapped [OF streamList_yields [OF assms(2)]] by simp
  fix s
  assume "byteOK s"
  then show "yieldsF (hasType (TArray n t)) (bindF (arrayLoop n (\<lambda>s. decoder fuel t noTags s) s)
      (\<lambda>vs s. Some (mapRes (\<lambda>_. VList vs) (wrapped (ListEnd s)))))"
    by (intro yieldsF_bind [OF arrayLoop_yields [OF assms(1)]])
      (auto intro!: yields_mapRes [OF yields_wrapped [OF ListEnd_yields]] hasType.intros)
qed

lemma struct_yields:
  assumes "\<And>s. byteOK s \<Longrightarrow> yieldsF (list_all2 (\<lambda>f. hasType (fst f)) fs) (decodeFields fuel fs s)" and "byteOK s"
  shows "yieldsF (hasType (TStruct fs)) (decoder fuel (TStruct fs) ts s)"
  unfolding decoder.simps
proof (rule yieldsF_bind)
  show "yieldsF (\<lambda>_. True) (Some (wrapped (streamList s)))"
    using yields_wrapped [OF streamList_yields [OF assms(2)]] by simp
  fix s
  assume "byteOK s"
  then show "yieldsF (hasType (TStruct fs)) (bindF (decodeFields fuel fs s)
      (\<lambda>vs s. Some (mapRes (\<lambda>_. VList vs) (wrapped (ListEnd s)))))"
    by (intro yieldsF_bind [OF assms(1)])
      (auto intro!: yields_mapRes [OF yields_wrapped [OF ListEnd_yields]] hasType.intros)
qed

lemma pointer_yields:
  assumes "\<And>s. byteOK s \<Longrightarrow> yieldsF (hasType t) (decoder fuel t noTags s)" and "byteOK s"
  shows "yieldsF (hasType (TPtr t)) (decoder fuel (TPtr t) ts s)"
proof -
  have step: "yieldsF (hasType (TPtr t)) (bindF (decoder fuel t noTags s) (\<lambda>v s. Some (Inr (VPtr (Some v)), s)))"
    if "byteOK s" for s
    by (rule yieldsF_bind [OF assms(1) [OF that]]) (auto simp: yields_ret intro: hasType.intros)
  have nil: "yields (\<lambda>v _. hasType (TPtr t) v) (Inr (VPtr None), s\<lparr>skind := None\<rparr>)" for s
    by (simp add: yields_ret byteOK_None hasType.nilPtr)
  show ?thesis
    using step nil streamKind_yields [OF assms(2)] assms(2)
    by (auto simp: yields_err byteOK_None split: prod.split sum.split) (simp_all add: yields_def)
qed

lemma fields_yields:
  assumes "yieldsF (hasType t) (decoder fuel t ts s)"
    and "\<And>s. byteOK s \<Longrightarrow> yieldsF (list_all2 (\<lambda>f. hasType (fst f)) fs) (decodeFields fuel fs s)"
  shows "yieldsF (list_all2 (\<lambda>f. hasType (fst f)) ((t, ts) # fs)) (decodeFields fuel ((t, ts) # fs) s)"
  using assms(1)
proof (cases rule: yieldsF_cases)
  case (3 v s1)
  have "yieldsF (list_all2 (\<lambda>f. hasType (fst f)) ((t, ts) # fs))
      (bindF (decodeFields fuel fs s1) (\<lambda>vs s. Some (Inr (v # vs), s)))"
    by (rule yieldsF_bind [OF assms(2) [OF 3(2)]]) (use 3 in \<open>simp add: yields_ret\<close>)
  then show ?thesis using 3 by simp
qed (simp_all add: yields_err)

lemma decoder_yields:
  "goType t \<Longrightarrow> byteOK s \<Longrightarrow> yieldsF (hasType t) (decoder fuel t ts s)"
  "goFields fs \<Longrightarrow> byteOK s \<Longrightarrow> yieldsF (list_all2 (\<lambda>f. hasType (fst f)) fs) (decodeFields fuel fs s)"
proof (induction t and fs arbitrary: ts s and s rule: goType_goFields.induct)
  case (1 n)
  then show ?case unfolding decoder.simps yieldsF_Some decodeUint_def
    by (intro yields_mapRes [OF yields_wrapped [OF streamUint_yields]]) (auto intro: hasType.intros)
next
  case (2 n)
  then show ?case unfolding decoder.simps yieldsF_Some decodeInt_def
    by (intro yields_mapRes [OF yields_wrapped [OF streamInt_yields]]) (auto intro: hasType.intros)
next
  case (3 n)
  then show ?case by (simp add: byteArray_yields)
next
  case (4 t)
  then show ?case by (intro slice_yields) auto
next
  case (5 n t)
  then show ?case by (intro array_yields) auto
next
  case (6 fs)
  then show ?case by (intro struct_yields) auto
next
  case (7 t)
  then show ?case by (intro pointer_yields) auto
next
  case (10 t ts' fs)
  then show ?case by (intro fields_yields) auto
qed (auto simp: decodeRawValue_def decodeBigInt_def decodeBigIntNoPtr_def decodeBool_def decodeString_def
  decodeByteSlice_def yields_ret yields_err
  intro!: interface_yields float_yields hasType.intros yields_mapRes [OF Raw_yields] yields_mapRes [OF bigBytes_yields]
  yields_mapRes [OF yields_wrapped [OF streamBool_yields]] yields_mapRes [OF yields_wrapped [OF streamBytes_yields]])

text \<open>C39. Type soundness of the decoder: whatever the input, a value \<^verbatim>\<open>DecodeBytes\<close> stores for a Go type
  is a value of that type; integers are in the range of their width, arrays have their length,
  structs have one value of its type per field.\<close>

theorem DecodeBytes_typed:
  assumes "goType t" and "DecodeBytes fuel b t = Some (Inr v)"
  shows "hasType t v"
proof -
  let ?s = "Reset b (word_of_nat (length b))"
  have "byteOK ?s" by (simp add: Reset_def byteOK_def)
  then have "yieldsF (hasType t) (decoder fuel t noTags ?s)" using assms(1) by (simp only: decoder_yields)
  then show ?thesis using assms(2)
    by (auto simp: DecodeBytes_def streamDecode_def yields_def split: if_splits)
qed

theorem DecodeBytes_typed_witness:
  "hasType (TSlice (TInt 8)) (VList [VInt 1, VInt (-1)])"
proof (rule DecodeBytes_typed)
  show "goType (TSlice (TInt 8))" by simp
  show "DecodeBytes 9 [0xC3, 0x01, 0x81, 0xFF] (TSlice (TInt 8)) = Some (Inr (VList [VInt 1, VInt (-1)]))"
    by code_simp
qed

section \<open>The encoder on values of their type\<close>

lemma zero_typed: "genTypeInfo t \<Longrightarrow> hasType t (zero t)"
proof (induction t rule: genTypeInfo.induct)
  case (3 fs)
  then have "hasType a (zero a)" if "(a, b) \<in> set fs" for a b using that by (auto simp: list_all_iff)
  then show ?case by (auto simp: list.rel_map list_all2_same split_beta intro!: hasType.struct)
qed (auto intro!: hasType.intros)

definition calm :: "unit wres \<Rightarrow> bool" where
  "calm r \<longleftrightarrow> fst r \<noteq> Inl RlpPanic"

lemma calm_bind: "calm r \<Longrightarrow> (\<And>w. calm (K () w)) \<Longrightarrow> calm (bindE r K)"
  by (cases r; cases "fst r") (auto simp: calm_def)

lemma calm_let: "calm (case p of (r, w2) \<Rightarrow> (r, f w2)) \<longleftrightarrow> calm p"
  by (simp add: calm_def split_beta Let_def)

lemma calm_err: "calm (Inl (RlpErr m), w)"
  by (simp add: calm_def)

lemma calm_leaf:
  "calm (writeRawValue b w)" "calm (writeInt i w)" "calm (writeUint u w)" "calm (writeBool x w)"
  "calm (writeBigInt i w)" "calm (writeBigIntPtr p w)" "calm (writeBytes b w)" "calm (writeByteArray b w)"
  "calm (writefloat64 u w)" "calm (writeString b w)" "calm (Inr (), w)"
  by (auto simp: calm_def writeRawValue_def writeInt_def writeUint_def writeBool_def writeBigInt_def writeBigIntPtr_def
      writeBytes_def writeByteArray_def writefloat64_def writeString_def Let_def split: option.splits)

lemma writer_calm:
  "hasType t v \<Longrightarrow> genTypeInfo t \<Longrightarrow> calm (writer t ts v w)"
  "\<forall>v\<in>set vs. hasType t v \<Longrightarrow> genTypeInfo t \<Longrightarrow> calm (writeElems t vs w)"
  "list_all2 (\<lambda>f. hasType (fst f)) fs vs \<Longrightarrow> list_all (\<lambda>(t, _). genTypeInfo t) fs \<Longrightarrow> calm (writeFields fs vs w)"
proof (induction t ts v w and t vs w and fs vs w rule: writer_writeElems_writeFields.induct)
  case (10 t ts v w)
  then obtain vs where v: "v = VList vs" "\<forall>v\<in>set vs. hasType t v" "genTypeInfo t" by auto
  obtain lh w1 where b: "beginList w = (lh, w1)" by fastforce
  show ?case using 10(1) [OF v(1) _ v(2,3)] 10(2) [OF v(1) _ b [symmetric] refl v(2,3)] v(1) b by (simp add: calm_let)
next
  case (11 n t ts v w)
  then obtain vs where v: "v = VList vs" "\<forall>v\<in>set vs. hasType t v" "genTypeInfo t" by auto
  obtain lh w1 where b: "beginList w = (lh, w1)" by fastforce
  show ?case using 11(1) [OF v(1) _ v(2,3)] 11(2) [OF v(1) _ b [symmetric] refl v(2,3)] v(1) b by (simp add: calm_let)
next
  case (12 fs ts v w)
  then obtain vs where v: "v = VList vs" "list_all2 (\<lambda>f. hasType (fst f)) fs vs" by auto
  obtain lh w1 where b: "beginList w = (lh, w1)" by fastforce
  have "calm (writeFields fs vs w1)" using 12(1) [OF v(1) b [symmetric] refl v(2)] 12(3) by simp
  then show ?case using v(1) b by (auto simp: calm_leaf intro: calm_bind)
next
  case (13 t ts v w)
  have z: "calm (writer t noTags (zero t) w)" if "v = VPtr None" "\<And>n. t \<noteq> TByteArray n" "\<And>fs. t \<noteq> TStruct fs"
    "\<And>n t'. t \<noteq> TArray n t'"
    using that 13 zero_typed [of t] by (cases t) auto
  show ?case
  proof (cases "v = VPtr None")
    case True
    then show ?thesis using z by (cases t) (auto simp: calm_leaf beginList_def)
  next
    case False
    then show ?thesis using 13 by auto
  qed
qed (auto simp: calm_leaf calm_err intro!: calm_bind)

text \<open>C40. Type safety of the encoder: on a value of a type that RLP can serialise, the writers return
  or report an error; they never panic.  The error they report is the one for a negative big
  integer or for an unserialisable type inside an interface.\<close>

theorem encode_typed:
  assumes "hasType t v"
  shows "fst (encode t v w) \<noteq> Inl RlpPanic"
  using writer_calm(1) [OF assms, of noTags w] by (auto simp: encode_def calm_def)

theorem encode_typed_witness:
  "fst (encode exampleType exampleValue emptyBuf) \<noteq> Inl RlpPanic"
  by (rule encode_typed) (auto intro!: hasType.intros)

end
