(* ===== verification/GoTime.thy ===== *)
theory GoTime
  imports Prelude "HOL-Library.Signed_Division"
begin

text \<open>
  What the scheduling code uses of Go's package \<^verbatim>\<open>time\<close>: a time is the number of seconds since
  the year 1, kept in a signed 64 bit integer that wraps around, with the nanoseconds within the
  second; a duration is a signed 64 bit number of nanoseconds.
\<close>

record Time =
  sec :: int
  nsec :: int

definition unixToInternal :: int where
  "unixToInternal = 62135596800"

definition nanosPerSec :: int where
  "nanosPerSec = 1000000000"

text \<open>\<^verbatim>\<open>time.Unix(s, 0)\<close> and the method \<^verbatim>\<open>Unix\<close>.\<close>

definition Unix :: "int \<Rightarrow> Time" where
  "Unix s = \<lparr>sec = int64 (s + unixToInternal), nsec = 0\<rparr>"

definition unixOf :: "Time \<Rightarrow> int" where
  "unixOf t = int64 (sec t - unixToInternal)"

definition Before :: "Time \<Rightarrow> Time \<Rightarrow> bool" where
  "Before t u \<longleftrightarrow> sec t < sec u \<or> sec t = sec u \<and> nsec t < nsec u"

definition After :: "Time \<Rightarrow> Time \<Rightarrow> bool" where
  "After t u \<longleftrightarrow> sec t > sec u \<or> sec t = sec u \<and> nsec t > nsec u"

definition timeEqual :: "Time \<Rightarrow> Time \<Rightarrow> bool" where
  "timeEqual t u \<longleftrightarrow> sec t = sec u \<and> nsec t = nsec u"

definition timeAdd :: "int \<Rightarrow> Time \<Rightarrow> Time" where
  "timeAdd d t =
    (let dsec = d sdiv nanosPerSec; n = nsec t + d smod nanosPerSec in
     if n \<ge> nanosPerSec then \<lparr>sec = int64 (sec t + (dsec + 1)), nsec = n - nanosPerSec\<rparr>
     else if n < 0 then \<lparr>sec = int64 (sec t + (dsec - 1)), nsec = n + nanosPerSec\<rparr>
     else \<lparr>sec = int64 (sec t + dsec), nsec = n\<rparr>)"

text \<open>\<^verbatim>\<open>Sub\<close> saturates when the difference does not fit a duration.\<close>

definition timeSub :: "Time \<Rightarrow> Time \<Rightarrow> int" where
  "timeSub t u =
    (let d = int64 (int64 (int64 (sec t - sec u) * nanosPerSec) + (nsec t - nsec u)) in
     if timeEqual (timeAdd d u) t then d
     else if Before t u then - (2 ^ 63)
     else 2 ^ 63 - 1)"

section \<open>Whole seconds\<close>

text \<open>Times a few centuries around the epoch are just numbers of seconds.\<close>

definition plain :: "int \<Rightarrow> bool" where
  "plain s \<longleftrightarrow> - (2 ^ 40) < s \<and> s < 2 ^ 40"

lemma sec_Unix: "plain s \<Longrightarrow> sec (Unix s) = s + unixToInternal"
  by (simp add: Unix_def plain_def unixToInternal_def int64_id)

lemma unixOf_Unix [simp]: "plain s \<Longrightarrow> unixOf (Unix s) = s"
  by (simp add: unixOf_def sec_Unix plain_def int64_id)

lemma Before_Unix [simp]: "plain s \<Longrightarrow> plain u \<Longrightarrow> Before (Unix s) (Unix u) \<longleftrightarrow> s < u"
  by (simp add: Before_def sec_Unix) (simp add: Unix_def)

lemma After_Unix [simp]: "plain s \<Longrightarrow> plain u \<Longrightarrow> After (Unix s) (Unix u) \<longleftrightarrow> u < s"
  by (simp add: After_def sec_Unix) (simp add: Unix_def)

lemma timeEqual_Unix [simp]: "plain s \<Longrightarrow> plain u \<Longrightarrow> timeEqual (Unix s) (Unix u) \<longleftrightarrow> s = u"
  by (simp add: timeEqual_def sec_Unix) (simp add: Unix_def)

lemma Unix_inject [simp]: "plain s \<Longrightarrow> plain u \<Longrightarrow> Unix s = Unix u \<longleftrightarrow> s = u"
  using unixOf_Unix by metis

lemma timeAdd_seconds:
  assumes "plain s" and "plain (s + k)"
  shows "timeAdd (nanosPerSec * k) (Unix s) = Unix (s + k)"
proof -
  have "(nanosPerSec * k) sdiv nanosPerSec = k" "(nanosPerSec * k) smod nanosPerSec = 0"
    by (cases "k = 0", simp_all add: signed_divide_int_def signed_modulo_int_def nanosPerSec_def sgn_mult abs_mult sgn_mult_abs)
  then show ?thesis using sec_Unix [OF assms(1)]
    by (simp add: timeAdd_def Let_def nanosPerSec_def) (simp add: Unix_def algebra_simps)
qed

lemma timeSub_Unix:
  assumes "0 \<le> s" and "s < 2 ^ 33" and "0 \<le> u" and "u < 2 ^ 33"
  shows "timeSub (Unix s) (Unix u) = nanosPerSec * (s - u)"
proof -
  have p: "plain s" "plain u" "plain (u + (s - u))" using assms by (auto simp: plain_def)
  have "int64 (s - u) = s - u" using assms by (simp add: int64_id)
  moreover have "int64 (nanosPerSec * (s - u)) = nanosPerSec * (s - u)" using assms by (simp add: int64_id nanosPerSec_def)
  ultimately have "int64 (int64 (int64 (sec (Unix s) - sec (Unix u)) * nanosPerSec) + (nsec (Unix s) - nsec (Unix u))) = nanosPerSec * (s - u)"
    using p by (simp add: sec_Unix mult.commute) (simp add: Unix_def mult.commute)
  then show ?thesis using timeAdd_seconds [OF p(2,3)] by (simp add: timeSub_def Let_def timeEqual_def)
qed

end
