(* ===== verification/Mediator.thy ===== *)
theory Mediator
  imports Crypto GoTime "HOL-Library.List_Lexorder" "HOL-Library.Char_ord" "HOL-Library.AList" "HOL-Library.Multiset"
begin

text \<open>
  The mediator schedule: chain parameters and genesis (\<^verbatim>\<open>core/chain_parameters.go\<close>,
  \<^verbatim>\<open>core/genesis.go\<close>, \<^verbatim>\<open>core/mediator.go\<close>), the global and dynamic properties
  (\<^verbatim>\<open>dag/modules/global_property.go\<close>) and the shuffled order in which mediators produce units,
  with the times of their slots (\<^verbatim>\<open>dag/modules/mediator_schedule.go\<close>).  Signed 64 bit integers are
  integers with their wrap-around written out, unsigned ones are words.  A Go map is an
  association list in the order in which \<^verbatim>\<open>range\<close> happens to visit it.
\<close>

section \<open>Chain parameters and genesis\<close>

record FeeSchedule =
  MediatorCreateFee :: "64 word"

record ChainParameters =
  CurrentFees :: FeeSchedule
  MediatorInterval :: "8 word"
  MaintenanceInterval :: "32 word"

definition NewFeeSchedule :: FeeSchedule where
  "NewFeeSchedule = \<lparr>MediatorCreateFee = 5000\<rparr>"

definition NewChainParams :: ChainParameters where
  "NewChainParams = \<lparr>CurrentFees = NewFeeSchedule, MediatorInterval = 2, MaintenanceInterval = 86400\<rparr>"

record InitialMediator =
  AddStr :: string
  initPartPub :: string
  initNode :: string

text \<open>Of \<^verbatim>\<open>Genesis\<close>, the fields that initialise the properties.\<close>

record Genesis =
  InitialParameters :: ChainParameters
  InitialTimestamp :: int
  InitialActiveMediators :: "16 word"
  InitialMediatorCandidates :: "InitialMediator list"

text \<open>\<^verbatim>\<open>strings.TrimSpace\<close> and \<^verbatim>\<open>strings.Trim(s, "\"")\<close>, on ASCII strings.\<close>

definition isSpace :: "char \<Rightarrow> bool" where
  "isSpace c \<longleftrightarrow> of_char c \<in> {9, 10, 11, 12, 13, 32 :: nat}"

definition trimBy :: "(char \<Rightarrow> bool) \<Rightarrow> string \<Rightarrow> string" where
  "trimBy f s = rev (dropWhile f (rev (dropWhile f s)))"

definition zeroAddress :: Address where
  "zeroAddress = replicate AddressLength 0"

text \<open>An error of \<^verbatim>\<open>StringToAddress\<close> is logged and its zero address returned.\<close>

definition StrToMedAdd :: "prims \<Rightarrow> string \<Rightarrow> serr + Address" where
  "StrToMedAdd p addStr =
    (let address = trimBy (\<lambda>c. of_char c = (34 :: nat)) (trimBy isSpace addStr) in
     case StringToAddress p address of
       Inl Panic \<Rightarrow> Inl Panic
     | Inl _ \<Rightarrow> Inr zeroAddress
     | Inr addr \<Rightarrow> Inr addr)"

section \<open>Global properties\<close>

text \<open>Points of the curve belong to a package outside the repository; \<^typ>\<open>'pt\<close> is their type.\<close>

record 'pt GlobalProperty =
  ChainParams :: ChainParameters
  ActiveMediators :: "(Address \<times> bool) list"
  GroupPubKey :: 'pt

record DynamicGlobalProperty =
  HeadUnitNum :: "64 word"
  HeadUnitHash :: Hash
  HeadUnitTime :: int
  CurrentASlot :: "64 word"
  LastIrreversibleUnitNum :: "32 word"

definition GetActiveMediatorCount :: "'pt GlobalProperty \<Rightarrow> nat" where
  "GetActiveMediatorCount gp = length (ActiveMediators gp)"

definition PalletOne100Percent :: int where
  "PalletOne100Percent = 10000"

definition PalletOneIrreversibleThreshold :: int where
  "PalletOneIrreversibleThreshold = 70 * (PalletOne100Percent div 100)"

definition GetCurThreshold :: "'pt GlobalProperty \<Rightarrow> int" where
  "GetCurThreshold gp =
    (let aSize = int (GetActiveMediatorCount gp);
         offset = (PalletOne100Percent - PalletOneIrreversibleThreshold) * aSize div PalletOne100Percent
     in aSize - offset)"

definition IsActiveMediator :: "Address \<Rightarrow> 'pt GlobalProperty \<Rightarrow> bool" where
  "IsActiveMediator add gp = (case map_of (ActiveMediators gp) add of None \<Rightarrow> False | Some b \<Rightarrow> b)"

text \<open>\<^verbatim>\<open>sort.Strings\<close> orders strings lexicographically by their bytes.  A rendered address is not
  empty, so reading it back does not panic.\<close>

definition sortAddress :: "prims \<Rightarrow> Address list \<Rightarrow> Address list" where
  "sortAddress p adds =
    map (\<lambda>s. case StringToAddress p s of Inl _ \<Rightarrow> zeroAddress | Inr a \<Rightarrow> a) (sort (map (Str p) adds))"

definition GetActiveMediators :: "prims \<Rightarrow> 'pt GlobalProperty \<Rightarrow> Address list" where
  "GetActiveMediators p gp = sortAddress p (map fst (ActiveMediators gp))"

definition GetActiveMediatorAddr :: "prims \<Rightarrow> int \<Rightarrow> 'pt GlobalProperty \<Rightarrow> serr + Address" where
  "GetActiveMediatorAddr p index gp =
    (let meds = GetActiveMediators p gp in
     if 0 \<le> index \<and> index < int (length meds) then Inr (meds ! nat index) else Inl Panic)"

definition NewGlobalProp :: "'pt \<Rightarrow> 'pt GlobalProperty" where
  "NewGlobalProp null = \<lparr>ChainParams = NewChainParams, ActiveMediators = [], GroupPubKey = null\<rparr>"

definition NewDynGlobalProp :: DynamicGlobalProperty where
  "NewDynGlobalProp =
    \<lparr>HeadUnitNum = 0, HeadUnitHash = zeroHash, HeadUnitTime = 0, CurrentASlot = 0, LastIrreversibleUnitNum = 0\<rparr>"

primrec setActive :: "prims \<Rightarrow> InitialMediator list \<Rightarrow> nat \<Rightarrow> (Address \<times> bool) list \<Rightarrow> serr + (Address \<times> bool) list" where
  "setActive p cands 0 ams = Inr ams"
| "setActive p cands (Suc n) ams =
    (case cands of
       [] \<Rightarrow> Inl Panic
     | c # cs \<Rightarrow> bindR (StrToMedAdd p (AddStr c)) (\<lambda>a. setActive p cs n (AList.update a True ams)))"

definition InitGlobalProp :: "prims \<Rightarrow> 'pt \<Rightarrow> Genesis \<Rightarrow> serr + 'pt GlobalProperty" where
  "InitGlobalProp p null genesis =
    bindR (setActive p (InitialMediatorCandidates genesis) (unat (InitialActiveMediators genesis)) []) (\<lambda>ams.
      Inr ((NewGlobalProp null)\<lparr>ChainParams := InitialParameters genesis, ActiveMediators := ams\<rparr>))"

definition InitDynGlobalProp :: "Genesis \<Rightarrow> Hash \<Rightarrow> DynamicGlobalProperty" where
  "InitDynGlobalProp genesis genesisUnitHash =
    NewDynGlobalProp\<lparr>HeadUnitTime := InitialTimestamp genesis, HeadUnitHash := genesisUnitHash\<rparr>"

section \<open>The shuffled schedule\<close>

record MediatorSchedule =
  CurrentShuffledMediators :: "Address list"

definition NewMediatorSchl :: MediatorSchedule where
  "NewMediatorSchl = \<lparr>CurrentShuffledMediators = []\<rparr>"

definition shuffleKey :: "64 word \<Rightarrow> nat \<Rightarrow> 64 word" where
  "shuffleKey nowHi i =
    (let k = nowHi + word_of_nat i * 2685821657736338717;
         k = k XOR drop_bit 12 k;
         k = k XOR push_bit 25 k;
         k = k XOR drop_bit 27 k
     in k * 2685821657736338717)"

definition shuffleStep :: "64 word \<Rightarrow> nat \<Rightarrow> nat \<Rightarrow> Address list \<Rightarrow> Address list" where
  "shuffleStep nowHi aSize i ms =
    (let jmax = word_of_nat aSize - word_of_nat i;
         j = unat (word_of_nat i + shuffleKey nowHi i mod jmax)
     in ms[i := ms ! j, j := ms ! i])"

definition UpdateMediatorSchedule ::
  "prims \<Rightarrow> 'pt GlobalProperty \<Rightarrow> DynamicGlobalProperty \<Rightarrow> MediatorSchedule \<Rightarrow> MediatorSchedule" where
  "UpdateMediatorSchedule p gp dgp ms =
    (let aSize = length (ActiveMediators gp) in
     if aSize = 0 then ms
     else if HeadUnitNum dgp mod word_of_nat aSize \<noteq> 0 then ms
     else
       let meds = GetActiveMediators p gp;
           nowHi = push_bit 32 (word_of_int (HeadUnitTime dgp))
       in ms\<lparr>CurrentShuffledMediators := fold (shuffleStep nowHi aSize) [0..<aSize] meds\<rparr>)"

definition InitMediatorSchl :: "prims \<Rightarrow> 'pt GlobalProperty \<Rightarrow> DynamicGlobalProperty \<Rightarrow> MediatorSchedule" where
  "InitMediatorSchl p gp dgp =
    UpdateMediatorSchedule p gp dgp (NewMediatorSchl\<lparr>CurrentShuffledMediators := GetActiveMediators p gp\<rparr>)"

definition GetScheduledMediator :: "DynamicGlobalProperty \<Rightarrow> 32 word \<Rightarrow> MediatorSchedule \<Rightarrow> Address" where
  "GetScheduledMediator dgp slotNum ms =
    (let currentASlot = CurrentASlot dgp + ucast slotNum;
         csmLen = length (CurrentShuffledMediators ms)
     in if csmLen = 0 then zeroAddress
        else CurrentShuffledMediators ms ! unat ((currentASlot - 1) mod word_of_nat csmLen))"

section \<open>Slots\<close>

definition GetSlotTime :: "'pt GlobalProperty \<Rightarrow> DynamicGlobalProperty \<Rightarrow> 32 word \<Rightarrow> serr + Time" where
  "GetSlotTime gp dgp slotNum =
    (if slotNum = 0 then Inr (Unix 0)
     else
       let interval = uint (MediatorInterval (ChainParams gp)) in
       if HeadUnitNum dgp = 0
       then Inr (Unix (int64 (HeadUnitTime dgp + int64 (uint slotNum * interval))))
       else if interval = 0 then Inl Panic
       else
         let unitAbsSlot = HeadUnitTime dgp sdiv interval;
             verifiedUnitSlotTime = Unix (int64 (unitAbsSlot * interval))
         in Inr (timeAdd (int64 (int64 (nanosPerSec * uint slotNum) * interval)) verifiedUnitSlotTime))"

definition GetSlotAtTime :: "'pt GlobalProperty \<Rightarrow> DynamicGlobalProperty \<Rightarrow> Time \<Rightarrow> serr + 32 word" where
  "GetSlotAtTime gp dgp when =
    bindR (GetSlotTime gp dgp 1) (\<lambda>firstSlotTime.
      if Before when firstSlotTime then Inr 0
      else
        let diffSecs = int64 (unixOf when - unixOf firstSlotTime);
            interval = uint (MediatorInterval (ChainParams gp))
        in if interval = 0 then Inr 0 else Inr (word_of_int (diffSecs sdiv interval) + 1))"

section \<open>The order of the active mediators\<close>

text \<open>Addresses of one of the three kinds survive being rendered and read.\<close>

definition goodAddress :: "Address \<Rightarrow> bool" where
  "goodAddress a \<longleftrightarrow> length a = 21 \<and> GetType a \<in> {PublicKeyHash, ScriptHash, ContractHash}"

lemma read_Str: "base58_inverse p \<Longrightarrow> goodAddress a \<Longrightarrow> StringToAddress p (Str p a) = Inr a"
  unfolding goodAddress_def by (blast intro: address_string)

lemma mset_sortAddress:
  assumes "base58_inverse p" and "list_all goodAddress adds"
  shows "mset (sortAddress p adds) = mset adds"
proof -
  let ?f = "\<lambda>s. case StringToAddress p s of Inl _ \<Rightarrow> zeroAddress | Inr a \<Rightarrow> a"
  have "mset (sortAddress p adds) = image_mset ?f (image_mset (Str p) (mset adds))"
    unfolding sortAddress_def mset_map mset_sort ..
  also have "\<dots> = image_mset (\<lambda>a. a) (mset adds)"
    unfolding multiset.map_comp
    by (rule image_mset_cong) (use assms read_Str in \<open>auto simp: list_all_iff\<close>)
  finally show ?thesis by simp
qed

lemma sortAddress_cong: "mset xs = mset ys \<Longrightarrow> sortAddress p xs = sortAddress p ys"
proof -
  assume "mset xs = mset ys"
  then have "sort (map (Str p) xs) = sort (map (Str p) ys)"
    by (intro properties_for_sort) simp_all
  then show ?thesis by (simp add: sortAddress_def)
qed

definition goodProps :: "prims \<Rightarrow> 'pt GlobalProperty \<Rightarrow> bool" where
  "goodProps p gp \<longleftrightarrow> base58_inverse p \<and> list_all goodAddress (map fst (ActiveMediators gp)) \<and>
    distinct (map fst (ActiveMediators gp)) \<and> 0 < length (ActiveMediators gp) \<and> length (ActiveMediators gp) < 2 ^ 31 \<and>
    0 < uint (MediatorInterval (ChainParams gp))"

lemma GetActiveMediators_mset:
  "goodProps p gp \<Longrightarrow> mset (GetActiveMediators p gp) = mset (map fst (ActiveMediators gp))"
  unfolding GetActiveMediators_def goodProps_def by (intro mset_sortAddress) auto

lemma GetActiveMediators_facts:
  assumes "goodProps p gp"
  shows "set (GetActiveMediators p gp) = fst ` set (ActiveMediators gp)" and "distinct (GetActiveMediators p gp)"
    and "length (GetActiveMediators p gp) = length (ActiveMediators gp)"
proof -
  note m = GetActiveMediators_mset [OF assms]
  show "set (GetActiveMediators p gp) = fst ` set (ActiveMediators gp)"
    using mset_eq_setD [OF m] by simp
  show "distinct (GetActiveMediators p gp)"
    using m assms mset_eq_imp_distinct_iff unfolding goodProps_def by blast
  show "length (GetActiveMediators p gp) = length (ActiveMediators gp)"
    using mset_eq_length [OF m] by simp
qed

section \<open>The shuffle\<close>

lemma shuffleStep_mset:
  assumes "length ms = n" and "n < 2 ^ 31" and "i < n"
  shows "mset (shuffleStep nowHi n i ms) = mset ms"
proof -
  let ?jmax = "word_of_nat n - word_of_nat i :: 64 word" and ?k = "shuffleKey nowHi i"
  have ui: "unat (word_of_nat i :: 64 word) = i" "unat (word_of_nat n :: 64 word) = n"
    using assms(2,3) by (simp_all add: unat_of_nat)
  then have uj: "unat ?jmax = n - i" using assms(3) by (simp add: unat_sub word_le_nat_alt)
  have km: "unat (?k mod ?jmax) < n - i" using assms(3) uj by (simp add: unat_mod)
  then have "unat (word_of_nat i + ?k mod ?jmax) = i + unat (?k mod ?jmax)"
    using ui assms(2,3) by (subst unat_add_lem [THEN iffD1]) auto
  then have j: "unat (word_of_nat i + ?k mod ?jmax) < length ms" using km assms(1,3) by simp
  then show ?thesis
    unfolding shuffleStep_def Let_def using assms(1,3) by (simp add: mset_swap)
qed

lemma shuffle_mset:
  "length ms = n \<Longrightarrow> n < 2 ^ 31 \<Longrightarrow> list_all (\<lambda>i. i < n) is \<Longrightarrow> mset (fold (shuffleStep nowHi n) is ms) = mset ms"
proof (induction "is" arbitrary: ms)
  case (Cons i "is")
  have m: "mset (shuffleStep nowHi n i ms) = mset ms"
    by (rule shuffleStep_mset) (use Cons.prems in simp_all)
  have "mset (fold (shuffleStep nowHi n) is (shuffleStep nowHi n i ms)) = mset (shuffleStep nowHi n i ms)"
    by (rule Cons.IH) (use Cons.prems mset_eq_length [OF m] in simp_all)
  then show ?case using m by simp
qed simp

text \<open>A schedule is complete when it is an order of the active mediators.\<close>

definition complete :: "'pt GlobalProperty \<Rightarrow> MediatorSchedule \<Rightarrow> bool" where
  "complete gp ms \<longleftrightarrow> mset (CurrentShuffledMediators ms) = mset (map fst (ActiveMediators gp))"

lemma complete_length: "complete gp ms \<Longrightarrow> length (CurrentShuffledMediators ms) = length (ActiveMediators gp)"
  unfolding complete_def by (metis length_map mset_eq_length)

lemma complete_update:
  assumes "goodProps p gp" and "complete gp ms"
  shows "complete gp (UpdateMediatorSchedule p gp dgp ms)"
proof -
  let ?n = "length (ActiveMediators gp)"
  have "mset (fold (shuffleStep h ?n) [0..<?n] (GetActiveMediators p gp)) = mset (GetActiveMediators p gp)" for h
    by (rule shuffle_mset) (use assms GetActiveMediators_facts(3) in \<open>auto simp: goodProps_def list_all_iff\<close>)
  then show ?thesis using assms GetActiveMediators_mset [OF assms(1)]
    by (simp add: UpdateMediatorSchedule_def complete_def Let_def)
qed

lemma complete_init: "goodProps p gp \<Longrightarrow> complete gp (InitMediatorSchl p gp dgp)"
  unfolding InitMediatorSchl_def
  by (intro complete_update) (simp_all add: complete_def GetActiveMediators_mset)

lemma scheduled_nth:
  assumes "length (CurrentShuffledMediators ms) = n" and "0 < n" and "n < 2 ^ 31"
    and "unat (CurrentASlot dgp) + n < 2 ^ 64" and "1 \<le> k" and "k \<le> n"
  shows "GetScheduledMediator dgp (word_of_nat k) ms =
    CurrentShuffledMediators ms ! ((unat (CurrentASlot dgp) + k - 1) mod n)"
proof -
  have uk: "unat (ucast (word_of_nat k :: 32 word) :: 64 word) = k"
    using assms(3,6) by (simp add: unat_of_nat unsigned_ucast_eq take_bit_nat_eq_self)
  have u: "unat (CurrentASlot dgp + ucast (word_of_nat k :: 32 word)) = unat (CurrentASlot dgp) + k"
    using uk assms(4,6) by (subst unat_add_lem [THEN iffD1]) auto
  have "unat (CurrentASlot dgp + ucast (word_of_nat k :: 32 word) - 1) = unat (CurrentASlot dgp) + k - 1"
    using u assms(5) by (subst unat_sub) (auto simp: word_le_nat_alt)
  then show ?thesis using assms(1-3) by (simp add: GetScheduledMediator_def Let_def unat_mod unat_of_nat)
qed

lemma hit_residue:
  assumes "0 < n" and "i < (n :: nat)"
  shows "\<exists>k. 1 \<le> k \<and> k \<le> n \<and> (c + k - 1) mod n = i"
proof -
  let ?r = "(i + n - c mod n) mod n"
  have "(c + ?r) mod n = (c mod n + (i + n - c mod n)) mod n" by (simp add: mod_simps)
  also have "c mod n + (i + n - c mod n) = i + n" using mod_less_divisor [OF assms(1), of c] by linarith
  also have "(i + n) mod n = i" using assms(2) by simp
  finally have "(c + Suc ?r - 1) mod n = i" by simp
  then show ?thesis using mod_less_divisor [OF assms(1), of "i + n - c mod n"] by (intro exI [of _ "Suc ?r"]) auto
qed

lemma everyone_scheduled:
  assumes "complete gp ms" and "length (ActiveMediators gp) < 2 ^ 31" and "a \<in> fst ` set (ActiveMediators gp)"
    and "unat (CurrentASlot dgp) + length (ActiveMediators gp) < 2 ^ 64"
  shows "\<exists>k. 1 \<le> k \<and> k \<le> length (ActiveMediators gp) \<and> GetScheduledMediator dgp (word_of_nat k) ms = a"
proof -
  let ?n = "length (ActiveMediators gp)"
  have len: "length (CurrentShuffledMediators ms) = ?n" by (rule complete_length [OF assms(1)])
  have "a \<in> set (CurrentShuffledMediators ms)"
    using assms(3) mset_eq_setD [OF assms(1) [unfolded complete_def]] by simp
  then obtain i where i: "i < ?n" "CurrentShuffledMediators ms ! i = a" using len by (auto simp: in_set_conv_nth)
  then obtain k where k: "1 \<le> k" "k \<le> ?n" "(unat (CurrentASlot dgp) + k - 1) mod ?n = i"
    using hit_residue [of ?n i] by fastforce
  have "0 < ?n" using i(1) by linarith
  then show ?thesis
    using scheduled_nth [OF len _ assms(2,4) k(1,2)] k i(2) by (intro exI [of _ k]) simp
qed

section \<open>The times of the slots\<close>

abbreviation intervalOf :: "'pt GlobalProperty \<Rightarrow> int" where
  "intervalOf gp \<equiv> uint (MediatorInterval (ChainParams gp))"

text \<open>Slots count from the head unit, or from the start of the slot it lies in.\<close>

definition slotBase :: "'pt GlobalProperty \<Rightarrow> DynamicGlobalProperty \<Rightarrow> int" where
  "slotBase gp dgp =
    (if HeadUnitNum dgp = 0 then HeadUnitTime dgp else HeadUnitTime dgp - HeadUnitTime dgp mod intervalOf gp)"

definition inEra :: "'pt GlobalProperty \<Rightarrow> DynamicGlobalProperty \<Rightarrow> bool" where
  "inEra gp dgp \<longleftrightarrow> 0 < intervalOf gp \<and> 0 \<le> HeadUnitTime dgp \<and> HeadUnitTime dgp < 2 ^ 32"

lemma sdiv_nonneg: "0 \<le> a \<Longrightarrow> 0 < b \<Longrightarrow> a sdiv b = a div (b :: int)"
  by (cases "a = 0") (simp_all add: signed_divide_int_def)

lemma interval_range: "0 \<le> intervalOf gp" "intervalOf gp < 256"
  using byte_range by auto

lemma slotBase_range:
  assumes "inEra gp dgp"
  shows "0 \<le> slotBase gp dgp" and "slotBase gp dgp < 2 ^ 32" and "HeadUnitTime dgp < slotBase gp dgp + intervalOf gp"
proof -
  have iv: "0 < intervalOf gp" and t: "0 \<le> HeadUnitTime dgp" "HeadUnitTime dgp < 2 ^ 32" using assms by (auto simp: inEra_def)
  have m: "0 \<le> HeadUnitTime dgp mod intervalOf gp" "HeadUnitTime dgp mod intervalOf gp < intervalOf gp"
    "HeadUnitTime dgp mod intervalOf gp \<le> HeadUnitTime dgp" using iv t(1) zmod_le_nonneg_dividend by simp_all
  have "slotBase gp dgp = HeadUnitTime dgp \<or> slotBase gp dgp = HeadUnitTime dgp - HeadUnitTime dgp mod intervalOf gp"
    by (simp add: slotBase_def)
  then show "0 \<le> slotBase gp dgp" "slotBase gp dgp < 2 ^ 32" "HeadUnitTime dgp < slotBase gp dgp + intervalOf gp"
    using m t iv by linarith+
qed

lemma GetSlotTime_eq:
  assumes "inEra gp dgp" and "n \<noteq> 0" and "uint n * intervalOf gp < 2 ^ 33"
  shows "GetSlotTime gp dgp n = Inr (Unix (slotBase gp dgp + uint n * intervalOf gp))"
proof -
  let ?iv = "intervalOf gp" and ?t = "HeadUnitTime dgp"
  define d where "d = uint n * ?iv"
  have iv: "0 < ?iv" and t: "0 \<le> ?t" "?t < 2 ^ 32" using assms(1) by (auto simp: inEra_def)
  have d: "0 \<le> d" "d < 2 ^ 33" using iv assms(3) by (simp_all add: d_def)
  have un: "0 \<le> uint n" "uint n < 2 ^ 32" using uint_bounded [of n] by simp_all
  note base = slotBase_range [OF assms(1)]
  show ?thesis
  proof (cases "HeadUnitNum dgp = 0")
    case True
    have "int64 d = d" "int64 (?t + d) = ?t + d" using d t by (simp_all add: int64_id)
    then show ?thesis using True assms(2) by (simp add: GetSlotTime_def Let_def slotBase_def flip: d_def)
  next
    case False
    have b: "int64 (?t sdiv ?iv * ?iv) = slotBase gp dgp"
      using t iv False base by (simp add: sdiv_nonneg slotBase_def minus_mod_eq_div_mult [symmetric] int64_id)
    have "int64 (nanosPerSec * uint n) = nanosPerSec * uint n"
      using un by (intro int64_nonneg) (simp_all add: nanosPerSec_def)
    then have "int64 (int64 (nanosPerSec * uint n) * ?iv) = int64 (nanosPerSec * d)"
      by (simp add: d_def mult.assoc)
    also have "\<dots> = nanosPerSec * d" using d by (intro int64_id) (simp_all add: nanosPerSec_def)
    finally have e: "int64 (int64 (nanosPerSec * uint n) * ?iv) = nanosPerSec * d" .
    have "timeAdd (nanosPerSec * d) (Unix (slotBase gp dgp)) = Unix (slotBase gp dgp + d)"
      using base(1,2) d by (intro timeAdd_seconds) (auto simp: plain_def)
    then show ?thesis using False iv assms(2) by (simp add: GetSlotTime_def Let_def b e flip: d_def)
  qed
qed

lemma GetSlotAtTime_eq:
  assumes "inEra gp dgp" and "0 \<le> w" and "w < 2 ^ 32"
  shows "\<exists>n. GetSlotAtTime gp dgp (Unix w) = Inr n \<and> uint n = max 0 ((w - slotBase gp dgp) div intervalOf gp)"
proof -
  let ?iv = "intervalOf gp" and ?b = "slotBase gp dgp"
  have iv: "0 < ?iv" "?iv < 256" using assms(1) interval_range by (auto simp: inEra_def)
  note base = slotBase_range [OF assms(1)]
  have first: "GetSlotTime gp dgp 1 = Inr (Unix (?b + ?iv))"
    using GetSlotTime_eq [OF assms(1), of 1] iv by simp
  have pl: "plain (?b + ?iv)" "plain w" using base iv assms(2,3) by (auto simp: plain_def)
  show ?thesis
  proof (cases "w < ?b + ?iv")
    case True
    then have "(w - ?b) div ?iv \<le> (?iv - 1) div ?iv" using iv by (intro zdiv_mono1) auto
    then have "(w - ?b) div ?iv \<le> 0" using iv by (simp add: div_pos_pos_trivial)
    then show ?thesis using True first pl by (simp add: GetSlotAtTime_def)
  next
    case False
    have dv: "(w - (?b + ?iv)) div ?iv + 1 = (w - ?b) div ?iv" using iv div_add_self2 [of ?iv "w - (?b + ?iv)"] by simp
    have "(w - ?b) div ?iv \<le> w - ?b" using iv False zdiv_mono2 [of "w - ?b" 1 ?iv] by simp
    then have r: "0 \<le> (w - ?b) div ?iv" "(w - ?b) div ?iv < 2 ^ 32" using base(1) assms(3) False iv
      by (simp_all add: pos_imp_zdiv_nonneg_iff)
    have "word_of_int ((w - (?b + ?iv)) div ?iv) + 1 = (word_of_int ((w - ?b) div ?iv) :: 32 word)"
      unfolding dv [symmetric] by simp
    moreover have "w - (?b + ?iv) < 2 ^ 32" using base(1) iv(1) assms(3) by linarith
    then have "int64 (w - (?b + ?iv)) = w - (?b + ?iv)" using False by (intro int64_nonneg) simp_all
    ultimately show ?thesis using False first pl iv r
      by (simp add: GetSlotAtTime_def Let_def sdiv_nonneg take_bit_int_eq_self uint_word_of_int_eq)
  qed
qed

lemma le_div_iff: "0 < b \<Longrightarrow> k \<le> a div b \<longleftrightarrow> k * b \<le> a" for a b k :: int
proof
  assume b: "0 < b" and "k \<le> a div b"
  then have "k * b \<le> a div b * b" by (simp add: mult_right_mono)
  also have "\<dots> \<le> a" using b minus_mod_eq_div_mult [of a b] pos_mod_sign [of b a] by linarith
  finally show "k * b \<le> a" .
next
  assume b: "0 < b" and "k * b \<le> a"
  then have "k * b div b \<le> a div b" by (intro zdiv_mono1)
  then show "k \<le> a div b" using b by simp
qed

section \<open>Properties\<close>

text \<open>C16. The slot of a time, for a head unit and a time in the range of 32 bit seconds, is the
  greatest \<open>N\<close> whose slot has begun: slot \<open>k\<close> is at or before the time exactly when \<open>k\<close> is at most
  \<open>N\<close>, and there is a slot only for times after the head unit.\<close>

theorem GetSlotAtTime_greatest:
  assumes "inEra gp dgp" and "0 \<le> w" and "w < 2 ^ 32"
  shows "\<exists>n. GetSlotAtTime gp dgp (Unix w) = Inr n \<and> (n \<noteq> 0 \<longrightarrow> HeadUnitTime dgp < w) \<and>
    (\<forall>k. k \<noteq> 0 \<longrightarrow> uint k * intervalOf gp < 2 ^ 33 \<longrightarrow>
      (\<exists>s. GetSlotTime gp dgp k = Inr s \<and> (\<not> Before (Unix w) s \<longleftrightarrow> k \<le> n)))"
proof -
  let ?iv = "intervalOf gp" and ?b = "slotBase gp dgp"
  have iv: "0 < ?iv" using assms(1) by (simp add: inEra_def)
  note base = slotBase_range [OF assms(1)]
  obtain n where n: "GetSlotAtTime gp dgp (Unix w) = Inr n" "uint n = max 0 ((w - ?b) div ?iv)"
    using GetSlotAtTime_eq [OF assms] by blast
  have "HeadUnitTime dgp < w" if "n \<noteq> 0"
  proof -
    have "uint n \<noteq> 0" using that by (simp add: word_uint_eq_iff)
    then have "1 \<le> (w - ?b) div ?iv" using n(2) by (simp add: max_def split: if_splits)
    then have "?iv \<le> w - ?b" unfolding le_div_iff [OF iv] by simp
    then show ?thesis using base(3) by linarith
  qed
  moreover have "\<exists>s. GetSlotTime gp dgp k = Inr s \<and> (\<not> Before (Unix w) s \<longleftrightarrow> k \<le> n)"
    if k: "k \<noteq> 0" "uint k * ?iv < 2 ^ 33" for k
  proof -
    have pk: "0 < uint k" using k(1) by (simp add: word_neq_0_conv word_less_def)
    define x where "x = uint k * ?iv"
    have x: "0 \<le> x" "x < 2 ^ 33" using k(2) iv by (simp_all add: x_def)
    have "plain w" "plain (?b + x)" using assms(2,3) base x by (auto simp: plain_def)
    then have "\<not> Before (Unix w) (Unix (?b + x)) \<longleftrightarrow> x \<le> w - ?b" by auto
    also have "\<dots> \<longleftrightarrow> uint k \<le> (w - ?b) div ?iv" unfolding x_def le_div_iff [OF iv] ..
    also have "\<dots> \<longleftrightarrow> k \<le> n" using pk n(2) by (auto simp: word_le_def)
    finally show ?thesis using GetSlotTime_eq [OF assms(1) k] by (simp add: x_def)
  qed
  ultimately show ?thesis using n(1) by blast
qed

theorem GetSlotAtTime_greatest_witness:
  "let gp = NewGlobalProp (); dgp = NewDynGlobalProp\<lparr>HeadUnitTime := 1540000001, HeadUnitNum := 7\<rparr> in
   \<exists>n. GetSlotAtTime gp dgp (Unix 1540000005) = Inr n \<and>
     (\<exists>s. GetSlotTime gp dgp 2 = Inr s \<and> (\<not> Before (Unix 1540000005) s \<longleftrightarrow> 2 \<le> n)) \<and>
     (\<exists>s. GetSlotTime gp dgp 3 = Inr s \<and> (\<not> Before (Unix 1540000005) s \<longleftrightarrow> 3 \<le> n))"
proof -
  let ?gp = "NewGlobalProp ()" and ?dgp = "NewDynGlobalProp\<lparr>HeadUnitTime := 1540000001, HeadUnitNum := 7\<rparr>"
  have "inEra ?gp ?dgp" "intervalOf ?gp = 2" by (simp_all add: inEra_def NewGlobalProp_def NewChainParams_def)
  then show ?thesis using GetSlotAtTime_greatest [of ?gp ?dgp 1540000005] by fastforce
qed

end
