(* ===== verification/RlpStream.thy ===== *)
theory RlpStream
  imports RlpDecode
begin

text \<open>
  Following a stream over input that is known to start with an encoding: how far each
  operation advances, inside and outside of lists, what it returns, and what becomes of the
  bytes of a signed integer.
\<close>

section \<open>Advancing a stream\<close>

fun bump :: "nat \<Rightarrow> listpos list \<Rightarrow> listpos list" where
  "bump n [] = []"
| "bump n (t # ts) = t\<lparr>lpos := lpos t + word_of_nat n\<rparr> # ts"

text \<open>\<open>adv n s s'\<close>: the stream has read \<open>n\<close> bytes and holds no header.\<close>

definition adv :: "nat \<Rightarrow> Stream \<Rightarrow> Stream \<Rightarrow> bool" where
  "adv n s s' \<longleftrightarrow> skind s' = None \<and> input s' = drop n (input s) \<and> limited s' = limited s \<and>
    remaining s' = (if limited s then remaining s - word_of_nat n else remaining s) \<and> stack s' = bump n (stack s)"

text \<open>\<open>room n s\<close>: \<open>n\<close> bytes can be read, within the input, its limit and the innermost list.\<close>

definition room :: "nat \<Rightarrow> Stream \<Rightarrow> bool" where
  "room n s \<longleftrightarrow> n \<le> length (input s) \<and> (limited s \<longrightarrow> n \<le> unat (remaining s)) \<and>
    (case stack s of [] \<Rightarrow> True | t # _ \<Rightarrow> unat (lpos t) + n \<le> unat (lsize t)) \<and> n < 2 ^ 63"

lemma bump_0 [simp]: "bump 0 ts = ts"
  by (cases ts) auto

lemma bump_bump [simp]: "bump b (bump a ts) = bump (a + b) ts"
  by (cases ts) (auto simp: add.assoc)

lemma adv_trans: "adv a s s1 \<Longrightarrow> adv b s1 s2 \<Longrightarrow> adv (a + b) s s2"
  by (auto simp: adv_def add.commute diff_diff_eq)

lemma unat_add_room: "unat a + n \<le> unat b \<Longrightarrow> unat (a + word_of_nat n) = unat a + n" for a b :: uint64
proof -
  assume "unat a + n \<le> unat b"
  moreover from this have "n < 2 ^ 64" using unat_less64 [of b] by simp
  then have "unat (word_of_nat n :: uint64) = n" by (simp add: unat_of_nat)
  ultimately show ?thesis using unat_less64 [of b] by (subst unat_add_lem [THEN iffD1]) simp_all
qed

lemma unat_sub_room: "n \<le> unat a \<Longrightarrow> unat (a - word_of_nat n) = unat a - n" for a :: uint64
proof -
  assume "n \<le> unat a"
  moreover from this have "n < 2 ^ 64" using unat_less64 [of a] by simp
  then have "unat (word_of_nat n :: uint64) = n" by (simp add: unat_of_nat)
  ultimately show ?thesis by (subst unat_sub) (simp_all add: word_le_nat_alt)
qed

lemma room_pos: "unat p + (a + b) \<le> unat z \<Longrightarrow> unat (p + word_of_nat a) + b \<le> unat z" for p z :: uint64
  using unat_add_room [of p a z] by simp

lemma room_adv: "room (a + b) s \<Longrightarrow> adv a s s1 \<Longrightarrow> room b s1"
  by (auto simp: room_def adv_def unat_sub_room room_pos split: list.splits)

lemma room_mono: "room b s \<Longrightarrow> a \<le> b \<Longrightarrow> room a s"
  by (auto simp: room_def split: list.splits)

definition taken :: "uint64 \<Rightarrow> Stream \<Rightarrow> Stream" where
  "taken n s = s\<lparr>skind := None, stack := bump (unat n) (stack s),
    remaining := (if limited s then remaining s - n else remaining s)\<rparr>"

lemma willRead_ok: "room (unat n) s \<Longrightarrow> willRead n s = (Inr (), taken n s)"
proof (cases "stack s")
  case Nil
  assume "room (unat n) s"
  then have "limited s \<longrightarrow> \<not> n > remaining s" by (auto simp: room_def word_less_nat_alt)
  with Nil show ?thesis by (simp add: willRead_def taken_def Let_def)
next
  case (Cons t ts)
  assume r: "room (unat n) s"
  then have "unat (lpos t) + unat n \<le> unat (lsize t)" using Cons by (simp add: room_def)
  moreover from this have "unat (lsize t - lpos t) = unat (lsize t) - unat (lpos t)"
    by (subst unat_sub) (simp_all add: word_le_nat_alt)
  ultimately have "\<not> n > lsize t - lpos t" by (simp add: word_less_nat_alt)
  moreover have "limited s \<longrightarrow> \<not> n > remaining s" using r by (auto simp: room_def word_less_nat_alt)
  ultimately show ?thesis using Cons by (simp add: willRead_def taken_def Let_def)
qed

lemma readByte_ok:
  assumes "room 1 s" and "input s = b # rest"
  obtains s' where "readByte s = (Inr b, s')" "adv 1 s s'" "byteval s' = byteval s"
  by (rule that [of "(taken 1 s)\<lparr>input := rest\<rparr>"])
    (use assms willRead_ok [of 1 s] in \<open>simp_all add: readByte_def adv_def taken_def\<close>)

lemma readFull_ok:
  assumes "room (unat n) s"
  obtains s' where "readFull n s = (Inr (take (unat n) (input s)), s')" "adv (unat n) s s'"
  by (rule that [of "(taken n s)\<lparr>input := drop (unat n) (input s)\<rparr>"])
    (use assms willRead_ok [of n s] in \<open>simp_all add: readFull_def adv_def taken_def Let_def room_def\<close>)

lemma readUint_bytes:
  assumes "input s = b @ rest" and "1 \<le> length b" and "length b \<le> 8" and "room (length b) s"
  obtains s' where "readUint (word_of_nat (length b)) s =
    (if 2 \<le> length b \<and> hd b = 0 then Inl ErrCanonSize else Inr (word_of_nat (beVal b)), s')"
    "adv (length b) s s'" "byteval s' = byteval s"
proof -
  let ?n = "word_of_nat (length b) :: byte"
  have u: "unat ?n = length b" using assms(3) by (simp add: unat_of_nat)
  show thesis
  proof (cases "length b = 1")
    case True
    then obtain x where x: "b = [x]" by (cases b) auto
    obtain s' where "readByte s = (Inr x, s')" "adv 1 s s'" "byteval s' = byteval s"
      using readByte_ok [of s x rest] assms(1,4) x by auto
    then show thesis using that x by (simp add: readUint_def)
  next
    case False
    have n: "?n \<noteq> 0" "?n \<noteq> 1" "\<not> ?n > 8" using u assms(2,3) False by (auto simp: word_less_nat_alt)
    have un: "unat (ucast ?n :: uint64) = length b" using u by (simp add: byte_up)
    obtain s' where s': "readFull (ucast ?n) s = (Inr b, s')" "adv (length b) s s'"
      using readFull_ok [of "ucast ?n" s] assms(1,4) by (auto simp: un)
    have "beVal (replicate k 0 @ b) = beVal b" for k by (induction k) auto
    then have v: "unat (shiftOr (replicate (8 - length b) 0 @ b)) = beVal b"
      using assms(3) by (subst unat_shiftOr) simp_all
    have v: "shiftOr (replicate (8 - length b) 0 @ b) = word_of_nat (beVal b)"
      unfolding v [symmetric] by simp
    have "byteval s' = byteval s"
      using s'(1) willRead_ok [of "ucast ?n" s] assms(4) un by (auto simp: readFull_def taken_def Let_def split: if_splits)
    then show thesis using that [of s'] n s' u v False assms(2) by (auto simp: readUint_def)
  qed
qed

lemma readUint_ok:
  assumes "v \<noteq> 0" and "input s = putint v @ rest" and "room (intsize v) s"
  obtains s' where "readUint (word_of_nat (intsize v)) s = (Inr v, s')" "adv (intsize v) s s'" "byteval s' = byteval s"
proof -
  have "hd (putint v) \<noteq> 0" using putint_Cons [OF assms(1)] by auto
  then show thesis
    using readUint_bytes [OF assms(2)] intsize_bounds(1,2) [of v] assms(3) that by auto
qed

section \<open>Headers\<close>

text \<open>What the stream knows of the value ahead after its header was read.\<close>

definition headed :: "Kind \<Rightarrow> uint64 \<Rightarrow> nat \<Rightarrow> Stream \<Rightarrow> Stream \<Rightarrow> bool" where
  "headed k n h s s' \<longleftrightarrow> skind s' = Some k \<and> ssize s' = n \<and> kinderr s' = None \<and> adv h s (s'\<lparr>skind := None\<rparr>)"

lemma adv_byteval [simp]: "adv n s (s'\<lparr>byteval := b\<rparr>) = adv n s s'" "adv n (s\<lparr>kinderr := e\<rparr>) s' = adv n s s'"
  "room n (s\<lparr>byteval := b\<rparr>) = room n s" "room n (s\<lparr>kinderr := e\<rparr>) = room n s"
  by (simp_all add: adv_def room_def)

lemma readKind_head:
  assumes "input s = tag k n @ rest" and "k \<noteq> Byte" and "room (length (tag k n)) s"
  obtains s' where "readKind s = ((k, n, None), s')" "adv (length (tag k n)) s s'"
proof (cases "n < 56")
  case True
  show thesis
  proof (cases k)
    case String
    then obtain b where b: "tag k n = [b]" "128 \<le> unat b" "unat b < 184" "ucast (b - 0x80) = n"
      using small_head [OF True, of "0x80" "0xB7"] by auto
    obtain s' where "readByte s = (Inr b, s')" "adv 1 s s'" using readByte_ok [of s b rest] assms b(1) by auto
    then show thesis using that [of "s'\<lparr>byteval := 0\<rparr>"] b String True by (simp add: readKind_def Let_def byte_less headsize_def)
  next
    case List
    then obtain b where b: "tag k n = [b]" "192 \<le> unat b" "unat b < 248" "ucast (b - 0xC0) = n"
      using small_head [OF True, of "0xC0" "0xF7"] by auto
    obtain s' where "readByte s = (Inr b, s')" "adv 1 s s'" using readByte_ok [of s b rest] assms b(1) by auto
    then show thesis using that [of "s'\<lparr>byteval := 0\<rparr>"] b List True by (simp add: readKind_def Let_def byte_less headsize_def)
  qed (use assms(2) in simp)
next
  case False
  then have n: "56 \<le> n" "n \<noteq> 0" by (auto simp: not_less)
  have hs: "length (tag k n) = 1 + intsize n" using assms(2) False by (cases k) (simp_all add: headsize_def)
  have long: "\<exists>s'. longSize k (word_of_nat (intsize n)) (s1\<lparr>byteval := 0\<rparr>) = ((k, n, None), s') \<and> adv (length (tag k n)) s s'"
    if b: "tag k n = b # putint n" and s1: "adv 1 s s1" for b s1
  proof -
    have "room (1 + intsize n) s" using assms(3) hs by simp
    then have "room (intsize n) (s1\<lparr>byteval := 0\<rparr>)" using room_adv [OF _ s1] by simp
    moreover have "input (s1\<lparr>byteval := 0\<rparr>) = putint n @ rest" using s1 assms(1) b by (simp add: adv_def)
    ultimately obtain s2 where s2: "readUint (word_of_nat (intsize n)) (s1\<lparr>byteval := 0\<rparr>) = (Inr n, s2)"
      "adv (intsize n) (s1\<lparr>byteval := 0\<rparr>) s2" using readUint_ok [OF n(2)] by metis
    have "adv 1 s (s1\<lparr>byteval := 0\<rparr>)" using s1 by simp
    then have "adv (length (tag k n)) s s2" using adv_trans s2(2) unfolding hs by blast
    then show ?thesis using s2(1) False by (simp add: longSize_def)
  qed
  show thesis
  proof (cases k)
    case String
    then obtain b where b: "tag k n = b # putint n" "183 < unat b" "unat b < 192" "b - 0xB7 = word_of_nat (intsize n)"
      using n(1) by (auto elim!: large_head [of n "0xB7" "0x80"])
    obtain s1 where s1: "readByte s = (Inr b, s1)" "adv 1 s s1"
      using readByte_ok [of s b "putint n @ rest"] assms(1) room_mono [OF assms(3), of 1] b(1) by auto
    then have "readKind s = longSize k (word_of_nat (intsize n)) (s1\<lparr>byteval := 0\<rparr>)"
      using b String by (simp add: readKind_def Let_def byte_less)
    then show thesis using that long [OF b(1) s1(2)] by metis
  next
    case List
    then obtain b where b: "tag k n = b # putint n" "247 < unat b" "b - 0xF7 = word_of_nat (intsize n)"
      using n(1) by (auto elim!: large_head [of n "0xF7" "0xC0"])
    obtain s1 where s1: "readByte s = (Inr b, s1)" "adv 1 s s1"
      using readByte_ok [of s b "putint n @ rest"] assms(1) room_mono [OF assms(3), of 1] b(1) by auto
    then have "readKind s = longSize k (word_of_nat (intsize n)) (s1\<lparr>byteval := 0\<rparr>)"
      using b List by (simp add: readKind_def Let_def byte_less)
    then show thesis using that long [OF b(1) s1(2)] by metis
  qed (use assms(2) in simp)
qed

lemma at_end_room: "room (Suc n) s \<Longrightarrow> stack s = t # ts \<Longrightarrow> lpos t \<noteq> lsize t"
  by (auto simp: room_def)

lemma size_fits: "unat p + n \<le> unat z \<Longrightarrow> \<not> word_of_nat n > z - p" for p z :: uint64
proof -
  assume le: "unat p + n \<le> unat z"
  then have "unat (word_of_nat n :: uint64) = n" using unat_less64 [of z] by (simp add: unat_of_nat)
  moreover have "unat (z - p) = unat z - unat p" using le by (subst unat_sub) (simp_all add: word_le_nat_alt)
  ultimately show ?thesis using le by (simp add: word_less_nat_alt)
qed

lemma kind_head:
  assumes "skind s = None" and "input s = tag k (word_of_nat (length c)) @ c @ rest" and "k \<noteq> Byte"
    and "room (length (tag k (word_of_nat (length c)) @ c)) s"
  obtains s' where "streamKind s = (Inr (k, word_of_nat (length c)), s')"
    "headed k (word_of_nat (length c)) (length (tag k (word_of_nat (length c)))) s s'"
proof -
  let ?n = "word_of_nat (length c) :: uint64" and ?s = "s\<lparr>kinderr := None\<rparr>"
  have r: "room (length (tag k ?n) + length c) ?s" using assms(4) by simp
  then have "room (length (tag k ?n)) ?s" by (rule room_mono) simp
  moreover have "input ?s = tag k ?n @ c @ rest" using assms(2) by simp
  ultimately obtain s1 where s1: "readKind ?s = ((k, ?n, None), s1)" "adv (length (tag k ?n)) ?s s1"
    using readKind_head [of ?s k ?n "c @ rest"] assms(3) by metis
  have c: "room (length c) s1" by (rule room_adv [OF r s1(2)])
  let ?s' = "s1\<lparr>skind := Some k, ssize := ?n, kinderr := None\<rparr>"
  have hs: "length (tag k ?n) = Suc (headsize ?n - 1)" using assms(3) headsize_le(1) [of ?n] by (cases k) simp_all
  have "\<not> (case stack s of [] \<Rightarrow> False | tos # _ \<Rightarrow> lpos tos = lsize tos)"
    using at_end_room [of "headsize ?n - 1 + length c" s] r hs by (auto split: list.splits)
  moreover have "\<not> (limited s1 \<and> ?n > remaining s1)"
    using c size_fits [of 0 "length c" "remaining s1"] by (auto simp: room_def)
  moreover have "\<not> ?n > lsize tos - lpos tos" if "stack s1 = tos # ts" for tos ts
    using c that size_fits by (simp add: room_def)
  ultimately have "streamKind s = kindOf ?s'"
    using assms(1) s1(1) by (auto simp: streamKind_def Let_def split: list.split)
  then show thesis using that [of ?s'] s1(2) by (simp add: kindOf_def headed_def adv_def)
qed

lemma kind_byte:
  assumes "skind s = None" and "input s = x # rest" and "x < 0x80" and "room 1 s"
  obtains s' where "streamKind s = (Inr (Byte, 0), s')" "headed Byte 0 1 s s'" "byteval s' = x"
proof -
  let ?s = "s\<lparr>kinderr := None\<rparr>"
  obtain s1 where s1: "readByte ?s = (Inr x, s1)" "adv 1 ?s s1"
    using readByte_ok [of ?s x rest] assms by auto
  let ?s' = "s1\<lparr>byteval := x, skind := Some Byte, ssize := 0, kinderr := None\<rparr>"
  have "readKind ?s = ((Byte, 0, None), s1\<lparr>byteval := x\<rparr>)" using s1(1) assms(3) by (simp add: readKind_def Let_def)
  moreover have "\<not> (case stack s of [] \<Rightarrow> False | tos # _ \<Rightarrow> lpos tos = lsize tos)"
    using at_end_room [of 0 s] assms(4) by (auto split: list.splits)
  ultimately have "streamKind s = kindOf ?s'"
    using assms(1) by (auto simp: streamKind_def Let_def split: list.split)
  then show thesis using that [of ?s'] s1(2) by (simp add: kindOf_def headed_def adv_def)
qed

text \<open>A header that was read is remembered.\<close>

lemma kind_again: "streamKind s = (Inr x, s') \<Longrightarrow> streamKind s' = (Inr x, s')"
  by (auto simp: streamKind_def kindOf_def Let_def split: if_splits option.splits prod.splits)

section \<open>Values\<close>

lemma adv_skind [simp]: "adv n (s\<lparr>skind := k\<rparr>) s' = adv n s s'" "room n (s\<lparr>skind := k\<rparr>) = room n s"
  by (simp_all add: adv_def room_def)

lemma headed_adv: "headed k n h s s' \<Longrightarrow> adv m s' s'' \<Longrightarrow> adv (h + m) s s''"
  using adv_trans [of h s "s'\<lparr>skind := None\<rparr>" m s''] by (simp add: headed_def)

lemma headed_room: "headed k n h s s' \<Longrightarrow> room (h + m) s \<Longrightarrow> room m s'"
  using room_adv [of h m s "s'\<lparr>skind := None\<rparr>"] by (simp add: headed_def)

lemma headed_input: "headed k n h s s' \<Longrightarrow> input s' = drop h (input s)"
  by (simp add: headed_def adv_def)

lemma headed_done: "headed k n h s s' \<Longrightarrow> adv h s (s'\<lparr>skind := None\<rparr>)"
  by (simp add: headed_def)

text \<open>The content behind a header.\<close>

lemma content_ok:
  assumes "input s = tag k (word_of_nat (length c)) @ c @ rest" and "room (length (tag k (word_of_nat (length c)) @ c)) s"
    and "headed k (word_of_nat (length c)) (length (tag k (word_of_nat (length c)))) s s'"
  obtains s'' where "readFull (word_of_nat (length c)) s' = (Inr c, s'')"
    "adv (length (tag k (word_of_nat (length c)) @ c)) s s''"
proof -
  let ?n = "word_of_nat (length c) :: uint64"
  have "length c < 2 ^ 63" using assms(2) by (simp add: room_def)
  then have u: "unat ?n = length c" by (rule unat_length)
  have "room (length c) s'" using headed_room [OF assms(3), of "length c"] assms(2) by simp
  then obtain s'' where "readFull ?n s' = (Inr (take (length c) (input s')), s'')" "adv (length c) s' s''"
    using readFull_ok [of ?n s'] unfolding u by metis
  then show thesis using that [of s''] headed_adv [OF assms(3)] headed_input [OF assms(3)] assms(1) by simp
qed

lemma encStr_frame: "encStr b = b \<and> (\<exists>x. b = [x] \<and> x < 0x80) \<or> encStr b = tag String (word_of_nat (length b)) @ b \<and> \<not> (length b = 1 \<and> hd b < 0x80)"
proof -
  have "x \<le> 0x7F \<longleftrightarrow> x < (0x80 :: byte)" for x by (simp add: word_le_nat_alt word_less_nat_alt less_Suc_eq_le [symmetric])
  then show ?thesis by (cases b) (auto simp: encStr_def)
qed

lemma streamBytes_ok:
  assumes "skind s = None" and "input s = encStr b @ rest" and "room (length (encStr b)) s"
  obtains s' where "streamBytes s = (Inr b, s')" "adv (length (encStr b)) s s'"
proof (cases "encStr b = b \<and> (\<exists>x. b = [x] \<and> x < 0x80)")
  case True
  then obtain x where x: "b = [x]" "x < 0x80" "encStr b = [x]" by auto
  obtain s' where "streamKind s = (Inr (Byte, 0), s')" "headed Byte 0 1 s s'" "byteval s' = x"
    using kind_byte [of s x rest] assms x by auto
  then show thesis using that [of "s'\<lparr>skind := None\<rparr>"] headed_done x by (simp add: streamBytes_def)
next
  case False
  let ?n = "word_of_nat (length b) :: uint64"
  have b: "encStr b = tag String ?n @ b" "\<not> (length b = 1 \<and> hd b < 0x80)" using encStr_frame [of b] False by blast+
  have i: "input s = tag String ?n @ b @ rest" using assms(2) b(1) by simp
  have r: "room (length (tag String ?n @ b)) s" using assms(3) b(1) by simp
  obtain s1 where s1: "streamKind s = (Inr (String, ?n), s1)" "headed String ?n (length (tag String ?n)) s s1"
    using kind_head [OF assms(1) i _ r] by blast
  obtain s2 where s2: "readFull ?n s1 = (Inr b, s2)" "adv (length (tag String ?n @ b)) s s2"
    using content_ok [OF i r s1(2)] .
  have "length b < 2 ^ 63" using r by (simp add: room_def)
  then have "?n = 1 \<longleftrightarrow> length b = 1" using unat_length one_iff by metis
  then show thesis using that [of s2] s1(1) s2 b by (simp add: streamBytes_def)
qed

lemma Raw_ok:
  assumes "skind s = None" and "input s = frame k c @ rest" and "frameOk k c" and "room (length (frame k c)) s"
  obtains s' where "Raw s = (Inr (frame k c), s')" "adv (length (frame k c)) s s'"
proof (cases "k = Byte")
  case True
  then obtain x where x: "c = [x]" "x < 0x80" "frame k c = [x]" using assms(3) by (cases c) (auto simp: frame_def)
  obtain s' where "streamKind s = (Inr (Byte, 0), s')" "headed Byte 0 1 s s'" "byteval s' = x"
    using kind_byte [of s x rest] assms x by auto
  then show thesis using that [of "s'\<lparr>skind := None\<rparr>"] headed_done x by (simp add: Raw_def)
next
  case False
  let ?n = "word_of_nat (length c) :: uint64"
  have i: "input s = tag k ?n @ c @ rest" using assms(2) by (simp add: frame_def)
  have r: "room (length (tag k ?n @ c)) s" using assms(4) by (simp add: frame_def)
  obtain s1 where s1: "streamKind s = (Inr (k, ?n), s1)" "headed k ?n (length (tag k ?n)) s s1"
    using kind_head [OF assms(1) i False r] .
  obtain s2 where s2: "readFull ?n s1 = (Inr c, s2)" "adv (length (tag k ?n @ c)) s s2"
    using content_ok [OF i r s1(2)] .
  show thesis using that [of s2] s1(1) s2 False by (cases k) (simp_all add: Raw_def frame_def)
qed

lemma uint_fits:
  assumes "unat i < 2 ^ maxbits" and "8 dvd maxbits" and "0 < maxbits" and "maxbits \<le> 64" and "i \<noteq> 0"
  shows "\<not> word_of_nat (intsize i) > (word_of_nat (maxbits div 8) :: uint64)"
proof -
  obtain k where k: "maxbits = 8 * k" using assms(2) by (rule dvdE)
  have "unat i < 256 ^ k" using assms(1) by (simp add: k power_mult)
  with intsize_bounds(4) [OF assms(5)] have "(256 :: nat) ^ (intsize i - 1) < 256 ^ k" by (rule le_less_trans)
  then have "intsize i - 1 < k" by (metis nat_power_less_imp_less zero_less_numeral)
  then have "intsize i \<le> k" by simp
  then show ?thesis using assms(4) k intsize_bounds(2) [of i] by (simp add: word_less_nat_alt unat_of_nat)
qed

lemma uint_big: "i < 128 \<Longrightarrow> length (putint i) = 1 \<and> hd (putint i) < 0x80"
proof -
  assume "i < 128"
  then have i: "unat i < 128" by (simp add: word_less_nat_alt)
  then have "intsize i = Suc 0" using intsize_eq [of i 0] by simp
  then obtain x where x: "putint i = [x]" using length_putint [of i] by (cases "putint i") auto
  then have "unat x = unat i" using beVal_putint [of i] by simp
  then show ?thesis using x i by (simp add: word_less_nat_alt)
qed

lemma streamUint_ok:
  assumes "skind s = None" and "input s = encUint i @ rest" and "room (length (encUint i)) s"
    and "unat i < 2 ^ maxbits" and "8 dvd maxbits" and "0 < maxbits" and "maxbits \<le> 64"
  obtains s' where "streamUint maxbits s = (Inr i, s')" "adv (length (encUint i)) s s'"
proof (cases "i = 0")
  case True
  have e: "encUint i = tag String (word_of_nat (length ([] :: bytes))) @ []" using True by (simp add: encUint_def encStr_def)
  obtain s1 where s1: "streamKind s = (Inr (String, 0), s1)" "headed String 0 (length (encUint i)) s s1"
    using kind_head [of s String "[]" rest] assms(1-3) e by auto
  have "\<not> (0 :: uint64) > word_of_nat (maxbits div 8)" by simp
  then show thesis using that [of "s1\<lparr>skind := None\<rparr>"] s1 headed_done [OF s1(2)] True
    by (simp add: streamUint_def readUint_def)
next
  case False
  have e: "encUint i = encStr (putint i)" using False by (simp add: encUint_def)
  show thesis
  proof (cases "encStr (putint i) = putint i \<and> (\<exists>x. putint i = [x] \<and> x < 0x80)")
    case True
    then obtain x where x: "putint i = [x]" "x < 0x80" "encUint i = [x]" using e by auto
    then have "unat x = unat i" using beVal_putint [of i] by simp
    then have v: "ucast x = i" "x \<noteq> 0" using False by (auto intro!: unsigned_word_eqI [where 'a = nat] simp: byte_up)
    obtain s' where "streamKind s = (Inr (Byte, 0), s')" "headed Byte 0 1 s s'" "byteval s' = x"
      using kind_byte [of s x rest] assms x by auto
    then show thesis using that [of "s'\<lparr>skind := None\<rparr>"] headed_done x v by (simp add: streamUint_def)
  next
    case sf: False
    let ?n = "word_of_nat (length (putint i)) :: uint64"
    have b: "encUint i = tag String ?n @ putint i" "\<not> (length (putint i) = 1 \<and> hd (putint i) < 0x80)"
      using encStr_frame [of "putint i"] sf e by metis+
    have ii: "input s = tag String ?n @ putint i @ rest" using assms(2) b(1) by simp
    have r: "room (length (tag String ?n @ putint i)) s" using assms(3) b(1) by simp
    obtain s1 where s1: "streamKind s = (Inr (String, ?n), s1)" "headed String ?n (length (tag String ?n)) s s1"
      using kind_head [OF assms(1) ii _ r] by blast
    have "room (intsize i) s1" using headed_room [OF s1(2), of "intsize i"] r by simp
    moreover have "input s1 = putint i @ rest" using headed_input [OF s1(2)] ii by simp
    ultimately obtain s2 where s2: "readUint (word_of_nat (intsize i)) s1 = (Inr i, s2)" "adv (intsize i) s1 s2"
      using readUint_ok [OF False] by metis
    have fit: "\<not> ?n > word_of_nat (maxbits div 8)" using uint_fits [OF assms(4-7) False] by simp
    have big: "\<not> i < 128" using uint_big b(2) by blast
    have "ucast ?n = (word_of_nat (intsize i) :: byte)" by (simp add: byte_of_nat)
    then show thesis using that [of s2] s1(1) s2 fit big headed_adv [OF s1(2) s2(2)] b(1)
      by (simp add: streamUint_def)
  qed
qed

lemma streamBool_ok:
  assumes "skind s = None" and "input s = encUint (if x then 1 else 0) @ rest"
    and "room (length (encUint (if x then 1 else 0))) s"
  obtains s' where "streamBool s = (Inr x, s')" "adv (length (encUint (if x then 1 else 0))) s s'"
proof -
  have u: "unat (if x then 1 else 0 :: uint64) < 2 ^ 8" by simp
  obtain s' where "streamUint 8 s = (Inr (if x then 1 else 0), s')" "adv (length (encUint (if x then 1 else 0))) s s'"
    using streamUint_ok [OF assms(1-3) u] by auto
  then show thesis using that [of s'] by (simp add: streamBool_def)
qed

section \<open>Lists\<close>

text \<open>\<open>inside n s s'\<close>: the list ahead of \<open>s\<close> was entered, its \<open>n\<close> bytes are ahead.\<close>

definition inside :: "nat \<Rightarrow> nat \<Rightarrow> Stream \<Rightarrow> Stream \<Rightarrow> bool" where
  "inside h n s s' \<longleftrightarrow> skind s' = None \<and> stack s' = \<lparr>lpos = 0, lsize = word_of_nat n\<rparr> # bump h (stack s) \<and>
    input s' = drop h (input s) \<and> limited s' = limited s \<and>
    remaining s' = (if limited s then remaining s - word_of_nat h else remaining s)"

lemma streamList_ok:
  assumes "skind s = None" and "input s = encLst b @ rest" and "room (length (encLst b)) s"
  obtains s' where "streamList s = (Inr (word_of_nat (length b)), s')" "inside (headsize (word_of_nat (length b))) (length b) s s'"
    "room (length b) s'" "input s' = b @ rest"
proof -
  let ?n = "word_of_nat (length b) :: uint64"
  have e: "encLst b = tag List ?n @ b" by (simp add: encLst_def)
  have i: "input s = tag List ?n @ b @ rest" and r: "room (length (tag List ?n @ b)) s" using assms(2,3) e by simp_all
  obtain s1 where s1: "streamKind s = (Inr (List, ?n), s1)" "headed List ?n (length (tag List ?n)) s s1"
    using kind_head [OF assms(1) i _ r] by blast
  let ?s = "s1\<lparr>stack := \<lparr>lpos = 0, lsize = ?n\<rparr> # stack s1, skind := None, ssize := 0\<rparr>"
  have u: "unat ?n = length b" using r by (intro unat_length) (simp add: room_def)
  have "room (length b) s1" using headed_room [OF s1(2), of "length b"] r by simp
  then have "room (length b) ?s" using u by (simp add: room_def)
  moreover have "streamList s = (Inr ?n, ?s)" using s1(1) by (simp add: streamList_def)
  moreover have "inside (headsize ?n) (length b) s ?s" using s1(2) by (simp add: inside_def headed_def adv_def)
  moreover have "input ?s = b @ rest" using headed_input [OF s1(2)] i by simp
  ultimately show thesis using that by blast
qed

lemma ListEnd_ok:
  assumes "inside h n s s1" and "adv n s1 s2" and "n < 2 ^ 63"
  obtains s' where "ListEnd s2 = (Inr (), s')" "adv (h + n) s s'"
proof -
  let ?s = "s2\<lparr>stack := bump (h + n) (stack s), skind := None, ssize := 0\<rparr>"
  have st: "stack s2 = \<lparr>lpos = word_of_nat n, lsize = word_of_nat n\<rparr> # bump h (stack s)"
    using assms(1,2) by (simp add: inside_def adv_def)
  have "ListEnd s2 = (Inr (), ?s)"
  proof (cases "stack s")
    case Nil
    then show ?thesis using st by (simp add: ListEnd_def)
  next
    case (Cons t ts)
    then show ?thesis using st by (simp add: ListEnd_def add.assoc)
  qed
  moreover have "adv (h + n) s ?s"
    using assms(1,2) by (auto simp: inside_def adv_def add.commute diff_diff_eq)
  ultimately show thesis using that by blast
qed

lemma wrapped_Inr [simp]: "wrapped (Inr a, s) = (Inr a, s)" "mapRes f (Inr a, s) = (Inr (f a), s)"
  by (simp_all add: wrapped_def mapRes_def)

lemma bindF_simps [simp]:
  "bindF None k = None" "bindF (Some (Inl e, s)) k = Some (Inl e, s)" "bindF (Some (Inr a, s)) k = k a s"
  by (simp_all add: bindF_def)

text \<open>At the end of a list every reader reports it.\<close>

definition atEnd :: "Stream \<Rightarrow> bool" where
  "atEnd s \<longleftrightarrow> skind s = None \<and> (\<exists>t ts. stack s = t # ts \<and> lpos t = lsize t)"

lemma kind_atEnd: "atEnd s \<Longrightarrow> streamKind s = (Inl EOL, s\<lparr>kinderr := None\<rparr>)"
  by (auto simp: atEnd_def streamKind_def)

lemma decoder_atEnd:
  "atEnd s \<Longrightarrow> genTypeInfo t \<Longrightarrow> 0 < fuel \<Longrightarrow> decoder fuel t noTags s = Some (Inl EOL, s\<lparr>kinderr := None\<rparr>)"
proof (induction t arbitrary: s)
  case TInterface
  then show ?case by (cases fuel) (simp_all add: kind_atEnd)
qed (simp_all add: kind_atEnd decodeRawValue_def Raw_def decodeBigInt_def decodeBigIntNoPtr_def bigBytes_def streamBytes_def
  decodeUint_def streamUint_def decodeBool_def streamBool_def decodeString_def decodeByteSlice_def decodeByteArray_def
  decodeListSlice_def decodeListArray_def streamList_def decodefloat64_def decodeInt_def streamInt_def
  wrapped_def mapRes_def wrapStreamError_def)

section \<open>Signed integers\<close>

abbreviation size2 :: "int \<Rightarrow> nat" where
  "size2 i \<equiv> length (putint2 i)"

lemma beVal_shifts: "beVal (map (\<lambda>j. shiftByte (8 * j) i) (rev [0..<k])) = nat (i mod 256 ^ k)"
proof (induction k)
  case (Suc k)
  have b: "unat (shiftByte (8 * k) i) = nat (i div 256 ^ k mod 256)"
    by (simp add: unat_eq_nat_uint uint_word_of_int drop_bit_eq_div power_mult)
  have "i mod 256 ^ Suc k = 256 ^ k * (i div 256 ^ k mod 256) + i mod 256 ^ k"
    by (metis mod_mult2_eq' power_Suc2 zero_le_numeral zero_le_power zmod_zmult2_eq)
  then have "nat (i mod 256 ^ Suc k) = nat (i div 256 ^ k mod 256) * 256 ^ k + nat (i mod 256 ^ k)"
    by (simp add: nat_add_distrib nat_mult_distrib nat_power_eq mult.commute)
  then show ?case using Suc b by simp
qed simp

lemma putint2_ranges:
  fixes i :: int
  assumes "- (2 ^ 63) \<le> i" and "i < 2 ^ 63"
  obtains "- 128 \<le> i" "i < 128"
    | "- 32768 \<le> i" "i < 32768" "i < - 128 \<or> 128 \<le> i"
    | "- 8388608 \<le> i" "i < 8388608" "i < - 32768 \<or> 32768 \<le> i"
    | "- 2147483648 \<le> i" "i < 2147483648" "i < - 8388608 \<or> 8388608 \<le> i"
    | "- 549755813888 \<le> i" "i < 549755813888" "i < - 2147483648 \<or> 2147483648 \<le> i"
    | "- 140737488355328 \<le> i" "i < 140737488355328" "i < - 549755813888 \<or> 549755813888 \<le> i"
    | "- 36028797018963968 \<le> i" "i < 36028797018963968" "i < - 140737488355328 \<or> 140737488355328 \<le> i"
    | "- 9223372036854775808 \<le> i" "i < 9223372036854775808" "i < - 36028797018963968 \<or> 36028797018963968 \<le> i"
proof -
  have "- 9223372036854775808 \<le> i" "i < 9223372036854775808" using assms by simp_all
  then show thesis using that by linarith
qed

definition sizeRange :: "nat \<Rightarrow> int \<Rightarrow> bool" where
  "sizeRange k i \<longleftrightarrow> 1 \<le> k \<and> k \<le> 8 \<and> putint2 i = map (\<lambda>j. shiftByte (8 * j) i) (rev [0..<k]) \<and>
    - (2 ^ (8 * k - 1)) \<le> i \<and> i < 2 ^ (8 * k - 1) \<and> (k = 1 \<or> i < - (2 ^ (8 * k - 9)) \<or> 2 ^ (8 * k - 9) \<le> i)"

lemma putint2_sizeRange:
  assumes "- (2 ^ 63) \<le> i" and "i < 2 ^ 63"
  shows "\<exists>k. sizeRange k i"
  using assms
proof (cases i rule: putint2_ranges)
  case 1
  then have "sizeRange 1 i" by (simp add: sizeRange_def putint2_def upt_rec)
  then show ?thesis ..
next
  case 2
  from this(3,1,2) have "sizeRange 2 i" by (elim disjE) (simp_all add: sizeRange_def putint2_def upt_rec)
  then show ?thesis ..
next
  case 3
  from this(3,1,2) have "sizeRange 3 i" by (elim disjE) (simp_all add: sizeRange_def putint2_def upt_rec)
  then show ?thesis ..
next
  case 4
  from this(3,1,2) have "sizeRange 4 i" by (elim disjE) (simp_all add: sizeRange_def putint2_def upt_rec)
  then show ?thesis ..
next
  case 5
  from this(3,1,2) have "sizeRange 5 i" by (elim disjE) (simp_all add: sizeRange_def putint2_def upt_rec)
  then show ?thesis ..
next
  case 6
  from this(3,1,2) have "sizeRange 6 i" by (elim disjE) (simp_all add: sizeRange_def putint2_def upt_rec)
  then show ?thesis ..
next
  case 7
  from this(3,1,2) have "sizeRange 7 i" by (elim disjE) (simp_all add: sizeRange_def putint2_def upt_rec)
  then show ?thesis ..
next
  case 8
  from this(3,1,2) have "sizeRange 8 i" by (elim disjE) (simp_all add: sizeRange_def putint2_def upt_rec)
  then show ?thesis ..
qed

lemma sizeRange_facts:
  assumes "sizeRange k i"
  shows "size2 i = k" and "beVal (putint2 i) = nat (i mod 256 ^ k)" and "putint2 i \<noteq> []"
    and "2 \<le> k \<Longrightarrow> hd (putint2 i) = 0 \<longleftrightarrow> i mod 256 ^ k < 256 ^ (k - 1)"
proof -
  have p: "putint2 i = map (\<lambda>j. shiftByte (8 * j) i) (rev [0..<k])" and k: "1 \<le> k" using assms by (auto simp: sizeRange_def)
  show l: "size2 i = k" unfolding p by simp
  show v: "beVal (putint2 i) = nat (i mod 256 ^ k)" unfolding p by (rule beVal_shifts)
  show n: "putint2 i \<noteq> []" using l k by auto
  then obtain x xs where x: "putint2 i = x # xs" by (cases "putint2 i") auto
  then have xs: "length xs = k - 1" using l by simp
  show "hd (putint2 i) = 0 \<longleftrightarrow> i mod 256 ^ k < 256 ^ (k - 1)" if "2 \<le> k"
  proof -
    have "x = 0 \<longleftrightarrow> beVal (x # xs) < 256 ^ length xs"
      using beVal_lead [of x xs] beVal_less [of xs] by (auto simp: not_less [symmetric])
    also have "\<dots> \<longleftrightarrow> nat (i mod 256 ^ k) < 256 ^ (k - 1)" using v x xs by simp
    also have "\<dots> \<longleftrightarrow> i mod 256 ^ k < 256 ^ (k - 1)" by (simp add: nat_less_iff)
    finally show ?thesis by (simp add: x)
  qed
qed

text \<open>The integers that survive: the negative ones must take one, two, four or eight bytes, the
  others must not start with a zero byte.\<close>

definition survives :: "int \<Rightarrow> bool" where
  "survives i \<longleftrightarrow> (if i < 0 then size2 i \<in> {1, 2, 4, 8} else size2 i = 1 \<or> 256 ^ (size2 i - 1) \<le> i)"

text \<open>What \<^term>\<open>streamInt\<close> makes of the bytes of an integer.\<close>

definition intRead :: "int \<Rightarrow> rerr + int" where
  "intRead i =
    (let k = size2 i; u = i mod 256 ^ k in
     if i = 0 then Inr 0
     else if 2 \<le> k \<and> u < 256 ^ (k - 1) then Inl ErrCanonInt
     else Inr (if k = 1 then signed_take_bit 7 u else if k = 2 then signed_take_bit 15 u
               else if k = 3 \<or> k = 4 then signed_take_bit 31 u else signed_take_bit 63 u))"

lemma signed_wrap:
  assumes "- (2 ^ n) \<le> i" and "i < (2 :: int) ^ n" and "m = 2 * 2 ^ n"
  shows "signed_take_bit n (i mod m) = i"
proof -
  have "signed_take_bit n (take_bit (Suc n) i) = signed_take_bit n i" by (rule signed_take_bit_take_bit [THEN trans]) simp
  then have "signed_take_bit n (i mod m) = signed_take_bit n i" by (simp add: take_bit_eq_mod assms(3))
  then show ?thesis using assms(1,2) by (simp add: signed_take_bit_int_eq_self)
qed

lemma intRead_survives:
  assumes "- (2 ^ 63) \<le> i" and "i < 2 ^ 63"
  shows "intRead i = Inr i \<longleftrightarrow> survives i"
proof -
  obtain k where k: "sizeRange k i" using putint2_sizeRange [OF assms] by blast
  note l = sizeRange_facts(1) [OF k]
  have r: "- (2 ^ (8 * k - 1)) \<le> i" "i < 2 ^ (8 * k - 1)" "1 \<le> k" "k \<le> 8"
    "k = 1 \<or> i < - (2 ^ (8 * k - 9)) \<or> 2 ^ (8 * k - 9) \<le> i" using k by (auto simp: sizeRange_def)
  obtain j where j: "k = Suc j" using r(3) by (cases k) auto
  have p: "(256 :: int) ^ k = 2 * 2 ^ (8 * k - 1)" "(2 :: int) ^ (8 * k - 1) = 128 * 256 ^ (k - 1)"
    by (simp_all add: j power_add power_mult)
  consider "k = 1" | "k = 2" | "k = 3" | "k = 4" | "k = 5" | "k = 6" | "k = 7" | "k = 8" using r(3,4) by linarith
  note kc = this
  show ?thesis
  proof (cases "i < 0")
    case True
    have "(i + 256 ^ k) mod 256 ^ k = i + 256 ^ k" using True r(1) p(1) by (intro mod_pos_pos_trivial) simp_all
    then have u: "i mod 256 ^ k = i + 256 ^ k" by simp
    have "0 < (256 :: int) ^ (k - 1)" by simp
    then have e: "\<not> i + 256 ^ k < 256 ^ (k - 1)" using r(1) p by linarith
    have w: "signed_take_bit (8 * k - 1) (i + 256 ^ k) = i" using signed_wrap [OF r(1,2) p(1)] u by simp
    have s: "signed_take_bit n (i + 256 ^ k) = i + 256 ^ k" if "(256 :: int) ^ k \<le> 2 ^ n" for n
    proof (rule signed_take_bit_int_eq_self)
      have "0 < (2 :: int) ^ n" by simp
      then show "- (2 ^ n) \<le> i + 256 ^ k" "i + 256 ^ k < 2 ^ n" using True r(1) p(1) that by linarith+
    qed
    show ?thesis using kc
      by cases (use True u e w s in \<open>auto simp: intRead_def survives_def l Let_def\<close>)
  next
    case False
    have u: "i mod 256 ^ k = i" using False r(2) p(1) by (intro mod_pos_pos_trivial) simp_all
    have s: "signed_take_bit n i = i" if "(2 :: int) ^ (8 * k - 1) \<le> 2 ^ n" for n
    proof (rule signed_take_bit_int_eq_self)
      have "0 < (2 :: int) ^ n" by simp
      then show "- (2 ^ n) \<le> i" "i < 2 ^ n" using False r(2) that by linarith+
    qed
    have z: "i = 0 \<longrightarrow> k = 1" using r(5) by auto
    show ?thesis using kc
      by cases (use False u s z in \<open>auto simp: intRead_def survives_def l Let_def\<close>)
  qed
qed

lemma small_word: "k \<le> 8 \<Longrightarrow> (word_of_nat k :: uint64) = word_of_nat m \<longleftrightarrow> k = m" if "m \<le> 8"
proof -
  assume "k \<le> 8"
  then have "unat (word_of_nat k :: uint64) = k" "unat (word_of_nat m :: uint64) = m"
    using that by (simp_all add: unat_of_nat)
  then show ?thesis by metis
qed

lemma encInt_frame: "sizeRange k i \<Longrightarrow> i \<noteq> 0 \<Longrightarrow> encInt i = tag String (word_of_nat (size2 i)) @ putint2 i"
proof -
  assume k: "sizeRange k i" "i \<noteq> 0"
  then have "size2 i \<le> 8" using sizeRange_facts(1) [OF k(1)] by (simp add: sizeRange_def)
  then have "(word_of_nat (size2 i) :: uint64) < 56" by (simp add: word_less_nat_alt unat_of_nat)
  then show ?thesis using k(2) by (simp add: encInt_def puthead_def byte_of_nat)
qed

lemma streamInt_read:
  assumes "skind s = None" and "input s = encInt i @ rest" and "room (length (encInt i)) s"
    and "- (2 ^ 63) \<le> i" and "i < 2 ^ 63" and "size2 i \<le> maxbits div 8" and "maxbits \<le> 64"
  obtains s' where "streamInt maxbits s = (intRead i, s')" "adv (length (encInt i)) s s'"
proof (cases "i = 0")
  case True
  have e: "encInt i = tag String (word_of_nat (length ([] :: bytes))) @ []" using True by (simp add: encInt_def puthead_def)
  obtain s1 where s1: "streamKind s = (Inr (String, 0), s1)" "headed String 0 (length (encInt i)) s s1"
    using kind_head [of s String "[]" rest] assms(1-3) e by auto
  then show thesis using that [of "s1\<lparr>skind := None\<rparr>"] headed_done [OF s1(2)] True
    by (simp add: streamInt_def readUint_def intRead_def)
next
  case False
  obtain k where k: "sizeRange k i" using putint2_sizeRange [OF assms(4,5)] by blast
  note K = sizeRange_facts(1-3) [OF k] and H = sizeRange_facts(4) [OF k]
  have k8: "1 \<le> k" "k \<le> 8" using k by (auto simp: sizeRange_def)
  let ?n = "word_of_nat (length (putint2 i)) :: uint64"
  have e: "encInt i = tag String ?n @ putint2 i" by (rule encInt_frame [OF k False])
  have ii: "input s = tag String ?n @ putint2 i @ rest" and r: "room (length (tag String ?n @ putint2 i)) s"
    using assms(2,3) e by simp_all
  obtain s1 where s1: "streamKind s = (Inr (String, ?n), s1)" "headed String ?n (length (tag String ?n)) s s1"
    using kind_head [OF assms(1) ii _ r] by blast
  have "room (size2 i) s1" using headed_room [OF s1(2), of "size2 i"] r by simp
  moreover have "input s1 = putint2 i @ rest" using headed_input [OF s1(2)] ii by simp
  ultimately obtain s2 where s2: "readUint (word_of_nat (size2 i)) s1 =
      (if 2 \<le> size2 i \<and> hd (putint2 i) = 0 then Inl ErrCanonSize else Inr (word_of_nat (beVal (putint2 i))), s2)"
    "adv (size2 i) s1 s2" using readUint_bytes [of s1 "putint2 i" rest] K(1) k8 by metis
  have "i mod 256 ^ k < 256 ^ k" by simp
  moreover have "(256 :: int) ^ k \<le> 256 ^ 8" by (rule power_increasing [OF k8(2)]) simp
  ultimately have "i mod 256 ^ k < 256 ^ 8" by (rule less_le_trans)
  then have "0 \<le> i mod 256 ^ k \<and> i mod 256 ^ k < 2 ^ 64" by simp
  then have v: "uint (word_of_nat (beVal (putint2 i)) :: uint64) = i mod 256 ^ k"
    by (simp add: K(2) uint_word_of_int)
  have fit: "\<not> ?n > word_of_nat (maxbits div 8)"
    using assms(6,7) K(1) k8 by (simp add: word_less_nat_alt unat_of_nat)
  have n: "?n = 1 \<longleftrightarrow> k = 1" "?n = 2 \<longleftrightarrow> k = 2" "?n = 3 \<longleftrightarrow> k = 3" "?n = 4 \<longleftrightarrow> k = 4"
    using small_word [of 1 k] small_word [of 2 k] small_word [of 3 k] small_word [of 4 k] k8 K(1) by simp_all
  have "ucast ?n = (word_of_nat (size2 i) :: byte)" by (rule byte_of_nat)
  then have "streamInt maxbits s = (intRead i, s2)"
    using s1(1) s2(1) fit n v H False k8 by (auto simp: streamInt_def intRead_def K(1) sint_uint Let_def)
  then show thesis using that [of s2] headed_adv [OF s1(2) s2(2)] e by simp
qed

end
