(* ===== verification/RlpRoundTrip.thy ===== *)
theory RlpRoundTrip
  imports RlpStream
begin

text \<open>
  Decoding what was encoded: the values the typed decoder gives back from their encoding, and
  the exact set of signed integers among them.
\<close>

section \<open>Canonical values\<close>

text \<open>The values the decoder can give back.  Raw values must be one frame; interfaces hold byte
  slices or slices of interfaces; big integers are not negative; integers fit their type and
  survive; byte arrays have their length and are not the single byte zero; a nil pointer needs
  the tag that allows it, and under that tag the value of any other pointer must not look
  empty; a slice without a header stands last in its struct.\<close>

function (sequential) canon :: "rtype \<Rightarrow> tags \<Rightarrow> rval \<Rightarrow> bool"
  and canonElems :: "rtype \<Rightarrow> rval list \<Rightarrow> bool"
  and canonFields :: "(rtype \<times> tags) list \<Rightarrow> rval list \<Rightarrow> bool" where
  "canon TRaw ts v = (case v of VBytes b \<Rightarrow> (case Split b of Inr (_, _, []) \<Rightarrow> True | _ \<Rightarrow> False) | _ \<Rightarrow> False)"
| "canon TInterface ts v =
    (case v of
       VIface (Some (t, x)) \<Rightarrow>
         if t = TBytes then (case x of VBytes _ \<Rightarrow> True | _ \<Rightarrow> False)
         else if t = TSlice TInterface then (case x of VList vs \<Rightarrow> canonElems TInterface vs | _ \<Rightarrow> False)
         else False
     | _ \<Rightarrow> False)"
| "canon TBigPtr ts v = (case v of VBigPtr (Some i) \<Rightarrow> 0 \<le> i | _ \<Rightarrow> False)"
| "canon TBig ts v = (case v of VBig i \<Rightarrow> 0 \<le> i | _ \<Rightarrow> False)"
| "canon (TUint n) ts v = (case v of VUint i \<Rightarrow> n \<in> {8, 16, 32, 64} \<and> unat i < 2 ^ n | _ \<Rightarrow> False)"
| "canon TBool ts v = (case v of VBool _ \<Rightarrow> True | _ \<Rightarrow> False)"
| "canon TString ts v = (case v of VString _ \<Rightarrow> True | _ \<Rightarrow> False)"
| "canon TBytes ts v = (case v of VBytes _ \<Rightarrow> True | _ \<Rightarrow> False)"
| "canon (TByteArray n) ts v = (case v of VBytes b \<Rightarrow> length b = n \<and> b \<noteq> [0] | _ \<Rightarrow> False)"
| "canon (TSlice t) ts v = (case v of VList vs \<Rightarrow> canonElems t vs | _ \<Rightarrow> False)"
| "canon (TArray n t) ts v = (case v of VList vs \<Rightarrow> length vs = n \<and> \<not> tail ts \<and> canonElems t vs | _ \<Rightarrow> False)"
| "canon (TStruct fs) ts v = (case v of VList vs \<Rightarrow> canonFields fs vs | _ \<Rightarrow> False)"
| "canon (TPtr t) ts v =
    (case v of
       VPtr None \<Rightarrow> nilOK ts \<and> encSpec (TPtr t) ts (VPtr None) \<in> {Some [0x80], Some [0xC0]}
     | VPtr (Some x) \<Rightarrow> canon t noTags x \<and> (nilOK ts \<longrightarrow> encSpec t noTags x \<notin> {Some [0x80], Some [0xC0]})
     | _ \<Rightarrow> False)"
| "canon TFloat64 ts v = (case v of VFloat _ \<Rightarrow> True | _ \<Rightarrow> False)"
| "canon (TInt n) ts v =
    (case v of VInt i \<Rightarrow> n \<in> {8, 16, 32, 64} \<and> - (2 ^ (n - 1)) \<le> i \<and> i < 2 ^ (n - 1) \<and> survives i | _ \<Rightarrow> False)"
| "canon TOther ts v = False"
| "canonElems t [] = True"
| "canonElems t (v # vs) = (canon t noTags v \<and> canonElems t vs)"
| "canonFields [] vs = (vs = [])"
| "canonFields ((t, ts) # fs) [] = False"
| "canonFields ((t, ts) # fs) (v # vs) = (canon t ts v \<and> (tail ts \<longrightarrow> fs = []) \<and> canonFields fs vs)"
  by pat_completeness auto
termination
proof (relation "measures [\<lambda>x. case x of Inl (t, ts, v) \<Rightarrow> size v | Inr (Inl (t, vs)) \<Rightarrow> size_list size vs
      | Inr (Inr (fs, vs)) \<Rightarrow> size_list size vs]", goal_cases)
qed auto

lemma canon_iface:
  "canon TInterface ts v \<longleftrightarrow> (\<exists>c. v = VIface (Some (TBytes, VBytes c))) \<or>
    (\<exists>vs. v = VIface (Some (TSlice TInterface, VList vs)) \<and> canonElems TInterface vs)"
proof (cases "\<exists>t x. v = VIface (Some (t, x))")
  case True
  then obtain t x where v: "v = VIface (Some (t, x))" by blast
  then show ?thesis by (cases x) auto
qed (auto split: rval.splits option.splits)

text \<open>What a canonical value is encoded to is one item on the wire.\<close>

definition item :: "Kind \<Rightarrow> bytes \<Rightarrow> bytes \<Rightarrow> bool" where
  "item k c b \<longleftrightarrow> (if k = Byte then b = c \<and> (\<exists>x. c = [x] \<and> x < 0x80) else b = tag k (word_of_nat (length c)) @ c)"

lemma item_str: "\<exists>k c. item k c (encStr b)"
  using encStr_frame [of b] unfolding item_def by (metis Kind.distinct(1))

lemma item_lst: "\<exists>k c. item k c (encLst b)"
  unfolding item_def encLst_def by (rule exI [of _ List], rule exI [of _ b]) simp

lemma item_int: "- (2 ^ 63) \<le> i \<Longrightarrow> i < 2 ^ 63 \<Longrightarrow> \<exists>k c. item k c (encInt i)"
proof (cases "i = 0")
  case True
  then show ?thesis using item_str [of "[]"] by (simp add: encInt_def encStr_def puthead_def)
next
  case False
  assume "- (2 ^ 63) \<le> i" "i < 2 ^ 63"
  then obtain k where "sizeRange k i" using putint2_sizeRange by blast
  from encInt_frame [OF this False] show ?thesis
    unfolding item_def by (intro exI [of _ String] exI [of _ "putint2 i"]) simp
qed

lemma frame_item: "frameOk k c \<Longrightarrow> item k c (frame k c)"
  by (cases k; cases c) (auto simp: item_def frame_def)

lemma int_range: "n \<in> {8, 16, 32, 64} \<Longrightarrow> - (2 ^ (n - 1)) \<le> i \<Longrightarrow> i < 2 ^ (n - 1) \<Longrightarrow> - (2 ^ 63) \<le> i \<and> i < (2 :: int) ^ 63"
  by auto

lemma canon_item:
  "canon t ts v \<Longrightarrow> encSpec t ts v = Some b \<Longrightarrow> length b < 2 ^ 63 \<Longrightarrow> \<not> tail ts \<Longrightarrow> \<exists>k c. item k c b"
proof (induction t arbitrary: ts v b)
  case TRaw
  then obtain k c where "v = VBytes b" "Split b = Inr (k, c, [])"
    by (auto split: rval.splits sum.splits list.splits prod.splits)
  then have "frame k c = b" "frameOk k c" using Split_Inr TRaw(3) by fastforce+
  then show ?case using frame_item by metis
next
  case TInterface
  then consider c where "v = VIface (Some (TBytes, VBytes c))"
    | vs where "v = VIface (Some (TSlice TInterface, VList vs))" "canonElems TInterface vs" using canon_iface by blast
  then show ?case by cases (use TInterface item_str item_lst in \<open>auto simp del: canon.simps\<close>)
next
  case (TPtr t)
  have e: "item String [] [0x80]" "item List [] [0xC0]" by (simp_all add: item_def puthead_def)
  show ?case
  proof (cases "\<exists>x. v = VPtr (Some x)")
    case True
    then obtain x where "v = VPtr (Some x)" by blast
    then show ?thesis using TPtr.IH [of noTags x b] TPtr.prems by simp
  next
    case False
    then have "b = [0x80] \<or> b = [0xC0]" using TPtr.prems by (auto simp del: encSpec.simps split: rval.splits option.splits)
    then show ?thesis using e by blast
  qed
next
  case (TInt n)
  then show ?case using item_int int_range by (auto split: rval.splits)
qed (use item_str item_lst in \<open>auto simp: encUint_def encBig_def split: rval.splits option.splits if_splits\<close>)

lemma item_nonempty: "item k c b \<Longrightarrow> b \<noteq> []"
  using headsize_le(1) [of "word_of_nat (length c)"]
  by (cases k) (auto simp: item_def dest!: arg_cong [where f = length])

lemma canon_nonempty: "canon t noTags v \<Longrightarrow> encSpec t noTags v = Some b \<Longrightarrow> b \<noteq> []"
  using canon_item [of t noTags v b] item_nonempty by (cases "length b < 2 ^ 63") auto

lemma kind_item:
  assumes "item k c b" and "skind s = None" and "input s = b @ rest" and "room (length b) s"
  obtains n s' where "streamKind s = (Inr (k, n), s')" "n = 0 \<and> k \<noteq> Byte \<longleftrightarrow> b = [0x80] \<or> b = [0xC0]"
    "n = 0 \<and> k \<noteq> Byte \<longrightarrow> adv (length b) s (s'\<lparr>skind := None\<rparr>)"
proof (cases "k = Byte")
  case True
  then obtain x where x: "b = [x]" "x < 0x80" using assms(1) by (auto simp: item_def)
  obtain s' where "streamKind s = (Inr (Byte, 0), s')" using kind_byte [of s x rest] assms x by auto
  moreover have "x \<noteq> 0x80 \<and> x \<noteq> 0xC0" using x(2) by (auto simp: word_less_nat_alt)
  ultimately show thesis using that True x by auto
next
  case False
  let ?n = "word_of_nat (length c) :: uint64"
  have b: "b = tag k ?n @ c" using assms(1) False by (simp add: item_def)
  obtain s' where s': "streamKind s = (Inr (k, ?n), s')" "headed k ?n (length (tag k ?n)) s s'"
    using kind_head [of s k c rest] assms(2-4) b False by auto
  have len: "length c < 2 ^ 63" using assms(4) b by (simp add: room_def)
  have n0: "?n = 0 \<longleftrightarrow> c = []" using unat_length [OF len] unat_0_iff [of ?n] by auto
  have "1 \<le> length (tag k ?n)" using False headsize_le(1) [of ?n] by (cases k) simp_all
  then have "b = [x] \<Longrightarrow> c = []" for x using b by (cases c) (auto dest!: arg_cong [where f = length])
  moreover have "c = [] \<Longrightarrow> b = [0x80] \<or> b = [0xC0]" using b False by (cases k) (auto simp: puthead_def)
  ultimately have e: "?n = 0 \<and> k \<noteq> Byte \<longleftrightarrow> b = [0x80] \<or> b = [0xC0]" using n0 False by blast
  moreover have "adv (length b) s (s'\<lparr>skind := None\<rparr>)" if "?n = 0 \<and> k \<noteq> Byte"
    using headed_done [OF s'(2)] b n0 that by simp
  ultimately show thesis using that s'(1) by blast
qed

text \<open>Reading on from a header that is already known gives the same.\<close>

lemma decoder_cached:
  "streamKind s = (Inr x, s1) \<Longrightarrow> genTypeInfo t \<Longrightarrow> decoder fuel t noTags s1 = decoder fuel t noTags s"
proof (induction t)
  case TInterface
  then show ?case by (cases fuel) (simp_all add: kind_again)
qed (simp_all add: kind_again decodeRawValue_def Raw_def decodeBigInt_def decodeBigIntNoPtr_def bigBytes_def streamBytes_def
  decodeUint_def streamUint_def decodeBool_def streamBool_def decodeString_def decodeByteSlice_def decodeByteArray_def
  decodeListSlice_def decodeListArray_def streamList_def decodefloat64_def decodeInt_def streamInt_def)

section \<open>Round trip\<close>

definition ends :: "nat \<Rightarrow> Stream \<Rightarrow> bool" where
  "ends n s \<longleftrightarrow> (\<exists>t ts. stack s = t # ts \<and> unat (lpos t) + n = unat (lsize t))"

lemma ends_adv: "ends (a + b) s \<Longrightarrow> adv a s s1 \<Longrightarrow> ends b s1"
proof -
  assume e: "ends (a + b) s" and a: "adv a s s1"
  then obtain t ts where t: "stack s = t # ts" "unat (lpos t) + (a + b) = unat (lsize t)" by (auto simp: ends_def)
  then have "unat (lpos t + word_of_nat a) = unat (lpos t) + a" by (intro unat_add_room [of _ _ "lsize t"]) simp
  then show ?thesis using t a by (simp add: ends_def adv_def)
qed

lemma ends_atEnd: "ends n s \<Longrightarrow> adv n s s1 \<Longrightarrow> atEnd s1"
  using ends_adv [of n 0 s s1] by (auto simp: ends_def atEnd_def adv_def intro: unsigned_word_eqI [where 'a = nat])

lemma inside_ends: "inside h n s s' \<Longrightarrow> n < 2 ^ 63 \<Longrightarrow> ends n s'"
  by (auto simp: inside_def ends_def unat_of_nat)

text \<open>The extra fuel of a type whose reader starts a loop on its own content.\<close>

fun weight :: "rtype \<Rightarrow> nat" where
  "weight TInterface = 1"
| "weight (TPtr t) = weight t"
| "weight _ = 0"

lemma weight_le: "weight t \<le> 1"
  by (induction t rule: weight.induct) auto

text \<open>One value, its elements or its fields read back from the front of a stream.\<close>

definition reads :: "(Stream \<Rightarrow> 'a fres) \<Rightarrow> 'a \<Rightarrow> bytes \<Rightarrow> Stream \<Rightarrow> bool" where
  "reads d v b s \<longleftrightarrow> (\<exists>s'. d s = Some (Inr v, s') \<and> adv (length b) s s')"

lemma readsI: "d s = Some (Inr v, s') \<Longrightarrow> adv (length b) s s' \<Longrightarrow> reads d v b s"
  by (auto simp: reads_def)

definition ready :: "bytes \<Rightarrow> Stream \<Rightarrow> bool" where
  "ready b s \<longleftrightarrow> skind s = None \<and> (\<exists>rest. input s = b @ rest) \<and> room (length b) s"

lemma ready_first: "ready (a @ b) s \<Longrightarrow> ready a s"
  by (auto simp: ready_def intro: room_mono)

lemma ready_adv: "ready (a @ b) s \<Longrightarrow> adv (length a) s s1 \<Longrightarrow> ready b s1"
  using room_adv [of "length a" "length b" s s1] by (auto simp: ready_def adv_def)

lemma ready_length: "ready b s \<Longrightarrow> length b < 2 ^ 63"
  by (simp add: ready_def room_def)

lemma reads_str: "ready (encStr b) s \<Longrightarrow> \<exists>s'. streamBytes s = (Inr b, s') \<and> adv (length (encStr b)) s s'"
  using streamBytes_ok by (metis ready_def)

text \<open>A list is read by entering it, reading its content and leaving it.\<close>

lemma list_reads:
  assumes "ready (encLst b) s"
  obtains s1 where "streamList s = (Inr (word_of_nat (length b)), s1)" "ready b s1" "ends (length b) s1"
    "\<And>s2. adv (length b) s1 s2 \<Longrightarrow> \<exists>s'. ListEnd s2 = (Inr (), s') \<and> adv (length (encLst b)) s s'"
proof -
  obtain rest where r: "skind s = None" "input s = encLst b @ rest" "room (length (encLst b)) s"
    using assms by (auto simp: ready_def)
  let ?h = "headsize (word_of_nat (length b))"
  obtain s1 where s1: "streamList s = (Inr (word_of_nat (length b)), s1)" "inside ?h (length b) s s1" "room (length b) s1"
    "input s1 = b @ rest" using streamList_ok [OF r] by metis
  have len: "length b < 2 ^ 63" using s1(3) by (simp add: room_def)
  have "length (encLst b) = ?h + length b" by (simp add: encLst_def)
  then have "\<exists>s'. ListEnd s2 = (Inr (), s') \<and> adv (length (encLst b)) s s'" if "adv (length b) s1 s2" for s2
    using ListEnd_ok [OF s1(2) that len] by metis
  moreover have "skind s1 = None" using s1(2) by (simp add: inside_def)
  then have "ready b s1" using s1(3,4) by (simp add: ready_def)
  ultimately show thesis using that s1(1) inside_ends [OF s1(2) len] by blast
qed

lemma slice_reads:
  assumes "ready (encLst b) s" and "\<And>s1. ready b s1 \<Longrightarrow> ends (length b) s1 \<Longrightarrow> b \<noteq> [] \<Longrightarrow> reads (decodeSliceElems fuel d) vs b s1"
    and "b = [] \<Longrightarrow> vs = []"
  shows "reads (decodeListSlice fuel d) (VList vs) (encLst b) s"
proof -
  obtain s1 where s1: "streamList s = (Inr (word_of_nat (length b)), s1)" "ready b s1" "ends (length b) s1"
    "\<And>s2. adv (length b) s1 s2 \<Longrightarrow> \<exists>s'. ListEnd s2 = (Inr (), s') \<and> adv (length (encLst b)) s s'"
    using list_reads [OF assms(1)] by metis
  have n0: "(word_of_nat (length b) :: uint64) = 0 \<longleftrightarrow> b = []"
    using unat_length [OF ready_length [OF s1(2)]] unat_0_iff [of "word_of_nat (length b) :: uint64"] by auto
  show ?thesis
  proof (cases "b = []")
    case True
    have "adv (length b) s1 s1" using True s1(2) by (simp add: adv_def ready_def)
    then obtain s' where "ListEnd s1 = (Inr (), s')" "adv (length (encLst b)) s s'" using s1(4) by blast
    then show ?thesis using s1(1) n0 True assms(3) by (intro readsI) (simp_all add: decodeListSlice_def)
  next
    case False
    obtain s2 where s2: "decodeSliceElems fuel d s1 = Some (Inr vs, s2)" "adv (length b) s1 s2"
      using assms(2) [OF s1(2,3) False] by (auto simp: reads_def)
    obtain s' where "ListEnd s2 = (Inr (), s')" "adv (length (encLst b)) s s'" using s1(4) [OF s2(2)] by blast
    then show ?thesis using s1(1) n0 False s2(1) by (intro readsI) (simp_all add: decodeListSlice_def)
  qed
qed

lemma array_reads:
  assumes "ready (encLst b) s" and "\<And>s1. ready b s1 \<Longrightarrow> reads (arrayLoop n d) vs b s1"
  shows "reads (decodeListArray n d) (VList vs) (encLst b) s"
proof -
  obtain s1 where s1: "streamList s = (Inr (word_of_nat (length b)), s1)" "ready b s1"
    "\<And>s2. adv (length b) s1 s2 \<Longrightarrow> \<exists>s'. ListEnd s2 = (Inr (), s') \<and> adv (length (encLst b)) s s'"
    using list_reads [OF assms(1)] by metis
  obtain s2 where s2: "arrayLoop n d s1 = Some (Inr vs, s2)" "adv (length b) s1 s2"
    using assms(2) [OF s1(2)] by (auto simp: reads_def)
  obtain s' where "ListEnd s2 = (Inr (), s')" "adv (length (encLst b)) s s'" using s1(3) [OF s2(2)] by blast
  then show ?thesis using s1(1) s2(1) by (intro readsI) (simp_all add: decodeListArray_def)
qed

lemma struct_reads:
  assumes "ready (encLst b) s" and "\<And>s1. ready b s1 \<Longrightarrow> ends (length b) s1 \<Longrightarrow> reads (decodeFields fuel fs) vs b s1"
  shows "reads (decoder fuel (TStruct fs) ts) (VList vs) (encLst b) s"
proof -
  obtain s1 where s1: "streamList s = (Inr (word_of_nat (length b)), s1)" "ready b s1" "ends (length b) s1"
    "\<And>s2. adv (length b) s1 s2 \<Longrightarrow> \<exists>s'. ListEnd s2 = (Inr (), s') \<and> adv (length (encLst b)) s s'"
    using list_reads [OF assms(1)] by metis
  obtain s2 where s2: "decodeFields fuel fs s1 = Some (Inr vs, s2)" "adv (length b) s1 s2"
    using assms(2) [OF s1(2,3)] by (auto simp: reads_def)
  obtain s' where "ListEnd s2 = (Inr (), s')" "adv (length (encLst b)) s s'" using s1(4) [OF s2(2)] by blast
  then show ?thesis using s1(1) s2(1) by (intro readsI) simp_all
qed

lemma kind_ready:
  assumes "item k c b" and "ready b s"
  obtains n s' where "streamKind s = (Inr (k, n), s')" "n = 0 \<and> k \<noteq> Byte \<longleftrightarrow> b = [0x80] \<or> b = [0xC0]"
    "n = 0 \<and> k \<noteq> Byte \<longrightarrow> adv (length b) s (s'\<lparr>skind := None\<rparr>)"
proof -
  obtain rest where "skind s = None" "input s = b @ rest" "room (length b) s" using assms(2) by (auto simp: ready_def)
  then show thesis by (rule kind_item [OF assms(1)]) (rule that)
qed

lemma item_strKind: "\<exists>k. k \<noteq> List \<and> item k b (encStr b)"
  using encStr_frame [of b] unfolding item_def by (metis Kind.distinct)

lemma interface_reads_bytes:
  assumes "ready (encStr b) s"
  shows "reads (decodeInterface (Suc f)) (VIface (Some (TBytes, VBytes b))) (encStr b) s"
proof -
  obtain k where k: "k \<noteq> List" "item k b (encStr b)" using item_strKind by blast
  obtain n s1 where s1: "streamKind s = (Inr (k, n), s1)" using kind_ready [OF k(2) assms] by metis
  obtain s' where s': "streamBytes s = (Inr b, s')" "adv (length (encStr b)) s s'" using reads_str [OF assms] by blast
  have "streamBytes s1 = streamBytes s" using kind_again [OF s1] s1 by (simp add: streamBytes_def)
  then show ?thesis using s1 s' k(1) by (intro readsI) simp_all
qed

lemma decoder_iface: "decoder f TInterface ts = decodeInterface f"
  by (rule ext) simp

lemma interface_reads_list:
  assumes "ready (encLst b) s" and "reads (decoder f (TSlice TInterface) noTags) v (encLst b) s"
  shows "reads (decodeInterface (Suc f)) (VIface (Some (TSlice TInterface, v))) (encLst b) s"
proof -
  have i: "item List b (encLst b)" by (simp add: item_def encLst_def)
  obtain n s1 where s1: "streamKind s = (Inr (List, n), s1)" using kind_ready [OF i assms(1)] by metis
  have "decodeListSlice f (\<lambda>s. decodeInterface f s) s1 = decodeListSlice f (\<lambda>s. decodeInterface f s) s"
    using decoder_cached [OF s1, of "TSlice TInterface" f] by (simp add: decoder_iface)
  then show ?thesis using assms(2) s1 by (auto simp: reads_def decoder_iface)
qed

lemma pointer_reads:
  assumes "canon (TPtr t) ts v" and "encSpec (TPtr t) ts v = Some b" and "ready b s" and "genTypeInfo t"
    and "\<And>x. v = VPtr (Some x) \<Longrightarrow> reads (decoder fuel t noTags) x b s"
  shows "reads (decoder fuel (TPtr t) ts) v b s"
proof (cases "\<exists>x. v = VPtr (Some x)")
  case True
  then obtain x where x: "v = VPtr (Some x)" by blast
  have e: "encSpec t noTags x = Some b" "canon t noTags x" using assms(1,2) x by simp_all
  obtain s' where s': "decoder fuel t noTags s = Some (Inr x, s')" "adv (length b) s s'"
    using assms(5) [OF x] by (auto simp: reads_def)
  show ?thesis
  proof (cases "nilOK ts")
    case True
    obtain k c where "item k c b" using canon_item [OF e(2,1) ready_length [OF assms(3)]] by auto
    then obtain n s1 where s1: "streamKind s = (Inr (k, n), s1)" "n = 0 \<and> k \<noteq> Byte \<longleftrightarrow> b = [0x80] \<or> b = [0xC0]"
      using kind_ready assms(3) by metis
    have "\<not> (n = 0 \<and> k \<noteq> Byte)" using s1(2) assms(1) x e(1) True by auto
    then show ?thesis using s1(1) s' x True decoder_cached [OF s1(1) assms(4)] by (intro readsI) simp_all
  next
    case False
    then show ?thesis using s' x by (intro readsI) simp_all
  qed
next
  case False
  then have v: "v = VPtr None" "nilOK ts" "b = [0x80] \<or> b = [0xC0]"
    using assms(1,2) by (auto simp del: encSpec.simps split: rval.splits option.splits)
  have "item String [] [0x80]" "item List [] [0xC0]" by (simp_all add: item_def puthead_def)
  then obtain k c where i: "item k c b" using v(3) by blast
  obtain n s1 where s1: "streamKind s = (Inr (k, n), s1)" "n = 0 \<and> k \<noteq> Byte \<longleftrightarrow> b = [0x80] \<or> b = [0xC0]"
    "n = 0 \<and> k \<noteq> Byte \<longrightarrow> adv (length b) s (s1\<lparr>skind := None\<rparr>)" by (rule kind_ready [OF i assms(3)])
  then have "n = 0 \<and> k \<noteq> Byte" "adv (length b) s (s1\<lparr>skind := None\<rparr>)" using v(3) by blast+
  then show ?thesis using v s1(1) by (intro readsI) simp_all
qed

lemma beVal_natBytes: "beVal (natBytes n) = n"
proof (induction n rule: natBytes.induct)
  case (1 n)
  have app: "beVal (xs @ [x]) = beVal xs * 256 + unat x" for xs and x :: byte by (induction xs) (auto simp: algebra_simps)
  show ?case
  proof (cases "n = 0")
    case False
    have "beVal (natBytes n) = n div 256 * 256 + n mod 256"
      using 1(1) [OF False] False by (subst natBytes.simps) (simp add: app unat_of_nat)
    then show ?thesis by simp
  qed (simp add: natBytes_0)
qed

lemma hd_natBytes: "natBytes n \<noteq> [] \<Longrightarrow> hd (natBytes n) \<noteq> 0"
proof (induction n rule: natBytes.induct)
  case (1 n)
  then have n: "n \<noteq> 0" using natBytes_0 by metis
  show ?case
  proof (cases "n div 256 = 0")
    case True
    then have "n < 256" by simp
    then have "unat (word_of_nat n :: byte) = n" by (simp add: unat_of_nat)
    moreover have "natBytes n = [word_of_nat n]" using n True by (subst natBytes.simps) (simp add: natBytes_0)
    ultimately show ?thesis using n by (metis list.sel(1) unat_0)
  next
    case False
    then have "natBytes (n div 256) \<noteq> []" by (subst natBytes.simps) simp
    then show ?thesis using 1(1) n by (subst natBytes.simps) simp
  qed
qed

lemma reads_big: "ready (encStr (natBytes (nat i))) s \<Longrightarrow> 0 \<le> i \<Longrightarrow>
    \<exists>s'. bigBytes s = (Inr i, s') \<and> adv (length (encStr (natBytes (nat i)))) s s'"
  using reads_str [of "natBytes (nat i)" s] beVal_natBytes [of "nat i"] hd_natBytes [of "nat i"] by (auto simp: bigBytes_def)

lemma float_inverse: "getUint64LE (putUint64LE w) = Inr w"
proof -
  have "rev (putUint64LE w) = map (\<lambda>j. ucast (drop_bit (8 * j) w)) (rev [0..<8])" by (simp add: putUint64LE_def rev_map)
  also have "\<dots> = beBytes 8 (unat w)" by (simp add: upt_rec shift_byte)
  finally have e: "rev (putUint64LE w) = beBytes 8 (unat w)" .
  have "unat (shiftOr (rev (putUint64LE w))) = beVal (beBytes 8 (unat w))" unfolding e by (rule unat_shiftOr) (simp only: length_beBytes)
  also have "\<dots> = unat w" unfolding beVal_beBytes using unat_less64 [of w] by simp
  finally have "unat (shiftOr (rev (putUint64LE w))) = unat w" .
  then have "shiftOr (rev (putUint64LE w)) = w" by (rule unsigned_word_eqI)
  moreover have "length (putUint64LE w) = 8" by (simp add: putUint64LE_def)
  ultimately show ?thesis by (simp add: getUint64LE_def)
qed

lemma reads_raw: "canon TRaw ts (VBytes b) \<Longrightarrow> ready b s \<Longrightarrow> \<exists>s'. Raw s = (Inr b, s') \<and> adv (length b) s s'"
proof -
  assume c: "canon TRaw ts (VBytes b)" and r: "ready b s"
  then obtain k d where "Split b = Inr (k, d, [])" by (auto split: sum.splits list.splits prod.splits)
  then have f: "b = frame k d" "frameOk k d" using Split_Inr ready_length [OF r] by fastforce+
  obtain rest where "skind s = None" "input s = frame k d @ rest" "room (length (frame k d)) s"
    using r f(1) by (auto simp: ready_def)
  then show ?thesis using Raw_ok [of s k d rest] f by metis
qed

lemma reads_array_bytes:
  assumes "ready (encStr b) s" and "b \<noteq> [0]"
  shows "reads (decoder fuel (TByteArray (length b)) ts) (VBytes b) (encStr b) s"
proof -
  obtain rest where r: "skind s = None" "input s = encStr b @ rest" "room (length (encStr b)) s"
    using assms(1) by (auto simp: ready_def)
  show ?thesis
  proof (cases "encStr b = b \<and> (\<exists>x. b = [x] \<and> x < 0x80)")
    case True
    then obtain x where x: "b = [x]" "x < 0x80" "encStr b = [x]" by auto
    obtain s1 where s1: "streamKind s = (Inr (Byte, 0), s1)" "headed Byte 0 1 s s1" "byteval s1 = x"
      using kind_byte [of s x rest] r x by auto
    have "streamUint 64 s1 = (Inr (ucast x), s1\<lparr>skind := None\<rparr>)"
      using kind_again [OF s1(1)] s1(3) x assms(2) by (simp add: streamUint_def)
    moreover have "(ucast (ucast x :: uint64) :: byte) = x"
      by (intro unsigned_word_eqI [where 'a = nat]) (simp add: byte_down byte_up)
    ultimately show ?thesis using s1 headed_done [OF s1(2)] x by (intro readsI) (simp_all add: decodeByteArray_def)
  next
    case False
    let ?n = "word_of_nat (length b) :: uint64"
    have b: "encStr b = tag String ?n @ b" "\<not> (length b = 1 \<and> hd b < 0x80)" using encStr_frame [of b] False by blast+
    have i: "input s = tag String ?n @ b @ rest" and rm: "room (length (tag String ?n @ b)) s" using r b(1) by simp_all
    obtain s1 where s1: "streamKind s = (Inr (String, ?n), s1)" "headed String ?n (length (tag String ?n)) s s1"
      using kind_head [OF r(1) i _ rm] by blast
    obtain s2 where s2: "readFull ?n s1 = (Inr b, s2)" "adv (length (tag String ?n @ b)) s s2"
      using content_ok [OF i rm s1(2)] .
    have "length b < 2 ^ 63" using rm by (simp add: room_def)
    then have "?n = 1 \<longleftrightarrow> length b = 1" using unat_length one_iff by metis
    then show ?thesis using s1(1) s2 b by (intro readsI) (simp_all add: decodeByteArray_def)
  qed
qed

lemma reads_uint:
  assumes "ready (encUint i) s" and "n \<in> {8, 16, 32, 64}" and "unat i < 2 ^ n"
  shows "\<exists>s'. streamUint n s = (Inr i, s') \<and> adv (length (encUint i)) s s'"
proof -
  obtain rest where r: "skind s = None" "input s = encUint i @ rest" "room (length (encUint i)) s"
    using assms(1) by (auto simp: ready_def)
  have "8 dvd n" "0 < n" "n \<le> 64" using assms(2) by auto
  then show ?thesis using streamUint_ok [OF r assms(3)] by metis
qed

lemma reads_bool:
  "ready (encUint (if x then 1 else 0)) s \<Longrightarrow> \<exists>s'. streamBool s = (Inr x, s') \<and> adv (length (encUint (if x then 1 else 0))) s s'"
  using streamBool_ok [of s x] unfolding ready_def by metis

lemma size2_bits:
  assumes "n \<in> {8, 16, 32, 64}" and "- (2 ^ (n - 1)) \<le> i" and "i < 2 ^ (n - 1)"
  shows "size2 i \<le> n div 8"
proof (rule ccontr)
  assume "\<not> size2 i \<le> n div 8"
  moreover obtain k where k: "sizeRange k i" using putint2_sizeRange int_range [OF assms] by blast
  ultimately have "n div 8 < k" using sizeRange_facts(1) [OF k] by simp
  then have n: "n - 1 \<le> 8 * k - 9" "k \<noteq> 1" using assms(1) by auto
  have "(2 :: int) ^ (n - 1) \<le> 2 ^ (8 * k - 9)" using n(1) by (rule power_increasing) simp
  moreover have "i < - (2 ^ (8 * k - 9)) \<or> 2 ^ (8 * k - 9) \<le> i" using k n(2) by (auto simp: sizeRange_def)
  ultimately show False using assms(2,3) by linarith
qed

lemma reads_int:
  assumes "ready (encInt i) s" and "n \<in> {8, 16, 32, 64}" and "- (2 ^ (n - 1)) \<le> i" and "i < 2 ^ (n - 1)"
  shows "\<exists>s'. streamInt n s = (intRead i, s') \<and> adv (length (encInt i)) s s'"
proof -
  obtain rest where r: "skind s = None" "input s = encInt i @ rest" "room (length (encInt i)) s"
    using assms(1) by (auto simp: ready_def)
  have "- (2 ^ 63) \<le> i" "i < 2 ^ 63" "n \<le> 64" using int_range [OF assms(2-4)] assms(2) by auto
  then show ?thesis using streamInt_read [OF r _ _ size2_bits [OF assms(2-4)]] by metis
qed

fun leaf :: "rtype \<Rightarrow> bool" where
  "leaf TInterface = False"
| "leaf (TSlice t) = False"
| "leaf (TArray n t) = False"
| "leaf (TStruct fs) = False"
| "leaf (TPtr t) = False"
| "leaf t = True"

lemma leaf_reads:
  "canon t ts v \<Longrightarrow> encSpec t ts v = Some b \<Longrightarrow> ready b s \<Longrightarrow> leaf t \<Longrightarrow> reads (decoder fuel t ts) v b s"
proof (induction t)
  case TRaw
  then have v: "v = VBytes b" by (auto split: rval.splits)
  then obtain s' where "Raw s = (Inr b, s')" "adv (length b) s s'" using TRaw(1,3) reads_raw by blast
  then show ?case using v by (intro readsI) (simp_all add: decodeRawValue_def)
next
  case TBigPtr
  then obtain i where "v = VBigPtr (Some i)" "0 \<le> i" "b = encStr (natBytes (nat i))"
    by (auto simp: encBig_def split: rval.splits option.splits)
  then show ?case using reads_big [of i s] TBigPtr(3) by (auto simp: reads_def decodeBigInt_def)
next
  case TBig
  then obtain i where "v = VBig i" "0 \<le> i" "b = encStr (natBytes (nat i))"
    by (auto simp: encBig_def split: rval.splits)
  then show ?case using reads_big [of i s] TBig(3) by (auto simp: reads_def decodeBigIntNoPtr_def)
next
  case (TUint n)
  then obtain i where i: "v = VUint i" "b = encUint i" "n \<in> {8, 16, 32, 64}" "unat i < 2 ^ n" by (auto split: rval.splits)
  then show ?case using reads_uint [of i s n] TUint(3) by (auto simp: reads_def decodeUint_def)
next
  case TBool
  then obtain x where "v = VBool x" "b = encUint (if x then 1 else 0)" by (auto split: rval.splits)
  then show ?case using reads_bool [of x s] TBool(3) by (auto simp: reads_def decodeBool_def)
next
  case TString
  then obtain c where "v = VString c" "b = encStr c" by (auto split: rval.splits)
  then show ?case using reads_str [of c s] TString(3) by (auto simp: reads_def decodeString_def)
next
  case TBytes
  then obtain c where "v = VBytes c" "b = encStr c" by (auto split: rval.splits)
  then show ?case using reads_str [of c s] TBytes(3) by (auto simp: reads_def decodeByteSlice_def)
next
  case (TByteArray n)
  then obtain c where c: "v = VBytes c" "b = encStr c" "n = length c" "c \<noteq> [0]" by (auto split: rval.splits)
  show ?case using reads_array_bytes [of c s fuel ts] TByteArray(3) c(4) unfolding c(1-3) by blast
next
  case TFloat64
  then obtain c where "v = VFloat c" "b = encStr (putUint64LE c)" by (auto split: rval.splits)
  then show ?case using reads_str [of "putUint64LE c" s] TFloat64(3) by (auto simp: reads_def decodefloat64_def float_inverse)
next
  case (TInt n)
  then obtain i where i: "v = VInt i" "b = encInt i" "n \<in> {8, 16, 32, 64}" "- (2 ^ (n - 1)) \<le> i" "i < 2 ^ (n - 1)" "survives i"
    by (auto split: rval.splits)
  then have "intRead i = Inr i" using intRead_survives int_range by blast
  then show ?case using reads_int [of i s n] TInt(3) i by (auto simp: reads_def decodeInt_def)
qed simp_all

lemma elems_step:
  assumes v: "reads (decoder fuel t noTags) v a s" "a \<noteq> []" and r: "ready (a @ c) s"
    and vs: "\<And>s1. ready c s1 \<Longrightarrow> reads (arrayLoop (length vs) (decoder fuel t noTags)) vs c s1 \<and>
      (\<forall>n > length c. ends (length c) s1 \<longrightarrow> 0 < fuel \<longrightarrow> reads (decodeSliceElems n (decoder fuel t noTags)) vs c s1)"
  shows "reads (arrayLoop (length (v # vs)) (decoder fuel t noTags)) (v # vs) (a @ c) s \<and>
    (\<forall>n > length (a @ c). ends (length (a @ c)) s \<longrightarrow> 0 < fuel \<longrightarrow>
      reads (decodeSliceElems n (decoder fuel t noTags)) (v # vs) (a @ c) s)"
proof -
  obtain s1 where s1: "decoder fuel t noTags s = Some (Inr v, s1)" "adv (length a) s s1" using v(1) by (auto simp: reads_def)
  note IH = vs [OF ready_adv [OF r s1(2)]]
  have step: "adv (length (a @ c)) s s2" if "adv (length c) s1 s2" for s2 using adv_trans [OF s1(2) that] by simp
  have "reads (arrayLoop (length (v # vs)) (decoder fuel t noTags)) (v # vs) (a @ c) s"
    using IH s1(1) step by (auto simp: reads_def)
  moreover have "reads (decodeSliceElems n (decoder fuel t noTags)) (v # vs) (a @ c) s"
    if n: "length (a @ c) < n" "ends (length (a @ c)) s" "0 < fuel" for n
  proof -
    have "1 \<le> length a" using v(2) by (simp add: Suc_le_eq)
    then obtain m where m: "n = Suc m" "length c < m" using n(1) by (cases n) auto
    have "ends (length c) s1" using ends_adv [of "length a" "length c" s s1] n(2) s1(2) by simp
    then show ?thesis using IH m n(3) s1(1) step by (auto simp: reads_def)
  qed
  ultimately show ?thesis by blast
qed

lemma no_elems:
  assumes "ready [] s" and "genTypeInfo t" and "ends 0 s" and "0 < n" and "0 < fuel"
  shows "reads (decodeSliceElems n (decoder fuel t noTags)) [] [] s"
proof -
  have a: "adv 0 s s" using assms(1) by (simp add: adv_def ready_def)
  then have "decoder fuel t noTags s = Some (Inl EOL, s\<lparr>kinderr := None\<rparr>)"
    using decoder_atEnd ends_atEnd assms by blast
  moreover obtain m where "n = Suc m" using assms(4) by (cases n) auto
  moreover have "adv 0 s (s\<lparr>kinderr := None\<rparr>)" using a by (simp add: adv_def)
  ultimately show ?thesis by (auto simp: reads_def)
qed

lemma round_trip:
  "canon t ts v \<Longrightarrow> encSpec t ts v = Some b \<Longrightarrow> genTypeInfo t \<Longrightarrow> ready b s \<Longrightarrow> (tail ts \<longrightarrow> ends (length b) s) \<Longrightarrow>
    length b + (if tail ts then 1 else weight t) \<le> fuel \<Longrightarrow> reads (decoder fuel t ts) v b s"
  "canonElems t vs \<Longrightarrow> encElems t vs = Some b \<Longrightarrow> genTypeInfo t \<Longrightarrow> ready b s \<Longrightarrow> length b + weight t \<le> fuel \<Longrightarrow>
    reads (arrayLoop (length vs) (decoder fuel t noTags)) vs b s \<and>
    (\<forall>n > length b. ends (length b) s \<longrightarrow> 0 < fuel \<longrightarrow> reads (decodeSliceElems n (decoder fuel t noTags)) vs b s)"
  "canonFields fs vs \<Longrightarrow> encFields fs vs = Some b \<Longrightarrow> list_all (\<lambda>(t, _). genTypeInfo t) fs \<Longrightarrow> ready b s \<Longrightarrow>
    ends (length b) s \<Longrightarrow> length b < fuel \<Longrightarrow> reads (decodeFields fuel fs) vs b s"
proof (induction t ts v and t vs and fs vs arbitrary: b s fuel and b s fuel and b s fuel
    rule: encSpec_encElems_encFields.induct)
  case (2 ts v)
  then obtain f where f: "fuel = Suc f" "length b \<le> f" by (cases fuel) (auto split: if_splits)
  consider c where "v = VIface (Some (TBytes, VBytes c))"
    | vs where "v = VIface (Some (TSlice TInterface, VList vs))" "canonElems TInterface vs" using 2(2) canon_iface by blast
  then show ?case
  proof cases
    case 1
    then have "b = encStr c" using 2(3) by simp
    then show ?thesis using interface_reads_bytes [of c s f] 2(5) by (simp only: 1 f(1) decoder_iface)
  next
    case v: 2
    then obtain c where c: "b = encLst c" using 2(3) by auto
    have e: "encSpec (TSlice TInterface) noTags (VList vs) = Some b" using 2(3) v(1) by simp
    have "reads (decoder f (TSlice TInterface) noTags) (VList vs) b s"
      by (rule 2(1) [OF v(1) refl refl _ _ e _ 2(5)]) (use v(2) f(2) in simp_all)
    then show ?thesis using interface_reads_list [of c s f "VList vs"] 2(5) by (simp only: v f(1) c decoder_iface)
  qed
next
  case (10 t ts v)
  then obtain vs c where v: "v = VList vs" "canonElems t vs" "encElems t vs = Some c" "b = (if tail ts then c else encLst c)"
    by (auto split: rval.splits)
  have g: "genTypeInfo t" using 10(4) by simp
  have len: "length c + 1 \<le> fuel" using 10(7) v(4) headsize_le(1) [of "word_of_nat (length c)"]
    by (auto simp: encLst_def split: if_splits)
  then have w: "length c + weight t \<le> fuel" "0 < fuel" using weight_le [of t] by simp_all
  note IH = 10(1) [OF v(1-3) g _ w(1), THEN conjunct2, rule_format]
  show ?case
  proof (cases "tail ts")
    case True
    then have "reads (decodeSliceElems fuel (decoder fuel t noTags)) vs c s"
      using IH [of s fuel] 10(5,6) v(4) len w(2) by simp
    then show ?thesis using True v(1,4) by (auto simp: reads_def)
  next
    case False
    have "c = [] \<Longrightarrow> vs = []" using v(2,3) by (cases vs) (auto dest!: canon_nonempty split: option.splits)
    then have "reads (decodeListSlice fuel (decoder fuel t noTags)) (VList vs) (encLst c) s"
      using slice_reads [of c s fuel "decoder fuel t noTags" vs] IH 10(5) v(4) False len w(2) by simp
    then show ?thesis using False v(1,4) by (simp add: reads_def)
  qed
next
  case (11 n t ts v)
  then obtain vs c where v: "v = VList vs" "canonElems t vs" "encElems t vs = Some c" "b = encLst c" "n = length vs"
    by (auto split: rval.splits)
  have w: "length c + weight t \<le> fuel" using 11(7) v(4) headsize_le(1) [of "word_of_nat (length c)"] weight_le [of t]
    by (auto simp: encLst_def split: if_splits)
  have g: "genTypeInfo t" using 11(4) by simp
  note IH = 11(1) [OF v(1-3) g _ w, THEN conjunct1]
  have "reads (decodeListArray n (decoder fuel t noTags)) (VList vs) (encLst c) s"
    using array_reads [of c s n "decoder fuel t noTags" vs] IH 11(5) v(4,5) by simp
  then show ?case using v(1,4) by (simp add: reads_def)
next
  case (12 fs ts v)
  then obtain vs c where v: "v = VList vs" "canonFields fs vs" "encFields fs vs = Some c" "b = encLst c"
    by (auto split: rval.splits)
  have w: "length c < fuel" using 12(7) v(4) headsize_le(1) [of "word_of_nat (length c)"]
    by (auto simp: encLst_def split: if_splits)
  have g: "list_all (\<lambda>(t, _). genTypeInfo t) fs" using 12(4) by simp
  show ?case using struct_reads [of c s fuel fs vs ts] 12(1) [OF v(1-3) g _ _ w] 12(5) unfolding v(1,4) by blast
next
  case (13 t ts v)
  have w: "length b + weight t \<le> fuel" using 13 weight_le [of t] by (auto split: if_splits)
  show ?case
  proof (rule pointer_reads)
    fix x assume x: "v = VPtr (Some x)"
    then show "reads (decoder fuel t noTags) x b s" using 13 w by simp
  qed (use 13 in simp_all)
next
  case (17 t)
  then show ?case using no_elems by (auto simp: reads_def adv_def ready_def)
next
  case (18 t v vs)
  then obtain a c where v: "canon t noTags v" "canonElems t vs" "encSpec t noTags v = Some a" "encElems t vs = Some c" "b = a @ c"
    by (auto split: option.splits)
  have r: "ready (a @ c) s" using 18(6) v(5) by simp
  have len: "length a + weight t \<le> fuel" "length c + weight t \<le> fuel" using 18(7) v(5) by simp_all
  show ?case unfolding v(5)
    by (rule elems_step [OF _ canon_nonempty [OF v(1,3)] r 18(2) [OF v(3,2,4) 18(5) _ len(2)]])
      (use 18(1) [OF v(1,3) 18(5) ready_first [OF r]] len(1) in simp_all)
next
  case (19 vs)
  then show ?case by (simp add: reads_def adv_def ready_def)
next
  case (21 t ts fs v vs)
  then obtain a c where v: "canon t ts v" "canonFields fs vs" "encSpec t ts v = Some a" "encFields fs vs = Some c" "b = a @ c"
    "tail ts \<longrightarrow> fs = []" by (auto split: option.splits)
  have r: "ready a s" using ready_first 21(6) v(5) by blast
  have "tail ts \<longrightarrow> ends (length a) s" using 21(7) v(4-6) by auto
  moreover have "length a + (if tail ts then 1 else weight t) \<le> fuel" using 21(8) v(5) weight_le [of t] by simp
  moreover have g: "genTypeInfo t" "list_all (\<lambda>(t, _). genTypeInfo t) fs" using 21(5) by simp_all
  ultimately obtain s1 where s1: "decoder fuel t ts s = Some (Inr v, s1)" "adv (length a) s s1"
    using 21(1) [OF v(1,3) g(1) r, of fuel] by (auto simp: reads_def)
  have r1: "ready c s1" using ready_adv s1(2) 21(6) v(5) by blast
  have "ends (length c) s1" using ends_adv [of "length a" "length c" s s1] 21(7) s1(2) v(5) by simp
  then obtain s2 where "decodeFields fuel fs s1 = Some (Inr vs, s2)" "adv (length c) s1 s2"
    using 21(2) [OF v(3,2,4) g(2) r1, of fuel] 21(8) v(5) by (auto simp: reads_def)
  then show ?case using s1 adv_trans [OF s1(2)] v(5) by (intro readsI) simp_all
qed (simp_all add: leaf_reads)

section \<open>Properties\<close>

lemma ready_Reset:
  assumes "b \<noteq> []" and "length (b @ rest) < 2 ^ 63"
  shows "ready b (Reset (b @ rest) (word_of_nat (length (b @ rest))))"
proof -
  have "unat (word_of_nat (length (b @ rest)) :: uint64) = length (b @ rest)" using assms(2) by (rule unat_length)
  then show ?thesis using assms by (simp add: ready_def room_def Reset_def)
qed

lemma DecodeBytes_encoded:
  assumes "genTypeInfo t" and "canon t noTags v" and "encSpec t noTags v = Some b" and "length (b @ rest) < 2 ^ 63"
    and "length b < fuel"
  shows "DecodeBytes fuel (b @ rest) t = Some (Inr v)"
proof -
  have "length b + weight t \<le> fuel" using assms(5) weight_le [of t] by simp
  then have "reads (decoder fuel t noTags) v b (Reset (b @ rest) (word_of_nat (length (b @ rest))))"
    using round_trip(1) [OF assms(2,3,1)] ready_Reset [OF canon_nonempty [OF assms(2,3)] assms(4)] by simp
  then show ?thesis using assms(1) by (auto simp: reads_def DecodeBytes_def streamDecode_def)
qed

text \<open>C34. The round trip of the typed codec: a canonical value is encoded without error, and
  decoding the bytes into its type returns and gives the value back.  What follows the value
  in the input is ignored, not rejected.\<close>

theorem decode_encode:
  assumes "genTypeInfo t" and "canon t noTags v" and "encSpec t noTags v = Some b" and "length (b @ rest) < 2 ^ 63"
    and "length b < fuel"
  shows "EncodeToBytes t v = Inr b \<and> DecodeBytes fuel (b @ rest) t = Some (Inr v)"
  using EncodeToBytes_spec [OF assms(1,3)] DecodeBytes_encoded [OF assms] assms(4) by simp

theorem decode_encode_witness:
  "EncodeToBytes exampleType exampleValue = Inr [0xC7, 0x82, 4, 0, 0xC3, 1, 0x81, 200] \<and>
   DecodeBytes 9 ([0xC7, 0x82, 4, 0, 0xC3, 1, 0x81, 200] @ [0xFF]) exampleType = Some (Inr exampleValue)"
  using decode_encode [OF _ _ example_spec, of "[0xFF]" 9] by simp

text \<open>C35. Signed integers do not all survive.  An integer of a type with 8, 16, 32 or 64 bits is
  decoded to itself exactly when it is negative and takes one, two, four or eight bytes, or is not
  negative and its bytes do not start with a zero byte.\<close>

theorem decode_encode_int:
  assumes "n \<in> {8, 16, 32, 64}" and "- (2 ^ (n - 1)) \<le> i" and "i < 2 ^ (n - 1)"
  shows "EncodeToBytes (TInt n) (VInt i) = Inr (encInt i) \<and>
    (DecodeBytes fuel (encInt i) (TInt n) = Some (Inr (VInt i)) \<longleftrightarrow> survives i)"
proof -
  have len: "length (encInt i) < 2 ^ 63"
    using size2_bits [OF assms] assms(1) by (auto simp: encInt_def)
  have "encInt i \<noteq> []" by (simp add: encInt_def)
  then have r: "ready (encInt i) (Reset (encInt i) (word_of_nat (length (encInt i))))"
    using ready_Reset [of "encInt i" "[]"] len by simp
  obtain s' where "streamInt n (Reset (encInt i) (word_of_nat (length (encInt i)))) = (intRead i, s')"
    using reads_int [OF r assms] by blast
  then have "DecodeBytes fuel (encInt i) (TInt n) = Some (Inr (VInt i)) \<longleftrightarrow> intRead i = Inr i"
    by (cases "intRead i") (auto simp: DecodeBytes_def streamDecode_def decodeInt_def wrapped_def mapRes_def)
  then show ?thesis
    using EncodeToBytes_spec [of "TInt n" "VInt i" "encInt i"] len intRead_survives int_range [OF assms] by simp
qed

theorem decode_encode_int_witness:
  "DecodeBytes 1 (encInt 127) (TInt 32) = Some (Inr (VInt 127)) \<and> DecodeBytes 1 (encInt 128) (TInt 32) \<noteq> Some (Inr (VInt 128)) \<and>
   DecodeBytes 1 (encInt (- 40000)) (TInt 32) \<noteq> Some (Inr (VInt (- 40000)))"
  using decode_encode_int [of 32 127 1] decode_encode_int [of 32 128 1] decode_encode_int [of 32 "- 40000" 1]
  by (simp add: survives_def putint2_def)

end
