(* ===== verification/RlpTermination.thy ===== *)
theory RlpTermination
  imports RlpDecode
begin

text \<open>
  Running the decoder on arbitrary input: the input that is left bounds the fuel it needs, the
  values it returns have the type they were read into, and the one kind of type on whose
  values it does not return.
\<close>

section \<open>What is left to read\<close>

definition left :: "Stream \<Rightarrow> nat" where
  "left s = 2 * length (input s) + (if skind s = None then 0 else 1)"

lemma left_upd [simp]:
  "left (s\<lparr>remaining := r\<rparr>) = left s" "left (s\<lparr>stack := st\<rparr>) = left s" "left (s\<lparr>kinderr := e\<rparr>) = left s"
  "left (s\<lparr>byteval := b\<rparr>) = left s" "left (s\<lparr>ssize := n\<rparr>) = left s"
  by (simp_all add: left_def)

lemma left_input: "2 * length (input s) \<le> left s" "skind s \<noteq> None \<Longrightarrow> 2 * length (input s) < left s"
  by (simp_all add: left_def)

lemma willRead_left: "willRead n s = (r, s') \<Longrightarrow> input s' = input s \<and> skind s' = None"
  by (auto simp: willRead_def Let_def bindE_def split: list.splits if_splits)

lemma readByte_left:
  "readByte s = (Inr b, s') \<Longrightarrow> Suc (length (input s')) \<le> length (input s) \<and> skind s' = None"
  "readByte s = (Inl e, s') \<Longrightarrow> e \<noteq> EOL"
  by (auto simp: readByte_def willRead_def Let_def bindE_def split: list.splits if_splits)

lemma readFull_left:
  "readFull n s = (r, s') \<Longrightarrow> length (input s') \<le> length (input s) \<and> skind s' = None"
  "readFull n s = (Inl e, s') \<Longrightarrow> e \<noteq> EOL"
  by (auto simp: readFull_def willRead_def Let_def bindE_def split: list.splits if_splits)

lemma readUint_left:
  "readUint n s = (Inr v, s') \<Longrightarrow> length (input s') \<le> length (input s) \<and> skind s' = None"
  "readUint n s = (Inl e, s') \<Longrightarrow> e \<noteq> EOL"
  using readByte_left [of s] readFull_left [of "ucast n" s]
  by (auto simp: readUint_def bindE_def split: if_splits prod.splits sum.splits)

lemma readKind_left:
  assumes "readKind s = ((k, n, e), s')"
  shows "e = None \<Longrightarrow> Suc (length (input s')) \<le> length (input s)" and "e \<noteq> Some EOL"
proof -
  obtain r s1 where b: "readByte s = (r, s1)" by fastforce
  note B = readByte_left [of s]
  have long: "(x = None \<longrightarrow> length (input s2) \<le> length (input t)) \<and> x \<noteq> Some EOL"
    if "longSize k' m t = ((k, n, x), s2)" for k' m t x s2
    using that readUint_left [of m t] by (auto simp: longSize_def split: prod.splits sum.splits if_splits)
  have "(e = None \<longrightarrow> Suc (length (input s')) \<le> length (input s)) \<and> e \<noteq> Some EOL"
  proof (cases r)
    case (Inl x)
    then show ?thesis using assms b B by (auto simp: readKind_def split: if_splits)
  next
    case (Inr x)
    then show ?thesis using assms b B(1) [of x s1] long [of String "x - 0xB7" "s1\<lparr>byteval := 0\<rparr>" e s']
        long [of List "x - 0xF7" "s1\<lparr>byteval := 0\<rparr>" e s']
      by (auto simp: readKind_def Let_def split: if_splits)
  qed
  then show "e = None \<Longrightarrow> Suc (length (input s')) \<le> length (input s)" "e \<noteq> Some EOL" by blast+
qed

lemma streamKind_left:
  "streamKind s = (Inr x, s') \<Longrightarrow> skind s' \<noteq> None \<and> left s' \<le> left s"
  "streamKind s = (Inl EOL, s') \<Longrightarrow> left s' \<le> left s"
proof -
  obtain k n e t where r: "readKind (s\<lparr>kinderr := None\<rparr>) = ((k, n, e), t)" by (metis surj_pair)
  note R = readKind_left [OF r]
  show "streamKind s = (Inr x, s') \<Longrightarrow> skind s' \<noteq> None \<and> left s' \<le> left s"
    "streamKind s = (Inl EOL, s') \<Longrightarrow> left s' \<le> left s"
    using R by (auto simp: streamKind_def kindOf_def r Let_def left_def split: if_splits option.splits list.splits)
qed

text \<open>A reader lowers what is left when it returns a value, and does not raise it at the end of a
  list.\<close>

definition lowers :: "'a sres \<Rightarrow> Stream \<Rightarrow> bool" where
  "lowers r s \<longleftrightarrow> (\<forall>v s'. r = (Inr v, s') \<longrightarrow> left s' < left s) \<and> (\<forall>s'. r = (Inl EOL, s') \<longrightarrow> left s' \<le> left s)"

lemma lowers_kind:
  assumes "\<And>k n s1. skind s1 \<noteq> None \<Longrightarrow> lowers (K (k, n) s1) s1"
  shows "lowers (bindE (streamKind s) K) s"
proof -
  obtain r s1 where s1: "streamKind s = (r, s1)" by fastforce
  show ?thesis
  proof (cases r)
    case (Inl e)
    then show ?thesis using s1 streamKind_left(2) [of s s1] by (simp add: lowers_def)
  next
    case (Inr x)
    then have k: "skind s1 \<noteq> None" "left s1 \<le> left s" using s1 streamKind_left(1) by blast+
    obtain k n where x: "x = (k, n)" by fastforce
    then have "lowers (K (k, n) s1) s1" using assms k(1) by blast
    then show ?thesis using Inr s1 x k(2) by (auto simp: lowers_def intro: less_le_trans order_trans)
  qed
qed

lemma lowers_take: "skind s \<noteq> None \<Longrightarrow> lowers (Inr v, s\<lparr>skind := None\<rparr>) s"
  by (auto simp: lowers_def left_def)

lemma lowers_err: "e \<noteq> EOL \<Longrightarrow> lowers (Inl e, s') s"
  by (simp add: lowers_def)

lemma lowers_full:
  assumes "skind s \<noteq> None" and "\<And>b s1. length (input s1) \<le> length (input s) \<Longrightarrow> skind s1 = None \<Longrightarrow> lowers (K b s1) s"
  shows "lowers (bindE (readFull n s) K) s"
proof -
  obtain r s1 where s1: "readFull n s = (r, s1)" by fastforce
  then show ?thesis
    using assms(2) readFull_left [of n s] by (cases r) (auto simp: lowers_err)
qed

lemma lowers_ret: "skind s \<noteq> None \<Longrightarrow> length (input s1) \<le> length (input s) \<Longrightarrow> skind s1 = None \<Longrightarrow> lowers (Inr v, s1) s"
  by (auto simp: lowers_def left_def)

lemma lowers_uint:
  assumes "skind s \<noteq> None" and "\<And>v s1. length (input s1) \<le> length (input s) \<Longrightarrow> skind s1 = None \<Longrightarrow> lowers (K v s1) s"
  shows "lowers (case readUint n s of (Inl e, s) \<Rightarrow> (Inl (if e = ErrCanonSize then ErrCanonInt else e), s) | (Inr v, s) \<Rightarrow> K v s) s"
proof -
  obtain r s1 where s1: "readUint n s = (r, s1)" by fastforce
  then show ?thesis using assms(2) readUint_left [of n s] by (cases r) (auto simp: lowers_err)
qed

lemmas lowers_rules = lowers_kind lowers_take lowers_full lowers_ret lowers_uint

lemma lowers_streamBytes: "lowers (streamBytes s) s"
  unfolding streamBytes_def
  by (rule lowers_kind) (auto split: Kind.splits intro!: lowers_take lowers_err lowers_full lowers_ret)

lemma lowers_Raw: "lowers (Raw s) s"
  unfolding Raw_def by (rule lowers_kind) (auto intro!: lowers_take lowers_full lowers_ret)

lemma lowers_streamUint: "lowers (streamUint n s) s"
  unfolding streamUint_def
  by (rule lowers_kind) (auto split: Kind.splits intro!: lowers_take lowers_err lowers_uint lowers_ret)

lemma lowers_streamInt: "lowers (streamInt n s) s"
  unfolding streamInt_def
  by (rule lowers_kind) (auto split: Kind.splits intro!: lowers_take lowers_err lowers_uint lowers_ret)

lemma lowers_streamList: "lowers (streamList s) s"
  unfolding streamList_def by (rule lowers_kind) (auto intro!: lowers_err lowers_ret)

lemma lowers_bind:
  "lowers r s \<Longrightarrow> (\<And>v s1. left s1 < left s \<Longrightarrow> (\<forall>w s'. K v s1 = (Inr w, s') \<longrightarrow> left s' \<le> left s1) \<and>
    (\<forall>s'. K v s1 = (Inl EOL, s') \<longrightarrow> left s' \<le> left s1)) \<Longrightarrow> lowers (bindE r K) s"
  by (cases r; cases "fst r") (fastforce simp: lowers_def)+

lemma wrap_EOL: "wrapStreamError e = EOL \<longleftrightarrow> e = EOL"
  by (cases e) (simp_all add: wrapStreamError_def)

lemma lowers_wrapped: "lowers r s \<Longrightarrow> lowers (wrapped r) s"
  by (auto simp: lowers_def wrapped_def wrap_EOL split: prod.splits sum.splits)

lemma lowers_mapRes: "lowers r s \<Longrightarrow> lowers (mapRes f r) s"
  by (auto simp: lowers_def mapRes_def bindE_def split: prod.splits sum.splits)

lemma lowers_streamBool: "lowers (streamBool s) s"
  unfolding streamBool_def by (rule lowers_bind [OF lowers_streamUint]) auto

lemma lowers_big: "lowers (bigBytes s) s"
  unfolding bigBytes_def by (rule lowers_bind [OF lowers_wrapped [OF lowers_streamBytes]]) (auto simp: wrapStreamError_def)

lemma lowers_float: "lowers (decodefloat64 s) s"
  unfolding decodefloat64_def
  by (rule lowers_bind [OF lowers_wrapped [OF lowers_streamBytes]]) (auto simp: getUint64LE_def)

lemma lowers_byteArray: "n \<noteq> 1 \<Longrightarrow> lowers (decodeByteArray n s) s"
  unfolding decodeByteArray_def
  by (rule lowers_kind)
    (auto split: Kind.splits simp: wrapStreamError_def intro!: lowers_err lowers_full lowers_ret)

section \<open>Fuel that is enough\<close>

text \<open>\<^term>\<open>keeps r s\<close> is the weaker promise, of a reader that may return a value without reading.\<close>

definition keeps :: "'a sres \<Rightarrow> Stream \<Rightarrow> bool" where
  "keeps r s \<longleftrightarrow> (\<forall>v s'. r = (Inr v, s') \<or> r = (Inl EOL, s') \<longrightarrow> left s' \<le> left s)"

definition returns :: "bool \<Rightarrow> 'a fres \<Rightarrow> Stream \<Rightarrow> bool" where
  "returns strict r s \<longleftrightarrow> (\<exists>q. r = Some q \<and> keeps q s \<and> (strict \<longrightarrow> lowers q s))"

lemma lowers_keeps: "lowers q s \<Longrightarrow> keeps q s"
  by (auto simp: lowers_def keeps_def intro: less_imp_le)

lemma returns_lowers: "lowers q s \<Longrightarrow> returns b (Some q) s"
  by (simp add: returns_def lowers_keeps)

lemma returns_weaken: "returns b r s \<Longrightarrow> (c \<Longrightarrow> b) \<Longrightarrow> returns c r s"
  by (auto simp: returns_def)

lemma returns_less: "returns False r s1 \<Longrightarrow> left s1 < left s \<Longrightarrow> returns b r s"
  by (fastforce simp: returns_def keeps_def lowers_def)

lemma returns_bind:
  assumes "returns b r s" and "\<And>v s1. left s1 \<le> left s \<Longrightarrow> returns False (K v s1) s1"
  shows "returns b (bindF r K) s"
proof -
  obtain q where q: "r = Some q" "keeps q s" "b \<longrightarrow> lowers q s" using assms(1) by (auto simp: returns_def)
  obtain x s1 where x: "q = (x, s1)" by fastforce
  show ?thesis
  proof (cases x)
    case (Inl e)
    then show ?thesis using q x by (auto simp: bindF_def returns_def keeps_def lowers_def)
  next
    case (Inr v)
    then have le: "left s1 \<le> left s" and lt: "b \<Longrightarrow> left s1 < left s" using q x by (auto simp: keeps_def lowers_def)
    have K: "returns False (K v s1) s1" by (rule assms(2) [OF le])
    have "returns b (K v s1) s"
      using K le lt returns_less [OF K] by (cases b) (auto simp: returns_def keeps_def intro: order_trans)
    then show ?thesis using q x Inr by (simp add: bindF_def)
  qed
qed

lemma returns_bind_strict:
  assumes "lowers q s" and "\<And>v s1. left s1 < left s \<Longrightarrow> returns False (K v s1) s1"
  shows "returns b (bindF (Some q) K) s"
proof -
  obtain x s1 where x: "q = (x, s1)" by fastforce
  show ?thesis
  proof (cases x)
    case (Inl e)
    then show ?thesis using assms(1) x by (auto simp: bindF_def lowers_def returns_def keeps_def)
  next
    case (Inr v)
    then have "left s1 < left s" using assms(1) x by (simp add: lowers_def)
    then have "returns b (K v s1) s" using assms(2) returns_less by blast
    then show ?thesis using x Inr by (simp add: bindF_def)
  qed
qed

lemma ListEnd_keeps: "keeps (ListEnd s) s"
  by (auto simp: ListEnd_def keeps_def left_def split: list.splits if_splits)

lemma keeps_wrapped: "keeps q s \<Longrightarrow> keeps (wrapped q) s"
  by (auto simp: keeps_def wrapped_def wrap_EOL split: prod.splits sum.splits)

lemma keeps_mapRes: "keeps q s \<Longrightarrow> keeps (mapRes f q) s"
  by (auto simp: keeps_def mapRes_def bindE_def split: prod.splits sum.splits)

lemma returns_keeps: "keeps q s \<Longrightarrow> returns False (Some q) s"
  by (simp add: returns_def)

lemma sliceElems_returns:
  assumes "\<And>s'. left s' \<le> left s \<Longrightarrow> returns True (elemdec s') s'" and "left s < fuel"
  shows "returns False (decodeSliceElems fuel elemdec s) s"
  using assms
proof (induction fuel arbitrary: s)
  case 0
  then show ?case by simp
next
  case (Suc fuel)
  obtain q where q: "elemdec s = Some q" "lowers q s" using Suc.prems(1) [of s] by (auto simp: returns_def)
  obtain x s1 where x: "q = (x, s1)" by fastforce
  show ?case
  proof (cases x)
    case (Inl e)
    then show ?thesis using q x by (auto simp: returns_def keeps_def lowers_def)
  next
    case (Inr v)
    then have lt: "left s1 < left s" using q x by (simp add: lowers_def)
    have "returns False (decodeSliceElems fuel elemdec s1) s1"
      by (rule Suc.IH) (use Suc.prems lt in auto)
    then have "returns False (bindF (decodeSliceElems fuel elemdec s1) (\<lambda>vs s. Some (Inr (v # vs), s))) s1"
      by (rule returns_bind) (simp add: returns_def keeps_def)
    then show ?thesis using q x Inr lt by (simp add: returns_less)
  qed
qed

lemma listSlice_returns:
  assumes "\<And>s'. left s' < left s \<Longrightarrow> returns True (elemdec s') s'" and "left s \<le> fuel"
  shows "returns b (decodeListSlice fuel elemdec s) s"
  unfolding decodeListSlice_def
proof (rule returns_bind_strict [OF lowers_wrapped [OF lowers_streamList]])
  fix n s1
  assume lt: "left s1 < left s"
  have "returns False (decodeSliceElems fuel elemdec s1) s1"
    by (rule sliceElems_returns) (use assms lt in auto)
  then show "returns False (if n = 0 then Some (mapRes (\<lambda>_. VList []) (ListEnd s1))
      else bindF (decodeSliceElems fuel elemdec s1) (\<lambda>vs s. Some (mapRes (\<lambda>_. VList vs) (ListEnd s)))) s1"
    by (auto intro!: returns_bind returns_keeps keeps_mapRes ListEnd_keeps)
qed

lemma interface_returns: "left s < fuel \<Longrightarrow> returns True (decodeInterface fuel s) s"
proof (induction fuel arbitrary: s)
  case 0
  then show ?case by simp
next
  case (Suc fuel)
  obtain r s1 where r: "streamKind s = (r, s1)" by fastforce
  show ?case
  proof (cases r)
    case (Inl e)
    then show ?thesis using r streamKind_left(2) [of s s1] by (auto simp: bindF_def returns_def keeps_def lowers_def)
  next
    case (Inr x)
    then have le: "left s1 \<le> left s" using r streamKind_left(1) by blast
    have "returns True (decodeListSlice fuel (decodeInterface fuel) s1) s1"
      by (rule listSlice_returns) (use Suc le in auto)
    then have "returns True (bindF (decodeListSlice fuel (decodeInterface fuel) s1)
        (\<lambda>v s. Some (Inr (VIface (Some (TSlice TInterface, v))), s))) s1"
      by (rule returns_bind) (simp add: returns_def keeps_def)
    moreover have "returns True (Some (mapRes (\<lambda>b. VIface (Some (TBytes, VBytes b))) (streamBytes s1))) s1"
      by (rule returns_lowers [OF lowers_mapRes [OF lowers_streamBytes]])
    moreover have "returns True z s" if "returns True z s1" for z :: "rval fres"
      using that le by (auto simp: returns_def keeps_def lowers_def intro: order_trans less_le_trans)
    ultimately show ?thesis using r Inr by (cases x) (simp add: bindF_def)
  qed
qed

lemma arrayLoop_returns:
  assumes "\<And>s'. left s' \<le> left s \<Longrightarrow> returns False (elemdec s') s'"
  shows "returns False (arrayLoop n elemdec s) s"
  using assms
proof (induction n arbitrary: s)
  case 0
  then show ?case by (simp add: returns_def keeps_def)
next
  case (Suc n)
  obtain q where q: "elemdec s = Some q" "keeps q s" using Suc.prems [of s] by (auto simp: returns_def)
  obtain x s1 where x: "q = (x, s1)" by fastforce
  show ?case
  proof (cases x)
    case (Inl e)
    then show ?thesis using q x by (auto simp: returns_def keeps_def)
  next
    case (Inr v)
    then have le: "left s1 \<le> left s" using q x by (simp add: keeps_def)
    have "returns False (arrayLoop n elemdec s1) s1" by (rule Suc.IH) (use Suc.prems le in auto)
    then have "returns False (bindF (arrayLoop n elemdec s1) (\<lambda>vs s. Some (Inr (v # vs), s))) s1"
      by (rule returns_bind) (simp add: returns_def keeps_def)
    then show ?thesis using q x Inr le by (auto simp: returns_def keeps_def intro: order_trans)
  qed
qed

text \<open>The only type whose reader may succeed without reading is the array of one byte.  A type is
  free of loops when no slice in it has such elements.\<close>

fun progress :: "rtype \<Rightarrow> bool" where
  "progress (TByteArray n) \<longleftrightarrow> n \<noteq> 1"
| "progress (TPtr t) \<longleftrightarrow> progress t"
| "progress _ \<longleftrightarrow> True"

fun loopFree :: "rtype \<Rightarrow> bool"
  and loopFreeFields :: "(rtype \<times> tags) list \<Rightarrow> bool" where
  "loopFree (TSlice t) \<longleftrightarrow> progress t \<and> loopFree t"
| "loopFree (TArray n t) \<longleftrightarrow> loopFree t"
| "loopFree (TStruct fs) \<longleftrightarrow> loopFreeFields fs"
| "loopFree (TPtr t) \<longleftrightarrow> loopFree t"
| "loopFree (TByteArray n) \<longleftrightarrow> True"
| "loopFree _ \<longleftrightarrow> True"
| "loopFreeFields [] \<longleftrightarrow> True"
| "loopFreeFields ((t, _) # fs) \<longleftrightarrow> loopFree t \<and> loopFreeFields fs"

lemma byteArray_returns: "returns (n \<noteq> 1) (Some (decodeByteArray n s)) s"
proof (cases "n = 1")
  case True
  obtain r s1 where r: "streamKind s = (r, s1)" by fastforce
  obtain x s2 where x: "streamUint 64 s1 = (x, s2)" by fastforce
  have kinded: "left s2 \<le> left s1" if "skind s1 \<noteq> None" "kinderr s1 = None" "the (skind s1) = Byte"
    using x that by (auto simp: streamUint_def streamKind_def kindOf_def left_def split: if_splits)
  show ?thesis
  proof (cases r)
    case (Inl e)
    then show ?thesis
      using r streamKind_left(2) [of s s1] True by (auto simp: decodeByteArray_def returns_def keeps_def)
  next
    case (Inr y)
    then have le: "skind s1 \<noteq> None \<and> left s1 \<le> left s" using r streamKind_left(1) by blast
    have c: "kinderr s1 = None \<and> y = (the (skind s1), ssize s1)"
      using r Inr by (auto simp: streamKind_def kindOf_def Let_def split: if_splits option.splits prod.splits)
    have f: "returns False (Some (bindE (readFull (word_of_nat n) s1) (\<lambda>b s.
        if ssize s1 = 1 \<and> hd b < 128 then (Inl (wrapStreamError ErrCanonSize), s) else (Inr (VBytes b), s)))) s1"
      by (rule returns_lowers) (use le in \<open>auto simp: wrapStreamError_def intro!: lowers_full lowers_err lowers_ret\<close>)
    have "returns False (Some (decodeByteArray n s)) s1"
      using True r Inr c f x kinded le
      by (auto simp: decodeByteArray_def wrapStreamError_def returns_def keeps_def split: Kind.splits sum.splits)
    then show ?thesis using True le by (auto simp: returns_def keeps_def intro: order_trans)
  qed
next
  case False
  then show ?thesis by (simp add: returns_lowers lowers_byteArray)
qed

lemma pointer_returns:
  assumes "\<And>s'. left s' \<le> left s \<Longrightarrow> returns b (decoder fuel t noTags s') s'"
  shows "returns b (decoder fuel (TPtr t) ts s) s"
proof -
  have step: "returns b (bindF (decoder fuel t noTags s') (\<lambda>v s. Some (Inr (VPtr (Some v)), s))) s'"
    if "left s' \<le> left s" for s'
    by (rule returns_bind [OF assms [OF that]]) (simp add: returns_def keeps_def)
  show ?thesis
  proof (cases "nilOK ts")
    case False
    then show ?thesis using step [of s] by simp
  next
    case True
    obtain r s1 where r: "streamKind s = (r, s1)" by fastforce
    show ?thesis
    proof (cases r)
      case (Inl e)
      then show ?thesis using True r streamKind_left(2) [of s s1]
        by (auto simp: returns_def keeps_def lowers_def left_def)
    next
      case (Inr y)
      then have le: "skind s1 \<noteq> None" "left s1 \<le> left s" using r streamKind_left(1) by blast+
      then have "left (s1\<lparr>skind := None\<rparr>) < left s" by (auto simp: left_def)
      then have nil: "returns b (Some (Inr (VPtr None), s1\<lparr>skind := None\<rparr>)) s"
        by (auto simp: returns_def keeps_def lowers_def)
      have "returns b (bindF (decoder fuel t noTags s1) (\<lambda>v s. Some (Inr (VPtr (Some v)), s))) s"
        using step [OF le(2)] le(2) by (auto simp: returns_def keeps_def lowers_def intro: order_trans less_le_trans)
      then show ?thesis using True r Inr nil by (cases y) simp
    qed
  qed
qed

lemma fields_step:
  assumes "returns False (decoder fuel t ts s) s"
    and "\<And>s'. left s' \<le> left s \<Longrightarrow> returns False (decodeFields fuel fs s') s'"
  shows "returns False (decodeFields fuel ((t, ts) # fs) s) s"
proof -
  obtain q where q: "decoder fuel t ts s = Some q" "keeps q s" using assms(1) by (auto simp: returns_def)
  obtain x s1 where x: "q = (x, s1)" by fastforce
  show ?thesis
  proof (cases x)
    case (Inl e)
    then show ?thesis using q x by (auto simp: returns_def keeps_def)
  next
    case (Inr v)
    then have le: "left s1 \<le> left s" using q x by (simp add: keeps_def)
    have "returns False (bindF (decodeFields fuel fs s1) (\<lambda>vs s. Some (Inr (v # vs), s))) s1"
      by (rule returns_bind [OF assms(2) [OF le]]) (simp add: returns_def keeps_def)
    then show ?thesis using q x Inr le by (auto simp: returns_def keeps_def intro: order_trans)
  qed
qed

lemma struct_returns:
  assumes "\<And>s'. left s' < left s \<Longrightarrow> returns False (decodeFields fuel fs s') s'"
  shows "returns b (decoder fuel (TStruct fs) ts s) s"
  unfolding decoder.simps
  by (rule returns_bind_strict [OF lowers_wrapped [OF lowers_streamList]])
    (auto intro!: returns_bind assms returns_keeps keeps_mapRes keeps_wrapped ListEnd_keeps)

lemma array_returns:
  assumes "\<And>s'. left s' < left s \<Longrightarrow> returns False (decoder fuel t noTags s') s'"
  shows "returns b (decoder fuel (TArray n t) ts s) s"
  unfolding decoder.simps decodeListArray_def
  by (rule returns_bind_strict [OF lowers_wrapped [OF lowers_streamList]])
    (auto intro!: returns_bind arrayLoop_returns assms returns_keeps keeps_mapRes keeps_wrapped ListEnd_keeps)

lemma slice_returns:
  assumes "\<And>s'. left s' \<le> left s \<Longrightarrow> returns True (decoder fuel t noTags s') s'" and "left s < fuel"
  shows "returns (\<not> tail ts) (decoder fuel (TSlice t) ts s) s"
proof (cases "tail ts")
  case True
  have "returns False (decodeSliceElems fuel (\<lambda>s. decoder fuel t noTags s) s) s"
    by (rule sliceElems_returns) (use assms in auto)
  then have "returns False (bindF (decodeSliceElems fuel (\<lambda>s. decoder fuel t noTags s) s) (\<lambda>vs s. Some (Inr (VList vs), s))) s"
    by (rule returns_bind) (simp add: returns_def keeps_def)
  then show ?thesis using True by simp
next
  case False
  then show ?thesis using listSlice_returns [of s "\<lambda>s. decoder fuel t noTags s" fuel] assms by simp
qed

lemma decoder_returns:
  "loopFree t \<Longrightarrow> left s < fuel \<Longrightarrow> returns (progress t \<and> \<not> tail ts) (decoder fuel t ts s) s"
  "loopFreeFields fs \<Longrightarrow> left s < fuel \<Longrightarrow> returns False (decodeFields fuel fs s) s"
proof (induction t and fs arbitrary: ts s and s rule: loopFree_loopFreeFields.induct)
  case (1 t)
  have "returns True (decoder fuel t noTags s') s'" if "left s' \<le> left s" for s'
    by (rule returns_weaken [OF 1(1)]) (use 1 that in auto)
  then have "returns (\<not> tail ts) (decoder fuel (TSlice t) ts s) s" by (rule slice_returns) (use 1 in auto)
  then show ?case by (rule returns_weaken) simp
next
  case (2 n t)
  have "returns False (decoder fuel t noTags s') s'" if "left s' < left s" for s'
    by (rule returns_weaken [OF 2(1)]) (use 2 that in auto)
  then show ?case by (rule array_returns)
next
  case (3 fs)
  then show ?case by (intro struct_returns) auto
next
  case (4 t)
  have "returns (progress t) (decoder fuel t noTags s') s'" if "left s' \<le> left s" for s'
    by (rule returns_weaken [OF 4(1)]) (use 4 that in auto)
  then have "returns (progress t) (decoder fuel (TPtr t) ts s) s" by (rule pointer_returns)
  then show ?case by (rule returns_weaken) simp
next
  case (5 n)
  then show ?case using byteArray_returns [of n s] by (auto intro: returns_weaken)
next
  case 7
  then show ?case by (simp add: returns_def keeps_def)
next
  case (8 t ts' fs)
  have "returns False (decoder fuel t ts' s) s"
    by (rule returns_weaken [OF 8(1)]) (use 8 in auto)
  then show ?case by (rule fields_step) (use 8 in auto)
qed (auto simp: decodeRawValue_def decodeBigInt_def decodeBigIntNoPtr_def decodeUint_def decodeInt_def decodeBool_def
  decodeString_def decodeByteSlice_def
  intro!: returns_lowers returns_weaken [OF interface_returns] lowers_mapRes lowers_wrapped lowers_Raw lowers_big lowers_streamUint lowers_streamInt
  lowers_streamBool lowers_streamBytes lowers_float lowers_err)

text \<open>C37. Termination of the decoder: on a type in which no slice has elements of type
  \<^verbatim>\<open>[1]byte\<close>, \<^verbatim>\<open>DecodeBytes\<close> returns for every input, a value or an error; fuel of one more than
  twice the length of the input is enough.\<close>

theorem DecodeBytes_returns:
  assumes "loopFree t" and "2 * length b < fuel"
  shows "\<exists>r. DecodeBytes fuel b t = Some r"
  using decoder_returns(1) [OF assms(1), of "Reset b (word_of_nat (length b))" fuel noTags] assms(2)
  by (auto simp: DecodeBytes_def streamDecode_def Reset_def left_def returns_def)

theorem DecodeBytes_returns_witness:
  "\<exists>r. DecodeBytes 9 [0xC3, 0x01, 0x80, 0x05] (TSlice (TUint 64)) = Some r"
  by (rule DecodeBytes_returns) simp_all

lemma stuck: "elemdec s = Some (Inr v, s) \<Longrightarrow> decodeSliceElems fuel elemdec s = None"
  by (induction fuel) (simp_all add: bindF_def)

lemma stuck_later: "elemdec s = Some (Inr v, s1) \<Longrightarrow> elemdec s1 = Some (Inr v, s1) \<Longrightarrow> decodeSliceElems fuel elemdec s = None"
  by (cases fuel) (simp_all add: bindF_def stuck)

text \<open>C38. The restriction is needed: on the two bytes \<^verbatim>\<open>C1 00\<close> the decoder of \<^verbatim>\<open>[][1]byte\<close> never returns,
  whatever the fuel.  The reader of \<^verbatim>\<open>[1]byte\<close> drops the error of \<^verbatim>\<open>Stream.Uint\<close> for the byte zero,
  the byte stays in the header cache, and the loop of \<^verbatim>\<open>decodeSliceElems\<close> appends it for ever.\<close>

theorem DecodeBytes_loops: "DecodeBytes fuel [0xC1, 0x00] (TSlice (TByteArray 1)) = None"
proof -
  let ?s = "Reset [0xC1, 0x00] 2\<lparr>input := [0x00], remaining := 1, stack := [\<lparr>lpos = 0, lsize = 1\<rparr>]\<rparr>"
  let ?s1 = "?s\<lparr>input := [], remaining := 0, stack := [\<lparr>lpos = 1, lsize = 1\<rparr>], skind := Some Byte\<rparr>"
  have l: "streamList (Reset [0xC1, 0x00] 2) = (Inr 1, ?s)" by code_simp
  have b: "decodeByteArray 1 ?s = (Inr (VBytes [0]), ?s1)" by code_simp
  have b1: "decodeByteArray 1 ?s1 = (Inr (VBytes [0]), ?s1)" by code_simp
  have "decodeSliceElems fuel (\<lambda>s. decoder fuel (TByteArray 1) noTags s) ?s = None"
    by (rule stuck_later [of _ _ "VBytes [0]" ?s1]) (simp_all only: decoder.simps b b1)
  then show ?thesis using l
    by (simp add: DecodeBytes_def streamDecode_def decodeListSlice_def bindF_def wrapped_def
        del: decoder.simps(9) One_nat_def)
qed

end
