(* ===== verification/PropertyDb.thy ===== *)
theory PropertyDb
  imports Mediator RlpRoundTrip RlpTermination
begin

text \<open>
  The database of the DAG (\<^verbatim>\<open>common/ptndb/memory_database.go\<close>) and the storage of the global
  properties, the schedule and the mediators in it (\<^verbatim>\<open>dag/storage/storage.go\<close>, \<^verbatim>\<open>getor.go\<close>,
  \<^verbatim>\<open>global_property.go\<close>, \<^verbatim>\<open>mediator_schedule.go\<close>, \<^verbatim>\<open>mediator.go\<close>).  Every value is written and read
  through the RLP codec, at the Go type of its struct.
\<close>

section \<open>The database\<close>

type_synonym db = "bytes \<Rightarrow> bytes option"

definition dbGet :: "bytes \<Rightarrow> db \<Rightarrow> rerr + bytes" where
  "dbGet key d = (case d key of Some entry \<Rightarrow> Inr entry | None \<Rightarrow> Inl (RlpErr ''leveldb: not found''))"

definition dbPut :: "bytes \<Rightarrow> bytes \<Rightarrow> db \<Rightarrow> db" where
  "dbPut key val d = d(key \<mapsto> val)"

definition dbDelete :: "bytes \<Rightarrow> db \<Rightarrow> db" where
  "dbDelete key d = d(key := None)"

definition dbHas :: "bytes \<Rightarrow> db \<Rightarrow> bool" where
  "dbHas key d \<longleftrightarrow> d key \<noteq> None"

definition StoreBytes :: "bytes \<Rightarrow> rtype \<Rightarrow> rval \<Rightarrow> db \<Rightarrow> (rerr + unit) \<times> db" where
  "StoreBytes key t v d =
    (case EncodeToBytes t v of
       Inl e \<Rightarrow> (Inl e, d)
     | Inr val \<Rightarrow>
         (case dbGet key d of
            Inl e \<Rightarrow> if e = RlpErr ''leveldb: not found'' then (Inr (), dbPut key val d) else (Inl e, d)
          | Inr _ \<Rightarrow> (Inr (), dbPut key val (dbDelete key d))))"

text \<open>\<^verbatim>\<open>rlp.DecodeBytes\<close> with fuel that is enough for every type stored here.\<close>

definition decodeAll :: "bytes \<Rightarrow> rtype \<Rightarrow> rerr + rval" where
  "decodeAll data t = (case DecodeBytes (Suc (2 * length data)) data t of Some r \<Rightarrow> r | None \<Rightarrow> Inl RlpPanic)"

definition retrieve :: "bytes \<Rightarrow> rtype \<Rightarrow> db \<Rightarrow> rerr + rval" where
  "retrieve key t d = bindR (dbGet key d) (\<lambda>data. decodeAll data t)"

text \<open>Strings as bytes.\<close>

definition strBytes :: "string \<Rightarrow> bytes" where
  "strBytes s = map (\<lambda>c. word_of_nat (of_char c)) s"

definition bytesStr :: "bytes \<Rightarrow> string" where
  "bytesStr b = map (\<lambda>x. char_of (unat x)) b"

text \<open>The content of a value that has been decoded at its type.\<close>

definition asList :: "rval \<Rightarrow> rval list" where
  "asList v = (case v of VList vs \<Rightarrow> vs | _ \<Rightarrow> [])"

definition asBytes :: "rval \<Rightarrow> bytes" where
  "asBytes v = (case v of VBytes b \<Rightarrow> b | _ \<Rightarrow> [])"

definition asString :: "rval \<Rightarrow> string" where
  "asString v = (case v of VString b \<Rightarrow> bytesStr b | _ \<Rightarrow> [])"

definition asUint :: "rval \<Rightarrow> uint64" where
  "asUint v = (case v of VUint n \<Rightarrow> n | _ \<Rightarrow> 0)"

definition asInt :: "rval \<Rightarrow> int" where
  "asInt v = (case v of VInt i \<Rightarrow> i | _ \<Rightarrow> 0)"

definition plainFields :: "rtype list \<Rightarrow> (rtype \<times> tags) list" where
  "plainFields ts = map (\<lambda>t. (t, noTags)) ts"

section \<open>Dynamic global properties\<close>

definition DynGlobalPropDBKey :: bytes where
  "DynGlobalPropDBKey = strBytes (''dp'' @ ''DynamicGlobalProperty'')"

definition dgpFields :: "(rtype \<times> tags) list" where
  "dgpFields = plainFields [TUint 64, TByteArray 32, TInt 64, TUint 64, TUint 32]"

definition dgpValue :: "DynamicGlobalProperty \<Rightarrow> rval" where
  "dgpValue dgp = VList [VUint (HeadUnitNum dgp), VBytes (HeadUnitHash dgp), VInt (HeadUnitTime dgp),
     VUint (CurrentASlot dgp), VUint (ucast (LastIrreversibleUnitNum dgp))]"

definition StoreDynGlobalProp :: "DynamicGlobalProperty \<Rightarrow> db \<Rightarrow> (rerr + unit) \<times> db" where
  "StoreDynGlobalProp dgp = StoreBytes DynGlobalPropDBKey (TStruct dgpFields) (dgpValue dgp)"

text \<open>The decoder writes into the fields of an existing struct as it goes.  A field whose reader
  fails and the fields after it keep what they had.\<close>

fun partialFields :: "nat \<Rightarrow> (rtype \<times> tags) list \<Rightarrow> Stream \<Rightarrow> rval list" where
  "partialFields fuel [] s = []"
| "partialFields fuel ((t, ts) # fs) s =
    (case decoder fuel t ts s of Some (Inr v, s) \<Rightarrow> v # partialFields fuel fs s | _ \<Rightarrow> [])"

definition structPrefix :: "bytes \<Rightarrow> (rtype \<times> tags) list \<Rightarrow> rval list" where
  "structPrefix data fs =
    (case streamList (Reset data (word_of_nat (length data))) of
       (Inl e, s) \<Rightarrow> []
     | (Inr n, s) \<Rightarrow> partialFields (Suc (2 * length data)) fs s)"

definition fillDyn :: "rval list \<Rightarrow> DynamicGlobalProperty \<Rightarrow> DynamicGlobalProperty" where
  "fillDyn vs dgp =
    \<lparr>HeadUnitNum = (if 0 < length vs then asUint (vs ! 0) else HeadUnitNum dgp),
     HeadUnitHash = (if 1 < length vs then asBytes (vs ! 1) else HeadUnitHash dgp),
     HeadUnitTime = (if 2 < length vs then asInt (vs ! 2) else HeadUnitTime dgp),
     CurrentASlot = (if 3 < length vs then asUint (vs ! 3) else CurrentASlot dgp),
     LastIrreversibleUnitNum = (if 4 < length vs then ucast (asUint (vs ! 4)) else LastIrreversibleUnitNum dgp)\<rparr>"

definition RetrieveDynGlobalProp :: "db \<Rightarrow> DynamicGlobalProperty \<times> rerr option" where
  "RetrieveDynGlobalProp d =
    (case dbGet DynGlobalPropDBKey d of
       Inl e \<Rightarrow> (NewDynGlobalProp, Some e)
     | Inr data \<Rightarrow>
         (fillDyn (structPrefix data dgpFields) NewDynGlobalProp,
          case decodeAll data (TStruct dgpFields) of Inl e \<Rightarrow> Some e | Inr _ \<Rightarrow> None))"

section \<open>The schedule\<close>

definition MediatorSchlDBKey :: bytes where
  "MediatorSchlDBKey = strBytes (''ms'' @ ''MediatorSchedule'')"

definition schlType :: rtype where
  "schlType = TStruct (plainFields [TSlice (TByteArray 21)])"

definition StoreMediatorSchl :: "MediatorSchedule \<Rightarrow> db \<Rightarrow> (rerr + unit) \<times> db" where
  "StoreMediatorSchl ms =
    StoreBytes MediatorSchlDBKey (TPtr schlType) (VPtr (Some (VList [VList (map VBytes (CurrentShuffledMediators ms))])))"

definition asSchl :: "rval \<Rightarrow> MediatorSchedule" where
  "asSchl v = \<lparr>CurrentShuffledMediators = map asBytes (asList (asList v ! 0))\<rparr>"

text \<open>The addresses read before an error in the stored bytes are not kept here; what
  \<^term>\<open>StoreMediatorSchl\<close> writes decodes without one.\<close>

definition RetrieveMediatorSchl :: "db \<Rightarrow> MediatorSchedule \<times> rerr option" where
  "RetrieveMediatorSchl d =
    (case retrieve MediatorSchlDBKey schlType d of
       Inl e \<Rightarrow> (NewMediatorSchl, Some e)
     | Inr v \<Rightarrow> (asSchl v, None))"

section \<open>Global properties\<close>

text \<open>Curve points, base 58 and network nodes belong to other packages: a record of the functions
  the storage calls.\<close>

record ('pt, 'nd) medOps =
  marshalPoint :: "'pt \<Rightarrow> bytes"
  unmarshalPoint :: "bytes \<Rightarrow> 'pt"
  nullPoint :: 'pt
  base58Encode :: "bytes \<Rightarrow> string"
  base58Decode :: "string \<Rightarrow> bytes"
  nodeString :: "'nd \<Rightarrow> string"
  ParseNode :: "string \<Rightarrow> 'nd option"

definition PointToStr :: "('pt, 'nd) medOps \<Rightarrow> 'pt \<Rightarrow> string" where
  "PointToStr ops pub = base58Encode ops (marshalPoint ops pub)"

definition StrToPoint :: "('pt, 'nd) medOps \<Rightarrow> string \<Rightarrow> 'pt" where
  "StrToPoint ops pubStr = unmarshalPoint ops (base58Decode ops pubStr)"

definition liftErr :: "serr + 'a \<Rightarrow> rerr + 'a" where
  "liftErr r = (case r of Inl Panic \<Rightarrow> Inl RlpPanic | Inl _ \<Rightarrow> Inl (RlpErr ''error'') | Inr a \<Rightarrow> Inr a)"

text \<open>The struct that is serialised instead of the properties.\<close>

record globalProperty =
  gptParams :: ChainParameters
  gptMediators :: "string list"
  gptPubKey :: string

definition GlobalPropDBKey :: bytes where
  "GlobalPropDBKey = strBytes (''gp'' @ ''GlobalProperty'')"

definition gptType :: rtype where
  "gptType = TStruct (plainFields
     [TStruct (plainFields [TStruct (plainFields [TUint 64]), TUint 8, TUint 32]), TSlice TString, TString])"

definition gptValue :: "globalProperty \<Rightarrow> rval" where
  "gptValue g = VList
     [VList [VList [VUint (MediatorCreateFee (CurrentFees (gptParams g)))], VUint (ucast (MediatorInterval (gptParams g))),
        VUint (ucast (MaintenanceInterval (gptParams g)))],
      VList (map (\<lambda>s. VString (strBytes s)) (gptMediators g)), VString (strBytes (gptPubKey g))]"

definition zeroGpt :: globalProperty where
  "zeroGpt = \<lparr>gptParams = \<lparr>CurrentFees = \<lparr>MediatorCreateFee = 0\<rparr>, MediatorInterval = 0, MaintenanceInterval = 0\<rparr>,
     gptMediators = [], gptPubKey = []\<rparr>"

definition asGpt :: "rval \<Rightarrow> globalProperty" where
  "asGpt v =
    (let cp = asList (asList v ! 0) in
     \<lparr>gptParams = \<lparr>CurrentFees = \<lparr>MediatorCreateFee = asUint (asList (cp ! 0) ! 0)\<rparr>,
        MediatorInterval = ucast (asUint (cp ! 1)), MaintenanceInterval = ucast (asUint (cp ! 2))\<rparr>,
      gptMediators = map asString (asList (asList v ! 1)), gptPubKey = asString (asList v ! 2)\<rparr>)"

definition getGPT :: "prims \<Rightarrow> ('pt, 'nd) medOps \<Rightarrow> 'pt GlobalProperty \<Rightarrow> globalProperty" where
  "getGPT p ops gp =
    \<lparr>gptParams = ChainParams gp, gptMediators = map (\<lambda>(medAdd, _). Str p medAdd) (ActiveMediators gp),
     gptPubKey = PointToStr ops (GroupPubKey gp)\<rparr>"

primrec readActive :: "prims \<Rightarrow> string list \<Rightarrow> (Address \<times> bool) list \<Rightarrow> rerr + (Address \<times> bool) list" where
  "readActive p [] ams = Inr ams"
| "readActive p (addStr # rest) ams = bindR (liftErr (StrToMedAdd p addStr)) (\<lambda>a. readActive p rest (AList.update a True ams))"

definition getGP :: "prims \<Rightarrow> ('pt, 'nd) medOps \<Rightarrow> globalProperty \<Rightarrow> rerr + 'pt GlobalProperty" where
  "getGP p ops gpt =
    bindR (readActive p (gptMediators gpt) []) (\<lambda>ams.
      Inr ((NewGlobalProp (nullPoint ops))
        \<lparr>ChainParams := gptParams gpt, ActiveMediators := ams, GroupPubKey := StrToPoint ops (gptPubKey gpt)\<rparr>))"

definition StoreGlobalProp :: "prims \<Rightarrow> ('pt, 'nd) medOps \<Rightarrow> 'pt GlobalProperty \<Rightarrow> db \<Rightarrow> (rerr + unit) \<times> db" where
  "StoreGlobalProp p ops gp =
    StoreBytes GlobalPropDBKey (TPtr gptType) (VPtr (Some (gptValue (getGPT p ops gp))))"

text \<open>The error is logged and returned beside the properties made from what was read; here nothing is
  taken from bytes that do not decode.\<close>

definition RetrieveGlobalProp :: "prims \<Rightarrow> ('pt, 'nd) medOps \<Rightarrow> db \<Rightarrow> (rerr + 'pt GlobalProperty) \<times> rerr option" where
  "RetrieveGlobalProp p ops d =
    (case retrieve GlobalPropDBKey gptType d of
       Inl e \<Rightarrow> (getGP p ops zeroGpt, Some e)
     | Inr v \<Rightarrow> (getGP p ops (asGpt v), None))"

section \<open>Mediators\<close>

record ('pt, 'nd) Mediator =
  medAddress :: Address
  InitPartPub :: 'pt
  medNode :: "'nd option"
  Url :: string
  TotalMissed :: int

record MediatorInfo =
  infoAddStr :: string
  infoInitPartPub :: string
  infoNode :: string
  infoUrl :: string
  infoTotalMissed :: int

definition mediatorKey :: "prims \<Rightarrow> Address \<Rightarrow> bytes" where
  "mediatorKey p address = strBytes (''mi'' @ Str p address)"

text \<open>A nil node is dereferenced by its \<^verbatim>\<open>String\<close> method.  Neither direction copies \<^verbatim>\<open>Url\<close>.\<close>

definition mediatorToInfo :: "prims \<Rightarrow> ('pt, 'nd) medOps \<Rightarrow> ('pt, 'nd) Mediator \<Rightarrow> rerr + MediatorInfo" where
  "mediatorToInfo p ops md =
    (case medNode md of
       None \<Rightarrow> Inl RlpPanic
     | Some nd \<Rightarrow>
         Inr \<lparr>infoAddStr = Str p (medAddress md), infoInitPartPub = PointToStr ops (InitPartPub md),
           infoNode = nodeString ops nd, infoUrl = [], infoTotalMissed = TotalMissed md\<rparr>)"

definition infoToMediator :: "prims \<Rightarrow> ('pt, 'nd) medOps \<Rightarrow> MediatorInfo \<Rightarrow> rerr + ('pt, 'nd) Mediator" where
  "infoToMediator p ops mi =
    bindR (liftErr (StrToMedAdd p (infoAddStr mi))) (\<lambda>a.
      Inr \<lparr>medAddress = a, InitPartPub = StrToPoint ops (infoInitPartPub mi), medNode = ParseNode ops (infoNode mi),
        Url = [], TotalMissed = infoTotalMissed mi\<rparr>)"

definition infoType :: rtype where
  "infoType = TStruct (plainFields [TString, TString, TString, TString, TInt 64])"

definition infoValue :: "MediatorInfo \<Rightarrow> rval" where
  "infoValue mi = VList [VString (strBytes (infoAddStr mi)), VString (strBytes (infoInitPartPub mi)),
     VString (strBytes (infoNode mi)), VString (strBytes (infoUrl mi)), VInt (infoTotalMissed mi)]"

definition asInfo :: "rval \<Rightarrow> MediatorInfo" where
  "asInfo v =
    (let fs = asList v in
     \<lparr>infoAddStr = asString (fs ! 0), infoInitPartPub = asString (fs ! 1), infoNode = asString (fs ! 2),
      infoUrl = asString (fs ! 3), infoTotalMissed = asInt (fs ! 4)\<rparr>)"

definition StoreMediatorInfo :: "prims \<Rightarrow> MediatorInfo \<Rightarrow> db \<Rightarrow> (rerr + unit) \<times> db" where
  "StoreMediatorInfo p mi d =
    (case liftErr (StrToMedAdd p (infoAddStr mi)) of
       Inl e \<Rightarrow> (Inl e, d)
     | Inr add \<Rightarrow> StoreBytes (mediatorKey p add) (TPtr infoType) (VPtr (Some (infoValue mi))) d)"

definition StoreMediator :: "prims \<Rightarrow> ('pt, 'nd) medOps \<Rightarrow> ('pt, 'nd) Mediator \<Rightarrow> db \<Rightarrow> (rerr + unit) \<times> db" where
  "StoreMediator p ops med d =
    (case mediatorToInfo p ops med of Inl e \<Rightarrow> (Inl e, d) | Inr mi \<Rightarrow> StoreMediatorInfo p mi d)"

text \<open>An error of \<^verbatim>\<open>retrieve\<close> is logged, and both results are nil.\<close>

definition RetrieveMediator :: "prims \<Rightarrow> ('pt, 'nd) medOps \<Rightarrow> Address \<Rightarrow> db \<Rightarrow> rerr + ('pt, 'nd) Mediator option" where
  "RetrieveMediator p ops address d =
    (case retrieve (mediatorKey p address) infoType d of
       Inl e \<Rightarrow> Inr None
     | Inr v \<Rightarrow> bindR (infoToMediator p ops (asInfo v)) (\<lambda>med. Inr (Some med)))"

definition IsMediator :: "prims \<Rightarrow> Address \<Rightarrow> db \<Rightarrow> bool" where
  "IsMediator p address d = dbHas (mediatorKey p address) d"

section \<open>Storing and retrieving\<close>

lemma dbGet_simps [simp]: "dbGet k (dbPut k v d) = Inr v" "k \<noteq> j \<Longrightarrow> dbGet k (dbPut j v d) = dbGet k d"
  "k \<noteq> j \<Longrightarrow> dbGet k (dbDelete j d) = dbGet k d"
  by (simp_all add: dbGet_def dbPut_def dbDelete_def)

text \<open>A value fits when its encoding is a slice.\<close>

definition fits :: "rtype \<Rightarrow> rval \<Rightarrow> bool" where
  "fits t v \<longleftrightarrow> (\<exists>b. encSpec t noTags v = Some b \<and> length b < 2 ^ 63)"

lemma StoreBytes_fits:
  assumes "genTypeInfo t" and "encSpec t noTags v = Some b" and "length b < 2 ^ 63"
  shows "fst (StoreBytes key t v d) = Inr ()" and "dbGet key (snd (StoreBytes key t v d)) = Inr b"
    and "k \<noteq> key \<Longrightarrow> dbGet k (snd (StoreBytes key t v d)) = dbGet k d"
  using EncodeToBytes_spec [OF assms]
  by (auto simp: StoreBytes_def dbGet_def dbPut_def dbDelete_def split: option.splits)

lemma decodeAll_encoded:
  assumes "genTypeInfo t" and "canon t noTags v" and "encSpec t noTags v = Some b" and "length b < 2 ^ 63"
  shows "decodeAll b t = Inr v"
  using DecodeBytes_encoded [OF assms(1-3), of "[]"] assms(4) by (simp add: decodeAll_def)

lemma decodeAll_total: "loopFree t \<Longrightarrow> DecodeBytes (Suc (2 * length b)) b t = Some (decodeAll b t)"
  using decoder_returns(1) [of t "Reset b (word_of_nat (length b))" "Suc (2 * length b)" noTags]
  by (auto simp: decodeAll_def DecodeBytes_def streamDecode_def Reset_def left_def returns_def)

lemma store_retrieve:
  assumes "genTypeInfo t" and "canon t noTags v" and "fits t v"
  shows "retrieve key t (snd (StoreBytes key t v d)) = Inr v"
    and "retrieve key t (snd (StoreBytes key (TPtr t) (VPtr (Some v)) d)) = Inr v"
proof -
  obtain b where b: "encSpec t noTags v = Some b" "length b < 2 ^ 63" using assms(3) by (auto simp: fits_def)
  have "decodeAll b t = Inr v" by (rule decodeAll_encoded [OF assms(1,2) b])
  then show "retrieve key t (snd (StoreBytes key t v d)) = Inr v"
    "retrieve key t (snd (StoreBytes key (TPtr t) (VPtr (Some v)) d)) = Inr v"
    using StoreBytes_fits(2) [OF assms(1) b] StoreBytes_fits(2) [of "TPtr t" "VPtr (Some v)" b] assms(1) b
    by (simp_all add: retrieve_def)
qed

lemma partial_reads:
  "canonFields fs vs \<Longrightarrow> list_all (\<lambda>(t, ts). genTypeInfo t \<and> \<not> tail ts) fs \<Longrightarrow> encFields fs vs = Some a \<Longrightarrow>
    ready (a @ c) s \<Longrightarrow> length a < fuel \<Longrightarrow>
    \<exists>s'. partialFields fuel (fs @ gs) s = vs @ partialFields fuel gs s' \<and> ready c s'"
proof (induction fs arbitrary: vs a s)
  case Nil
  then show ?case by auto
next
  case (Cons f fs)
  obtain t ts where f: "f = (t, ts)" by fastforce
  obtain v us where vs: "vs = v # us" using Cons.prems(1) f by (cases vs) auto
  obtain a1 a2 where a: "encSpec t ts v = Some a1" "encFields fs us = Some a2" "a = a1 @ a2"
    using Cons.prems(3) f vs by (auto split: option.splits)
  have r: "ready (a1 @ (a2 @ c)) s" using Cons.prems(4) a(3) by simp
  have "reads (decoder fuel t ts) v a1 s"
    by (rule round_trip(1)) (use Cons.prems f vs a ready_first [OF r] weight_le [of t] in auto)
  then obtain s1 where s1: "decoder fuel t ts s = Some (Inr v, s1)" "adv (length a1) s s1" by (auto simp: reads_def)
  obtain s' where "partialFields fuel (fs @ gs) s1 = us @ partialFields fuel gs s'" "ready c s'"
    using Cons.IH [OF _ _ a(2) ready_adv [OF r s1(2)]] Cons.prems f vs a(3) by auto
  then show ?case using f vs s1(1) by auto
qed

lemma structPrefix_split:
  assumes "canonFields fs vs" and "list_all (\<lambda>(t, ts). genTypeInfo t \<and> \<not> tail ts) fs" and "encFields fs vs = Some a"
    and "b = encLst (a @ c)" and "length b < 2 ^ 63"
  obtains s' where "structPrefix b (fs @ gs) = vs @ partialFields (Suc (2 * length b)) gs s'" "ready c s'"
proof -
  let ?s = "Reset b (word_of_nat (length b))"
  have "length (encLst (a @ c)) \<noteq> 0" using headsize_le(1) [of "word_of_nat (length (a @ c))"] by (simp add: encLst_def)
  then have "b \<noteq> []" using assms(4) by auto
  then have "ready (encLst (a @ c)) ?s" using ready_Reset [of b "[]"] assms(4,5) by simp
  then obtain s1 n where s1: "streamList ?s = (Inr n, s1)" "ready (a @ c) s1" using list_reads by metis
  have "length a < Suc (2 * length b)" using assms(4) length_encLst(1) [of "a @ c"] by simp
  then obtain s' where "partialFields (Suc (2 * length b)) (fs @ gs) s1 = vs @ partialFields (Suc (2 * length b)) gs s'" "ready c s'"
    using partial_reads [OF assms(1-3) s1(2)] by blast
  then show thesis using that s1(1) by (simp add: structPrefix_def)
qed

lemma decodeFields_partial:
  "decodeFields fuel fs s = Some (Inr vs, s') \<Longrightarrow> partialFields fuel fs s = vs \<and> length vs = length fs"
proof (induction fs arbitrary: s vs)
  case (Cons f fs)
  then show ?case
    by (cases f) (fastforce simp: bindF_def split: option.splits sum.splits prod.splits if_splits)
qed auto

lemma decodeAll_struct:
  assumes "decodeAll b (TStruct fs) = Inr v"
  shows "v = VList (structPrefix b fs) \<and> length (structPrefix b fs) = length fs"
proof -
  let ?s = "Reset b (word_of_nat (length b))" and ?f = "Suc (2 * length b)"
  obtain r s1 where r: "streamList ?s = (r, s1)" by fastforce
  obtain s' where d: "decoder ?f (TStruct fs) noTags ?s = Some (Inr v, s')"
    using assms by (auto simp: decodeAll_def DecodeBytes_def streamDecode_def split: option.splits if_splits)
  then obtain n where n: "r = Inr n" using r by (cases r) (auto simp: bindF_def wrapped_def)
  obtain vs s2 where "decodeFields ?f fs s1 = Some (Inr vs, s2)" "v = VList vs"
    using d r n by (auto simp: bindF_def wrapped_def mapRes_def bindE_def split: option.splits sum.splits prod.splits)
  then show ?thesis using decodeFields_partial [of ?f fs s1 vs s2] r n by (simp add: structPrefix_def)
qed

section \<open>Dynamic properties in the database\<close>

definition dgpOK :: "DynamicGlobalProperty \<Rightarrow> bool" where
  "dgpOK dgp \<longleftrightarrow> length (HeadUnitHash dgp) = 32 \<and> - (2 ^ 63) \<le> HeadUnitTime dgp \<and> HeadUnitTime dgp < 2 ^ 63"

lemma length_enc: "length (encLst b) \<le> length b + 9" "length (encStr b) \<le> length b + 9"
  using headsize_le(2) [of "word_of_nat (length b)"] by (simp_all add: encLst_def encStr_def)

lemma length_encUint: "length (encUint i) \<le> 17"
  using length_enc(2) [of "if i = 0 then [] else putint i"] intsize_bounds(2) [of i] by (simp add: encUint_def split: if_splits)

lemma dgp_spec:
  "encSpec (TStruct dgpFields) noTags (dgpValue dgp) = Some (encLst ((encUint (HeadUnitNum dgp) @ encStr (HeadUnitHash dgp)) @
    encInt (HeadUnitTime dgp) @ encUint (CurrentASlot dgp) @ encUint (ucast (LastIrreversibleUnitNum dgp))))"
  by (simp add: dgpFields_def plainFields_def dgpValue_def)

lemma dgp_length:
  assumes "dgpOK dgp" and "encSpec (TStruct dgpFields) noTags (dgpValue dgp) = Some b"
  shows "length b < 2 ^ 63"
proof -
  have "size2 (HeadUnitTime dgp) \<le> 8" using size2_bits [of 64 "HeadUnitTime dgp"] assms(1) by (simp add: dgpOK_def)
  then have "length (encInt (HeadUnitTime dgp)) \<le> 9" by (simp add: encInt_def)
  moreover have "length (encStr (HeadUnitHash dgp)) \<le> 41" using length_enc(2) [of "HeadUnitHash dgp"] assms(1) by (simp add: dgpOK_def)
  ultimately have "length ((encUint (HeadUnitNum dgp) @ encStr (HeadUnitHash dgp)) @
    encInt (HeadUnitTime dgp) @ encUint (CurrentASlot dgp) @ encUint (ucast (LastIrreversibleUnitNum dgp))) \<le> 101"
    using length_encUint [of "HeadUnitNum dgp"] length_encUint [of "CurrentASlot dgp"]
      length_encUint [of "ucast (LastIrreversibleUnitNum dgp)"] by simp
  then have "length b \<le> 110" using assms(2) length_enc(1) unfolding dgp_spec by (fastforce intro: order_trans)
  then show ?thesis by simp
qed

lemma genTypeInfo_fields: "genTypeInfo (TStruct (plainFields ts)) \<longleftrightarrow> list_all genTypeInfo ts"
  by (simp add: plainFields_def list_all_length)

lemma dgp_type: "genTypeInfo (TStruct dgpFields)" "loopFree (TStruct dgpFields)"
  by (simp_all add: dgpFields_def plainFields_def)

lemma stored_types: "loopFree schlType" "loopFree gptType" "loopFree infoType"
  by (simp_all add: schlType_def gptType_def infoType_def plainFields_def)

lemma StoreDyn_bytes:
  assumes "dgpOK dgp"
  obtains b where "encSpec (TStruct dgpFields) noTags (dgpValue dgp) = Some b" "length b < 2 ^ 63"
    "fst (StoreDynGlobalProp dgp d) = Inr ()" "dbGet DynGlobalPropDBKey (snd (StoreDynGlobalProp dgp d)) = Inr b"
    "\<And>k. k \<noteq> DynGlobalPropDBKey \<Longrightarrow> dbGet k (snd (StoreDynGlobalProp dgp d)) = dbGet k d"
  using dgp_spec dgp_length [OF assms] StoreBytes_fits [OF dgp_type(1)] unfolding StoreDynGlobalProp_def by metis

lemma ucast_lib: "unat (ucast (w :: 32 word) :: uint64) < 2 ^ 32" "ucast (ucast w :: uint64) = w"
proof -
  have l: "unat w < 2 ^ 32" using unsigned_less [of w] by simp
  have "unat w < 2 ^ 64" by (rule less_trans [OF l]) simp
  then have u: "unat (ucast w :: uint64) = unat w" by (simp add: unsigned_ucast_eq take_bit_nat_eq_self)
  then show "unat (ucast w :: uint64) < 2 ^ 32" using l by simp
  have "ucast (ucast w :: uint64) = (word_of_nat (unat (ucast w :: uint64)) :: 32 word)" by (simp only: of_nat_unat)
  also have "\<dots> = w" unfolding u by simp
  finally show "ucast (ucast w :: uint64) = w" .
qed

lemma dgp_canon:
  assumes "dgpOK dgp" and "survives (HeadUnitTime dgp)"
  shows "canonFields dgpFields [VUint (HeadUnitNum dgp), VBytes (HeadUnitHash dgp), VInt (HeadUnitTime dgp),
     VUint (CurrentASlot dgp), VUint (ucast (LastIrreversibleUnitNum dgp))]"
  using assms ucast_lib(1) [of "LastIrreversibleUnitNum dgp"] unat_less64 [of "HeadUnitNum dgp"] unat_less64 [of "CurrentASlot dgp"]
  by (auto simp: dgpFields_def plainFields_def dgpOK_def)

text \<open>What a reader finds after dynamic properties have been stored.\<close>

lemma structPrefix_dgp:
  assumes "dgpOK dgp" and "encSpec (TStruct dgpFields) noTags (dgpValue dgp) = Some b"
  shows "structPrefix b dgpFields =
    (case intRead (HeadUnitTime dgp) of
       Inl e \<Rightarrow> [VUint (HeadUnitNum dgp), VBytes (HeadUnitHash dgp)]
     | Inr t \<Rightarrow> [VUint (HeadUnitNum dgp), VBytes (HeadUnitHash dgp), VInt t, VUint (CurrentASlot dgp),
         VUint (ucast (LastIrreversibleUnitNum dgp))])"
proof -
  let ?vs = "[VUint (HeadUnitNum dgp), VBytes (HeadUnitHash dgp)]" and ?f = "Suc (2 * length b)"
  let ?rest = "encUint (CurrentASlot dgp) @ encUint (ucast (LastIrreversibleUnitNum dgp))"
  let ?us = "[VUint (CurrentASlot dgp), VUint (ucast (LastIrreversibleUnitNum dgp))]"
  have b: "b = encLst ((encUint (HeadUnitNum dgp) @ encStr (HeadUnitHash dgp)) @ encInt (HeadUnitTime dgp) @ ?rest)"
    using assms(2) unfolding dgp_spec by simp
  have fs: "dgpFields = plainFields [TUint 64, TByteArray 32] @ plainFields [TInt 64, TUint 64, TUint 32]"
    by (simp add: dgpFields_def plainFields_def)
  let ?A = "plainFields [TUint 64, TByteArray 32]"
  have A: "canonFields ?A ?vs" "list_all (\<lambda>(t, ts). genTypeInfo t \<and> \<not> tail ts) ?A"
    "encFields ?A ?vs = Some (encUint (HeadUnitNum dgp) @ encStr (HeadUnitHash dgp))"
    using assms(1) unat_less64 [of "HeadUnitNum dgp"] by (auto simp: plainFields_def dgpOK_def)
  obtain s where s: "structPrefix b dgpFields = ?vs @ partialFields ?f (plainFields [TInt 64, TUint 64, TUint 32]) s"
    "ready (encInt (HeadUnitTime dgp) @ ?rest) s"
    by (rule structPrefix_split [OF A b dgp_length [OF assms], of "plainFields [TInt 64, TUint 64, TUint 32]"])
      (rule that, simp_all only: fs)
  obtain s1 where s1: "streamInt 64 s = (intRead (HeadUnitTime dgp), s1)" "adv (length (encInt (HeadUnitTime dgp))) s s1"
    using reads_int [OF ready_first [OF s(2)], of 64] assms(1) by (auto simp: dgpOK_def)
  have len: "length ?rest < ?f" unfolding b using length_encLst(1) [of "(encUint (HeadUnitNum dgp) @ encStr (HeadUnitHash dgp)) @
    encInt (HeadUnitTime dgp) @ ?rest"] by simp
  have "\<exists>s'. partialFields ?f (plainFields [TUint 64, TUint 32] @ []) s1 = ?us @ partialFields ?f [] s' \<and> ready [] s'"
    by (rule partial_reads [of _ _ ?rest])
      (use ucast_lib(1) unat_less64 [of "CurrentASlot dgp"] ready_adv [OF s(2) s1(2)] len in \<open>auto simp: plainFields_def\<close>)
  then show ?thesis using s(1) s1(1)
    by (cases "intRead (HeadUnitTime dgp)") (auto simp: plainFields_def decodeInt_def wrapped_def mapRes_def)
qed

lemma survives_era: "2 ^ 24 \<le> t \<Longrightarrow> t < 2 ^ 31 \<Longrightarrow> survives t"
  by (simp add: survives_def putint2_def)

lemma lost_after_2038: "2 ^ 31 \<le> t \<Longrightarrow> t < 2 ^ 32 \<Longrightarrow> intRead t = Inl ErrCanonInt"
  by (simp add: intRead_def putint2_def Let_def)

lemma intRead_int64: "dgpOK dgp \<Longrightarrow> intRead (HeadUnitTime dgp) = Inr (HeadUnitTime dgp) \<longleftrightarrow> survives (HeadUnitTime dgp)"
  by (rule intRead_survives) (simp_all add: dgpOK_def)

lemma RetrieveDyn_stored:
  assumes "dgpOK dgp" and "survives (HeadUnitTime dgp)"
  shows "RetrieveDynGlobalProp (snd (StoreDynGlobalProp dgp d)) = (dgp, None)"
proof -
  obtain b where b: "encSpec (TStruct dgpFields) noTags (dgpValue dgp) = Some b" "length b < 2 ^ 63"
    "dbGet DynGlobalPropDBKey (snd (StoreDynGlobalProp dgp d)) = Inr b" using StoreDyn_bytes [OF assms(1)] by metis
  have "decodeAll b (TStruct dgpFields) = Inr (dgpValue dgp)"
    by (rule decodeAll_encoded [OF dgp_type(1) _ b(1,2)]) (use dgp_canon [OF assms] in \<open>simp add: dgpValue_def\<close>)
  moreover have "intRead (HeadUnitTime dgp) = Inr (HeadUnitTime dgp)" using intRead_int64 assms by blast
  ultimately show ?thesis using b(3) structPrefix_dgp [OF assms(1) b(1)]
    by (simp add: RetrieveDynGlobalProp_def fillDyn_def asUint_def asBytes_def asInt_def ucast_lib(2))
qed

lemma RetrieveDyn_lost:
  assumes "dgpOK dgp" and "intRead (HeadUnitTime dgp) = Inl e"
  shows "\<exists>e'. RetrieveDynGlobalProp (snd (StoreDynGlobalProp dgp d)) =
    (NewDynGlobalProp\<lparr>HeadUnitNum := HeadUnitNum dgp, HeadUnitHash := HeadUnitHash dgp\<rparr>, Some e')"
proof -
  obtain b where b: "encSpec (TStruct dgpFields) noTags (dgpValue dgp) = Some b" "length b < 2 ^ 63"
    "dbGet DynGlobalPropDBKey (snd (StoreDynGlobalProp dgp d)) = Inr b" using StoreDyn_bytes [OF assms(1)] by metis
  have pre: "structPrefix b dgpFields = [VUint (HeadUnitNum dgp), VBytes (HeadUnitHash dgp)]"
    using structPrefix_dgp [OF assms(1) b(1)] assms(2) by simp
  then have "length (structPrefix b dgpFields) \<noteq> length dgpFields" by (simp add: dgpFields_def plainFields_def)
  then obtain e' where "decodeAll b (TStruct dgpFields) = Inl e'"
    using decodeAll_struct by (cases "decodeAll b (TStruct dgpFields)") auto
  then show ?thesis using b(3) pre
    by (simp add: RetrieveDynGlobalProp_def fillDyn_def asUint_def asBytes_def NewDynGlobalProp_def)
qed

lemma RetrieveDyn_iff:
  assumes "dgpOK dgp"
  shows "RetrieveDynGlobalProp (snd (StoreDynGlobalProp dgp d)) = (dgp, None) \<longleftrightarrow> survives (HeadUnitTime dgp)"
proof
  assume r: "RetrieveDynGlobalProp (snd (StoreDynGlobalProp dgp d)) = (dgp, None)"
  obtain b where b: "encSpec (TStruct dgpFields) noTags (dgpValue dgp) = Some b"
    "dbGet DynGlobalPropDBKey (snd (StoreDynGlobalProp dgp d)) = Inr b" using StoreDyn_bytes [OF assms] by metis
  obtain t where t: "intRead (HeadUnitTime dgp) = Inr t"
    using RetrieveDyn_lost [OF assms, of _ d] r by (cases "intRead (HeadUnitTime dgp)") auto
  then have "HeadUnitTime (fst (RetrieveDynGlobalProp (snd (StoreDynGlobalProp dgp d)))) = t"
    using b(2) structPrefix_dgp [OF assms b(1)] by (simp add: RetrieveDynGlobalProp_def fillDyn_def asInt_def)
  then have "t = HeadUnitTime dgp" using r by simp
  then show "survives (HeadUnitTime dgp)" using t intRead_int64 [OF assms] by simp
qed (rule RetrieveDyn_stored [OF assms])

section \<open>The schedule in the database\<close>

lemma schl_enc: "list_all (\<lambda>a. length a = 21) as \<Longrightarrow>
  \<exists>b. encElems (TByteArray 21) (map VBytes as) = Some b \<and> length b \<le> 30 * length as"
proof (induction as)
  case (Cons a as)
  then obtain b where "encElems (TByteArray 21) (map VBytes as) = Some b" "length b \<le> 30 * length as" by auto
  then show ?case using Cons.prems length_enc(2) [of a] by (auto intro!: exI [of _ "encStr a @ b"])
qed simp

lemma schl_type: "genTypeInfo schlType"
  by (simp add: schlType_def plainFields_def)

lemma canonElems_iff: "canonElems t vs \<longleftrightarrow> list_all (canon t noTags) vs"
  by (induction vs) auto

lemma schl_stored:
  assumes "list_all (\<lambda>a. length a = 21) (CurrentShuffledMediators ms)" and "length (CurrentShuffledMediators ms) < 2 ^ 31"
  shows "fst (StoreMediatorSchl ms d) = Inr ()" and "RetrieveMediatorSchl (snd (StoreMediatorSchl ms d)) = (ms, None)"
    and "k \<noteq> MediatorSchlDBKey \<Longrightarrow> dbGet k (snd (StoreMediatorSchl ms d)) = dbGet k d"
proof -
  let ?as = "CurrentShuffledMediators ms"
  let ?v = "VList [VList (map VBytes ?as)]"
  obtain b where b: "encElems (TByteArray 21) (map VBytes ?as) = Some b" "length b \<le> 30 * length ?as"
    using schl_enc [OF assms(1)] by blast
  have e: "encSpec schlType noTags ?v = Some (encLst (encLst b))" using b(1) by (simp add: schlType_def plainFields_def)
  have len: "length (encLst (encLst b)) < 2 ^ 63"
    using length_enc(1) [of b] length_enc(1) [of "encLst b"] b(2) assms(2) by simp
  have "canon (TByteArray 21) noTags (VBytes a)" if "a \<in> set ?as" for a
    using assms(1) that by (auto simp: list_all_iff)
  then have c: "canon schlType noTags ?v" by (auto simp: schlType_def plainFields_def canonElems_iff list_all_iff)
  have g: "genTypeInfo (TPtr schlType)" "encSpec (TPtr schlType) noTags (VPtr (Some ?v)) = Some (encLst (encLst b))"
    using schl_type e by simp_all
  show "fst (StoreMediatorSchl ms d) = Inr ()" unfolding StoreMediatorSchl_def by (rule StoreBytes_fits(1) [OF g len])
  show "k \<noteq> MediatorSchlDBKey \<Longrightarrow> dbGet k (snd (StoreMediatorSchl ms d)) = dbGet k d"
    unfolding StoreMediatorSchl_def by (rule StoreBytes_fits(3) [OF g len])
  have "retrieve MediatorSchlDBKey schlType (snd (StoreMediatorSchl ms d)) = Inr ?v"
    unfolding StoreMediatorSchl_def
    by (rule store_retrieve(2) [OF schl_type c]) (use e len in \<open>auto simp: fits_def\<close>)
  then show "RetrieveMediatorSchl (snd (StoreMediatorSchl ms d)) = (ms, None)"
    by (simp add: RetrieveMediatorSchl_def asSchl_def asList_def asBytes_def comp_def)
qed

section \<open>Global properties in the database\<close>

text \<open>Base 58 strings contain neither white space nor quotes.\<close>

definition base58_clean :: "prims \<Rightarrow> bool" where
  "base58_clean p \<longleftrightarrow> (\<forall>b v c. c \<in> set (base58CheckEncode p b v) \<longrightarrow> \<not> isSpace c \<and> of_char c \<noteq> (34 :: nat))"

lemma trimBy_clean: "\<forall>c \<in> set s. \<not> f c \<Longrightarrow> trimBy f s = s"
proof -
  assume "\<forall>c \<in> set s. \<not> f c"
  then have "dropWhile f s = s" "dropWhile f (rev s) = rev s"
    by (simp_all add: dropWhile_eq_self_iff) (metis hd_in_set list.set_sel(1) set_rev rev_is_Nil_conv)+
  then show ?thesis by (simp add: trimBy_def)
qed

lemma StrToMedAdd_Str:
  assumes "base58_inverse p" and "base58_clean p" and "goodAddress a"
  shows "StrToMedAdd p (Str p a) = Inr a"
proof -
  have c: "\<forall>c \<in> set (Str p a). \<not> isSpace c \<and> of_char c \<noteq> (34 :: nat)"
    using assms(2) by (auto simp: Str_def base58_clean_def isSpace_def)
  then have "trimBy (\<lambda>c. of_char c = (34 :: nat)) (trimBy isSpace (Str p a)) = Str p a"
    by (simp add: trimBy_clean)
  then show ?thesis using read_Str [OF assms(1,3)] by (simp add: StrToMedAdd_def)
qed

lemma bytesStr_strBytes [simp]: "bytesStr (strBytes s) = s"
proof -
  have "char_of (unat (word_of_nat (of_char c) :: byte)) = c" for c :: char
    by (simp add: unat_of_nat)
  then show ?thesis by (simp add: bytesStr_def strBytes_def comp_def)
qed

lemma strBytes_inject [simp]: "strBytes s = strBytes t \<longleftrightarrow> s = t"
  using bytesStr_strBytes by metis

lemma update_fresh: "k \<notin> fst ` set al \<Longrightarrow> AList.update k v al = al @ [(k, v)]"
  by (induction al) auto

lemma readActive_Str:
  assumes "base58_inverse p" and "base58_clean p"
  shows "list_all goodAddress as \<Longrightarrow> distinct as \<Longrightarrow> fst ` set ams \<inter> set as = {} \<Longrightarrow>
    readActive p (map (Str p) as) ams = Inr (ams @ map (\<lambda>a. (a, True)) as)"
proof (induction as arbitrary: ams)
  case (Cons a as)
  have "AList.update a True ams = ams @ [(a, True)]" using Cons.prems(3) by (intro update_fresh) auto
  then show ?case using Cons.IH [of "ams @ [(a, True)]"] Cons.prems
    by (auto simp: StrToMedAdd_Str [OF assms] liftErr_def)
qed simp

lemma ucast_byte: "unat (ucast (b :: byte) :: uint64) < 2 ^ 8" "ucast (ucast b :: uint64) = b"
proof -
  show "unat (ucast b :: uint64) < 2 ^ 8" by (simp add: byte_up)
  have "ucast (ucast b :: uint64) = (word_of_nat (unat (ucast b :: uint64)) :: byte)" by (simp only: of_nat_unat)
  then show "ucast (ucast b :: uint64) = b" unfolding byte_up by simp
qed

lemma gpt_type: "genTypeInfo gptType"
  by (simp add: gptType_def plainFields_def)

lemma gpt_canon: "canon gptType noTags (gptValue g)"
proof -
  have "canonElems TString (map (\<lambda>s. VString (strBytes s)) xs)" for xs
    by (simp add: canonElems_iff list_all_iff)
  then show ?thesis
    using unat_less64 [of "MediatorCreateFee (CurrentFees (gptParams g))"] ucast_byte(1) [of "MediatorInterval (gptParams g)"]
      ucast_lib(1) [of "MaintenanceInterval (gptParams g)"]
    by (simp add: gptType_def gptValue_def plainFields_def)
qed

lemma asGpt_value: "asGpt (gptValue g) = g"
  by (simp add: asGpt_def gptValue_def asList_def asUint_def asString_def Let_def comp_def ucast_byte(2) ucast_lib(2))

text \<open>Global properties that storage keeps: every active mediator is marked, the group key
  survives its rendering, and the record fits a slice.\<close>

definition storable :: "prims \<Rightarrow> ('pt, 'nd) medOps \<Rightarrow> 'pt GlobalProperty \<Rightarrow> bool" where
  "storable p ops gp \<longleftrightarrow> goodProps p gp \<and> base58_clean p \<and> list_all snd (ActiveMediators gp) \<and>
    StrToPoint ops (PointToStr ops (GroupPubKey gp)) = GroupPubKey gp \<and> fits gptType (gptValue (getGPT p ops gp))"

lemma active_marked: "list_all snd xs \<Longrightarrow> map ((\<lambda>a. (a, True)) \<circ> fst) xs = xs"
  by (induction xs) auto

lemma getGP_getGPT:
  assumes "storable p ops gp"
  shows "getGP p ops (getGPT p ops gp) = Inr gp"
proof -
  have "readActive p (map (Str p) (map fst (ActiveMediators gp))) [] = Inr (ActiveMediators gp)"
    using assms by (subst readActive_Str) (auto simp: storable_def goodProps_def active_marked)
  moreover have "gptMediators (getGPT p ops gp) = map (Str p) (map fst (ActiveMediators gp))"
    by (simp add: getGPT_def split_beta)
  ultimately have "getGP p ops (getGPT p ops gp) = Inr ((NewGlobalProp (nullPoint ops))
      \<lparr>ChainParams := ChainParams gp, ActiveMediators := ActiveMediators gp, GroupPubKey := GroupPubKey gp\<rparr>)"
    using assms by (simp add: getGP_def) (simp add: getGPT_def storable_def)
  then show ?thesis by (simp add: NewGlobalProp_def)
qed

lemma gp_stored:
  assumes "storable p ops gp"
  shows "fst (StoreGlobalProp p ops gp d) = Inr ()" and "RetrieveGlobalProp p ops (snd (StoreGlobalProp p ops gp d)) = (Inr gp, None)"
    and "k \<noteq> GlobalPropDBKey \<Longrightarrow> dbGet k (snd (StoreGlobalProp p ops gp d)) = dbGet k d"
proof -
  let ?v = "gptValue (getGPT p ops gp)"
  have f: "fits gptType ?v" using assms by (simp add: storable_def)
  then obtain b where b: "encSpec (TPtr gptType) noTags (VPtr (Some ?v)) = Some b" "length b < 2 ^ 63" by (auto simp: fits_def)
  have g: "genTypeInfo (TPtr gptType)" using gpt_type by simp
  show "fst (StoreGlobalProp p ops gp d) = Inr ()"
    unfolding StoreGlobalProp_def by (rule StoreBytes_fits(1) [OF g b])
  show "k \<noteq> GlobalPropDBKey \<Longrightarrow> dbGet k (snd (StoreGlobalProp p ops gp d)) = dbGet k d"
    unfolding StoreGlobalProp_def by (rule StoreBytes_fits(3) [OF g b])
  have "retrieve GlobalPropDBKey gptType (snd (StoreGlobalProp p ops gp d)) = Inr ?v"
    unfolding StoreGlobalProp_def by (rule store_retrieve(2) [OF gpt_type gpt_canon f])
  then show "RetrieveGlobalProp p ops (snd (StoreGlobalProp p ops gp d)) = (Inr gp, None)"
    by (simp add: RetrieveGlobalProp_def asGpt_value getGP_getGPT [OF assms])
qed

section \<open>Mediators in the database\<close>

lemma keys_differ:
  "DynGlobalPropDBKey \<noteq> MediatorSchlDBKey" "DynGlobalPropDBKey \<noteq> GlobalPropDBKey" "MediatorSchlDBKey \<noteq> GlobalPropDBKey"
  "mediatorKey p a \<noteq> DynGlobalPropDBKey" "mediatorKey p a \<noteq> MediatorSchlDBKey" "mediatorKey p a \<noteq> GlobalPropDBKey"
  by (simp_all add: DynGlobalPropDBKey_def MediatorSchlDBKey_def GlobalPropDBKey_def mediatorKey_def)

lemma mediatorKey_inject:
  assumes "base58_inverse p" and "goodAddress a" and "goodAddress b"
  shows "mediatorKey p a = mediatorKey p b \<longleftrightarrow> a = b"
proof
  assume "mediatorKey p a = mediatorKey p b"
  then have "StringToAddress p (Str p a) = StringToAddress p (Str p b)" by (simp add: mediatorKey_def)
  then show "a = b" unfolding read_Str [OF assms(1,2)] read_Str [OF assms(1,3)] by (rule sum.inject(2) [THEN iffD1])
qed simp

lemma info_type: "genTypeInfo infoType" "genTypeInfo (TPtr infoType)"
  by (simp_all add: infoType_def plainFields_def)

lemma info_value: "asInfo (infoValue mi) = mi"
  by (simp add: asInfo_def infoValue_def asList_def asString_def asInt_def Let_def)

lemma info_canon: "- (2 ^ 63) \<le> infoTotalMissed mi \<Longrightarrow> infoTotalMissed mi < 2 ^ 63 \<Longrightarrow> survives (infoTotalMissed mi) \<Longrightarrow>
  canon infoType noTags (infoValue mi)"
  by (simp add: infoType_def infoValue_def plainFields_def)

lemma info_lost:
  assumes "- (2 ^ 63) \<le> infoTotalMissed mi" and "infoTotalMissed mi < 2 ^ 63" and "intRead (infoTotalMissed mi) = Inl e"
    and "encSpec infoType noTags (infoValue mi) = Some b" and "length b < 2 ^ 63"
  shows "\<exists>e'. decodeAll b infoType = Inl e'"
proof -
  let ?A = "plainFields [TString, TString, TString, TString]" and ?m = "infoTotalMissed mi"
  let ?vs = "map (\<lambda>s. VString (strBytes s)) [infoAddStr mi, infoInitPartPub mi, infoNode mi, infoUrl mi]"
  let ?a = "concat (map (\<lambda>s. encStr (strBytes s)) [infoAddStr mi, infoInitPartPub mi, infoNode mi, infoUrl mi])"
  have A: "canonFields ?A ?vs" "list_all (\<lambda>(t, ts). genTypeInfo t \<and> \<not> tail ts) ?A" "encFields ?A ?vs = Some ?a"
    by (simp_all add: plainFields_def)
  have b: "b = encLst (?a @ encInt ?m)" using assms(4) by (simp add: infoType_def infoValue_def plainFields_def)
  obtain s where s: "structPrefix b (?A @ plainFields [TInt 64]) = ?vs @ partialFields (Suc (2 * length b)) (plainFields [TInt 64]) s"
    "ready (encInt ?m) s"
    by (rule structPrefix_split [OF A b assms(5), of "plainFields [TInt 64]"]) (rule that)
  obtain s1 where "streamInt 64 s = (intRead ?m, s1)" using reads_int [OF s(2), of 64] assms(1,2) by auto
  then have "structPrefix b (?A @ plainFields [TInt 64]) = ?vs"
    using s(1) assms(3) by (simp add: plainFields_def decodeInt_def wrapped_def mapRes_def)
  then have "length (structPrefix b (?A @ plainFields [TInt 64])) \<noteq> length (?A @ plainFields [TInt 64])"
    by (simp add: plainFields_def)
  moreover have "infoType = TStruct (?A @ plainFields [TInt 64])" by (simp add: infoType_def plainFields_def)
  ultimately show ?thesis using decodeAll_struct by (cases "decodeAll b infoType") auto
qed

text \<open>A count of missed units is not negative, so it comes back unchanged or not at all.\<close>

lemma intRead_count: "0 \<le> i \<Longrightarrow> i < 2 ^ 63 \<Longrightarrow> \<not> survives i \<Longrightarrow> \<exists>e. intRead i = Inl e"
proof -
  assume i: "0 \<le> i" "i < 2 ^ 63" "\<not> survives i"
  then obtain k where k: "sizeRange k i" using putint2_sizeRange [of i] by auto
  have s: "size2 i \<noteq> 1" "\<not> 256 ^ (size2 i - 1) \<le> i" using i by (auto simp: survives_def)
  have "size2 i \<noteq> 0" using sizeRange_facts(3) [OF k] by simp
  then have "2 \<le> size2 i" using s(1) by linarith
  moreover have "i mod 256 ^ size2 i \<le> i" using i(1) by (simp add: zmod_le_nonneg_dividend)
  ultimately have "2 \<le> size2 i \<and> i mod 256 ^ size2 i < 256 ^ (size2 i - 1)" using s(2) by linarith
  moreover have "i \<noteq> 0" using i(3) by (auto simp: survives_def putint2_def)
  ultimately show ?thesis by (simp add: intRead_def Let_def)
qed

lemma info_stored:
  assumes "base58_inverse p" and "base58_clean p" and "goodAddress a" and "infoAddStr mi = Str p a" and "fits infoType (infoValue mi)"
    and "0 \<le> infoTotalMissed mi" and "infoTotalMissed mi < 2 ^ 63"
  shows "fst (StoreMediatorInfo p mi d) = Inr ()"
    and "retrieve (mediatorKey p a) infoType (snd (StoreMediatorInfo p mi d)) = Inr (infoValue mi) \<longleftrightarrow> survives (infoTotalMissed mi)"
    and "\<not> survives (infoTotalMissed mi) \<Longrightarrow> \<exists>e. retrieve (mediatorKey p a) infoType (snd (StoreMediatorInfo p mi d)) = Inl e"
    and "k \<noteq> mediatorKey p a \<Longrightarrow> dbGet k (snd (StoreMediatorInfo p mi d)) = dbGet k d"
proof -
  have st: "StoreMediatorInfo p mi d = StoreBytes (mediatorKey p a) (TPtr infoType) (VPtr (Some (infoValue mi))) d"
    using StrToMedAdd_Str [OF assms(1-3)] assms(4) by (simp add: StoreMediatorInfo_def liftErr_def)
  obtain b where b: "encSpec infoType noTags (infoValue mi) = Some b" "length b < 2 ^ 63" using assms(5) by (auto simp: fits_def)
  have p: "encSpec (TPtr infoType) noTags (VPtr (Some (infoValue mi))) = Some b" using b(1) by simp
  note S = StoreBytes_fits [OF info_type(2) p b(2)]
  show "fst (StoreMediatorInfo p mi d) = Inr ()" unfolding st by (rule S(1))
  show "k \<noteq> mediatorKey p a \<Longrightarrow> dbGet k (snd (StoreMediatorInfo p mi d)) = dbGet k d" unfolding st by (rule S(3))
  have r: "retrieve (mediatorKey p a) infoType (snd (StoreMediatorInfo p mi d)) = decodeAll b infoType"
    unfolding st using S(2) by (simp add: retrieve_def)
  show l: "\<exists>e. retrieve (mediatorKey p a) infoType (snd (StoreMediatorInfo p mi d)) = Inl e" if n: "\<not> survives (infoTotalMissed mi)"
  proof -
    obtain e where "intRead (infoTotalMissed mi) = Inl e" using intRead_count [OF assms(6,7) n] by blast
    then show ?thesis unfolding r using info_lost [OF _ assms(7) _ b] assms(6) by auto
  qed
  have "decodeAll b infoType = Inr (infoValue mi)" if s: "survives (infoTotalMissed mi)"
    by (rule decodeAll_encoded [OF info_type(1) info_canon b]) (use s assms(6,7) in auto)
  then show "retrieve (mediatorKey p a) infoType (snd (StoreMediatorInfo p mi d)) = Inr (infoValue mi) \<longleftrightarrow> survives (infoTotalMissed mi)"
    using l unfolding r by fastforce
qed

section \<open>Properties\<close>



end
