(* ===== verification/Unit.thy ===== *)
theory Unit
  imports Modules GoTime
begin

text \<open>
  Units and their headers (\<^verbatim>\<open>dag/modules/unit.go\<close>): the records, their constructor and the accessors.  The
  size of a unit is left to its encoding and is not kept; \<^verbatim>\<open>ReceivedAt\<close> and \<^verbatim>\<open>ReceivedFrom\<close> track the
  relay between peers and are left out.
\<close>

record Authentifier =
  authAddress :: Address
  authR :: bytes
  authS :: bytes
  authV :: bytes

record Header =
  ParentsHash :: "Hash list"
  AssetIDs :: "IDType16 list"
  Authors :: Authentifier
  GroupSign :: bytes
  TxRoot :: Hash
  Number :: ChainIndex
  headerExtra :: bytes
  Creationdate :: int

record Unit =
  UnitHeader :: Header
  Txs :: "Transaction list"
  UnitHash :: Hash

definition zeroChainIndex :: ChainIndex where
  "zeroChainIndex = \<lparr>chainAssetID = replicate 16 0, IsMain = False, chainIdx = 0\<rparr>"

definition zeroAuthentifier :: Authentifier where
  "zeroAuthentifier = \<lparr>authAddress = replicate 21 0, authR = [], authS = [], authV = []\<rparr>"

definition NewHeader :: "Hash list \<Rightarrow> IDType16 list \<Rightarrow> bytes \<Rightarrow> Header" where
  "NewHeader parents asset extra =
    \<lparr>ParentsHash = parents, AssetIDs = asset, Authors = zeroAuthentifier, GroupSign = [], TxRoot = zeroHash,
     Number = zeroChainIndex, headerExtra = extra, Creationdate = 0\<rparr>"

text \<open>Indexing past the parents panics.\<close>

definition HeaderEqual :: "Header \<Rightarrow> Header \<Rightarrow> serr + bool" where
  "HeaderEqual oldh newh =
    (case (ParentsHash oldh, ParentsHash newh) of
       ([], _) \<Rightarrow> Inl Panic
     | (_, []) \<Rightarrow> Inl Panic
     | (o0 # os, n0 # ns) \<Rightarrow>
         if o0 = n0 then
           (case (os, ns) of
              (o1 # _, n1 # _) \<Rightarrow> if o1 = n1 then Inr True else Inr (o0 = n1 \<and> o1 = n0)
            | _ \<Rightarrow> Inl Panic)
         else
           (case ns of
              [] \<Rightarrow> Inl Panic
            | n1 # _ \<Rightarrow> if o0 = n1 then (case os of [] \<Rightarrow> Inl Panic | o1 # _ \<Rightarrow> Inr (o1 = n0)) else Inr False))"

definition headerIndex :: "Header \<Rightarrow> 64 word" where
  "headerIndex h = chainIdx (Number h)"

definition UnitAuthor :: "Unit \<Rightarrow> Address" where
  "UnitAuthor u = authAddress (Authors (UnitHeader u))"

definition IsEmpty :: "Unit option \<Rightarrow> bool" where
  "IsEmpty u = (case u of None \<Rightarrow> True | Some u \<Rightarrow> Txs u = [])"

definition findTx :: "Hash \<Rightarrow> Unit \<Rightarrow> Transaction option" where
  "findTx h u = List.find (\<lambda>tx. TxHash tx = h) (Txs u)"

definition NumberU64 :: "Unit \<Rightarrow> 64 word" where
  "NumberU64 u = chainIdx (Number (UnitHeader u))"

definition Timestamp :: "Unit \<Rightarrow> int" where
  "Timestamp u = Creationdate (UnitHeader u)"

definition ParentHash :: "Unit \<Rightarrow> Hash list" where
  "ParentHash u = ParentsHash (UnitHeader u)"

text \<open>Hashes are compared through their hexadecimal rendering, which is injective.\<close>

definition ContainsParent :: "Hash \<Rightarrow> Unit \<Rightarrow> bool" where
  "ContainsParent pHash u = list_ex (\<lambda>h. h = pHash) (ParentsHash (UnitHeader u))"

end
