(* ===== verification/DagSchedule.thy ===== *)
theory DagSchedule
  imports PropertyDb Unit
begin

text \<open>
  Scheduling as the DAG does it (\<^verbatim>\<open>dag/mediator_schedule.go\<close>, the state changes of
  \<^verbatim>\<open>dag/unit_production.go\<close>): every operation reads the properties from the database, and what it
  changes goes back there.  Errors that the code logs and drops are dropped here.
\<close>

section \<open>Reading and writing the properties\<close>

definition GetGlobalProp :: "prims \<Rightarrow> ('pt, 'nd) medOps \<Rightarrow> db \<Rightarrow> rerr + 'pt GlobalProperty" where
  "GetGlobalProp p ops d = fst (RetrieveGlobalProp p ops d)"

definition GetDynGlobalProp :: "db \<Rightarrow> DynamicGlobalProperty" where
  "GetDynGlobalProp d = fst (RetrieveDynGlobalProp d)"

definition GetMediatorSchl :: "db \<Rightarrow> MediatorSchedule" where
  "GetMediatorSchl d = fst (RetrieveMediatorSchl d)"

definition SaveGlobalProp :: "prims \<Rightarrow> ('pt, 'nd) medOps \<Rightarrow> 'pt GlobalProperty \<Rightarrow> db \<Rightarrow> db" where
  "SaveGlobalProp p ops gp d = snd (StoreGlobalProp p ops gp d)"

definition SaveDynGlobalProp :: "DynamicGlobalProperty \<Rightarrow> db \<Rightarrow> db" where
  "SaveDynGlobalProp dgp d = snd (StoreDynGlobalProp dgp d)"

definition SaveMediatorSchl :: "MediatorSchedule \<Rightarrow> db \<Rightarrow> db" where
  "SaveMediatorSchl ms d = snd (StoreMediatorSchl ms d)"

definition GetMediator :: "prims \<Rightarrow> ('pt, 'nd) medOps \<Rightarrow> Address \<Rightarrow> db \<Rightarrow> rerr + ('pt, 'nd) Mediator option" where
  "GetMediator p ops add d = RetrieveMediator p ops add d"

text \<open>A panic passes through where an error is dropped.\<close>

definition SaveMediator :: "prims \<Rightarrow> ('pt, 'nd) medOps \<Rightarrow> ('pt, 'nd) Mediator \<Rightarrow> db \<Rightarrow> (rerr + unit) \<times> db" where
  "SaveMediator p ops med d =
    (case StoreMediator p ops med d of
       (Inl RlpPanic, d) \<Rightarrow> (Inl RlpPanic, d)
     | (_, d) \<Rightarrow> (Inr (), d))"

definition dagCurThreshold :: "prims \<Rightarrow> ('pt, 'nd) medOps \<Rightarrow> db \<Rightarrow> rerr + int" where
  "dagCurThreshold p ops d = map_sum id GetCurThreshold (GetGlobalProp p ops d)"

definition dagActiveMediatorCount :: "prims \<Rightarrow> ('pt, 'nd) medOps \<Rightarrow> db \<Rightarrow> rerr + nat" where
  "dagActiveMediatorCount p ops d = map_sum id GetActiveMediatorCount (GetGlobalProp p ops d)"

definition dagActiveMediators :: "prims \<Rightarrow> ('pt, 'nd) medOps \<Rightarrow> db \<Rightarrow> rerr + Address list" where
  "dagActiveMediators p ops d = map_sum id (GetActiveMediators p) (GetGlobalProp p ops d)"

definition dagActiveMediatorAddr :: "prims \<Rightarrow> ('pt, 'nd) medOps \<Rightarrow> int \<Rightarrow> db \<Rightarrow> rerr + Address" where
  "dagActiveMediatorAddr p ops index d =
    bindR (GetGlobalProp p ops d) (\<lambda>gp. liftErr (GetActiveMediatorAddr p index gp))"

definition dagIsActiveMediator :: "prims \<Rightarrow> ('pt, 'nd) medOps \<Rightarrow> Address \<Rightarrow> db \<Rightarrow> rerr + bool" where
  "dagIsActiveMediator p ops add d = map_sum id (IsActiveMediator add) (GetGlobalProp p ops d)"

definition GetActiveMediator :: "prims \<Rightarrow> ('pt, 'nd) medOps \<Rightarrow> Address \<Rightarrow> db \<Rightarrow> rerr + ('pt, 'nd) Mediator option" where
  "GetActiveMediator p ops add d =
    bindR (dagIsActiveMediator p ops add d) (\<lambda>active. if \<not> active then Inr None else GetMediator p ops add d)"

definition GetActiveMediatorNode :: "prims \<Rightarrow> ('pt, 'nd) medOps \<Rightarrow> int \<Rightarrow> db \<Rightarrow> rerr + 'nd option" where
  "GetActiveMediatorNode p ops index d =
    bindR (dagActiveMediatorAddr p ops index d) (\<lambda>ma.
    bindR (GetActiveMediator p ops ma d) (\<lambda>med.
      case med of None \<Rightarrow> Inl RlpPanic | Some m \<Rightarrow> Inr (medNode m)))"

primrec activePubs :: "prims \<Rightarrow> ('pt, 'nd) medOps \<Rightarrow> db \<Rightarrow> Address list \<Rightarrow> rerr + 'pt list" where
  "activePubs p ops d [] = Inr []"
| "activePubs p ops d (add # meds) =
    bindR (GetActiveMediator p ops add d) (\<lambda>med.
      case med of
        None \<Rightarrow> Inl RlpPanic
      | Some m \<Rightarrow> bindR (activePubs p ops d meds) (\<lambda>pubs. Inr (InitPartPub m # pubs)))"

definition GetActiveMediatorInitPubs :: "prims \<Rightarrow> ('pt, 'nd) medOps \<Rightarrow> db \<Rightarrow> rerr + 'pt list" where
  "GetActiveMediatorInitPubs p ops d = bindR (dagActiveMediators p ops d) (activePubs p ops d)"

text \<open>\<^verbatim>\<open>TerminalString\<close> of a node's identifier is the key.\<close>

primrec activeNodes ::
  "prims \<Rightarrow> ('pt, 'nd) medOps \<Rightarrow> ('nd \<Rightarrow> string) \<Rightarrow> db \<Rightarrow> Address list \<Rightarrow> (string \<times> 'nd) list \<Rightarrow> rerr + (string \<times> 'nd) list"
where
  "activeNodes p ops terminal d [] nodes = Inr nodes"
| "activeNodes p ops terminal d (add # meds) nodes =
    bindR (GetActiveMediator p ops add d) (\<lambda>med.
      case med of
        None \<Rightarrow> Inl RlpPanic
      | Some m \<Rightarrow>
          (case medNode m of
             None \<Rightarrow> Inl RlpPanic
           | Some nd \<Rightarrow> activeNodes p ops terminal d meds (AList.update (terminal nd) nd nodes)))"

definition GetActiveMediatorNodes :: "prims \<Rightarrow> ('pt, 'nd) medOps \<Rightarrow> ('nd \<Rightarrow> string) \<Rightarrow> db \<Rightarrow> rerr + (string \<times> 'nd) list" where
  "GetActiveMediatorNodes p ops terminal d = bindR (dagActiveMediators p ops d) (\<lambda>meds. activeNodes p ops terminal d meds [])"

definition dagMediatorSchedule :: "db \<Rightarrow> Address list" where
  "dagMediatorSchedule d = CurrentShuffledMediators (GetMediatorSchl d)"

definition InitPropertyDB :: "prims \<Rightarrow> ('pt, 'nd) medOps \<Rightarrow> Genesis \<Rightarrow> Hash \<Rightarrow> db \<Rightarrow> (rerr + unit) \<times> db" where
  "InitPropertyDB p ops genesis genesisUnitHash d =
    (case liftErr (InitGlobalProp p (nullPoint ops) genesis) of
       Inl e \<Rightarrow> (Inl e, d)
     | Inr gp \<Rightarrow>
         bindE (StoreGlobalProp p ops gp d) (\<lambda>_ d.
           let dgp = InitDynGlobalProp genesis genesisUnitHash in
           bindE (StoreDynGlobalProp dgp d) (\<lambda>_ d.
             StoreMediatorSchl (InitMediatorSchl p gp dgp) d)))"

section \<open>Slots\<close>

definition dagSlotAtTime :: "prims \<Rightarrow> ('pt, 'nd) medOps \<Rightarrow> Time \<Rightarrow> db \<Rightarrow> rerr + 32 word" where
  "dagSlotAtTime p ops when d = bindR (GetGlobalProp p ops d) (\<lambda>gp. liftErr (GetSlotAtTime gp (GetDynGlobalProp d) when))"

definition dagSlotTime :: "prims \<Rightarrow> ('pt, 'nd) medOps \<Rightarrow> 32 word \<Rightarrow> db \<Rightarrow> rerr + Time" where
  "dagSlotTime p ops slotNum d = bindR (GetGlobalProp p ops d) (\<lambda>gp. liftErr (GetSlotTime gp (GetDynGlobalProp d) slotNum))"

definition dagScheduledMediator :: "32 word \<Rightarrow> db \<Rightarrow> Address" where
  "dagScheduledMediator slotNum d = GetScheduledMediator (GetDynGlobalProp d) slotNum (GetMediatorSchl d)"

text \<open>The current time rounded to whole seconds.\<close>

definition roundedNow :: "Time \<Rightarrow> Time" where
  "roundedNow nowFine = Unix (unixOf (timeAdd 500000000 nowFine))"

definition IsSynced :: "prims \<Rightarrow> ('pt, 'nd) medOps \<Rightarrow> Time \<Rightarrow> db \<Rightarrow> rerr + bool" where
  "IsSynced p ops nowFine d =
    bindR (dagSlotTime p ops 1 d) (\<lambda>nextSlotTime. Inr (\<not> Before nextSlotTime (roundedNow nowFine)))"

definition dagHeadUnitTime :: "db \<Rightarrow> int" where
  "dagHeadUnitTime d = HeadUnitTime (GetDynGlobalProp d)"

definition dagHeadUnitNum :: "db \<Rightarrow> 64 word" where
  "dagHeadUnitNum d = HeadUnitNum (GetDynGlobalProp d)"

definition dagHeadUnitHash :: "db \<Rightarrow> Hash" where
  "dagHeadUnitHash d = HeadUnitHash (GetDynGlobalProp d)"

section \<open>Applying a unit\<close>

text \<open>The mediators of the slots between the head and the unit are charged.  A mediator that cannot be
  retrieved is a nil pointer.\<close>

primrec missLoop :: "prims \<Rightarrow> ('pt, 'nd) medOps \<Rightarrow> nat list \<Rightarrow> db \<Rightarrow> (rerr + unit) \<times> db" where
  "missLoop p ops [] d = (Inr (), d)"
| "missLoop p ops (i # is) d =
    (case GetMediator p ops (dagScheduledMediator (word_of_nat i + 1) d) d of
       Inl e \<Rightarrow> (Inl e, d)
     | Inr None \<Rightarrow> (Inl RlpPanic, d)
     | Inr (Some med) \<Rightarrow>
         bindE (SaveMediator p ops (med\<lparr>TotalMissed := int64 (TotalMissed med + 1)\<rparr>) d) (\<lambda>_ d. missLoop p ops is d))"

definition UpdateMediatorMissedUnits :: "prims \<Rightarrow> ('pt, 'nd) medOps \<Rightarrow> Unit \<Rightarrow> db \<Rightarrow> (rerr + 64 word) \<times> db" where
  "UpdateMediatorMissedUnits p ops u d =
    (case dagSlotAtTime p ops (Unix (Timestamp u)) d of
       Inl e \<Rightarrow> (Inl e, d)
     | Inr slot \<Rightarrow>
         if slot = 0 then (Inr 0, d)
         else
           let missedUnits = slot - 1 in
           (case dagActiveMediatorCount p ops d of
              Inl e \<Rightarrow> (Inl e, d)
            | Inr aSize \<Rightarrow>
                if missedUnits < word_of_nat aSize
                then bindE (missLoop p ops [0..<unat missedUnits] d) (\<lambda>_ d. (Inr (ucast missedUnits), d))
                else (Inr (ucast missedUnits), d)))"

definition newDynGlobalProp :: "Unit \<Rightarrow> 64 word \<Rightarrow> DynamicGlobalProperty \<Rightarrow> DynamicGlobalProperty" where
  "newDynGlobalProp u missedUnits dgp =
    dgp\<lparr>HeadUnitNum := chainIdx (Number (UnitHeader u)), HeadUnitHash := UnitHash u, HeadUnitTime := Creationdate (UnitHeader u),
      CurrentASlot := CurrentASlot dgp + (missedUnits + 1)\<rparr>"

definition UpdateDynGlobalProp :: "prims \<Rightarrow> ('pt, 'nd) medOps \<Rightarrow> Unit \<Rightarrow> 64 word \<Rightarrow> db \<Rightarrow> (rerr + unit) \<times> db" where
  "UpdateDynGlobalProp p ops u missedUnits d =
    (case GetGlobalProp p ops d of
       Inl e \<Rightarrow> (Inl e, d)
     | Inr gp \<Rightarrow> (Inr (), SaveDynGlobalProp (newDynGlobalProp u missedUnits (GetDynGlobalProp d)) d))"

definition dagUpdateSchedule :: "prims \<Rightarrow> ('pt, 'nd) medOps \<Rightarrow> db \<Rightarrow> (rerr + unit) \<times> db" where
  "dagUpdateSchedule p ops d =
    (case GetGlobalProp p ops d of
       Inl e \<Rightarrow> (Inl e, d)
     | Inr gp \<Rightarrow> (Inr (), SaveMediatorSchl (UpdateMediatorSchedule p gp (GetDynGlobalProp d) (GetMediatorSchl d)) d))"

text \<open>Saving the unit itself happens in another goroutine and is not part of this step;
  \<^verbatim>\<open>UpdateLastIrreversibleUnit\<close> is empty.\<close>

definition ApplyUnit :: "prims \<Rightarrow> ('pt, 'nd) medOps \<Rightarrow> Unit \<Rightarrow> db \<Rightarrow> (rerr + unit) \<times> db" where
  "ApplyUnit p ops nextUnit d =
    bindE (UpdateMediatorMissedUnits p ops nextUnit d) (\<lambda>missed d.
      bindE (UpdateDynGlobalProp p ops nextUnit missed d) (\<lambda>_ d. dagUpdateSchedule p ops d))"

definition PushUnit :: "prims \<Rightarrow> ('pt, 'nd) medOps \<Rightarrow> Unit \<Rightarrow> db \<Rightarrow> (rerr + bool) \<times> db" where
  "PushUnit p ops newUnit d = bindE (ApplyUnit p ops newUnit d) (\<lambda>_ d. (Inr True, d))"

definition validateMediatorSchedule :: "prims \<Rightarrow> ('pt, 'nd) medOps \<Rightarrow> Unit \<Rightarrow> db \<Rightarrow> rerr + bool" where
  "validateMediatorSchedule p ops nextUnit d =
    (case ParentHash nextUnit of
       [] \<Rightarrow> Inl RlpPanic
     | parent # _ \<Rightarrow>
         if dagHeadUnitHash d \<noteq> parent then Inr False
         else if dagHeadUnitTime d \<ge> Timestamp nextUnit then Inr False
         else
           bindR (dagSlotAtTime p ops (Unix (Timestamp nextUnit)) d) (\<lambda>slotNum.
             if slotNum \<le> 0 then Inr False
             else if addrEqual (UnitAuthor nextUnit) (dagScheduledMediator slotNum d) then Inr False
             else Inr True))"

section \<open>What the operations read\<close>

definition same_props :: "db \<Rightarrow> db \<Rightarrow> bool" where
  "same_props d d' \<longleftrightarrow>
    (\<forall>k \<in> {GlobalPropDBKey, DynGlobalPropDBKey, MediatorSchlDBKey}. dbGet k d' = dbGet k d)"

lemma GetGlobalProp_cong: "dbGet GlobalPropDBKey d' = dbGet GlobalPropDBKey d \<Longrightarrow> GetGlobalProp p ops d' = GetGlobalProp p ops d"
  by (simp add: GetGlobalProp_def RetrieveGlobalProp_def retrieve_def)

lemma GetDyn_cong: "dbGet DynGlobalPropDBKey d' = dbGet DynGlobalPropDBKey d \<Longrightarrow> GetDynGlobalProp d' = GetDynGlobalProp d"
  by (simp add: GetDynGlobalProp_def RetrieveDynGlobalProp_def)

lemma GetSchl_cong: "dbGet MediatorSchlDBKey d' = dbGet MediatorSchlDBKey d \<Longrightarrow> GetMediatorSchl d' = GetMediatorSchl d"
  by (simp add: GetMediatorSchl_def RetrieveMediatorSchl_def retrieve_def)

lemma GetMediator_cong: "dbGet (mediatorKey p a) d' = dbGet (mediatorKey p a) d \<Longrightarrow> GetMediator p ops a d' = GetMediator p ops a d"
  by (simp add: GetMediator_def RetrieveMediator_def retrieve_def)

lemma same_props_views:
  assumes "same_props d d'"
  shows "GetGlobalProp p ops d' = GetGlobalProp p ops d" and "GetDynGlobalProp d' = GetDynGlobalProp d"
    and "GetMediatorSchl d' = GetMediatorSchl d" and "dagScheduledMediator n d' = dagScheduledMediator n d"
proof -
  note c = assms [unfolded same_props_def]
  show "GetGlobalProp p ops d' = GetGlobalProp p ops d" by (rule GetGlobalProp_cong) (use c in simp)
  show v: "GetDynGlobalProp d' = GetDynGlobalProp d" by (rule GetDyn_cong) (use c in simp)
  show "GetMediatorSchl d' = GetMediatorSchl d" by (rule GetSchl_cong) (use c in simp)
  then show "dagScheduledMediator n d' = dagScheduledMediator n d" using v by (simp add: dagScheduledMediator_def)
qed

section \<open>Charging a mediator\<close>

text \<open>What storing relies on of the codecs of other packages.\<close>

definition medLaws :: "prims \<Rightarrow> ('pt, 'nd) medOps \<Rightarrow> bool" where
  "medLaws p ops \<longleftrightarrow> base58_inverse p \<and> base58_clean p \<and> (\<forall>pt. StrToPoint ops (PointToStr ops pt) = pt) \<and>
    (\<forall>nd. ParseNode ops (nodeString ops nd) = Some nd)"

definition medFits :: "prims \<Rightarrow> ('pt, 'nd) medOps \<Rightarrow> ('pt, 'nd) Mediator \<Rightarrow> bool" where
  "medFits p ops m \<longleftrightarrow> goodAddress (medAddress m) \<and> 0 \<le> TotalMissed m \<and> TotalMissed m < 2 ^ 63 \<and>
    (\<exists>mi. mediatorToInfo p ops m = Inr mi \<and> fits infoType (infoValue mi))"

lemma SaveMediator_facts:
  assumes "medLaws p ops" and "medFits p ops m"
  shows "fst (SaveMediator p ops m d) = Inr ()"
    and "survives (TotalMissed m) \<Longrightarrow> GetMediator p ops (medAddress m) (snd (SaveMediator p ops m d)) = Inr (Some (m\<lparr>Url := []\<rparr>))"
    and "\<not> survives (TotalMissed m) \<Longrightarrow> GetMediator p ops (medAddress m) (snd (SaveMediator p ops m d)) = Inr None"
    and "k \<noteq> mediatorKey p (medAddress m) \<Longrightarrow> dbGet k (snd (SaveMediator p ops m d)) = dbGet k d"
proof -
  let ?a = "medAddress m"
  obtain mi where mi: "mediatorToInfo p ops m = Inr mi" "fits infoType (infoValue mi)" using assms(2) by (auto simp: medFits_def)
  then obtain nd where nd: "medNode m = Some nd" by (auto simp: mediatorToInfo_def split: option.splits)
  have mi': "infoAddStr mi = Str p ?a" "infoTotalMissed mi = TotalMissed m" "infoInitPartPub mi = PointToStr ops (InitPartPub m)"
    "infoNode mi = nodeString ops nd" using mi(1) nd by (auto simp: mediatorToInfo_def)
  have g: "goodAddress ?a" "0 \<le> infoTotalMissed mi" "infoTotalMissed mi < 2 ^ 63" using assms(2) mi' by (auto simp: medFits_def)
  have laws: "base58_inverse p" "base58_clean p" using assms(1) by (auto simp: medLaws_def)
  note S = info_stored [OF laws g(1) mi'(1) mi(2) g(2,3)]
  have st: "StoreMediator p ops m d = StoreMediatorInfo p mi d" by (simp add: StoreMediator_def mi(1))
  obtain d' where d': "StoreMediatorInfo p mi d = (Inr (), d')" using S(1) [of d] by (cases "StoreMediatorInfo p mi d") auto
  then have sv: "SaveMediator p ops m d = (Inr (), d')" by (simp add: SaveMediator_def st)
  then show "fst (SaveMediator p ops m d) = Inr ()" by simp
  show "k \<noteq> mediatorKey p ?a \<Longrightarrow> dbGet k (snd (SaveMediator p ops m d)) = dbGet k d" using S(4) [of k d] sv d' by simp
  have rd: "infoToMediator p ops mi = Inr (m\<lparr>Url := []\<rparr>)"
    using StrToMedAdd_Str [OF laws g(1)] assms(1) mi' nd by (simp add: infoToMediator_def liftErr_def medLaws_def)
  show "GetMediator p ops ?a (snd (SaveMediator p ops m d)) = Inr (Some (m\<lparr>Url := []\<rparr>))" if "survives (TotalMissed m)"
    using S(2) [of d] that d' sv rd by (simp add: GetMediator_def RetrieveMediator_def info_value mi'(2))
  show "GetMediator p ops ?a (snd (SaveMediator p ops m d)) = Inr None" if "\<not> survives (TotalMissed m)"
    using S(3) [of d] that d' sv by (auto simp: GetMediator_def RetrieveMediator_def mi'(2))
qed

lemma GetMediator_url: "GetMediator p ops a d = Inr (Some m) \<Longrightarrow> Url m = []"
  by (auto simp: GetMediator_def RetrieveMediator_def infoToMediator_def bindR_def split: sum.splits)

lemma survives_small: "0 \<le> c \<Longrightarrow> c \<le> 127 \<Longrightarrow> survives c"
  by (simp add: survives_def putint2_def)

definition charge :: "('pt, 'nd) Mediator \<Rightarrow> ('pt, 'nd) Mediator" where
  "charge m = m\<lparr>TotalMissed := TotalMissed m + 1\<rparr>"

text \<open>A mediator that can be charged another \<^term>\<open>n\<close> times before its count leaves the range that is
  stored and read back.\<close>

definition reserve :: "prims \<Rightarrow> ('pt, 'nd) medOps \<Rightarrow> nat \<Rightarrow> db \<Rightarrow> Address \<Rightarrow> bool" where
  "reserve p ops n d a \<longleftrightarrow> (\<exists>m. GetMediator p ops a d = Inr (Some m) \<and> medAddress m = a \<and> 0 \<le> TotalMissed m \<and>
     TotalMissed m + int n \<le> 127 \<and> (\<forall>c \<in> {0..127}. medFits p ops (m\<lparr>TotalMissed := c\<rparr>)))"

lemma reserve_good: "reserve p ops n d a \<Longrightarrow> goodAddress a"
  by (auto simp: reserve_def medFits_def dest!: bspec [where x = 0])

lemma charge_stored:
  assumes "medLaws p ops" and "reserve p ops (Suc n) d a"
  obtains m d1 where "GetMediator p ops a d = Inr (Some m)" and "SaveMediator p ops (m\<lparr>TotalMissed := int64 (TotalMissed m + 1)\<rparr>) d = (Inr (), d1)"
    and "same_props d d1" and "GetMediator p ops a d1 = Inr (Some (charge m))"
    and "\<And>b. goodAddress b \<Longrightarrow> b \<noteq> a \<Longrightarrow> GetMediator p ops b d1 = GetMediator p ops b d"
proof -
  obtain m where m: "GetMediator p ops a d = Inr (Some m)" "medAddress m = a" "0 \<le> TotalMissed m" "TotalMissed m + int (Suc n) \<le> 127"
    "\<forall>c \<in> {0..127}. medFits p ops (m\<lparr>TotalMissed := c\<rparr>)" using assms(2) by (auto simp: reserve_def)
  have i: "int64 (TotalMissed m + 1) = TotalMissed m + 1" using m(3,4) by (simp add: int64_id)
  have f: "medFits p ops (charge m)" "survives (TotalMissed (charge m))"
    using m(3-5) survives_small [of "TotalMissed m + 1"] by (simp_all add: charge_def)
  note S = SaveMediator_facts [OF assms(1) f(1), where d = d]
  obtain d1 where d1: "SaveMediator p ops (charge m) d = (Inr (), d1)" using S(1) by (cases "SaveMediator p ops (charge m) d") auto
  have a: "medAddress (charge m) = a" "(charge m)\<lparr>Url := []\<rparr> = charge m"
    using m(2) GetMediator_url [OF m(1)] by (cases m, simp add: charge_def)+
  have k: "dbGet k d1 = dbGet k d" if "k \<noteq> mediatorKey p a" for k using S(4) [of k] that a(1) d1 by simp
  show thesis
  proof (rule that [OF m(1)])
    show "SaveMediator p ops (m\<lparr>TotalMissed := int64 (TotalMissed m + 1)\<rparr>) d = (Inr (), d1)"
      using d1 by (simp add: charge_def i)
    show "same_props d d1" using k keys_differ(4-6) [of p a] by (auto simp: same_props_def)
    show "GetMediator p ops a d1 = Inr (Some (charge m))" using S(2) f(2) a d1 by simp
    show "GetMediator p ops b d1 = GetMediator p ops b d" if b: "goodAddress b" "b \<noteq> a" for b
      by (rule GetMediator_cong, rule k)
        (use mediatorKey_inject [of p b a] b assms(1) reserve_good [OF assms(2)] in \<open>auto simp: medLaws_def\<close>)
  qed
qed

lemma same_props_trans: "same_props d e \<Longrightarrow> same_props e f \<Longrightarrow> same_props d f"
  by (simp add: same_props_def)

lemma missLoop_charges:
  assumes "medLaws p ops"
  shows "distinct (map (\<lambda>i. dagScheduledMediator (word_of_nat i + 1) d) is) \<Longrightarrow>
    \<forall>i \<in> set is. reserve p ops (Suc n) d (dagScheduledMediator (word_of_nat i + 1) d) \<Longrightarrow>
    \<exists>d'. missLoop p ops is d = (Inr (), d') \<and> same_props d d' \<and>
      (\<forall>a. goodAddress a \<longrightarrow> GetMediator p ops a d' =
        (if a \<in> (\<lambda>i. dagScheduledMediator (word_of_nat i + 1) d) ` set is
         then map_sum id (map_option charge) (GetMediator p ops a d) else GetMediator p ops a d))"
proof (induction "is" arbitrary: d)
  case Nil
  then show ?case by (simp add: same_props_def)
next
  case (Cons i "is")
  let ?f = "\<lambda>i. dagScheduledMediator (word_of_nat i + 1) d"
  obtain m d1 where m: "GetMediator p ops (?f i) d = Inr (Some m)"
    "SaveMediator p ops (m\<lparr>TotalMissed := int64 (TotalMissed m + 1)\<rparr>) d = (Inr (), d1)" "same_props d d1"
    "GetMediator p ops (?f i) d1 = Inr (Some (charge m))"
    "\<And>b. goodAddress b \<Longrightarrow> b \<noteq> ?f i \<Longrightarrow> GetMediator p ops b d1 = GetMediator p ops b d"
    using charge_stored [OF assms, of n d "?f i"] Cons.prems(2) by auto
  note v = same_props_views(4) [OF m(3)]
  have r: "reserve p ops (Suc n) d1 (?f j)" if j: "j \<in> set is" for j
  proof -
    have "reserve p ops (Suc n) d (?f j)" using j Cons.prems(2) by simp
    moreover have "?f j \<noteq> ?f i"
    proof
      assume e: "?f j = ?f i"
      have "?f j \<in> ?f ` set is" by (rule imageI [OF j])
      then show False using Cons.prems(1) unfolding e by simp
    qed
    ultimately show ?thesis using m(5) [of "?f j"] reserve_good [of p ops "Suc n" d "?f j"] by (simp add: reserve_def)
  qed
  obtain d' where d': "missLoop p ops is d1 = (Inr (), d')" "same_props d1 d'"
    "\<forall>a. goodAddress a \<longrightarrow> GetMediator p ops a d' =
        (if a \<in> ?f ` set is then map_sum id (map_option charge) (GetMediator p ops a d1) else GetMediator p ops a d1)"
    using Cons.IH [of d1] Cons.prems(1) r unfolding v by auto
  show ?case
  proof (intro exI conjI allI impI)
    show "missLoop p ops (i # is) d = (Inr (), d')" using m(1,2) d'(1) by (simp add: bindE_def)
    show "same_props d d'" by (rule same_props_trans [OF m(3) d'(2)])
    show "GetMediator p ops a d' = (if a \<in> ?f ` set (i # is) then map_sum id (map_option charge) (GetMediator p ops a d)
       else GetMediator p ops a d)" if "goodAddress a" for a
      using d'(3) that Cons.prems(1) m by (cases "a = ?f i") auto
  qed
qed

section \<open>Applying units refines the schedule\<close>

text \<open>What a database holds.\<close>

definition holds :: "prims \<Rightarrow> ('pt, 'nd) medOps \<Rightarrow> 'pt GlobalProperty \<Rightarrow> DynamicGlobalProperty \<Rightarrow> MediatorSchedule \<Rightarrow> db \<Rightarrow> bool" where
  "holds p ops gp dgp ms d \<longleftrightarrow> goodProps p gp \<and> complete gp ms \<and> GetGlobalProp p ops d = Inr gp \<and>
    GetDynGlobalProp d = dgp \<and> GetMediatorSchl d = ms"

lemma holds_good: "holds p ops gp dgp ms d \<Longrightarrow> a \<in> set (CurrentShuffledMediators ms) \<Longrightarrow> goodAddress a \<and> a \<in> fst ` set (ActiveMediators gp)"
  unfolding holds_def complete_def goodProps_def list_all_iff by (metis mset_eq_setD set_map)

definition missedBy :: "'pt GlobalProperty \<Rightarrow> DynamicGlobalProperty \<Rightarrow> int \<Rightarrow> nat" where
  "missedBy gp dgp t = nat ((t - slotBase gp dgp) div intervalOf gp - 1)"

text \<open>One unit, without the database.\<close>

definition nextState :: "prims \<Rightarrow> 'pt GlobalProperty \<Rightarrow> Unit \<Rightarrow> DynamicGlobalProperty \<times> MediatorSchedule \<Rightarrow> DynamicGlobalProperty \<times> MediatorSchedule" where
  "nextState p gp u st =
    (case st of (dgp, ms) \<Rightarrow>
      let dgp' = newDynGlobalProp u (word_of_nat (missedBy gp dgp (Timestamp u))) dgp in
      (dgp', UpdateMediatorSchedule p gp dgp' ms))"

text \<open>The mediators of the slots that went by.\<close>

definition absent :: "'pt GlobalProperty \<Rightarrow> DynamicGlobalProperty \<Rightarrow> MediatorSchedule \<Rightarrow> int \<Rightarrow> Address set" where
  "absent gp dgp ms t =
    (if missedBy gp dgp t < length (ActiveMediators gp)
     then (\<lambda>i. GetScheduledMediator dgp (word_of_nat (Suc i)) ms) ` {0..<missedBy gp dgp t} else {})"

lemma suc_mod_inj:
  fixes a i j n :: nat
  assumes "i < n" and "j < n" and "(a + i) mod n = (a + j) mod n"
  shows "i = j"
proof -
  have "(a + i) mod n = (a + j) mod n \<Longrightarrow> i \<le> j \<Longrightarrow> j < n \<Longrightarrow> i = j" for i j
  proof -
    assume m: "(a + i) mod n = (a + j) mod n" and l: "i \<le> j" "j < n"
    then have "n dvd (a + j) - (a + i)" using mod_eq_dvd_iff_nat [of "a + i" "a + j" n] by simp
    then show "i = j" using l by (auto dest: dvd_imp_le)
  qed
  then show ?thesis using assms by (metis nat_le_linear)
qed

lemma scheduled_distinct:
  assumes "holds p ops gp dgp ms d" and "unat (CurrentASlot dgp) + length (ActiveMediators gp) < 2 ^ 64"
    and "m < length (ActiveMediators gp)"
  shows "distinct (map (\<lambda>i. dagScheduledMediator (word_of_nat i + 1) d) [0..<m])"
    and "\<forall>i < m. dagScheduledMediator (word_of_nat i + 1) d \<in> set (CurrentShuffledMediators ms)"
proof -
  let ?n = "length (ActiveMediators gp)" and ?ms = "CurrentShuffledMediators ms"
  have h: "goodProps p gp" "complete gp ms" "GetDynGlobalProp d = dgp" "GetMediatorSchl d = ms" using assms(1) by (auto simp: holds_def)
  have n: "0 < ?n" "?n < 2 ^ 31" and dm: "distinct (map fst (ActiveMediators gp))" using h(1) by (auto simp: goodProps_def)
  have len: "length ?ms = ?n" by (rule complete_length [OF h(2)])
  have dist: "distinct ?ms" using dm h(2) mset_eq_imp_distinct_iff unfolding complete_def by blast
  have e: "dagScheduledMediator (word_of_nat i + 1) d = ?ms ! ((unat (CurrentASlot dgp) + i) mod ?n)" if "i < m" for i
    using scheduled_nth [OF len n assms(2), of "Suc i"] that assms(3) h by (simp add: dagScheduledMediator_def add.commute)
  show "\<forall>i < m. dagScheduledMediator (word_of_nat i + 1) d \<in> set ?ms" using e n(1) len by simp
  show "distinct (map (\<lambda>i. dagScheduledMediator (word_of_nat i + 1) d) [0..<m])"
  proof (subst distinct_map, intro conjI inj_onI)
    fix i j assume "i \<in> set [0..<m]" "j \<in> set [0..<m]" "dagScheduledMediator (word_of_nat i + 1) d = dagScheduledMediator (word_of_nat j + 1) d"
    then show "i = j" using e dist len n(1) assms(3) suc_mod_inj [of i ?n j "unat (CurrentASlot dgp)"] by (simp add: nth_eq_iff_index_eq)
  qed simp
qed

lemma dagSlotAtTime_holds:
  assumes "holds p ops gp dgp ms d" and "inEra gp dgp" and "0 \<le> t" and "t < 2 ^ 32"
  obtains n where "dagSlotAtTime p ops (Unix t) d = Inr n" and "uint n = max 0 ((t - slotBase gp dgp) div intervalOf gp)"
proof -
  obtain n where n: "GetSlotAtTime gp dgp (Unix t) = Inr n" "uint n = max 0 ((t - slotBase gp dgp) div intervalOf gp)"
    using GetSlotAtTime_eq [OF assms(2-4)] by blast
  show thesis by (rule that [OF _ n(2)]) (use assms(1) n(1) in \<open>simp add: dagSlotAtTime_def holds_def liftErr_def\<close>)
qed

lemma unat_pred: "n \<noteq> 0 \<Longrightarrow> unat (n - 1) = nat (max 0 (uint n - 1))" for n :: "32 word"
proof -
  assume "n \<noteq> 0"
  then have "unat (n - 1) = unat n - 1" by (simp add: unat_sub word_le_nat_alt unat_gt_0 Suc_le_eq)
  then show ?thesis unfolding uint_nat by arith
qed

lemma MissedUnits_charges:
  assumes "medLaws p ops" and "holds p ops gp dgp ms d" and "inEra gp dgp" and "0 \<le> Timestamp u" and "Timestamp u < 2 ^ 32"
    and "unat (CurrentASlot dgp) + length (ActiveMediators gp) < 2 ^ 64"
    and "\<forall>a \<in> fst ` set (ActiveMediators gp). reserve p ops (Suc k) d a"
  obtains d' where "UpdateMediatorMissedUnits p ops u d = (Inr (word_of_nat (missedBy gp dgp (Timestamp u))), d')" and "same_props d d'"
    and "\<And>a. goodAddress a \<Longrightarrow> GetMediator p ops a d' =
      (if a \<in> absent gp dgp ms (Timestamp u) then map_sum id (map_option charge) (GetMediator p ops a d) else GetMediator p ops a d)"
proof -
  let ?m = "missedBy gp dgp (Timestamp u)" and ?n = "length (ActiveMediators gp)"
  obtain n where n: "dagSlotAtTime p ops (Unix (Timestamp u)) d = Inr n"
    "uint n = max 0 ((Timestamp u - slotBase gp dgp) div intervalOf gp)" by (rule dagSlotAtTime_holds [OF assms(2-5)])
  have c: "dagActiveMediatorCount p ops d = Inr ?n" using assms(2) by (simp add: dagActiveMediatorCount_def holds_def GetActiveMediatorCount_def)
  have n31: "?n < 2 ^ 31" using assms(2) by (simp add: holds_def goodProps_def)
  have sched: "dagScheduledMediator w d = GetScheduledMediator dgp w ms" for w using assms(2) by (simp add: holds_def dagScheduledMediator_def)
  show thesis
  proof (cases "n = 0")
    case True
    then have "?m = 0" using n(2) by (simp add: missedBy_def)
    then show thesis using True n(1) by (intro that [of d]) (simp_all add: UpdateMediatorMissedUnits_def same_props_def absent_def)
  next
    case False
    then have m: "unat (n - 1) = ?m" using unat_pred n(2) by (simp add: missedBy_def)
    have w: "ucast (n - 1) = (word_of_nat ?m :: 64 word)" unfolding m [symmetric] by simp
    have lt: "n - 1 < word_of_nat ?n \<longleftrightarrow> ?m < ?n" using n31 m by (simp add: word_less_nat_alt unat_of_nat)
    show thesis
    proof (cases "?m < ?n")
      case True
      note S = scheduled_distinct [OF assms(2,6) True]
      have "\<forall>i \<in> set [0..<?m]. reserve p ops (Suc k) d (dagScheduledMediator (word_of_nat i + 1) d)"
        using S(2) holds_good [OF assms(2), THEN conjunct2] bspec [OF assms(7)] by simp
      then obtain d' where d': "missLoop p ops [0..<?m] d = (Inr (), d')" "same_props d d'" "\<forall>a. goodAddress a \<longrightarrow> GetMediator p ops a d' =
        (if a \<in> (\<lambda>i. dagScheduledMediator (word_of_nat i + 1) d) ` set [0..<?m]
         then map_sum id (map_option charge) (GetMediator p ops a d) else GetMediator p ops a d)"
        using missLoop_charges [OF assms(1) S(1)] by blast
      have "(\<lambda>i. dagScheduledMediator (word_of_nat i + 1) d) ` set [0..<?m] = absent gp dgp ms (Timestamp u)"
        using True by (simp add: absent_def sched add.commute)
      then show thesis using False n(1) c d' lt True
        by (intro that [of d']) (simp_all add: UpdateMediatorMissedUnits_def m w bindE_def)
    next
      case f: False
      then show thesis using False n(1) c lt
        by (intro that [of d]) (simp_all add: UpdateMediatorMissedUnits_def m w same_props_def absent_def)
    qed
  qed
qed

lemma holds_frame:
  assumes "holds p ops gp dgp ms d" and "same_props d d'"
  shows "holds p ops gp dgp ms d'"
  using assms(1) same_props_views(2,3) [OF assms(2)] same_props_views(1) [OF assms(2), of p ops] by (simp add: holds_def)

lemma SaveDyn_views:
  assumes "dgpOK dgp" and "survives (HeadUnitTime dgp)"
  shows "StoreDynGlobalProp dgp d = (Inr (), SaveDynGlobalProp dgp d)" and "GetDynGlobalProp (SaveDynGlobalProp dgp d) = dgp"
    and "GetGlobalProp p ops (SaveDynGlobalProp dgp d) = GetGlobalProp p ops d" and "GetMediatorSchl (SaveDynGlobalProp dgp d) = GetMediatorSchl d"
    and "GetMediator p ops a (SaveDynGlobalProp dgp d) = GetMediator p ops a d"
proof -
  let ?d = "SaveDynGlobalProp dgp d"
  have f: "fst (StoreDynGlobalProp dgp d) = Inr ()" and k: "\<And>k. k \<noteq> DynGlobalPropDBKey \<Longrightarrow> dbGet k ?d = dbGet k d"
    using StoreDyn_bytes [OF assms(1), of d] unfolding SaveDynGlobalProp_def by metis+
  show "StoreDynGlobalProp dgp d = (Inr (), ?d)" using f by (simp add: SaveDynGlobalProp_def prod_eq_iff)
  show "GetDynGlobalProp ?d = dgp" using RetrieveDyn_stored [OF assms] by (simp add: GetDynGlobalProp_def SaveDynGlobalProp_def)
  show "GetGlobalProp p ops ?d = GetGlobalProp p ops d" by (rule GetGlobalProp_cong, rule k) (use keys_differ in metis)
  show "GetMediatorSchl ?d = GetMediatorSchl d" by (rule GetSchl_cong, rule k) (use keys_differ in metis)
  show "GetMediator p ops a ?d = GetMediator p ops a d" by (rule GetMediator_cong, rule k) (use keys_differ in metis)
qed

lemma SaveSchl_views:
  assumes "goodProps p gp" and "complete gp ms"
  shows "StoreMediatorSchl ms d = (Inr (), SaveMediatorSchl ms d)" and "GetMediatorSchl (SaveMediatorSchl ms d) = ms"
    and "GetGlobalProp p ops (SaveMediatorSchl ms d) = GetGlobalProp p ops d" and "GetDynGlobalProp (SaveMediatorSchl ms d) = GetDynGlobalProp d"
    and "GetMediator p ops a (SaveMediatorSchl ms d) = GetMediator p ops a d"
proof -
  let ?d = "SaveMediatorSchl ms d"
  have "set (CurrentShuffledMediators ms) = fst ` set (ActiveMediators gp)"
    using mset_eq_setD [OF assms(2) [unfolded complete_def]] by simp
  then have ok: "list_all (\<lambda>a. length a = 21) (CurrentShuffledMediators ms)" "length (CurrentShuffledMediators ms) < 2 ^ 31"
    using assms(1) complete_length [OF assms(2)] by (auto simp: list_all_iff goodProps_def goodAddress_def)
  note S = schl_stored [OF ok, where d = d]
  have k: "dbGet k ?d = dbGet k d" if "k \<noteq> MediatorSchlDBKey" for k using S(3) that by (simp add: SaveMediatorSchl_def)
  show "StoreMediatorSchl ms d = (Inr (), ?d)" using S(1) by (simp add: SaveMediatorSchl_def prod_eq_iff)
  show "GetMediatorSchl ?d = ms" using S(2) by (simp add: GetMediatorSchl_def SaveMediatorSchl_def)
  show "GetGlobalProp p ops ?d = GetGlobalProp p ops d" by (rule GetGlobalProp_cong, rule k) (use keys_differ in metis)
  show "GetDynGlobalProp ?d = GetDynGlobalProp d" by (rule GetDyn_cong, rule k) (use keys_differ in metis)
  show "GetMediator p ops a ?d = GetMediator p ops a d" by (rule GetMediator_cong, rule k) (use keys_differ in metis)
qed

text \<open>A unit whose time is stored and read back.\<close>

definition timely :: "Unit \<Rightarrow> bool" where
  "timely u \<longleftrightarrow> length (UnitHash u) = 32 \<and> 2 ^ 24 \<le> Timestamp u \<and> Timestamp u < 2 ^ 31"

lemma ApplyUnit_step:
  assumes "medLaws p ops" and "holds p ops gp dgp ms d" and "inEra gp dgp" and "timely u"
    and "unat (CurrentASlot dgp) + length (ActiveMediators gp) < 2 ^ 64"
    and "\<forall>a \<in> fst ` set (ActiveMediators gp). reserve p ops (Suc k) d a"
  obtains d' where "ApplyUnit p ops u d = (Inr (), d')"
    and "holds p ops gp (fst (nextState p gp u (dgp, ms))) (snd (nextState p gp u (dgp, ms))) d'"
    and "\<And>a. goodAddress a \<Longrightarrow> GetMediator p ops a d' =
      (if a \<in> absent gp dgp ms (Timestamp u) then map_sum id (map_option charge) (GetMediator p ops a d) else GetMediator p ops a d)"
proof -
  have t: "0 \<le> Timestamp u" "Timestamp u < 2 ^ 32" using assms(4) by (auto simp: timely_def)
  let ?w = "word_of_nat (missedBy gp dgp (Timestamp u))"
  obtain d1 where d1: "UpdateMediatorMissedUnits p ops u d = (Inr ?w, d1)" "same_props d d1"
    "\<And>a. goodAddress a \<Longrightarrow> GetMediator p ops a d1 =
      (if a \<in> absent gp dgp ms (Timestamp u) then map_sum id (map_option charge) (GetMediator p ops a d) else GetMediator p ops a d)"
    by (rule MissedUnits_charges [OF assms(1-3) t assms(5,6)]) auto
  note h1 = holds_frame [OF assms(2) d1(2)]
  define dgp' where "dgp' = newDynGlobalProp u ?w dgp"
  have "Timestamp u = HeadUnitTime dgp'" "UnitHash u = HeadUnitHash dgp'" by (simp_all add: dgp'_def newDynGlobalProp_def Timestamp_def)
  then have ok: "dgpOK dgp'" "survives (HeadUnitTime dgp')" using assms(4) by (auto simp: timely_def dgpOK_def intro: survives_era)
  define d2 where "d2 = SaveDynGlobalProp dgp' d1"
  note v2 = SaveDyn_views [OF ok, where d = d1, folded d2_def]
  have h2: "holds p ops gp dgp' ms d2" using h1 v2(2,4) v2(3) [of p ops] by (simp add: holds_def)
  define ms' where "ms' = UpdateMediatorSchedule p gp dgp' ms"
  have c: "goodProps p gp" "complete gp ms'" unfolding ms'_def using h2 by (auto simp: holds_def intro: complete_update)
  note v3 = SaveSchl_views [OF c, where d = d2]
  have h3: "holds p ops gp dgp' ms' (SaveMediatorSchl ms' d2)" using h2 c v3(2,4) v3(3) [of ops] by (simp add: holds_def)
  have "ApplyUnit p ops u d = (Inr (), SaveMediatorSchl ms' d2)"
    using d1(1) h1 h2 unfolding ApplyUnit_def UpdateDynGlobalProp_def dagUpdateSchedule_def
    by (simp add: bindE_def holds_def d2_def ms'_def dgp'_def)
  moreover have "nextState p gp u (dgp, ms) = (dgp', ms')" by (simp add: nextState_def dgp'_def ms'_def Let_def)
  ultimately show thesis using that h3 v2(5) [of p ops] v3(5) [of ops] d1(3) by simp
qed

text \<open>Units in the order in which they are applied.\<close>

primrec replay :: "prims \<Rightarrow> ('pt, 'nd) medOps \<Rightarrow> Unit list \<Rightarrow> db \<Rightarrow> (rerr + unit) \<times> db" where
  "replay p ops [] d = (Inr (), d)"
| "replay p ops (u # us) d = bindE (ApplyUnit p ops u d) (\<lambda>_ d. replay p ops us d)"

lemma reserve_step:
  assumes "reserve p ops (Suc k) d a" and "GetMediator p ops a d' =
    (if B then map_sum id (map_option charge) (GetMediator p ops a d) else GetMediator p ops a d)"
  shows "reserve p ops k d' a"
proof -
  obtain m where m: "GetMediator p ops a d = Inr (Some m)" "medAddress m = a" "0 \<le> TotalMissed m" "TotalMissed m + int (Suc k) \<le> 127"
    "\<forall>c \<in> {0..127}. medFits p ops (m\<lparr>TotalMissed := c\<rparr>)" using assms(1) by (auto simp: reserve_def)
  show ?thesis
    unfolding reserve_def using m assms(2) by (intro exI [of _ "if B then charge m else m"]) (simp add: charge_def)
qed

lemma missedBy_bound:
  assumes "inEra gp dgp" and "0 \<le> t" and "t < 2 ^ 31"
  shows "missedBy gp dgp t < 2 ^ 31"
proof -
  have iv: "0 < intervalOf gp" using assms(1) by (simp add: inEra_def)
  have "(t - slotBase gp dgp) div intervalOf gp \<le> t div intervalOf gp"
    using slotBase_range(1) [OF assms(1)] iv by (intro zdiv_mono1) simp_all
  also have "\<dots> \<le> t" using zdiv_mono2 [of t 1 "intervalOf gp"] assms(2) iv by simp
  finally have "(t - slotBase gp dgp) div intervalOf gp - 1 < 2 ^ 31" using assms(3) by linarith
  then show ?thesis unfolding missedBy_def by (simp add: nat_less_iff)
qed

lemma nextState_facts:
  assumes "inEra gp dgp" and "timely u" and "nextState p gp u (dgp, ms) = (dgp', ms')"
  shows "inEra gp dgp'" and "unat (CurrentASlot dgp') \<le> unat (CurrentASlot dgp) + 2 ^ 32"
proof -
  let ?w = "word_of_nat (missedBy gp dgp (Timestamp u)) :: 64 word"
  have dgp': "dgp' = newDynGlobalProp u ?w dgp" using assms(3) by (simp add: nextState_def Let_def)
  show "inEra gp dgp'" using assms(1,2) by (simp add: dgp' newDynGlobalProp_def inEra_def timely_def Timestamp_def)
  have "missedBy gp dgp (Timestamp u) < 2 ^ 31" by (rule missedBy_bound [OF assms(1)]) (use assms(2) in \<open>auto simp: timely_def\<close>)
  then have "unat (?w + 1) \<le> 2 ^ 32" by (simp add: unat_word_ariths unat_of_nat)
  moreover have "unat (CurrentASlot dgp + (?w + 1)) \<le> unat (CurrentASlot dgp) + unat (?w + 1)"
    unfolding unat_word_ariths(1) by (rule mod_less_eq_dividend)
  ultimately show "unat (CurrentASlot dgp') \<le> unat (CurrentASlot dgp) + 2 ^ 32" by (simp add: dgp' newDynGlobalProp_def)
qed

lemma replay_steps:
  assumes "medLaws p ops"
  shows "holds p ops gp dgp ms d \<Longrightarrow> inEra gp dgp \<Longrightarrow> \<forall>u \<in> set us. timely u \<Longrightarrow>
    unat (CurrentASlot dgp) + (length us + 1) * 2 ^ 32 < 2 ^ 64 \<Longrightarrow>
    \<forall>a \<in> fst ` set (ActiveMediators gp). reserve p ops (length us + k) d a \<Longrightarrow>
    \<exists>d'. replay p ops us d = (Inr (), d') \<and> inEra gp (GetDynGlobalProp d') \<and>
      holds p ops gp (fst (fold (nextState p gp) us (dgp, ms))) (snd (fold (nextState p gp) us (dgp, ms))) d' \<and>
      (\<forall>a \<in> fst ` set (ActiveMediators gp). reserve p ops k d' a)"
proof (induction us arbitrary: dgp ms d)
  case Nil
  then show ?case by (auto simp: holds_def)
next
  case (Cons u us)
  have n31: "length (ActiveMediators gp) < 2 ^ 31" using Cons.prems(1) by (simp add: holds_def goodProps_def)
  have ga: "goodAddress a" if "a \<in> fst ` set (ActiveMediators gp)" for a
    using Cons.prems(1) that by (auto simp: holds_def goodProps_def list_all_iff)
  obtain dgp' ms' where n: "nextState p gp u (dgp, ms) = (dgp', ms')" by fastforce
  have t: "timely u" using Cons.prems(3) by simp
  obtain d1 where d1: "ApplyUnit p ops u d = (Inr (), d1)" "holds p ops gp dgp' ms' d1"
    "\<And>a. goodAddress a \<Longrightarrow> GetMediator p ops a d1 =
      (if a \<in> absent gp dgp ms (Timestamp u) then map_sum id (map_option charge) (GetMediator p ops a d) else GetMediator p ops a d)"
    by (rule ApplyUnit_step [OF assms Cons.prems(1,2) t, of "length us + k"]) (use Cons.prems(4,5) n31 n in auto)
  note f = nextState_facts [OF Cons.prems(2) t n]
  have r: "\<forall>a \<in> fst ` set (ActiveMediators gp). reserve p ops (length us + k) d1 a"
    using reserve_step [OF _ d1(3)] Cons.prems(5) ga by simp
  obtain d' where "replay p ops us d1 = (Inr (), d')" "inEra gp (GetDynGlobalProp d')"
    "holds p ops gp (fst (fold (nextState p gp) us (dgp', ms'))) (snd (fold (nextState p gp) us (dgp', ms'))) d'"
    "\<forall>a \<in> fst ` set (ActiveMediators gp). reserve p ops k d' a"
    using Cons.IH [OF d1(2) f(1) _ _ r] Cons.prems(3,4) f(2) by auto
  then show ?case using d1(1) n by (simp add: bindE_def)
qed

lemma genesis_holds:
  assumes "InitGlobalProp p (nullPoint ops) genesis = Inr gp" and "storable p ops gp" and "length h = 32"
    and "2 ^ 24 \<le> InitialTimestamp genesis" and "InitialTimestamp genesis < 2 ^ 31"
  obtains d' where "InitPropertyDB p ops genesis h d = (Inr (), d')"
    and "holds p ops gp (InitDynGlobalProp genesis h) (InitMediatorSchl p gp (InitDynGlobalProp genesis h)) d'"
    and "\<And>a. GetMediator p ops a d' = GetMediator p ops a d"
proof -
  let ?dgp = "InitDynGlobalProp genesis h" and ?ms = "InitMediatorSchl p gp (InitDynGlobalProp genesis h)"
  have gp: "goodProps p gp" using assms(2) by (simp add: storable_def)
  have t: "HeadUnitTime ?dgp = InitialTimestamp genesis" "HeadUnitHash ?dgp = h" by (simp_all add: InitDynGlobalProp_def)
  have ok: "dgpOK ?dgp" "survives (HeadUnitTime ?dgp)" using assms(3-5) t by (auto simp: dgpOK_def intro: survives_era)
  note G = gp_stored [OF assms(2), where d = d]
  obtain d1 where d1: "StoreGlobalProp p ops gp d = (Inr (), d1)" using G(1) by (cases "StoreGlobalProp p ops gp d") auto
  have g1: "GetGlobalProp p ops d1 = Inr gp" using G(2) d1 by (simp add: GetGlobalProp_def)
  have k1: "GetMediator p ops a d1 = GetMediator p ops a d" for a
    using G(3) [of "mediatorKey p a"] d1 keys_differ(6) [of p a] by (intro GetMediator_cong) simp
  define d2 where "d2 = SaveDynGlobalProp ?dgp d1"
  note v2 = SaveDyn_views [OF ok, where d = d1, folded d2_def]
  note c = gp complete_init [OF gp, of ?dgp]
  note v3 = SaveSchl_views [OF c, where d = d2]
  show thesis
  proof (rule that)
    show "InitPropertyDB p ops genesis h d = (Inr (), SaveMediatorSchl ?ms d2)"
      using d1 v2(1) v3(1) assms(1) by (simp add: InitPropertyDB_def liftErr_def bindE_def)
    show "holds p ops gp ?dgp ?ms (SaveMediatorSchl ?ms d2)"
      using c g1 v2(2) v2(3) [of p ops] v3(2,4) v3(3) [of ops] by (simp add: holds_def)
    show "GetMediator p ops a (SaveMediatorSchl ?ms d2) = GetMediator p ops a d" for a
      using k1 [of a] v2(5) [of p ops a] v3(5) [of ops a] by simp
  qed
qed

section \<open>A concrete instance\<close>

lemma encLst_bound: "length b < 2 ^ 62 \<Longrightarrow> length (encLst b) < 2 ^ 63"
  using length_enc(1) [of b] by simp

lemma info_fits:
  assumes "length (infoAddStr mi) < 2 ^ 40" and "length (infoInitPartPub mi) < 2 ^ 40" and "length (infoNode mi) < 2 ^ 40"
    and "infoUrl mi = []" and "- (2 ^ 63) \<le> infoTotalMissed mi" and "infoTotalMissed mi < 2 ^ 63"
  shows "fits infoType (infoValue mi)"
proof -
  let ?a = "encStr (strBytes (infoAddStr mi))" and ?b = "encStr (strBytes (infoInitPartPub mi))" and ?c = "encStr (strBytes (infoNode mi))"
    and ?d = "encStr (strBytes (infoUrl mi))" and ?e = "encInt (infoTotalMissed mi)"
  have e: "encSpec infoType noTags (infoValue mi) = Some (encLst (?a @ ?b @ ?c @ ?d @ ?e))"
    by (simp add: infoType_def infoValue_def plainFields_def)
  have "size2 (infoTotalMissed mi) \<le> 8" using size2_bits [of 64 "infoTotalMissed mi"] assms(5,6) by simp
  then have "length ?e \<le> 9" by (simp add: encInt_def)
  moreover have "length ?d \<le> 9" using length_enc(2) [of "strBytes (infoUrl mi)"] assms(4) by (simp add: strBytes_def)
  moreover have "length ?a < 2 ^ 40 + 9" "length ?b < 2 ^ 40 + 9" "length ?c < 2 ^ 40 + 9"
    using length_enc(2) [of "strBytes (infoAddStr mi)"] length_enc(2) [of "strBytes (infoInitPartPub mi)"]
      length_enc(2) [of "strBytes (infoNode mi)"] assms(1-3) by (simp_all add: strBytes_def)
  ultimately have "length (?a @ ?b @ ?c @ ?d @ ?e) < 2 ^ 62" by simp
  from encLst_bound [OF this] show ?thesis using e by (simp add: fits_def)
qed

lemma strings_enc: "list_all (\<lambda>s. length s < 2 ^ 20) ss \<Longrightarrow>
  \<exists>b. encElems TString (map (\<lambda>s. VString (strBytes s)) ss) = Some b \<and> length b \<le> (2 ^ 20 + 9) * length ss"
proof (induction ss)
  case (Cons s ss)
  then obtain b where b: "encElems TString (map (\<lambda>s. VString (strBytes s)) ss) = Some b" "length b \<le> (2 ^ 20 + 9) * length ss" by auto
  have "length (encStr (strBytes s)) \<le> 2 ^ 20 + 9" using length_enc(2) [of "strBytes s"] Cons.prems by (simp add: strBytes_def)
  then show ?case using b by simp
qed simp

lemma gpt_fits:
  assumes "list_all (\<lambda>s. length s < 2 ^ 20) (gptMediators g)" and "length (gptMediators g) < 2 ^ 31" and "length (gptPubKey g) < 2 ^ 40"
  shows "fits gptType (gptValue g)"
proof -
  let ?cp = "encLst (encLst (encUint (MediatorCreateFee (CurrentFees (gptParams g)))) @ encUint (ucast (MediatorInterval (gptParams g))) @
    encUint (ucast (MaintenanceInterval (gptParams g))))" and ?k = "encStr (strBytes (gptPubKey g))"
  obtain b where b: "encElems TString (map (\<lambda>s. VString (strBytes s)) (gptMediators g)) = Some b"
    "length b \<le> (2 ^ 20 + 9) * length (gptMediators g)" using strings_enc [OF assms(1)] by blast
  have e: "encSpec gptType noTags (gptValue g) = Some (encLst (?cp @ encLst b @ ?k))"
    using b(1) by (simp add: gptType_def gptValue_def plainFields_def)
  have "length (encLst (encUint (MediatorCreateFee (CurrentFees (gptParams g))))) \<le> 26"
    using length_enc(1) [of "encUint (MediatorCreateFee (CurrentFees (gptParams g)))"] length_encUint [of "MediatorCreateFee (CurrentFees (gptParams g))"] by linarith
  then have "length ?cp \<le> 69"
    using length_enc(1) [of "encLst (encUint (MediatorCreateFee (CurrentFees (gptParams g)))) @ encUint (ucast (MediatorInterval (gptParams g))) @
    encUint (ucast (MaintenanceInterval (gptParams g)))"] length_encUint [of "ucast (MediatorInterval (gptParams g))"]
      length_encUint [of "ucast (MaintenanceInterval (gptParams g))"] by simp
  moreover have "length b < 2 ^ 52" using b(2) assms(2) by simp
  then have "length (encLst b) < 2 ^ 53" using length_enc(1) [of b] by simp
  moreover have "length ?k < 2 ^ 41" using length_enc(2) [of "strBytes (gptPubKey g)"] assms(3) by (simp add: strBytes_def)
  ultimately have "length (?cp @ encLst b @ ?k) < 2 ^ 62" by simp
  from encLst_bound [OF this] show ?thesis using e by (simp add: fits_def)
qed

text \<open>A codec that spells every byte with two letters.\<close>

primrec spell :: "bytes \<Rightarrow> string" where
  "spell [] = []"
| "spell (x # b) = char_of (65 + unat x div 16) # char_of (65 + unat x mod 16) # spell b"

fun unspell :: "string \<Rightarrow> bytes" where
  "unspell (h # l # s) = word_of_nat (16 * (of_char h - 65) + (of_char l - 65)) # unspell s"
| "unspell _ = []"

lemma nibbles: "of_char (char_of (65 + unat (x :: byte) div 16) :: char) = 65 + unat x div 16"
  "of_char (char_of (65 + unat x mod 16) :: char) = 65 + unat x mod 16"
proof -
  have "unat x < 16 * 16" using unsigned_less [of x] by simp
  then have "unat x div 16 < 16" "unat x mod 16 < 16" by (simp_all add: less_mult_imp_div_less)
  then show "of_char (char_of (65 + unat x div 16) :: char) = 65 + unat x div 16"
    "of_char (char_of (65 + unat x mod 16) :: char) = 65 + unat x mod 16" by simp_all
qed

lemma unspell_spell [simp]: "unspell (spell b) = b"
proof (induction b)
  case (Cons x b)
  then show ?case by (simp only: spell.simps unspell.simps nibbles add_diff_cancel_left' mult_div_mod_eq of_nat_unat ucast_id)
qed simp

lemma spell_clean: "c \<in> set (spell b) \<Longrightarrow> \<not> isSpace c \<and> of_char c \<noteq> (34 :: nat)"
proof (induction b)
  case (Cons x b)
  consider "c \<in> set (spell b)" | "of_char c = 65 + unat x div 16" | "of_char c = 65 + unat x mod 16"
    using Cons.prems nibbles [of x] unfolding spell.simps by force
  then show ?case using Cons.IH by cases (auto simp: isSpace_def)
qed simp

lemma length_spell [simp]: "length (spell b) = 2 * length b"
  by (induction b) simp_all

definition letters :: prims where
  "letters = demo\<lparr>base58CheckEncode := \<lambda>b v. spell (v # b),
     base58CheckDecode := \<lambda>s. case unspell s of [] \<Rightarrow> Inl (OtherErr ''checksum'') | v # b \<Rightarrow> Inr (b, v)\<rparr>"

definition letterOps :: "(bytes, string) medOps" where
  "letterOps = \<lparr>marshalPoint = id, unmarshalPoint = id, nullPoint = [0], base58Encode = spell, base58Decode = unspell,
     nodeString = id, ParseNode = Some\<rparr>"

lemma letters_laws: "medLaws letters letterOps"
proof -
  have e: "base58CheckEncode letters b v = spell (v # b)" for b v by (simp add: letters_def)
  have "base58CheckDecode letters (spell (v # b)) = Inr (b, v)" for b v
    using unspell_spell [of "v # b"] by (simp add: letters_def del: spell.simps)
  then have "base58_inverse letters" by (simp only: base58_inverse_def e simp_thms)
  moreover have "base58_clean letters" using spell_clean unfolding base58_clean_def e by metis
  ultimately show ?thesis by (simp add: medLaws_def letterOps_def StrToPoint_def PointToStr_def)
qed

definition medA :: Address where
  "medA = replicate 20 1 @ [0]"

definition medB :: Address where
  "medB = replicate 20 2 @ [0]"

definition candidate :: "Address \<Rightarrow> InitialMediator" where
  "candidate a = \<lparr>AddStr = Str letters a, initPartPub = [], initNode = []\<rparr>"

definition exampleGenesis :: Genesis where
  "exampleGenesis = \<lparr>InitialParameters = NewChainParams, InitialTimestamp = 1540000000, InitialActiveMediators = 2,
     InitialMediatorCandidates = [candidate medA, candidate medB]\<rparr>"

definition exampleProps :: "bytes GlobalProperty" where
  "exampleProps = \<lparr>ChainParams = NewChainParams, ActiveMediators = [(medA, True), (medB, True)], GroupPubKey = [0]\<rparr>"

definition exampleMediator :: "Address \<Rightarrow> int \<Rightarrow> (bytes, string) Mediator" where
  "exampleMediator a missed = \<lparr>medAddress = a, InitPartPub = [7], medNode = Some ''node'', Url = [], TotalMissed = missed\<rparr>"

definition exampleDb :: "int \<Rightarrow> int \<Rightarrow> db" where
  "exampleDb i j = snd (SaveMediator letters letterOps (exampleMediator medB j)
     (snd (SaveMediator letters letterOps (exampleMediator medA i) Map.empty)))"

lemma med_good: "goodAddress medA" "goodAddress medB" "medA \<noteq> medB"
  by (simp_all add: goodAddress_def medA_def medB_def GetType_def nth_append)

lemma example_genesis: "InitGlobalProp letters (nullPoint letterOps) exampleGenesis = Inr exampleProps"
proof -
  have r: "StrToMedAdd letters (AddStr (candidate a)) = Inr a" if "goodAddress a" for a
    using StrToMedAdd_Str [OF _ _ that] letters_laws by (simp add: medLaws_def candidate_def)
  have "setActive letters [candidate medA, candidate medB] (Suc (Suc 0)) [] = Inr [(medA, True), (medB, True)]"
    using r [OF med_good(1)] r [OF med_good(2)] med_good(3) by simp
  then show ?thesis
    by (simp add: InitGlobalProp_def exampleGenesis_def exampleProps_def NewGlobalProp_def letterOps_def flip: numeral_2_eq_2)
qed

lemma length_Str_letters: "length (Str letters a) \<le> 43"
  by (simp add: Str_def letters_def)

lemma example_storable: "storable letters letterOps exampleProps"
proof -
  have "fits gptType (gptValue (getGPT letters letterOps exampleProps))"
    by (rule gpt_fits)
      (use length_Str_letters [of medA] length_Str_letters [of medB] in
        \<open>simp_all add: getGPT_def exampleProps_def PointToStr_def letterOps_def\<close>)
  moreover have "goodProps letters exampleProps"
    using letters_laws med_good by (simp add: goodProps_def exampleProps_def medLaws_def NewChainParams_def)
  ultimately show ?thesis using letters_laws
    by (simp add: storable_def exampleProps_def medLaws_def)
qed

lemma example_fits:
  assumes "goodAddress a" and "0 \<le> c" and "c < 2 ^ 63"
  shows "medFits letters letterOps (exampleMediator a c)"
proof -
  have "fits infoType (infoValue \<lparr>infoAddStr = Str letters a, infoInitPartPub = PointToStr letterOps [7],
      infoNode = ''node'', infoUrl = [], infoTotalMissed = c\<rparr>)"
    by (rule info_fits) (use length_Str_letters [of a] assms in \<open>simp_all add: PointToStr_def letterOps_def\<close>)
  then show ?thesis using assms
    by (simp add: medFits_def exampleMediator_def mediatorToInfo_def) (simp add: letterOps_def)
qed

lemma example_mediators:
  assumes "0 \<le> i" and "i \<le> 127" and "0 \<le> j" and "j < 2 ^ 63"
  shows "GetMediator letters letterOps medA (exampleDb i j) = Inr (Some (exampleMediator medA i))"
    and "GetMediator letters letterOps medB (exampleDb i j) = Inr (if survives j then Some (exampleMediator medB j) else None)"
proof -
  let ?d = "snd (SaveMediator letters letterOps (exampleMediator medA i) Map.empty)"
  have f: "medFits letters letterOps (exampleMediator medA i)" "medFits letters letterOps (exampleMediator medB j)"
    using med_good assms by (auto intro: example_fits)
  note A = SaveMediator_facts [OF letters_laws f(1), where d = Map.empty]
  note B = SaveMediator_facts [OF letters_laws f(2), where d = ?d, folded exampleDb_def]
  have s: "survives i" by (rule survives_small [OF assms(1,2)])
  have k: "mediatorKey letters medA \<noteq> mediatorKey letters medB"
    using mediatorKey_inject [of letters medA medB] med_good letters_laws by (simp add: medLaws_def)
  have "GetMediator letters letterOps medA (exampleDb i j) = GetMediator letters letterOps medA ?d"
    by (rule GetMediator_cong, rule B(4)) (use k in \<open>simp add: exampleMediator_def\<close>)
  then show "GetMediator letters letterOps medA (exampleDb i j) = Inr (Some (exampleMediator medA i))"
    using A(2) s by (simp add: exampleMediator_def)
  show "GetMediator letters letterOps medB (exampleDb i j) = Inr (if survives j then Some (exampleMediator medB j) else None)"
    using B(2,3) by (simp add: exampleMediator_def)
qed

lemma example_reserve:
  assumes "0 \<le> i" and "0 \<le> j" and "i + int n \<le> 127" and "j + int n \<le> 127"
  shows "\<forall>a \<in> fst ` set (ActiveMediators exampleProps). reserve letters letterOps n (exampleDb i j) a"
proof -
  have "reserve letters letterOps n (exampleDb i j) a"
    if "GetMediator letters letterOps a (exampleDb i j) = Inr (Some (exampleMediator a c))" "goodAddress a" "0 \<le> c" "c + int n \<le> 127" for a c
  proof -
    have "medFits letters letterOps ((exampleMediator a c)\<lparr>TotalMissed := x\<rparr>)" if "x \<in> {0..127}" for x
      using example_fits [of a x] that \<open>goodAddress a\<close> by (simp add: exampleMediator_def)
    then show ?thesis using that by (auto simp: reserve_def exampleMediator_def)
  qed
  then show ?thesis using example_mediators [of i j] assms med_good survives_small [of j] by (simp add: exampleProps_def)
qed

section \<open>Properties\<close>


definition exampleUnit :: "64 word \<Rightarrow> int \<Rightarrow> Unit" where
  "exampleUnit n t = \<lparr>UnitHeader = (NewHeader [] [] [])\<lparr>Number := zeroChainIndex\<lparr>chainIdx := n\<rparr>, Creationdate := t\<rparr>, Txs = [], UnitHash = replicate 32 9\<rparr>"




end
