(* ===== verification/MediatorPlugin.thy ===== *)
theory MediatorPlugin
  imports DagSchedule
begin

text \<open>
  The node that produces units (\<^verbatim>\<open>consensus/mediatorplugin\<close>): \<^verbatim>\<open>service.go\<close>, \<^verbatim>\<open>mediator_plugin.go\<close>,
  \<^verbatim>\<open>sign_share.go\<close> and the buffers of \<^verbatim>\<open>threshold_sign.go\<close>.  The plugin sees the DAG through an
  interface; what it relies on of its clock is the locale \<open>slot_clock\<close>, interpreted on the DAG of
  theory \<open>DagSchedule\<close>.  Collecting signature shares is a transition system, since every share is
  handled in a goroutine of its own.
\<close>

section \<open>The interface of the DAG\<close>

record 'd iDag =
  iGetCurThreshold :: "'d \<Rightarrow> rerr + int"
  iIsActiveMediator :: "Address \<Rightarrow> 'd \<Rightarrow> rerr + bool"
  iGetSlotAtTime :: "Time \<Rightarrow> 'd \<Rightarrow> rerr + 32 word"
  iGetSlotTime :: "32 word \<Rightarrow> 'd \<Rightarrow> rerr + Time"
  iHeadUnitTime :: "'d \<Rightarrow> int"
  iGetScheduledMediator :: "32 word \<Rightarrow> 'd \<Rightarrow> Address"
  iGetActiveMediatorCount :: "'d \<Rightarrow> rerr + nat"
  iGenerateUnit :: "Time \<Rightarrow> Address \<Rightarrow> 'd \<Rightarrow> (rerr + Unit) \<times> 'd"

section \<open>Signature shares\<close>

text \<open>The locks of \<^verbatim>\<open>sigShareSet\<close> make each of these atomic.\<close>

type_synonym sigShareSet = "bytes list"

definition newSigShareSet :: "int \<Rightarrow> sigShareSet" where
  "newSigShareSet cap = []"

definition sigShareLen :: "sigShareSet \<Rightarrow> int" where
  "sigShareLen sigShares = int (length sigShares)"

definition appendShare :: "bytes \<Rightarrow> sigShareSet \<Rightarrow> sigShareSet" where
  "appendShare sigShare sigShares = sigShares @ [sigShare]"

definition popSigShares :: "sigShareSet \<Rightarrow> bytes list \<times> sigShareSet" where
  "popSigShares sigShares = (sigShares, [])"

section \<open>The plugin\<close>

text \<open>Of an account, its password; the secret of the key generation is not used here.  A channel is
  the list of what it buffers, and \<open>signCap\<close> is the capacity they are all made with.\<close>

record MediatorPlugin =
  productionEnabled :: bool
  mediators :: "(Address \<times> string) list"
  toTBLSSignBuf :: "(Address \<times> Unit list) list"
  signCap :: nat
  toTBLSRecoverBuf :: "(Address \<times> (Hash \<times> sigShareSet) list) list"

fun activeOf :: "'d iDag \<Rightarrow> 'd \<Rightarrow> Address list \<Rightarrow> rerr + Address list" where
  "activeOf dag d [] = Inr []"
| "activeOf dag d (add # adds) =
    bindR (iIsActiveMediator dag add d) (\<lambda>active.
    bindR (activeOf dag d adds) (\<lambda>lams. Inr (if active then add # lams else lams)))"

definition GetLocalActiveMediators :: "'d iDag \<Rightarrow> 'd \<Rightarrow> MediatorPlugin \<Rightarrow> rerr + Address list" where
  "GetLocalActiveMediators dag d mp = activeOf dag d (map fst (mediators mp))"

definition LocalHaveActiveMediator :: "'d iDag \<Rightarrow> 'd \<Rightarrow> MediatorPlugin \<Rightarrow> rerr + bool" where
  "LocalHaveActiveMediator dag d mp = map_sum id (\<lambda>lams. length lams \<noteq> 0) (GetLocalActiveMediators dag d mp)"

definition isLocalMediator :: "Address \<Rightarrow> MediatorPlugin \<Rightarrow> bool" where
  "isLocalMediator add mp = (map_of (mediators mp) add \<noteq> None)"

definition IsLocalActiveMediator :: "'d iDag \<Rightarrow> 'd \<Rightarrow> Address \<Rightarrow> MediatorPlugin \<Rightarrow> rerr + bool" where
  "IsLocalActiveMediator dag d add mp = (if isLocalMediator add mp then iIsActiveMediator dag add d else Inr False)"

definition initTBLSBuf :: "'d iDag \<Rightarrow> 'd \<Rightarrow> MediatorPlugin \<Rightarrow> rerr + MediatorPlugin" where
  "initTBLSBuf dag d mp =
    bindR (GetLocalActiveMediators dag d mp) (\<lambda>lams.
    bindR (iGetCurThreshold dag d) (\<lambda>curThrshd.
      if curThrshd < 0 then Inl RlpPanic
      else Inr (mp\<lparr>toTBLSSignBuf := map (\<lambda>localMed. (localMed, [])) lams, signCap := nat curThrshd,
        toTBLSRecoverBuf := map (\<lambda>localMed. (localMed, [])) lams\<rparr>)))"

record MediatorConf =
  confAddress :: string
  confPassword :: string

record Config =
  EnableStaleProduction :: bool
  confMediators :: "MediatorConf list"

primrec accounts :: "prims \<Rightarrow> MediatorConf list \<Rightarrow> (Address \<times> string) list \<Rightarrow> rerr + (Address \<times> string) list" where
  "accounts p [] msm = Inr msm"
| "accounts p (medConf # mss) msm =
    bindR (liftErr (StrToMedAdd p (confAddress medConf))) (\<lambda>addr.
      accounts p mss (AList.update addr (confPassword medConf) msm))"

definition NewMediatorPlugin :: "prims \<Rightarrow> 'd iDag \<Rightarrow> 'd \<Rightarrow> Config \<Rightarrow> rerr + MediatorPlugin" where
  "NewMediatorPlugin p dag d cfg =
    bindR (accounts p (confMediators cfg) []) (\<lambda>msm.
      initTBLSBuf dag d \<lparr>productionEnabled = EnableStaleProduction cfg, mediators = msm, toTBLSSignBuf = [], signCap = 0,
        toTBLSRecoverBuf = []\<rparr>)"

section \<open>Producing units\<close>

datatype ProductionCondition =
  Produced | NotSynced | NotMyTurn | NotTimeYet | NoPrivateKey | Lag | ExceptionProducing | UnknownCondition

text \<open>Writing into a map that was never made panics.\<close>

definition initTBLSRecoverBuf :: "'d iDag \<Rightarrow> 'd \<Rightarrow> Address \<Rightarrow> Hash \<Rightarrow> MediatorPlugin \<Rightarrow> rerr + MediatorPlugin" where
  "initTBLSRecoverBuf dag d localMed newUnitHash mp =
    bindR (iGetActiveMediatorCount dag d) (\<lambda>aSize.
      case map_of (toTBLSRecoverBuf mp) localMed of
        None \<Rightarrow> Inl RlpPanic
      | Some m \<Rightarrow> Inr (mp\<lparr>toTBLSRecoverBuf :=
          AList.update localMed (AList.update newUnitHash (newSigShareSet (int aSize)) m) (toTBLSRecoverBuf mp)\<rparr>))"

text \<open>A send waits while the buffer is full, and for ever if there is no channel: \<^term>\<open>None\<close>.\<close>

fun sendAll :: "nat \<Rightarrow> Unit \<Rightarrow> Address list \<Rightarrow> (Address \<times> Unit list) list \<Rightarrow> (Address \<times> Unit list) list option" where
  "sendAll cap newUnit [] bufs = Some bufs"
| "sendAll cap newUnit (localMed # lams) bufs =
    (case map_of bufs localMed of
       None \<Rightarrow> None
     | Some ch \<Rightarrow>
         if length ch < cap then sendAll cap newUnit lams (AList.update localMed (ch @ [newUnit]) bufs) else None)"

definition addToTBLSSignBuf :: "'d iDag \<Rightarrow> 'd \<Rightarrow> Unit \<Rightarrow> MediatorPlugin \<Rightarrow> rerr + MediatorPlugin option" where
  "addToTBLSSignBuf dag d newUnit mp =
    bindR (GetLocalActiveMediators dag d mp) (\<lambda>lams.
      Inr (map_option (\<lambda>bufs. mp\<lparr>toTBLSSignBuf := bufs\<rparr>) (sendAll (signCap mp) newUnit lams (toTBLSSignBuf mp))))"

text \<open>The key store unlocks an account with its password or fails.  The result is an error, a
  condition, or \<^term>\<open>Inr None\<close> when the goroutine waits at a channel.\<close>

definition MaybeProduceUnit ::
  "'d iDag \<Rightarrow> (Address \<Rightarrow> string \<Rightarrow> bool) \<Rightarrow> Time \<Rightarrow> MediatorPlugin \<Rightarrow> 'd \<Rightarrow> (rerr + ProductionCondition option) \<times> MediatorPlugin \<times> 'd"
where
  "MaybeProduceUnit dag unlock nowFine mp d =
    (let now = roundedNow nowFine; ret = (\<lambda>c mp d. (Inr (Some c), mp, d)) in
     case iGetSlotTime dag 1 d of
       Inl e \<Rightarrow> (Inl e, mp, d)
     | Inr nextSlotTime \<Rightarrow>
         if \<not> productionEnabled mp \<and> \<not> (After nextSlotTime now \<or> timeEqual nextSlotTime now) then ret NotSynced mp d
         else
           let mp = mp\<lparr>productionEnabled := True\<rparr> in
           case iGetSlotAtTime dag now d of
             Inl e \<Rightarrow> (Inl e, mp, d)
           | Inr slot \<Rightarrow>
               if slot = 0 then ret NotTimeYet mp d
               else if \<not> unixOf now > iHeadUnitTime dag d then (Inl RlpPanic, mp, d)
               else
                 let scheduledMediator = iGetScheduledMediator dag slot d in
                 if addrEqual scheduledMediator zeroAddress then ret UnknownCondition mp d
                 else
                   case map_of (mediators mp) scheduledMediator of
                     None \<Rightarrow> ret NotMyTurn mp d
                   | Some password \<Rightarrow>
                       if \<not> unlock scheduledMediator password then ret NoPrivateKey mp d
                       else
                         case iGetSlotTime dag slot d of
                           Inl e \<Rightarrow> (Inl e, mp, d)
                         | Inr scheduledTime \<Rightarrow>
                             let diff = timeSub scheduledTime now in
                             if diff > 500000000 \<or> diff < - 500000000 then ret Lag mp d
                             else
                               case iGenerateUnit dag scheduledTime scheduledMediator d of
                                 (Inl e, d) \<Rightarrow> (Inl e, mp, d)
                               | (Inr newUnit, d) \<Rightarrow>
                                   if IsEmpty (Some newUnit) then ret ExceptionProducing mp d
                                   else
                                     case initTBLSRecoverBuf dag d scheduledMediator (UnitHash newUnit) mp of
                                       Inl e \<Rightarrow> (Inl e, mp, d)
                                     | Inr mp \<Rightarrow>
                                         case addToTBLSSignBuf dag d newUnit mp of
                                           Inl e \<Rightarrow> (Inl e, mp, d)
                                         | Inr None \<Rightarrow> (Inr None, mp, d)
                                         | Inr (Some mp) \<Rightarrow> ret Produced mp d)"

text \<open>The wait before the next attempt: to the next full second, or the one after it when that is
  less than 50 milliseconds away.\<close>

definition nextWakeup :: "Time \<Rightarrow> Time" where
  "nextWakeup now =
    (let timeToNextSecond = nanosPerSec - nsec now;
         timeToNextSecond = (if timeToNextSecond < 50000000 then timeToNextSecond + nanosPerSec else timeToNextSecond)
     in timeAdd timeToNextSecond now)"

section \<open>The buffers\<close>

lemma activeOf_subset: "activeOf dag d adds = Inr lams \<Longrightarrow> set lams \<subseteq> set adds \<and> (distinct adds \<longrightarrow> distinct lams)"
proof (induction adds arbitrary: lams)
  case (Cons a adds)
  obtain act ls where l: "activeOf dag d adds = Inr ls" "lams = (if act then a # ls else ls)"
    using Cons.prems by (auto simp: bindR_def split: sum.splits)
  then show ?case using Cons.IH [OF l(1)] by auto
qed simp

text \<open>Every channel that a new unit is sent to exists and has room.\<close>

definition canSend :: "'d iDag \<Rightarrow> 'd \<Rightarrow> MediatorPlugin \<Rightarrow> bool" where
  "canSend dag d mp \<longleftrightarrow> (\<exists>lams. GetLocalActiveMediators dag d mp = Inr lams \<and> distinct lams \<and>
    (\<forall>a \<in> set lams. \<exists>ch. map_of (toTBLSSignBuf mp) a = Some ch \<and> length ch < signCap mp))"

lemma sendAll_room:
  "distinct lams \<Longrightarrow> \<forall>a \<in> set lams. \<exists>ch. map_of bufs a = Some ch \<and> length ch < cap \<Longrightarrow> \<exists>bufs'. sendAll cap u lams bufs = Some bufs'"
proof (induction lams arbitrary: bufs)
  case (Cons a lams)
  then obtain ch where ch: "map_of bufs a = Some ch" "length ch < cap" by auto
  have "\<exists>bufs'. sendAll cap u lams (AList.update a (ch @ [u]) bufs) = Some bufs'"
    by (rule Cons.IH) (use Cons.prems in \<open>auto simp: update_conv'\<close>)
  then show ?case using ch by simp
qed simp

lemma sendAll_full:
  "a \<in> set lams \<Longrightarrow> (\<And>ch. map_of bufs a = Some ch \<Longrightarrow> cap \<le> length ch) \<Longrightarrow> sendAll cap u lams bufs = None"
proof (induction lams arbitrary: bufs)
  case (Cons b lams)
  show ?case
  proof (cases "a = b")
    case True
    then show ?thesis using Cons.prems(2) by (auto split: option.splits simp: not_less)
  next
    case False
    then have "sendAll cap u lams (AList.update b x bufs) = None" for x
      using Cons.prems by (intro Cons.IH) (auto simp: update_conv')
    then show ?thesis by (simp split: option.splits)
  qed
qed simp

lemma accounts_distinct: "accounts p mss msm = Inr msm' \<Longrightarrow> distinct (map fst msm) \<Longrightarrow> distinct (map fst msm')"
proof (induction mss arbitrary: msm)
  case (Cons c mss)
  then obtain a where "accounts p mss (AList.update a (confPassword c) msm) = Inr msm'"
    by (auto simp: bindR_def split: sum.splits)
  then show ?case using Cons distinct_update by metis
qed simp

text \<open>A new plugin has a channel and a map for every active mediator of the node.\<close>

lemma new_plugin:
  assumes "NewMediatorPlugin p dag d cfg = Inr mp" and "iGetCurThreshold dag d = Inr t" and "0 < t"
  shows "canSend dag d mp" and "productionEnabled mp = EnableStaleProduction cfg"
    and "GetLocalActiveMediators dag d mp = Inr lams \<Longrightarrow> a \<in> set lams \<Longrightarrow> map_of (toTBLSRecoverBuf mp) a \<noteq> None"
proof -
  obtain msm where m: "accounts p (confMediators cfg) [] = Inr msm" using assms(1) by (auto simp: NewMediatorPlugin_def bindR_def split: sum.splits)
  obtain ls where l: "activeOf dag d (map fst msm) = Inr ls" "mp = \<lparr>productionEnabled = EnableStaleProduction cfg, mediators = msm,
      toTBLSSignBuf = map (\<lambda>a. (a, [])) ls, signCap = nat t, toTBLSRecoverBuf = map (\<lambda>a. (a, [])) ls\<rparr>"
    using assms m by (auto simp: NewMediatorPlugin_def initTBLSBuf_def GetLocalActiveMediators_def bindR_def split: sum.splits)
  have "distinct (map fst msm)" using accounts_distinct [OF m] by simp
  then have "distinct ls" using activeOf_subset [OF l(1)] by blast
  then show "canSend dag d mp" using l assms(3) by (auto simp: canSend_def GetLocalActiveMediators_def map_of_map_restrict restrict_map_def)
  show "productionEnabled mp = EnableStaleProduction cfg" using l(2) by simp
  show "map_of (toTBLSRecoverBuf mp) a \<noteq> None" if "GetLocalActiveMediators dag d mp = Inr lams" "a \<in> set lams"
    using that l by (auto simp: GetLocalActiveMediators_def map_of_map_restrict restrict_map_def)
qed

section \<open>What production relies on\<close>

locale slot_clock =
  fixes dag :: "'d iDag" and ok :: "'d \<Rightarrow> bool" and active :: "Address \<Rightarrow> 'd \<Rightarrow> bool" and horizon :: "'d \<Rightarrow> int"
  assumes first_slot: "ok d \<Longrightarrow> \<exists>s. iGetSlotTime dag 1 d = Inr (Unix s)"
    and slot_returns: "ok d \<Longrightarrow> 0 \<le> w \<Longrightarrow> w < 2 ^ 32 \<Longrightarrow> \<exists>n. iGetSlotAtTime dag (Unix w) d = Inr n"
    and slot_begun: "ok d \<Longrightarrow> 0 \<le> w \<Longrightarrow> w < 2 ^ 32 \<Longrightarrow> iGetSlotAtTime dag (Unix w) d = Inr n \<Longrightarrow> n \<noteq> 0 \<Longrightarrow>
      iHeadUnitTime dag d < w \<and> (\<exists>s. iGetSlotTime dag n d = Inr (Unix s) \<and> 0 \<le> s \<and> s \<le> w)"
    and turn: "ok d \<Longrightarrow> active a d \<Longrightarrow> \<exists>n s. n \<noteq> 0 \<and> 0 \<le> s \<and> s < 2 ^ 32 \<and> iHeadUnitTime dag d < s \<and> s \<le> horizon d \<and>
      iGetSlotTime dag n d = Inr (Unix s) \<and> iGetSlotAtTime dag (Unix s) d = Inr n \<and> iGetScheduledMediator dag n d = a"
begin

lemma produces_only_in_turn:
  assumes "ok d" and "roundedNow nowFine = Unix w" and "0 \<le> w" and "w < 2 ^ 32"
    and "MaybeProduceUnit dag unlock nowFine mp d = (Inr (Some Produced), mp', d')"
  shows "\<exists>n pw u. n \<noteq> 0 \<and> iGetSlotAtTime dag (Unix w) d = Inr n \<and> iGetSlotTime dag n d = Inr (Unix w) \<and> iHeadUnitTime dag d < w \<and>
    map_of (mediators mp) (iGetScheduledMediator dag n d) = Some pw \<and> unlock (iGetScheduledMediator dag n d) pw \<and>
    iGenerateUnit dag (Unix w) (iGetScheduledMediator dag n d) d = (Inr u, d') \<and> Txs u \<noteq> []"
proof -
  obtain s1 where s1: "iGetSlotTime dag 1 d = Inr (Unix s1)" using first_slot [OF assms(1)] by blast
  obtain n where n: "iGetSlotAtTime dag (Unix w) d = Inr n" using slot_returns [OF assms(1,3,4)] by blast
  have n0: "n \<noteq> 0" using assms(5) s1 n by (auto simp: MaybeProduceUnit_def assms(2) Let_def split: if_splits)
  obtain s where s: "iHeadUnitTime dag d < w" "iGetSlotTime dag n d = Inr (Unix s)" "0 \<le> s" "s \<le> w"
    using slot_begun [OF assms(1,3,4) n n0] by blast
  have t: "timeSub (Unix s) (Unix w) = nanosPerSec * (s - w)" by (rule timeSub_Unix) (use s assms(3,4) in auto)
  have "unixOf (Unix w) = w" using assms(3,4) by (intro unixOf_Unix) (simp add: plain_def)
  note unfold = MaybeProduceUnit_def assms(2) Let_def s1 n n0 s(2) t this sum.case
  have "s = w"
    using assms(5) s(4) by (auto simp: unfold nanosPerSec_def split: if_splits option.splits)
  then show ?thesis using assms(5) n0 n s(1,2)
    by (auto simp: unfold nanosPerSec_def IsEmpty_def split: if_splits option.splits sum.splits prod.splits)
qed

lemma never_panics:
  assumes "ok d" and "roundedNow nowFine = Unix w" and "0 \<le> w" and "w < 2 ^ 32"
    and "\<forall>t a. \<exists>u d'. iGenerateUnit dag t a d = (Inr u, d') \<and> iGetActiveMediatorCount dag d' \<in> range Inr \<and>
      (\<forall>mp. GetLocalActiveMediators dag d' mp \<in> range Inr)"
    and "\<forall>a \<in> fst ` set (mediators mp). map_of (toTBLSRecoverBuf mp) a \<noteq> None"
  shows "\<exists>c. fst (MaybeProduceUnit dag unlock nowFine mp d) = Inr c"
proof -
  obtain s1 where s1: "iGetSlotTime dag 1 d = Inr (Unix s1)" using first_slot [OF assms(1)] by blast
  obtain n where n: "iGetSlotAtTime dag (Unix w) d = Inr n" using slot_returns [OF assms(1,3,4)] by blast
  have u: "unixOf (Unix w) = w" using assms(3,4) by (intro unixOf_Unix) (simp add: plain_def)
  show ?thesis
  proof (cases "n = 0")
    case True
    then show ?thesis using s1 n by (simp add: MaybeProduceUnit_def assms(2) Let_def)
  next
    case False
    let ?a = "iGetScheduledMediator dag n d"
    obtain s where s: "iHeadUnitTime dag d < w" "iGetSlotTime dag n d = Inr (Unix s)" using slot_begun [OF assms(1,3,4) n False] by blast
    obtain v d' k where v: "iGenerateUnit dag (Unix s) ?a d = (Inr v, d')" "iGetActiveMediatorCount dag d' = Inr k"
      "\<forall>mp. GetLocalActiveMediators dag d' mp \<in> range Inr" using assms(5) by blast
    have g: "\<exists>r. addToTBLSSignBuf dag d' v mp = Inr r" for mp using v(3) by (auto simp: addToTBLSSignBuf_def dest!: spec [of _ mp])
    show ?thesis
    proof (cases "map_of (mediators mp) ?a")
      case None
      then show ?thesis using s1 n s u by (simp add: MaybeProduceUnit_def assms(2) Let_def)
    next
      case (Some pw)
      then have "?a \<in> fst ` set (mediators mp)" by (force dest: map_of_SomeD)
      then obtain m where "map_of (toTBLSRecoverBuf mp) ?a = Some m" using assms(6) by blast
      then obtain mp1 where mp1: "initTBLSRecoverBuf dag d' ?a (UnitHash v) (mp\<lparr>productionEnabled := True\<rparr>) = Inr mp1"
        using v(2) by (simp add: initTBLSRecoverBuf_def)
      obtain r where "addToTBLSSignBuf dag d' v mp1 = Inr r" using g by blast
      then show ?thesis using s1 n s u Some v(1) mp1 by (cases r) (simp_all add: MaybeProduceUnit_def assms(2) Let_def)
    qed
  qed
qed

lemma produces_in_turn:
  assumes "ok d" and "active a d" and "length a = 21" and "a \<noteq> zeroAddress" and "productionEnabled mp"
    and "map_of (mediators mp) a = Some pw" and "unlock a pw" and "map_of (toTBLSRecoverBuf mp) a \<noteq> None"
    and "\<forall>t. \<exists>u d'. iGenerateUnit dag t a d = (Inr u, d') \<and> Txs u \<noteq> [] \<and> iGetActiveMediatorCount dag d' \<in> range Inr \<and> canSend dag d' mp"
  shows "\<exists>s. iHeadUnitTime dag d < s \<and> s \<le> horizon d \<and>
    (\<forall>nowFine. roundedNow nowFine = Unix s \<longrightarrow> fst (MaybeProduceUnit dag unlock nowFine mp d) = Inr (Some Produced))"
proof -
  obtain n s where n: "n \<noteq> 0" "0 \<le> s" "s < 2 ^ 32" "iHeadUnitTime dag d < s" "s \<le> horizon d" "iGetSlotTime dag n d = Inr (Unix s)"
    "iGetSlotAtTime dag (Unix s) d = Inr n" "iGetScheduledMediator dag n d = a" using turn [OF assms(1,2)] by blast
  obtain s1 where s1: "iGetSlotTime dag 1 d = Inr (Unix s1)" using first_slot [OF assms(1)] by blast
  obtain v d' k where v: "iGenerateUnit dag (Unix s) a d = (Inr v, d')" "Txs v \<noteq> []" "iGetActiveMediatorCount dag d' = Inr k"
    "canSend dag d' mp" using assms(9) by blast
  obtain m where m: "map_of (toTBLSRecoverBuf mp) a = Some m" using assms(8) by blast
  define mp1 where "mp1 = mp\<lparr>toTBLSRecoverBuf := AList.update a (AList.update (UnitHash v) (newSigShareSet (int k)) m) (toTBLSRecoverBuf mp)\<rparr>"
  have en: "mp\<lparr>productionEnabled := True\<rparr> = mp" using assms(5) by simp
  have i: "initTBLSRecoverBuf dag d' a (UnitHash v) mp = Inr mp1" using m v(3) by (simp add: initTBLSRecoverBuf_def mp1_def)
  obtain lams where l: "GetLocalActiveMediators dag d' mp = Inr lams" "distinct lams"
    "\<forall>a \<in> set lams. \<exists>ch. map_of (toTBLSSignBuf mp) a = Some ch \<and> length ch < signCap mp" using v(4) by (auto simp: canSend_def)
  obtain bufs where "sendAll (signCap mp) v lams (toTBLSSignBuf mp) = Some bufs" using sendAll_room [OF l(2,3)] by blast
  then have g: "addToTBLSSignBuf dag d' v mp1 = Inr (Some (mp1\<lparr>toTBLSSignBuf := bufs\<rparr>))"
    using l(1) by (simp add: addToTBLSSignBuf_def GetLocalActiveMediators_def mp1_def)
  have t: "timeSub (Unix s) (Unix s) = 0" "unixOf (Unix s) = s" using timeSub_Unix [of s s] n(2,3) by (simp_all add: plain_def)
  have z: "\<not> addrEqual a zeroAddress" using addrEqual_iff [of a zeroAddress] assms(3,4) by (simp add: zeroAddress_def AddressLength_def)
  have "fst (MaybeProduceUnit dag unlock nowFine mp d) = Inr (Some Produced)" if "roundedNow nowFine = Unix s" for nowFine
    using n s1 v(1,2) i g t z assms(5-7) that by (simp add: MaybeProduceUnit_def Let_def en IsEmpty_def)
  then show ?thesis using n(4,5) by blast
qed

text \<open>A full channel holds production up, after the unit has been applied.\<close>

lemma waits_when_full:
  assumes "ok d" and "roundedNow nowFine = Unix s" and "0 \<le> s" and "s < 2 ^ 32" and "n \<noteq> 0" and "iGetSlotAtTime dag (Unix s) d = Inr n"
    and "iGetSlotTime dag n d = Inr (Unix s)" and "iGetScheduledMediator dag n d = a" and "length a = 21" and "a \<noteq> zeroAddress"
    and "productionEnabled mp" and "map_of (mediators mp) a = Some pw" and "unlock a pw" and "map_of (toTBLSRecoverBuf mp) a \<noteq> None"
    and "iGenerateUnit dag (Unix s) a d = (Inr u, d')" and "Txs u \<noteq> []" and "iGetActiveMediatorCount dag d' = Inr k"
    and "GetLocalActiveMediators dag d' mp = Inr lams" and "b \<in> set lams"
    and "\<forall>ch. map_of (toTBLSSignBuf mp) b = Some ch \<longrightarrow> signCap mp \<le> length ch"
  shows "\<exists>mp'. MaybeProduceUnit dag unlock nowFine mp d = (Inr None, mp', d')"
proof -
  obtain s1 where s1: "iGetSlotTime dag 1 d = Inr (Unix s1)" using first_slot [OF assms(1)] by blast
  obtain m where m: "map_of (toTBLSRecoverBuf mp) a = Some m" using assms(14) by blast
  define mp1 where "mp1 = mp\<lparr>toTBLSRecoverBuf := AList.update a (AList.update (UnitHash u) (newSigShareSet (int k)) m) (toTBLSRecoverBuf mp)\<rparr>"
  have en: "mp\<lparr>productionEnabled := True\<rparr> = mp" using assms(11) by simp
  have i: "initTBLSRecoverBuf dag d' a (UnitHash u) mp = Inr mp1" using m assms(17) by (simp add: initTBLSRecoverBuf_def mp1_def)
  have "sendAll (signCap mp) u lams (toTBLSSignBuf mp) = None" by (rule sendAll_full [OF assms(19)]) (use assms(20) in blast)
  then have g: "addToTBLSSignBuf dag d' u mp1 = Inr None"
    using assms(18) by (simp add: addToTBLSSignBuf_def GetLocalActiveMediators_def mp1_def)
  have t: "timeSub (Unix s) (Unix s) = 0" "unixOf (Unix s) = s" using timeSub_Unix [of s s] assms(3,4) by (simp_all add: plain_def)
  have z: "\<not> addrEqual a zeroAddress" using addrEqual_iff [of a zeroAddress] assms(9,10) by (simp add: zeroAddress_def AddressLength_def)
  show ?thesis using slot_begun [OF assms(1,3,4,6,5)] s1 i g t z assms by (simp add: MaybeProduceUnit_def Let_def en IsEmpty_def)
qed

end

section \<open>The DAG as the clock\<close>

text \<open>How a unit is made from the transaction pool is left to a function \<open>gen\<close>.\<close>

definition dagIface :: "prims \<Rightarrow> ('pt, 'nd) medOps \<Rightarrow> (Time \<Rightarrow> Address \<Rightarrow> db \<Rightarrow> (rerr + Unit) \<times> db) \<Rightarrow> db iDag" where
  "dagIface p ops gen = \<lparr>iGetCurThreshold = dagCurThreshold p ops, iIsActiveMediator = dagIsActiveMediator p ops,
     iGetSlotAtTime = dagSlotAtTime p ops, iGetSlotTime = dagSlotTime p ops, iHeadUnitTime = dagHeadUnitTime,
     iGetScheduledMediator = dagScheduledMediator, iGetActiveMediatorCount = dagActiveMediatorCount p ops, iGenerateUnit = gen\<rparr>"

text \<open>The database holds properties whose next round of slots ends within the range of 32 bit seconds.\<close>

definition clockOK :: "prims \<Rightarrow> ('pt, 'nd) medOps \<Rightarrow> db \<Rightarrow> bool" where
  "clockOK p ops d \<longleftrightarrow> (\<exists>gp dgp ms. holds p ops gp dgp ms d \<and> inEra gp dgp \<and>
    HeadUnitTime dgp + int (length (ActiveMediators gp)) * intervalOf gp < 2 ^ 32 \<and>
    unat (CurrentASlot dgp) + length (ActiveMediators gp) < 2 ^ 64)"

definition isActive :: "prims \<Rightarrow> ('pt, 'nd) medOps \<Rightarrow> Address \<Rightarrow> db \<Rightarrow> bool" where
  "isActive p ops a d \<longleftrightarrow> (\<exists>gp. GetGlobalProp p ops d = Inr gp \<and> a \<in> fst ` set (ActiveMediators gp))"

text \<open>One slot for every active mediator after the head unit.\<close>

definition lastTurn :: "prims \<Rightarrow> ('pt, 'nd) medOps \<Rightarrow> db \<Rightarrow> int" where
  "lastTurn p ops d = (case GetGlobalProp p ops d of Inl e \<Rightarrow> 0
     | Inr gp \<Rightarrow> dagHeadUnitTime d + int (GetActiveMediatorCount gp) * intervalOf gp)"

lemma dagSlotTime_holds:
  assumes "holds p ops gp dgp ms d" and "inEra gp dgp" and "n \<noteq> 0" and "uint n * intervalOf gp < 2 ^ 33"
  shows "dagSlotTime p ops n d = Inr (Unix (slotBase gp dgp + uint n * intervalOf gp))"
  using GetSlotTime_eq [OF assms(2-4)] assms(1) by (simp add: dagSlotTime_def holds_def liftErr_def)

lemma slotBase_le: "inEra gp dgp \<Longrightarrow> slotBase gp dgp \<le> HeadUnitTime dgp"
  by (simp add: slotBase_def inEra_def)

lemma dag_turn:
  assumes "holds p ops gp dgp ms d" and "inEra gp dgp" and "HeadUnitTime dgp + int (length (ActiveMediators gp)) * intervalOf gp < 2 ^ 32"
    and "unat (CurrentASlot dgp) + length (ActiveMediators gp) < 2 ^ 64" and "a \<in> fst ` set (ActiveMediators gp)"
  obtains n s where "n \<noteq> 0" and "0 \<le> s" and "s < 2 ^ 32" and "HeadUnitTime dgp < s"
    and "s \<le> HeadUnitTime dgp + int (length (ActiveMediators gp)) * intervalOf gp" and "dagSlotTime p ops n d = Inr (Unix s)"
    and "dagSlotAtTime p ops (Unix s) d = Inr n" and "dagScheduledMediator n d = a"
proof -
  let ?n = "length (ActiveMediators gp)" and ?iv = "intervalOf gp" and ?b = "slotBase gp dgp"
  have iv: "0 < ?iv" "?iv < 256" using assms(2) interval_range by (auto simp: inEra_def)
  have n31: "?n < 2 ^ 31" and c: "complete gp ms" using assms(1) by (auto simp: holds_def goodProps_def)
  obtain k where k: "1 \<le> k" "k \<le> ?n" "GetScheduledMediator dgp (word_of_nat k) ms = a"
    using everyone_scheduled [OF c n31 assms(5,4)] by blast
  let ?w = "word_of_nat k :: 32 word"
  have uw: "uint ?w = int k" using k(2) n31 by (simp add: uint_nat unat_of_nat)
  define x where "x = int k * ?iv"
  have x: "?iv \<le> x" "x \<le> int ?n * ?iv" using k(1,2) iv by (simp_all add: x_def mult_right_mono)
  note base = slotBase_range [OF assms(2)] slotBase_le [OF assms(2)]
  have s: "0 \<le> ?b + x" "?b + x < 2 ^ 32" using base x iv(1) assms(3) by linarith+
  have w0: "?w \<noteq> 0" using uw k(1) by (metis of_nat_eq_0_iff uint_0_eq not_one_le_zero)
  have t: "dagSlotTime p ops ?w d = Inr (Unix (?b + x))"
    using dagSlotTime_holds [OF assms(1,2) w0] uw s(2) base(1) by (simp add: x_def)
  obtain m where m: "dagSlotAtTime p ops (Unix (?b + x)) d = Inr m" "uint m = max 0 ((?b + x - ?b) div ?iv)"
    by (rule dagSlotAtTime_holds [OF assms(1,2) s])
  have "uint m = int k" using m(2) iv(1) by (simp add: x_def)
  then have "m = ?w" using uw by (simp add: word_uint_eq_iff)
  moreover have "dagScheduledMediator ?w d = a" using k(3) assms(1) by (simp add: holds_def dagScheduledMediator_def)
  moreover have "HeadUnitTime dgp < ?b + x" "?b + x \<le> HeadUnitTime dgp + int ?n * ?iv" using base x by linarith+
  ultimately show thesis using that [OF w0 s _ _ t] m(1) by blast
qed

interpretation dagClock: slot_clock "dagIface p ops gen" "clockOK p ops" "isActive p ops" "lastTurn p ops" for p ops gen
proof
  fix d assume "clockOK p ops d"
  then obtain gp dgp ms where h: "holds p ops gp dgp ms d" "inEra gp dgp"
    and room: "HeadUnitTime dgp + int (length (ActiveMediators gp)) * intervalOf gp < 2 ^ 32"
      "unat (CurrentASlot dgp) + length (ActiveMediators gp) < 2 ^ 64" by (auto simp: clockOK_def)
  have head: "dagHeadUnitTime d = HeadUnitTime dgp" using h(1) by (simp add: holds_def dagHeadUnitTime_def)
  have iv: "0 < intervalOf gp" "intervalOf gp < 256" using h(2) interval_range by (auto simp: inEra_def)
  note base = slotBase_range [OF h(2)]
  show "\<exists>s. iGetSlotTime (dagIface p ops gen) 1 d = Inr (Unix s)"
    using dagSlotTime_holds [OF h, of 1] iv by (auto simp: dagIface_def)
  show "\<exists>n. iGetSlotAtTime (dagIface p ops gen) (Unix w) d = Inr n" if "0 \<le> w" "w < 2 ^ 32" for w
    by (rule dagSlotAtTime_holds [OF h that]) (simp add: dagIface_def)
  show "iHeadUnitTime (dagIface p ops gen) d < w \<and> (\<exists>s. iGetSlotTime (dagIface p ops gen) n d = Inr (Unix s) \<and> 0 \<le> s \<and> s \<le> w)"
    if w: "0 \<le> w" "w < 2 ^ 32" "iGetSlotAtTime (dagIface p ops gen) (Unix w) d = Inr n" "n \<noteq> 0" for w n
  proof -
    have u: "uint n = max 0 ((w - slotBase gp dgp) div intervalOf gp)"
      by (rule dagSlotAtTime_holds [OF h w(1,2)]) (use w(3) in \<open>simp add: dagIface_def\<close>)
    have "uint n \<noteq> 0" using w(4) by (simp add: word_uint_eq_iff)
    then have p: "1 \<le> uint n" "uint n \<le> (w - slotBase gp dgp) div intervalOf gp" using u by (auto simp: max_def split: if_splits)
    have "uint n * intervalOf gp \<le> w - slotBase gp dgp" using p(2) le_div_iff [OF iv(1)] by blast
    moreover have "intervalOf gp \<le> uint n * intervalOf gp" using p(1) iv(1) by simp
    ultimately have l: "slotBase gp dgp + uint n * intervalOf gp \<le> w" "HeadUnitTime dgp < w" "0 \<le> slotBase gp dgp + uint n * intervalOf gp"
      using base iv(1) by linarith+
    moreover have "(2 :: int) ^ 32 < 2 ^ 33" by simp
    ultimately have "dagSlotTime p ops n d = Inr (Unix (slotBase gp dgp + uint n * intervalOf gp))"
      using w(2) base(1) by (intro dagSlotTime_holds [OF h w(4)]) linarith
    then show ?thesis using l head by (auto simp: dagIface_def)
  qed
  show "\<exists>n s. n \<noteq> 0 \<and> 0 \<le> s \<and> s < 2 ^ 32 \<and> iHeadUnitTime (dagIface p ops gen) d < s \<and> s \<le> lastTurn p ops d \<and>
      iGetSlotTime (dagIface p ops gen) n d = Inr (Unix s) \<and> iGetSlotAtTime (dagIface p ops gen) (Unix s) d = Inr n \<and>
      iGetScheduledMediator (dagIface p ops gen) n d = a" if "isActive p ops a d" for a
  proof -
    have a: "a \<in> fst ` set (ActiveMediators gp)" using that h(1) by (auto simp: isActive_def holds_def)
    have "lastTurn p ops d = HeadUnitTime dgp + int (length (ActiveMediators gp)) * intervalOf gp"
      using h(1) head by (simp add: lastTurn_def holds_def GetActiveMediatorCount_def)
    then show ?thesis by (simp only: dagIface_def iDag.select_convs head) (rule dag_turn [OF h room a], blast)
  qed
qed

lemma dag_calls:
  assumes "GetGlobalProp p ops d = Inr gp"
  shows "iGetActiveMediatorCount (dagIface p ops gen) d \<in> range Inr" and "GetLocalActiveMediators (dagIface p ops gen) d mp \<in> range Inr"
proof -
  show "iGetActiveMediatorCount (dagIface p ops gen) d \<in> range Inr"
    using assms by (simp add: dagIface_def dagActiveMediatorCount_def)
  have a: "iIsActiveMediator (dagIface p ops gen) a d = Inr (IsActiveMediator a gp)" for a
    using assms by (simp add: dagIface_def dagIsActiveMediator_def)
  have "\<exists>l. activeOf (dagIface p ops gen) d adds = Inr l" for adds by (induction adds) (auto simp: a)
  then show "GetLocalActiveMediators (dagIface p ops gen) d mp \<in> range Inr" by (auto simp: GetLocalActiveMediators_def image_iff)
qed

lemma activeOf_cong: "(\<And>a. iIsActiveMediator dag a d' = iIsActiveMediator dag a d) \<Longrightarrow> activeOf dag d' adds = activeOf dag d adds"
  by (induction adds) simp_all

lemma canSend_dag:
  "GetGlobalProp p ops d' = GetGlobalProp p ops d \<Longrightarrow> canSend (dagIface p ops gen) d' mp = canSend (dagIface p ops gen) d mp"
  unfolding canSend_def GetLocalActiveMediators_def
  by (subst activeOf_cong [where d = d]) (simp_all add: dagIface_def dagIsActiveMediator_def)

section \<open>A concrete node\<close>

lemma roundedNow_Unix: "plain s \<Longrightarrow> roundedNow (Unix s) = Unix s"
proof -
  assume "plain s"
  moreover have "(500000000 :: int) sdiv nanosPerSec = 0" "(500000000 :: int) smod nanosPerSec = 500000000"
    by (simp_all add: signed_divide_int_def signed_modulo_int_def nanosPerSec_def)
  ultimately have "timeAdd 500000000 (Unix s) = \<lparr>sec = s + unixToInternal, nsec = 500000000\<rparr>"
    by (simp add: timeAdd_def Let_def sec_Unix) (simp add: Unix_def nanosPerSec_def int64_id plain_def unixToInternal_def)
  then show ?thesis using \<open>plain s\<close> by (simp add: roundedNow_def unixOf_def int64_id plain_def)
qed

definition exampleStart :: db where
  "exampleStart = snd (InitPropertyDB letters letterOps exampleGenesis zeroHash Map.empty)"

definition exampleGen :: "Time \<Rightarrow> Address \<Rightarrow> db \<Rightarrow> (rerr + Unit) \<times> db" where
  "exampleGen t a d = (Inr ((exampleUnit 1 (unixOf t))\<lparr>Txs := [\<lparr>TxHash = zeroHash, TxMessages = []\<rparr>]\<rparr>), d)"

definition examplePlugin :: MediatorPlugin where
  "examplePlugin = \<lparr>productionEnabled = True, mediators = [(medA, ''pw'')], toTBLSSignBuf = [(medA, [])], signCap = 2,
     toTBLSRecoverBuf = [(medA, [])]\<rparr>"

lemma example_clock:
  "clockOK letters letterOps exampleStart" "isActive letters letterOps medA exampleStart"
  "canSend (dagIface letters letterOps gen) exampleStart examplePlugin"
proof -
  have pre: "length zeroHash = 32" "2 ^ 24 \<le> InitialTimestamp exampleGenesis" "InitialTimestamp exampleGenesis < 2 ^ 31"
    by (simp_all add: zeroHash_def exampleGenesis_def)
  let ?dgp = "InitDynGlobalProp exampleGenesis zeroHash"
  obtain ms where h: "holds letters letterOps exampleProps ?dgp ms exampleStart"
    by (rule genesis_holds [OF example_genesis example_storable pre, of Map.empty]) (auto simp: exampleStart_def)
  moreover have "inEra exampleProps ?dgp" "HeadUnitTime ?dgp = 1540000000" "CurrentASlot ?dgp = 0" "intervalOf exampleProps = 2"
    "length (ActiveMediators exampleProps) = 2"
    by (simp_all add: inEra_def exampleProps_def InitDynGlobalProp_def NewDynGlobalProp_def exampleGenesis_def NewChainParams_def)
  ultimately show "clockOK letters letterOps exampleStart"
    unfolding clockOK_def by (intro exI [of _ exampleProps] exI [of _ ?dgp] exI [of _ ms]) simp
  have g: "GetGlobalProp letters letterOps exampleStart = Inr exampleProps" using h by (simp add: holds_def)
  then show "isActive letters letterOps medA exampleStart" by (simp add: isActive_def exampleProps_def)
  show "canSend (dagIface letters letterOps gen) exampleStart examplePlugin"
    using g by (simp add: canSend_def GetLocalActiveMediators_def dagIface_def dagIsActiveMediator_def examplePlugin_def
        IsActiveMediator_def exampleProps_def)
qed

lemma example_times:
  "dagHeadUnitTime exampleStart = 1540000000" "lastTurn letters letterOps exampleStart = 1540000004"
  "GetGlobalProp letters letterOps exampleStart = Inr exampleProps"
proof -
  have pre: "length zeroHash = 32" "2 ^ 24 \<le> InitialTimestamp exampleGenesis" "InitialTimestamp exampleGenesis < 2 ^ 31"
    by (simp_all add: zeroHash_def exampleGenesis_def)
  obtain ms where h: "holds letters letterOps exampleProps (InitDynGlobalProp exampleGenesis zeroHash) ms exampleStart"
    by (rule genesis_holds [OF example_genesis example_storable pre, of Map.empty]) (auto simp: exampleStart_def)
  then show g: "GetGlobalProp letters letterOps exampleStart = Inr exampleProps" by (simp add: holds_def)
  show t: "dagHeadUnitTime exampleStart = 1540000000"
    using h by (simp add: holds_def dagHeadUnitTime_def InitDynGlobalProp_def exampleGenesis_def)
  show "lastTurn letters letterOps exampleStart = 1540000004"
    using g t by (simp add: lastTurn_def GetActiveMediatorCount_def exampleProps_def NewChainParams_def)
qed

lemma medA_facts: "length medA = 21" "medA \<noteq> zeroAddress"
proof -
  have "medA ! 0 = 1" "zeroAddress ! 0 = 0" by (simp_all add: medA_def zeroAddress_def AddressLength_def nth_append)
  then show "medA \<noteq> zeroAddress" by auto
  show "length medA = 21" by (simp add: medA_def)
qed

section \<open>Properties\<close>



text \<open>C15. Units are only produced in turn.  Whenever an attempt ends with a unit, the time is that of a
  slot after the head unit, the mediator of the slot is one of the node's own and its key
  unlocked, and the unit was made for this mediator and this time.\<close>

theorem produces_in_own_slot:
  assumes "clockOK p ops d" and "roundedNow nowFine = Unix w" and "0 \<le> w" and "w < 2 ^ 32"
    and "MaybeProduceUnit (dagIface p ops gen) unlock nowFine mp d = (Inr (Some Produced), mp', d')"
  shows "\<exists>n pw u. n \<noteq> 0 \<and> dagSlotAtTime p ops (Unix w) d = Inr n \<and> dagSlotTime p ops n d = Inr (Unix w) \<and> dagHeadUnitTime d < w \<and>
    map_of (mediators mp) (dagScheduledMediator n d) = Some pw \<and> unlock (dagScheduledMediator n d) pw \<and>
    gen (Unix w) (dagScheduledMediator n d) d = (Inr u, d') \<and> Txs u \<noteq> []"
  using dagClock.produces_only_in_turn [OF assms] by (simp add: dagIface_def)

theorem produces_in_own_slot_witness:
  "\<exists>n w u d'. n \<noteq> 0 \<and> dagSlotTime letters letterOps n exampleStart = Inr (Unix w) \<and> 1540000000 < w \<and>
    exampleGen (Unix w) (dagScheduledMediator n exampleStart) exampleStart = (Inr u, d') \<and> Txs u \<noteq> []"
proof -
  let ?u = "\<lambda>(a :: Address) pw. pw = ''pw''" and ?dag = "dagIface letters letterOps exampleGen"
  have r: "iGetActiveMediatorCount ?dag exampleStart \<in> range Inr"
    by (rule dag_calls(1) [of _ _ _ exampleProps]) (use example_times in simp)
  obtain s where s: "iHeadUnitTime ?dag exampleStart < s" "s \<le> lastTurn letters letterOps exampleStart"
    "roundedNow (Unix s) = Unix s \<Longrightarrow> fst (MaybeProduceUnit ?dag ?u (Unix s) examplePlugin exampleStart) = Inr (Some Produced)"
    using dagClock.produces_in_turn [OF example_clock(1,2) medA_facts, of examplePlugin "''pw''" ?u exampleGen] example_clock(3) r
    by (auto simp: examplePlugin_def exampleGen_def dagIface_def)
  then have b: "1540000000 < s" "s \<le> 1540000004" using example_times by (simp_all add: dagIface_def)
  then have now: "roundedNow (Unix s) = Unix s" "0 \<le> s" "s < 2 ^ 32" using roundedNow_Unix [of s] by (auto simp: plain_def)
  obtain mp' d' where "MaybeProduceUnit ?dag ?u (Unix s) examplePlugin exampleStart = (Inr (Some Produced), mp', d')"
    using s(3) now(1) by (metis prod.collapse)
  from produces_in_own_slot [OF example_clock(1) now this] show ?thesis using b by blast
qed

text \<open>The assertion on the order of times never fails: an attempt to produce a unit does not panic,
  provided that making a unit does not, that it leaves the global properties alone, and that the
  node's mediators had their buffers made at the start.\<close>

theorem production_never_panics:
  assumes "clockOK p ops d" and "roundedNow nowFine = Unix w" and "0 \<le> w" and "w < 2 ^ 32"
    and "\<forall>t a. \<exists>u d'. gen t a d = (Inr u, d') \<and> GetGlobalProp p ops d' = GetGlobalProp p ops d"
    and "\<forall>a \<in> fst ` set (mediators mp). map_of (toTBLSRecoverBuf mp) a \<noteq> None"
  shows "\<exists>c. fst (MaybeProduceUnit (dagIface p ops gen) unlock nowFine mp d) = Inr c"
proof (rule dagClock.never_panics [OF assms(1-4) _ assms(6)], intro allI)
  fix t a
  obtain gp where gp: "GetGlobalProp p ops d = Inr gp" using assms(1) by (auto simp: clockOK_def holds_def)
  obtain u d' where u: "gen t a d = (Inr u, d')" "GetGlobalProp p ops d' = Inr gp" using assms(5) gp by metis
  then show "\<exists>u d'. iGenerateUnit (dagIface p ops gen) t a d = (Inr u, d') \<and> iGetActiveMediatorCount (dagIface p ops gen) d' \<in> range Inr \<and>
      (\<forall>mp. GetLocalActiveMediators (dagIface p ops gen) d' mp \<in> range Inr)"
    using dag_calls [OF u(2)] by (auto simp: dagIface_def)
qed

theorem production_never_panics_witness:
  "\<exists>c. fst (MaybeProduceUnit (dagIface letters letterOps exampleGen) (\<lambda>a pw. pw = ''pw'') (Unix 1540000002) examplePlugin exampleStart) = Inr c"
proof -
  have "roundedNow (Unix 1540000002) = Unix 1540000002" by (rule roundedNow_Unix) (simp add: plain_def)
  from production_never_panics [OF example_clock(1) this, of exampleGen examplePlugin] show ?thesis
    by (simp add: exampleGen_def examplePlugin_def)
qed

end
