(* ===== verification/ThresholdSign.thy ===== *)
theory ThresholdSign
  imports MediatorPlugin
begin

text \<open>
  Group signatures of units (\<^verbatim>\<open>consensus/mediatorplugin/threshold_sign.go\<close>).  Every share that arrives
  is added by one goroutine, which starts another that tries to recover the group signature; any
  number of them are in flight.  A goroutine that recovers holds the lock of its set of shares, so
  that it runs as one step; a share added between its test of the length and its taking of the
  shares has the same effect as one added before the step.  The signature scheme and the key
  generation are a package outside the repository: a record of functions.
\<close>

section \<open>Operations\<close>

text \<open>The distributed key of a mediator, when its generator exists and yields one, and the recovery of
  a group signature from shares, with the threshold and the number of signers.\<close>

record 'c tbls =
  distKey :: "Address \<Rightarrow> 'c option"
  tblsRecover :: "'c \<Rightarrow> Hash \<Rightarrow> bytes list \<Rightarrow> int \<Rightarrow> nat \<Rightarrow> bytes option"

text \<open>\<^verbatim>\<open>areCertified\<close> is the flag that its loop over the map reads last.\<close>

fun lastFlag :: "bool \<Rightarrow> bool list \<Rightarrow> bool" where
  "lastFlag certified [] = certified"
| "lastFlag certified (flag # flags) = (if \<not> flag then False else lastFlag flag flags)"

definition areCertified :: "(Address \<times> bool) list \<Rightarrow> bool" where
  "areCertified certifiedFlag = lastFlag False (map snd certifiedFlag)"

text \<open>Reading, writing and deleting in a map of maps; reading from a missing inner map finds nothing.\<close>

definition shareBuf :: "MediatorPlugin \<Rightarrow> Address \<Rightarrow> Hash \<Rightarrow> sigShareSet option" where
  "shareBuf mp a h = (case map_of (toTBLSRecoverBuf mp) a of None \<Rightarrow> None | Some m \<Rightarrow> map_of m h)"

definition setBuf :: "Address \<Rightarrow> Hash \<Rightarrow> sigShareSet \<Rightarrow> MediatorPlugin \<Rightarrow> MediatorPlugin" where
  "setBuf a h shs mp = (case map_of (toTBLSRecoverBuf mp) a of None \<Rightarrow> mp
     | Some m \<Rightarrow> mp\<lparr>toTBLSRecoverBuf := AList.update a (AList.update h shs m) (toTBLSRecoverBuf mp)\<rparr>)"

definition dropBuf :: "Address \<Rightarrow> Hash \<Rightarrow> MediatorPlugin \<Rightarrow> MediatorPlugin" where
  "dropBuf a h mp = (case map_of (toTBLSRecoverBuf mp) a of None \<Rightarrow> mp
     | Some m \<Rightarrow> mp\<lparr>toTBLSRecoverBuf := AList.update a (AList.delete h m) (toTBLSRecoverBuf mp)\<rparr>)"

text \<open>A nil unit is logged and then dereferenced.  The second result is the recovery that is started.\<close>

definition addToTBLSRecoverBuf :: "Unit option \<Rightarrow> bytes \<Rightarrow> MediatorPlugin \<Rightarrow> rerr + MediatorPlugin \<times> (Address \<times> Hash) option" where
  "addToTBLSRecoverBuf newUnit sigShare mp =
    (case newUnit of
       None \<Rightarrow> Inl RlpPanic
     | Some u \<Rightarrow>
         let newUnitHash = UnitHash u; localMed = UnitAuthor u in
         (case map_of (toTBLSRecoverBuf mp) localMed of
            None \<Rightarrow> Inr (mp, None)
          | Some medSigShareBuf \<Rightarrow>
              (case map_of medSigShareBuf newUnitHash of
                 None \<Rightarrow> Inr (mp, None)
               | Some sigShareSet \<Rightarrow>
                   Inr (setBuf localMed newUnitHash (appendShare sigShare sigShareSet) mp, Some (localMed, newUnitHash)))))"

definition recoverUnitTBLS ::
  "'d iDag \<Rightarrow> 'd \<Rightarrow> 'c tbls \<Rightarrow> Address \<Rightarrow> Hash \<Rightarrow> MediatorPlugin \<Rightarrow> rerr + MediatorPlugin \<times> bytes option" where
  "recoverUnitTBLS dag d ts localMed unitHash mp =
    (case shareBuf mp localMed unitHash of
       None \<Rightarrow> Inr (mp, None)
     | Some sigShareSet \<Rightarrow>
         bindR (iGetActiveMediatorCount dag d) (\<lambda>aSize.
         bindR (iGetCurThreshold dag d) (\<lambda>curThreshold.
           if sigShareLen sigShareSet < curThreshold then Inr (mp, None)
           else
             bindR (IsLocalActiveMediator dag d localMed mp) (\<lambda>active.
               if \<not> active then Inr (mp, None)
               else
                 (case distKey ts localMed of
                    None \<Rightarrow> Inr (mp, None)
                  | Some dks \<Rightarrow>
                      let (sigShares, rest) = popSigShares sigShareSet; mp = setBuf localMed unitHash rest mp in
                      (case tblsRecover ts dks unitHash sigShares curThreshold aSize of
                         None \<Rightarrow> Inr (mp, None)
                       | Some groupSig \<Rightarrow> Inr (dropBuf localMed unitHash mp, Some groupSig)))))))"

text \<open>The recoveries started when a mediator's key generation completes.\<close>

definition recoverUnitsTBLS :: "Address \<Rightarrow> MediatorPlugin \<Rightarrow> (Address \<times> Hash) list" where
  "recoverUnitsTBLS localMed mp =
    (case map_of (toTBLSRecoverBuf mp) localMed of None \<Rightarrow> [] | Some m \<Rightarrow> map (\<lambda>(h, _). (localMed, h)) m)"

section \<open>Goroutines in flight\<close>

text \<open>The recoveries that are waiting to run, and what has happened so far: the units made, the shares
  accepted and the group signatures sent.\<close>

record tblsState =
  plug :: MediatorPlugin
  tasks :: "(Address \<times> Hash) list"
  made :: "(Address \<times> Hash) list"
  shareLog :: "((Address \<times> Hash) \<times> bytes) list"
  sent :: "((Address \<times> Hash) \<times> bytes) list"

inductive tblsStep :: "'d iDag \<Rightarrow> 'd \<Rightarrow> 'c tbls \<Rightarrow> tblsState \<Rightarrow> tblsState \<Rightarrow> bool" for dag d ts where
  make: "initTBLSRecoverBuf dag d a h (plug s) = Inr mp \<Longrightarrow> (a, h) \<notin> set (made s) \<Longrightarrow>
    tblsStep dag d ts s (s\<lparr>plug := mp, made := (a, h) # made s\<rparr>)"
| ignored: "addToTBLSRecoverBuf (Some u) sigShare (plug s) = Inr (mp, None) \<Longrightarrow> tblsStep dag d ts s (s\<lparr>plug := mp\<rparr>)"
| share: "addToTBLSRecoverBuf (Some u) sigShare (plug s) = Inr (mp, Some k) \<Longrightarrow>
    tblsStep dag d ts s (s\<lparr>plug := mp, tasks := k # tasks s, shareLog := shareLog s @ [(k, sigShare)]\<rparr>)"
| certified: "tblsStep dag d ts s (s\<lparr>tasks := recoverUnitsTBLS a (plug s) @ tasks s\<rparr>)"
| fails: "tasks s = xs @ (a, h) # ys \<Longrightarrow> recoverUnitTBLS dag d ts a h (plug s) = Inr (mp, None) \<Longrightarrow>
    tblsStep dag d ts s (s\<lparr>plug := mp, tasks := xs @ ys\<rparr>)"
| recovers: "tasks s = xs @ (a, h) # ys \<Longrightarrow> recoverUnitTBLS dag d ts a h (plug s) = Inr (mp, Some groupSig) \<Longrightarrow>
    tblsStep dag d ts s (s\<lparr>plug := mp, tasks := xs @ ys, sent := ((a, h), groupSig) # sent s\<rparr>)"

text \<open>A plugin as it is made: no unit has a set of shares yet.\<close>

definition fresh :: "MediatorPlugin \<Rightarrow> bool" where
  "fresh mp \<longleftrightarrow> (\<forall>m \<in> snd ` set (toTBLSRecoverBuf mp). m = [])"

inductive tblsReach :: "'d iDag \<Rightarrow> 'd \<Rightarrow> 'c tbls \<Rightarrow> MediatorPlugin \<Rightarrow> tblsState \<Rightarrow> bool" for dag d ts mp where
  start: "fresh mp \<Longrightarrow> tblsReach dag d ts mp \<lparr>plug = mp, tasks = [], made = [], shareLog = [], sent = []\<rparr>"
| step: "tblsReach dag d ts mp s \<Longrightarrow> tblsStep dag d ts s s' \<Longrightarrow> tblsReach dag d ts mp s'"

definition delivered :: "(Address \<times> Hash) \<Rightarrow> tblsState \<Rightarrow> bytes list" where
  "delivered k s = map snd (filter (\<lambda>(k', _). k' = k) (shareLog s))"

definition signatures :: "(Address \<times> Hash) \<Rightarrow> tblsState \<Rightarrow> bytes list" where
  "signatures k s = map snd (filter (\<lambda>(k', _). k' = k) (sent s))"

section \<open>What the operations change\<close>

lemma shareBuf_setBuf:
  "shareBuf mp a h \<noteq> None \<Longrightarrow> shareBuf (setBuf a h shs mp) a' h' = (if (a', h') = (a, h) then Some shs else shareBuf mp a' h')"
  by (auto simp: shareBuf_def setBuf_def update_conv' split: option.splits)

lemma shareBuf_dropBuf:
  "shareBuf (dropBuf a h mp) a' h' = (if (a', h') = (a, h) then None else shareBuf mp a' h')"
  by (auto simp: shareBuf_def dropBuf_def update_conv' delete_conv' split: option.splits)

lemma bufs_keep: "mediators (setBuf a h shs mp) = mediators mp" "mediators (dropBuf a h mp) = mediators mp"
  by (simp_all add: setBuf_def dropBuf_def split: option.splits)

lemma add_facts:
  assumes "addToTBLSRecoverBuf (Some u) x mp = Inr (mp', r)"
  shows "mediators mp' = mediators mp" and "r = None \<Longrightarrow> mp' = mp"
    and "r = Some (a, h) \<Longrightarrow> \<exists>shs. shareBuf mp a h = Some shs \<and>
      (\<forall>a' h'. shareBuf mp' a' h' = (if (a', h') = (a, h) then Some (shs @ [x]) else shareBuf mp a' h'))"
proof -
  show "mediators mp' = mediators mp" "r = None \<Longrightarrow> mp' = mp"
    using assms by (auto simp: addToTBLSRecoverBuf_def Let_def bufs_keep split: option.splits)
  assume "r = Some (a, h)"
  then obtain shs where s: "shareBuf mp a h = Some shs" "mp' = setBuf a h (shs @ [x]) mp"
    using assms by (auto simp: addToTBLSRecoverBuf_def shareBuf_def Let_def appendShare_def split: option.splits)
  then show "\<exists>shs. shareBuf mp a h = Some shs \<and>
      (\<forall>a' h'. shareBuf mp' a' h' = (if (a', h') = (a, h) then Some (shs @ [x]) else shareBuf mp a' h'))"
    using shareBuf_setBuf [where a = a and h = h and mp = mp] by auto
qed

lemma init_facts:
  assumes "initTBLSRecoverBuf dag d a h mp = Inr mp'"
  shows "mediators mp' = mediators mp"
    and "shareBuf mp' a' h' = (if (a', h') = (a, h) then Some [] else shareBuf mp a' h')"
  using assms by (auto simp: initTBLSRecoverBuf_def shareBuf_def bindR_def newSigShareSet_def update_conv'
      split: sum.splits option.splits if_splits)

lemma recover_cases:
  assumes "recoverUnitTBLS dag d ts a h mp = Inr (mp', r)"
    and "iGetActiveMediatorCount dag d = Inr n" and "iGetCurThreshold dag d = Inr t"
  obtains (idle) "r = None" "mp' = mp"
      "\<And>shs c. \<not> (shareBuf mp a h = Some shs \<and> t \<le> int (length shs) \<and> IsLocalActiveMediator dag d a mp = Inr True \<and> distKey ts a = Some c)"
    | (tries) shs c where "shareBuf mp a h = Some shs" "t \<le> int (length shs)" "distKey ts a = Some c" "tblsRecover ts c h shs t n = r"
      "mediators mp' = mediators mp"
      "\<And>a' h'. shareBuf mp' a' h' = (if (a', h') = (a, h) then (case r of None \<Rightarrow> Some [] | Some _ \<Rightarrow> None) else shareBuf mp a' h')"
proof (cases "\<exists>shs c. shareBuf mp a h = Some shs \<and> t \<le> int (length shs) \<and> IsLocalActiveMediator dag d a mp = Inr True \<and> distKey ts a = Some c")
  case True
  then obtain shs c where c: "shareBuf mp a h = Some shs" "t \<le> int (length shs)" "IsLocalActiveMediator dag d a mp = Inr True"
    "distKey ts a = Some c" by blast
  have r: "r = tblsRecover ts c h shs t n"
    "mp' = (case tblsRecover ts c h shs t n of None \<Rightarrow> setBuf a h [] mp | Some _ \<Rightarrow> dropBuf a h (setBuf a h [] mp))"
    using assms c by (auto simp: recoverUnitTBLS_def sigShareLen_def popSigShares_def Let_def split: option.splits)
  have "shareBuf mp' a' h' = (if (a', h') = (a, h) then (case r of None \<Rightarrow> Some [] | Some _ \<Rightarrow> None) else shareBuf mp a' h')" for a' h'
    unfolding r using shareBuf_setBuf [where a = a and h = h and mp = mp] c(1) by (auto simp: shareBuf_dropBuf split: option.split)
  then show thesis using tries [OF c(1,2,4)] r by (simp add: bufs_keep split: option.split)
next
  case False
  then have "r = None" "mp' = mp"
    using assms by (auto simp: recoverUnitTBLS_def sigShareLen_def Let_def bindR_def split: option.splits sum.splits if_splits)
  then show thesis using idle False by blast
qed

lemma fresh_buf: "fresh mp \<Longrightarrow> shareBuf mp a h = None"
  by (fastforce simp: fresh_def shareBuf_def split: option.splits dest: map_of_SomeD)

lemma logs [simp]:
  "delivered k (s\<lparr>plug := mp\<rparr>) = delivered k s" "delivered k (s\<lparr>tasks := ks\<rparr>) = delivered k s" "delivered k (s\<lparr>made := ms\<rparr>) = delivered k s"
  "delivered k (s\<lparr>sent := gs\<rparr>) = delivered k s"
  "delivered k (s\<lparr>plug := mp, tasks := ks, shareLog := shareLog s @ [(k', x)]\<rparr>) = (if k' = k then delivered k s @ [x] else delivered k s)"
  "signatures k (s\<lparr>plug := mp\<rparr>) = signatures k s" "signatures k (s\<lparr>tasks := ks\<rparr>) = signatures k s"
  "signatures k (s\<lparr>made := ms\<rparr>) = signatures k s" "signatures k (s\<lparr>shareLog := l\<rparr>) = signatures k s"
  "signatures k (s\<lparr>plug := mp, tasks := ks, sent := (k', g) # sent s\<rparr>) = (if k' = k then g # signatures k s else signatures k s)"
  by (simp_all add: delivered_def signatures_def)

text \<open>Two facts that need no assumption on the scheme: a unit that was never made has no set, no share
  and no signature, and a unit with a signature has no set any more.\<close>

lemma reach_keys:
  assumes "tblsReach dag d ts mp0 s" and "iGetActiveMediatorCount dag d = Inr n" and "iGetCurThreshold dag d = Inr t"
  shows "mediators (plug s) = mediators mp0 \<and>
    (\<forall>a h. (a, h) \<notin> set (made s) \<longrightarrow> shareBuf (plug s) a h = None \<and> delivered (a, h) s = [] \<and> signatures (a, h) s = []) \<and>
    (\<forall>a h. signatures (a, h) s \<noteq> [] \<longrightarrow> shareBuf (plug s) a h = None)"
  using assms(1)
proof induction
  case start
  then show ?case by (simp add: fresh_buf delivered_def signatures_def)
next
  case (step s s')
  have live: "(a, h) \<in> set (made s)" "signatures (a, h) s = []" if "shareBuf (plug s) a h = Some shs" for a h shs
    using step.IH that by force+
  from step.hyps(2) show ?case
  proof cases
    case (make a h mp)
    then show ?thesis using init_facts [OF make(2)] step.IH by auto
  next
    case (ignored u x mp)
    then show ?thesis using add_facts [OF ignored(2)] step.IH by auto
  next
    case (share u x mp k)
    obtain a h where k: "k = (a, h)" by fastforce
    obtain shs where shs: "shareBuf (plug s) a h = Some shs"
      "\<forall>a' h'. shareBuf mp a' h' = (if (a', h') = (a, h) then Some (shs @ [x]) else shareBuf (plug s) a' h')"
      using add_facts(3) [OF share(2)] k by blast
    show ?thesis using share(1) k shs(2) live [OF shs(1)] add_facts(1) [OF share(2)] step.IH by auto
  next
    case (certified a)
    then show ?thesis using step.IH by auto
  next
    case (fails xs a h ys mp)
    from fails(3) assms(2,3) show ?thesis
      by (cases rule: recover_cases) (use fails step.IH in \<open>auto dest: live\<close>)
  next
    case (recovers xs a h ys mp g)
    from recovers(3) assms(2,3) show ?thesis
      by (cases rule: recover_cases) (use recovers step.IH in \<open>auto dest: live\<close>)
  qed
qed

section \<open>Invariants\<close>

lemma reach_signatures:
  assumes "tblsReach dag d ts mp0 s" and n: "iGetActiveMediatorCount dag d = Inr n" "iGetCurThreshold dag d = Inr t"
  shows "(\<forall>shs. shareBuf (plug s) a h = Some shs \<longrightarrow> set shs \<subseteq> set (delivered (a, h) s)) \<and> length (signatures (a, h) s) \<le> 1 \<and>
    (\<forall>g \<in> set (signatures (a, h) s). \<exists>shs c. distKey ts a = Some c \<and> t \<le> int (length shs) \<and>
      set shs \<subseteq> set (delivered (a, h) s) \<and> tblsRecover ts c h shs t n = Some g)"
  using assms(1)
proof induction
  case start
  then show ?case by (simp add: fresh_buf signatures_def)
next
  case (step s s')
  note keys = reach_keys [OF step.hyps(1) n]
  from step.hyps(2) show ?case
  proof cases
    case (make b k mp)
    then show ?thesis using init_facts(2) [OF make(2)] step.IH by auto
  next
    case (ignored u x mp)
    then show ?thesis using add_facts(2) [OF ignored(2)] step.IH by auto
  next
    case (share u x mp k)
    obtain b l where k: "k = (b, l)" by fastforce
    obtain shs where "shareBuf (plug s) b l = Some shs"
      "\<forall>a' h'. shareBuf mp a' h' = (if (a', h') = (b, l) then Some (shs @ [x]) else shareBuf (plug s) a' h')"
      using add_facts(3) [OF share(2)] k by blast
    then show ?thesis using share(1) k step.IH by (fastforce split: if_splits)
  next
    case (certified b)
    then show ?thesis using step.IH by auto
  next
    case (fails xs b l ys mp)
    from fails(3) n show ?thesis
      by (cases rule: recover_cases) (use fails step.IH in auto)
  next
    case (recovers xs b l ys mp g)
    from recovers(3) n show ?thesis
    proof (cases rule: recover_cases)
      case (tries shs c)
      have "signatures (b, l) s = []" using keys tries(1) by force
      then show ?thesis using recovers(1) tries step.IH by (cases "(a, h) = (b, l)") auto
    qed simp
  qed
qed

lemma local_cong: "mediators mp = mediators mp' \<Longrightarrow> IsLocalActiveMediator dag d a mp = IsLocalActiveMediator dag d a mp'"
  by (simp add: IsLocalActiveMediator_def isLocalMediator_def)

lemma reach_progress:
  assumes "tblsReach dag d ts mp0 s" and n: "iGetActiveMediatorCount dag d = Inr n" "iGetCurThreshold dag d = Inr t" and "0 < t"
    and act: "IsLocalActiveMediator dag d a mp0 = Inr True" and key: "distKey ts a = Some c"
    and ok: "\<forall>shs. t \<le> int (length shs) \<longrightarrow> tblsRecover ts c h shs t n \<noteq> None"
  shows "(a, h) \<in> set (made s) \<longrightarrow> signatures (a, h) s \<noteq> [] \<or> shareBuf (plug s) a h = Some (delivered (a, h) s) \<and>
    (t \<le> int (length (delivered (a, h) s)) \<longrightarrow> (a, h) \<in> set (tasks s))"
  using assms(1)
proof induction
  case start
  then show ?case by simp
next
  case (step s s')
  note keys = reach_keys [OF step.hyps(1) n]
  have active: "IsLocalActiveMediator dag d a (plug s) = Inr True" using local_cong act keys by metis
  from step.hyps(2) show ?case
  proof cases
    case (make b k mp)
    then show ?thesis using init_facts(2) [OF make(2)] step.IH keys \<open>0 < t\<close> by auto
  next
    case (ignored u x mp)
    then show ?thesis using add_facts(2) [OF ignored(2)] step.IH by auto
  next
    case (share u x mp k)
    obtain b l where k: "k = (b, l)" by fastforce
    obtain shs where "shareBuf (plug s) b l = Some shs"
      "\<forall>a' h'. shareBuf mp a' h' = (if (a', h') = (b, l) then Some (shs @ [x]) else shareBuf (plug s) a' h')"
      using add_facts(3) [OF share(2)] k by blast
    then show ?thesis using share(1) k step.IH by auto
  next
    case (certified b)
    then show ?thesis using step.IH by auto
  next
    case (fails xs b l ys mp)
    from fails(3) n show ?thesis
    proof (cases rule: recover_cases)
      case idle
      then have "(a, h) = (b, l) \<Longrightarrow> shareBuf (plug s) a h = Some shs \<Longrightarrow> \<not> t \<le> int (length shs)" for shs using active key by blast
      then show ?thesis using fails(1,2) idle(2) step.IH by auto
    next
      case (tries shs c')
      have "(a, h) \<noteq> (b, l)" using tries(2-4) key ok by auto
      then show ?thesis using fails(1,2) tries(6) step.IH by auto
    qed
  next
    case (recovers xs b l ys mp g)
    from recovers(3) n show ?thesis
    proof (cases rule: recover_cases)
      case (tries shs c')
      then show ?thesis using recovers(1,2) step.IH by auto
    qed simp
  qed
qed

text \<open>What a share that spoils every recovery does to the key it was given for, when it comes among the
  first shares.\<close>

definition spoilt :: "bytes \<Rightarrow> nat \<Rightarrow> (Address \<times> Hash) \<Rightarrow> tblsState \<Rightarrow> bool" where
  "spoilt x t k s \<longleftrightarrow> (let D = delivered k s; buf = shareBuf (plug s) (fst k) (snd k) in
     signatures k s = [] \<and> (buf = Some D \<or> buf = None \<and> D = []) \<or>
     signatures k s = [] \<and> x \<in> set (take t D) \<and> (\<exists>shs. buf = Some shs \<and> length shs + t \<le> length D) \<or>
     t \<le> length D \<and> x \<notin> set (take t D) \<or> 2 * t \<le> length D)"

lemma reach_spoilt:
  assumes "tblsReach dag d ts mp0 s" and n: "iGetActiveMediatorCount dag d = Inr n" "iGetCurThreshold dag d = Inr t"
    and bad: "\<forall>shs c. x \<in> set shs \<longrightarrow> tblsRecover ts c h shs t n = None"
  shows "spoilt x (nat t) (a, h) s"
  using assms(1)
proof induction
  case start
  then show ?case by (simp add: spoilt_def fresh_buf delivered_def signatures_def)
next
  case (step s s')
  note keys = reach_keys [OF step.hyps(1) n]
  from step.hyps(2) show ?case
  proof cases
    case (make b k mp)
    then show ?thesis using init_facts(2) [OF make(2)] step.IH keys by (cases "(a, h) = (b, k)") (auto simp: spoilt_def)
  next
    case (ignored u y mp)
    then show ?thesis using add_facts(2) [OF ignored(2)] step.IH by (auto simp: spoilt_def)
  next
    case (share u y mp k)
    obtain b l where k: "k = (b, l)" by fastforce
    obtain shs where "shareBuf (plug s) b l = Some shs"
      "\<forall>a' h'. shareBuf mp a' h' = (if (a', h') = (b, l) then Some (shs @ [y]) else shareBuf (plug s) a' h')"
      using add_facts(3) [OF share(2)] k by blast
    then show ?thesis using share(1) k step.IH by (cases "(a, h) = (b, l)") (auto simp: spoilt_def Let_def)
  next
    case (certified b)
    then show ?thesis using step.IH by (auto simp: spoilt_def)
  next
    case (fails xs b l ys mp)
    from fails(3) n show ?thesis
    proof (cases rule: recover_cases)
      case idle
      then show ?thesis using fails(1) step.IH by (auto simp: spoilt_def)
    next
      case (tries shs c')
      then show ?thesis using fails(1) step.IH by (cases "(a, h) = (b, l)") (auto simp: spoilt_def Let_def nat_le_iff)
    qed
  next
    case (recovers xs b l ys mp g)
    from recovers(3) n show ?thesis
    proof (cases rule: recover_cases)
      case (tries shs c')
      have "x \<notin> set shs" if "h = l" using tries(4) bad that by force
      then show ?thesis using recovers(1) tries step.IH
        by (cases "(a, h) = (b, l)") (auto simp: spoilt_def Let_def nat_le_iff dest: in_set_takeD)
    qed simp
  qed
qed

section \<open>The threshold\<close>

lemma threshold_majority:
  assumes "0 < GetActiveMediatorCount gp"
  shows "0 < GetCurThreshold gp" and "int (GetActiveMediatorCount gp) < 2 * GetCurThreshold gp"
proof -
  let ?n = "int (GetActiveMediatorCount gp)"
  have "3000 * ?n div 10000 * 2 < ?n" using assms by linarith
  then show "0 < GetCurThreshold gp" "?n < 2 * GetCurThreshold gp"
    using assms by (simp_all add: GetCurThreshold_def PalletOneIrreversibleThreshold_def PalletOne100Percent_def Let_def)
qed

lemma dag_threshold:
  assumes "GetGlobalProp p ops d = Inr gp"
  shows "iGetActiveMediatorCount (dagIface p ops gen) d = Inr (GetActiveMediatorCount gp)"
    and "iGetCurThreshold (dagIface p ops gen) d = Inr (GetCurThreshold gp)"
    and "\<exists>b. IsLocalActiveMediator (dagIface p ops gen) d a mp = Inr b"
  using assms by (auto simp: dagIface_def dagActiveMediatorCount_def dagCurThreshold_def IsLocalActiveMediator_def dagIsActiveMediator_def)

text \<open>The recoveries in flight can always run, one after the other, and then none is left.\<close>

lemma drain:
  assumes "GetGlobalProp p ops d = Inr gp"
  shows "\<exists>s'. (tblsStep (dagIface p ops gen) d ts)\<^sup>*\<^sup>* s s' \<and> tasks s' = [] \<and> shareLog s' = shareLog s \<and> made s' = made s"
proof (induction "length (tasks s)" arbitrary: s)
  case 0
  then show ?case by auto
next
  case (Suc k)
  then obtain a h ys where t: "tasks s = [] @ (a, h) # ys" by (cases "tasks s") auto
  note c = dag_threshold [OF assms, where gen = gen]
  obtain b where b: "IsLocalActiveMediator (dagIface p ops gen) d a (plug s) = Inr b" using c(3) by blast
  have "\<exists>x. recoverUnitTBLS (dagIface p ops gen) d ts a h (plug s) = Inr x"
    using b by (cases "shareBuf (plug s) a h") (simp_all add: recoverUnitTBLS_def c popSigShares_def Let_def split: option.split)
  then obtain mp r where r: "recoverUnitTBLS (dagIface p ops gen) d ts a h (plug s) = Inr (mp, r)" by fastforce
  have "\<exists>s1. tblsStep (dagIface p ops gen) d ts s s1 \<and> tasks s1 = ys \<and> shareLog s1 = shareLog s \<and> made s1 = made s"
  proof (cases r)
    case None
    then show ?thesis
      using tblsStep.fails [OF t, of "dagIface p ops gen" d ts mp] r by (intro exI [of _ "s\<lparr>plug := mp, tasks := ys\<rparr>"]) simp
  next
    case (Some g)
    then show ?thesis
      using tblsStep.recovers [OF t, of "dagIface p ops gen" d ts mp g] r
      by (intro exI [of _ "s\<lparr>plug := mp, tasks := ys, sent := ((a, h), g) # sent s\<rparr>"]) simp
  qed
  then obtain s1 where s1: "tblsStep (dagIface p ops gen) d ts s s1" "tasks s1 = ys" "shareLog s1 = shareLog s" "made s1 = made s" by blast
  then have "k = length (tasks s1)" using Suc.hyps(2) t by simp
  from Suc.hyps(1) [OF this] s1 show ?case by (metis converse_rtranclp_into_rtranclp)
qed

section \<open>A concrete run\<close>

definition signedUnit :: Unit where
  "signedUnit = exampleUnit 1 1540000002\<lparr>UnitHeader := (NewHeader [] [] [])\<lparr>Authors := zeroAuthentifier\<lparr>authAddress := medA\<rparr>\<rparr>\<rparr>"

definition unitKey :: "Address \<times> Hash" where
  "unitKey = (medA, replicate 32 9)"

text \<open>A scheme that combines any shares, and one in which the share \<^term>\<open>[0]\<close> is bad.\<close>

definition goodScheme :: "unit tbls" where
  "goodScheme = \<lparr>distKey = (\<lambda>_. Some ()), tblsRecover = (\<lambda>_ h shs t n. Some (concat shs))\<rparr>"

definition strictScheme :: "unit tbls" where
  "strictScheme = \<lparr>distKey = (\<lambda>_. Some ()), tblsRecover = (\<lambda>_ h shs t n. if [0] \<in> set shs then None else Some (concat shs))\<rparr>"

definition plugWith :: "bytes list \<Rightarrow> MediatorPlugin" where
  "plugWith shs = examplePlugin\<lparr>toTBLSRecoverBuf := [(medA, [(replicate 32 9, shs)])]\<rparr>"

abbreviation exampleDag :: "db iDag" where
  "exampleDag \<equiv> dagIface letters letterOps exampleGen"

lemma example_ops:
  "initTBLSRecoverBuf exampleDag exampleStart medA (replicate 32 9) examplePlugin = Inr (plugWith [])"
  "addToTBLSRecoverBuf (Some signedUnit) x (plugWith shs) = Inr (plugWith (shs @ [x]), Some unitKey)"
proof -
  note c = dag_threshold [OF example_times(3), where gen = exampleGen]
  show "initTBLSRecoverBuf exampleDag exampleStart medA (replicate 32 9) examplePlugin = Inr (plugWith [])"
    by (simp add: initTBLSRecoverBuf_def c examplePlugin_def plugWith_def newSigShareSet_def)
  have "UnitAuthor signedUnit = medA" "UnitHash signedUnit = replicate 32 9"
    by (simp_all add: UnitAuthor_def signedUnit_def exampleUnit_def)
  then show "addToTBLSRecoverBuf (Some signedUnit) x (plugWith shs) = Inr (plugWith (shs @ [x]), Some unitKey)"
    by (simp add: addToTBLSRecoverBuf_def Let_def plugWith_def setBuf_def appendShare_def unitKey_def)
qed

definition sharesState :: "bytes \<Rightarrow> bytes \<Rightarrow> tblsState" where
  "sharesState x y = \<lparr>plug = plugWith [x, y], tasks = [unitKey, unitKey], made = [unitKey], shareLog = [(unitKey, x), (unitKey, y)], sent = []\<rparr>"

lemma example_reach: "tblsReach exampleDag exampleStart ts examplePlugin (sharesState x y)"
proof -
  let ?R = "tblsReach exampleDag exampleStart ts examplePlugin"
  have "fresh examplePlugin" by (simp add: fresh_def examplePlugin_def)
  from tblsReach.step [OF tblsReach.start [OF this] tblsStep.make] example_ops(1)
  have r1: "?R \<lparr>plug = plugWith [], tasks = [], made = [unitKey], shareLog = [], sent = []\<rparr>" by (fastforce simp: unitKey_def)
  from tblsReach.step [OF r1 tblsStep.share] example_ops(2) [of x "[]"]
  have r2: "?R \<lparr>plug = plugWith [x], tasks = [unitKey], made = [unitKey], shareLog = [(unitKey, x)], sent = []\<rparr>" by fastforce
  from tblsReach.step [OF r2 tblsStep.share] example_ops(2) [of y "[x]"]
  show ?thesis unfolding sharesState_def by fastforce
qed

lemma example_counts: "GetActiveMediatorCount exampleProps = 2" "GetCurThreshold exampleProps = 2" "0 < GetActiveMediatorCount exampleProps"
  by (simp_all add: GetActiveMediatorCount_def exampleProps_def GetCurThreshold_def PalletOneIrreversibleThreshold_def PalletOne100Percent_def)

lemma example_local: "IsLocalActiveMediator exampleDag exampleStart medA examplePlugin = Inr True"
  using example_times(3)
  by (simp add: IsLocalActiveMediator_def isLocalMediator_def dagIface_def dagIsActiveMediator_def examplePlugin_def IsActiveMediator_def exampleProps_def)

lemma example_delivered: "delivered (medA, replicate 32 9) (sharesState x y) = [x, y]"
  by (simp add: delivered_def sharesState_def unitKey_def)

lemma example_recovers:
  assumes "recoverUnitTBLS exampleDag exampleStart ts medA (replicate 32 9) (plugWith [x, y]) = Inr (mp, Some g)"
  shows "tblsReach exampleDag exampleStart ts examplePlugin ((sharesState x y)\<lparr>plug := mp, tasks := [unitKey], sent := [(unitKey, g)]\<rparr>)"
proof -
  have t: "tasks (sharesState x y) = [] @ (medA, replicate 32 9) # [unitKey]" "plug (sharesState x y) = plugWith [x, y]" "sent (sharesState x y) = []"
    by (simp_all add: sharesState_def unitKey_def)
  from tblsReach.step [OF example_reach tblsStep.recovers [OF t(1)]] assms t(2,3) show ?thesis by (fastforce simp: unitKey_def)
qed

section \<open>Properties\<close>







end
