(* ===== verification/TrieEncoding.thy ===== *)
theory TrieEncoding
  imports Prelude
begin

text \<open>
  The key encodings of \<^verbatim>\<open>common/trie/encoding.go\<close>: KEYBYTES (the key itself), HEX (a byte per
  nibble with an optional terminator 16) and COMPACT (the hex prefix encoding of stored
  nodes).  A run-time panic is \<^const>\<open>None\<close>.  The lemmas show that COMPACT is a canonical codec
  of the HEX paths, and where the conversions panic.
\<close>

section \<open>The conversions\<close>

definition hasTerm :: "bytes \<Rightarrow> bool" where
  "hasTerm s \<longleftrightarrow> length s > 0 \<and> s ! (length s - 1) = 16"

text \<open>\<^verbatim>\<open>decodeNibbles\<close> overwrites the front of the slice it is given.\<close>

fun decodeNibbles :: "bytes \<Rightarrow> bytes \<Rightarrow> bytes option" where
  "decodeNibbles [] buf = Some buf"
| "decodeNibbles (a # b # ns) (_ # buf) = map_option (\<lambda>r. (push_bit 4 a OR b) # r) (decodeNibbles ns buf)"
| "decodeNibbles _ _ = None"

definition hexToCompact :: "bytes \<Rightarrow> bytes option" where
  "hexToCompact h =
    (let terminator = (if hasTerm h then 1 else 0 :: byte);
         h = (if hasTerm h then take (length h - 1) h else h);
         buf = replicate (length h div 2) 0;
         flag = push_bit 5 terminator in
     if odd (length h)
     then map_option (\<lambda>r. (flag OR push_bit 4 1 OR h ! 0) # r) (decodeNibbles (drop 1 h) buf)
     else map_option (\<lambda>r. flag # r) (decodeNibbles h buf))"

definition keybytesToHex :: "bytes \<Rightarrow> bytes" where
  "keybytesToHex str = concat (map (\<lambda>b. [b div 16, b mod 16]) str) @ [16]"

definition compactToHex :: "bytes \<Rightarrow> bytes option" where
  "compactToHex compact =
    (let base = keybytesToHex compact;
         base = take (length base - 1) base in
     if base = [] then None
     else let base = (if base ! 0 \<ge> 2 then base @ [16] else base);
              chop = 2 - (base ! 0 AND 1) in
          Some (drop (unat chop) base))"

definition hexToKeybytes :: "bytes \<Rightarrow> bytes option" where
  "hexToKeybytes h =
    (let h = (if hasTerm h then take (length h - 1) h else h) in
     if odd (length h) then None
     else decodeNibbles h (replicate ((length h + 1) div 2) 0))"

fun prefixLen :: "bytes \<Rightarrow> bytes \<Rightarrow> nat" where
  "prefixLen (a # as) (b # bs) = (if a \<noteq> b then 0 else Suc (prefixLen as bs))"
| "prefixLen _ _ = 0"

section \<open>Nibbles\<close>

definition nibbles :: "bytes \<Rightarrow> bool" where
  "nibbles xs \<longleftrightarrow> list_all (\<lambda>x. x < 16) xs"

text \<open>A HEX path, and a HEX path that ends in a value: the form of a whole key.\<close>

definition hexPath :: "bytes \<Rightarrow> bool" where
  "hexPath h \<longleftrightarrow> nibbles (if hasTerm h then butlast h else h)"

definition hexKey :: "bytes \<Rightarrow> bool" where
  "hexKey h \<longleftrightarrow> hasTerm h \<and> nibbles (butlast h)"

lemma nibbles_simps [simp]:
  "nibbles []"
  "nibbles (x # xs) \<longleftrightarrow> x < 16 \<and> nibbles xs"
  "nibbles (xs @ ys) \<longleftrightarrow> nibbles xs \<and> nibbles ys"
  by (simp_all add: nibbles_def)

lemma hasTerm_snoc [simp]: "hasTerm (xs @ [x]) \<longleftrightarrow> x = 16"
  by (simp add: hasTerm_def)

lemma hasTerm_iff: "hasTerm h \<longleftrightarrow> h \<noteq> [] \<and> last h = 16"
  by (cases h rule: rev_cases) (simp_all add: hasTerm_def)

lemma hasTerm_E: "hasTerm h \<Longrightarrow> (\<And>xs. h = xs @ [16] \<Longrightarrow> P) \<Longrightarrow> P"
  by (cases h rule: rev_cases) (simp_all add: hasTerm_def)

lemma nibbles_no_term: "nibbles h \<Longrightarrow> \<not> hasTerm h"
  by (cases h rule: rev_cases) (auto simp: hasTerm_def)

lemma hexPath_cases:
  assumes "hexPath h"
  obtains xs where "h = xs @ [16]" "nibbles xs" | "nibbles h"
  using assms by (auto simp: hexPath_def split: if_splits elim: hasTerm_E)

lemma join_nibbles: "push_bit 4 (b div 16) OR (b mod 16) = (b :: byte)"
proof -
  have "b div 16 = drop_bit 4 b" "b mod 16 = take_bit 4 b" by (simp_all add: drop_bit_eq_div take_bit_eq_mod)
  moreover have "push_bit 4 (drop_bit 4 b) OR take_bit 4 b = b"
    by (rule bit_eqI) (auto simp: bit_simps)
  ultimately show ?thesis by simp
qed

lemma low_nibble: "(b :: byte) < 16 \<Longrightarrow> take_bit 4 b = b"
  by (simp add: take_bit_eq_mod word_mod_less_divisor mod_word_less)

lemma split_nibbles:
  fixes a b :: byte
  assumes "a < 16" and "b < 16"
  shows "(push_bit 4 a OR b) div 16 = a" and "(push_bit 4 a OR b) mod 16 = b"
proof -
  let ?c = "push_bit 4 a OR b"
  have a: "\<not> bit a n" if "4 \<le> n" for n using arg_cong [OF low_nibble [OF assms(1)], of "\<lambda>w. bit w n"] that by (simp add: bit_take_bit_iff)
  have b: "\<not> bit b n" if "4 \<le> n" for n using arg_cong [OF low_nibble [OF assms(2)], of "\<lambda>w. bit w n"] that by (simp add: bit_take_bit_iff)
  have "drop_bit 4 ?c = a" using a b by (intro bit_eqI) (auto simp: bit_simps intro: not_le_imp_less)
  then show "?c div 16 = a" by (simp add: drop_bit_eq_div)
  have "take_bit 4 ?c = b" using b by (intro bit_eqI) (auto simp: bit_simps not_less [symmetric])
  then show "?c mod 16 = b" by (simp add: take_bit_eq_mod)
qed

section \<open>Keys and paths\<close>

definition unpack :: "bytes \<Rightarrow> bytes" where
  "unpack str = concat (map (\<lambda>b. [b div 16, b mod 16]) str)"

lemma unpack_simps [simp]: "unpack [] = []" "unpack (b # bs) = b div 16 # b mod 16 # unpack bs"
  by (simp_all add: unpack_def)

lemma length_unpack [simp]: "length (unpack str) = 2 * length str"
  by (induction str) auto

lemma nibble_bounds: "(b :: byte) div 16 < 16" "b mod 16 < 16"
proof -
  have "unat b div 16 < 16" by (rule less_mult_imp_div_less) simp
  then show "b div 16 < 16" by (simp add: word_less_nat_alt unat_div)
  show "b mod 16 < 16" by (rule word_mod_less_divisor) simp
qed

lemma nibbles_unpack [simp]: "nibbles (unpack str)"
  by (induction str) (auto simp: nibble_bounds)

lemma keybytesToHex_unpack: "keybytesToHex str = unpack str @ [16]"
  by (simp add: keybytesToHex_def unpack_def)

lemma hexKey_keybytes [simp]: "hexKey (keybytesToHex str)"
  by (simp add: hexKey_def keybytesToHex_unpack)

lemma decodeNibbles_unpack:
  "length buf = length str \<Longrightarrow> decodeNibbles (unpack str) buf = Some str"
proof (induction str arbitrary: buf)
  case (Cons b str)
  then show ?case by (cases buf) (auto simp: join_nibbles)
qed simp

lemma unpack_decodeNibbles:
  "nibbles h \<Longrightarrow> even (length h) \<Longrightarrow> length h = 2 * length buf \<Longrightarrow> \<exists>c. decodeNibbles h buf = Some c \<and> unpack c = h \<and> length c = length buf"
proof (induction h buf rule: decodeNibbles.induct)
  case (2 a b ns x buf)
  then show ?case by (auto simp: split_nibbles)
qed auto

lemma hexToKeybytes_keybytes: "hexToKeybytes (keybytesToHex k) = Some k"
  by (simp add: hexToKeybytes_def keybytesToHex_unpack decodeNibbles_unpack)

lemma keybytesToHex_inj [simp]: "keybytesToHex a = keybytesToHex b \<longleftrightarrow> a = b"
  using hexToKeybytes_keybytes by (metis option.inject)

section \<open>The compact encoding\<close>

text \<open>The compact keys the encoder writes: the flag nibble is at most 3, and the nibble after
  it is a padding of 0 when the path has even length.\<close>

definition canonicalKey :: "bytes \<Rightarrow> bool" where
  "canonicalKey c \<longleftrightarrow> c \<noteq> [] \<and> hd c < 0x40 \<and> (\<not> bit (hd c) 4 \<longrightarrow> hd c mod 16 = 0)"

lemma flag_high: "(f :: byte) < 0x40 \<longleftrightarrow> f div 16 < 4" "bit (f :: byte) 4 \<longleftrightarrow> odd (f div 16)"
proof -
  show "f < 0x40 \<longleftrightarrow> f div 16 < 4" by (simp add: word_less_nat_alt unat_div div_less_iff_less_mult)
  have "f div 16 = drop_bit 4 f" by (simp add: drop_bit_eq_div)
  then show "bit f 4 \<longleftrightarrow> odd (f div 16)" by (simp add: bit_iff_odd_drop_bit)
qed

lemma flag_cases:
  assumes "(f :: byte) < 0x40"
  obtains "f div 16 = 0" | "f div 16 = 1" | "f div 16 = 2" | "f div 16 = 3"
proof -
  have "unat (f div 16) < 4" using assms unfolding flag_high by (simp add: word_less_nat_alt)
  then have "unat (f div 16) = 0 \<or> unat (f div 16) = 1 \<or> unat (f div 16) = 2 \<or> unat (f div 16) = 3" by linarith
  then show thesis using that by (auto simp: word_unat_eq_iff)
qed

lemma compactToHex_Cons:
  "compactToHex (f # c) =
    Some (drop (unat (2 - (f div 16 AND 1))) (f div 16 # f mod 16 # unpack c @ (if f div 16 \<ge> 2 then [16] else [])))"
  by (simp add: compactToHex_def keybytesToHex_unpack Let_def)

lemma compactToHex_flag:
  "n < 16 \<Longrightarrow> compactToHex ((push_bit 4 0 OR n) # c) = Some (unpack c)"
  "n < 16 \<Longrightarrow> compactToHex ((push_bit 4 1 OR n) # c) = Some (n # unpack c)"
  "n < 16 \<Longrightarrow> compactToHex ((push_bit 4 2 OR n) # c) = Some (unpack c @ [16])"
  "n < 16 \<Longrightarrow> compactToHex ((push_bit 4 3 OR n) # c) = Some (n # unpack c @ [16])"
  unfolding compactToHex_Cons by (simp_all add: split_nibbles word_le_nat_alt del: push_bit_of_0 push_bit_of_1 push_bit_numeral)

lemma hexToCompact_unpack:
  "hexToCompact (unpack c) = Some (0 # c)"
  "hexToCompact (unpack c @ [16]) = Some (push_bit 4 2 # c)"
  "n < 16 \<Longrightarrow> hexToCompact (n # unpack c) = Some ((push_bit 4 1 OR n) # c)"
  "n < 16 \<Longrightarrow> hexToCompact (n # unpack c @ [16]) = Some ((push_bit 4 3 OR n) # c)"
proof -
  note D = decodeNibbles_unpack [of "replicate (length c) 0" c, simplified]
  have n: "\<not> hasTerm (unpack c)" by (rule nibbles_no_term) simp
  show "hexToCompact (unpack c) = Some (0 # c)" using n D by (simp add: hexToCompact_def)
  show "hexToCompact (unpack c @ [16]) = Some (push_bit 4 2 # c)" using D by (simp add: hexToCompact_def)
  assume n: "n < 16"
  then have "\<not> hasTerm (n # unpack c)" by (intro nibbles_no_term) simp
  then show "hexToCompact (n # unpack c) = Some ((push_bit 4 1 OR n) # c)" using D by (simp add: hexToCompact_def)
  have "hasTerm (n # unpack c @ [16])" using hasTerm_snoc [of "n # unpack c" 16] by simp
  then show "hexToCompact (n # unpack c @ [16]) = Some ((push_bit 4 3 OR n) # c)" using D by (simp add: hexToCompact_def or.assoc [symmetric])
qed

lemma nibbles_unpack_cases:
  assumes "nibbles h"
  obtains c where "h = unpack c" | n c where "n < 16" "h = n # unpack c"
proof (cases "even (length h)")
  case True
  then obtain c where "unpack c = h" using unpack_decodeNibbles [OF assms, of "replicate (length h div 2) 0"] by auto
  then show thesis using that by blast
next
  case False
  then obtain n h' where h: "h = n # h'" by (cases h) auto
  then obtain c where "unpack c = h'" using assms False unpack_decodeNibbles [of h' "replicate (length h' div 2) 0"] by auto
  then show thesis using that h assms by auto
qed

lemma canonical_flags:
  "canonicalKey (0 # c)" "canonicalKey (push_bit 4 2 # c)"
  "n < 16 \<Longrightarrow> canonicalKey ((push_bit 4 1 OR n) # c)" "n < 16 \<Longrightarrow> canonicalKey ((push_bit 4 3 OR n) # c)"
proof -
  show "canonicalKey (0 # c)" "canonicalKey (push_bit 4 2 # c)" by (simp_all add: canonicalKey_def)
  assume n: "n < 16"
  then show "canonicalKey ((push_bit 4 1 OR n) # c)" "canonicalKey ((push_bit 4 3 OR n) # c)"
    unfolding canonicalKey_def flag_high
    by (simp_all add: split_nibbles word_less_nat_alt del: push_bit_of_1 push_bit_numeral)
qed

lemma compact_roundtrip:
  assumes "hexPath h"
  shows "\<exists>c. hexToCompact h = Some c \<and> canonicalKey c \<and> compactToHex c = Some h"
  using assms
proof (cases rule: hexPath_cases)
  case (1 xs)
  from 1(2) show ?thesis
  proof (cases rule: nibbles_unpack_cases)
    case (1 c)
    then show ?thesis using \<open>h = _\<close> hexToCompact_unpack(2) [of c] canonical_flags(2) [of c] compactToHex_flag(3) [of 0 c] by simp
  next
    case (2 n c)
    then show ?thesis using \<open>h = _\<close> hexToCompact_unpack(4) [of n c] canonical_flags(4) [of n c] compactToHex_flag(4) [of n c] by simp
  qed
next
  case 2
  then show ?thesis
  proof (cases rule: nibbles_unpack_cases)
    case (1 c)
    then show ?thesis using hexToCompact_unpack(1) [of c] canonical_flags(1) [of c] compactToHex_flag(1) [of 0 c] by simp
  next
    case (2 n c)
    then show ?thesis using hexToCompact_unpack(3) [of n c] canonical_flags(3) [of n c] compactToHex_flag(2) [of n c] by simp
  qed
qed

lemma compact_canonical:
  assumes "canonicalKey c" and "compactToHex c = Some h"
  shows "hexPath h \<and> hexToCompact h = Some c"
proof -
  obtain f r where c: "c = f # r" and f: "f < 0x40" "even (f div 16) \<longrightarrow> f mod 16 = 0"
    using assms(1) by (cases c) (auto simp: canonicalKey_def flag_high)
  note j = join_nibbles [of f] and n = nibble_bounds(2) [of f]
  have p: "\<not> hasTerm (unpack r)" "\<not> hasTerm (f mod 16 # unpack r)" "hasTerm (f mod 16 # unpack r @ [16])"
    using n hasTerm_snoc [of "f mod 16 # unpack r" 16] by (auto intro!: nibbles_no_term)
  show ?thesis using f(1)
  proof (cases rule: flag_cases)
    case 1
    then show ?thesis using assms(2) c f j p nibbles_unpack [of r] hexToCompact_unpack(1) [of r] by (simp add: compactToHex_Cons hexPath_def)
  next
    case 2
    then show ?thesis using assms(2) c f j p nibbles_unpack [of r] n hexToCompact_unpack(3) [OF n, of r]
      by (auto simp: compactToHex_Cons hexPath_def word_le_nat_alt)
  next
    case 3
    then show ?thesis using assms(2) c f j p nibbles_unpack [of r] hexToCompact_unpack(2) [of r]
      by (auto simp: compactToHex_Cons hexPath_def)
  next
    case 4
    then show ?thesis using assms(2) c f j p nibbles_unpack [of r] n hexToCompact_unpack(4) [OF n, of r]
      by (auto simp: compactToHex_Cons hexPath_def butlast_append word_le_nat_alt)
  qed
qed

interpretation compactKeys: canonical_codec hexPath "\<lambda>h. the (hexToCompact h)"
  "\<lambda>c. if canonicalKey c then compactToHex c else None"
proof unfold_locales
  show "(if canonicalKey (the (hexToCompact h)) then compactToHex (the (hexToCompact h)) else None) = Some h"
    if "hexPath h" for h using compact_roundtrip [OF that] by auto
  show "the (hexToCompact h) = c \<and> hexPath h" if "(if canonicalKey c then compactToHex c else None) = Some h" for c h
    using that compact_canonical [of c h] by (auto split: if_splits)
qed

section \<open>Properties\<close>

text \<open>C14. The key encodings lose nothing: a key comes back from its HEX form, every HEX path has a
  COMPACT form from which it comes back, a COMPACT key in canonical form is the one its path
  is written as, and the decoder panics on the empty COMPACT key only.\<close>

theorem key_encodings:
  "hexToKeybytes (keybytesToHex k) = Some k \<and>
   (hexPath h \<longrightarrow> (\<exists>c. hexToCompact h = Some c \<and> canonicalKey c \<and> compactToHex c = Some h)) \<and>
   (canonicalKey c \<and> compactToHex c = Some h \<longrightarrow> hexPath h \<and> hexToCompact h = Some c) \<and>
   (compactToHex c = None \<longleftrightarrow> c = [])"
proof -
  have "compactToHex c = None \<longleftrightarrow> c = []"
    by (cases c) (simp_all add: compactToHex_Cons, simp add: compactToHex_def keybytesToHex_def)
  then show ?thesis using hexToKeybytes_keybytes compact_roundtrip compact_canonical by blast
qed

theorem key_encodings_witness:
  "hexToKeybytes (keybytesToHex [0xAB, 0x0C]) = Some [0xAB, 0x0C] \<and>
   (\<exists>c. hexToCompact [0xA, 0xB, 0xC, 16] = Some c \<and> canonicalKey c \<and> compactToHex c = Some [0xA, 0xB, 0xC, 16]) \<and>
   hexToCompact [0xA, 0xB, 0xC, 16] = Some [0x3A, 0xBC] \<and> compactToHex [] = None"
proof -
  have h: "hexPath [0xA, 0xB, 0xC, 16]" by (simp add: hexPath_def hasTerm_def)
  have c: "canonicalKey [0x3A, 0xBC]" "compactToHex [0x3A, 0xBC] = Some [0xA, 0xB, 0xC, 16]"
    by (simp add: canonicalKey_def, simp add: compactToHex_def keybytesToHex_def Let_def)
  from key_encodings [of "[0xAB, 0x0C]" "[0xA, 0xB, 0xC, 16]" "[0x3A, 0xBC]"] key_encodings [where c = "[]"] h c
  show ?thesis by blast
qed

end
