(* ===== verification/TrieNode.thy ===== *)
theory TrieNode
  imports TrieEncoding RlpEncode
begin

text \<open>
  The nodes of a trie (\<^verbatim>\<open>common/trie/node.go\<close>), the decoder of stored nodes, and their RLP
  encoding as the values the encoder of \<^verbatim>\<open>common/rlp\<close> is given.  The decoder is shown to end,
  to read back what is written for a collapsed node, and to panic on a node with an empty
  compact key.
\<close>

section \<open>Nodes\<close>

record nodeFlag =
  hash :: "bytes option"
  gen :: "16 word"
  dirty :: bool

text \<open>The interface \<^verbatim>\<open>node\<close> with its implementations; \<open>NilNode\<close> is the nil interface value.
  The children of a full node are an array of 17.\<close>

datatype node =
    NilNode
  | hashNode bytes
  | valueNode bytes
  | shortNode bytes node nodeFlag
  | fullNode "node list" nodeFlag

definition flagCanUnload :: "nodeFlag \<Rightarrow> 16 word \<Rightarrow> 16 word \<Rightarrow> bool" where
  "flagCanUnload f cachegen cachelimit \<longleftrightarrow> \<not> dirty f \<and> cachegen - gen f \<ge> cachelimit"

fun canUnload :: "node \<Rightarrow> 16 word \<Rightarrow> 16 word \<Rightarrow> bool" where
  "canUnload (fullNode _ f) g l = flagCanUnload f g l"
| "canUnload (shortNode _ _ f) g l = flagCanUnload f g l"
| "canUnload _ g l = False"

fun cache :: "node \<Rightarrow> bytes option \<times> bool" where
  "cache (fullNode _ f) = (hash f, dirty f)"
| "cache (shortNode _ _ f) = (hash f, dirty f)"
| "cache _ = (None, True)"

section \<open>Decoding\<close>

text \<open>An element of the path a decoding error is wrapped with, and the errors: those of the
  RLP package as they are or with a message, the two size checks of references, the wrapped
  error, and a panic.\<close>

datatype pathElem = Named string | Index nat

datatype decErr =
    RlpE rerr
  | ErrDecode rerr
  | ErrElements int
  | ErrValueNode rerr
  | ErrOversized nat
  | ErrStringSize nat
  | decodeError decErr "pathElem list"
  | DecPanic
  | DecRuns

fun wrapError :: "decErr \<Rightarrow> pathElem \<Rightarrow> decErr" where
  "wrapError DecPanic ctx = DecPanic"
| "wrapError DecRuns ctx = DecRuns"
| "wrapError (decodeError e stack) ctx = decodeError e (stack @ [ctx])"
| "wrapError e ctx = decodeError e [ctx]"

text \<open>A panic inside the RLP package stays a panic.\<close>

definition rlpErr :: "(rerr \<Rightarrow> decErr) \<Rightarrow> rerr \<Rightarrow> decErr" where
  "rlpErr f e = (if e = RlpPanic then DecPanic else f e)"

text \<open>\<^verbatim>\<open>c, _ := rlp.CountValues(elems)\<close>: the count is 0 when there is an error.\<close>

definition countElems :: "bytes \<Rightarrow> decErr + int" where
  "countElems elems =
    (case CountValues elems of
       None \<Rightarrow> Inl DecRuns
     | Some (Inl e) \<Rightarrow> if e = RlpPanic then Inl DecPanic else Inr 0
     | Some (Inr c) \<Rightarrow> Inr c)"

abbreviation loadedFlag :: "bytes option \<Rightarrow> 16 word \<Rightarrow> nodeFlag" where
  "loadedFlag h g \<equiv> \<lparr>hash = h, gen = g, dirty = False\<rparr>"

abbreviation hashLen :: nat where "hashLen \<equiv> 32"

lemma slice_lengths:
  assumes "slice b lo hi = Inr c" shows "length c + unat lo \<le> length b"
  using assms by (auto simp: slice_def word_le_nat_alt split: if_splits)

lemma readKind_list_tag:
  assumes "readKindRaw b = Inr (List, ts, cs)" shows "0 < unat ts"
proof -
  have "(ucast (x - 0xF7) + 1 :: uint64) \<noteq> 0" for x :: byte
  proof
    assume "(ucast (x - 0xF7) + 1 :: uint64) = 0"
    then have "(ucast (x - 0xF7) :: uint64) = - 1" by (simp add: add_eq_0_iff2)
    then have "unat (x - 0xF7) = unat (- 1 :: uint64)" by (metis byte_up)
    moreover have "unat (- 1 :: uint64) = 18446744073709551615" by (simp add: unsigned_minus_1_eq_mask mask_eq_exp_minus_1)
    ultimately show False using unat_byte_less [of "x - 0xF7"] by linarith
  qed
  then show ?thesis using assms
    by (auto simp: readKindRaw_def bindR_Inr unat_gt_0 Let_def split: list.splits if_splits)
qed

lemma Split_lengths:
  assumes "Split b = Inr (k, c, r)"
  shows "length r \<le> length b" and "k = List \<Longrightarrow> length c < length b"
proof -
  obtain ts cs where k: "readKindRaw b = Inr (k, ts, cs)" and s: "slice b ts (ts + cs) = Inr c" "sliceFrom b (ts + cs) = Inr r"
    using assms by (auto simp: Split_def bindR_Inr)
  show "length r \<le> length b" using s(2) by (auto simp: sliceFrom_def split: if_splits)
  show "length c < length b" if "k = List"
    using slice_lengths [OF s(1)] readKind_list_tag [of b ts cs] k that by simp
qed

lemma SplitString_lengths: "SplitString b = Inr (c, r) \<Longrightarrow> length r \<le> length b"
  by (auto simp: SplitString_def bindR_Inr dest: Split_lengths split: if_splits)

lemma SplitList_lengths: "SplitList b = Inr (c, r) \<Longrightarrow> length c < length b"
  by (auto simp: SplitList_def bindR_Inr dest: Split_lengths split: if_splits)

text \<open>The decoders of a reference, of a short and of a full node, over the decoder \<open>dec\<close> of an
  embedded node (\<^verbatim>\<open>decodeNode(nil, buf, cachegen)\<close>).\<close>

definition decodeRef :: "(bytes \<Rightarrow> decErr + node) \<Rightarrow> bytes \<Rightarrow> decErr + node \<times> bytes" where
  "decodeRef dec buf =
    (case Split buf of
       Inl e \<Rightarrow> Inl (rlpErr RlpE e)
     | Inr (kind, val, rest) \<Rightarrow>
        if kind = List
        then if length buf - length rest > hashLen then Inl (ErrOversized (length buf - length rest))
             else (case dec buf of Inl e \<Rightarrow> Inl e | Inr n \<Rightarrow> Inr (n, rest))
        else if kind = String \<and> length val = 0 then Inr (NilNode, rest)
        else if kind = String \<and> length val = 32 then Inr (hashNode val, rest)
        else Inl (ErrStringSize (length val)))"

definition decodeShort :: "(bytes \<Rightarrow> decErr + node) \<Rightarrow> bytes option \<Rightarrow> bytes \<Rightarrow> 16 word \<Rightarrow> decErr + node" where
  "decodeShort dec h elems cachegen =
    (case SplitString elems of
       Inl e \<Rightarrow> Inl (rlpErr RlpE e)
     | Inr (kbuf, rest) \<Rightarrow>
        (case compactToHex kbuf of
           None \<Rightarrow> Inl DecPanic
         | Some key \<Rightarrow>
            if hasTerm key
            then (case SplitString rest of
                    Inl e \<Rightarrow> Inl (rlpErr ErrValueNode e)
                  | Inr (val, _) \<Rightarrow> Inr (shortNode key (valueNode val) (loadedFlag h cachegen)))
            else (case decodeRef dec rest of
                    Inl e \<Rightarrow> Inl (wrapError e (Named ''val''))
                  | Inr (r, _) \<Rightarrow> Inr (shortNode key r (loadedFlag h cachegen)))))"

text \<open>The loop of \<^verbatim>\<open>decodeFull\<close> over the children \<open>i, ..., i + k - 1\<close>.\<close>

fun decodeChildren :: "(bytes \<Rightarrow> decErr + node) \<Rightarrow> nat \<Rightarrow> nat \<Rightarrow> bytes \<Rightarrow> decErr + node list \<times> bytes" where
  "decodeChildren dec i 0 elems = Inr ([], elems)"
| "decodeChildren dec i (Suc k) elems =
    (case decodeRef dec elems of
       Inl e \<Rightarrow> Inl (wrapError e (Index i))
     | Inr (cld, rest) \<Rightarrow>
        (case decodeChildren dec (i + 1) k rest of Inl e \<Rightarrow> Inl e | Inr (cs, r) \<Rightarrow> Inr (cld # cs, r)))"

definition decodeFull :: "(bytes \<Rightarrow> decErr + node) \<Rightarrow> bytes option \<Rightarrow> bytes \<Rightarrow> 16 word \<Rightarrow> decErr + node" where
  "decodeFull dec h elems cachegen =
    (case decodeChildren dec 0 16 elems of
       Inl e \<Rightarrow> Inl e
     | Inr (cs, elems') \<Rightarrow>
        (case SplitString elems' of
           Inl e \<Rightarrow> Inl (rlpErr RlpE e)
         | Inr (val, _) \<Rightarrow>
            Inr (fullNode (cs @ [if length val > 0 then valueNode val else NilNode]) (loadedFlag h cachegen))))"

text \<open>\<^verbatim>\<open>decodeNode\<close> with a bound on the nesting of embedded nodes.  The bound is the length of the
  input: an embedded node lies inside the content of the list that embeds it.\<close>

fun decodeNested :: "nat \<Rightarrow> bytes option \<Rightarrow> bytes \<Rightarrow> 16 word \<Rightarrow> decErr + node" where
  "decodeNested 0 h buf cachegen = (if length buf = 0 then Inl (RlpE ErrUnexpectedEOF) else Inl DecRuns)"
| "decodeNested (Suc d) h buf cachegen =
    (if length buf = 0 then Inl (RlpE ErrUnexpectedEOF)
     else case SplitList buf of
         Inl e \<Rightarrow> Inl (rlpErr ErrDecode e)
       | Inr (elems, _) \<Rightarrow>
          (case countElems elems of
             Inl e \<Rightarrow> Inl e
           | Inr c \<Rightarrow>
              if c = 2
              then (case decodeShort (\<lambda>b. decodeNested d None b cachegen) h elems cachegen of
                      Inl e \<Rightarrow> Inl (wrapError e (Named ''short'')) | Inr n \<Rightarrow> Inr n)
              else if c = 17
              then (case decodeFull (\<lambda>b. decodeNested d None b cachegen) h elems cachegen of
                      Inl e \<Rightarrow> Inl (wrapError e (Named ''full'')) | Inr n \<Rightarrow> Inr n)
              else Inl (ErrElements c)))"

definition decodeNode :: "bytes option \<Rightarrow> bytes \<Rightarrow> 16 word \<Rightarrow> decErr + node" where
  "decodeNode h buf cachegen = decodeNested (length buf) h buf cachegen"

section \<open>The bound is never reached\<close>

lemma decodeRef_cong:
  assumes "\<And>b. length b \<le> length buf \<Longrightarrow> dec b = dec' b"
  shows "decodeRef dec buf = decodeRef dec' buf"
  using assms by (simp add: decodeRef_def split: sum.split)

lemma decodeRef_length: "decodeRef dec buf = Inr (n, r) \<Longrightarrow> length r \<le> length buf"
  by (auto simp: decodeRef_def split: sum.splits if_splits dest: Split_lengths)

lemma decodeShort_cong:
  assumes "\<And>b. length b \<le> length buf \<Longrightarrow> dec b = dec' b"
  shows "decodeShort dec h buf g = decodeShort dec' h buf g"
  using assms decodeRef_cong [of _ dec dec']
  by (auto simp: decodeShort_def split: sum.split option.split dest!: SplitString_lengths)

lemma decodeChildren_cong:
  "(\<And>b. length b \<le> length buf \<Longrightarrow> dec b = dec' b) \<Longrightarrow> decodeChildren dec i k buf = decodeChildren dec' i k buf"
proof (induction k arbitrary: i buf)
  case (Suc k)
  have r: "decodeRef dec buf = decodeRef dec' buf" by (rule decodeRef_cong) (rule Suc.prems)
  have "decodeChildren dec (i + 1) k rest = decodeChildren dec' (i + 1) k rest" if "decodeRef dec' buf = Inr (n, rest)" for n rest
    using decodeRef_length [OF that] by (intro Suc.IH Suc.prems) simp
  then show ?case by (auto simp: r split: sum.split)
qed simp

lemma decodeFull_cong:
  assumes "\<And>b. length b \<le> length buf \<Longrightarrow> dec b = dec' b"
  shows "decodeFull dec h buf g = decodeFull dec' h buf g"
  using decodeChildren_cong [of buf dec dec' 0 16] assms by (simp add: decodeFull_def)

lemma decodeNested_enough: "length buf \<le> d \<Longrightarrow> decodeNested d h buf g = decodeNested (length buf) h buf g"
proof (induction "length buf" arbitrary: buf d h rule: less_induct)
  case less
  show ?case
  proof (cases buf)
    case Nil
    then show ?thesis by (cases d) auto
  next
    case (Cons x xs)
    then obtain d' where d: "d = Suc d'" "length xs \<le> d'" using less.prems by (cases d) auto
    have eq: "decodeNested d' None b g = decodeNested (length xs) None b g" if "length b \<le> length xs" for b
      using less.hyps [of b d' None] less.hyps [of b "length xs" None] that Cons d by simp
    have "decodeShort (\<lambda>b. decodeNested d' None b g) h elems g = decodeShort (\<lambda>b. decodeNested (length xs) None b g) h elems g"
      "decodeFull (\<lambda>b. decodeNested d' None b g) h elems g = decodeFull (\<lambda>b. decodeNested (length xs) None b g) h elems g"
      if "SplitList buf = Inr (elems, r)" for elems r
      using SplitList_lengths [OF that] Cons by (auto intro!: decodeShort_cong decodeFull_cong eq)
    then show ?thesis unfolding d(1) by (auto simp: Cons split: sum.split)
  qed
qed

text \<open>The equation of \<^verbatim>\<open>decodeNode\<close> as the code has it.\<close>

abbreviation embedded :: "16 word \<Rightarrow> bytes \<Rightarrow> decErr + node" where
  "embedded g \<equiv> (\<lambda>b. decodeNode None b g)"

lemma decodeNode_unfold:
  "decodeNode h buf cachegen =
    (if length buf = 0 then Inl (RlpE ErrUnexpectedEOF)
     else case SplitList buf of
         Inl e \<Rightarrow> Inl (rlpErr ErrDecode e)
       | Inr (elems, _) \<Rightarrow>
          (case countElems elems of
             Inl e \<Rightarrow> Inl e
           | Inr c \<Rightarrow>
              if c = 2
              then (case decodeShort (embedded cachegen) h elems cachegen of
                      Inl e \<Rightarrow> Inl (wrapError e (Named ''short'')) | Inr n \<Rightarrow> Inr n)
              else if c = 17
              then (case decodeFull (embedded cachegen) h elems cachegen of
                      Inl e \<Rightarrow> Inl (wrapError e (Named ''full'')) | Inr n \<Rightarrow> Inr n)
              else Inl (ErrElements c)))"
proof (cases buf)
  case (Cons x xs)
  have eq: "decodeNested (length xs) None b cachegen = decodeNode None b cachegen" if "length b \<le> length xs" for b
    using decodeNested_enough [OF that] by (simp add: decodeNode_def)
  have "decodeShort (\<lambda>b. decodeNested (length xs) None b cachegen) h elems cachegen = decodeShort (embedded cachegen) h elems cachegen"
    "decodeFull (\<lambda>b. decodeNested (length xs) None b cachegen) h elems cachegen = decodeFull (embedded cachegen) h elems cachegen"
    if "SplitList buf = Inr (elems, r)" for elems r
    using SplitList_lengths [OF that] Cons by (auto intro!: decodeShort_cong decodeFull_cong eq)
  then show ?thesis by (auto simp: Cons decodeNode_def [of h "x # xs"] split: sum.split)
qed (simp add: decodeNode_def)

text \<open>A node with an empty compact key makes the decoder panic.\<close>

lemma decodeNode_empty_key: "decodeNode h [0xC2, 0x80, 0x80] g = Inl DecPanic"
proof -
  have "countLoop i [] = Some (Inr i)" for i by (subst countLoop.simps) simp
  moreover have "countLoop i (0x80 # b) = countLoop (i + 1) b" if "length b < 2" for i b
    by (subst countLoop.simps) (use that in \<open>simp add: readKindRaw_def sliceFrom_def Let_def\<close>)
  ultimately have "CountValues [0x80, 0x80] = Some (Inr 2)" by (simp add: CountValues_def)
  then show ?thesis
    by (subst decodeNode_unfold) (simp add: SplitList_def Split_def SplitString_def readKindRaw_def slice_def sliceFrom_def countElems_def
        decodeShort_def compactToHex_def keybytesToHex_def Let_def)
qed

section \<open>Encoding\<close>

text \<open>A node as the reflected interface value the encoder is given.  A short node is a pointer
  to a struct of which \<^verbatim>\<open>Key\<close> and \<^verbatim>\<open>Val\<close> are exported; the \<^verbatim>\<open>EncodeRLP\<close> of a full node hands its
  array of children to the encoder.\<close>

fun nodeVal :: "node \<Rightarrow> rval" where
  "nodeVal NilNode = VIface None"
| "nodeVal (hashNode h) = VIface (Some (TBytes, VBytes h))"
| "nodeVal (valueNode v) = VIface (Some (TBytes, VBytes v))"
| "nodeVal (shortNode k v f) =
    VIface (Some (TPtr (TStruct [(TBytes, noTags), (TInterface, noTags)]), VPtr (Some (VList [VBytes k, nodeVal v]))))"
| "nodeVal (fullNode cs f) = VIface (Some (TArray 17 TInterface, VList (map nodeVal cs)))"

definition encodeNode :: "node \<Rightarrow> rerr + bytes" where
  "encodeNode n = EncodeToBytes TInterface (nodeVal n)"

fun nodeEnc :: "node \<Rightarrow> bytes" where
  "nodeEnc NilNode = encLst []"
| "nodeEnc (hashNode h) = encStr h"
| "nodeEnc (valueNode v) = encStr v"
| "nodeEnc (shortNode k v f) = encLst (encStr k @ nodeEnc v)"
| "nodeEnc (fullNode cs f) = encLst (concat (map nodeEnc cs))"

lemma encElems_nodes:
  "(\<And>n. n \<in> set ns \<Longrightarrow> encSpec TInterface noTags (nodeVal n) = Some (nodeEnc n)) \<Longrightarrow>
    encElems TInterface (map nodeVal ns) = Some (concat (map nodeEnc ns))"
  by (induction ns) auto

lemma encSpec_node: "encSpec TInterface noTags (nodeVal n) = Some (nodeEnc n)"
  by (induction n) (auto simp: encElems_nodes)

lemma encodeNode_eq: "length (nodeEnc n) < 2 ^ 63 \<Longrightarrow> encodeNode n = Inr (nodeEnc n)"
  unfolding encodeNode_def by (rule EncodeToBytes_spec [OF _ encSpec_node]) simp_all

section \<open>Reading back a stored node\<close>

text \<open>The form in which a node is stored: compact keys, empty strings for the missing children,
  hashes of 32 bytes or embedded nodes of less than 32 bytes for the others.  The flag tells
  a reference inside another node from a node stored by itself.\<close>

fun isValue :: "node \<Rightarrow> bool" where
  "isValue (valueNode v) \<longleftrightarrow> v \<noteq> []"
| "isValue _ \<longleftrightarrow> False"

function stored :: "bool \<Rightarrow> node \<Rightarrow> bool" where
  "stored r NilNode \<longleftrightarrow> False"
| "stored r (hashNode h) \<longleftrightarrow> r \<and> length h = 32"
| "stored r (valueNode v) \<longleftrightarrow> r \<and> v = []"
| "stored r (shortNode c v f) \<longleftrightarrow>
    (r \<longrightarrow> length (nodeEnc (shortNode c v f)) < 32) \<and> canonicalKey c \<and>
    (if hasTerm (the (compactToHex c)) then isValue v else stored True v)"
| "stored r (fullNode cs f) \<longleftrightarrow>
    (r \<longrightarrow> length (nodeEnc (fullNode cs f)) < 32) \<and> length cs = 17 \<and>
    (\<forall>c \<in> set (take 16 cs). stored True c) \<and> (\<exists>v \<in> set (drop 16 cs). v = valueNode [] \<or> isValue v)"
  by pat_completeness auto
termination
  by (relation "measure (\<lambda>(_, n). size n)")
    (auto dest!: in_set_takeD intro: size_list_estimation' simp: less_Suc_eq_le)

fun reload :: "16 word \<Rightarrow> bytes option \<Rightarrow> node \<Rightarrow> node" where
  "reload g h NilNode = NilNode"
| "reload g h (hashNode x) = hashNode x"
| "reload g h (valueNode v) = (if v = [] then NilNode else valueNode v)"
| "reload g h (shortNode c v f) = shortNode (the (compactToHex c)) (reload g None v) (loadedFlag h g)"
| "reload g h (fullNode cs f) = fullNode (map (reload g None) cs) (loadedFlag h g)"

lemma encStr_framed: "\<exists>k. k \<noteq> List \<and> encStr b = frame k b \<and> frameOk k b"
proof (cases "length b = 1 \<and> hd b < 0x80")
  case True
  then show ?thesis by (intro exI [of _ Byte]) (auto simp: encStr_def frame_def word_less_nat_alt word_le_nat_alt)
next
  case False
  then show ?thesis by (intro exI [of _ String]) (auto simp: encStr_def frame_def word_less_nat_alt word_le_nat_alt)
qed

lemma encLst_framed: "encLst b = frame List b"
  by (simp add: encLst_def frame_def)

lemma nodeEnc_framed: "\<exists>k c. nodeEnc n = frame k c \<and> frameOk k c"
proof -
  have "\<exists>k c. encStr b = frame k c \<and> frameOk k c" for b using encStr_framed by blast
  moreover have "\<exists>k c. encLst b = frame k c \<and> frameOk k c" for b
    by (intro exI [of _ List] exI [of _ b]) (simp add: encLst_framed)
  ultimately show ?thesis by (cases n) (simp_all only: nodeEnc.simps)
qed

lemma SplitString_encStr: "length (encStr b @ rest) < 2 ^ 63 \<Longrightarrow> SplitString (encStr b @ rest) = Inr (b, rest)"
  using encStr_framed [of b] Split_frame [of _ b rest] by (auto simp: SplitString_def)

lemma SplitList_encLst: "length (encLst b @ rest) < 2 ^ 63 \<Longrightarrow> SplitList (encLst b @ rest) = Inr (b, rest)"
  using Split_frame [of List b rest] by (simp add: encLst_framed SplitList_def)

lemma Split_encLst: "length (encLst b @ rest) < 2 ^ 63 \<Longrightarrow> Split (encLst b @ rest) = Inr (List, b, rest)"
  using Split_frame [of List b rest] by (simp add: encLst_framed)

lemma countLoop_frames:
  "list_all (\<lambda>b. \<exists>k c. b = frame k c \<and> frameOk k c) bs \<Longrightarrow> length (concat bs) < 2 ^ 63 \<Longrightarrow>
    countLoop i (concat bs) = Some (Inr (i + int (length bs)))"
proof (induction bs arbitrary: i)
  case Nil
  then show ?case by (simp add: countLoop.simps)
next
  case (Cons b bs)
  then obtain k c where b: "b = frame k c" "frameOk k c" by auto
  then have "countLoop i (concat (b # bs)) = countLoop (i + 1) (concat bs)"
    using countLoop_step [of k c "concat bs" i] Cons.prems(2) by simp
  then show ?case using Cons by simp
qed

lemma countElems_frames:
  "list_all (\<lambda>b. \<exists>k c. b = frame k c \<and> frameOk k c) bs \<Longrightarrow> length (concat bs) < 2 ^ 63 \<Longrightarrow>
    countElems (concat bs) = Inr (int (length bs))"
  by (simp add: countElems_def CountValues_def countLoop_frames)

lemma stored_shapes:
  "stored True n \<Longrightarrow> n = valueNode [] \<or> (\<exists>h. n = hashNode h \<and> length h = 32) \<or> stored False n \<and> length (nodeEnc n) < 32"
  by (cases n) auto

lemma decodeRef_stored:
  assumes "stored True n" and "length (nodeEnc n @ rest) < 2 ^ 63"
    and "stored False n \<Longrightarrow> dec (nodeEnc n @ rest) = Inr (reload g None n)"
  shows "decodeRef dec (nodeEnc n @ rest) = Inr (reload g None n, rest)"
proof -
  consider "n = valueNode []" | h where "n = hashNode h" "length h = 32" | "stored False n" "length (nodeEnc n) < 32"
    using stored_shapes [OF assms(1)] by blast
  then show ?thesis
  proof cases
    case 1
    then have "nodeEnc n = frame String []" by (simp add: encStr_def frame_def)
    then show ?thesis using Split_frame [of String "[]" rest] assms(2) 1 by (simp add: decodeRef_def)
  next
    case (2 h)
    then have "nodeEnc n = frame String h" by (simp add: encStr_def frame_def)
    then show ?thesis using Split_frame [of String h rest] assms(2) 2 by (auto simp: decodeRef_def)
  next
    case 3
    then obtain b where b: "nodeEnc n = encLst b" by (cases n) auto
    then have "Split (nodeEnc n @ rest) = Inr (List, b, rest)" using Split_encLst assms(2) by simp
    then show ?thesis using assms(3) 3 by (simp add: decodeRef_def)
  qed
qed

lemma decodeChildren_stored:
  "(\<And>n rest. n \<in> set ns \<Longrightarrow> length (nodeEnc n @ rest) < 2 ^ 63 \<Longrightarrow> stored False n \<Longrightarrow>
      dec (nodeEnc n @ rest) = Inr (reload g None n)) \<Longrightarrow>
   (\<And>n. n \<in> set ns \<Longrightarrow> stored True n) \<Longrightarrow> length (concat (map nodeEnc ns) @ rest) < 2 ^ 63 \<Longrightarrow>
   decodeChildren dec i (length ns) (concat (map nodeEnc ns) @ rest) = Inr (map (reload g None) ns, rest)"
proof (induction ns arbitrary: i)
  case (Cons n ns)
  have "decodeRef dec (nodeEnc n @ concat (map nodeEnc ns) @ rest) = Inr (reload g None n, concat (map nodeEnc ns) @ rest)"
    using Cons.prems by (intro decodeRef_stored) simp_all
  moreover have "decodeChildren dec (i + 1) (length ns) (concat (map nodeEnc ns) @ rest) = Inr (map (reload g None) ns, rest)"
    using Cons.prems by (intro Cons.IH) simp_all
  ultimately show ?case by simp
qed simp

lemma decodeShort_stored:
  assumes s: "stored False (shortNode c v f)" and len: "length (encStr c @ nodeEnc v) < 2 ^ 63"
    and dec: "stored False v \<Longrightarrow> dec (nodeEnc v) = Inr (reload g None v)"
  shows "decodeShort dec h (encStr c @ nodeEnc v) g = Inr (reload g h (shortNode c v f))"
proof -
  obtain key where key: "compactToHex c = Some key"
    using s by (cases c) (auto simp: canonicalKey_def compactToHex_Cons)
  have split: "SplitString (encStr c @ nodeEnc v) = Inr (c, nodeEnc v)" using len by (rule SplitString_encStr)
  show ?thesis
  proof (cases "hasTerm key")
    case True
    then obtain w where w: "v = valueNode w" "w \<noteq> []" using s key by (cases v) auto
    have "SplitString (encStr w) = Inr (w, [])" using SplitString_encStr [of w "[]"] len w by simp
    then show ?thesis using split key True w by (simp add: decodeShort_def)
  next
    case False
    then have "decodeRef dec (nodeEnc v) = Inr (reload g None v, [])"
      using decodeRef_stored [of v "[]" dec g] s key len dec by simp
    then show ?thesis using split key False by (simp add: decodeShort_def)
  qed
qed

lemma decodeFull_stored:
  assumes s: "stored False (fullNode cs f)" and len: "length (concat (map nodeEnc cs)) < 2 ^ 63"
    and dec: "\<And>n rest. n \<in> set cs \<Longrightarrow> length (nodeEnc n @ rest) < 2 ^ 63 \<Longrightarrow> stored False n \<Longrightarrow>
      dec (nodeEnc n @ rest) = Inr (reload g None n)"
  shows "decodeFull dec h (concat (map nodeEnc cs)) g = Inr (reload g h (fullNode cs f))"
proof -
  have l: "length cs = 17" using s by simp
  then have "length (drop 16 cs) = Suc 0" by simp
  then obtain u where u: "drop 16 cs = [u]" by (auto simp only: length_Suc_conv length_0_conv)
  then have cs: "cs = take 16 cs @ [u]" by (metis append_take_drop_id)
  have enc: "concat (map nodeEnc cs) = concat (map nodeEnc (take 16 cs)) @ nodeEnc u" by (subst cs) simp
  obtain w where w: "u = valueNode w" using s u by (cases u) auto
  have "decodeChildren dec 0 (length (take 16 cs)) (concat (map nodeEnc (take 16 cs)) @ nodeEnc u) =
      Inr (map (reload g None) (take 16 cs), nodeEnc u)"
    using s len dec unfolding enc by (intro decodeChildren_stored) (auto dest: in_set_takeD)
  moreover have "SplitString (nodeEnc u) = Inr (w, [])"
    using SplitString_encStr [of w "[]"] len w unfolding enc by simp
  ultimately have "decodeFull dec h (concat (map nodeEnc cs)) g =
      Inr (fullNode (map (reload g None) (take 16 cs) @ [reload g None u]) (loadedFlag h g))"
    using l w unfolding enc by (simp add: decodeFull_def)
  also have "map (reload g None) (take 16 cs) @ [reload g None u] = map (reload g None) cs" by (subst (2) cs) simp
  finally show ?thesis by simp
qed

lemma countElems_nodes:
  "length (concat (map nodeEnc ns)) < 2 ^ 63 \<Longrightarrow> countElems (concat (map nodeEnc ns)) = Inr (int (length ns))"
  using countElems_frames [of "map nodeEnc ns"] nodeEnc_framed by (simp add: list_all_iff)

lemma decode_stored:
  "stored False n \<Longrightarrow> length (nodeEnc n @ rest) < 2 ^ 63 \<Longrightarrow> decodeNode h (nodeEnc n @ rest) g = Inr (reload g h n)"
proof (induction n arbitrary: h rest)
  case (shortNode c v f)
  let ?e = "encStr c @ nodeEnc v"
  have len: "length ?e < 2 ^ 63" using shortNode.prems(2) length_encLst(1) [of ?e] by simp
  have split: "SplitList (encLst ?e @ rest) = Inr (?e, rest)" using shortNode.prems(2) by (intro SplitList_encLst) simp
  have "countElems ?e = Inr 2" using countElems_nodes [of "[valueNode c, v]"] len by simp
  moreover have "decodeShort (embedded g) h ?e g = Inr (reload g h (shortNode c v f))"
    using shortNode.IH [of "[]" None] len by (intro decodeShort_stored [OF shortNode.prems(1)]) simp_all
  moreover have "encLst ?e @ rest \<noteq> []" using split by (auto simp: SplitList_def Split_def readKindRaw_def)
  ultimately show ?case using split by (subst decodeNode_unfold) simp
next
  case (fullNode cs f)
  let ?e = "concat (map nodeEnc cs)"
  have len: "length ?e < 2 ^ 63" using fullNode.prems(2) length_encLst(1) [of ?e] by simp
  have split: "SplitList (encLst ?e @ rest) = Inr (?e, rest)" using fullNode.prems(2) by (intro SplitList_encLst) simp
  have "countElems ?e = Inr 17" using countElems_nodes [of cs] len fullNode.prems(1) by simp
  moreover have "decodeFull (embedded g) h ?e g = Inr (reload g h (fullNode cs f))"
    using fullNode.IH len by (intro decodeFull_stored [OF fullNode.prems(1)]) simp_all
  moreover have "encLst ?e @ rest \<noteq> []" using split by (auto simp: SplitList_def Split_def readKindRaw_def)
  ultimately show ?case using split by (subst decodeNode_unfold) simp
qed auto

lemma decodeNode_shape:
  assumes "decodeNode h buf g = Inr n"
  obtains k v where "n = shortNode k v (loadedFlag h g)" | cs where "n = fullNode cs (loadedFlag h g)"
proof -
  have short: "\<exists>k v. n = shortNode k v (loadedFlag h g)" if "decodeShort dec h elems g = Inr n" for dec elems
    using that by (auto simp: decodeShort_def split: sum.splits option.splits if_splits)
  have full: "\<exists>cs. n = fullNode cs (loadedFlag h g)" if "decodeFull dec h elems g = Inr n" for dec elems
    using that by (auto simp: decodeFull_def split: sum.splits)
  from assms show thesis unfolding decodeNode_unfold [of h buf g]
    using that short full by (auto split: if_splits sum.splits) blast+
qed

section \<open>Properties\<close>

text \<open>C13. What the encoder of the RLP package writes for a node in stored form is read back by
  \<^verbatim>\<open>decodeNode\<close>: the keys in HEX form, the empty references as nil children, the flags those of
  a clean node with the given hash and cache generation.\<close>

theorem stored_node_roundtrip:
  assumes "stored False n" and "length (nodeEnc n) < 2 ^ 63"
  shows "\<exists>b. encodeNode n = Inr b \<and> decodeNode h b g = Inr (reload g h n)"
  using encodeNode_eq [OF assms(2)] decode_stored [of n "[]" h g] assms by simp

theorem stored_node_roundtrip_witness:
  "\<exists>b. encodeNode (shortNode [0x3A, 0xBC] (valueNode [7]) (loadedFlag None 0)) = Inr b \<and>
    decodeNode (Some [1]) b 3 = Inr (shortNode [0xA, 0xB, 0xC, 16] (valueNode [7]) (loadedFlag (Some [1]) 3))"
proof -
  let ?n = "shortNode [0x3A, 0xBC] (valueNode [7]) (loadedFlag None 0)"
  have k: "compactToHex [0x3A, 0xBC] = Some [0xA, 0xB, 0xC, 16]"
    by (simp add: compactToHex_def keybytesToHex_def Let_def)
  have "stored False ?n" by (simp add: k canonicalKey_def hasTerm_def)
  moreover have "length (nodeEnc ?n) < 2 ^ 63" by (simp add: encStr_def encLst_def puthead_def)
  ultimately have "\<exists>b. encodeNode ?n = Inr b \<and> decodeNode (Some [1]) b 3 = Inr (reload 3 (Some [1]) ?n)"
    by (rule stored_node_roundtrip)
  then show ?thesis by (simp add: k)
qed

end
