(* ===== verification/TrieDatabase.thy ===== *)
theory TrieDatabase
  imports Prelude "HOL-Library.AList"
begin

text \<open>
  The write layer between the tries and the disk (\<^verbatim>\<open>common/trie/database.go\<close>) with the batches of
  \<^verbatim>\<open>common/ptndb/database.go\<close>.  Maps are association lists, storage sizes are integers (the code
  has \<^verbatim>\<open>float64\<close>, exact as far as 53 bits go), and the recursions over the references carry a bound
  on their depth.  The write of a batch is leveldb's; it is the argument \<open>wr\<close>.  The main fact
  is that persisting a trie never makes a node unavailable, whether it succeeds or not.
\<close>

section \<open>State\<close>

type_synonym disk = "bytes \<Rightarrow> bytes option"

abbreviation HashLength :: nat where "HashLength \<equiv> 32"

definition zeroHash :: bytes where "zeroHash = replicate 32 0"

definition BytesToHash :: "bytes \<Rightarrow> bytes" where
  "BytesToHash b =
    (let b = (if length b > HashLength then drop (length b - HashLength) b else b) in
     replicate (HashLength - length b) 0 @ b)"

text \<open>A blob that is nil is \<^const>\<open>None\<close>.\<close>

record cachedNode =
  blob :: "bytes option"
  parents :: int
  children :: "(bytes \<times> int) list"

record Database =
  diskdb :: disk
  nodes :: "(bytes \<times> cachedNode) list"
  preimages :: "(bytes \<times> bytes) list"
  gcnodes :: int
  gcsize :: int
  nodesSize :: int
  preimagesSize :: int

datatype dbErr = ErrNotFound | ErrWrite | DbPanic | DbRuns

definition secureKeyPrefix :: bytes where
  "secureKeyPrefix = map of_char ''secure-key-''"

definition NewDatabase :: "disk \<Rightarrow> Database" where
  "NewDatabase d = \<lparr>diskdb = d, nodes = [(zeroHash, \<lparr>blob = None, parents = 0, children = []\<rparr>)], preimages = [],
     gcnodes = 0, gcsize = 0, nodesSize = 0, preimagesSize = 0\<rparr>"

section \<open>Nodes and preimages\<close>

definition dbInsert :: "bytes \<Rightarrow> bytes \<Rightarrow> Database \<Rightarrow> Database" where
  "dbInsert h b db =
    (case map_of (nodes db) h of
       Some _ \<Rightarrow> db
     | None \<Rightarrow> db\<lparr>nodes := AList.update h \<lparr>blob = Some b, parents = 0, children = []\<rparr> (nodes db),
         nodesSize := nodesSize db + int (HashLength + length b)\<rparr>)"

definition insertPreimage :: "bytes \<Rightarrow> bytes \<Rightarrow> Database \<Rightarrow> Database" where
  "insertPreimage h b db =
    (case map_of (preimages db) h of
       Some _ \<Rightarrow> db
     | None \<Rightarrow> db\<lparr>preimages := AList.update h b (preimages db),
         preimagesSize := preimagesSize db + int (HashLength + length b)\<rparr>)"

definition diskGet :: "disk \<Rightarrow> bytes \<Rightarrow> dbErr + bytes option" where
  "diskGet d k = (case d k of None \<Rightarrow> Inl ErrNotFound | Some v \<Rightarrow> Inr (Some v))"

definition Node :: "Database \<Rightarrow> bytes \<Rightarrow> dbErr + bytes option" where
  "Node db h = (case map_of (nodes db) h of Some n \<Rightarrow> Inr (blob n) | None \<Rightarrow> diskGet (diskdb db) h)"

definition secureKey :: "bytes \<Rightarrow> bytes" where
  "secureKey key = secureKeyPrefix @ key"

definition preimage :: "Database \<Rightarrow> bytes \<Rightarrow> dbErr + bytes option" where
  "preimage db h = (case map_of (preimages db) h of Some b \<Rightarrow> Inr (Some b) | None \<Rightarrow> diskGet (diskdb db) (secureKey h))"

definition Nodes :: "Database \<Rightarrow> bytes list" where
  "Nodes db = filter (\<lambda>h. h \<noteq> zeroHash) (map fst (nodes db))"

definition Size :: "Database \<Rightarrow> int" where
  "Size db = nodesSize db + preimagesSize db"

section \<open>References\<close>

text \<open>A missing entry of the children reads as 0.\<close>

definition count :: "(bytes \<times> int) list \<Rightarrow> bytes \<Rightarrow> int" where
  "count cs h = (case map_of cs h of None \<Rightarrow> 0 | Some n \<Rightarrow> n)"

definition setNode :: "bytes \<Rightarrow> cachedNode \<Rightarrow> Database \<Rightarrow> Database" where
  "setNode h n db = db\<lparr>nodes := AList.update h n (nodes db)\<rparr>"

definition reference :: "bytes \<Rightarrow> bytes \<Rightarrow> Database \<Rightarrow> dbErr + Database" where
  "reference child parent db =
    (case map_of (nodes db) child of
       None \<Rightarrow> Inr db
     | Some node \<Rightarrow>
        (case map_of (nodes db) parent of
           None \<Rightarrow> Inl DbPanic
         | Some p \<Rightarrow>
            if map_of (children p) child \<noteq> None \<and> parent \<noteq> zeroHash then Inr db
            else
              let db1 = setNode child (node\<lparr>parents := parents node + 1\<rparr>) db in
              (case map_of (nodes db1) parent of
                 None \<Rightarrow> Inl DbPanic
               | Some p1 \<Rightarrow>
                  Inr (setNode parent (p1\<lparr>children := AList.update child (count (children p1) child + 1) (children p1)\<rparr>) db1))))"

text \<open>The range over the children of a node that goes out of reach is a loop over its entries.\<close>

fun dereference :: "nat \<Rightarrow> bytes \<Rightarrow> bytes \<Rightarrow> Database \<Rightarrow> dbErr + Database"
  and dereferenceAll :: "nat \<Rightarrow> bytes list \<Rightarrow> bytes \<Rightarrow> Database \<Rightarrow> dbErr + Database" where
  "dereference 0 child parent db = Inl DbRuns"
| "dereference (Suc d) child parent db =
    (case map_of (nodes db) parent of
       None \<Rightarrow> Inl DbPanic
     | Some p \<Rightarrow>
        let n = count (children p) child - 1;
            db1 = setNode parent (p\<lparr>children :=
              (if n = 0 then AList.delete child (children p) else AList.update child n (children p))\<rparr>) db in
        (case map_of (nodes db1) child of
           None \<Rightarrow> Inr db1
         | Some node \<Rightarrow>
            let node1 = node\<lparr>parents := parents node - 1\<rparr>;
                db2 = setNode child node1 db1 in
            if parents node1 = 0
            then bindR (dereferenceAll d (map fst (children node1)) child db2) (\<lambda>db3.
                 Inr (db3\<lparr>nodes := AList.delete child (nodes db3),
                   nodesSize := nodesSize db3 - int (HashLength + length (case blob node1 of None \<Rightarrow> [] | Some b \<Rightarrow> b))\<rparr>))
            else Inr db2))"
| "dereferenceAll d [] child db = Inr db"
| "dereferenceAll d (h # hs) child db = bindR (dereference d h child db) (\<lambda>db. dereferenceAll d hs child db)"

definition Dereference :: "nat \<Rightarrow> bytes \<Rightarrow> bytes \<Rightarrow> Database \<Rightarrow> dbErr + Database" where
  "Dereference d child parent db =
    bindR (dereference d child parent db) (\<lambda>db'.
      Inr (db'\<lparr>gcnodes := gcnodes db' + (int (length (nodes db)) - int (length (nodes db'))),
        gcsize := gcsize db' + (nodesSize db - nodesSize db')\<rparr>))"

section \<open>Persisting\<close>

record ldbBatch =
  pending :: "(bytes \<times> bytes) list"
  bsize :: int

definition emptyBatch :: ldbBatch where
  "emptyBatch = \<lparr>pending = [], bsize = 0\<rparr>"

definition batchPut :: "bytes \<Rightarrow> bytes \<Rightarrow> ldbBatch \<Rightarrow> ldbBatch" where
  "batchPut k v b = b\<lparr>pending := pending b @ [(k, v)], bsize := bsize b + int (length v)\<rparr>"

definition IdealBatchSize :: int where
  "IdealBatchSize = 100 * 1024"

text \<open>The write of a batch: the disk as it leaves it, and whether it succeeded.\<close>

type_synonym batchWriter = "(bytes \<times> bytes) list \<Rightarrow> disk \<Rightarrow> bool \<times> disk"

text \<open>The loops of a commit run on the disk and the batch; an error leaves the disk as it is then.\<close>

type_synonym 'a bres = "(dbErr + 'a) \<times> disk \<times> ldbBatch"

definition flush :: "batchWriter \<Rightarrow> disk \<times> ldbBatch \<Rightarrow> unit bres" where
  "flush wr s = (case wr (pending (snd s)) (fst s) of (ok, d) \<Rightarrow> (if ok then Inr () else Inl ErrWrite, d, snd s))"

fun putPreimages :: "batchWriter \<Rightarrow> (bytes \<times> bytes) list \<Rightarrow> disk \<times> ldbBatch \<Rightarrow> unit bres" where
  "putPreimages wr [] s = (Inr (), s)"
| "putPreimages wr ((h, p) # ps) (d, b) =
    (let b = batchPut (secureKey h) p b in
     if bsize b > IdealBatchSize
     then bindE (flush wr (d, b)) (\<lambda>_ (d, _). putPreimages wr ps (d, emptyBatch))
     else putPreimages wr ps (d, b))"

text \<open>The blob of a node that has none is the empty value.\<close>

fun dbcommit :: "nat \<Rightarrow> batchWriter \<Rightarrow> (bytes \<times> cachedNode) list \<Rightarrow> bytes \<Rightarrow> disk \<times> ldbBatch \<Rightarrow> unit bres"
  and commitAll :: "nat \<Rightarrow> batchWriter \<Rightarrow> (bytes \<times> cachedNode) list \<Rightarrow> bytes list \<Rightarrow> disk \<times> ldbBatch \<Rightarrow> unit bres" where
  "dbcommit 0 wr ns h s = (Inl DbRuns, s)"
| "dbcommit (Suc k) wr ns h s =
    (case map_of ns h of
       None \<Rightarrow> (Inr (), s)
     | Some node \<Rightarrow>
        bindE (commitAll k wr ns (map fst (children node)) s) (\<lambda>_ (d, b).
          let b = batchPut h (case blob node of None \<Rightarrow> [] | Some v \<Rightarrow> v) b in
          if bsize b \<ge> IdealBatchSize
          then bindE (flush wr (d, b)) (\<lambda>_ (d, _). (Inr (), d, emptyBatch))
          else (Inr (), d, b)))"
| "commitAll k wr ns [] s = (Inr (), s)"
| "commitAll k wr ns (h # hs) s = bindE (dbcommit k wr ns h s) (\<lambda>_ s. commitAll k wr ns hs s)"

fun uncache :: "nat \<Rightarrow> bytes \<Rightarrow> Database \<Rightarrow> dbErr + Database"
  and uncacheAll :: "nat \<Rightarrow> bytes list \<Rightarrow> Database \<Rightarrow> dbErr + Database" where
  "uncache 0 h db = Inl DbRuns"
| "uncache (Suc k) h db =
    (case map_of (nodes db) h of
       None \<Rightarrow> Inr db
     | Some node \<Rightarrow>
        bindR (uncacheAll k (map fst (children node)) db) (\<lambda>db.
          Inr (db\<lparr>nodes := AList.delete h (nodes db),
            nodesSize := nodesSize db - int (HashLength + length (case blob node of None \<Rightarrow> [] | Some b \<Rightarrow> b))\<rparr>)))"
| "uncacheAll k [] db = Inr db"
| "uncacheAll k (h # hs) db = bindR (uncache k h db) (\<lambda>db. uncacheAll k hs db)"

text \<open>\<^verbatim>\<open>Database.Commit\<close>: the error or nothing, and the database as it is left.\<close>

definition Commit :: "nat \<Rightarrow> batchWriter \<Rightarrow> bytes \<Rightarrow> Database \<Rightarrow> (dbErr + unit) \<times> Database" where
  "Commit k wr h db =
    (case bindE (putPreimages wr (preimages db) (diskdb db, emptyBatch)) (\<lambda>_ s.
          bindE (dbcommit k wr (nodes db) h s) (\<lambda>_ s. flush wr s)) of
       (Inl e, d, _) \<Rightarrow> (Inl e, db\<lparr>diskdb := d\<rparr>)
     | (Inr _, d, _) \<Rightarrow>
        (case uncache k h (db\<lparr>diskdb := d, preimages := [], preimagesSize := 0\<rparr>) of
           Inl e \<Rightarrow> (Inl e, db\<lparr>diskdb := d\<rparr>)
         | Inr db' \<Rightarrow> (Inr (), db'\<lparr>gcnodes := 0, gcsize := 0\<rparr>)))"

section \<open>What leveldb promises\<close>

definition overlay :: "(bytes \<times> bytes) list \<Rightarrow> disk \<Rightarrow> disk" where
  "overlay ps d k = (case map_of (rev ps) k of None \<Rightarrow> d k | Some v \<Rightarrow> Some v)"

text \<open>A batch that is written has the effect of its writes in order; a write that fails touches
  no other key.\<close>

definition writesBatches :: "batchWriter \<Rightarrow> bool" where
  "writesBatches wr \<longleftrightarrow> (\<forall>ps d. case wr ps d of
     (True, d') \<Rightarrow> d' = overlay ps d
   | (False, d') \<Rightarrow> \<forall>k. k \<notin> fst ` set ps \<longrightarrow> d' k = d k)"

lemma overlay_Nil [simp]: "overlay [] d = d"
  by (simp add: overlay_def fun_eq_iff)

lemma overlay_snoc [simp]: "overlay (ps @ [(k, v)]) d = (overlay ps d)(k \<mapsto> v)"
  by (simp add: overlay_def fun_eq_iff)

lemma overlay_other: "k \<notin> fst ` set ps \<Longrightarrow> overlay ps d k = d k"
proof -
  assume "k \<notin> fst ` set ps"
  then have "map_of (rev ps) k = None" by (simp add: map_of_eq_None_iff)
  then show ?thesis by (simp add: overlay_def)
qed

text \<open>The disk as it will be when the batch is written.\<close>

abbreviation future :: "disk \<times> ldbBatch \<Rightarrow> disk" where
  "future s \<equiv> overlay (pending (snd s)) (fst s)"

lemma batchPut_simps [simp]:
  "pending (batchPut k v b) = pending b @ [(k, v)]"
  "pending emptyBatch = []"
  by (simp_all add: batchPut_def emptyBatch_def)

lemma flush_cases:
  assumes "writesBatches wr"
  obtains "flush wr s = (Inr (), future s, snd s)"
  | d where "flush wr s = (Inl ErrWrite, d, snd s)" "\<And>k. k \<notin> fst ` set (pending (snd s)) \<Longrightarrow> d k = fst s k"
proof -
  obtain ok d where w: "wr (pending (snd s)) (fst s) = (ok, d)" by fastforce
  have "case (ok, d) of (True, d') \<Rightarrow> d' = future s
      | (False, d') \<Rightarrow> \<forall>k. k \<notin> fst ` set (pending (snd s)) \<longrightarrow> d' k = fst s k"
    using assms [unfolded writesBatches_def, rule_format, of "pending (snd s)" "fst s"] unfolding w .
  then show thesis using that w by (cases ok) (auto simp: flush_def)
qed

text \<open>A loop of a commit over the state \<open>s\<close> that writes keys in \<open>K\<close> only, and that leads to the
  disk \<open>u\<close> when it succeeds.  It fails only if a write does.\<close>

definition puts :: "bytes set \<Rightarrow> disk \<times> ldbBatch \<Rightarrow> disk \<Rightarrow> unit bres \<Rightarrow> bool" where
  "puts K s u r \<longleftrightarrow>
     (\<forall>k. k \<notin> K \<longrightarrow> fst (snd r) k = fst s k) \<and> fst ` set (pending (snd (snd r))) \<subseteq> K \<and>
     (fst r = Inr () \<and> future (snd r) = u \<or> fst r = Inl ErrWrite)"

lemma puts_done: "fst ` set (pending (snd s)) \<subseteq> K \<Longrightarrow> puts K s (future s) (Inr (), s)"
  by (simp add: puts_def)

lemma puts_bind:
  assumes "puts K s u r" and "\<And>s'. r = (Inr (), s') \<Longrightarrow> future s' = u \<Longrightarrow> fst ` set (pending (snd s')) \<subseteq> K \<Longrightarrow> puts K s' v (f () s')"
  shows "puts K s v (bindE r f)"
proof -
  obtain x s1 where r: "r = (x, s1)" by (cases r)
  show ?thesis
  proof (cases x)
    case (Inl e)
    then show ?thesis using assms(1) r by (simp add: puts_def)
  next
    case (Inr a)
    then have "puts K s1 v (f () s1)" using assms(1) r by (intro assms(2)) (simp_all add: puts_def)
    then show ?thesis using assms(1) r Inr by (simp add: puts_def)
  qed
qed

lemma puts_flush:
  assumes "writesBatches wr" and "fst ` set (pending (snd s)) \<subseteq> K"
  shows "puts K s (future s) (bindE (flush wr s) (\<lambda>_ (d, _). (Inr (), d, emptyBatch)))"
  using assms(1)
proof (cases rule: flush_cases [of wr s])
  case 1
  then show ?thesis using assms(2) by (auto simp: puts_def intro!: overlay_other)
next
  case (2 d)
  then show ?thesis using assms(2) by (auto simp: puts_def)
qed

lemma puts_put:
  assumes "writesBatches wr" and "fst ` set (pending b) \<subseteq> K" and "h \<in> K"
  shows "puts K (d, b) ((future (d, b))(h \<mapsto> v))
    (let b = batchPut h v b in
     if big b then bindE (flush wr (d, b)) (\<lambda>_ (d, _). (Inr (), d, emptyBatch)) else (Inr (), d, b))"
  using puts_flush [OF assms(1), of "(d, batchPut h v b)" K] puts_done [of "(d, batchPut h v b)" K] assms(2,3)
  by (simp add: Let_def puts_def)

lemma putPreimages_step:
  "putPreimages wr ((h, p) # ps) (d, b) =
    bindE (let b = batchPut (secureKey h) p b in
       if bsize b > IdealBatchSize then bindE (flush wr (d, b)) (\<lambda>_ (d, _). (Inr (), d, emptyBatch)) else (Inr (), d, b))
     (\<lambda>_ s. putPreimages wr ps s)"
  by (cases "flush wr (d, batchPut (secureKey h) p b)"; cases "fst (flush wr (d, batchPut (secureKey h) p b))")
    (auto simp: Let_def)

lemma putPreimages_puts:
  assumes "writesBatches wr"
  shows "fst ` set (pending (snd s)) \<subseteq> K \<Longrightarrow> secureKey ` fst ` set ps \<subseteq> K \<Longrightarrow>
    puts K s (overlay (map (\<lambda>(h, p). (secureKey h, p)) ps) (future s)) (putPreimages wr ps s)"
proof (induction ps arbitrary: s)
  case Nil
  then show ?case using puts_done by simp
next
  case (Cons x ps)
  obtain h p where x: "x = (h, p)" by fastforce
  obtain d b where s: "s = (d, b)" by fastforce
  have u: "overlay (map (\<lambda>(h, p). (secureKey h, p)) (x # ps)) (future s) =
      overlay (map (\<lambda>(h, p). (secureKey h, p)) ps) ((future s)(secureKey h \<mapsto> p))"
    by (simp add: overlay_def fun_eq_iff x map_add_def split: option.split)
  show ?case unfolding u unfolding s x putPreimages_step
  proof (rule puts_bind [OF puts_put [OF assms]])
    show "fst ` set (pending b) \<subseteq> K" "secureKey h \<in> K" using Cons.prems by (auto simp: x s)
    fix s' assume fut: "future s' = (future (d, b))(secureKey h \<mapsto> p)" and sub: "fst ` set (pending (snd s')) \<subseteq> K"
    have "secureKey ` fst ` set ps \<subseteq> K" using Cons.prems(2) by simp
    from Cons.IH [OF sub this] show "puts K s'
        (overlay (map (\<lambda>(h, p). (secureKey h, p)) ps) ((future (d, b))(secureKey h \<mapsto> p))) (putPreimages wr ps s')"
      unfolding fut .
  qed
qed

section \<open>The nodes a commit reaches\<close>

fun reach :: "nat \<Rightarrow> (bytes \<times> cachedNode) list \<Rightarrow> bytes \<Rightarrow> bytes set" where
  "reach 0 ns h = {}"
| "reach (Suc k) ns h =
    (case map_of ns h of None \<Rightarrow> {} | Some n \<Rightarrow> insert h (\<Union>c \<in> fst ` set (children n). reach k ns c))"

definition blobOf :: "(bytes \<times> cachedNode) list \<Rightarrow> bytes \<Rightarrow> bytes" where
  "blobOf ns h = (case map_of ns h of None \<Rightarrow> [] | Some n \<Rightarrow> (case blob n of None \<Rightarrow> [] | Some b \<Rightarrow> b))"

definition withBlobs :: "(bytes \<times> cachedNode) list \<Rightarrow> bytes set \<Rightarrow> disk \<Rightarrow> disk" where
  "withBlobs ns S d k = (if k \<in> S then Some (blobOf ns k) else d k)"

lemma withBlobs_simps [simp]:
  "withBlobs ns {} d = d"
  "withBlobs ns (insert h S) d = (withBlobs ns S d)(h \<mapsto> blobOf ns h)"
  "withBlobs ns S (withBlobs ns T d) = withBlobs ns (S \<union> T) d"
  by (auto simp: withBlobs_def fun_eq_iff)

lemma reach_dom: "reach k ns h \<subseteq> dom (map_of ns)"
  by (induction k arbitrary: h) (auto split: option.splits)

definition ranked :: "(bytes \<Rightarrow> nat) \<Rightarrow> (bytes \<times> cachedNode) list \<Rightarrow> bool" where
  "ranked rank ns \<longleftrightarrow> (\<forall>h n. map_of ns h = Some n \<longrightarrow> (\<forall>c \<in> fst ` set (children n). rank c < rank h))"

lemma commitAll_puts:
  assumes "\<And>h s. h \<in> set hs \<Longrightarrow> fst ` set (pending (snd s)) \<subseteq> K \<Longrightarrow>
      puts K s (withBlobs ns (reach k ns h) (future s)) (dbcommit k wr ns h s)"
    and "fst ` set (pending (snd s)) \<subseteq> K"
  shows "puts K s (withBlobs ns (\<Union>h \<in> set hs. reach k ns h) (future s)) (commitAll k wr ns hs s)"
  using assms
proof (induction hs arbitrary: s)
  case Nil
  then show ?case using puts_done by simp
next
  case (Cons h hs)
  have "puts K s (withBlobs ns (reach k ns h) (future s)) (dbcommit k wr ns h s)" using Cons.prems by simp
  then show ?case unfolding commitAll.simps
  proof (rule puts_bind)
    fix s' assume fut: "future s' = withBlobs ns (reach k ns h) (future s)" and sub: "fst ` set (pending (snd s')) \<subseteq> K"
    have "puts K s' (withBlobs ns (\<Union>h \<in> set hs. reach k ns h) (future s')) (commitAll k wr ns hs s')"
      using Cons.prems(1) sub by (intro Cons.IH) simp_all
    then show "puts K s' (withBlobs ns (\<Union>h \<in> set (h # hs). reach k ns h) (future s)) (commitAll k wr ns hs s')"
      unfolding fut by (simp add: Un_commute)
  qed
qed

lemma dbcommit_puts:
  assumes wr: "writesBatches wr" and K: "dom (map_of ns) \<subseteq> K" and rank: "ranked rank ns"
  shows "rank h < k \<Longrightarrow> fst ` set (pending (snd s)) \<subseteq> K \<Longrightarrow>
      puts K s (withBlobs ns (reach k ns h) (future s)) (dbcommit k wr ns h s)"
proof (induction k arbitrary: h s)
  case (Suc k)
  show ?case
  proof (cases "map_of ns h")
    case None
    then show ?thesis using Suc.prems puts_done [of s K] by simp
  next
    case (Some n)
    let ?S = "\<Union>c \<in> set (map fst (children n)). reach k ns c" and ?v = "case blob n of None \<Rightarrow> [] | Some v \<Rightarrow> v"
    have "rank c < k" if "c \<in> set (map fst (children n))" for c
      using rank Some that Suc.prems(1) unfolding ranked_def by (metis less_Suc_eq_le less_le_trans list.set_map)
    then have kids: "puts K s (withBlobs ns ?S (future s)) (commitAll k wr ns (map fst (children n)) s)"
      using Suc by (intro commitAll_puts) blast+
    have u: "withBlobs ns (reach (Suc k) ns h) (future s) = (withBlobs ns ?S (future s))(h \<mapsto> ?v)"
      using Some by (simp add: blobOf_def)
    have h: "h \<in> K" using K Some by blast
    have c: "dbcommit (Suc k) wr ns h s = bindE (commitAll k wr ns (map fst (children n)) s) (\<lambda>_ (d, b).
        let b = batchPut h ?v b in
        if bsize b \<ge> IdealBatchSize then bindE (flush wr (d, b)) (\<lambda>_ (d, _). (Inr (), d, emptyBatch)) else (Inr (), d, b))"
      by (simp add: Some)
    show ?thesis unfolding u c
    proof (rule puts_bind [OF kids])
      fix s' assume fut: "future s' = withBlobs ns ?S (future s)" and sub: "fst ` set (pending (snd s')) \<subseteq> K"
      obtain d b where s': "s' = (d, b)" by (cases s')
      show "puts K s' ((withBlobs ns ?S (future s))(h \<mapsto> ?v)) (case s' of (d, b) \<Rightarrow> let b = batchPut h ?v b in
          if bsize b \<ge> IdealBatchSize then bindE (flush wr (d, b)) (\<lambda>_ (d, _). (Inr (), d, emptyBatch)) else (Inr (), d, b))"
        using puts_put [OF wr _ h, of b d ?v "\<lambda>b. bsize b \<ge> IdealBatchSize"] sub
        unfolding fut [symmetric] s' prod.case by (simp only: snd_conv)
    qed
  qed
qed simp

section \<open>Clearing the cache\<close>

definition shrinks :: "bytes set \<Rightarrow> Database \<Rightarrow> Database \<Rightarrow> bool" where
  "shrinks S db db' \<longleftrightarrow> diskdb db' = diskdb db \<and> map_of (nodes db') \<subseteq>\<^sub>m map_of (nodes db) \<and>
     (\<forall>h. h \<notin> S \<longrightarrow> map_of (nodes db') h = map_of (nodes db) h)"

lemma shrinks_refl [simp]: "shrinks S db db"
  by (simp add: shrinks_def)

lemma shrinks_trans: "shrinks S db db1 \<Longrightarrow> shrinks S db1 db2 \<Longrightarrow> shrinks S db db2"
  by (auto simp: shrinks_def intro: map_le_trans)

lemma shrinks_mono: "shrinks S db db1 \<Longrightarrow> S \<subseteq> T \<Longrightarrow> shrinks T db db1"
  by (auto simp: shrinks_def)

lemma uncacheAll_shrinks:
  assumes "\<And>h db. h \<in> set hs \<Longrightarrow> map_of (nodes db) \<subseteq>\<^sub>m map_of ns \<Longrightarrow> \<exists>db'. uncache k h db = Inr db' \<and> shrinks (reach k ns h) db db'"
    and "map_of (nodes db) \<subseteq>\<^sub>m map_of ns"
  shows "\<exists>db'. uncacheAll k hs db = Inr db' \<and> shrinks (\<Union>h \<in> set hs. reach k ns h) db db'"
  using assms
proof (induction hs arbitrary: db)
  case (Cons h hs)
  obtain db1 where d1: "uncache k h db = Inr db1" "shrinks (reach k ns h) db db1"
    using Cons.prems(1) [of h db] Cons.prems(2) by auto
  then have "map_of (nodes db1) \<subseteq>\<^sub>m map_of ns" using Cons.prems(2) by (auto simp: shrinks_def intro: map_le_trans)
  then obtain db2 where d2: "uncacheAll k hs db1 = Inr db2" "shrinks (\<Union>h \<in> set hs. reach k ns h) db1 db2"
    using Cons.IH [OF Cons.prems(1)] by (metis list.set_intros(2))
  have "shrinks (\<Union>h \<in> set (h # hs). reach k ns h) db db2"
    using shrinks_trans [OF shrinks_mono [OF d1(2)] shrinks_mono [OF d2(2)]] by simp
  then show ?case using d1 d2 by simp
qed simp

lemma uncache_shrinks:
  assumes rank: "ranked rank ns"
  shows "rank h < k \<Longrightarrow> map_of (nodes db) \<subseteq>\<^sub>m map_of ns \<Longrightarrow>
    \<exists>db'. uncache k h db = Inr db' \<and> shrinks (reach k ns h) db db' \<and> map_of (nodes db') h = None"
proof (induction k arbitrary: h db)
  case (Suc k)
  show ?case
  proof (cases "map_of (nodes db) h")
    case (Some n)
    then have n: "map_of ns h = Some n" using Suc.prems(2) by (auto simp: map_le_def dom_def)
    have "rank c < k" if "c \<in> set (map fst (children n))" for c
      using rank n that Suc.prems(1) unfolding ranked_def by (metis less_Suc_eq_le less_le_trans list.set_map)
    then obtain db1 where d: "uncacheAll k (map fst (children n)) db = Inr db1"
        "shrinks (\<Union>c \<in> set (map fst (children n)). reach k ns c) db db1"
      using uncacheAll_shrinks [of "map fst (children n)" ns k db] Suc by blast
    moreover have sub: "(\<Union>c \<in> set (map fst (children n)). reach k ns c) \<subseteq> reach (Suc k) ns h" using n by auto
    moreover have "shrinks (reach (Suc k) ns h) db1 (db1\<lparr>nodes := AList.delete h (nodes db1), nodesSize := z\<rparr>)" for z
      by (auto simp: shrinks_def delete_conv' map_le_def n)
    ultimately have "shrinks (reach (Suc k) ns h) db (db1\<lparr>nodes := AList.delete h (nodes db1), nodesSize := z\<rparr>)" for z
      by (intro shrinks_trans [OF shrinks_mono [OF d(2) sub]])
    then show ?thesis using Some d(1) by (simp add: delete_conv')
  qed simp
qed simp

section \<open>Properties\<close>

text \<open>The cache: hashes have their length, every node but the root of references has a blob and
  nothing refers to that one.\<close>

definition cacheOk :: "Database \<Rightarrow> bool" where
  "cacheOk db \<longleftrightarrow>
     (\<forall>(h, n) \<in> set (nodes db). h \<noteq> zeroHash \<longrightarrow> blob n \<noteq> None) \<and>
     (\<forall>(h, n) \<in> set (nodes db). zeroHash \<notin> fst ` set (children n)) \<and>
     (\<forall>h \<in> fst ` set (nodes db) \<union> fst ` set (preimages db). length h = 32) \<and>
     distinct (map fst (preimages db))"

lemma cacheOk_node:
  assumes "cacheOk db" and "map_of (nodes db) h = Some n"
  shows "zeroHash \<notin> fst ` set (children n)" and "h \<noteq> zeroHash \<Longrightarrow> blob n \<noteq> None" and "length h = 32"
proof -
  have m: "(h, n) \<in> set (nodes db)" using assms(2) by (rule map_of_SomeD)
  show "zeroHash \<notin> fst ` set (children n)" "h \<noteq> zeroHash \<Longrightarrow> blob n \<noteq> None"
    using assms(1) m unfolding cacheOk_def by blast+
  have "h \<in> fst ` set (nodes db)" using m by force
  then show "length h = 32" using assms(1) unfolding cacheOk_def by blast
qed

lemma overlay_preimages:
  "distinct (map fst ps) \<Longrightarrow> overlay (map (\<lambda>(h, p). (secureKey h, p)) ps) d (secureKey h) =
    (case map_of ps h of None \<Rightarrow> d (secureKey h) | Some p \<Rightarrow> Some p)"
proof (induction ps rule: rev_induct)
  case (snoc x ps)
  obtain a b where x: "x = (a, b)" by (cases x)
  then have "map_of ps a = None" using snoc.prems by (simp add: map_of_eq_None_iff)
  then show ?case using snoc by (auto simp: x secureKey_def map_add_def split: option.split)
qed simp

lemma length_secureKey: "length (secureKey h) = 11 + length h"
  by (simp add: secureKey_def secureKeyPrefix_def)

text \<open>The three writing phases of a commit: outside \<open>K\<close> the disk is as before, and after a success
  it is \<open>u\<close>.\<close>

definition persisted :: "bytes set \<Rightarrow> disk \<times> ldbBatch \<Rightarrow> disk \<Rightarrow> unit bres \<Rightarrow> bool" where
  "persisted K s u r \<longleftrightarrow> (\<forall>k. k \<notin> K \<longrightarrow> fst (snd r) k = fst s k) \<and> (fst r = Inr () \<and> fst (snd r) = u \<or> fst r = Inl ErrWrite)"

lemma flush_persists:
  assumes "writesBatches wr" and "puts K s0 u (Inr (), s)"
  shows "persisted K s0 u (flush wr s)"
  using assms(1)
proof (cases rule: flush_cases [of wr s])
  case 1
  have "future s k = fst s0 k" if "k \<notin> K" for k using assms(2) that overlay_other [of k "pending (snd s)" "fst s"] by (auto simp: puts_def)
  then show ?thesis using 1 assms(2) by (simp add: persisted_def puts_def)
next
  case (2 d)
  have "d k = fst s0 k" if "k \<notin> K" for k using assms(2) that 2(2) [of k] by (auto simp: puts_def)
  then show ?thesis using 2(1) by (simp add: persisted_def)
qed

lemma commit_persists:
  assumes "writesBatches wr" and "ranked rank ns" and "rank root < k"
  shows "persisted (dom (map_of ns) \<union> secureKey ` fst ` set ps) (d, emptyBatch)
    (withBlobs ns (reach k ns root) (overlay (map (\<lambda>(h, p). (secureKey h, p)) ps) d))
    (bindE (putPreimages wr ps (d, emptyBatch)) (\<lambda>_ s. bindE (dbcommit k wr ns root s) (\<lambda>_ s. flush wr s)))"
    (is "persisted ?K ?s ?u ?r")
proof -
  let ?c = "bindE (putPreimages wr ps ?s) (\<lambda>_ s. dbcommit k wr ns root s)"
  have "puts ?K ?s ?u ?c"
  proof (rule puts_bind [OF putPreimages_puts [OF assms(1)]])
    fix s' assume fut: "future s' = overlay (map (\<lambda>(h, p). (secureKey h, p)) ps) (future ?s)"
      and sub: "fst ` set (pending (snd s')) \<subseteq> ?K"
    show "puts ?K s' ?u (dbcommit k wr ns root s')"
      using dbcommit_puts [OF assms(1) _ assms(2,3) sub] unfolding fut by simp
  qed simp_all
  moreover have "?r = bindE ?c (\<lambda>_ s. flush wr s)"
    by (cases "putPreimages wr ps ?s"; cases "fst (putPreimages wr ps ?s)") auto
  moreover obtain x s where c: "?c = (x, s)" by (cases ?c)
  ultimately show ?thesis using flush_persists [OF assms(1), of ?K ?s ?u s]
    by (cases x) (simp_all add: puts_def persisted_def)
qed

text \<open>A node that has left the cache is found on the disk.\<close>

lemma reach_nonzero:
  assumes "\<And>h n. map_of ns h = Some n \<Longrightarrow> zeroHash \<notin> fst ` set (children n)"
  shows "h \<noteq> zeroHash \<Longrightarrow> zeroHash \<notin> reach k ns h"
proof (induction k arbitrary: h)
  case (Suc k)
  then show ?case using assms [of h] by (auto split: option.split) (metis fst_conv image_eqI)
qed simp

lemma cleared_node:
  assumes "shrinks S db1 db2" and "nodes db1 = nodes db" and "diskdb db1 = withBlobs (nodes db) S d"
    and "\<And>n. h \<in> S \<Longrightarrow> map_of (nodes db) h = Some n \<Longrightarrow> blob n \<noteq> None" and "S \<subseteq> dom (map_of (nodes db))"
    and "map_of (nodes db) h = None \<Longrightarrow> d h = diskdb db h"
  shows "Node db2 h = Node db h"
proof (cases "map_of (nodes db2) h")
  case (Some n)
  then have "map_of (nodes db) h = Some n" using assms(1,2) by (auto simp: shrinks_def map_le_def dom_def)
  then show ?thesis using Some by (simp add: Node_def)
next
  case None
  show ?thesis
  proof (cases "map_of (nodes db) h")
    case None
    then have "h \<notin> S" using assms(5) by blast
    then have "diskdb db2 h = diskdb db h" using assms(1,3,6) None by (simp add: shrinks_def withBlobs_def)
    then show ?thesis using None \<open>map_of (nodes db2) h = None\<close> by (simp add: Node_def diskGet_def)
  next
    case (Some n)
    then have S: "h \<in> S" using None assms(1,2) by (auto simp: shrinks_def)
    then obtain b where "blob n = Some b" using assms(4) Some by blast
    then have "diskdb db2 h = Some b" using assms(1,3) S Some by (simp add: shrinks_def withBlobs_def blobOf_def)
    then show ?thesis using None Some \<open>blob n = Some b\<close> by (simp add: Node_def diskGet_def)
  qed
qed

text \<open>The keys of nodes and of preimages do not meet.\<close>

lemma secureKey_inj [simp]: "secureKey a = secureKey b \<longleftrightarrow> a = b"
  by (simp add: secureKey_def)

lemma node_key_apart:
  assumes "cacheOk db" and "length h = 32"
  shows "h \<notin> secureKey ` fst ` set (preimages db)" and "secureKey h \<notin> dom (map_of (nodes db))"
proof -
  have "length x = 43" if x: "x \<in> secureKey ` fst ` set (preimages db)" for x
  proof -
    obtain a where "x = secureKey a" "a \<in> fst ` set (preimages db)" using x by blast
    moreover then have "length a = 32" using assms(1) unfolding cacheOk_def by blast
    ultimately show ?thesis by (simp add: length_secureKey)
  qed
  then show "h \<notin> secureKey ` fst ` set (preimages db)" using assms(2) by force
  show "secureKey h \<notin> dom (map_of (nodes db))"
    using cacheOk_node(3) [OF assms(1), of "secureKey h"] assms(2) by (auto simp: length_secureKey)
qed

lemma Node_stats [simp]:
  "Node (db\<lparr>gcnodes := a, gcsize := b\<rparr>) h = Node db h" "preimage (db\<lparr>gcnodes := a, gcsize := b\<rparr>) h = preimage db h"
  by (simp_all add: Node_def preimage_def cong: option.case_cong)

lemma uncache_preimages: "uncache k h db = Inr db' \<Longrightarrow> preimages db' = preimages db"
  and uncacheAll_preimages: "uncacheAll k hs db = Inr db' \<Longrightarrow> preimages db' = preimages db"
  by (induction k h db and k hs db arbitrary: db' and db' rule: uncache_uncacheAll.induct)
    (auto simp: bindR_Inr split: option.splits)

text \<open>C12. \<^verbatim>\<open>Database.Commit\<close> ends when the references of the cache have no cycle, and it never makes
  data unavailable: whether it succeeds or a write to the disk fails half-way, every node
  and every preimage is read afterwards as before.  When it succeeds the root has left the
  cache, so it is on the disk.\<close>

theorem commit_keeps_nodes:
  assumes "writesBatches wr" and "cacheOk db" and "ranked rank (nodes db)" and "rank root < k" and "root \<noteq> zeroHash"
    and "Commit k wr root db = (r, db')" and "length h = 32"
  shows "Node db' h = Node db h \<and> preimage db' h = preimage db h \<and>
    (r = Inl ErrWrite \<or> r = Inr () \<and> map_of (nodes db') root = None)"
proof -
  let ?ns = "nodes db" and ?s0 = "(diskdb db, emptyBatch)"
  let ?K = "dom (map_of ?ns) \<union> secureKey ` fst ` set (preimages db)"
  let ?p = "overlay (map (\<lambda>(h, p). (secureKey h, p)) (preimages db)) (diskdb db)"
  let ?r = "bindE (putPreimages wr (preimages db) ?s0) (\<lambda>_ s. bindE (dbcommit k wr ?ns root s) (\<lambda>_ s. flush wr s))"
  have p: "persisted ?K ?s0 (withBlobs ?ns (reach k ?ns root) ?p) ?r" by (rule commit_persists [OF assms(1,3,4)])
  obtain x d b where xr: "?r = (x, d, b)" by (cases ?r) auto
  note apart = node_key_apart [OF assms(2,7)]
  have out: "d k = diskdb db k" if "k \<notin> ?K" for k using p that unfolding xr persisted_def by simp
  have other: "map_of ?ns h = None \<Longrightarrow> d h = diskdb db h" using apart(1) by (intro out) blast
  have other': "d (secureKey h) = diskdb db (secureKey h)" if "map_of (preimages db) h = None"
  proof (rule out)
    have "secureKey h \<notin> secureKey ` fst ` set (preimages db)" using that unfolding map_of_eq_None_iff by (metis imageE secureKey_inj)
    then show "secureKey h \<notin> ?K" using apart(2) by blast
  qed
  show ?thesis
  proof (cases x)
    case (Inl e)
    then have "r = Inl ErrWrite" "db' = db\<lparr>diskdb := d\<rparr>" using assms(6) p xr by (auto simp: Commit_def persisted_def)
    then show ?thesis using other other' by (auto simp: Node_def preimage_def diskGet_def split: option.split)
  next
    case (Inr a)
    let ?db1 = "db\<lparr>diskdb := d, preimages := [], preimagesSize := 0\<rparr>"
    obtain db2 where u: "uncache k root ?db1 = Inr db2" "shrinks (reach k ?ns root) ?db1 db2" "map_of (nodes db2) root = None"
      using uncache_shrinks [OF assms(3,4), of ?db1] by auto
    have r: "r = Inr ()" "db' = db2\<lparr>gcnodes := 0, gcsize := 0\<rparr>" using assms(6) xr Inr u by (simp_all add: Commit_def)
    have d: "d = withBlobs ?ns (reach k ?ns root) ?p" using p xr Inr by (simp add: persisted_def)
    have "Node db2 h = Node db h"
    proof (rule cleared_node [OF u(2)])
      show "diskdb ?db1 = withBlobs ?ns (reach k ?ns root) d" using d by simp
      have "zeroHash \<notin> reach k ?ns root"
        by (rule reach_nonzero [OF _ assms(5)]) (rule cacheOk_node(1) [OF assms(2)])
      then show "h \<in> reach k ?ns root \<Longrightarrow> map_of ?ns h = Some n \<Longrightarrow> blob n \<noteq> None" for n
        using cacheOk_node(2) [OF assms(2)] by blast
    qed (use other in \<open>simp_all add: reach_dom\<close>)
    moreover have "d (secureKey h) = ?p (secureKey h)" using apart(2) reach_dom [of k ?ns root] d by (auto simp: withBlobs_def)
    then have "preimage db2 h = preimage db h"
      using uncache_preimages [OF u(1)] u(2) overlay_preimages [of "preimages db" "diskdb db" h] assms(2)
      by (auto simp: preimage_def shrinks_def diskGet_def cacheOk_def split: option.split)
    ultimately show ?thesis using r u(3) by simp
  qed
qed

theorem commit_keeps_nodes_witness:
  "\<exists>r db'. Commit 2 (\<lambda>ps d. (True, overlay ps d)) (replicate 32 1) (dbInsert (replicate 32 1) [7] (NewDatabase (\<lambda>_. None))) = (r, db') \<and>
    Node db' (replicate 32 1) = Inr (Some [7]) \<and> (r = Inl ErrWrite \<or> r = Inr () \<and> map_of (nodes db') (replicate 32 1) = None)"
proof -
  let ?h = "replicate 32 1 :: bytes" and ?wr = "\<lambda>ps d. (True, overlay ps d)"
  let ?db = "dbInsert ?h [7] (NewDatabase (\<lambda>_. None))"
  have z: "?h \<noteq> zeroHash" by (simp add: zeroHash_def)
  have db: "nodes ?db = [(zeroHash, \<lparr>blob = None, parents = 0, children = []\<rparr>), (?h, \<lparr>blob = Some [7], parents = 0, children = []\<rparr>)]"
    "preimages ?db = []" using z by (simp_all add: dbInsert_def NewDatabase_def)
  obtain r db' where c: "Commit 2 ?wr ?h ?db = (r, db')" by fastforce
  have "writesBatches ?wr" by (simp add: writesBatches_def)
  moreover have "cacheOk ?db" by (simp add: cacheOk_def db) (simp add: zeroHash_def)
  moreover have "ranked (\<lambda>_. 0) (nodes ?db)" by (simp add: ranked_def db)
  ultimately have *: "Node db' ?h = Node ?db ?h \<and> preimage db' ?h = preimage ?db ?h \<and> (r = Inl ErrWrite \<or> r = Inr () \<and> map_of (nodes db') ?h = None)"
    by (rule commit_keeps_nodes [where rank = "\<lambda>_. 0"]) (use z c in simp_all)
  moreover have "Node ?db ?h = Inr (Some [7])" using z by (simp add: Node_def db)
  ultimately show ?thesis using c by auto
qed

end
