(* ===== verification/TrieSpec.thy ===== *)
theory TrieSpec
  imports TrieEncoding
begin

text \<open>
  Tries without flags and hashes, as the specification of \<^verbatim>\<open>common/trie\<close>.  A well-formed trie is
  the smallest one for its content: a short node never leads to a short node, a full node
  has at least two children.  Following one nibble (\<open>step\<close>) and putting the subtries of the 17
  nibbles together again (\<open>mk\<close>) are inverse to each other on the well-formed tries, so update
  and deletion are recursions over the key, and a trie is determined by its content.
\<close>

section \<open>Tries\<close>

datatype ptrie = PNil | PVal bytes | PShort bytes ptrie | PFull "ptrie list"

fun isFull :: "ptrie \<Rightarrow> bool" where
  "isFull (PFull _) = True"
| "isFull _ = False"

fun pvalue :: "ptrie \<Rightarrow> bool" where
  "pvalue (PVal v) \<longleftrightarrow> v \<noteq> []"
| "pvalue _ \<longleftrightarrow> False"

definition leafT :: "ptrie \<Rightarrow> bool" where
  "leafT p \<longleftrightarrow> p = PNil \<or> pvalue p"

definition nonNil :: "ptrie list \<Rightarrow> nat list" where
  "nonNil cs = filter (\<lambda>i. cs ! i \<noteq> PNil) [0..<length cs]"

function wfT :: "ptrie \<Rightarrow> bool" where
  "wfT PNil \<longleftrightarrow> True"
| "wfT (PVal v) \<longleftrightarrow> False"
| "wfT (PShort k q) \<longleftrightarrow> k \<noteq> [] \<and> hexPath k \<and> (if hasTerm k then pvalue q else isFull q \<and> wfT q)"
| "wfT (PFull cs) \<longleftrightarrow> length cs = 17 \<and> (\<forall>c \<in> set (take 16 cs). wfT c) \<and> leafT (cs ! 16) \<and> 2 \<le> length (nonNil cs)"
  by pat_completeness auto
termination
  by (relation "measure size") (auto dest!: in_set_takeD intro: size_list_estimation' simp: less_Suc_eq_le)

section \<open>One nibble at a time\<close>

definition pshort :: "bytes \<Rightarrow> ptrie \<Rightarrow> ptrie" where
  "pshort k q = (if k = [] then q else PShort k q)"

fun step :: "ptrie \<Rightarrow> byte \<Rightarrow> ptrie" where
  "step (PShort (y # k) q) x = (if x = y then pshort k q else PNil)"
| "step (PFull cs) x = (if unat x < length cs then cs ! unat x else PNil)"
| "step _ x = PNil"

fun pcons :: "byte \<Rightarrow> ptrie \<Rightarrow> ptrie" where
  "pcons x PNil = PNil"
| "pcons x (PShort k q) = PShort (x # k) q"
| "pcons x p = PShort [x] p"

definition fan :: "ptrie \<Rightarrow> ptrie list" where
  "fan p = map (\<lambda>i. step p (word_of_nat i)) [0..<17]"

definition mk :: "ptrie list \<Rightarrow> ptrie" where
  "mk cs = (case nonNil cs of [] \<Rightarrow> PNil | [i] \<Rightarrow> pcons (word_of_nat i) (cs ! i) | _ \<Rightarrow> PFull cs)"

definition okChildren :: "ptrie list \<Rightarrow> bool" where
  "okChildren cs \<longleftrightarrow> length cs = 17 \<and> (\<forall>i < 16. wfT (cs ! i)) \<and> leafT (cs ! 16)"

section \<open>The operations\<close>

fun plook :: "ptrie \<Rightarrow> bytes \<Rightarrow> bytes option" where
  "plook p [] = (case p of PVal v \<Rightarrow> Some v | _ \<Rightarrow> None)"
| "plook p (x # xs) = plook (step p x) xs"

fun pins :: "ptrie \<Rightarrow> bytes \<Rightarrow> bytes \<Rightarrow> ptrie" where
  "pins p [] v = PVal v"
| "pins p (x # xs) v = mk ((fan p)[unat x := pins (step p x) xs v])"

fun pdel :: "ptrie \<Rightarrow> bytes \<Rightarrow> ptrie" where
  "pdel p [] = PNil"
| "pdel p (x # xs) = mk ((fan p)[unat x := pdel (step p x) xs])"

text \<open>A trie at a place of a key: either an open trie with the rest of a key, or a leaf at the end.\<close>

definition okAt :: "ptrie \<Rightarrow> bytes \<Rightarrow> bool" where
  "okAt p key \<longleftrightarrow> wfT p \<and> hexKey key \<or> leafT p \<and> key = []"

section \<open>Keys\<close>

lemma hexKey_Nil [simp]: "\<not> hexKey []"
  by (simp add: hexKey_def hasTerm_def)

lemma hasTerm_Cons [simp]: "hasTerm (x # xs) \<longleftrightarrow> (if xs = [] then x = 16 else hasTerm xs)"
  by (simp add: hasTerm_iff)

lemma hasTerm_Nil [simp]: "\<not> hasTerm []"
  by (simp add: hasTerm_def)

lemma hexKey_Cons [simp]: "hexKey (x # xs) \<longleftrightarrow> x = 16 \<and> xs = [] \<or> x < 16 \<and> hexKey xs"
  by (cases xs) (auto simp: hexKey_def)

lemma hexPath_Nil [simp]: "hexPath []"
  by (simp add: hexPath_def)

lemma hexPath_Cons [simp]: "hexPath (x # xs) \<longleftrightarrow> x = 16 \<and> xs = [] \<or> x < 16 \<and> hexPath xs"
  by (cases xs) (auto simp: hexPath_def)

lemma nib_unat: "(x :: byte) < 16 \<longleftrightarrow> unat x < 16" "(x :: byte) = 16 \<longleftrightarrow> unat x = 16"
  by (simp_all add: word_less_nat_alt word_unat_eq_iff)

lemma nib_index: "hexKey (x # xs) \<Longrightarrow> unat x < 17"
  by (auto simp: nib_unat)

lemma word_index [simp]: "i < 17 \<Longrightarrow> unat (word_of_nat i :: byte) = i"
  by (simp add: unat_of_nat)

lemma index_word [simp]: "word_of_nat (unat (x :: byte)) = x"
  by simp

section \<open>Taking apart and putting together\<close>

lemma length_fan [simp]: "length (fan p) = 17"
  by (simp add: fan_def)

lemma nth_fan: "i < 17 \<Longrightarrow> fan p ! i = step p (word_of_nat i)"
  by (simp add: fan_def)

lemma fan_eqI: "length cs = 17 \<Longrightarrow> (\<And>i. i < 17 \<Longrightarrow> step p (word_of_nat i) = cs ! i) \<Longrightarrow> fan p = cs"
  by (rule nth_equalityI) (auto simp: nth_fan)

lemma filter_upt_single: "i < n \<Longrightarrow> filter (\<lambda>j. j = i) [0..<n] = [i]"
  by (induction n) (auto simp: less_Suc_eq filter_empty_conv)

lemma nonNil_single:
  "i < length cs \<Longrightarrow> cs ! i \<noteq> PNil \<Longrightarrow> (\<And>j. j < length cs \<Longrightarrow> j \<noteq> i \<Longrightarrow> cs ! j = PNil) \<Longrightarrow> nonNil cs = [i]"
proof -
  assume a: "i < length cs" "cs ! i \<noteq> PNil" "\<And>j. j < length cs \<Longrightarrow> j \<noteq> i \<Longrightarrow> cs ! j = PNil"
  have "nonNil cs = filter (\<lambda>j. j = i) [0..<length cs]"
    unfolding nonNil_def using a by (intro filter_cong) auto
  also have "\<dots> = [i]" using a(1) by (rule filter_upt_single)
  finally show ?thesis .
qed

lemma nonNil_mem: "i \<in> set (nonNil cs) \<longleftrightarrow> i < length cs \<and> cs ! i \<noteq> PNil"
  by (auto simp: nonNil_def)

lemma nonNil_empty: "nonNil cs = [] \<longleftrightarrow> (\<forall>i < length cs. cs ! i = PNil)"
  using nonNil_mem by (metis list.set_intros(1) neq_Nil_conv empty_iff empty_set)

lemma nonNil_one:
  assumes "nonNil cs = [i]"
  shows "i < length cs" "cs ! i \<noteq> PNil" "\<And>j. j < length cs \<Longrightarrow> j \<noteq> i \<Longrightarrow> cs ! j = PNil"
  using nonNil_mem [of _ cs] unfolding assms by auto

lemma mk_cases:
  obtains "nonNil cs = []" "mk cs = PNil" | i where "nonNil cs = [i]" "mk cs = pcons (word_of_nat i) (cs ! i)"
  | "2 \<le> length (nonNil cs)" "mk cs = PFull cs"
proof -
  show thesis
  proof (cases "nonNil cs")
    case Nil
    then show thesis using that(1) by (simp add: mk_def)
  next
    case (Cons i js)
    then show thesis using that(2,3) by (cases js) (simp_all add: mk_def)
  qed
qed

lemma okChildren_nth: "okChildren cs \<Longrightarrow> i < 17 \<Longrightarrow> if i < 16 then wfT (cs ! i) else leafT (cs ! i)"
  by (auto simp: okChildren_def less_Suc_eq numeral_eq_Suc)

lemma wf_Short_Cons:
  assumes "wfT (PShort (y # k) q)"
  shows "if y = 16 then pshort k q = q \<and> pvalue q else y < 16 \<and> wfT (pshort k q) \<and> pshort k q \<noteq> PNil"
  using assms by (cases k) (auto simp: pshort_def split: if_splits)

lemma step_Short: "wfT (PShort k q) \<Longrightarrow> \<exists>y k'. k = y # k'"
  by (cases k) auto

lemma step_wf:
  assumes "wfT p"
  shows "x < 16 \<Longrightarrow> wfT (step p x)" and "leafT (step p 16)"
proof -
  show "wfT (step p x)" if "x < 16"
  proof (cases p)
    case (PShort k q)
    then show ?thesis using assms that wf_Short_Cons [of _ _ q] by (cases k) (auto simp del: wfT.simps(3) split: if_splits)
  next
    case (PFull cs)
    have "cs ! unat x \<in> set (take 16 cs)" if "length cs = 17"
      using that \<open>x < 16\<close> by (auto simp: in_set_conv_nth nib_unat intro!: exI [of _ "unat x"])
    then show ?thesis using assms PFull by auto
  qed (use assms in auto)
  show "leafT (step p 16)"
  proof (cases p)
    case (PShort k q)
    then show ?thesis using assms wf_Short_Cons [of _ _ q] by (cases k) (auto simp del: wfT.simps(3) simp: leafT_def split: if_splits)
  qed (use assms in \<open>auto simp: leafT_def\<close>)
qed

lemma okChildren_fan: "wfT p \<Longrightarrow> okChildren (fan p)"
  using step_wf [of p] by (auto simp: okChildren_def nth_fan nib_unat)

lemma okChildren_update:
  assumes "okChildren cs" and "i < 17" and "if i < 16 then wfT q else leafT q"
  shows "okChildren (cs[i := q])"
  using assms by (auto simp: okChildren_def nth_list_update)

lemma step_pcons: "wfT p \<or> leafT p \<Longrightarrow> step (pcons x p) y = (if y = x then p else PNil)"
  by (cases p) (auto simp: pshort_def leafT_def)

lemma fan_mk:
  assumes "okChildren cs" shows "fan (mk cs) = cs"
proof -
  have len: "length cs = 17" using assms by (simp add: okChildren_def)
  show ?thesis
  proof (cases cs rule: mk_cases)
    case 1
    then show ?thesis using len by (intro fan_eqI) (auto simp: nonNil_empty)
  next
    case (2 i)
    note one = nonNil_one [OF 2(1)]
    have "wfT (cs ! i) \<or> leafT (cs ! i)" using okChildren_nth [OF assms, of i] one(1) len by (auto split: if_splits)
    then have "step (mk cs) y = (if y = word_of_nat i then cs ! i else PNil)" for y using 2 step_pcons by simp
    moreover have "word_of_nat j = (word_of_nat i :: byte) \<longleftrightarrow> j = i" if "j < 17" for j
      using that one(1) len word_index by metis
    ultimately show ?thesis using one len by (intro fan_eqI) auto
  next
    case 3
    then show ?thesis using len by (intro fan_eqI) simp_all
  qed
qed

lemma wf_pcons:
  assumes "i < 17" and "if i < 16 then wfT p else leafT p" and "p \<noteq> PNil"
  shows "wfT (pcons (word_of_nat i) p)"
proof (cases "i < 16")
  case True
  then have "(word_of_nat i :: byte) < 16" using assms(1) by (simp add: nib_unat)
  then show ?thesis using assms True by (cases p) (auto simp: nib_unat)
next
  case False
  then have "(word_of_nat i :: byte) = 16" using assms(1) by (simp add: nib_unat)
  then show ?thesis using assms False by (cases p) (auto simp: leafT_def)
qed

lemma wf_mk: "okChildren cs \<Longrightarrow> wfT (mk cs)"
proof (cases cs rule: mk_cases)
  case (2 i)
  assume ok: "okChildren cs"
  note one = nonNil_one [OF 2(1)]
  then show ?thesis using ok 2(2) wf_pcons [OF _ okChildren_nth [OF ok]] by (simp add: okChildren_def)
next
  case 3
  assume ok: "okChildren cs"
  then have "wfT c" if "c \<in> set (take 16 cs)" for c using that by (auto simp: okChildren_def in_set_conv_nth)
  then show ?thesis using 3 ok by (simp add: okChildren_def)
qed simp

lemma mk_fan: "wfT p \<Longrightarrow> mk (fan p) = p"
proof (cases p)
  case PNil
  then have "nonNil (fan p) = []" by (simp add: nonNil_empty nth_fan)
  then show ?thesis using PNil by (simp add: mk_def)
next
  case (PShort k q)
  assume wf: "wfT p"
  then obtain y k' where k: "k = y # k'" using PShort step_Short by blast
  note c = wf_Short_Cons [OF wf [unfolded PShort k]]
  then have y: "unat y < 17" and nn: "pshort k' q \<noteq> PNil" by (auto simp: nib_unat split: if_splits)
  have "fan p ! i = (if i = unat y then pshort k' q else PNil)" if "i < 17" for i
    using that y by (auto simp: nth_fan PShort k)
  then have "nonNil (fan p) = [unat y]" "fan p ! unat y = pshort k' q" using y nn by (auto intro!: nonNil_single)
  moreover have "pcons y (pshort k' q) = PShort (y # k') q"
    using wf nn unfolding PShort k by (cases q) (auto simp: pshort_def split: if_splits)
  ultimately show ?thesis by (simp add: mk_def PShort k)
next
  case (PFull cs)
  assume "wfT p"
  then have "fan p = cs" "2 \<le> length (nonNil cs)" using PFull by (auto intro: fan_eqI)
  then show ?thesis using PFull by (cases cs rule: mk_cases) auto
qed simp

section \<open>Update, deletion and lookup\<close>

lemma okAt_Nil: "okAt p [] \<longleftrightarrow> leafT p"
  by (auto simp: okAt_def)

lemma okAt_Cons: "okAt p (x # xs) \<longleftrightarrow> wfT p \<and> hexKey (x # xs)"
  by (auto simp: okAt_def)

lemma okAt_step: "okAt p (x # xs) \<Longrightarrow> okAt (step p x) xs"
  using step_wf by (auto simp: okAt_def)

lemma okAt_other: "okAt p key \<Longrightarrow> okAt q key \<Longrightarrow> okAt p key' \<Longrightarrow> key = [] \<longleftrightarrow> key' = [] \<Longrightarrow> okAt q key'"
  by (auto simp: okAt_def)

lemma okChildren_at:
  assumes "okAt p (x # xs)" and "okAt q xs"
  shows "okChildren ((fan p)[unat x := q])"
proof (rule okChildren_update)
  show "okChildren (fan p)" "unat x < 17" using assms(1) okChildren_fan by (auto simp: okAt_Cons nib_unat)
  show "if unat x < 16 then wfT q else leafT q"
    using assms by (cases xs) (auto simp: okAt_def nib_unat)
qed

lemma step_mk_at:
  assumes "okAt p (x # xs)" and "okAt q xs" and "hexKey (y # ys)"
  shows "step (mk ((fan p)[unat x := q])) y = (if y = x then q else step p y)"
proof -
  let ?cs = "(fan p)[unat x := q]"
  have y: "unat y < 17" and x: "unat x < 17" using assms(1,3) nib_index by (auto simp only: okAt_Cons)
  have "step (mk ?cs) y = fan (mk ?cs) ! unat y" using y by (simp add: nth_fan)
  also have "\<dots> = ?cs ! unat y" using fan_mk [OF okChildren_at [OF assms(1,2)]] by simp
  also have "\<dots> = (if y = x then q else step p y)" using x y by (auto simp: nth_list_update nth_fan word_unat_eq_iff)
  finally show ?thesis .
qed

lemma pins_ok: "okAt p key \<Longrightarrow> v \<noteq> [] \<Longrightarrow> okAt (pins p key v) key"
proof (induction key arbitrary: p)
  case Nil
  then show ?case by (simp add: okAt_def leafT_def)
next
  case (Cons x xs)
  then have "okAt (pins (step p x) xs v) xs" using okAt_step by blast
  then have "wfT (pins p (x # xs) v)" using wf_mk [OF okChildren_at [OF Cons.prems(1)]] by simp
  then show ?case using Cons.prems by (simp add: okAt_Cons)
qed

lemma pdel_ok: "okAt p key \<Longrightarrow> okAt (pdel p key) key"
proof (induction key arbitrary: p)
  case Nil
  then show ?case by (simp add: okAt_def leafT_def)
next
  case (Cons x xs)
  then have "okAt (pdel (step p x) xs) xs" using okAt_step by blast
  then have "wfT (pdel p (x # xs))" using wf_mk [OF okChildren_at [OF Cons.prems]] by simp
  then show ?case using Cons.prems by (simp add: okAt_Cons)
qed

lemma plook_pins:
  "okAt p key \<Longrightarrow> okAt p key' \<Longrightarrow> v \<noteq> [] \<Longrightarrow> key = [] \<longleftrightarrow> key' = [] \<Longrightarrow>
    plook (pins p key v) key' = (if key' = key then Some v else plook p key')"
proof (induction key arbitrary: p key')
  case (Cons x xs)
  then obtain y ys where k: "key' = y # ys" by (cases key') auto
  have ok: "okAt (step p x) xs" "okAt (pins (step p x) xs v) xs" "okAt (step p y) ys"
    using Cons.prems k okAt_step pins_ok by blast+
  have e: "xs = [] \<longleftrightarrow> ys = []" if "y = x" using Cons.prems(1,2) that by (auto simp: k okAt_Cons)
  have "plook (pins p (x # xs) v) key' = plook (if y = x then pins (step p x) xs v else step p y) ys"
    using step_mk_at [OF Cons.prems(1) ok(2), of y ys] Cons.prems(2) by (simp add: k okAt_Cons)
  then show ?case using Cons.IH [OF ok(1), of ys] ok(3) Cons.prems(3) e by (auto simp: k)
qed simp

lemma plook_pdel:
  "okAt p key \<Longrightarrow> okAt p key' \<Longrightarrow> key = [] \<longleftrightarrow> key' = [] \<Longrightarrow>
    plook (pdel p key) key' = (if key' = key then None else plook p key')"
proof (induction key arbitrary: p key')
  case (Cons x xs)
  then obtain y ys where k: "key' = y # ys" by (cases key') auto
  have ok: "okAt (step p x) xs" "okAt (pdel (step p x) xs) xs" "okAt (step p y) ys"
    using Cons.prems k okAt_step pdel_ok by blast+
  have e: "xs = [] \<longleftrightarrow> ys = []" if "y = x" using Cons.prems(1,2) that by (auto simp: k okAt_Cons)
  have "plook (pdel p (x # xs)) key' = plook (if y = x then pdel (step p x) xs else step p y) ys"
    using step_mk_at [OF Cons.prems(1) ok(2), of y ys] Cons.prems(2) by (simp add: k okAt_Cons)
  then show ?case using Cons.IH [OF ok(1), of ys] ok(3) e by (auto simp: k)
qed simp

lemma fan_same: "i < 17 \<Longrightarrow> (fan p)[i := step p (word_of_nat i)] = fan p"
  by (metis list_update_id nth_fan)

lemma pins_same: "okAt p key \<Longrightarrow> plook p key = Some v \<Longrightarrow> pins p key v = p"
proof (induction key arbitrary: p)
  case Nil
  then show ?case by (simp split: ptrie.splits)
next
  case (Cons x xs)
  then have "pins (step p x) xs v = step p x" using okAt_step by auto
  then have "pins p (x # xs) v = mk (fan p)" using fan_same [of "unat x" p] nib_index [of x xs] Cons.prems(1) by (simp add: okAt_Cons del: hexKey_Cons)
  then show ?case using mk_fan Cons.prems(1) by (simp add: okAt_Cons)
qed

lemma pdel_absent: "okAt p key \<Longrightarrow> plook p key = None \<Longrightarrow> pdel p key = p"
proof (induction key arbitrary: p)
  case Nil
  then show ?case by (cases p) (auto simp: okAt_def leafT_def)
next
  case (Cons x xs)
  then have "pdel (step p x) xs = step p x" using okAt_step by auto
  then have "pdel p (x # xs) = mk (fan p)" using fan_same [of "unat x" p] nib_index [of x xs] Cons.prems(1) by (simp add: okAt_Cons del: hexKey_Cons)
  then show ?case using mk_fan Cons.prems(1) by (simp add: okAt_Cons)
qed

section \<open>A trie is determined by its content\<close>

fun weight :: "ptrie \<Rightarrow> nat" where
  "weight PNil = 0"
| "weight (PVal v) = 1"
| "weight (PShort k q) = length k + weight q"
| "weight (PFull cs) = 1 + sum_list (map weight cs)"

lemma weight_step: "weight (step p x) \<le> weight p" "p \<noteq> PNil \<Longrightarrow> wfT p \<Longrightarrow> weight (step p x) < weight p"
proof -
  have e: "weight (cs ! i) \<le> sum_list (map weight cs)" if "i < length cs" for i cs
    using that by (metis elem_le_sum_list length_map nth_map)
  show "weight (step p x) \<le> weight p"
    by (cases "(p, x)" rule: step.cases) (auto simp: pshort_def intro: le_SucI e)
  show "weight (step p x) < weight p" if "p \<noteq> PNil" "wfT p"
    using that e by (cases "(p, x)" rule: step.cases) (auto simp: pshort_def less_Suc_eq_le split: if_splits)
qed

lemma leaf_eq: "leafT p \<Longrightarrow> leafT q \<Longrightarrow> plook p [] = plook q [] \<Longrightarrow> p = q"
  by (cases p; cases q) (auto simp: leafT_def)

lemma content_determines:
  "wfT p \<Longrightarrow> wfT q \<Longrightarrow> (\<And>key. hexKey key \<Longrightarrow> plook p key = plook q key) \<Longrightarrow> p = q"
proof (induction "weight p + weight q" arbitrary: p q rule: less_induct)
  case less
  show ?case
  proof (cases "p = PNil \<and> q = PNil")
    case False
    have dec: "weight (step p x) + weight (step q x) < weight p + weight q" for x
      using False less.prems(1,2) weight_step [of p x] weight_step [of q x] by (metis add_le_less_mono add_less_le_mono)
    have "step p x = step q x" if x: "unat x < 17" for x
    proof (cases "x < 16")
      case True
      then have "plook (step p x) key = plook (step q x) key" if "hexKey key" for key
        using less.prems(3) [of "x # key"] that by simp
      then show ?thesis using True less.prems(1,2) step_wf(1) by (intro less.hyps [OF dec]) auto
    next
      case False
      then have "x = 16" using x by (simp add: nib_unat)
      then show ?thesis using step_wf(2) less.prems leaf_eq [of "step p 16" "step q 16"] less.prems(3) [of "[16]"] by simp
    qed
    then have "fan p = fan q" by (auto simp: fan_def)
    then show ?thesis using less.prems(1,2) mk_fan by metis
  qed simp
qed

section \<open>Common prefixes\<close>

lemma prefixLen_split:
  "\<exists>c a' b'. a = c @ a' \<and> b = c @ b' \<and> prefixLen a b = length c \<and> (a' = [] \<or> b' = [] \<or> hd a' \<noteq> hd b')"
proof (induction a b rule: prefixLen.induct)
  case (1 x as y bs)
  show ?case
  proof (cases "x = y")
    case True
    then obtain c a' b' where "as = c @ a'" "bs = c @ b'" "prefixLen as bs = length c" "a' = [] \<or> b' = [] \<or> hd a' \<noteq> hd b'"
      using 1 by auto
    then show ?thesis using True by (intro exI [of _ "x # c"] exI [of _ a'] exI [of _ b']) simp
  next
    case False
    then show ?thesis by (intro exI [of _ "[]"] exI [of _ "x # as"] exI [of _ "y # bs"]) simp
  qed
qed auto

lemma prefixLen_le: "prefixLen a b \<le> length a" "prefixLen a b \<le> length b"
  by (induction a b rule: prefixLen.induct) auto

definition indices :: "bytes \<Rightarrow> bool" where
  "indices k \<longleftrightarrow> (\<forall>x \<in> set k. unat x < 17)"

lemma indices_simps [simp]:
  "indices []" "indices (x # k) \<longleftrightarrow> unat x < 17 \<and> indices k" "indices (a @ b) \<longleftrightarrow> indices a \<and> indices b"
  by (auto simp: indices_def)

lemma hexKey_indices: "hexKey k \<Longrightarrow> indices k"
  by (induction k) (auto simp: nib_unat)

lemma hexPath_indices: "hexPath k \<Longrightarrow> indices k"
  by (induction k) (auto simp: nib_unat)

lemma plook_prefix: "plook (pshort (c @ k) q) (c @ r) = plook (pshort k q) r"
  by (induction c) (simp_all add: pshort_def)

lemma plook_PNil [simp]: "plook PNil key = None"
  by (induction key) simp_all

lemma plook_mismatch: "prefixLen key k < length k \<Longrightarrow> plook (pshort k q) key = None"
  by (induction key k rule: prefixLen.induct) (auto simp: pshort_def split: if_splits)

abbreviation wrap :: "bytes \<Rightarrow> ptrie \<Rightarrow> ptrie" where
  "wrap c p \<equiv> foldr pcons c p"

lemma wrap_simps [simp]:
  "wrap c PNil = PNil" "wrap c (PShort k q) = PShort (c @ k) q"
  "wrap c (PVal v) = pshort c (PVal v)" "wrap c (PFull cs) = pshort c (PFull cs)"
  by (induction c) (auto simp: pshort_def)

lemma fan_PNil [simp]: "fan PNil = replicate 17 PNil"
  by (rule fan_eqI) simp_all

lemma fan_PShort: "unat x < 17 \<Longrightarrow> fan (PShort (x # k) q) = (replicate 17 PNil)[unat x := pshort k q]"
  by (rule fan_eqI) (auto simp: nth_list_update word_unat_eq_iff)

lemma mk_single: "unat x < 17 \<Longrightarrow> mk ((replicate 17 PNil)[unat x := p]) = pcons x p"
proof (cases "p = PNil")
  case True
  assume "unat x < 17"
  then have "nonNil ((replicate 17 PNil)[unat x := PNil]) = []" unfolding nonNil_empty by (simp add: nth_list_update)
  then show ?thesis using True by (simp add: mk_def)
next
  case False
  assume "unat x < 17"
  then have "nonNil ((replicate 17 PNil)[unat x := p]) = [unat x]" using False by (intro nonNil_single) auto
  then show ?thesis using \<open>unat x < 17\<close> by (simp add: mk_def)
qed

lemma pins_prefix: "indices c \<Longrightarrow> pins (pshort (c @ k) q) (c @ r) v = wrap c (pins (pshort k q) r v)"
proof (induction c)
  case (Cons x c)
  have "pshort ((x # c) @ k) q = PShort (x # c @ k) q" by (simp add: pshort_def)
  then show ?case using Cons by (simp add: fan_PShort mk_single)
qed simp

lemma pdel_prefix: "indices c \<Longrightarrow> pdel (pshort (c @ k) q) (c @ r) = wrap c (pdel (pshort k q) r)"
proof (induction c)
  case (Cons x c)
  have "pshort ((x # c) @ k) q = PShort (x # c @ k) q" by (simp add: pshort_def)
  then show ?case using Cons by (simp add: fan_PShort mk_single)
qed simp

lemma pins_PNil: "indices r \<Longrightarrow> pins PNil r v = pshort r (PVal v)"
proof (induction r)
  case (Cons x r)
  then show ?case by (simp add: mk_single) (simp add: pshort_def)
qed (simp add: pshort_def)

text \<open>Two paths that part at their first nibble are the two children of a full node.\<close>

lemma mk_two:
  assumes "unat x < 17" and "unat y < 17" and "x \<noteq> y" and "p \<noteq> PNil" and "q \<noteq> PNil"
  shows "mk ((replicate 17 PNil)[unat y := q, unat x := p]) = PFull ((replicate 17 PNil)[unat y := q, unat x := p])"
proof -
  let ?cs = "(replicate 17 PNil)[unat y := q, unat x := p]"
  have n: "unat x \<noteq> unat y" using assms(3) by (simp add: word_unat_eq_iff)
  then have "unat x \<in> set (nonNil ?cs)" "unat y \<in> set (nonNil ?cs)" using assms by (auto simp: nonNil_mem nth_list_update)
  then show ?thesis using n by (cases ?cs rule: mk_cases) auto
qed

lemma pins_branch:
  assumes "unat x < 17" and "unat y < 17" and "x \<noteq> y" and "pshort k q \<noteq> PNil" and "indices r"
  shows "pins (PShort (y # k) q) (x # r) v = PFull ((replicate 17 PNil)[unat y := pshort k q, unat x := pshort r (PVal v)])"
proof -
  have "pshort r (PVal v) \<noteq> PNil" by (simp add: pshort_def)
  then show ?thesis using assms mk_two [of x y "pshort r (PVal v)" "pshort k q"] by (simp add: fan_PShort pins_PNil)
qed

text \<open>A key that agrees with a path as far as the path goes, and the rest of a key along a path.\<close>

lemma hexKey_append: "hexKey (c @ r) \<Longrightarrow> r \<noteq> [] \<Longrightarrow> nibbles c \<and> hexKey r"
  by (induction c) auto

lemma hexKey_terminated: "hexKey (c @ r) \<Longrightarrow> c \<noteq> [] \<Longrightarrow> hasTerm c \<longleftrightarrow> r = []"
  by (induction c) auto

lemma hexPath_append: "hexPath (c @ r) \<Longrightarrow> r \<noteq> [] \<Longrightarrow> nibbles c \<and> hexPath r"
  by (induction c) auto

section \<open>Full nodes\<close>

lemma pins_not_nil: "okAt p key \<Longrightarrow> v \<noteq> [] \<Longrightarrow> pins p key v \<noteq> PNil"
  using plook_pins [of p key key v] by auto

lemma nonNil_two:
  assumes "2 \<le> length (nonNil cs)"
  obtains i where "i \<noteq> x" "i < length cs" "cs ! i \<noteq> PNil"
proof -
  obtain i j js where n: "nonNil cs = i # j # js" using assms by (metis Suc_le_length_iff numeral_2_eq_2)
  have "distinct (nonNil cs)" by (simp add: nonNil_def)
  then have "i \<noteq> j" by (simp add: n)
  moreover have "i \<in> set (nonNil cs)" "j \<in> set (nonNil cs)" by (simp_all add: n)
  ultimately show thesis using that nonNil_mem by metis
qed

lemma mk_update_full:
  assumes "2 \<le> length (nonNil cs)" and "p \<noteq> PNil" and "x < length cs"
  shows "mk (cs[x := p]) = PFull (cs[x := p])"
proof -
  obtain i where i: "i \<noteq> x" "i < length cs" "cs ! i \<noteq> PNil" using nonNil_two [OF assms(1)] by blast
  then have "i \<in> set (nonNil (cs[x := p]))" "x \<in> set (nonNil (cs[x := p]))" using assms by (auto simp: nonNil_mem)
  then show ?thesis using i(1) by (cases "cs[x := p]" rule: mk_cases) auto
qed

lemma mk_update_not_nil:
  assumes "2 \<le> length (nonNil cs)" shows "nonNil (cs[x := p]) \<noteq> []"
proof -
  obtain i where "i \<noteq> x" "i < length cs" "cs ! i \<noteq> PNil" using nonNil_two [OF assms] by blast
  then show ?thesis unfolding nonNil_empty by auto
qed

lemma pcons_not_nil: "p \<noteq> PNil \<Longrightarrow> pcons x p \<noteq> PNil"
  by (cases p) auto

lemma mk_not_nil: "nonNil cs \<noteq> [] \<Longrightarrow> mk cs \<noteq> PNil"
  by (cases cs rule: mk_cases) (auto dest: nonNil_one(2) pcons_not_nil)

section \<open>Stores\<close>

text \<open>Sequences of operations on a store and on a map.  An update with an empty value deletes.\<close>

datatype storeOp = OpGet bytes | OpUpdate bytes bytes | OpDelete bytes

fun runOps :: "(bytes \<Rightarrow> 's \<Rightarrow> ('e + bytes option) \<times> 's) \<Rightarrow> (bytes \<Rightarrow> bytes \<Rightarrow> 's \<Rightarrow> ('e + unit) \<times> 's) \<Rightarrow>
    (bytes \<Rightarrow> 's \<Rightarrow> ('e + unit) \<times> 's) \<Rightarrow> storeOp list \<Rightarrow> 's \<Rightarrow> ('e + bytes option list) \<times> 's" where
  "runOps get put del [] s = (Inr [], s)"
| "runOps get put del (OpGet k # ops) s =
    bindE (get k s) (\<lambda>r s. bindE (runOps get put del ops s) (\<lambda>rs s. (Inr (r # rs), s)))"
| "runOps get put del (OpUpdate k v # ops) s = bindE (put k v s) (\<lambda>_ s. runOps get put del ops s)"
| "runOps get put del (OpDelete k # ops) s = bindE (del k s) (\<lambda>_ s. runOps get put del ops s)"

definition mapUpdate :: "bytes \<Rightarrow> bytes \<Rightarrow> (bytes \<Rightarrow> bytes option) \<Rightarrow> bytes \<Rightarrow> bytes option" where
  "mapUpdate k v m = m(k := if v = [] then None else Some v)"

fun specOps :: "storeOp list \<Rightarrow> (bytes \<Rightarrow> bytes option) \<Rightarrow> bytes option list \<times> (bytes \<Rightarrow> bytes option)" where
  "specOps [] m = ([], m)"
| "specOps (OpGet k # ops) m = (case specOps ops m of (rs, m') \<Rightarrow> (m k # rs, m'))"
| "specOps (OpUpdate k v # ops) m = specOps ops (mapUpdate k v m)"
| "specOps (OpDelete k # ops) m = specOps ops (m(k := None))"

text \<open>A store that represents a map, and that is good for a number of further operations.\<close>

locale kv_store =
  fixes repr :: "nat \<Rightarrow> 's \<Rightarrow> (bytes \<Rightarrow> bytes option) \<Rightarrow> bool"
    and get :: "bytes \<Rightarrow> 's \<Rightarrow> ('e + bytes option) \<times> 's"
    and put :: "bytes \<Rightarrow> bytes \<Rightarrow> 's \<Rightarrow> ('e + unit) \<times> 's"
    and del :: "bytes \<Rightarrow> 's \<Rightarrow> ('e + unit) \<times> 's"
  assumes get_repr: "repr (Suc n) s m \<Longrightarrow> \<exists>s'. get k s = (Inr (m k), s') \<and> repr n s' m"
    and put_repr: "repr (Suc n) s m \<Longrightarrow> \<exists>s'. put k v s = (Inr (), s') \<and> repr n s' (mapUpdate k v m)"
    and del_repr: "repr (Suc n) s m \<Longrightarrow> \<exists>s'. del k s = (Inr (), s') \<and> repr n s' (m(k := None))"
begin

lemma run_refines:
  "repr (length ops) s m \<Longrightarrow>
    \<exists>s'. runOps get put del ops s = (Inr (fst (specOps ops m)), s') \<and> repr 0 s' (snd (specOps ops m))"
proof (induction ops arbitrary: s m)
  case (Cons op ops)
  then have r: "repr (Suc (length ops)) s m" by simp
  show ?case
  proof (cases op)
    case (OpGet k)
    obtain s1 where s1: "get k s = (Inr (m k), s1)" "repr (length ops) s1 m" using get_repr [OF r, of k] by blast
    obtain s2 where "runOps get put del ops s1 = (Inr (fst (specOps ops m)), s2)" "repr 0 s2 (snd (specOps ops m))"
      using Cons.IH [OF s1(2)] by blast
    then show ?thesis using OpGet s1(1) by (simp add: case_prod_beta)
  next
    case (OpUpdate k v)
    obtain s1 where "put k v s = (Inr (), s1)" "repr (length ops) s1 (mapUpdate k v m)" using put_repr [OF r, of k v] by blast
    then show ?thesis using OpUpdate Cons.IH by simp
  next
    case (OpDelete k)
    obtain s1 where "del k s = (Inr (), s1)" "repr (length ops) s1 (m(k := None))" using del_repr [OF r, of k] by blast
    then show ?thesis using OpDelete Cons.IH by simp
  qed
qed simp

end

end
