(* ===== verification/Trie.thy ===== *)
theory Trie
  imports TrieNode TrieDatabase TrieSpec
begin

text \<open>
  The Merkle Patricia trie of \<^verbatim>\<open>common/trie/trie.go\<close>: lookup, insertion and deletion on nodes that
  are loaded from the database on demand.  Loading may in principle go on forever, so the
  recursions carry a bound; enough is the depth to which the trie can be loaded, and two
  more for an insertion.  The operations are shown to refine those of the specification,
  and with them those of a map from keys to values.
\<close>

section \<open>State\<close>

record Trie =
  db :: Database
  root :: node
  originalRoot :: bytes
  cachegen :: "16 word"
  cachelimit :: "16 word"

datatype trieErr = MissingNodeError bytes bytes | TriePanic | TrieRuns

definition emptyRoot :: bytes where
  "emptyRoot = [0x56, 0xe8, 0x1f, 0x17, 0x1b, 0xcc, 0x55, 0xa6, 0xff, 0x83, 0x45, 0xe6, 0x92, 0xc0, 0xf8, 0x6e,
     0x5b, 0x48, 0xe0, 0x1b, 0x99, 0x6c, 0xad, 0xc0, 0x01, 0x62, 0x2f, 0xb5, 0xe3, 0x63, 0xb4, 0x21]"

definition SetCacheLimit :: "16 word \<Rightarrow> Trie \<Rightarrow> Trie" where
  "SetCacheLimit l t = t\<lparr>cachelimit := l\<rparr>"

definition newFlag :: "Trie \<Rightarrow> nodeFlag" where
  "newFlag t = \<lparr>hash = None, gen = cachegen t, dirty = True\<rparr>"

section \<open>Loading nodes\<close>

definition mustDecodeNode :: "bytes \<Rightarrow> bytes \<Rightarrow> 16 word \<Rightarrow> trieErr + node" where
  "mustDecodeNode h buf g = (case decodeNode (Some h) buf g of Inl _ \<Rightarrow> Inl TriePanic | Inr n \<Rightarrow> Inr n)"

definition resolveHash :: "Trie \<Rightarrow> bytes \<Rightarrow> bytes \<Rightarrow> trieErr + node" where
  "resolveHash t n prefix =
    (let h = BytesToHash n in
     case Node (db t) h of
       Inl _ \<Rightarrow> Inl (MissingNodeError h prefix)
     | Inr None \<Rightarrow> Inl (MissingNodeError h prefix)
     | Inr (Some enc) \<Rightarrow> mustDecodeNode n enc (cachegen t))"

fun resolve :: "Trie \<Rightarrow> node \<Rightarrow> bytes \<Rightarrow> trieErr + node" where
  "resolve t (hashNode h) prefix = resolveHash t h prefix"
| "resolve t n prefix = Inr n"

definition New :: "bytes \<Rightarrow> Database \<Rightarrow> trieErr + Trie" where
  "New r d =
    (let t = \<lparr>db = d, root = NilNode, originalRoot = r, cachegen = 0, cachelimit = 0\<rparr> in
     if r \<noteq> zeroHash \<and> r \<noteq> emptyRoot then bindR (resolveHash t r []) (\<lambda>n. Inr (t\<lparr>root := n\<rparr>)) else Inr t)"

section \<open>Lookup\<close>

text \<open>The value (nil is \<^const>\<open>None\<close>), the node with what was loaded on the way, and whether
  anything was.\<close>

fun tryGet :: "nat \<Rightarrow> Trie \<Rightarrow> node \<Rightarrow> bytes \<Rightarrow> nat \<Rightarrow> trieErr + bytes option \<times> node \<times> bool" where
  "tryGet 0 t n key pos = Inl TrieRuns"
| "tryGet (Suc d) t NilNode key pos = Inr (None, NilNode, False)"
| "tryGet (Suc d) t (valueNode v) key pos = Inr (Some v, valueNode v, False)"
| "tryGet (Suc d) t (shortNode k val fl) key pos =
    (if length key < pos + length k \<or> k \<noteq> take (length k) (drop pos key) then Inr (None, shortNode k val fl, False)
     else bindR (tryGet d t val key (pos + length k)) (\<lambda>(value, newnode, didResolve).
       if didResolve then Inr (value, shortNode k newnode (fl\<lparr>gen := cachegen t\<rparr>), True)
       else Inr (value, shortNode k val fl, False)))"
| "tryGet (Suc d) t (fullNode cs fl) key pos =
    (if length key \<le> pos \<or> length cs \<le> unat (key ! pos) then Inl TriePanic
     else bindR (tryGet d t (cs ! unat (key ! pos)) key (pos + 1)) (\<lambda>(value, newnode, didResolve).
       if didResolve then Inr (value, fullNode (cs[unat (key ! pos) := newnode]) (fl\<lparr>gen := cachegen t\<rparr>), True)
       else Inr (value, fullNode cs fl, False)))"
| "tryGet (Suc d) t (hashNode h) key pos =
    bindR (resolveHash t h (take pos key)) (\<lambda>child.
      bindR (tryGet d t child key pos) (\<lambda>(value, newnode, _). Inr (value, newnode, True)))"

definition TryGet :: "nat \<Rightarrow> bytes \<Rightarrow> Trie \<Rightarrow> (trieErr + bytes option) \<times> Trie" where
  "TryGet d key t =
    (case tryGet d t (root t) (keybytesToHex key) 0 of
       Inl e \<Rightarrow> (Inl e, t)
     | Inr (value, newroot, didResolve) \<Rightarrow> (Inr value, if didResolve then t\<lparr>root := newroot\<rparr> else t))"

section \<open>Insertion\<close>

text \<open>Whether the node changed, and the node.  The value is a node because a short node that is
  split hands its own child on.\<close>

fun insert :: "nat \<Rightarrow> Trie \<Rightarrow> node \<Rightarrow> bytes \<Rightarrow> bytes \<Rightarrow> node \<Rightarrow> trieErr + bool \<times> node" where
  "insert 0 t n prefix key value = Inl TrieRuns"
| "insert (Suc d) t n prefix key value =
    (if length key = 0
     then case n of
         valueNode v \<Rightarrow> (case value of valueNode w \<Rightarrow> Inr (v \<noteq> w, value) | _ \<Rightarrow> Inl TriePanic)
       | _ \<Rightarrow> Inr (True, value)
     else case n of
         shortNode k val fl \<Rightarrow>
          (let matchlen = prefixLen key k in
           if matchlen = length k
           then bindR (insert d t val (prefix @ take matchlen key) (drop matchlen key) value) (\<lambda>(dirty, nn).
             if \<not> dirty then Inr (False, n) else Inr (True, shortNode k nn (newFlag t)))
           else if length key \<le> matchlen \<or> 17 \<le> unat (k ! matchlen) \<or> 17 \<le> unat (key ! matchlen) then Inl TriePanic
           else
             bindR (insert d t NilNode (prefix @ take (matchlen + 1) k) (drop (matchlen + 1) k) val) (\<lambda>(_, old).
             bindR (insert d t NilNode (prefix @ take (matchlen + 1) key) (drop (matchlen + 1) key) value) (\<lambda>(_, new).
               let branch = fullNode ((replicate 17 NilNode)[unat (k ! matchlen) := old, unat (key ! matchlen) := new]) (newFlag t) in
               if matchlen = 0 then Inr (True, branch)
               else Inr (True, shortNode (take matchlen key) branch (newFlag t)))))
       | fullNode cs fl \<Rightarrow>
          (if length cs \<le> unat (key ! 0) then Inl TriePanic
           else bindR (insert d t (cs ! unat (key ! 0)) (prefix @ [key ! 0]) (drop 1 key) value) (\<lambda>(dirty, nn).
             if \<not> dirty then Inr (False, n) else Inr (True, fullNode (cs[unat (key ! 0) := nn]) (newFlag t))))
       | NilNode \<Rightarrow> Inr (True, shortNode key value (newFlag t))
       | hashNode h \<Rightarrow>
          bindR (resolveHash t h prefix) (\<lambda>rn.
          bindR (insert d t rn prefix key value) (\<lambda>(dirty, nn). if \<not> dirty then Inr (False, rn) else Inr (True, nn)))
       | valueNode _ \<Rightarrow> Inl TriePanic)"

section \<open>Deletion\<close>

text \<open>The scan for the only child that is left: -1 for none, -2 for several.\<close>

fun onlyChild :: "int \<Rightarrow> nat \<Rightarrow> node list \<Rightarrow> int" where
  "onlyChild pos i [] = pos"
| "onlyChild pos i (cld # cs) =
    (if cld \<noteq> NilNode then (if pos = -1 then onlyChild (int i) (i + 1) cs else -2) else onlyChild pos (i + 1) cs)"

text \<open>What \<^verbatim>\<open>delete\<close> does with a full node one child of which it has replaced.\<close>

definition shrink :: "Trie \<Rightarrow> bytes \<Rightarrow> node list \<Rightarrow> trieErr + bool \<times> node" where
  "shrink t prefix cs =
    (let pos = onlyChild (-1) 0 cs in
     if pos \<ge> 0
     then if pos \<noteq> 16
       then bindR (resolve t (cs ! nat pos) prefix) (\<lambda>cnode.
         case cnode of
           shortNode k val _ \<Rightarrow> Inr (True, shortNode (word_of_int pos # k) val (newFlag t))
         | _ \<Rightarrow> Inr (True, shortNode [word_of_int pos] (cs ! nat pos) (newFlag t)))
       else Inr (True, shortNode [word_of_int pos] (cs ! nat pos) (newFlag t))
     else Inr (True, fullNode cs (newFlag t)))"

fun delete :: "nat \<Rightarrow> Trie \<Rightarrow> node \<Rightarrow> bytes \<Rightarrow> bytes \<Rightarrow> trieErr + bool \<times> node" where
  "delete 0 t n prefix key = Inl TrieRuns"
| "delete (Suc d) t (shortNode k val fl) prefix key =
    (let matchlen = prefixLen key k in
     if matchlen < length k then Inr (False, shortNode k val fl)
     else if matchlen = length key then Inr (True, NilNode)
     else bindR (delete d t val (prefix @ take (length k) key) (drop (length k) key)) (\<lambda>(dirty, child).
       if \<not> dirty then Inr (False, shortNode k val fl)
       else case child of
           shortNode k2 val2 _ \<Rightarrow> Inr (True, shortNode (k @ k2) val2 (newFlag t))
         | _ \<Rightarrow> Inr (True, shortNode k child (newFlag t))))"
| "delete (Suc d) t (fullNode cs fl) prefix key =
    (if length key = 0 \<or> length cs \<le> unat (key ! 0) then Inl TriePanic
     else bindR (delete d t (cs ! unat (key ! 0)) (prefix @ [key ! 0]) (drop 1 key)) (\<lambda>(dirty, nn).
       if \<not> dirty then Inr (False, fullNode cs fl) else shrink t prefix (cs[unat (key ! 0) := nn])))"
| "delete (Suc d) t (valueNode v) prefix key = Inr (True, NilNode)"
| "delete (Suc d) t NilNode prefix key = Inr (False, NilNode)"
| "delete (Suc d) t (hashNode h) prefix key =
    bindR (resolveHash t h prefix) (\<lambda>rn.
    bindR (delete d t rn prefix key) (\<lambda>(dirty, nn). if \<not> dirty then Inr (False, rn) else Inr (True, nn)))"

section \<open>The methods\<close>

definition TryDelete :: "nat \<Rightarrow> bytes \<Rightarrow> Trie \<Rightarrow> (trieErr + unit) \<times> Trie" where
  "TryDelete d key t =
    (case delete d t (root t) [] (keybytesToHex key) of Inl e \<Rightarrow> (Inl e, t) | Inr (_, n) \<Rightarrow> (Inr (), t\<lparr>root := n\<rparr>))"

definition TryUpdate :: "nat \<Rightarrow> bytes \<Rightarrow> bytes \<Rightarrow> Trie \<Rightarrow> (trieErr + unit) \<times> Trie" where
  "TryUpdate d key value t =
    (if length value \<noteq> 0
     then case insert d t (root t) [] (keybytesToHex key) (valueNode value) of
         Inl e \<Rightarrow> (Inl e, t) | Inr (_, n) \<Rightarrow> (Inr (), t\<lparr>root := n\<rparr>)
     else case delete d t (root t) [] (keybytesToHex key) of
         Inl e \<Rightarrow> (Inl e, t) | Inr (_, n) \<Rightarrow> (Inr (), t\<lparr>root := n\<rparr>))"

text \<open>The variants that log an error instead of returning it.\<close>

definition Get :: "nat \<Rightarrow> bytes \<Rightarrow> Trie \<Rightarrow> bytes option \<times> Trie" where
  "Get d key t = (case TryGet d key t of (Inl e, t) \<Rightarrow> (None, t) | (Inr v, t) \<Rightarrow> (v, t))"

definition Update :: "nat \<Rightarrow> bytes \<Rightarrow> bytes \<Rightarrow> Trie \<Rightarrow> Trie" where
  "Update d key value t = snd (TryUpdate d key value t)"

definition Delete :: "nat \<Rightarrow> bytes \<Rightarrow> Trie \<Rightarrow> Trie" where
  "Delete d key t = snd (TryDelete d key t)"

section \<open>The trie a node stands for\<close>

text \<open>The trie that is there when every hash is replaced by the node stored under it, to a depth.
  The cached hash and the dirty flag of every node are checked with \<open>A\<close>, at the top of the
  trie (\<open>outer\<close>) and below it; a hash is a label of its own.\<close>

type_synonym labels = "bool \<Rightarrow> bytes option \<Rightarrow> bool \<Rightarrow> ptrie \<Rightarrow> bool"

fun view :: "labels \<Rightarrow> bool \<Rightarrow> nat \<Rightarrow> Trie \<Rightarrow> node \<Rightarrow> ptrie option" where
  "view A outer 0 t n = None"
| "view A outer (Suc d) t NilNode = Some PNil"
| "view A outer (Suc d) t (valueNode v) = Some (PVal v)"
| "view A outer (Suc d) t (hashNode h) =
    (case resolveHash t h [] of
       Inl _ \<Rightarrow> None
     | Inr n \<Rightarrow> Option.bind (view A outer d t n) (\<lambda>p. if A outer (Some h) False p then Some p else None))"
| "view A outer (Suc d) t (shortNode k v f) =
    Option.bind (view A False d t v) (\<lambda>q. if A outer (hash f) (dirty f) (PShort k q) then Some (PShort k q) else None)"
| "view A outer (Suc d) t (fullNode cs f) =
    (if length cs = 17
     then Option.bind (those (map (view A False d t) cs)) (\<lambda>ps. if A outer (hash f) (dirty f) (PFull ps) then Some (PFull ps) else None)
     else None)"

abbreviation anyLabel :: labels where
  "anyLabel \<equiv> (\<lambda>_ _ _ _. True)"

lemma those_Some: "those xs = Some ys \<longleftrightarrow> xs = map Some ys"
  by (induction xs arbitrary: ys) (auto split: option.splits)

lemma view_simps:
  "view A outer (Suc d) t (shortNode k v f) = Some p \<longleftrightarrow>
    (\<exists>q. p = PShort k q \<and> view A False d t v = Some q \<and> A outer (hash f) (dirty f) (PShort k q))"
  "view A outer (Suc d) t (fullNode cs f) = Some p \<longleftrightarrow>
    (\<exists>ps. p = PFull ps \<and> length cs = 17 \<and> map (view A False d t) cs = map Some ps \<and> A outer (hash f) (dirty f) (PFull ps))"
  "view A outer (Suc d) t (hashNode h) = Some p \<longleftrightarrow>
    (\<exists>n. resolveHash t h [] = Inr n \<and> view A outer d t n = Some p \<and> A outer (Some h) False p)"
  by (auto simp: those_Some bind_eq_Some_conv split: sum.splits)

declare view.simps(4-6) [simp del]
declare view_simps [simp]

lemma view_Suc: "view A outer d t n = Some p \<Longrightarrow> view A outer (Suc d) t n = Some p"
proof (induction d arbitrary: outer n p)
  case (Suc d)
  show ?case
  proof (cases n)
    case (fullNode cs f)
    then obtain ps where ps: "p = PFull ps" "length cs = 17" "map (view A False d t) cs = map Some ps" "A outer (hash f) (dirty f) (PFull ps)"
      using Suc.prems by auto
    then have "map (view A False (Suc d) t) cs = map Some ps"
      using Suc.IH by (auto simp: list_eq_iff_nth_eq)
    then show ?thesis using fullNode ps by simp
  qed (use Suc in auto)
qed simp

lemma view_mono: "view A outer d t n = Some p \<Longrightarrow> d \<le> d' \<Longrightarrow> view A outer d' t n = Some p"
proof -
  assume v: "view A outer d t n = Some p"
  assume "d \<le> d'"
  then show ?thesis using v by (rule dec_induct) (auto intro: view_Suc)
qed

lemma view_pos: "view A outer d t n = Some p \<Longrightarrow> 0 < d"
  by (cases d) auto

lemma resolveHash_root [simp]: "resolveHash (t\<lparr>root := r\<rparr>) = resolveHash t"
  by (simp add: resolveHash_def fun_eq_iff Let_def split: sum.split option.split)

lemma view_root [simp]: "view A outer d (t\<lparr>root := r\<rparr>) = view A outer d t"
proof (induction d arbitrary: outer)
  case (Suc d)
  show ?case
  proof
    fix n show "view A outer (Suc d) (t\<lparr>root := r\<rparr>) n = view A outer (Suc d) t n"
      by (cases n) (simp_all add: Suc view.simps cong: sum.case_cong)
  qed
qed (simp add: fun_eq_iff)

lemma resolveHash_path: "resolveHash t h [] = Inr n \<Longrightarrow> resolveHash t h prefix = Inr n"
  by (auto simp: resolveHash_def Let_def split: sum.splits option.splits)

lemma resolveHash_shape:
  assumes "resolveHash t h prefix = Inr n"
  obtains k v f where "n = shortNode k v f" | cs f where "n = fullNode cs f"
  using assms decodeNode_shape
  by (auto simp: resolveHash_def mustDecodeNode_def Let_def split: sum.splits option.splits) metis

section \<open>Lookup\<close>

lemma prefixLen_full: "prefixLen a b = length b \<longleftrightarrow> (\<exists>r. a = b @ r)"
  by (induction a b rule: prefixLen.induct) auto

lemma okAt_short:
  assumes "okAt (PShort k q) (k @ r)" shows "okAt q r" and "if r = [] then pvalue q else isFull q"
proof -
  have a: "wfT (PShort k q)" "hexKey (k @ r)" using assms by (auto simp: okAt_def leafT_def)
  then have "hasTerm k \<longleftrightarrow> r = []" using hexKey_terminated by auto
  then show "okAt q r" "if r = [] then pvalue q else isFull q"
    using a hexKey_append [of k r] by (auto simp: okAt_def leafT_def)
qed

lemma view_full:
  assumes "map (view A False d t) cs = map Some ps" and "i < length cs"
  shows "i < length ps" and "view A False d t (cs ! i) = Some (ps ! i)"
proof -
  show i: "i < length ps" using assms by (metis length_map)
  then show "view A False d t (cs ! i) = Some (ps ! i)" using assms by (metis nth_map)
qed

lemma view_full_update:
  assumes "map (view A False d t) cs = map Some ps" and "view A False d t n = Some p"
  shows "map (view A False d t) (cs[i := n]) = map Some (ps[i := p])"
  using assms by (simp add: map_update)

lemma okAt_full:
  assumes "okAt (PFull ps) key"
  obtains x xs where "key = x # xs" "unat x < 17" "length ps = 17" "okAt (ps ! unat x) xs" "fan (PFull ps) = ps"
proof -
  have wf: "wfT (PFull ps)" and key: "hexKey key" using assms by (auto simp: okAt_def leafT_def)
  then obtain x xs where k: "key = x # xs" by (cases key) auto
  have "unat x < 17" using key k nib_index by blast
  moreover have "okAt (ps ! unat x) xs" using okAt_step [of "PFull ps" x xs] assms k wf \<open>unat x < 17\<close> by simp
  moreover have "fan (PFull ps) = ps" using wf by (intro fan_eqI) auto
  ultimately show thesis using that k wf by simp
qed

lemma drop_Cons_nth: "drop pos key = x # xs \<Longrightarrow> pos < length key \<and> key ! pos = x \<and> drop (pos + 1) key = xs"
  by (metis Cons_nth_drop_Suc Suc_eq_plus1 drop_all leI list.distinct(1) list.inject)

lemma drop_append_eq:
  assumes "drop pos key = k @ r" and "pos \<le> length key"
  shows "drop (pos + length k) key = r" and "pos + length k \<le> length key"
proof -
  have "drop (length k) (drop pos key) = r" "length (drop pos key) = length k + length r" by (simp_all only: assms(1)) simp_all
  then show "drop (pos + length k) key = r" "pos + length k \<le> length key" using assms(2) by (simp_all add: add.commute)
qed

lemma tryGet_view:
  "view A outer d t n = Some p \<Longrightarrow> okAt p (drop pos key) \<Longrightarrow> pos \<le> length key \<Longrightarrow> d \<le> f \<Longrightarrow>
    \<exists>n' b. tryGet f t n key pos = Inr (plook p (drop pos key), n', b) \<and> view A outer d t n' = Some p"
proof (induction d arbitrary: outer n p pos f)
  case (Suc d)
  obtain f' where f: "f = Suc f'" "d \<le> f'" using Suc.prems(4) by (cases f) auto
  show ?case
  proof (cases n)
    case NilNode
    then show ?thesis using Suc.prems f by auto
  next
    case (valueNode v)
    then have "drop pos key = []" using Suc.prems by (auto simp: okAt_def leafT_def)
    then show ?thesis using valueNode Suc.prems f by auto
  next
    case (hashNode h)
    then obtain m where m: "resolveHash t h [] = Inr m" "view A outer d t m = Some p" using Suc.prems by auto
    then obtain n' b where "tryGet f' t m key pos = Inr (plook p (drop pos key), n', b)" "view A outer d t n' = Some p"
      using Suc.IH Suc.prems f by blast
    then show ?thesis using hashNode f resolveHash_path [OF m(1)] view_Suc by auto
  next
    case (shortNode k v fl)
    then obtain q where q: "p = PShort k q" "view A False d t v = Some q" "A outer (hash fl) (dirty fl) (PShort k q)"
      using Suc.prems by auto
    show ?thesis
    proof (cases "\<exists>r. drop pos key = k @ r")
      case True
      then obtain r where r: "drop pos key = k @ r" by blast
      note d = drop_append_eq [OF r Suc.prems(3)]
      obtain n' b where "tryGet f' t v key (pos + length k) = Inr (plook q r, n', b)" "view A False d t n' = Some q"
        using Suc.IH [OF q(2), of "pos + length k" f'] okAt_short(1) [of k q r] Suc.prems(2) q r d f by auto
      moreover have "plook p (drop pos key) = plook q r"
        using plook_prefix [of k "[]" q r] Suc.prems(2) q r by (auto simp: pshort_def okAt_def leafT_def)
      moreover have "k = take (length k) (drop pos key)" using r by simp
      ultimately show ?thesis using shortNode f d(2) q by auto
    next
      case False
      then have "prefixLen (drop pos key) k < length k"
        using prefixLen_full [of "drop pos key" k] prefixLen_le(2) [of "drop pos key" k] by auto
      then have "plook p (drop pos key) = None"
        using plook_mismatch [of "drop pos key" k q] q by (auto simp: pshort_def split: if_splits)
      moreover have "length key < pos + length k \<or> k \<noteq> take (length k) (drop pos key)"
        using False by (metis append_take_drop_id)
      ultimately show ?thesis using shortNode f Suc.prems(1) by auto
    qed
  next
    case (fullNode cs fl)
    then obtain ps where ps: "p = PFull ps" "length cs = 17" "map (view A False d t) cs = map Some ps"
        "A outer (hash fl) (dirty fl) (PFull ps)" using Suc.prems by auto
    obtain x xs where x: "drop pos key = x # xs" "unat x < 17" "okAt (ps ! unat x) xs" "length ps = 17"
      using okAt_full [of ps "drop pos key"] Suc.prems(2) ps(1) by blast
    have d: "pos < length key" "key ! pos = x" "drop (pos + 1) key = xs" using drop_Cons_nth [OF x(1)] by auto
    obtain n' b where "tryGet f' t (cs ! unat x) key (pos + 1) = Inr (plook (ps ! unat x) xs, n', b)" "view A False d t n' = Some (ps ! unat x)"
      using Suc.IH [of False "cs ! unat x" "ps ! unat x" "pos + 1" f'] view_full [OF ps(3)] x ps(2) d f by auto
    then show ?thesis using fullNode f d x ps view_full_update [OF ps(3), of n' "ps ! unat x" "unat x"] by auto
  qed
qed simp

section \<open>Shapes\<close>

lemma insert_nil: "insert (Suc d) t NilNode prefix key value = Inr (True, if key = [] then value else shortNode key value (newFlag t))"
  by simp

lemma view_replicate: "map (view A False (Suc d) t) (replicate n NilNode) = map Some (replicate n PNil)"
  by (simp add: map_replicate_const)

lemma okAt_mismatch:
  assumes "okAt (PShort k q) key" and "prefixLen key k \<noteq> length k"
  obtains c x xs y ys where "key = c @ x # xs" "k = c @ y # ys" "x \<noteq> y"
proof -
  have wf: "hexPath k" and hk: "hexKey key" using assms(1) by (auto simp: okAt_def leafT_def)
  obtain c a' b' where s: "key = c @ a'" "k = c @ b'" "prefixLen key k = length c" "a' = [] \<or> b' = [] \<or> hd a' \<noteq> hd b'"
    using prefixLen_split by blast
  have b: "b' \<noteq> []" using s assms(2) by auto
  have "a' \<noteq> []"
  proof
    assume "a' = []"
    then have "hasTerm c" using s hk by (simp add: hexKey_def)
    then show False using hexPath_append [of c b'] wf s(2) b nibbles_no_term by blast
  qed
  then show thesis using that [of c "hd a'" "tl a'" "hd b'" "tl b'"] s b by auto
qed

lemma pins_full:
  assumes "okAt (PFull ps) (x # xs)" and "v \<noteq> []"
  shows "pins (PFull ps) (x # xs) v = PFull (ps[unat x := pins (ps ! unat x) xs v])"
proof -
  have ok: "unat x < 17" "length ps = 17" "okAt (ps ! unat x) xs" "fan (PFull ps) = ps"
    using okAt_full [OF assms(1)] by auto
  have "2 \<le> length (nonNil ps)" using assms(1) by (auto simp: okAt_def leafT_def)
  then show ?thesis using mk_update_full [of ps "pins (ps ! unat x) xs v" "unat x"] pins_not_nil [OF ok(3) assms(2)] ok by simp
qed

lemma wrap_pins:
  assumes "okAt (PShort k q) (k @ r)" and "v \<noteq> []" and "k \<noteq> []"
  shows "wrap k (pins q r v) = PShort k (pins q r v)"
proof (cases r)
  case Nil
  then show ?thesis using assms(3) by (simp add: pshort_def)
next
  case (Cons x xs)
  then obtain ps where q: "q = PFull ps" using okAt_short(2) [OF assms(1)] by (cases q) auto
  then show ?thesis using okAt_short(1) [OF assms(1)] pins_full [of ps x xs v] Cons assms by (simp add: pshort_def del: pins.simps)
qed

fun isHash :: "node \<Rightarrow> bool" where
  "isHash (hashNode _) = True"
| "isHash _ = False"

lemma view_shape:
  assumes "view A outer (Suc d) t n = Some p"
  shows "p = PNil \<longleftrightarrow> n = NilNode" and "n \<noteq> NilNode \<Longrightarrow> p \<noteq> PNil"
proof -
  show "p = PNil \<longleftrightarrow> n = NilNode"
  proof (cases n)
    case (hashNode h)
    then obtain m where m: "resolveHash t h [] = Inr m" "view A outer d t m = Some p" using assms by auto
    then obtain d' where "d = Suc d'" using view_pos by (cases d) auto
    from m(1) show ?thesis by (rule resolveHash_shape) (use m(2) hashNode \<open>d = _\<close> in auto)
  qed (use assms in auto)
  then show "n \<noteq> NilNode \<Longrightarrow> p \<noteq> PNil" by simp
qed

text \<open>The scan counts the children that are not nil.\<close>

lemma onlyChild_scan:
  "onlyChild pos i cs =
    (case filter (\<lambda>j. cs ! j \<noteq> NilNode) [0..<length cs] of
       [] \<Rightarrow> pos | [j] \<Rightarrow> (if pos = -1 then int (i + j) else -2) | _ \<Rightarrow> -2)"
proof (induction cs arbitrary: pos i)
  case (Cons c cs)
  have "[0..<length (c # cs)] = 0 # map Suc [0..<length cs]" by (simp add: upt_conv_Cons map_Suc_upt del: upt_Suc)
  then have "filter (\<lambda>j. (c # cs) ! j \<noteq> NilNode) [0..<length (c # cs)] =
      (if c \<noteq> NilNode then [0] else []) @ map Suc (filter (\<lambda>j. cs ! j \<noteq> NilNode) [0..<length cs])"
    by (simp add: filter_map comp_def del: upt_Suc)
  then show ?case using Cons by (simp split: list.split)
qed simp

lemma onlyChild_view:
  assumes "map (view A False d t) cs = map Some ps"
  shows "onlyChild (-1) 0 cs = (case nonNil ps of [] \<Rightarrow> -1 | [i] \<Rightarrow> int i | _ \<Rightarrow> -2)"
proof -
  have len: "length cs = length ps" using assms by (metis length_map)
  have "cs ! j \<noteq> NilNode \<longleftrightarrow> ps ! j \<noteq> PNil" if "j < length cs" for j
  proof -
    have v: "view A False d t (cs ! j) = Some (ps ! j)" using view_full [OF assms that] by simp
    then obtain d' where "d = Suc d'" using view_pos by (cases d) auto
    then show ?thesis using view_shape(1) [of A False d'] v by blast
  qed
  then have "filter (\<lambda>j. cs ! j \<noteq> NilNode) [0..<length cs] = nonNil ps"
    unfolding nonNil_def len by (intro filter_cong) auto
  then show ?thesis by (simp add: onlyChild_scan split: list.split)
qed

lemma resolve_view:
  assumes "view A outer d t n = Some p"
  obtains m where "resolve t n prefix = Inr m" "view A outer d t m = Some p" "\<not> isHash m"
proof (cases n)
  case (hashNode h)
  obtain d' where d: "d = Suc d'" using view_pos [OF assms] by (cases d) auto
  obtain m where m: "resolveHash t h [] = Inr m" "view A outer d' t m = Some p" using assms hashNode d by auto
  have "\<not> isHash m" using m(1) by (rule resolveHash_shape) auto
  then show thesis using that [of m] hashNode resolveHash_path [OF m(1)] view_Suc [OF m(2)] d by simp
qed (use that assms in auto)

section \<open>Insertion and deletion\<close>

text \<open>What an insertion of \<open>v\<close> below \<open>p\<close> returns.\<close>

definition inserts :: "labels \<Rightarrow> bool \<Rightarrow> nat \<Rightarrow> Trie \<Rightarrow> ptrie \<Rightarrow> bytes \<Rightarrow> bytes \<Rightarrow> trieErr + bool \<times> node \<Rightarrow> bool" where
  "inserts A outer d t p key v r \<longleftrightarrow>
     (\<exists>b n'. r = Inr (b, n') \<and> view A outer d t n' = Some (pins p key v) \<and> (\<not> b \<longrightarrow> pins p key v = p))"

text \<open>What a deletion of \<open>key\<close> below \<open>p\<close> returns: a node for the smaller trie, which is a loaded one
  if anything changed.\<close>

definition deletes :: "labels \<Rightarrow> bool \<Rightarrow> nat \<Rightarrow> Trie \<Rightarrow> ptrie \<Rightarrow> bytes \<Rightarrow> trieErr + bool \<times> node \<Rightarrow> bool" where
  "deletes A outer d t p key r \<longleftrightarrow> (\<exists>b n'. r = Inr (b, n') \<and> view A outer d t n' = Some (pdel p key) \<and> (if b then \<not> isHash n' else pdel p key = p))"

text \<open>The labels an update has to give: a node that is made anew has no hash and is dirty.\<close>

locale labelling =
  fixes A :: labels
  assumes fresh_label: "A outer None True p"
begin

lemma view_short_new:
  "view A outer d t v = Some q \<Longrightarrow> k = [] \<or> view A False d t v = Some q \<Longrightarrow>
    view A outer (Suc d) t (if k = [] then v else shortNode k v (newFlag t)) = Some (pshort k q)"
  by (auto simp: pshort_def view_Suc newFlag_def fresh_label)

text \<open>The full node in which a path and a key part.\<close>

lemma insert_branch:
  assumes v: "view A False d t val = Some q" and key: "key = c @ x # xs" and k: "k = c @ y # ys" and ne: "x \<noteq> y"
    and ok: "okAt (PShort k q) key" and f: "2 \<le> f"
  shows "\<exists>n'. insert (Suc f) t (shortNode k val fl) prefix key (valueNode w) = Inr (True, n') \<and>
    view A outer (d + 3) t n' = Some (pins (PShort k q) key w)"
proof -
  have wf: "wfT (PShort k q)" and hk: "hexKey key" using ok by (auto simp: okAt_def leafT_def)
  have ind: "indices key" "indices k" using wf hk hexKey_indices hexPath_indices by auto
  then have u: "unat x < 17" "unat y < 17" "indices c" "indices xs" by (auto simp: key k)
  have len: "prefixLen key k = length c" using ne unfolding key k by (induction c) auto
  obtain f' where f': "f = Suc f'" using f by (cases f) auto
  let ?old = "if ys = [] then val else shortNode ys val (newFlag t)"
  let ?new = "if xs = [] then valueNode w else shortNode xs (valueNode w) (newFlag t)"
  let ?branch = "fullNode ((replicate 17 NilNode)[unat y := ?old, unat x := ?new]) (newFlag t)"
  have "q \<noteq> PNil" using wf by (auto split: if_splits)
  then have "pins (PShort (y # ys) q) (x # xs) w = PFull ((replicate 17 PNil)[unat y := pshort ys q, unat x := pshort xs (PVal w)])"
    using u ne by (intro pins_branch) (auto simp: pshort_def)
  then have spec: "pins (PShort k q) key w = pshort c (PFull ((replicate 17 PNil)[unat y := pshort ys q, unat x := pshort xs (PVal w)]))"
    using pins_prefix [OF u(3), of "y # ys" q "x # xs" w] by (simp add: key k pshort_def)
  obtain d' where d': "d = Suc d'" using view_pos [OF v] by (cases d) auto
  have "view A False (Suc d) t ?old = Some (pshort ys q)" using view_short_new [OF v] v by simp
  moreover have "view A False (Suc d) t ?new = Some (pshort xs (PVal w))" using view_short_new [of False d t "valueNode w" "PVal w" xs] d' by simp
  ultimately have "map (view A False (Suc d) t) ((replicate 17 NilNode)[unat y := ?old, unat x := ?new]) =
      map Some ((replicate 17 PNil)[unat y := pshort ys q, unat x := pshort xs (PVal w)])"
    by (intro view_full_update view_replicate)
  then have "view A out (Suc (Suc d)) t ?branch = Some (PFull ((replicate 17 PNil)[unat y := pshort ys q, unat x := pshort xs (PVal w)]))" for out
    by (simp add: fresh_label newFlag_def)
  then have vb: "view A outer (d + 3) t (if c = [] then ?branch else shortNode c ?branch (newFlag t)) = Some (pins (PShort k q) key w)"
    using view_short_new [of outer "Suc (Suc d)" t ?branch _ c] unfolding spec by (simp add: numeral_3_eq_3)
  have "insert (Suc f) t (shortNode k val fl) prefix key (valueNode w) =
      Inr (True, if c = [] then ?branch else shortNode c ?branch (newFlag t))"
    using u len by (simp add: f' insert_nil key k Let_def del: insert.simps(2) add: insert.simps(2) [of "Suc f'"])
  then show ?thesis using vb by auto
qed

lemma insert_short:
  assumes q: "view A False d t val = Some q" and lab: "A outer (hash fl) (dirty fl) (PShort k q)"
    and ok: "okAt (PShort k q) key" and v: "v \<noteq> []" and f: "2 \<le> f"
    and IH: "\<And>r pre. okAt q r \<Longrightarrow> inserts A False (d + 2) t q r v (insert f t val pre r (valueNode v))"
  shows "inserts A outer (d + 3) t (PShort k q) key v (insert (Suc f) t (shortNode k val fl) prefix key (valueNode v))"
proof (cases "prefixLen key k = length k")
  case True
  then obtain r where r: "key = k @ r" using prefixLen_full by blast
  have k: "k \<noteq> []" "indices k" using ok hexPath_indices by (auto simp: okAt_def leafT_def)
  have "pins (PShort k q) key v = wrap k (pins q r v)"
    using pins_prefix [OF k(2), of "[]" q r v] k(1) by (simp add: r pshort_def)
  also have "\<dots> = PShort k (pins q r v)" using wrap_pins [of k q r v] ok v k(1) r by simp
  finally have e: "pins (PShort k q) key v = PShort k (pins q r v)" .
  obtain b n' where "insert f t val (prefix @ k) r (valueNode v) = Inr (b, n')" "view A False (d + 2) t n' = Some (pins q r v)"
      "\<not> b \<longrightarrow> pins q r v = q"
    using IH [OF okAt_short(1) [OF ok [unfolded r]], of "prefix @ k"] unfolding inserts_def by blast
  then show ?thesis using r k(1) e True view_mono [OF q, of "d + 2"] lab fresh_label [of outer]
    by (auto simp: inserts_def Let_def numeral_3_eq_3 newFlag_def)
next
  case False
  then obtain c x xs y ys where "key = c @ x # xs" "k = c @ y # ys" "x \<noteq> y" using okAt_mismatch ok by metis
  then obtain n' where "insert (Suc f) t (shortNode k val fl) prefix key (valueNode v) = Inr (True, n')"
      "view A outer (d + 3) t n' = Some (pins (PShort k q) key v)"
    using insert_branch [OF q, of key c x xs k y ys f fl prefix v] ok f by blast
  then show ?thesis unfolding inserts_def by blast
qed

lemma insert_full:
  assumes ps: "length cs = 17" "map (view A False d t) cs = map Some ps" and lab: "A outer (hash fl) (dirty fl) (PFull ps)"
    and ok: "okAt (PFull ps) key" and v: "v \<noteq> []"
    and IH: "\<And>i xs pre. i < 17 \<Longrightarrow> okAt (ps ! i) xs \<Longrightarrow> inserts A False (d + 2) t (ps ! i) xs v (insert f t (cs ! i) pre xs (valueNode v))"
  shows "inserts A outer (d + 3) t (PFull ps) key v (insert (Suc f) t (fullNode cs fl) prefix key (valueNode v))"
proof -
  obtain x xs where x: "key = x # xs" "unat x < 17" "okAt (ps ! unat x) xs" "length ps = 17"
    using okAt_full [OF ok] by blast
  obtain b n' where n': "insert f t (cs ! unat x) (prefix @ [x]) xs (valueNode v) = Inr (b, n')"
      "view A False (d + 2) t n' = Some (pins (ps ! unat x) xs v)" "\<not> b \<longrightarrow> pins (ps ! unat x) xs v = ps ! unat x"
    using IH [OF x(2,3), of "prefix @ [x]"] unfolding inserts_def by blast
  have same: "map (view A False (d + 2) t) cs = map Some ps"
    using ps(2) view_mono [of A False d t _ _ "d + 2"] by (auto simp: list_eq_iff_nth_eq)
  then have "map (view A False (d + 2) t) (cs[unat x := n']) = map Some (ps[unat x := pins (ps ! unat x) xs v])"
    using n'(2) by (rule view_full_update)
  moreover have "pins (PFull ps) key v = PFull (ps[unat x := pins (ps ! unat x) xs v])"
    using pins_full [of ps x xs v] ok v x(1) by simp
  ultimately show ?thesis using x ps(1) same n'(1,3) lab fresh_label [of outer]
    by (auto simp: inserts_def numeral_3_eq_3 newFlag_def simp del: pins.simps)
qed

lemma insert_end:
  assumes "view A outer (Suc d) t n = Some p" and "okAt p key" and "key = [] \<or> n = NilNode" and "f = Suc f'"
  shows "inserts A outer (Suc d + 2) t p key v (insert f t n prefix key (valueNode v))"
proof (cases "key = []")
  case True
  then obtain b where "insert f t n prefix key (valueNode v) = Inr (b, valueNode v)" "\<not> b \<longrightarrow> p = PVal v"
    using assms(1,4) by (cases n) auto
  then show ?thesis using True unfolding inserts_def by (intro exI [of _ b] exI [of _ "valueNode v"]) simp
next
  case False
  then have n: "n = NilNode" "p = PNil" using assms(1,3) by auto
  have "pins PNil key v = PShort key (PVal v)"
    using assms(2) False hexKey_indices pins_PNil [of key v] by (auto simp: okAt_def pshort_def)
  then show ?thesis using n False assms(4) unfolding inserts_def
    by (intro exI [of _ True] exI [of _ "shortNode key (valueNode v) (newFlag t)"]) (simp add: fresh_label newFlag_def)
qed

lemma insert_view:
  "view A outer d t n = Some p \<Longrightarrow> okAt p key \<Longrightarrow> v \<noteq> [] \<Longrightarrow> d + 2 \<le> f \<Longrightarrow>
    inserts A outer (d + 2) t p key v (insert f t n prefix key (valueNode v))"
proof (induction d arbitrary: outer n p prefix key f)
  case (Suc d)
  obtain f' where f: "f = Suc f'" "d + 2 \<le> f'" using Suc.prems(4) by (cases f) auto
  show ?case
  proof (cases "key = [] \<or> n = NilNode")
    case True
    then show ?thesis using insert_end [OF Suc.prems(1,2) _ f(1)] by blast
  next
    case False
    then have wf: "wfT p" "hexKey key" using Suc.prems(2) by (auto simp: okAt_def)
    note IH = Suc.IH [OF _ _ Suc.prems(3) f(2)]
    have three: "Suc d + 2 = d + 3" by simp
    show ?thesis
    proof (cases n)
      case (hashNode h)
      then obtain m where m: "resolveHash t h [] = Inr m" "view A outer d t m = Some p" using Suc.prems by auto
      obtain b n' where "insert f' t m prefix key (valueNode v) = Inr (b, n')" "view A outer (d + 2) t n' = Some (pins p key v)"
          "\<not> b \<longrightarrow> pins p key v = p"
        using IH [OF m(2) Suc.prems(2), of prefix] unfolding inserts_def by blast
      then show ?thesis using hashNode f False resolveHash_path [OF m(1)] view_Suc view_mono [OF m(2), of "Suc d + 2"]
        by (auto simp: inserts_def)
    next
      case (shortNode k val fl)
      then obtain q where q: "p = PShort k q" "view A False d t val = Some q" "A outer (hash fl) (dirty fl) (PShort k q)"
        using Suc.prems by auto
      show ?thesis unfolding three shortNode f(1) q(1)
        using insert_short [OF q(2,3) _ Suc.prems(3)] IH [OF q(2)] Suc.prems(2) q(1) f(2) by simp
    next
      case (fullNode cs fl)
      then obtain ps where ps: "p = PFull ps" "length cs = 17" "map (view A False d t) cs = map Some ps"
          "A outer (hash fl) (dirty fl) (PFull ps)" using Suc.prems by auto
      have "inserts A False (d + 2) t (ps ! i) xs v (insert f' t (cs ! i) pre xs (valueNode v))" if "i < 17" "okAt (ps ! i) xs" for i xs pre
        using IH [OF _ that(2)] view_full(2) [OF ps(3), of i] that(1) ps(2) by simp
      then show ?thesis unfolding three fullNode f(1) ps(1)
        using insert_full [OF ps(2,3,4) _ Suc.prems(3)] Suc.prems(2) ps(1) by simp
    qed (use wf False Suc.prems(1) in auto)
  qed
qed simp

lemma shrink_view:
  assumes v: "map (view A False d t) cs = map Some ps" and ok: "okChildren ps" and ne: "nonNil ps \<noteq> []"
  shows "\<exists>n'. shrink t prefix cs = Inr (True, n') \<and> view A outer (Suc d) t n' = Some (mk ps) \<and> \<not> isHash n'"
proof (cases ps rule: mk_cases)
  case 1
  then show ?thesis using ne by simp
next
  case (2 i)
  note one = nonNil_one [OF 2(1)]
  have len: "length ps = 17" "length cs = 17" using ok v by (auto simp: okChildren_def dest: map_eq_imp_length_eq)
  have pos: "onlyChild (-1) 0 cs = int i" using onlyChild_view [OF v] 2 by simp
  have vi: "view A False d t (cs ! i) = Some (ps ! i)" using view_full [OF v] one(1) len by simp
  have i: "i < 17" using one(1) len by simp
  show ?thesis
  proof (cases "i = 16")
    case True
    then obtain w where "ps ! i = PVal w" using okChildren_nth [OF ok i] one(2) by (cases "ps ! i") (auto simp: leafT_def)
    then show ?thesis using vi pos 2(2) True by (auto simp: shrink_def fresh_label newFlag_def)
  next
    case False
    then have wf: "wfT (ps ! i)" using okChildren_nth [OF ok i] i by auto
    obtain m where m: "resolve t (cs ! i) prefix = Inr m" "view A False d t m = Some (ps ! i)" "\<not> isHash m"
      using resolve_view [OF vi] by blast
    obtain d' where d: "d = Suc d'" using view_pos [OF vi] by (cases d) auto
    have "PVal w \<noteq> ps ! i" for w using wf by (metis wfT.simps(2))
    then show ?thesis using m vi pos 2(2) False one(2) d
      by (cases m) (auto simp: shrink_def view_Suc fresh_label newFlag_def)
  qed
next
  case 3
  have len: "length cs = 17" using ok v by (auto simp: okChildren_def dest: map_eq_imp_length_eq)
  obtain i j js where "nonNil ps = i # j # js" using 3(1) by (metis Suc_le_length_iff numeral_2_eq_2)
  then have "onlyChild (-1) 0 cs = -2" using onlyChild_view [OF v] by simp
  then show ?thesis using 3(2) v len by (auto simp: shrink_def fresh_label newFlag_def)
qed

lemma deletes_changed:
  "r = Inr (True, n') \<Longrightarrow> view A outer d t n' = Some (pdel p key) \<Longrightarrow> \<not> isHash n' \<Longrightarrow> deletes A outer d t p key r"
  unfolding deletes_def by (intro exI [of _ True] exI [of _ n']) simp

lemma deletes_same:
  "r = Inr (False, n') \<Longrightarrow> view A outer d t n' = Some p \<Longrightarrow> pdel p key = p \<Longrightarrow> deletes A outer d t p key r"
  unfolding deletes_def by (intro exI [of _ False] exI [of _ n']) simp

lemma delete_child_view:
  assumes "view A False d t child = Some p" and "p \<noteq> PNil" and "\<not> isHash child" and "k \<noteq> []"
  shows "view A outer (Suc d) t (case child of shortNode k2 val2 _ \<Rightarrow> shortNode (k @ k2) val2 (newFlag t) | _ \<Rightarrow> shortNode k child (newFlag t)) =
    Some (wrap k p)"
proof -
  obtain d' where "d = Suc d'" using view_pos [OF assms(1)] by (cases d) auto
  then show ?thesis using assms by (cases child) (auto simp: pshort_def view_Suc fresh_label newFlag_def)
qed

lemma delete_short:
  assumes v: "view A False d t val = Some q" and lab: "A outer (hash fl) (dirty fl) (PShort k q)" and ok: "okAt (PShort k q) key"
    and IH: "\<And>r pre. okAt q r \<Longrightarrow> deletes A False d t q r (delete f t val pre r)"
  shows "deletes A outer (Suc d) t (PShort k q) key (delete (Suc f) t (shortNode k val fl) prefix key)"
proof (cases "prefixLen key k = length k")
  case False
  then have "prefixLen key k < length k" using prefixLen_le(2) [of key k] by simp
  moreover then have "plook (PShort k q) key = None" using plook_mismatch [of key k q] by (auto simp: pshort_def split: if_splits)
  ultimately show ?thesis using pdel_absent [OF ok] v lab by (intro deletes_same [of _ "shortNode k val fl"]) simp_all
next
  case True
  then obtain r where r: "key = k @ r" using prefixLen_full by blast
  have k: "k \<noteq> []" "indices k" using ok hexPath_indices by (auto simp: okAt_def leafT_def)
  have e: "pdel (PShort k q) key = wrap k (pdel q r)"
    using pdel_prefix [OF k(2), of "[]" q r] k(1) by (simp add: r pshort_def)
  note sub = okAt_short [OF ok [unfolded r]]
  show ?thesis
  proof (cases "r = []")
    case True
    then show ?thesis using e r \<open>prefixLen key k = length k\<close> by (intro deletes_changed [of _ NilNode]) simp_all
  next
    case False
    then obtain ps where ps: "q = PFull ps" using sub(2) by (cases q) auto
    obtain b child where c: "delete f t val (prefix @ k) r = Inr (b, child)" "view A False d t child = Some (pdel q r)"
        "if b then \<not> isHash child else pdel q r = q"
      using IH [OF sub(1), of "prefix @ k"] unfolding deletes_def by blast
    have "2 \<le> length (nonNil ps)" using sub(1) False ps by (auto simp: okAt_def)
    then have ne: "pdel q r \<noteq> PNil"
      using False sub(1) okAt_full [of ps r] mk_not_nil mk_update_not_nil ps by (metis pdel.simps(2))
    have whole: "prefixLen key k = length k" "length k \<noteq> length key" using \<open>prefixLen key k = length k\<close> r False by auto
    show ?thesis
    proof (cases b)
      case True
      let ?n = "case child of shortNode k2 val2 _ \<Rightarrow> shortNode (k @ k2) val2 (newFlag t) | _ \<Rightarrow> shortNode k child (newFlag t)"
      have "delete (Suc f) t (shortNode k val fl) prefix key = Inr (True, ?n)"
        using c(1) True whole r by (cases child) (simp_all add: Let_def)
      moreover have "\<not> isHash ?n" by (cases child) simp_all
      ultimately show ?thesis using delete_child_view [OF c(2) ne _ k(1), of outer] c(3) True e by (intro deletes_changed [of _ ?n]) simp_all
    next
      case False
      then have "pdel (PShort k q) key = PShort k q" using c(3) e k(1) by (simp add: ps pshort_def)
      then show ?thesis using c(1) False whole r v lab
        by (intro deletes_same [of _ "shortNode k val fl"]) (simp_all add: Let_def)
    qed
  qed
qed

lemma delete_full:
  assumes v: "map (view A False d t) cs = map Some ps" and len: "length cs = 17"
    and lab: "A outer (hash fl) (dirty fl) (PFull ps)" and ok: "okAt (PFull ps) key"
    and IH: "\<And>i xs pre. i < 17 \<Longrightarrow> okAt (ps ! i) xs \<Longrightarrow> deletes A False d t (ps ! i) xs (delete f t (cs ! i) pre xs)"
  shows "deletes A outer (Suc d) t (PFull ps) key (delete (Suc f) t (fullNode cs fl) prefix key)"
proof -
  obtain x xs where x: "key = x # xs" "unat x < 17" "okAt (ps ! unat x) xs" "length ps = 17" "fan (PFull ps) = ps"
    using okAt_full [OF ok] by blast
  obtain b nn where n: "delete f t (cs ! unat x) (prefix @ [x]) xs = Inr (b, nn)" "view A False d t nn = Some (pdel (ps ! unat x) xs)"
      "if b then \<not> isHash nn else pdel (ps ! unat x) xs = ps ! unat x"
    using IH [OF x(2,3), of "prefix @ [x]"] unfolding deletes_def by blast
  have e: "pdel (PFull ps) key = mk (ps[unat x := pdel (ps ! unat x) xs])" using x by simp
  show ?thesis
  proof (cases b)
    case True
    have "okChildren (ps[unat x := pdel (ps ! unat x) xs])"
      using okChildren_at [of "PFull ps" x xs] ok x pdel_ok [OF x(3)] by simp
    moreover have "2 \<le> length (nonNil ps)" using ok by (auto simp: okAt_def leafT_def)
    ultimately obtain n' where n': "shrink t prefix (cs[unat x := nn]) = Inr (True, n')"
        "view A outer (Suc d) t n' = Some (pdel (PFull ps) key)" "\<not> isHash n'"
      using shrink_view [OF view_full_update [OF v n(2), of "unat x"], of prefix outer] mk_update_not_nil e by metis
    show ?thesis by (rule deletes_changed [OF _ n'(2,3)]) (use n'(1) n(1) True x len in simp)
  next
    case False
    then have "pdel (PFull ps) key = PFull ps" using n(3) x mk_fan [of "PFull ps"] ok by (simp add: okAt_Cons)
    then show ?thesis using False n(1) x v len lab by (intro deletes_same [of _ "fullNode cs fl"]) simp_all
  qed
qed

lemma delete_view: "view A outer d t n = Some p \<Longrightarrow> okAt p key \<Longrightarrow> d \<le> f \<Longrightarrow> deletes A outer d t p key (delete f t n prefix key)"
proof (induction d arbitrary: outer n p prefix key f)
  case (Suc d)
  obtain f' where f: "f = Suc f'" "d \<le> f'" using Suc.prems(3) by (cases f) auto
  show ?case
  proof (cases n)
    case NilNode
    then show ?thesis using Suc.prems f pdel_absent [OF Suc.prems(2)] by (intro deletes_same [of _ NilNode]) auto
  next
    case (valueNode w)
    then have "key = []" using Suc.prems(1,2) by (auto simp: okAt_def)
    then show ?thesis using valueNode f by (intro deletes_changed [of _ NilNode]) auto
  next
    case (hashNode h)
    then obtain m where m: "resolveHash t h [] = Inr m" "view A outer d t m = Some p" using Suc.prems by auto
    obtain b n' where n': "delete f' t m prefix key = Inr (b, n')" "view A outer d t n' = Some (pdel p key)"
        "if b then \<not> isHash n' else pdel p key = p"
      using Suc.IH [OF m(2) Suc.prems(2) f(2), of prefix] unfolding deletes_def by blast
    show ?thesis
    proof (cases b)
      case True
      then show ?thesis using hashNode f(1) resolveHash_path [OF m(1)] n'(1,3) view_Suc [OF n'(2)]
        by (intro deletes_changed [of _ n']) simp_all
    next
      case False
      then show ?thesis using hashNode f(1) resolveHash_path [OF m(1)] n'(1,3) view_Suc [OF m(2)]
        by (intro deletes_same [of _ m]) simp_all
    qed
  next
    case (shortNode k val fl)
    then obtain q where q: "p = PShort k q" "view A False d t val = Some q" "A outer (hash fl) (dirty fl) (PShort k q)"
      using Suc.prems by auto
    then show ?thesis using delete_short [OF q(2,3)] Suc.IH [OF q(2) _ f(2)] Suc.prems(2) shortNode f(1) by blast
  next
    case (fullNode cs fl)
    then obtain ps where ps: "p = PFull ps" "length cs = 17" "map (view A False d t) cs = map Some ps"
        "A outer (hash fl) (dirty fl) (PFull ps)" using Suc.prems by auto
    have "deletes A False d t (ps ! i) xs (delete f' t (cs ! i) pre xs)" if "i < 17" "okAt (ps ! i) xs" for i xs pre
      using Suc.IH [OF _ that(2) f(2)] view_full(2) [OF ps(3), of i] that(1) ps(2) by simp
    then show ?thesis using delete_full [OF ps(3,2,4)] Suc.prems(2) fullNode f(1) ps(1) by blast
  qed
qed simp

end

section \<open>Tries as stores\<close>

definition content :: "ptrie \<Rightarrow> bytes \<Rightarrow> bytes option" where
  "content p key = plook p (keybytesToHex key)"

text \<open>The tries of whole keys: well-formed, and no path stops in the middle of a byte.\<close>

definition wfK :: "ptrie \<Rightarrow> bool" where
  "wfK p \<longleftrightarrow> wfT p \<and> (\<forall>h. hexKey h \<and> plook p h \<noteq> None \<longrightarrow> (\<exists>key. h = keybytesToHex key))"

text \<open>A trie that can be loaded to a depth which leaves room for \<open>n\<close> operations under the bound \<open>f\<close>.\<close>

definition trieRepr :: "labels \<Rightarrow> nat \<Rightarrow> nat \<Rightarrow> Trie \<Rightarrow> (bytes \<Rightarrow> bytes option) \<Rightarrow> bool" where
  "trieRepr A f n t m \<longleftrightarrow> (\<exists>d p. d + 2 * n \<le> f \<and> view A True d t (root t) = Some p \<and> wfK p \<and> m = content p)"

lemma keybytesToHex_ne [simp]: "keybytesToHex key \<noteq> []"
  by (simp add: keybytesToHex_def)

lemma okAt_key: "wfT p \<Longrightarrow> hexKey h \<Longrightarrow> okAt p h"
  by (simp add: okAt_def)

lemma plook_pins_key:
  assumes "wfT p" and "v \<noteq> []" and "hexKey h"
  shows "plook (pins p (keybytesToHex key) v) h = (if h = keybytesToHex key then Some v else plook p h)"
  using plook_pins [of p "keybytesToHex key" h v] assms hexKey_Nil by (cases h) (simp_all add: okAt_key del: hexKey_Cons)

lemma plook_pdel_key:
  assumes "wfT p" and "hexKey h"
  shows "plook (pdel p (keybytesToHex key)) h = (if h = keybytesToHex key then None else plook p h)"
  using plook_pdel [of p "keybytesToHex key" h] assms hexKey_Nil by (cases h) (simp_all add: okAt_key del: hexKey_Cons)

lemma wfK_pins:
  assumes "wfK p" and "v \<noteq> []"
  shows "wfK (pins p (keybytesToHex key) v)" and "content (pins p (keybytesToHex key) v) = (content p)(key \<mapsto> v)"
proof -
  have wf: "wfT p" using assms(1) by (simp add: wfK_def)
  have "okAt (pins p (keybytesToHex key) v) (keybytesToHex key)" using wf assms(2) by (intro pins_ok okAt_key) simp_all
  then have "wfT (pins p (keybytesToHex key) v)" by (auto simp: okAt_def)
  then show "wfK (pins p (keybytesToHex key) v)"
    using assms plook_pins_key [OF wf assms(2)] by (auto simp: wfK_def split: if_splits)
  show "content (pins p (keybytesToHex key) v) = (content p)(key \<mapsto> v)"
    using plook_pins_key [OF wf assms(2)] by (auto simp: content_def fun_eq_iff)
qed

lemma wfK_pdel:
  assumes "wfK p"
  shows "wfK (pdel p (keybytesToHex key))" and "content (pdel p (keybytesToHex key)) = (content p)(key := None)"
proof -
  have wf: "wfT p" using assms by (simp add: wfK_def)
  have "okAt (pdel p (keybytesToHex key)) (keybytesToHex key)" using wf by (intro pdel_ok okAt_key) simp_all
  then have "wfT (pdel p (keybytesToHex key))" by (auto simp: okAt_def)
  then show "wfK (pdel p (keybytesToHex key))"
    using assms plook_pdel_key [OF wf] by (auto simp: wfK_def split: if_splits)
  show "content (pdel p (keybytesToHex key)) = (content p)(key := None)"
    using plook_pdel_key [OF wf] by (auto simp: content_def fun_eq_iff)
qed

text \<open>Two tries of whole keys with the same content are the same trie.\<close>

lemma content_inj:
  assumes "wfK p" and "wfK q" and "content p = content q"
  shows "p = q"
proof (rule content_determines)
  show "wfT p" "wfT q" using assms by (simp_all add: wfK_def)
  fix h assume h: "hexKey h"
  show "plook p h = plook q h"
  proof (cases "\<exists>key. h = keybytesToHex key")
    case True
    then show ?thesis using assms(3) by (auto simp: content_def fun_eq_iff)
  next
    case False
    then have "plook p h = None" "plook q h = None" using assms(1,2) h unfolding wfK_def by blast+
    then show ?thesis by simp
  qed
qed

context labelling begin

lemma trieRepr_delete:
  assumes "trieRepr A f (Suc n) t m"
  shows "\<exists>b n'. delete f t (root t) [] (keybytesToHex k) = Inr (b, n') \<and> trieRepr A f n (t\<lparr>root := n'\<rparr>) (m(k := None))"
proof -
  obtain d p where r: "d + 2 * Suc n \<le> f" "view A True d t (root t) = Some p" "wfK p" "m = content p"
    using assms by (auto simp: trieRepr_def)
  have "deletes A True d t p (keybytesToHex k) (delete f t (root t) [] (keybytesToHex k))"
    using delete_view [OF r(2) okAt_key, of "keybytesToHex k" f] r(1,3) by (simp add: wfK_def)
  then obtain b n' where n': "delete f t (root t) [] (keybytesToHex k) = Inr (b, n')" "view A True d t n' = Some (pdel p (keybytesToHex k))"
    unfolding deletes_def by blast
  then show ?thesis using r(1,4) wfK_pdel [OF r(3), of k] by (auto simp: trieRepr_def intro!: exI [of _ d])
qed

lemma trieRepr_insert:
  assumes "trieRepr A f (Suc n) t m" and "v \<noteq> []"
  shows "\<exists>b n'. insert f t (root t) [] (keybytesToHex k) (valueNode v) = Inr (b, n') \<and> trieRepr A f n (t\<lparr>root := n'\<rparr>) (m(k \<mapsto> v))"
proof -
  obtain d p where r: "d + 2 * Suc n \<le> f" "view A True d t (root t) = Some p" "wfK p" "m = content p"
    using assms by (auto simp: trieRepr_def)
  have "inserts A True (d + 2) t p (keybytesToHex k) v (insert f t (root t) [] (keybytesToHex k) (valueNode v))"
    using insert_view [OF r(2) okAt_key assms(2), of "keybytesToHex k" f] r(1,3) by (simp add: wfK_def)
  then obtain b n' where n': "insert f t (root t) [] (keybytesToHex k) (valueNode v) = Inr (b, n')"
      "view A True (d + 2) t n' = Some (pins p (keybytesToHex k) v)"
    unfolding inserts_def by blast
  then show ?thesis using r(1,4) wfK_pins [OF r(3) assms(2), of k] by (auto simp: trieRepr_def intro!: exI [of _ "d + 2"])
qed

lemma trieRepr_get:
  assumes "trieRepr A f (Suc n) t m"
  shows "\<exists>t'. TryGet f k t = (Inr (m k), t') \<and> trieRepr A f n t' m"
proof -
  obtain d p where r: "d + 2 * Suc n \<le> f" "view A True d t (root t) = Some p" "wfK p" "m = content p"
    using assms by (auto simp: trieRepr_def)
  obtain n' b where n': "tryGet f t (root t) (keybytesToHex k) 0 = Inr (content p k, n', b)" "view A True d t n' = Some p"
    using tryGet_view [OF r(2), of 0 "keybytesToHex k" f] r(1,3) by (auto simp: content_def wfK_def okAt_key)
  then show ?thesis using r by (auto simp: TryGet_def trieRepr_def intro!: exI [of _ d])
qed

end

sublocale labelling \<subseteq> tries: kv_store "trieRepr A f" "TryGet f" "TryUpdate f" "TryDelete f" for f
proof
  fix n t m k v
  assume r: "trieRepr A f (Suc n) t m"
  show "\<exists>t'. TryGet f k t = (Inr (m k), t') \<and> trieRepr A f n t' m" by (rule trieRepr_get [OF r])
  show "\<exists>t'. TryDelete f k t = (Inr (), t') \<and> trieRepr A f n t' (m(k := None))"
    using trieRepr_delete [OF r, of k] by (auto simp: TryDelete_def)
  show "\<exists>t'. TryUpdate f k v t = (Inr (), t') \<and> trieRepr A f n t' (mapUpdate k v m)"
    using trieRepr_delete [OF r, of k] trieRepr_insert [OF r, of v k] by (auto simp: TryUpdate_def mapUpdate_def)
qed

text \<open>Any labels are fine for the content alone.\<close>

interpretation plain: labelling anyLabel
  by unfold_locales simp

lemma run_trie:
  assumes "view anyLabel True d t (root t) = Some p" and "wfK p" and "d + 2 * length ops \<le> f"
  obtains t' d' p' where "runOps (TryGet f) (TryUpdate f) (TryDelete f) ops t = (Inr (fst (specOps ops (content p))), t')"
    "view anyLabel True d' t' (root t') = Some p'" "wfK p'" "content p' = snd (specOps ops (content p))"
proof -
  have "trieRepr anyLabel f (length ops) t (content p)" using assms by (auto simp: trieRepr_def)
  from plain.tries.run_refines [OF this] show thesis using that unfolding trieRepr_def by metis
qed

section \<open>Properties\<close>

text \<open>C9. A trie behaves as a map from keys to values: a sequence of lookups, updates and deletions
  on a trie that can be loaded ends without an error and without a panic, its lookups return
  what they return on the map, and the trie it leaves stands for the map it leaves.\<close>

theorem trie_refines_map:
  assumes "view anyLabel True d t (root t) = Some p" and "wfK p" and "d + 2 * length ops \<le> f"
  shows "\<exists>t' d' p'. runOps (TryGet f) (TryUpdate f) (TryDelete f) ops t = (Inr (fst (specOps ops (content p))), t') \<and>
    view anyLabel True d' t' (root t') = Some p' \<and> wfK p' \<and> content p' = snd (specOps ops (content p))"
  using run_trie [OF assms] by metis

definition emptyTrie :: Trie where
  "emptyTrie = \<lparr>db = NewDatabase (\<lambda>_. None), root = NilNode, originalRoot = zeroHash, cachegen = 0, cachelimit = 0\<rparr>"

lemma emptyTrie_view: "New zeroHash (NewDatabase (\<lambda>_. None)) = Inr emptyTrie" "view anyLabel True 1 emptyTrie (root emptyTrie) = Some PNil"
  "wfK PNil" "content PNil = (\<lambda>_. None)"
  by (simp_all add: New_def emptyTrie_def wfK_def content_def fun_eq_iff)

theorem trie_refines_map_witness:
  "\<exists>t' d' p'. runOps (TryGet 9) (TryUpdate 9) (TryDelete 9) [OpUpdate [1] [7], OpUpdate [1, 2] [8], OpDelete [1], OpGet [1, 2]] emptyTrie =
      (Inr [Some [8]], t') \<and> view anyLabel True d' t' (root t') = Some p' \<and> wfK p'"
  using trie_refines_map [OF emptyTrie_view(2,3), of "[OpUpdate [1] [7], OpUpdate [1, 2] [8], OpDelete [1], OpGet [1, 2]]" 9]
  by (auto simp: emptyTrie_view(4) mapUpdate_def)

text \<open>The shape of a trie does not depend on its history: two sequences of operations that make the
  same map out of a trie leave nodes that stand for the same trie, node for node.\<close>

theorem trie_history_independent:
  assumes "view anyLabel True d t (root t) = Some p" and "wfK p"
    and "d + 2 * length ops1 \<le> f" and "d + 2 * length ops2 \<le> f"
    and "snd (specOps ops1 (content p)) = snd (specOps ops2 (content p))"
  shows "\<exists>r1 r2 t1 t2 d1 d2 q. runOps (TryGet f) (TryUpdate f) (TryDelete f) ops1 t = (Inr r1, t1) \<and>
    runOps (TryGet f) (TryUpdate f) (TryDelete f) ops2 t = (Inr r2, t2) \<and>
    view anyLabel True d1 t1 (root t1) = Some q \<and> view anyLabel True d2 t2 (root t2) = Some q"
proof -
  obtain t1 d1 q1 where 1: "runOps (TryGet f) (TryUpdate f) (TryDelete f) ops1 t = (Inr (fst (specOps ops1 (content p))), t1)"
    "view anyLabel True d1 t1 (root t1) = Some q1" "wfK q1" "content q1 = snd (specOps ops1 (content p))"
    using run_trie [OF assms(1,2,3)] by blast
  obtain t2 d2 q2 where 2: "runOps (TryGet f) (TryUpdate f) (TryDelete f) ops2 t = (Inr (fst (specOps ops2 (content p))), t2)"
    "view anyLabel True d2 t2 (root t2) = Some q2" "wfK q2" "content q2 = snd (specOps ops2 (content p))"
    using run_trie [OF assms(1,2,4)] by blast
  have "q1 = q2" using content_inj [OF 1(3) 2(3)] 1(4) 2(4) assms(5) by simp
  then show ?thesis using 1(1,2) 2(1,2) by blast
qed

theorem trie_history_independent_witness:
  "\<exists>r1 r2 t1 t2 d1 d2 q.
    runOps (TryGet 9) (TryUpdate 9) (TryDelete 9) [OpUpdate [1] [7], OpUpdate [1, 2] [8]] emptyTrie = (Inr r1, t1) \<and>
    runOps (TryGet 9) (TryUpdate 9) (TryDelete 9) [OpUpdate [1, 2] [8], OpUpdate [3] [9], OpUpdate [1] [7], OpDelete [3]] emptyTrie =
      (Inr r2, t2) \<and>
    view anyLabel True d1 t1 (root t1) = Some q \<and> view anyLabel True d2 t2 (root t2) = Some q"
proof (rule trie_history_independent [OF emptyTrie_view(2,3)])
  show "snd (specOps [OpUpdate [1] [7], OpUpdate [1, 2] [8]] (content PNil)) =
      snd (specOps [OpUpdate [1, 2] [8], OpUpdate [3] [9], OpUpdate [1] [7], OpDelete [3]] (content PNil))"
    by (simp add: emptyTrie_view(4) mapUpdate_def fun_eq_iff)
qed simp_all

end
