(* ===== verification/TrieHasher.thy ===== *)
theory TrieHasher
  imports Trie
begin

text \<open>
  Hashing and committing tries (\<^verbatim>\<open>common/trie/hasher.go\<close> and the methods \<^verbatim>\<open>Hash\<close> and \<^verbatim>\<open>Commit\<close> of
  \<^verbatim>\<open>trie.go\<close>).  Keccak-256 is code outside the repository and a field of the hasher.  The
  root hash is shown to be a function of the content of the trie alone, and a trie that is
  opened from the root hash of a commit to have the content of the committed one, as long as
  no two of the encodings in play have the same hash.
\<close>

section \<open>The hasher\<close>

record hasher =
  keccak :: "bytes \<Rightarrow> bytes"
  hcachegen :: "16 word"
  hcachelimit :: "16 word"
  onleaf :: "(bytes \<Rightarrow> bytes \<Rightarrow> Database \<Rightarrow> Database) option"

text \<open>The references a stored node makes to its children, and the calls for its leaves.\<close>

fun referenceAll :: "node list \<Rightarrow> bytes \<Rightarrow> Database \<Rightarrow> dbErr + Database" where
  "referenceAll [] h d = Inr d"
| "referenceAll (c # cs) h d =
    bindR (case c of hashNode child \<Rightarrow> reference (BytesToHash child) h d | _ \<Rightarrow> Inr d) (\<lambda>d. referenceAll cs h d)"

fun leaves :: "(bytes \<Rightarrow> bytes \<Rightarrow> Database \<Rightarrow> Database) \<Rightarrow> node list \<Rightarrow> bytes \<Rightarrow> Database \<Rightarrow> Database" where
  "leaves f [] h d = d"
| "leaves f (c # cs) h d = leaves f cs h (case c of valueNode child \<Rightarrow> f child h d | _ \<Rightarrow> d)"

fun refs :: "node \<Rightarrow> node list" where
  "refs (shortNode k v f) = [v]"
| "refs (fullNode cs f) = take 16 cs"
| "refs _ = []"

text \<open>The writes of \<^verbatim>\<open>store\<close> under the hash \<open>h\<close>.\<close>

definition storeIn :: "hasher \<Rightarrow> node \<Rightarrow> bytes \<Rightarrow> bytes \<Rightarrow> Database \<Rightarrow> trieErr + Database" where
  "storeIn e n h enc d =
    (case referenceAll (refs n) h (dbInsert h enc d) of
       Inl _ \<Rightarrow> Inl TriePanic
     | Inr d \<Rightarrow> Inr (case onleaf e of None \<Rightarrow> d | Some f \<Rightarrow> leaves f (refs n) h d))"

definition store :: "hasher \<Rightarrow> node \<Rightarrow> bool \<Rightarrow> Database option \<Rightarrow> (trieErr + node) \<times> Database option" where
  "store e n force s =
    (if n = NilNode \<or> isHash n then (Inr n, s)
     else case encodeNode n of
         Inl _ \<Rightarrow> (Inl TriePanic, s)
       | Inr enc \<Rightarrow>
          if length enc < 32 \<and> \<not> force then (Inr n, s)
          else
            let h = (case fst (cache n) of Some h \<Rightarrow> h | None \<Rightarrow> keccak e enc) in
            (case s of
               None \<Rightarrow> (Inr (hashNode h), None)
             | Some d \<Rightarrow>
                (case storeIn e n (BytesToHash h) enc d of Inl x \<Rightarrow> (Inl x, s) | Inr d \<Rightarrow> (Inr (hashNode h), Some d))))"

text \<open>The flags of the node that replaces the hashed one.\<close>

fun setCached :: "node \<Rightarrow> bool \<Rightarrow> node \<Rightarrow> node" where
  "setCached hashed written (shortNode k v f) =
    shortNode k v (f\<lparr>hash := (case hashed of hashNode h \<Rightarrow> Some h | _ \<Rightarrow> None), dirty := dirty f \<and> \<not> written\<rparr>)"
| "setCached hashed written (fullNode cs f) =
    fullNode cs (f\<lparr>hash := (case hashed of hashNode h \<Rightarrow> Some h | _ \<Rightarrow> None), dirty := dirty f \<and> \<not> written\<rparr>)"
| "setCached hashed written n = n"

lemma size_take: "size_list size (take n cs) \<le> size_list size cs"
  by (induction cs arbitrary: n) (auto simp: take_Cons' split: nat.split)

function hashN :: "hasher \<Rightarrow> node \<Rightarrow> bool \<Rightarrow> Database option \<Rightarrow> (trieErr + node \<times> node) \<times> Database option"
  and hashChildren :: "hasher \<Rightarrow> node \<Rightarrow> Database option \<Rightarrow> (trieErr + node \<times> node) \<times> Database option"
  and hashAll :: "hasher \<Rightarrow> node list \<Rightarrow> Database option \<Rightarrow> (trieErr + node list \<times> node list) \<times> Database option" where
  "hashN e n force s =
    (if n = NilNode then (Inl TriePanic, s)
     else if fst (cache n) \<noteq> None \<and> s = None then (Inr (hashNode (the (fst (cache n))), n), s)
     else if fst (cache n) \<noteq> None \<and> canUnload n (hcachegen e) (hcachelimit e)
       then (Inr (hashNode (the (fst (cache n))), hashNode (the (fst (cache n)))), s)
     else if fst (cache n) \<noteq> None \<and> \<not> snd (cache n) then (Inr (hashNode (the (fst (cache n))), n), s)
     else bindE (hashChildren e n s) (\<lambda>(collapsed, cached) s.
          bindE (store e collapsed force s) (\<lambda>hashed s. (Inr (hashed, setCached hashed (s \<noteq> None) cached), s))))"
| "hashChildren e n s =
    (case n of
       shortNode k v f \<Rightarrow>
        (case hexToCompact k of
           None \<Rightarrow> (Inl TriePanic, s)
         | Some c \<Rightarrow>
            (case v of
               valueNode _ \<Rightarrow> (Inr (shortNode c v f, shortNode k v f), s)
             | _ \<Rightarrow> bindE (hashN e v False s) (\<lambda>(cv, kv) s.
                 (Inr (shortNode c (if cv = NilNode then valueNode [] else cv) f, shortNode k kv f), s))))
     | fullNode cs f \<Rightarrow>
        bindE (hashAll e (take 16 cs) s) (\<lambda>(collapsed, cached) s.
          (Inr (fullNode (collapsed @ [if cs ! 16 = NilNode then valueNode [] else cs ! 16]) f, fullNode (cached @ [cs ! 16]) f), s))
     | _ \<Rightarrow> (Inr (n, n), s))"
| "hashAll e [] s = (Inr ([], []), s)"
| "hashAll e (c # cs) s =
    bindE (if c = NilNode then (Inr (valueNode [], NilNode), s) else hashN e c False s) (\<lambda>(a, b) s.
    bindE (hashAll e cs s) (\<lambda>(as, bs) s. (Inr (a # as, b # bs), s)))"
  by pat_completeness auto
termination
proof (relation "measures [\<lambda>x. case x of Inl (e, n, force, s) \<Rightarrow> size n | Inr (Inl (e, n, s)) \<Rightarrow> size n
      | Inr (Inr (e, ns, s)) \<Rightarrow> size_list size ns, \<lambda>x. case x of Inl _ \<Rightarrow> 2 | Inr (Inl _) \<Rightarrow> 1 | Inr (Inr _) \<Rightarrow> 0]", goal_cases)
qed (auto simp: less_Suc_eq_le intro: order_trans [OF size_take])

section \<open>The methods\<close>

definition hashRoot :: "(bytes \<Rightarrow> bytes) \<Rightarrow> (bytes \<Rightarrow> bytes \<Rightarrow> Database \<Rightarrow> Database) option \<Rightarrow> Trie \<Rightarrow> Database option \<Rightarrow>
    (trieErr + node \<times> node) \<times> Database option" where
  "hashRoot K leaf t s =
    (if root t = NilNode then (Inr (hashNode emptyRoot, NilNode), s)
     else hashN \<lparr>keccak = K, hcachegen = cachegen t, hcachelimit = cachelimit t, onleaf = leaf\<rparr> (root t) True s)"

text \<open>\<^verbatim>\<open>Trie.Hash\<close> and \<^verbatim>\<open>Trie.Commit\<close>.  The type assertion on the hash is a panic when it fails.\<close>

definition TrieHash :: "(bytes \<Rightarrow> bytes) \<Rightarrow> Trie \<Rightarrow> (trieErr + bytes) \<times> Trie" where
  "TrieHash K t =
    (case fst (hashRoot K None t None) of
       Inl e \<Rightarrow> (Inl e, t)
     | Inr (n, cached) \<Rightarrow>
        (case n of hashNode h \<Rightarrow> Inr (BytesToHash h) | _ \<Rightarrow> Inl TriePanic, t\<lparr>root := cached\<rparr>))"

definition TrieCommit :: "(bytes \<Rightarrow> bytes) \<Rightarrow> (bytes \<Rightarrow> bytes \<Rightarrow> Database \<Rightarrow> Database) option \<Rightarrow> Trie \<Rightarrow> (trieErr + bytes) \<times> Trie" where
  "TrieCommit K leaf t =
    (case hashRoot K leaf t (Some (db t)) of
       (Inl e, s) \<Rightarrow> (Inl e, t\<lparr>db := the s\<rparr>)
     | (Inr (n, cached), s) \<Rightarrow>
        (case n of hashNode h \<Rightarrow> Inr (BytesToHash h) | _ \<Rightarrow> Inl TriePanic,
         t\<lparr>db := the s, root := cached, cachegen := cachegen t + 1\<rparr>))"

section \<open>The hash of a trie\<close>

text \<open>The node under which a trie is stored, with every large child replaced by its hash.\<close>

abbreviation plainFlag :: nodeFlag where
  "plainFlag \<equiv> \<lparr>hash = None, gen = 0, dirty = False\<rparr>"

fun squash :: "(bytes \<Rightarrow> bytes) \<Rightarrow> node \<Rightarrow> node" where
  "squash K (valueNode v) = valueNode v"
| "squash K c = (if length (nodeEnc c) < 32 then c else hashNode (K (nodeEnc c)))"

fun collapse :: "(bytes \<Rightarrow> bytes) \<Rightarrow> ptrie \<Rightarrow> node" where
  "collapse K PNil = valueNode []"
| "collapse K (PVal v) = valueNode v"
| "collapse K (PShort k q) = shortNode (the (hexToCompact k)) (squash K (collapse K q)) plainFlag"
| "collapse K (PFull cs) = fullNode (map (\<lambda>q. squash K (collapse K q)) cs) plainFlag"

definition penc :: "(bytes \<Rightarrow> bytes) \<Rightarrow> ptrie \<Rightarrow> bytes" where
  "penc K p = nodeEnc (collapse K p)"

definition rootHash :: "(bytes \<Rightarrow> bytes) \<Rightarrow> ptrie \<Rightarrow> bytes" where
  "rootHash K p = (if p = PNil then emptyRoot else K (penc K p))"

fun isOpen :: "ptrie \<Rightarrow> bool" where
  "isOpen (PShort _ _) = True"
| "isOpen (PFull _) = True"
| "isOpen _ = False"

fun subs :: "ptrie \<Rightarrow> ptrie set" where
  "subs (PShort k q) = {PShort k q} \<union> subs q"
| "subs (PFull cs) = {PFull cs} \<union> (\<Union>c \<in> set cs. subs c)"
| "subs _ = {}"

text \<open>The large subtries are in the database.\<close>

definition refIn :: "(bytes \<Rightarrow> bytes) \<Rightarrow> (bytes \<Rightarrow> bytes option) \<Rightarrow> ptrie \<Rightarrow> bool" where
  "refIn K nd q \<longleftrightarrow> (isOpen q \<and> 32 \<le> length (penc K q) \<longrightarrow> nd (K (penc K q)) = Some (penc K q))"

fun inDb :: "(bytes \<Rightarrow> bytes) \<Rightarrow> (bytes \<Rightarrow> bytes option) \<Rightarrow> ptrie \<Rightarrow> bool" where
  "inDb K nd (PShort k q) \<longleftrightarrow> inDb K nd q \<and> refIn K nd q"
| "inDb K nd (PFull cs) \<longleftrightarrow> (\<forall>c \<in> set cs. inDb K nd c \<and> refIn K nd c)"
| "inDb K nd _ \<longleftrightarrow> True"

text \<open>The labels of a trie: a cached hash is the hash of the subtrie, below the root only large nodes
  have one, and what is clean is in the database.\<close>

definition labelled :: "(bytes \<Rightarrow> bytes) \<Rightarrow> (bytes \<Rightarrow> bytes option) \<Rightarrow> labels" where
  "labelled K nd outer h dirt p =
    (case h of
       None \<Rightarrow> dirt \<or> \<not> outer \<and> length (penc K p) < 32
     | Some x \<Rightarrow> x = K (penc K p) \<and> (outer \<or> 32 \<le> length (penc K p)) \<and> (\<not> dirt \<longrightarrow> nd x = Some (penc K p) \<and> inDb K nd p))"

interpretation hashes: labelling "labelled K nd" for K nd
  by unfold_locales (simp add: labelled_def)

inductive rep :: "(bytes \<Rightarrow> bytes) \<Rightarrow> (bytes \<Rightarrow> bytes option) \<Rightarrow> bool \<Rightarrow> node \<Rightarrow> ptrie \<Rightarrow> bool" for K nd where
  rep_nil: "rep K nd outer NilNode PNil"
| rep_val: "rep K nd outer (valueNode v) (PVal v)"
| rep_hash: "isOpen p \<Longrightarrow> labelled K nd outer (Some h) False p \<Longrightarrow> rep K nd outer (hashNode h) p"
| rep_short: "rep K nd False v q \<Longrightarrow> labelled K nd outer (hash f) (dirty f) (PShort k q) \<Longrightarrow>
    rep K nd outer (shortNode k v f) (PShort k q)"
| rep_full: "list_all2 (rep K nd False) cs ps \<Longrightarrow> length cs = 17 \<Longrightarrow> labelled K nd outer (hash f) (dirty f) (PFull ps) \<Longrightarrow>
    rep K nd outer (fullNode cs f) (PFull ps)"

inductive_simps rep_simps [simp]:
  "rep K nd outer NilNode p"
  "rep K nd outer (valueNode v) p"
  "rep K nd outer (hashNode h) p"
  "rep K nd outer (shortNode k v f) p"
  "rep K nd outer (fullNode cs f) p"

lemma view_open:
  assumes "view A outer d t n = Some p" and "resolveHash t h [] = Inr n"
  shows "isOpen p"
proof -
  obtain d' where "d = Suc d'" using view_pos [OF assms(1)] by (cases d) auto
  from assms(2) show ?thesis by (rule resolveHash_shape) (use assms(1) \<open>d = _\<close> in auto)
qed

lemma view_rep: "view (labelled K nd) outer d t n = Some p \<Longrightarrow> rep K nd outer n p"
proof (induction d arbitrary: outer n p)
  case (Suc d)
  show ?case
  proof (cases n)
    case (hashNode h)
    then show ?thesis using Suc.prems view_open by auto
  next
    case (fullNode cs f)
    then obtain ps where ps: "p = PFull ps" "length cs = 17" "map (view (labelled K nd) False d t) cs = map Some ps"
        "labelled K nd outer (hash f) (dirty f) (PFull ps)"
      using Suc.prems by auto
    have "list_all2 (rep K nd False) cs ps"
      unfolding list_all2_conv_all_nth using ps(3) view_full [OF ps(3)] Suc.IH by (metis length_map)
    then show ?thesis using fullNode ps by simp
  qed (use Suc in auto)
qed simp

section \<open>Loading what is stored\<close>

text \<open>Keccak-256 on the encodings in play: hashes of 32 bytes, none of them zero, no two the same.\<close>

definition noCollision :: "(bytes \<Rightarrow> bytes) \<Rightarrow> bytes set \<Rightarrow> bool" where
  "noCollision K E \<longleftrightarrow> inj_on K E \<and> (\<forall>e \<in> E. length (K e) = 32 \<and> K e \<noteq> zeroHash \<and> length e < 2 ^ 63)"

abbreviation encs :: "(bytes \<Rightarrow> bytes) \<Rightarrow> ptrie \<Rightarrow> bytes set" where
  "encs K p \<equiv> penc K ` subs p"

lemma open_sub: "isOpen p \<Longrightarrow> p \<in> subs p"
  by (cases p) auto

lemma compact_key:
  assumes "hexPath k"
  shows "hexToCompact k = Some (the (hexToCompact k))" and "canonicalKey (the (hexToCompact k))"
    and "compactToHex (the (hexToCompact k)) = Some k"
  using compact_roundtrip [OF assms] by auto

lemma squash_cases:
  "isOpen q \<Longrightarrow> squash K (collapse K q) = (if length (penc K q) < 32 then collapse K q else hashNode (K (penc K q)))"
  by (cases q) (auto simp: penc_def)

lemma squash_stored:
  assumes "stored False (collapse K q)" and "isOpen q" and "length (K (penc K q)) = 32"
  shows "stored True (squash K (collapse K q))"
  unfolding squash_cases [OF assms(2)] using assms by (cases q) (auto simp: penc_def)

lemma wf_open: "wfT q \<Longrightarrow> q = PNil \<or> isOpen q"
  by (cases q) auto

lemma children_split: "length cs = 17 \<Longrightarrow> cs = take 16 cs @ [cs ! 16]"
  using take_Suc_conv_app_nth [of 16 cs] by simp

lemma full_child:
  assumes "wfT (PFull cs)" and "c \<in> set cs"
  shows "isOpen c \<Longrightarrow> wfT c" and "\<not> isOpen c \<Longrightarrow> leafT c"
proof -
  have "cs = take 16 cs @ [cs ! 16]" using assms(1) by (intro children_split) simp
  then have "c \<in> set (take 16 cs @ [cs ! 16])" using assms(2) by simp
  then have "wfT c \<or> leafT c" using assms(1) by auto
  then show "isOpen c \<Longrightarrow> wfT c" "\<not> isOpen c \<Longrightarrow> leafT c" using wf_open by (auto simp: leafT_def elim: pvalue.elims)
qed

lemma stored_collapse:
  "wfT p \<Longrightarrow> isOpen p \<Longrightarrow> (\<forall>e \<in> encs K p. length (K e) = 32) \<Longrightarrow> stored False (collapse K p)"
proof (induction p)
  case (PShort k q)
  then have k: "hexPath k" by simp
  show ?case
  proof (cases "hasTerm k")
    case True
    then show ?thesis using PShort.prems compact_key [OF k] by (cases q) auto
  next
    case False
    then have q: "wfT q" "isOpen q" using PShort.prems by (auto elim: isFull.elims)
    have "stored True (squash K (collapse K q))"
      using PShort q open_sub [OF q(2)] by (intro squash_stored) auto
    then show ?thesis using compact_key [OF k] False by simp
  qed
next
  case (PFull cs)
  have len: "length cs = 17" using PFull.prems by simp
  have "stored True (squash K (collapse K c))" if c: "c \<in> set (take 16 cs)" for c
  proof (cases "c = PNil")
    case False
    then have o: "wfT c" "isOpen c" "c \<in> set cs" using PFull.prems(1) c wf_open by (auto dest: in_set_takeD)
    then show ?thesis using PFull.IH [OF o(3,1,2)] PFull.prems(3) open_sub [OF o(2)] by (intro squash_stored) auto
  qed simp
  moreover have "drop 16 cs = [cs ! 16]" using arg_cong [OF children_split [OF len], of "drop 16"] len by simp
  moreover have "squash K (collapse K (cs ! 16)) = valueNode [] \<or> isValue (squash K (collapse K (cs ! 16)))"
    using PFull.prems(1) by (cases "cs ! 16") (auto simp: leafT_def)
  ultimately show ?case using len by (simp add: take_map drop_map)
qed simp_all

lemma rep_reload:
  "wfT p \<Longrightarrow> isOpen p \<Longrightarrow> inDb K nd p \<Longrightarrow> labelled K nd outer h False p \<Longrightarrow> rep K nd outer (reload g h (collapse K p)) p"
proof (induction p arbitrary: outer h)
  case (PShort k q)
  then have k: "hexPath k" by simp
  have "rep K nd False (reload g None (squash K (collapse K q))) q"
  proof (cases "hasTerm k")
    case True
    then show ?thesis using PShort.prems by (cases q) auto
  next
    case False
    then have q: "wfT q" "isOpen q" using PShort.prems by (auto elim: isFull.elims)
    then show ?thesis using PShort.IH [of False None] PShort.prems(3) unfolding squash_cases [OF q(2)]
      by (auto simp: labelled_def refIn_def)
  qed
  then show ?case using PShort.prems(4) compact_key [OF k] by simp
next
  case (PFull cs)
  have len: "length cs = 17" using PFull.prems by simp
  have "rep K nd False (reload g None (squash K (collapse K c))) c" if c: "c \<in> set cs" for c
  proof (cases "isOpen c")
    case True
    have wf: "wfT c" using full_child(1) [OF PFull.prems(1) c True] .
    then show ?thesis using PFull.IH [OF c wf True, of False None] PFull.prems(3) c True unfolding squash_cases [OF True]
      by (auto simp: labelled_def refIn_def)
  next
    case False
    then show ?thesis using full_child(2) [OF PFull.prems(1) c] by (cases c) (auto simp: leafT_def)
  qed
  then have "list_all2 (rep K nd False) (map (\<lambda>q. reload g None (squash K (collapse K q))) cs) cs"
    by (simp add: list_all2_conv_all_nth)
  then show ?case using PFull.prems(4) len by (simp add: comp_def)
qed simp_all

definition blobs :: "Database \<Rightarrow> bytes \<Rightarrow> bytes option" where
  "blobs d h = (case Node d h of Inl _ \<Rightarrow> None | Inr b \<Rightarrow> b)"

lemma BytesToHash_id [simp]: "length h = 32 \<Longrightarrow> BytesToHash h = h"
  by (simp add: BytesToHash_def)

lemma resolve_stored:
  assumes "blobs (db t) h = Some (penc K p)" and "length h = 32" and "wfT p" and "isOpen p" and "noCollision K E" and "encs K p \<subseteq> E"
  shows "resolveHash t h prefix = Inr (reload (cachegen t) (Some h) (collapse K p))"
proof -
  have E: "\<forall>e \<in> encs K p. length (K e) = 32 \<and> length e < 2 ^ 63" using assms(5,6) by (auto simp: noCollision_def)
  have "stored False (collapse K p)" using E by (intro stored_collapse assms(3,4)) simp
  moreover have "length (penc K p) < 2 ^ 63" using E open_sub [OF assms(4)] by blast
  ultimately have "decodeNode (Some h) (penc K p) (cachegen t) = Inr (reload (cachegen t) (Some h) (collapse K p))"
    using decode_stored [of "collapse K p" "[]"] by (simp add: penc_def)
  then show ?thesis using assms(1,2) by (auto simp: resolveHash_def mustDecodeNode_def blobs_def split: sum.splits)
qed

lemma views_exist:
  assumes "list_all2 (\<lambda>c p. \<exists>d. view A False d t c = Some p) cs ps"
  shows "\<exists>d. map (view A False d t) cs = map Some ps"
  using assms
proof (induction rule: list_all2_induct)
  case (Cons c cs p ps)
  then obtain d1 d2 where "view A False d1 t c = Some p" "map (view A False d2 t) cs = map Some ps" by blast
  moreover then have "map (view A False (max d1 d2) t) cs = map Some ps"
    using view_mono [of A False d2 t _ _ "max d1 d2"] by (auto simp: list_eq_iff_nth_eq)
  ultimately show ?case using view_mono [of A False d1 t c p "max d1 d2"] by (intro exI [of _ "max d1 d2"]) simp
qed simp

lemma rep_view:
  assumes "noCollision K E" and "nd = blobs (db t)"
  shows "rep K nd outer n p \<Longrightarrow> wfT p \<or> leafT p \<Longrightarrow> encs K p \<subseteq> E \<Longrightarrow> \<exists>d. view (labelled K nd) outer d t n = Some p"
proof (induction "weight p" arbitrary: outer n p rule: less_induct)
  case less
  have node: "\<exists>d. view (labelled K nd) outer d t n = Some p" if r: "rep K nd outer n p" and h: "\<not> isHash n" for n
  proof (cases n)
    case NilNode
    then show ?thesis using r by (intro exI [of _ 1]) simp
  next
    case (valueNode v)
    then show ?thesis using r by (intro exI [of _ 1]) simp
  next
    case (shortNode k v f)
    then obtain q where q: "p = PShort k q" "rep K nd False v q" "labelled K nd outer (hash f) (dirty f) p" using r by auto
    have "wfT q \<or> leafT q" "weight q < weight p" using less.prems(2) q(1) by (auto simp: leafT_def split: if_splits)
    then obtain d where "view (labelled K nd) False d t v = Some q" using less.hyps [of q False v] q less.prems(3) by auto
    then show ?thesis using shortNode q by (intro exI [of _ "Suc d"]) simp
  next
    case (fullNode cs f)
    then obtain ps where ps: "p = PFull ps" "list_all2 (rep K nd False) cs ps" "length cs = 17" "labelled K nd outer (hash f) (dirty f) p"
      using r by auto
    have wf: "wfT (PFull ps)" using less.prems(2) ps(1) by (auto simp: leafT_def)
    have "\<exists>d. view (labelled K nd) False d t c = Some q" if "rep K nd False c q" "q \<in> set ps" for c q
    proof (rule less.hyps [OF _ that(1)])
      show "weight q < weight p" using member_le_sum_list [of "weight q" "map weight ps"] that(2) ps(1) by simp
      show "wfT q \<or> leafT q" using full_child [OF wf that(2)] by blast
      show "encs K q \<subseteq> E" using less.prems(3) that(2) ps(1) by auto
    qed
    then have "list_all2 (\<lambda>c p. \<exists>d. view (labelled K nd) False d t c = Some p) cs ps"
      using ps(2) by (auto simp: list_all2_conv_all_nth)
    then obtain d where "map (view (labelled K nd) False d t) cs = map Some ps" using views_exist by blast
    then show ?thesis using fullNode ps by (intro exI [of _ "Suc d"]) simp
  qed (use h in simp)
  show ?case
  proof (cases n)
    case (hashNode h)
    then have o: "isOpen p" and l: "labelled K nd outer (Some h) False p" using less.prems(1) by auto
    then have wf: "wfT p" using less.prems(2) by (cases p) (auto simp: leafT_def)
    have h: "length h = 32" using l o open_sub less.prems(3) assms(1) by (auto simp: labelled_def noCollision_def)
    let ?n = "reload (cachegen t) (Some h) (collapse K p)"
    have res: "resolveHash t h [] = Inr ?n"
      using l assms wf o h less.prems(3) by (intro resolve_stored) (auto simp: labelled_def)
    have "rep K nd outer ?n p" using l by (intro rep_reload wf o) (auto simp: labelled_def)
    moreover have "\<not> isHash ?n" using o by (cases p) simp_all
    ultimately obtain d where "view (labelled K nd) outer d t ?n = Some p" using node by blast
    then show ?thesis using hashNode res l by (intro exI [of _ "Suc d"]) simp
  qed (use node less.prems(1) in auto)
qed

section \<open>Writing nodes\<close>

definition sameBlobs :: "Database \<Rightarrow> Database \<Rightarrow> bool" where
  "sameBlobs d d' \<longleftrightarrow> diskdb d' = diskdb d \<and> (\<forall>h. map_option blob (map_of (nodes d') h) = map_option blob (map_of (nodes d) h))"

lemma sameBlobs_refl [simp]: "sameBlobs d d"
  by (simp add: sameBlobs_def)

lemma sameBlobs_trans: "sameBlobs a b \<Longrightarrow> sameBlobs b c \<Longrightarrow> sameBlobs a c"
  by (simp add: sameBlobs_def)

lemma sameBlobs_blobs: "sameBlobs d d' \<Longrightarrow> blobs d' = blobs d"
proof
  fix h assume s: "sameBlobs d d'"
  then have "map_option blob (map_of (nodes d') h) = map_option blob (map_of (nodes d) h)" by (simp add: sameBlobs_def)
  then show "blobs d' h = blobs d h" using s
    by (cases "map_of (nodes d) h"; cases "map_of (nodes d') h") (simp_all add: blobs_def Node_def sameBlobs_def)
qed

lemma sameBlobs_dom: "sameBlobs d d' \<Longrightarrow> map_of (nodes d') h = None \<longleftrightarrow> map_of (nodes d) h = None"
  by (metis sameBlobs_def option.map_disc_iff)

lemma setNode_same:
  "map_of (nodes d) h = Some n \<Longrightarrow> blob n' = blob n \<Longrightarrow> sameBlobs d (setNode h n' d)"
  by (auto simp: sameBlobs_def setNode_def update_conv')

lemma reference_same:
  assumes "map_of (nodes d) h \<noteq> None"
  shows "\<exists>d'. reference c h d = Inr d' \<and> sameBlobs d d'"
proof (cases "map_of (nodes d) c")
  case (Some n)
  obtain p where p: "map_of (nodes d) h = Some p" using assms by blast
  let ?d1 = "setNode c (n\<lparr>parents := parents n + 1\<rparr>) d"
  have 1: "sameBlobs d ?d1" using Some by (rule setNode_same) simp
  obtain p1 where p1: "map_of (nodes ?d1) h = Some p1" using sameBlobs_dom [OF 1] p by fastforce
  have 2: "sameBlobs ?d1 (setNode h (p1\<lparr>children := cs\<rparr>) ?d1)" for cs using p1 by (rule setNode_same) simp
  show ?thesis using Some p p1 sameBlobs_trans [OF 1 2] by (simp add: reference_def Let_def)
qed (simp add: reference_def)

lemma referenceAll_same:
  "map_of (nodes d) h \<noteq> None \<Longrightarrow> \<exists>d'. referenceAll cs h d = Inr d' \<and> sameBlobs d d'"
proof (induction cs arbitrary: d)
  case (Cons c cs)
  obtain d1 where d1: "(case c of hashNode child \<Rightarrow> reference (BytesToHash child) h d | _ \<Rightarrow> Inr d) = Inr d1" "sameBlobs d d1"
    using reference_same [OF Cons.prems] by (cases c) auto
  have "map_of (nodes d1) h \<noteq> None" using Cons.prems sameBlobs_dom [OF d1(2), of h] by simp
  then obtain d2 where "referenceAll cs h d1 = Inr d2" "sameBlobs d1 d2" using Cons.IH by blast
  then show ?case using d1 sameBlobs_trans [OF d1(2)] by simp
qed simp

text \<open>A callback that leaves the nodes of the database as they are.\<close>

definition leafOk :: "(bytes \<Rightarrow> bytes \<Rightarrow> Database \<Rightarrow> Database) option \<Rightarrow> bool" where
  "leafOk leaf \<longleftrightarrow> (case leaf of None \<Rightarrow> True | Some f \<Rightarrow> \<forall>c h d. sameBlobs d (f c h d))"

lemma leaves_same: "(\<And>c h d. sameBlobs d (f c h d)) \<Longrightarrow> sameBlobs d (leaves f cs h d)"
proof (induction cs arbitrary: d)
  case (Cons c cs)
  then have "sameBlobs d (case c of valueNode child \<Rightarrow> f child h d | _ \<Rightarrow> d)" by (cases c) simp_all
  then show ?case using Cons sameBlobs_trans by auto
qed simp

text \<open>A database that holds nothing else under the hashes in play.\<close>

definition safe :: "(bytes \<Rightarrow> bytes) \<Rightarrow> bytes set \<Rightarrow> Database \<Rightarrow> bool" where
  "safe K E d \<longleftrightarrow> noCollision K E \<and> (\<forall>e \<in> E. blobs d (K e) = None \<or> blobs d (K e) = Some e) \<and>
     (\<forall>h n. map_of (nodes d) h = Some n \<and> blob n = None \<longrightarrow> h = zeroHash)"

lemma safe_blob: "safe K E d \<Longrightarrow> map_of (nodes d) h = Some n \<Longrightarrow> h \<noteq> zeroHash \<Longrightarrow> blob n \<noteq> None"
  by (metis safe_def)

lemma safe_same: "sameBlobs d d' \<Longrightarrow> safe K E d \<Longrightarrow> safe K E d'"
proof -
  assume s: "sameBlobs d d'" and ok: "safe K E d"
  have "h = zeroHash" if n: "map_of (nodes d') h = Some n" "blob n = None" for h n
  proof -
    have "map_option blob (map_of (nodes d') h) = map_option blob (map_of (nodes d) h)" using s by (simp add: sameBlobs_def)
    then obtain m where "map_of (nodes d) h = Some m" "blob m = None" using n by (cases "map_of (nodes d) h") simp_all
    then show ?thesis using ok by (simp add: safe_def)
  qed
  then show ?thesis using ok sameBlobs_blobs [OF s] by (auto simp: safe_def)
qed

lemma dbInsert_blobs:
  assumes "safe K E d" and "enc \<in> E"
  shows "blobs (dbInsert (K enc) enc d) = (blobs d)(K enc \<mapsto> enc)" and "safe K E (dbInsert (K enc) enc d)"
    and "map_of (nodes (dbInsert (K enc) enc d)) (K enc) \<noteq> None"
proof -
  let ?d = "dbInsert (K enc) enc d"
  have z: "K enc \<noteq> zeroHash" using assms by (auto simp: safe_def noCollision_def)
  show b: "blobs ?d = (blobs d)(K enc \<mapsto> enc)"
  proof (cases "map_of (nodes d) (K enc)")
    case None
    then show ?thesis by (auto simp: dbInsert_def blobs_def Node_def update_conv' fun_eq_iff cong: option.case_cong)
  next
    case (Some n)
    have "blob n \<noteq> None" using safe_blob [OF assms(1) Some z] .
    then obtain x where "blob n = Some x" by blast
    then have "blobs d (K enc) = Some x" using Some by (simp add: blobs_def Node_def)
    then have "blobs d (K enc) = Some enc" using assms by (auto simp: safe_def)
    then show ?thesis using Some by (auto simp: dbInsert_def fun_eq_iff)
  qed
  have "blobs ?d (K e) = None \<or> blobs ?d (K e) = Some e" if "e \<in> E" for e
    using that assms unfolding b safe_def noCollision_def by (auto dest: inj_onD)
  moreover have "map_of (nodes ?d) h = Some n \<and> blob n = None \<longrightarrow> h = zeroHash" for h n
    using assms(1) by (auto simp: dbInsert_def safe_def update_conv' split: option.splits if_splits)
  ultimately show "safe K E ?d" using assms(1) unfolding safe_def by blast
  show "map_of (nodes ?d) (K enc) \<noteq> None" by (simp add: dbInsert_def update_conv' split: option.split)
qed

lemma storeIn_ok:
  assumes "safe K E d" and "enc \<in> E" and "leafOk (onleaf e)"
  shows "\<exists>d'. storeIn e n (K enc) enc d = Inr d' \<and> blobs d' = (blobs d)(K enc \<mapsto> enc) \<and> safe K E d'"
proof -
  note I = dbInsert_blobs [OF assms(1,2)]
  obtain d1 where d1: "referenceAll (refs n) (K enc) (dbInsert (K enc) enc d) = Inr d1" "sameBlobs (dbInsert (K enc) enc d) d1"
    using referenceAll_same [OF I(3)] by blast
  let ?d2 = "case onleaf e of None \<Rightarrow> d1 | Some f \<Rightarrow> leaves f (refs n) (K enc) d1"
  have "sameBlobs d1 ?d2" using assms(3) leaves_same by (auto simp: leafOk_def split: option.splits)
  then have s: "sameBlobs (dbInsert (K enc) enc d) ?d2" using d1(2) sameBlobs_trans by blast
  show ?thesis using d1(1) sameBlobs_blobs [OF s] safe_same [OF s I(2)] I(1) by (simp add: storeIn_def)
qed

section \<open>Hashing a node\<close>

lemma refIn_mono: "refIn K nd q \<Longrightarrow> nd \<subseteq>\<^sub>m nd' \<Longrightarrow> refIn K nd' q"
  by (auto simp: refIn_def map_le_def dom_def)

lemma inDb_mono: "inDb K nd p \<Longrightarrow> nd \<subseteq>\<^sub>m nd' \<Longrightarrow> inDb K nd' p"
  by (induction p) (auto intro: refIn_mono)

lemma labelled_mono: "labelled K nd outer h dirt p \<Longrightarrow> nd \<subseteq>\<^sub>m nd' \<Longrightarrow> labelled K nd' outer h dirt p"
  by (auto simp: labelled_def map_le_def dom_def inDb_mono split: option.splits)

lemma rep_mono: "rep K nd outer n p \<Longrightarrow> nd \<subseteq>\<^sub>m nd' \<Longrightarrow> rep K nd' outer n p"
proof (induction rule: rep.induct)
  case (rep_full cs ps outer f)
  then have "list_all2 (rep K nd' False) cs ps" by (auto elim: list_all2_mono)
  then show ?case using rep_full labelled_mono by simp
qed (auto intro: labelled_mono)

text \<open>The state of a hasher: no database, or one with the nodes \<open>nd\<close>.\<close>

definition holds :: "(bytes \<Rightarrow> bytes) \<Rightarrow> bytes set \<Rightarrow> Database option \<Rightarrow> (bytes \<Rightarrow> bytes option) \<Rightarrow> bool" where
  "holds K E s nd \<longleftrightarrow> noCollision K E \<and> (\<forall>d. s = Some d \<longrightarrow> blobs d = nd \<and> safe K E d)"

definition grows :: "Database option \<Rightarrow> (bytes \<Rightarrow> bytes option) \<Rightarrow> Database option \<Rightarrow> (bytes \<Rightarrow> bytes option) \<Rightarrow> bool" where
  "grows s nd s' nd' \<longleftrightarrow> (s = None \<longleftrightarrow> s' = None) \<and> (s = None \<longrightarrow> nd' = nd) \<and> nd \<subseteq>\<^sub>m nd'"

lemma grows_refl [simp]: "grows s nd s nd"
  by (simp add: grows_def)

lemma grows_trans: "grows s nd s1 nd1 \<Longrightarrow> grows s1 nd1 s2 nd2 \<Longrightarrow> grows s nd s2 nd2"
  by (auto simp: grows_def intro: map_le_trans)

lemma grows_mono: "grows s nd s' nd' \<Longrightarrow> nd \<subseteq>\<^sub>m nd'"
  by (simp add: grows_def)

definition big :: "(bytes \<Rightarrow> bytes) \<Rightarrow> bool \<Rightarrow> ptrie \<Rightarrow> bool" where
  "big K force p \<longleftrightarrow> force \<or> 32 \<le> length (penc K p)"

text \<open>What hashing a node for \<open>p\<close> gives: a reference to put into the parent and the node to keep.\<close>

definition hashed :: "(bytes \<Rightarrow> bytes) \<Rightarrow> bytes set \<Rightarrow> bool \<Rightarrow> ptrie \<Rightarrow> Database option \<Rightarrow> (bytes \<Rightarrow> bytes option) \<Rightarrow>
    (trieErr + node \<times> node) \<times> Database option \<Rightarrow> bool" where
  "hashed K E force p s nd r \<longleftrightarrow>
     (\<exists>hn cn s' nd'. r = (Inr (hn, cn), s') \<and> holds K E s' nd' \<and> grows s nd s' nd' \<and>
        (if big K force p then hn = hashNode (K (penc K p)) else hn \<noteq> NilNode \<and> nodeEnc hn = penc K p) \<and>
        rep K nd' force cn p \<and> (s' \<noteq> None \<longrightarrow> inDb K nd' p \<and> (big K force p \<longrightarrow> nd' (K (penc K p)) = Some (penc K p))))"

lemma hashedI:
  assumes "r = (Inr (hn, cn), s')" and "holds K E s' nd'" and "grows s nd s' nd'"
    and "big K force p \<Longrightarrow> hn = hashNode (K (penc K p))" and "\<not> big K force p \<Longrightarrow> hn \<noteq> NilNode \<and> nodeEnc hn = penc K p"
    and "rep K nd' force cn p" and "s' \<noteq> None \<Longrightarrow> inDb K nd' p"
    and "s' \<noteq> None \<Longrightarrow> big K force p \<Longrightarrow> nd' (K (penc K p)) = Some (penc K p)"
  shows "hashed K E force p s nd r"
  unfolding hashed_def using assms by (intro exI [of _ hn] exI [of _ cn] exI [of _ s'] exI [of _ nd']) simp

lemma store_hashed:
  assumes K: "keccak e = K" and leaf: "leafOk (onleaf e)" and st: "holds K E s nd"
    and col: "cache col = (hash f, dirty f)" "col \<noteq> NilNode" "\<not> isHash col" "nodeEnc col = penc K p"
    and p: "isOpen p" "penc K p \<in> E" "s \<noteq> None \<Longrightarrow> inDb K nd p"
    and lab: "labelled K nd force (hash f) (dirty f) p" and late: "hash f = None \<or> dirty f \<and> s \<noteq> None"
    and cn: "\<And>h w nd'. nd \<subseteq>\<^sub>m nd' \<Longrightarrow> labelled K nd' force (case h of hashNode x \<Rightarrow> Some x | _ \<Rightarrow> None) (dirty f \<and> \<not> w) p \<Longrightarrow>
        rep K nd' force (setCached h w c0) p"
  shows "hashed K E force p s nd (bindE (store e col force s) (\<lambda>h s. (Inr (h, setCached h (s \<noteq> None) c0), s)))"
proof -
  let ?enc = "penc K p"
  have E: "length ?enc < 2 ^ 63" "length (K ?enc) = 32" using st p(2) by (auto simp: holds_def noCollision_def)
  have enc: "encodeNode col = Inr ?enc" using encodeNode_eq [of col] E(1) col(4) by simp
  have h: "(case fst (cache col) of Some x \<Rightarrow> x | None \<Rightarrow> keccak e ?enc) = K ?enc"
    using lab by (auto simp: col(1) K labelled_def split: option.splits)
  show ?thesis
  proof (cases "big K force p")
    case False
    then have "store e col force s = (Inr col, s)" using enc col(2,3) by (auto simp: store_def big_def)
    moreover have "rep K nd force (setCached col w c0) p" for w
      using False col(3) by (intro cn) (cases col; auto simp: labelled_def big_def)+
    ultimately show ?thesis using st False p(3) col by (intro hashedI [of _ col _ s K E nd]) simp_all
  next
    case True
    then have big: "\<not> (length ?enc < 32 \<and> \<not> force)" by (auto simp: big_def)
    show ?thesis
    proof (cases s)
      case None
      then have "store e col force s = (Inr (hashNode (K ?enc)), None)" using enc col(2,3) big h by (auto simp: store_def Let_def)
      moreover have "labelled K nd force (Some (K ?enc)) (dirty f) p"
        using lab late True None by (auto simp: labelled_def big_def)
      then have "rep K nd force (setCached (hashNode (K ?enc)) False c0) p" by (intro cn) simp_all
      ultimately show ?thesis using st True None by (intro hashedI [of _ "hashNode (K ?enc)" _ None K E nd]) simp_all
    next
      case (Some d)
      then have d: "blobs d = nd" "safe K E d" using st by (auto simp: holds_def)
      obtain d' where d': "storeIn e col (K ?enc) ?enc d = Inr d'" "blobs d' = nd(K ?enc \<mapsto> ?enc)" "safe K E d'"
        using storeIn_ok [OF d(2) p(2) leaf] d(1) by blast
      have le: "nd \<subseteq>\<^sub>m nd(K ?enc \<mapsto> ?enc)" using d p(2) by (auto simp: map_le_def safe_def)
      have "store e col force s = (Inr (hashNode (K ?enc)), Some d')"
        using enc col(2,3) big h Some d'(1) E(2) by (auto simp: store_def Let_def)
      moreover have "inDb K (nd(K ?enc \<mapsto> ?enc)) p" using inDb_mono [OF _ le] p(3) Some by simp
      moreover then have "labelled K (nd(K ?enc \<mapsto> ?enc)) force (Some (K ?enc)) False p" using True by (simp add: labelled_def big_def)
      then have "rep K (nd(K ?enc \<mapsto> ?enc)) force (setCached (hashNode (K ?enc)) True c0) p" by (intro cn le) simp_all
      ultimately show ?thesis using d' le Some True st
        by (intro hashedI [of _ "hashNode (K ?enc)" _ "Some d'" K E "nd(K ?enc \<mapsto> ?enc)"]) (simp_all add: holds_def grows_def)
    qed
  qed
qed

lemma hashed_grows: "hashed K E force p s1 nd1 r \<Longrightarrow> grows s nd s1 nd1 \<Longrightarrow> hashed K E force p s nd r"
  unfolding hashed_def using grows_trans by blast

text \<open>The reference to a child, in the form the parent is encoded with.\<close>

lemma hashed_child:
  assumes "hashed K E False q s nd r" and "isOpen q"
  obtains a b s' nd' where "r = (Inr (a, b), s')" "holds K E s' nd'" "grows s nd s' nd'" "a \<noteq> NilNode"
    "nodeEnc a = nodeEnc (squash K (collapse K q))" "rep K nd' False b q" "s' \<noteq> None \<Longrightarrow> inDb K nd' q \<and> refIn K nd' q"
proof -
  obtain a b s' nd' where r: "r = (Inr (a, b), s')" "holds K E s' nd'" "grows s nd s' nd'"
    "if big K False q then a = hashNode (K (penc K q)) else a \<noteq> NilNode \<and> nodeEnc a = penc K q"
    "rep K nd' False b q" "s' \<noteq> None \<longrightarrow> inDb K nd' q \<and> (big K False q \<longrightarrow> nd' (K (penc K q)) = Some (penc K q))"
    using assms(1) unfolding hashed_def by blast
  show thesis using that [OF r(1-3) _ _ r(5)] r(4,6) squash_cases [OF assms(2), of K]
    by (auto simp: big_def refIn_def penc_def split: if_splits)
qed

text \<open>The cases in which a cached hash is returned.\<close>

lemma hash_cached:
  assumes n: "cache n = (Some x, dirt)" "n \<noteq> NilNode" and lab: "labelled K nd force (Some x) dirt p" and r: "rep K nd force n p"
    and p: "isOpen p" and st: "holds K E s nd" and early: "\<not> (dirt \<and> s \<noteq> None)"
  shows "hashed K E force p s nd (hashN e n force s)"
proof -
  have x: "x = K (penc K p)" "big K force p" using lab by (auto simp: labelled_def big_def)
  have clean: "nd x = Some (penc K p) \<and> inDb K nd p" if "\<not> dirt" using lab that by (auto simp: labelled_def)
  have u: "\<not> dirt" if "canUnload n (hcachegen e) (hcachelimit e)" using that n by (cases n) (auto simp: flagCanUnload_def)
  have "rep K nd force (hashNode x) p" if "\<not> dirt" using lab that p by simp
  then have "\<exists>cn. hashN e n force s = (Inr (hashNode x, cn), s) \<and> rep K nd force cn p"
    using n early u r by (subst hashN.simps) auto
  then show ?thesis using st x clean early by (auto intro!: hashedI)
qed

lemma hashAll_ok:
  assumes "\<And>c p s nd. c \<in> set cs \<Longrightarrow> rep K nd False c p \<Longrightarrow> isOpen p \<Longrightarrow> wfT p \<Longrightarrow> encs K p \<subseteq> E \<Longrightarrow> holds K E s nd \<Longrightarrow>
      hashed K E False p s nd (hashN e c False s)"
    and "list_all2 (rep K nd False) cs ps" and "\<forall>p \<in> set ps. wfT p \<and> encs K p \<subseteq> E" and "holds K E s nd"
  shows "\<exists>as bs s' nd'. hashAll e cs s = (Inr (as, bs), s') \<and> holds K E s' nd' \<and> grows s nd s' nd' \<and>
    map nodeEnc as = map (\<lambda>p. nodeEnc (squash K (collapse K p))) ps \<and> list_all2 (rep K nd' False) bs ps \<and>
    (s' \<noteq> None \<longrightarrow> (\<forall>p \<in> set ps. inDb K nd' p \<and> refIn K nd' p))"
  using assms
proof (induction cs arbitrary: ps s nd)
  case (Cons c cs)
  then obtain p ps' where ps: "ps = p # ps'" "rep K nd False c p" "list_all2 (rep K nd False) cs ps'" by (auto simp: list_all2_Cons1)
  have wf: "wfT p" "encs K p \<subseteq> E" using Cons.prems(3) ps(1) by auto
  obtain a b s1 nd1 where 1: "(if c = NilNode then (Inr (valueNode [], NilNode), s) else hashN e c False s) = (Inr (a, b), s1)"
      "holds K E s1 nd1" "grows s nd s1 nd1" "nodeEnc a = nodeEnc (squash K (collapse K p))" "rep K nd1 False b p"
      "s1 \<noteq> None \<Longrightarrow> inDb K nd1 p \<and> refIn K nd1 p"
  proof (cases "c = NilNode")
    case True
    then have "p = PNil" using ps(2) by simp
    then show thesis using that [of "valueNode []" NilNode s nd] True Cons.prems(4) by (simp add: refIn_def)
  next
    case False
    have "isOpen p" using wf_open [OF wf(1)] ps(2) False by (cases c) auto
    then show thesis using Cons.prems(1) [OF _ ps(2) _ wf Cons.prems(4)] hashed_child that False by (metis list.set_intros(1))
  qed
  have "list_all2 (rep K nd1 False) cs ps'" using ps(3) rep_mono grows_mono [OF 1(3)] by (auto elim: list_all2_mono)
  then obtain as bs s2 nd2 where 2: "hashAll e cs s1 = (Inr (as, bs), s2)" "holds K E s2 nd2" "grows s1 nd1 s2 nd2"
      "map nodeEnc as = map (\<lambda>p. nodeEnc (squash K (collapse K p))) ps'" "list_all2 (rep K nd2 False) bs ps'"
      "s2 \<noteq> None \<longrightarrow> (\<forall>p \<in> set ps'. inDb K nd2 p \<and> refIn K nd2 p)"
    using Cons.IH [of nd1 ps' s1] Cons.prems(1,3) ps(1) 1(2) by auto
  have le: "nd1 \<subseteq>\<^sub>m nd2" using grows_mono [OF 2(3)] .
  have "hashAll e (c # cs) s = (Inr (a # as, b # bs), s2)" using 1(1) 2(1) by simp
  moreover have "s2 \<noteq> None \<longrightarrow> inDb K nd2 p \<and> refIn K nd2 p"
    using 1(6) inDb_mono [OF _ le] refIn_mono [OF _ le] 2(3) by (auto simp: grows_def)
  ultimately show ?case using 1(4) 2 ps(1) grows_trans [OF 1(3) 2(3)] rep_mono [OF 1(5) le]
    by (intro exI [of _ "a # as"] exI [of _ "b # bs"] exI [of _ s2] exI [of _ nd2]) auto
qed auto

text \<open>A node without a cached hash, or a dirty one that is written.\<close>

declare hashN.simps [simp del]

lemma hashN_late:
  assumes "n \<noteq> NilNode" and "fst (cache n) = None \<or> snd (cache n) \<and> s \<noteq> None"
  shows "hashN e n force s = bindE (hashChildren e n s) (\<lambda>(collapsed, cached) s.
    bindE (store e collapsed force s) (\<lambda>h s. (Inr (h, setCached h (s \<noteq> None) cached), s)))"
  using assms by (subst hashN.simps) (cases n; auto simp: flagCanUnload_def)

lemma hash_short:
  assumes IH: "\<And>q s nd. rep K nd False v q \<Longrightarrow> isOpen q \<Longrightarrow> wfT q \<Longrightarrow> encs K q \<subseteq> E \<Longrightarrow> holds K E s nd \<Longrightarrow>
      hashed K E False q s nd (hashN e v False s)"
    and K: "keccak e = K" and leaf: "leafOk (onleaf e)" and r: "rep K nd force (shortNode k v f) p" and wf: "wfT p" and E: "encs K p \<subseteq> E"
    and st: "holds K E s nd" and late: "hash f = None \<or> dirty f \<and> s \<noteq> None"
  shows "hashed K E force p s nd (hashN e (shortNode k v f) force s)"
proof -
  obtain q where q: "p = PShort k q" "rep K nd False v q" "labelled K nd force (hash f) (dirty f) p" using r by auto
  obtain ch where c: "hexToCompact k = Some ch" using wf q(1) compact_key(1) [of k] by auto
  have pE: "isOpen p" "penc K p \<in> E" using E q(1) by auto
  obtain cv kv s1 nd1 where v: "hashChildren e (shortNode k v f) s = (Inr (shortNode ch cv f, shortNode k kv f), s1)"
      "holds K E s1 nd1" "grows s nd s1 nd1" "nodeEnc cv = nodeEnc (squash K (collapse K q))" "rep K nd1 False kv q"
      "s1 \<noteq> None \<Longrightarrow> inDb K nd1 q \<and> refIn K nd1 q"
  proof (cases "hasTerm k")
    case True
    then obtain w where "q = PVal w" using wf q(1) by (cases q) auto
    moreover then have "v = valueNode w" using q(2) by (cases v) auto
    ultimately show thesis using that [of v v s nd] c st by (simp add: refIn_def)
  next
    case False
    then have o: "wfT q" "isOpen q" "isFull q" using wf q(1) by (auto elim: isFull.elims)
    have nv: "v \<noteq> valueNode w" for w using q(2) o(2) by auto
    have "hashed K E False q s nd (hashN e v False s)" using E q(1) by (intro IH [OF q(2) o(2,1) _ st]) simp
    then obtain a b s1 nd1 where h: "hashN e v False s = (Inr (a, b), s1)" "holds K E s1 nd1" "grows s nd s1 nd1" "a \<noteq> NilNode"
      "nodeEnc a = nodeEnc (squash K (collapse K q))" "rep K nd1 False b q" "s1 \<noteq> None \<Longrightarrow> inDb K nd1 q \<and> refIn K nd1 q"
      using o(2) by (rule hashed_child) blast
    have "hashChildren e (shortNode k v f) s = (Inr (shortNode ch a f, shortNode k b f), s1)"
      using h(1,4) nv c by (cases v) auto
    then show thesis using that h by blast
  qed
  let ?col = "shortNode ch cv f"
  have "hashed K E force p s1 nd1 (bindE (store e ?col force s1) (\<lambda>h s. (Inr (h, setCached h (s \<noteq> None) (shortNode k kv f)), s)))"
  proof (rule store_hashed [OF K leaf v(2), of ?col f])
    show "nodeEnc ?col = penc K p" using v(4) c by (simp add: penc_def q(1))
    show "labelled K nd1 force (hash f) (dirty f) p" using labelled_mono [OF q(3) grows_mono [OF v(3)]] .
    show "hash f = None \<or> dirty f \<and> s1 \<noteq> None" using late v(3) by (auto simp: grows_def)
    show "s1 \<noteq> None \<Longrightarrow> inDb K nd1 p" using v(6) q(1) by simp
    show "rep K nd' force (setCached h w (shortNode k kv f)) p"
      if "nd1 \<subseteq>\<^sub>m nd'" "labelled K nd' force (case h of hashNode x \<Rightarrow> Some x | _ \<Rightarrow> None) (dirty f \<and> \<not> w) p" for h w nd'
      using rep_mono [OF v(5) that(1)] that(2) q(1) by simp
  qed (use pE in simp_all)
  then have "hashed K E force p s nd (bindE (store e ?col force s1) (\<lambda>h s. (Inr (h, setCached h (s \<noteq> None) (shortNode k kv f)), s)))"
    using v(3) by (rule hashed_grows)
  then show ?thesis using hashN_late [of "shortNode k v f" s e force] late v(1) by (simp del: hashChildren.simps)
qed

lemma leaf_child:
  assumes "leafT q" and "rep K nd False c q"
  shows "rep K nd' False c q" and "inDb K nd' q" and "refIn K nd' q"
    and "nodeEnc (if c = NilNode then valueNode [] else c) = nodeEnc (squash K (collapse K q))"
  using assms by (cases q; cases c; simp add: leafT_def refIn_def)+

lemma hash_full:
  assumes IH: "\<And>c q s nd. c \<in> set cs \<Longrightarrow> rep K nd False c q \<Longrightarrow> isOpen q \<Longrightarrow> wfT q \<Longrightarrow> encs K q \<subseteq> E \<Longrightarrow> holds K E s nd \<Longrightarrow>
      hashed K E False q s nd (hashN e c False s)"
    and K: "keccak e = K" and leaf: "leafOk (onleaf e)" and r: "rep K nd force (fullNode cs f) p" and wf: "wfT p" and E: "encs K p \<subseteq> E"
    and st: "holds K E s nd" and late: "hash f = None \<or> dirty f \<and> s \<noteq> None"
  shows "hashed K E force p s nd (hashN e (fullNode cs f) force s)"
proof -
  obtain ps where ps: "p = PFull ps" "list_all2 (rep K nd False) cs ps" "length cs = 17" "labelled K nd force (hash f) (dirty f) p"
    using r by auto
  have len: "length ps = 17" using ps(2,3) by (simp add: list_all2_lengthD)
  have split: "ps = take 16 ps @ [ps ! 16]" using len by (rule children_split)
  have "\<forall>q \<in> set (take 16 ps). wfT q \<and> encs K q \<subseteq> E" using wf E ps(1) by (auto dest: in_set_takeD)
  with ps(2) st obtain as bs s1 nd1 where all: "hashAll e (take 16 cs) s = (Inr (as, bs), s1)" "holds K E s1 nd1" "grows s nd s1 nd1"
      "map nodeEnc as = map (\<lambda>p. nodeEnc (squash K (collapse K p))) (take 16 ps)" "list_all2 (rep K nd1 False) bs (take 16 ps)"
      "s1 \<noteq> None \<Longrightarrow> \<forall>p \<in> set (take 16 ps). inDb K nd1 p \<and> refIn K nd1 p"
    using hashAll_ok [OF IH [OF in_set_takeD [of _ 16]], of "take 16 cs" nd "take 16 ps" s] list_all2_takeI [OF ps(2), of 16] by auto
  have "leafT (ps ! 16)" using wf unfolding ps(1) by simp
  moreover have "rep K nd False (cs ! 16) (ps ! 16)" using ps(3) by (intro list_all2_nthD [OF ps(2)]) simp
  ultimately have last: "rep K nd1 False (cs ! 16) (ps ! 16)" "inDb K nd1 (ps ! 16)" "refIn K nd1 (ps ! 16)"
      "nodeEnc (if cs ! 16 = NilNode then valueNode [] else cs ! 16) = nodeEnc (squash K (collapse K (ps ! 16)))"
    by (rule leaf_child)+
  let ?col = "fullNode (as @ [if cs ! 16 = NilNode then valueNode [] else cs ! 16]) f" and ?c0 = "fullNode (bs @ [cs ! 16]) f"
  have kids: "list_all2 (rep K nd1 False) (bs @ [cs ! 16]) ps"
    by (subst split) (use all(5) last(1) in \<open>simp add: list_all2_appendI\<close>)
  have "hashed K E force p s1 nd1 (bindE (store e ?col force s1) (\<lambda>h s. (Inr (h, setCached h (s \<noteq> None) ?c0), s)))"
  proof (rule store_hashed [OF K leaf all(2), of ?col f])
    have "map nodeEnc (as @ [if cs ! 16 = NilNode then valueNode [] else cs ! 16]) = map (\<lambda>p. nodeEnc (squash K (collapse K p))) ps"
      using arg_cong [OF split, of "map (\<lambda>p. nodeEnc (squash K (collapse K p)))"] by (simp only: map_append all(4) list.map last(4))
    then show "nodeEnc ?col = penc K p" by (simp add: penc_def ps(1) comp_def)
    show "labelled K nd1 force (hash f) (dirty f) p" using labelled_mono [OF ps(4) grows_mono [OF all(3)]] .
    show "hash f = None \<or> dirty f \<and> s1 \<noteq> None" using late all(3) by (auto simp: grows_def)
    show "inDb K nd1 p" if "s1 \<noteq> None"
    proof -
      have "\<forall>c \<in> set (take 16 ps @ [ps ! 16]). inDb K nd1 c \<and> refIn K nd1 c" using all(6) [OF that] last by simp
      then show ?thesis using split ps(1) by simp
    qed
    show "rep K nd' force (setCached h w ?c0) p"
      if "nd1 \<subseteq>\<^sub>m nd'" "labelled K nd' force (case h of hashNode x \<Rightarrow> Some x | _ \<Rightarrow> None) (dirty f \<and> \<not> w) p" for h w nd'
      using list_all2_mono [OF kids rep_mono [OF _ that(1)]] that(2) ps(1) list_all2_lengthD [OF kids] len by simp
  qed (use ps(1) E in simp_all)
  then have "hashed K E force p s nd (bindE (store e ?col force s1) (\<lambda>h s. (Inr (h, setCached h (s \<noteq> None) ?c0), s)))"
    using all(3) by (rule hashed_grows)
  then show ?thesis using hashN_late [of "fullNode cs f" s e force] late all(1) by simp
qed

lemma hashN_ok:
  assumes K: "keccak e = K" and leaf: "leafOk (onleaf e)"
  shows "rep K nd force n p \<Longrightarrow> isOpen p \<Longrightarrow> wfT p \<Longrightarrow> encs K p \<subseteq> E \<Longrightarrow> holds K E s nd \<Longrightarrow>
    hashed K E force p s nd (hashN e n force s)"
proof (induction n arbitrary: force p s nd)
  case (hashNode h)
  then have l: "labelled K nd force (Some h) False p" by simp
  then have x: "h = K (penc K p)" "big K force p" "nd h = Some (penc K p) \<and> inDb K nd p" by (auto simp: labelled_def big_def)
  have "hashN e (hashNode h) force s = (Inr (hashNode h, hashNode h), s)" by (simp add: hashN_late store_def)
  then show ?case using hashNode x by (intro hashedI [of _ "hashNode h" "hashNode h" s K E nd]) simp_all
next
  case (shortNode k v f)
  show ?case
  proof (cases "hash f = None \<or> dirty f \<and> s \<noteq> None")
    case True
    then show ?thesis using hash_short [OF shortNode.IH K leaf] shortNode.prems by blast
  next
    case False
    then show ?thesis using shortNode.prems by (intro hash_cached [of _ "the (hash f)" "dirty f"]) auto
  qed
next
  case (fullNode cs f)
  show ?case
  proof (cases "hash f = None \<or> dirty f \<and> s \<noteq> None")
    case True
    then show ?thesis using hash_full [OF fullNode.IH K leaf] fullNode.prems by blast
  next
    case False
    then show ?thesis using fullNode.prems by (intro hash_cached [of _ "the (hash f)" "dirty f"]) auto
  qed
qed simp_all

lemma hashRoot_ok:
  assumes "rep K nd True (root t) p" and "wfT p" and "encs K p \<subseteq> E" and "holds K E s nd"
    and "leafOk leaf"
  obtains cn s' nd' where "hashRoot K leaf t s = (Inr (hashNode (rootHash K p), cn), s')" "holds K E s' nd'" "grows s nd s' nd'"
    "rep K nd' True cn p" "s' \<noteq> None \<Longrightarrow> p \<noteq> PNil \<Longrightarrow> nd' (rootHash K p) = Some (penc K p) \<and> inDb K nd' p"
proof (cases "p = PNil")
  case True
  then have "root t = NilNode" using assms(1) by (auto elim: rep.cases)
  then show thesis using that [of NilNode s nd] assms(4) True by (simp add: hashRoot_def rootHash_def)
next
  case False
  then have o: "isOpen p" using wf_open [OF assms(2)] by simp
  then have "root t \<noteq> NilNode" using assms(1) by auto
  moreover have "hashed K E True p s nd (hashN \<lparr>keccak = K, hcachegen = cachegen t, hcachelimit = cachelimit t, onleaf = leaf\<rparr> (root t) True s)"
    by (rule hashN_ok [OF _ _ assms(1) o assms(2-4)]) (simp_all add: assms(5))
  ultimately show thesis using that False unfolding hashed_def by (auto simp: hashRoot_def rootHash_def big_def)
qed

section \<open>The root hash determines the trie\<close>

lemma inDb_all: "(\<And>e. e \<in> E \<Longrightarrow> nd (K e) = Some e) \<Longrightarrow> encs K p \<subseteq> E \<Longrightarrow> inDb K nd p"
proof (induction p)
  case (PShort k q)
  then show ?case using open_sub [of q] by (auto simp: refIn_def)
next
  case (PFull cs)
  have "inDb K nd c \<and> refIn K nd c" if "c \<in> set cs" for c
    using PFull.IH [OF that] PFull.prems that open_sub [of c] by (auto simp: refIn_def)
  then show ?case by simp
qed simp_all

lemma same_encoding:
  assumes "wfT p" and "isOpen p" and "wfT q" and "isOpen q" and "penc K p = penc K q"
    and K: "noCollision K E" and E: "encs K p \<subseteq> E" "encs K q \<subseteq> E"
  shows "p = q"
proof -
  define t where "t = \<lparr>db = NewDatabase (\<lambda>h. if h \<in> K ` E then Some (the_inv_into E K h) else None), root = NilNode,
    originalRoot = zeroHash, cachegen = 0, cachelimit = 0\<rparr>"
  define nd where "nd = blobs (db t)"
  let ?h = "K (penc K p)"
  have nd: "nd (K e) = Some e" if "e \<in> E" for e
    using K that by (auto simp: nd_def t_def noCollision_def blobs_def Node_def NewDatabase_def diskGet_def zeroHash_def the_inv_into_f_f)
  have h: "length ?h = 32" "penc K p \<in> E" using K E open_sub [OF assms(2)] by (auto simp: noCollision_def)
  have v: "\<exists>d. view (labelled K nd) True d t (hashNode ?h) = Some r"
    if r: "wfT r" "isOpen r" "penc K r = penc K p" "encs K r \<subseteq> E" for r
  proof (rule rep_view [OF K nd_def])
    have "inDb K nd r" using nd r(4) by (rule inDb_all)
    then show "rep K nd True (hashNode ?h) r" using nd [OF h(2)] r(2,3) by (simp add: labelled_def)
  qed (use r in simp_all)
  obtain d1 where d1: "view (labelled K nd) True d1 t (hashNode ?h) = Some p" using v [of p] assms by blast
  obtain d2 where d2: "view (labelled K nd) True d2 t (hashNode ?h) = Some q" using v [of q] assms by auto
  have "Some p = Some q" using view_mono [OF d1, of "max d1 d2"] view_mono [OF d2, of "max d1 d2"] by simp
  then show ?thesis by simp
qed

lemma rootHash_inj:
  assumes "wfT p" and "wfT q" and K: "noCollision K E" and E: "encs K p \<subseteq> E" "encs K q \<subseteq> E" and "emptyRoot \<notin> K ` E"
    and "rootHash K p = rootHash K q"
  shows "p = q"
proof -
  have in_E: "penc K r \<in> E" if "isOpen r" "encs K r \<subseteq> E" for r using that open_sub by blast
  have ne: "rootHash K r \<noteq> emptyRoot" if "isOpen r" "encs K r \<subseteq> E" for r
    using imageI [OF in_E [OF that], of K] that(1) assms(6) by (auto simp: rootHash_def)
  consider "p = PNil" | "q = PNil" | "isOpen p" "isOpen q" using wf_open assms(1,2) by blast
  then show ?thesis
  proof cases
    case 1
    then show ?thesis using ne [OF _ E(2)] wf_open [OF assms(2)] assms(7) by (auto simp: rootHash_def)
  next
    case 2
    then show ?thesis using ne [OF _ E(1)] wf_open [OF assms(1)] assms(7) by (auto simp: rootHash_def)
  next
    case 3
    then have "K (penc K p) = K (penc K q)" using assms(7) by (auto simp: rootHash_def split: if_splits)
    then have "penc K p = penc K q" using in_E 3 E K by (auto simp: noCollision_def dest: inj_onD)
    then show ?thesis using same_encoding [OF assms(1) 3(1) assms(2) 3(2) _ K E] by blast
  qed
qed

lemma rootHash_length: "wfT p \<Longrightarrow> noCollision K E \<Longrightarrow> encs K p \<subseteq> E \<Longrightarrow> length (rootHash K p) = 32"
  using wf_open [of p] open_sub [of p] by (auto simp: rootHash_def noCollision_def emptyRoot_def)

section \<open>Properties\<close>

lemma TrieHash_ok:
  assumes v: "view (labelled K (blobs (db t))) True d t (root t) = Some p" and wf: "wfT p" and K: "noCollision K E" "encs K p \<subseteq> E"
  obtains t' d' where "TrieHash K t = (Inr (rootHash K p), t')" "db t' = db t"
    "view (labelled K (blobs (db t))) True d' t' (root t') = Some p"
proof -
  have "holds K E None (blobs (db t))" using K(1) by (simp add: holds_def)
  moreover have "leafOk None" by (simp add: leafOk_def)
  ultimately obtain cn s' nd' where h: "hashRoot K None t None = (Inr (hashNode (rootHash K p), cn), s')"
      "grows None (blobs (db t)) s' nd'" "rep K nd' True cn p"
    using hashRoot_ok [OF view_rep [OF v] wf K(2)] by metis
  have r: "rep K (blobs (db t)) True cn p" using h(2,3) by (simp add: grows_def)
  obtain d' where "view (labelled K (blobs (db t))) True d' t cn = Some p" using rep_view [OF K(1) refl r] wf K(2) by blast
  then show thesis using that [of "t\<lparr>root := cn\<rparr>" d'] h(1) rootHash_length [OF wf K] by (simp add: TrieHash_def)
qed

text \<open>A concrete hash on short encodings and tries of one key, for the instances below.\<close>

definition padHash :: "bytes \<Rightarrow> bytes" where
  "padHash e = take 32 (e @ replicate 32 1)"

definition oneKey :: "bytes \<Rightarrow> ptrie" where
  "oneKey v = PShort [0, 1, 16] (PVal v)"

definition oneKeyTrie :: "bytes \<Rightarrow> Trie" where
  "oneKeyTrie v = emptyTrie\<lparr>root := shortNode [0, 1, 16] (valueNode v) (newFlag emptyTrie)\<rparr>"

lemma oneKey_wf:
  assumes "v \<noteq> []"
  shows "wfK (oneKey v)" and "content (oneKey v) = [[1] \<mapsto> v]"
proof -
  have "pins PNil (keybytesToHex [1]) v = oneKey v"
    using pins_PNil [of "[0, 1, 16]" v] by (simp add: keybytesToHex_def pshort_def oneKey_def del: pins.simps)
  then show "wfK (oneKey v)" "content (oneKey v) = [[1] \<mapsto> v]"
    using wfK_pins [OF emptyTrie_view(3) assms, of "[1]"] emptyTrie_view(4) by simp_all
qed

lemma oneKey_view: "view (labelled K (blobs (db (oneKeyTrie v)))) True 2 (oneKeyTrie v) (root (oneKeyTrie v)) = Some (oneKey v)"
  by (simp add: oneKeyTrie_def oneKey_def newFlag_def labelled_def numeral_2_eq_2)

lemma oneKey_encs: "v \<le> 0x7F \<Longrightarrow> encs K (oneKey [v]) = {[0xC4, 0x82, 0x20, 1, v]}"
  by (simp add: oneKey_def penc_def hexToCompact_def hasTerm_def encStr_def encLst_def puthead_def)

lemma padHash_safe:
  assumes "\<And>e. e \<in> E \<Longrightarrow> length e = 5 \<and> hd e = 0xC4"
  shows "noCollision padHash E" and "emptyRoot \<notin> padHash ` E"
proof -
  have K: "padHash e = e @ replicate 27 1" "e \<noteq> []" if "e \<in> E" for e using assms [OF that] by (auto simp: padHash_def)
  have h: "hd (padHash e) = 0xC4" if "e \<in> E" for e using K [OF that] assms [OF that] by simp
  have "inj_on padHash E" using K(1) by (auto intro: inj_onI)
  moreover have "length (padHash e) = 32 \<and> padHash e \<noteq> zeroHash \<and> length e < 2 ^ 63" if "e \<in> E" for e
  proof (intro conjI)
    show "padHash e \<noteq> zeroHash" using h [OF that] by (auto simp: zeroHash_def)
  qed (use K(1) [OF that] assms [OF that] in simp_all)
  ultimately show "noCollision padHash E" by (simp add: noCollision_def)
  have "hd emptyRoot \<noteq> 0xC4" by (simp add: emptyRoot_def)
  then show "emptyRoot \<notin> padHash ` E" using h by (metis imageE)
qed

lemma oneKey_encoded: "v \<le> 0x7F \<Longrightarrow> e \<in> encs K (oneKey [v]) \<Longrightarrow> length e = 5 \<and> hd e = 0xC4"
  by (simp add: oneKey_encs)

text \<open>C10. The root hash identifies the content of a trie: hashing two tries succeeds, and gives the same
  hash exactly when the tries hold the same values under the same keys, as long as no two of the
  encodings of their nodes have the same hash.\<close>

theorem root_hash_binds:
  assumes "view (labelled K (blobs (db t1))) True d1 t1 (root t1) = Some p1" and "wfK p1"
    and "view (labelled K (blobs (db t2))) True d2 t2 (root t2) = Some p2" and "wfK p2"
    and "noCollision K (encs K p1 \<union> encs K p2)" and "emptyRoot \<notin> K ` (encs K p1 \<union> encs K p2)"
  shows "\<exists>h1 h2 t1' t2'. TrieHash K t1 = (Inr h1, t1') \<and> TrieHash K t2 = (Inr h2, t2') \<and> (h1 = h2 \<longleftrightarrow> content p1 = content p2)"
proof -
  have wf: "wfT p1" "wfT p2" using assms(2,4) by (simp_all add: wfK_def)
  obtain t1' where "TrieHash K t1 = (Inr (rootHash K p1), t1')" using TrieHash_ok [OF assms(1) wf(1) assms(5)] by blast
  moreover obtain t2' where "TrieHash K t2 = (Inr (rootHash K p2), t2')" using TrieHash_ok [OF assms(3) wf(2) assms(5)] by blast
  moreover have "rootHash K p1 = rootHash K p2 \<longleftrightarrow> content p1 = content p2"
    using rootHash_inj [OF wf assms(5) _ _ assms(6)] content_inj [OF assms(2,4)] by blast
  ultimately show ?thesis by blast
qed

theorem root_hash_binds_witness:
  "\<exists>h1 h2 t1' t2'. TrieHash padHash (oneKeyTrie [7]) = (Inr h1, t1') \<and> TrieHash padHash (oneKeyTrie [8]) = (Inr h2, t2') \<and>
    (h1 = h2 \<longleftrightarrow> content (oneKey [7]) = content (oneKey [8]))"
proof (rule root_hash_binds [OF oneKey_view oneKey_wf(1) oneKey_view oneKey_wf(1)])
  have E: "length e = 5 \<and> hd e = 0xC4" if "e \<in> encs padHash (oneKey [7]) \<union> encs padHash (oneKey [8])" for e
    using oneKey_encoded [of 7 e padHash] oneKey_encoded [of 8 e padHash] Un_iff [THEN iffD1, OF that] by simp blast
  show "noCollision padHash (encs padHash (oneKey [7]) \<union> encs padHash (oneKey [8]))" by (rule padHash_safe(1) [OF E])
  show "emptyRoot \<notin> padHash ` (encs padHash (oneKey [7]) \<union> encs padHash (oneKey [8]))" by (rule padHash_safe(2) [OF E])
qed simp_all

lemma New_ok:
  assumes "p \<noteq> PNil \<longrightarrow> blobs dd (rootHash K p) = Some (penc K p) \<and> inDb K (blobs dd) p"
    and wf: "wfT p" and K: "noCollision K E" "encs K p \<subseteq> E" and er: "emptyRoot \<notin> K ` E"
  obtains t d where "New (rootHash K p) dd = Inr t" "db t = dd" "view (labelled K (blobs dd)) True d t (root t) = Some p"
proof (cases "p = PNil")
  case True
  then show thesis using that [of "\<lparr>db = dd, root = NilNode, originalRoot = emptyRoot, cachegen = 0, cachelimit = 0\<rparr>" 1]
    by (simp add: New_def rootHash_def)
next
  case False
  then have o: "isOpen p" using wf_open [OF wf] by simp
  let ?h = "rootHash K p"
  let ?t = "\<lparr>db = dd, root = NilNode, originalRoot = ?h, cachegen = 0, cachelimit = 0\<rparr>" and ?n = "reload 0 (Some ?h) (collapse K p)"
  have "penc K p \<in> E" using K(2) open_sub [OF o] by blast
  moreover from this er have "K (penc K p) \<noteq> emptyRoot" by (metis imageI)
  ultimately have h: "?h \<noteq> zeroHash" "?h \<noteq> emptyRoot" "length ?h = 32"
    using K(1) False by (auto simp: rootHash_def noCollision_def)
  have "resolveHash ?t ?h [] = Inr ?n" using resolve_stored [of ?t ?h K p E] assms(1) False h(3) wf o K by simp
  moreover have r: "rep K (blobs dd) True ?n p" using assms(1) False by (intro rep_reload wf o) (simp_all add: labelled_def rootHash_def)
  moreover obtain d where "view (labelled K (blobs dd)) True d (?t\<lparr>root := ?n\<rparr>) ?n = Some p"
    using rep_view [OF K(1) _ r, of "?t\<lparr>root := ?n\<rparr>"] wf K(2) by auto
  ultimately show thesis using that [of "?t\<lparr>root := ?n\<rparr>" d] h by (simp add: New_def)
qed

text \<open>C11. Committing a trie returns its root hash without an error, and keeps its content: the committed trie
  and the one that is opened from the root hash over the same database both have the nodes
  of the trie, with cached hashes and clean marks that are true.\<close>

theorem commit_reopens:
  assumes v: "view (labelled K (blobs (db t))) True d t (root t) = Some p" and wf: "wfT p"
    and db: "safe K (encs K p) (db t)" and leaf: "leafOk leaf" and er: "emptyRoot \<notin> K ` encs K p"
  shows "\<exists>t' t'' d' d''. TrieCommit K leaf t = (Inr (rootHash K p), t') \<and> New (rootHash K p) (db t') = Inr t'' \<and>
    view (labelled K (blobs (db t'))) True d' t' (root t') = Some p \<and> view (labelled K (blobs (db t'))) True d'' t'' (root t'') = Some p"
proof -
  let ?E = "encs K p"
  have K: "noCollision K ?E" using db by (simp add: safe_def)
  have "holds K ?E (Some (db t)) (blobs (db t))" using db K by (simp add: holds_def)
  then obtain cn s nd where h: "hashRoot K leaf t (Some (db t)) = (Inr (hashNode (rootHash K p), cn), s)" "holds K ?E s nd"
      "grows (Some (db t)) (blobs (db t)) s nd" "rep K nd True cn p"
      "s \<noteq> None \<Longrightarrow> p \<noteq> PNil \<Longrightarrow> nd (rootHash K p) = Some (penc K p) \<and> inDb K nd p"
    using hashRoot_ok [OF view_rep [OF v] wf subset_refl _ leaf] by blast
  then obtain dd where dd: "s = Some dd" by (auto simp: grows_def)
  have nd: "blobs dd = nd" using h(2) dd by (simp add: holds_def)
  have "p \<noteq> PNil \<longrightarrow> blobs dd (rootHash K p) = Some (penc K p) \<and> inDb K (blobs dd) p" using h(5) dd nd by simp
  then obtain t'' d'' where "New (rootHash K p) dd = Inr t''" "view (labelled K (blobs dd)) True d'' t'' (root t'') = Some p"
    using New_ok [OF _ wf K subset_refl er] by metis
  moreover let ?t = "t\<lparr>db := dd, root := cn, cachegen := cachegen t + 1\<rparr>"
  have "\<exists>d'. view (labelled K nd) True d' ?t cn = Some p" using rep_view [OF K, of nd ?t] nd h(4) wf by simp
  moreover have "TrieCommit K leaf t = (Inr (rootHash K p), ?t)"
    using h(1) dd rootHash_length [OF wf K subset_refl] by (simp add: TrieCommit_def)
  ultimately show ?thesis using nd by auto
qed

theorem commit_reopens_witness:
  "\<exists>t' t'' d' d''. TrieCommit padHash None (oneKeyTrie [7]) = (Inr (rootHash padHash (oneKey [7])), t') \<and>
    New (rootHash padHash (oneKey [7])) (db t') = Inr t'' \<and>
    view (labelled padHash (blobs (db t'))) True d' t' (root t') = Some (oneKey [7]) \<and>
    view (labelled padHash (blobs (db t'))) True d'' t'' (root t'') = Some (oneKey [7])"
proof (rule commit_reopens [OF oneKey_view])
  show "wfT (oneKey [7])" using oneKey_wf(1) [of "[7]"] by (simp add: wfK_def)
  have "noCollision padHash (encs padHash (oneKey [7]))" by (rule padHash_safe [OF oneKey_encoded]) simp_all
  then show "safe padHash (encs padHash (oneKey [7])) (db (oneKeyTrie [7]))"
    unfolding safe_def by (auto simp: oneKeyTrie_def emptyTrie_def NewDatabase_def blobs_def Node_def diskGet_def split: if_splits)
  show "emptyRoot \<notin> padHash ` encs padHash (oneKey [7])" by (rule padHash_safe [OF oneKey_encoded]) simp_all
qed (simp add: leafOk_def)

end
