(* ===== verification/Spec2Isabelle.thy ===== *)
theory Spec2Isabelle
  imports TokenApi RlpTyping ThresholdSign TrieHasher
begin

text \<open>
  A verification development of go-palletone, a blockchain node written in Go.  It covers four parts
  of the program: the script engine that decides whether a payment may be spent, the RLP codec
  through which everything is stored, the Merkle tries whose nodes go through that codec, and the
  schedule by which mediators produce units, with the threshold signatures on them.

  \<^bold>\<open>Conventions.\<close>  A Go function is a HOL function with the name it has in the source (a prefix or a
  suffix is added where the name is taken).  A struct is a record, an enumeration a datatype.
  Signed integers are integers whose wrap-around is written out (\<open>int32\<close>, \<open>int64\<close> of theory
  \<open>Prelude\<close>), unsigned ones are words.  A result is \<open>Inl\<close> of an error or \<open>Inr\<close> of a value, and an
  operation on state returns the state beside it.  A panic (an index out of range, a nil
  dereference, a failed assertion) is the error \<open>Panic\<close>, \<open>RlpPanic\<close> or \<open>TriePanic\<close>, so that every theorem about
  results also says where the code panics.  A Go map is an association list in the order in which
  \<^verbatim>\<open>range\<close> visits it.  What the code calls outside the repository is an argument: the record
  \<open>prims\<close> (hash functions, curve operations, base 58; theory \<open>Crypto\<close>), the record \<open>medOps\<close> (curve
  points and node identifiers; theory \<open>PropertyDb\<close>), Keccak-256 as the function \<open>K\<close> and the write of
  a leveldb batch as \<open>wr\<close> (theories \<open>TrieHasher\<close> and \<open>TrieDatabase\<close>), and the record \<open>tbls\<close> (key generation and
  threshold signatures; theory \<open>ThresholdSign\<close>).  What a theorem needs of them is a named predicate
  (\<open>hash_sizes\<close>, \<open>base58_inverse\<close>, \<open>base58_clean\<close>, \<open>ecdsa_correct\<close>, \<open>medLaws\<close>, \<open>noCollision\<close>, \<open>writesBatches\<close>), and the witnesses use the
  concrete instances \<open>demo\<close>, \<open>letters\<close>, \<open>letterOps\<close>, \<open>goodScheme\<close>, \<open>strictScheme\<close> and
  \<open>padHash\<close>.

  \<^bold>\<open>Scripts\<close> (\<^verbatim>\<open>src/tokenengine\<close>).
  \<^item> \<open>ScriptError\<close>, \<open>ScriptNum\<close>, \<open>ScriptStack\<close>, \<open>Opcodes\<close>, \<open>Script\<close>, \<open>ScriptBuilder\<close>, \<open>Standard\<close> model the files
    \<^verbatim>\<open>error.go\<close>, \<^verbatim>\<open>scriptnum.go\<close>, \<^verbatim>\<open>stack.go\<close>, \<^verbatim>\<open>opcode.go\<close>, \<^verbatim>\<open>script.go\<close>, \<^verbatim>\<open>scriptbuilder.go\<close> and \<^verbatim>\<open>standard.go\<close> of
    \<^verbatim>\<open>internal/txscript\<close>.  Numbers and scripts come back from their encodings, stack operations move
    and copy blocks as their comments draw, a builder never exceeds the size limit.
  \<^item> \<open>Modules\<close> and \<open>Crypto\<close> are the data model of transactions (\<^verbatim>\<open>dag/modules\<close>) and addresses and
    signatures (\<^verbatim>\<open>common/address.go\<close>, \<^verbatim>\<open>common/crypto\<close>).
  \<^item> \<open>SigHash\<close> is \<^verbatim>\<open>calcSignatureHash\<close>.  It is shown to be constant: what is signed does not enter it.
  \<^item> \<open>Engine\<close> and \<open>Execute\<close> are \<^verbatim>\<open>engine.go\<close> and the opcode handlers.  \<open>Safety\<close>, \<open>Handlers\<close>, \<open>Invariant\<close> and
    \<open>Run\<close> show that executing an engine never panics, keeps its limits and ends.
  \<^item> \<open>Templates\<close> and \<open>MultiSig\<close> run the standard scripts; \<open>Sign\<close> is \<^verbatim>\<open>sign.go\<close> and \<open>TokenApi\<close> is \<^verbatim>\<open>api.go\<close>: an
    input validates exactly when its signatures do, signing makes it validate, and one signer can
    satisfy a script that asks for several.

  \<^bold>\<open>RLP\<close> (\<^verbatim>\<open>src/common/rlp\<close>).
  \<^item> \<open>Rlp\<close> is \<^verbatim>\<open>raw.go\<close> with the heads and integers of both directions, \<open>RlpEncode\<close> is \<^verbatim>\<open>encode.go\<close>, \<open>RlpDecode\<close> is
    \<^verbatim>\<open>decode.go\<close>, both over the Go types of \<^verbatim>\<open>typecache.go\<close> as a datatype.
  \<^item> \<open>RlpStream\<close> and \<open>RlpRoundTrip\<close> show that decoding undoes encoding on canonical values, and which
    signed integers are lost; \<open>RlpTermination\<close> on which types the decoder returns on every input, and
    one on which it does not; \<open>RlpTyping\<close> that what it decodes has the type it was decoded at.

  \<^bold>\<open>Tries\<close> (\<^verbatim>\<open>src/common/trie\<close>).
  \<^item> \<open>TrieEncoding\<close> is \<^verbatim>\<open>encoding.go\<close>: keys come back from their nibble and compact forms.  \<open>TrieNode\<close> is
    \<^verbatim>\<open>node.go\<close> with nodes encoded by the model of \<^verbatim>\<open>rlp.Encode\<close>: decoding a stored node gives it back.
  \<^item> \<open>TrieDatabase\<close> is \<^verbatim>\<open>database.go\<close>, the write layer with its reference counts over the batches of
    \<^verbatim>\<open>common/ptndb\<close>: persisting a trie keeps every node and preimage available, also when writes fail.
  \<^item> \<open>TrieSpec\<close> has the tries of the specification, without hashes, flags or loading.  Its locale \<open>kv_store\<close>
    states what a client relies on, an implementation that refines a map under sequences of
    operations.  A trie is determined by its content.
  \<^item> \<open>Trie\<close> is \<^verbatim>\<open>trie.go\<close>.  The function \<open>view\<close> gives the trie a node stands for when its hashes are
    loaded; lookup, insertion and deletion simulate those of the specification through it, in the
    locale \<open>labelling\<close>, for any property \<open>A\<close> of cached hashes and dirty flags that fresh nodes have.
    By \<open>sublocale\<close> each such trie is a \<open>kv_store\<close>.
  \<^item> \<open>TrieHasher\<close> is \<^verbatim>\<open>hasher.go\<close> with \<^verbatim>\<open>Hash\<close> and \<^verbatim>\<open>Commit\<close>.  It interprets \<open>labelling\<close> on \<open>labelled\<close>, by which
    cached hashes are right and clean nodes are stored: the root hash is the same exactly for
    the same content, and a trie opened from the root hash of a commit is the committed one.

  \<^bold>\<open>Scheduling\<close> (\<^verbatim>\<open>src/core\<close>, \<^verbatim>\<open>src/dag\<close>, \<^verbatim>\<open>src/consensus/mediatorplugin\<close>).
  \<^item> \<open>GoTime\<close> is what the code uses of Go's package \<^verbatim>\<open>time\<close>; \<open>Unit\<close> the units of \<^verbatim>\<open>dag/modules/unit.go\<close>.
  \<^item> \<open>Mediator\<close> has the chain parameters, the global and dynamic properties and the shuffled schedule
    (\<^verbatim>\<open>global_property.go\<close>, \<^verbatim>\<open>mediator_schedule.go\<close> of \<^verbatim>\<open>dag/modules\<close>).  The shuffle is a permutation of the
    active mediators, and \<^verbatim>\<open>GetSlotAtTime\<close> returns the last slot that has begun.
  \<^item> \<open>PropertyDb\<close> stores them (\<^verbatim>\<open>dag/storage\<close>): every value goes through the models of the encoder and the
    decoder, and a failing decoder leaves behind the fields it has read.
  \<^item> \<open>DagSchedule\<close> is \<^verbatim>\<open>dag/mediator_schedule.go\<close> with \<^verbatim>\<open>ApplyUnit\<close> of \<^verbatim>\<open>dag/unit_production.go\<close>.  Applying units
    to the database refines the plain fold of \<open>nextState\<close>, as long as times lie before 2038 and no
    mediator has missed more than 127 units; beyond these bounds data is lost, or the node panics.
  \<^item> \<open>MediatorPlugin\<close> is the node that produces units.  Its locale \<open>slot_clock\<close> states what it relies on
    of the DAG and is interpreted on \<open>DagSchedule\<close>: units are only made in turn, and every active
    mediator gets its turn within one round.
  \<^item> \<open>ThresholdSign\<close> is the collection of signature shares.  The goroutines are the steps of the
    relation \<open>tblsStep\<close>; the theorems hold of every reachable state, hence of every interleaving.

  \<^bold>\<open>Fuel and bounds.\<close>  The decoder takes fuel, since its recursion follows input and type.  On a type
  accepted by \<open>loopFree\<close>, fuel one more than twice the length of the input always suffices
  (\<open>decoder_returns\<close>), and \<open>decodeAll\<close> of \<open>PropertyDb\<close> uses it; every stored type is such a type.  The
  loop of the engine is a total function, by a measure of what is left of the scripts.  The decoder of
  trie nodes takes the length of the input as its bound, which is never reached (\<open>decodeNested_enough\<close>).
  Operations on a trie take a bound on the nodes they pass; enough is the depth to which the trie can be
  loaded and two for every operation (\<open>trieRepr\<close>).  Those on the references of the trie database
  take a bound above the rank of the root, where a child has a lower rank than its parent (\<open>ranked\<close>).  The loops
  \<open>countLoop\<close> and \<open>mergeScripts\<close> are partial functions; the first is shown to return always, the second
  in every case but one, in which the code recurses for ever.  Times are
  assumed within 32 bit seconds where a theorem says so (\<open>inEra\<close>, \<open>timely\<close>, \<open>clockOK\<close>).

  \<^bold>\<open>Not modelled.\<close>
  \<^item> Of the components above: renderings for the console, disassembly, JSON, the RLP of maps and of
    types with methods of their own, iteration over database prefixes, the pools in which unit
    production finds its transactions (\<^verbatim>\<open>CreateUnit\<close> behind the argument \<open>gen\<close> of \<open>dagIface\<close>), saving the
    unit in the background, and the deals and responses of the key generation.  Reads and writes of
    the plugin's maps by several goroutines are taken to be atomic; the code does not lock them.
  \<^item> Iteration over tries, Merkle proofs, the wrapper that hashes keys and the download scheduler (the
    rest of \<^verbatim>\<open>common/trie\<close>), and the locks, timers, metrics and log output of the modelled files.
  \<^item> The rest of the DAG storage, the transaction pool and the memory DAG: maps with locks, timers
    and event feeds around leveldb, with records that are in part untyped.
  \<^item> Contracts and virtual machines (docker and gRPC), peer-to-peer networking and synchronisation,
    node start-up, accounts, RPC, command line, dashboard: I/O, generated code, or packages taken over
    from other projects that the modelled parts do not call.
\<close>

end
